(* ===== verification/Rust_Prelude.thy ===== *)
theory Rust_Prelude
  imports Main "HOL-Library.Word" "HOL-Library.Monad_Syntax"
begin

text \<open>
  What every component theory shares: the Rust primitives the sources use
  (indexing and slicing that panic out of range, checked subtraction,
  \<open>Vec\<close> and slice operations, \<open>HashMap\<close>, bit flags), the collections of
  facts that carry the component proofs, and generic list lemmas.

  A panic is the value \<open>None\<close>: an operation that may index out of bounds, or
  subtract below zero on an unsigned integer, returns an \<open>option\<close>, and a
  component shows that its operations return \<open>Some\<close> on well-formed states.
  \<open>usize\<close> is \<open>nat\<close>: the sources use it for sizes of allocated objects, far below
  the 64-bit bound; the flag words and the protocol integers keep their width.
\<close>

named_theorems panic_defs "definitions that unfold a partial operation into its bounds check"
named_theorems wf_intros "preservation of well-formedness by the operations"

type_synonym usize = nat
type_synonym u8 = "8 word"
type_synonym u16 = "16 word"
type_synonym u32 = "32 word"
type_synonym u64 = "64 word"

section \<open>Characters and strings\<close>

text \<open>A \<open>char\<close> is its code point and a \<open>str\<close> the list of its characters; \<open>str_len\<close> is its
  length in bytes.\<close>

type_synonym rust_char = nat
type_synonym rust_str = "rust_char list"

definition len_utf8 :: "rust_char \<Rightarrow> nat" where
  "len_utf8 c = (if c < 0x80 then 1 else if c < 0x800 then 2 else if c < 0x10000 then 3 else 4)"

definition str_len :: "rust_char list \<Rightarrow> nat" where
  "str_len cs = sum_list (map len_utf8 cs)"

section \<open>Indexing, slicing and subtraction that panic\<close>

definition checked_sub :: "nat \<Rightarrow> nat \<Rightarrow> nat option" where
  [panic_defs]: "checked_sub a b = (if b \<le> a then Some (a - b) else None)"

definition vec_get :: "'a list \<Rightarrow> nat \<Rightarrow> 'a option" where
  [panic_defs]: "vec_get xs i = (if i < length xs then Some (xs ! i) else None)"

definition vec_set :: "'a list \<Rightarrow> nat \<Rightarrow> 'a \<Rightarrow> 'a list option" where
  [panic_defs]: "vec_set xs i x = (if i < length xs then Some (xs[i := x]) else None)"

definition vec_swap :: "'a list \<Rightarrow> nat \<Rightarrow> nat \<Rightarrow> 'a list option" where
  [panic_defs]: "vec_swap xs i j =
     (if i < length xs \<and> j < length xs then Some (xs[i := xs ! j, j := xs ! i]) else None)"

text \<open>\<open>for x in &mut xs[s..e]\<close>: every element of the slice is updated in place.\<close>

definition map_range :: "nat \<Rightarrow> nat \<Rightarrow> ('a \<Rightarrow> 'a) \<Rightarrow> 'a list \<Rightarrow> 'a list" where
  "map_range s e f xs = take s xs @ map f (take (e - s) (drop s xs)) @ drop (max s e) xs"

lemma length_map_range [simp]: "length (map_range s e f xs) = length xs"
  by (auto simp: map_range_def)

lemma nth_map_range:
  "i < length xs \<Longrightarrow> map_range s e f xs ! i = (if s \<le> i \<and> i < e then f (xs ! i) else xs ! i)"
  by (auto simp: map_range_def nth_append max_def min_def)

lemma map_range_empty [simp]: "e \<le> s \<Longrightarrow> map_range s e f xs = xs"
  by (intro nth_equalityI) (auto simp: nth_map_range)

lemma map_range_full: "length xs \<le> e \<Longrightarrow> map_range 0 e f xs = map f xs"
  by (intro nth_equalityI) (auto simp: nth_map_range)

lemma map_range_eq_Nil [simp]: "map_range s e f xs = [] \<longleftrightarrow> xs = []"
  by (metis length_0_conv length_map_range)

section \<open>Rotation\<close>

definition rotate_left :: "nat \<Rightarrow> 'a list \<Rightarrow> 'a list" where
  "rotate_left n xs = drop n xs @ take n xs"

lemma length_rotate_left [simp]: "length (rotate_left n xs) = length xs"
  by (simp add: rotate_left_def)

lemma set_rotate_left [simp]: "set (rotate_left n xs) = set xs"
  by (metis append_take_drop_id rotate_left_def set_append sup_commute)

lemma nth_rotate_left:
  assumes "n \<le> length xs" "i < length xs"
  shows "rotate_left n xs ! i = xs ! (if n + i < length xs then n + i else n + i - length xs)"
  using assms by (auto simp: rotate_left_def nth_append add.commute)

section \<open>Bit flags\<close>

unbundle bit_operations_syntax

definition bf_contains :: "'a::len word \<Rightarrow> 'a word \<Rightarrow> bool" where
  "bf_contains x f \<longleftrightarrow> x AND f = f"

definition bf_intersects :: "'a::len word \<Rightarrow> 'a word \<Rightarrow> bool" where
  "bf_intersects x f \<longleftrightarrow> x AND f \<noteq> 0"

definition bf_insert :: "'a::len word \<Rightarrow> 'a word \<Rightarrow> 'a word" where
  "bf_insert x f = x OR f"

definition bf_remove :: "'a::len word \<Rightarrow> 'a word \<Rightarrow> 'a word" where
  "bf_remove x f = x AND NOT f"

definition bf_set :: "'a::len word \<Rightarrow> 'a word \<Rightarrow> bool \<Rightarrow> 'a word" where
  "bf_set x f b = (if b then bf_insert x f else bf_remove x f)"

lemmas bf_defs = bf_contains_def bf_intersects_def bf_insert_def bf_remove_def bf_set_def

lemma bf_contains_insert [simp]: "bf_contains (bf_insert x f) f"
  by (rule bit_word_eqI [THEN bf_contains_def [THEN iffD2]]) (auto simp: bit_simps bf_insert_def)

lemma bf_intersects_remove [simp]: "\<not> bf_intersects (bf_remove x f) f"
  by (auto simp: bf_intersects_def bf_remove_def bit_eq_iff bit_simps)

lemma bf_contains_disjoint_remove:
  "f AND g = 0 \<Longrightarrow> bf_contains (bf_remove x g) f = bf_contains x f"
  by (auto simp: bf_contains_def bf_remove_def bit_eq_iff bit_simps)

lemma bf_contains_disjoint_insert:
  "f AND g = 0 \<Longrightarrow> bf_contains (bf_insert x g) f = bf_contains x f"
  by (auto simp: bf_contains_def bf_insert_def bit_eq_iff bit_simps)

lemma bf_intersects_disjoint_insert:
  "f AND g = 0 \<Longrightarrow> bf_intersects (bf_insert x g) f = bf_intersects x f"
  by (auto simp: bf_intersects_def bf_insert_def bit_eq_iff bit_simps)

section \<open>Loops that may panic\<close>

text \<open>\<open>for x in xs { ... }\<close> over a state, where the body may panic.\<close>

primrec fold_m :: "('a \<Rightarrow> 's \<Rightarrow> 's option) \<Rightarrow> 'a list \<Rightarrow> 's \<Rightarrow> 's option" where
  "fold_m f [] s = Some s"
| "fold_m f (x # xs) s = do { s' \<leftarrow> f x s; fold_m f xs s' }"

lemma fold_m_append:
  "fold_m f (xs @ ys) s = do { s' \<leftarrow> fold_m f xs s; fold_m f ys s' }"
  by (induction xs arbitrary: s) (auto simp: bind_assoc split: bind_splits)

lemma fold_m_snoc: "fold_m f (xs @ [x]) s = do { s' \<leftarrow> fold_m f xs s; f x s' }"
  by (simp add: fold_m_append)

text \<open>A loop whose body never panics under an invariant and keeps it.\<close>

lemma fold_m_inv:
  assumes "P s"
    and "\<And>x s. x \<in> set xs \<Longrightarrow> P s \<Longrightarrow> \<exists>s'. f x s = Some s' \<and> P s'"
  shows "\<exists>s'. fold_m f xs s = Some s' \<and> P s'"
  using assms
proof (induction xs arbitrary: s)
  case (Cons x xs)
  then obtain s' where "f x s = Some s'" "P s'" by (meson list.set_intros(1))
  with Cons.IH [of s'] Cons.prems(2) show ?case by auto
qed simp

text \<open>Elimination of a bind whose first action is known to succeed.\<close>

lemma bind_ex_Some:
  "\<exists>x. m = Some x \<and> P x \<Longrightarrow> (\<And>x. P x \<Longrightarrow> \<exists>y. k x = Some y \<and> Q y) \<Longrightarrow>
   \<exists>y. Option.bind m k = Some y \<and> Q y"
  by auto

end
