(* ===== verification/Row.thy ===== *)
theory Row
  imports Rust_Prelude
begin

text \<open>
  Cells and rows of the terminal grid
  (\<^verbatim>\<open>crates/warp_terminal/src/model/grid/cell.rs\<close> and \<^verbatim>\<open>row.rs\<close>).
  A row keeps its cells and \<open>occ\<close>, the bound on the cells modified since the last
  reset, which lets \<open>reset\<close> touch only the dirty prefix.  \<open>row_clean\<close> is the
  invariant that makes this optimisation correct; the lemmas show which of the
  row operations keep it, and that under it \<open>reset\<close> really blanks the row.
\<close>

section \<open>Colours and cells\<close>

datatype named_color =
    Black | Red | Green | Yellow | Blue | Magenta | Cyan | White
  | BrightBlack | BrightRed | BrightGreen | BrightYellow | BrightBlue | BrightMagenta
  | BrightCyan | BrightWhite | Foreground | Background | Cursor
  | DimBlack | DimRed | DimGreen | DimYellow | DimBlue | DimMagenta | DimCyan | DimWhite
  | BrightForeground | DimForeground

datatype color = Named named_color | Spec u8 u8 u8 u8 | Indexed u8

definition DEFAULT_CHAR :: rust_char where "DEFAULT_CHAR = 0"

definition MAX_GRAPHEME_BYTES :: nat where "MAX_GRAPHEME_BYTES = 256"

definition INVERSE :: u16 where "INVERSE = 0x0001"
definition BOLD :: u16 where "BOLD = 0x0002"
definition ITALIC :: u16 where "ITALIC = 0x0004"
definition UNDERLINE :: u16 where "UNDERLINE = 0x0008"
definition WRAPLINE :: u16 where "WRAPLINE = 0x0010"
definition WIDE_CHAR :: u16 where "WIDE_CHAR = 0x0020"
definition WIDE_CHAR_SPACER :: u16 where "WIDE_CHAR_SPACER = 0x0040"
definition DIM :: u16 where "DIM = 0x0080"
definition HIDDEN :: u16 where "HIDDEN = 0x0100"
definition STRIKEOUT :: u16 where "STRIKEOUT = 0x0200"
definition LEADING_WIDE_CHAR_SPACER :: u16 where "LEADING_WIDE_CHAR_SPACER = 0x0400"
definition DOUBLE_UNDERLINE :: u16 where "DOUBLE_UNDERLINE = 0x0800"
definition HAS_CURSOR :: u16 where "HAS_CURSOR = 0x1000"

lemmas cell_flag_defs = INVERSE_def BOLD_def ITALIC_def UNDERLINE_def WRAPLINE_def WIDE_CHAR_def
  WIDE_CHAR_SPACER_def DIM_def HIDDEN_def STRIKEOUT_def LEADING_WIDE_CHAR_SPACER_def
  DOUBLE_UNDERLINE_def HAS_CURSOR_def

record cell_extra =
  ce_zerowidth :: "rust_char list option"
  ce_end_of_prompt :: "bool option"

record cell =
  c_char :: rust_char
  c_fg :: color
  c_bg :: color
  c_flags :: u16
  c_extra :: "cell_extra option"

definition cell_default :: cell where
  "cell_default = \<lparr>c_char = DEFAULT_CHAR, c_fg = Named Foreground, c_bg = Named Background,
                   c_flags = 0, c_extra = None\<rparr>"

definition cell_from :: "color \<Rightarrow> cell" where
  "cell_from col = cell_default\<lparr>c_bg := col\<rparr>"

definition cell_reset :: "cell \<Rightarrow> cell \<Rightarrow> cell" where
  "cell_reset template c = cell_default\<lparr>c_bg := c_bg template\<rparr>"

definition discriminant :: "cell \<Rightarrow> color" where
  "discriminant c = c_bg c"

definition content_with_zerowidth :: "cell \<Rightarrow> rust_char list option" where
  "content_with_zerowidth c = Option.bind (c_extra c) ce_zerowidth"

definition raw_content :: "cell \<Rightarrow> rust_char list" where
  "raw_content c = (case content_with_zerowidth c of Some s \<Rightarrow> s | None \<Rightarrow> [c_char c])"

definition content_for_display :: "cell \<Rightarrow> rust_char list" where
  "content_for_display c =
     (case content_with_zerowidth c of
        Some s \<Rightarrow> s
      | None \<Rightarrow> if c_char c = DEFAULT_CHAR then [0x20] else [c_char c])"

definition push_zerowidth :: "rust_char \<Rightarrow> cell \<Rightarrow> cell" where
  "push_zerowidth ch c0 =
     (let c = (if c_char c0 = DEFAULT_CHAR then c0\<lparr>c_char := 0x20\<rparr> else c0);
          extra = (case c_extra c of Some e \<Rightarrow> e
                   | None \<Rightarrow> \<lparr>ce_zerowidth = None, ce_end_of_prompt = None\<rparr>)
      in case ce_zerowidth extra of
           Some zw \<Rightarrow>
             if str_len zw + len_utf8 ch > MAX_GRAPHEME_BYTES
             then c\<lparr>c_extra := Some extra\<rparr>
             else c\<lparr>c_extra := Some (extra\<lparr>ce_zerowidth := Some (zw @ [ch])\<rparr>)\<rparr>
         | None \<Rightarrow> c\<lparr>c_extra := Some (extra\<lparr>ce_zerowidth := Some [c_char c, ch]\<rparr>)\<rparr>)"

definition end_of_prompt_marker :: "cell \<Rightarrow> bool option" where
  "end_of_prompt_marker c = Option.bind (c_extra c) ce_end_of_prompt"

definition is_end_of_prompt :: "cell \<Rightarrow> bool" where
  "is_end_of_prompt c \<longleftrightarrow> end_of_prompt_marker c \<noteq> None"

definition mark_end_of_prompt :: "bool \<Rightarrow> cell \<Rightarrow> cell" where
  "mark_end_of_prompt nl c =
     c\<lparr>c_extra := Some ((case c_extra c of Some e \<Rightarrow> e
                         | None \<Rightarrow> \<lparr>ce_zerowidth = None, ce_end_of_prompt = None\<rparr>)
                        \<lparr>ce_end_of_prompt := Some nl\<rparr>)\<rparr>"

definition drop_extra :: "cell \<Rightarrow> cell" where
  "drop_extra c =
     (case c_extra c of
        None \<Rightarrow> c
      | Some e \<Rightarrow>
          (case ce_end_of_prompt e of
             Some nl \<Rightarrow> mark_end_of_prompt nl (c\<lparr>c_extra := None\<rparr>)
           | None \<Rightarrow> c\<lparr>c_extra := None\<rparr>))"

definition cell_is_empty :: "cell \<Rightarrow> bool" where
  "cell_is_empty c \<longleftrightarrow>
     c_char c = DEFAULT_CHAR \<and> c_bg c = Named Background \<and> c_fg c = Named Foreground \<and>
     \<not> bf_intersects (c_flags c)
         (INVERSE OR UNDERLINE OR DOUBLE_UNDERLINE OR STRIKEOUT OR WRAPLINE
          OR WIDE_CHAR_SPACER OR LEADING_WIDE_CHAR_SPACER OR HAS_CURSOR)"

definition is_ascii_whitespace :: "rust_char \<Rightarrow> bool" where
  "is_ascii_whitespace c \<longleftrightarrow> c \<in> {0x20, 0x09, 0x0A, 0x0C, 0x0D}"

definition cell_is_visible :: "cell \<Rightarrow> bool" where
  "cell_is_visible c \<longleftrightarrow> \<not> cell_is_empty c \<and> \<not> is_ascii_whitespace (c_char c)"

section \<open>Rows\<close>

record row =
  row_inner :: "cell list"
  row_occ :: nat

definition row_len :: "row \<Rightarrow> nat" where
  "row_len r = length (row_inner r)"

definition row_new :: "nat \<Rightarrow> row" where
  "row_new cols = \<lparr>row_inner = replicate cols cell_default, row_occ = 0\<rparr>"

definition row_grow :: "nat \<Rightarrow> row \<Rightarrow> row" where
  "row_grow cols r =
     (if row_len r \<ge> cols then r
      else r\<lparr>row_inner := row_inner r @ replicate (cols - row_len r) cell_default\<rparr>)"

text \<open>The cells removed by \<open>shrink\<close>, without the trailing empty ones.\<close>

definition trim_empty_cells :: "cell list \<Rightarrow> cell list" where
  "trim_empty_cells cs =
     rev (dropWhile (\<lambda>c. \<not> (\<not> cell_is_empty c \<or> is_end_of_prompt c)) (rev cs))"

definition row_shrink :: "nat \<Rightarrow> row \<Rightarrow> row \<times> cell list option" where
  "row_shrink cols r =
     (if row_len r \<le> cols then (r, None)
      else let new_row = trim_empty_cells (drop cols (row_inner r));
               r' = \<lparr>row_inner = take cols (row_inner r), row_occ = min (row_occ r) cols\<rparr>
           in (r', if new_row = [] then None else Some new_row))"

definition row_truncate :: "nat \<Rightarrow> row \<Rightarrow> row" where
  "row_truncate cols r = r\<lparr>row_inner := take cols (row_inner r)\<rparr>"

definition row_reset :: "cell \<Rightarrow> row \<Rightarrow> row option" where
  "row_reset template r = do {
     lastc \<leftarrow> (if row_inner r = [] then None else Some (last (row_inner r)));
     let occ = (if discriminant lastc \<noteq> discriminant template then row_len r else row_occ r);
     if occ > row_len r then None
     else Some \<lparr>row_inner = map_range 0 occ (cell_reset template) (row_inner r), row_occ = 0\<rparr>
   }"

definition row_get :: "nat \<Rightarrow> row \<Rightarrow> cell option" where
  "row_get i r = (if i < row_len r then Some (row_inner r ! i) else None)"

definition row_append :: "cell list \<Rightarrow> row \<Rightarrow> row" where
  "row_append v r = \<lparr>row_inner = row_inner r @ v, row_occ = row_occ r + length v\<rparr>"

definition row_append_front :: "cell list \<Rightarrow> row \<Rightarrow> row" where
  "row_append_front v r = \<lparr>row_inner = v @ row_inner r, row_occ = row_occ r + length v\<rparr>"

definition row_is_clear :: "row \<Rightarrow> bool" where
  "row_is_clear r \<longleftrightarrow> list_all cell_is_empty (row_inner r)"

definition has_no_end_of_prompt_marker :: "row \<Rightarrow> bool" where
  "has_no_end_of_prompt_marker r \<longleftrightarrow> list_all (\<lambda>c. \<not> is_end_of_prompt c) (row_inner r)"

definition row_front_split_off :: "nat \<Rightarrow> row \<Rightarrow> (row \<times> cell list) option" where
  "row_front_split_off at r =
     (if at \<le> row_len r
      then Some (\<lparr>row_inner = drop at (row_inner r), row_occ = row_occ r - at\<rparr>,
                 take at (row_inner r))
      else None)"

definition dirty_cells :: "row \<Rightarrow> cell list option" where
  "dirty_cells r = (if row_occ r \<le> row_len r then Some (take (row_occ r) (row_inner r)) else None)"

text \<open>
  The \<open>IndexMut\<close> implementations.  Each takes the update that the caller makes
  through the mutable reference.
\<close>

definition row_mut_at :: "nat \<Rightarrow> (cell \<Rightarrow> cell) \<Rightarrow> row \<Rightarrow> row option" where
  [panic_defs]: "row_mut_at i f r =
     (if i < row_len r
      then Some \<lparr>row_inner = (row_inner r)[i := f (row_inner r ! i)], row_occ = max (row_occ r) (i + 1)\<rparr>
      else None)"

definition row_mut_range :: "nat \<Rightarrow> nat \<Rightarrow> (cell \<Rightarrow> cell) \<Rightarrow> row \<Rightarrow> row option" where
  [panic_defs]: "row_mut_range s e f r =
     (if s \<le> e \<and> e \<le> row_len r
      then Some \<lparr>row_inner = map_range s e f (row_inner r), row_occ = max (row_occ r) e\<rparr>
      else None)"

definition row_mut_to :: "nat \<Rightarrow> (cell \<Rightarrow> cell) \<Rightarrow> row \<Rightarrow> row option" where
  [panic_defs]: "row_mut_to e f r =
     (if e \<le> row_len r
      then Some \<lparr>row_inner = map_range 0 e f (row_inner r), row_occ = max (row_occ r) e\<rparr>
      else None)"

definition row_mut_from :: "nat \<Rightarrow> (cell \<Rightarrow> cell) \<Rightarrow> row \<Rightarrow> row option" where
  [panic_defs]: "row_mut_from s f r =
     (if s \<le> row_len r
      then Some \<lparr>row_inner = map_range s (row_len r) f (row_inner r), row_occ = row_len r\<rparr>
      else None)"

definition row_mut_full :: "(cell \<Rightarrow> cell) \<Rightarrow> row \<Rightarrow> row" where
  "row_mut_full f r = \<lparr>row_inner = map f (row_inner r), row_occ = row_len r\<rparr>"

definition row_mut_to_inclusive :: "nat \<Rightarrow> (cell \<Rightarrow> cell) \<Rightarrow> row \<Rightarrow> row option" where
  [panic_defs]: "row_mut_to_inclusive e f r =
     (if e < row_len r
      then Some \<lparr>row_inner = map_range 0 (e + 1) f (row_inner r), row_occ = max (row_occ r) e\<rparr>
      else None)"

text \<open>The whole row as one mutable slice, on which the caller may run several
  (possibly panicking) slice operations.\<close>

definition row_mut_slice :: "(cell list \<Rightarrow> cell list option) \<Rightarrow> row \<Rightarrow> row option" where
  "row_mut_slice f r = do {
     inner \<leftarrow> f (row_inner r);
     Some \<lparr>row_inner = inner, row_occ = row_len r\<rparr>
   }"

definition line_length :: "row \<Rightarrow> nat" where
  "line_length r =
     (if row_len r = 0 then 0
      else if bf_contains (c_flags (last (row_inner r))) WRAPLINE then row_len r
      else length (dropWhile (\<lambda>c. c_char c = DEFAULT_CHAR) (rev (row_inner r))))"

section \<open>The dirty-prefix invariant\<close>

text \<open>
  \<open>row_clean\<close>: \<open>occ\<close> is within the row, and the cells from \<open>occ\<close> on are blank
  cells with the background of the last cell, the one \<open>reset\<close> compares the
  template with.
\<close>

definition row_clean :: "row \<Rightarrow> bool" where
  "row_clean r \<longleftrightarrow>
     row_inner r \<noteq> [] \<and> row_occ r \<le> row_len r \<and>
     list_all (\<lambda>c. c = cell_from (c_bg (last (row_inner r)))) (drop (row_occ r) (row_inner r))"

definition row_ok :: "nat \<Rightarrow> row \<Rightarrow> bool" where
  "row_ok cols r \<longleftrightarrow> row_len r = cols \<and> row_clean r"

lemma row_clean_nth:
  "row_clean r \<longleftrightarrow>
     row_inner r \<noteq> [] \<and> row_occ r \<le> row_len r \<and>
     (\<forall>i. row_occ r \<le> i \<longrightarrow> i < row_len r \<longrightarrow>
        row_inner r ! i = cell_from (c_bg (row_inner r ! (row_len r - 1))))"
proof -
  have "list_all P (drop n xs) \<longleftrightarrow> (\<forall>i. n \<le> i \<longrightarrow> i < length xs \<longrightarrow> P (xs ! i))"
    for P :: "cell \<Rightarrow> bool" and n xs
  proof (intro iffI allI impI)
    fix i assume "list_all P (drop n xs)" "n \<le> i" "i < length xs"
    moreover have "drop n xs ! (i - n) = xs ! i" "i - n < length (drop n xs)"
      using \<open>n \<le> i\<close> \<open>i < length xs\<close> by simp_all
    ultimately show "P (xs ! i)" by (metis list_all_length)
  qed (simp add: list_all_length)
  note drop_iff = this
  show ?thesis
    unfolding row_clean_def drop_iff row_len_def by (metis last_conv_nth)
qed

lemma c_bg_cell_from [simp]: "c_bg (cell_from b) = b"
  by (simp add: cell_from_def)

lemma cell_reset_eq [simp]: "cell_reset t c = cell_from (c_bg t)"
  by (simp add: cell_reset_def cell_from_def)

lemma cell_default_eq: "cell_default = cell_from (Named Background)"
  by (simp add: cell_from_def cell_default_def)

definition row_blank :: "nat \<Rightarrow> color \<Rightarrow> row" where
  "row_blank cols b = \<lparr>row_inner = replicate cols (cell_from b), row_occ = 0\<rparr>"

lemma row_ok_blank [wf_intros]: "0 < cols \<Longrightarrow> row_ok cols (row_blank cols b)"
  by (auto simp: row_ok_def row_clean_def row_len_def row_blank_def list_all_iff last_replicate)

lemma row_new_blank: "row_new cols = row_blank cols (Named Background)"
  by (simp add: row_new_def row_blank_def cell_default_eq)

lemma row_ok_new [wf_intros]: "0 < cols \<Longrightarrow> row_ok cols (row_new cols)"
  by (simp add: row_new_blank row_ok_blank)

lemma row_reset_blank:
  assumes "row_ok cols r"
  shows "row_reset template r = Some (row_blank cols (c_bg template))"
proof -
  let ?L = "row_len r - 1"
  have r: "row_inner r \<noteq> []" "row_occ r \<le> row_len r" "row_len r = cols"
    and tail: "\<And>i. row_occ r \<le> i \<Longrightarrow> i < row_len r \<Longrightarrow>
                 row_inner r ! i = cell_from (c_bg (row_inner r ! ?L))"
    using assms unfolding row_ok_def row_clean_nth by blast+
  define occ where "occ = (if discriminant (last (row_inner r)) \<noteq> discriminant template
                           then row_len r else row_occ r)"
  have occ: "occ \<le> row_len r" using r by (simp add: occ_def)
  have "map_range 0 occ (cell_reset template) (row_inner r) = replicate cols (cell_from (c_bg template))"
  proof (intro nth_equalityI)
    fix i assume "i < length (map_range 0 occ (cell_reset template) (row_inner r))"
    then have i: "i < row_len r" by (simp add: row_len_def)
    have "row_inner r ! i = cell_from (c_bg template)" if "\<not> i < occ"
      using that i tail [of i] r
      by (simp add: occ_def discriminant_def last_conv_nth row_len_def split: if_splits)
    then show "map_range 0 occ (cell_reset template) (row_inner r) ! i =
               replicate cols (cell_from (c_bg template)) ! i"
      using i r(3) by (simp add: nth_map_range row_len_def)
  qed (use r in \<open>simp add: row_len_def\<close>)
  then show ?thesis
    using r occ by (simp add: row_reset_def occ_def [symmetric] row_blank_def)
qed

section \<open>The contract shared by the mutable views of a row\<close>

text \<open>
  A mutable view updates cells below a bound \<open>hi\<close> and raises \<open>occ\<close> to it.  Every
  view that keeps this contract keeps the dirty-prefix invariant.
\<close>

locale row_mutator =
  fixes mut :: "(cell \<Rightarrow> cell) \<Rightarrow> row \<Rightarrow> row option"
    and hi :: "row \<Rightarrow> nat"
  assumes mut_len: "mut f r = Some r' \<Longrightarrow> row_len r' = row_len r"
    and mut_occ: "mut f r = Some r' \<Longrightarrow> row_occ r \<le> row_len r \<Longrightarrow>
                   row_occ r \<le> row_occ r' \<and> hi r \<le> row_occ r' \<and> row_occ r' \<le> row_len r"
    and mut_above: "mut f r = Some r' \<Longrightarrow> hi r \<le> i \<Longrightarrow> i < row_len r \<Longrightarrow>
                     row_inner r' ! i = row_inner r ! i"
begin

lemma mut_ok:
  assumes ok: "row_ok cols r" and m: "mut f r = Some r'"
  shows "row_ok cols r'"
proof -
  have r: "row_inner r \<noteq> []" "row_occ r \<le> row_len r" "row_len r = cols"
    and tail: "\<And>i. row_occ r \<le> i \<Longrightarrow> i < row_len r \<Longrightarrow>
                 row_inner r ! i = cell_from (c_bg (row_inner r ! (row_len r - 1)))"
    using ok unfolding row_ok_def row_clean_nth by blast+
  note occ = mut_occ [OF m r(2)] and len = mut_len [OF m]
  have same: "row_inner r' ! i = row_inner r ! i" if "row_occ r' \<le> i" "i < row_len r" for i
    using mut_above [OF m, of i] occ that by simp
  have "row_inner r' ! i = cell_from (c_bg (row_inner r' ! (row_len r' - 1)))"
    if i: "row_occ r' \<le> i" "i < row_len r'" for i
  proof -
    have last: "row_occ r' \<le> row_len r - 1" "row_len r - 1 < row_len r"
      using i len by auto
    have "row_inner r' ! i = row_inner r ! i"
      using same [of i] i len by simp
    also have "\<dots> = cell_from (c_bg (row_inner r ! (row_len r - 1)))"
      by (rule tail) (use i occ len in auto)
    also have "row_inner r ! (row_len r - 1) = row_inner r' ! (row_len r' - 1)"
      using same [OF last] len by simp
    finally show ?thesis .
  qed
  moreover have "row_inner r' \<noteq> []" using len r by (auto simp: row_len_def)
  moreover have "row_occ r' \<le> row_len r'" "row_len r' = cols"
    using occ len r by simp_all
  ultimately show ?thesis
    unfolding row_ok_def row_clean_nth by blast
qed

end

interpretation at_mut: row_mutator "row_mut_at i" "\<lambda>_. i + 1"
  by unfold_locales (auto simp: row_mut_at_def row_len_def split: if_splits)

interpretation range_mut: row_mutator "row_mut_range s e" "\<lambda>_. e"
  by unfold_locales (auto simp: row_mut_range_def row_len_def nth_map_range split: if_splits)

interpretation to_mut: row_mutator "row_mut_to e" "\<lambda>_. e"
  by unfold_locales (auto simp: row_mut_to_def row_len_def nth_map_range split: if_splits)

interpretation from_mut: row_mutator "row_mut_from s" "row_len"
  by unfold_locales (auto simp: row_mut_from_def row_len_def split: if_splits)

interpretation full_mut: row_mutator "\<lambda>f r. Some (row_mut_full f r)" "row_len"
  by unfold_locales (auto simp: row_mut_full_def row_len_def)

lemma row_mut_slice_ok:
  assumes "row_ok cols r" "\<exists>xs. f (row_inner r) = Some xs \<and> length xs = row_len r"
  shows "\<exists>r'. row_mut_slice f r = Some r' \<and> row_ok cols r'"
  using assms by (auto simp: row_mut_slice_def row_ok_def row_clean_def row_len_def)

lemmas row_mut_ok [wf_intros] =
  at_mut.mut_ok range_mut.mut_ok to_mut.mut_ok from_mut.mut_ok full_mut.mut_ok [OF _ refl]

section \<open>Rows reachable through the row operations\<close>

text \<open>
  The rows a grid of a fixed width can hold: created blank, reset to a template,
  and modified through the mutable views (all but the inclusive one, below).
\<close>

inductive row_reach :: "nat \<Rightarrow> row \<Rightarrow> bool" for cols where
  reach_new: "row_reach cols (row_new cols)"
| reach_reset: "row_reach cols r \<Longrightarrow> row_reset t r = Some r' \<Longrightarrow> row_reach cols r'"
| reach_at: "row_reach cols r \<Longrightarrow> row_mut_at i f r = Some r' \<Longrightarrow> row_reach cols r'"
| reach_range: "row_reach cols r \<Longrightarrow> row_mut_range s e f r = Some r' \<Longrightarrow> row_reach cols r'"
| reach_to: "row_reach cols r \<Longrightarrow> row_mut_to e f r = Some r' \<Longrightarrow> row_reach cols r'"
| reach_from: "row_reach cols r \<Longrightarrow> row_mut_from s f r = Some r' \<Longrightarrow> row_reach cols r'"
| reach_full: "row_reach cols r \<Longrightarrow> row_reach cols (row_mut_full f r)"
| reach_slice: "row_reach cols r \<Longrightarrow> row_mut_slice g r = Some r' \<Longrightarrow> row_len r' = cols \<Longrightarrow>
                row_reach cols r'"

lemma row_reach_ok:
  assumes "0 < cols" "row_reach cols r"
  shows "row_ok cols r"
  using assms(2,1)
proof (induction rule: row_reach.induct)
  case (reach_reset r t r')
  then show ?case by (auto simp: row_reset_blank intro: row_ok_blank)
next
  case (reach_slice r g r')
  then obtain xs where xs: "g (row_inner r) = Some xs" "r' = \<lparr>row_inner = xs, row_occ = row_len r\<rparr>"
    by (auto simp: row_mut_slice_def bind_eq_Some_conv)
  with reach_slice show ?case
    by (auto simp: row_ok_def row_clean_def row_len_def)
qed (blast intro: wf_intros)+

text \<open>whatever sequence of mutable views a row went through since it was
  created, \<open>Row::reset\<close>, which rewrites only the first \<open>occ\<close> cells, does not panic
  and leaves every cell blank with the template's background.\<close>

theorem row_reset_correct:
  assumes "0 < cols" "row_reach cols r"
  shows "row_reset template r =
           Some \<lparr>row_inner = replicate cols (cell_from (c_bg template)), row_occ = 0\<rparr>"
  using row_reset_blank [OF row_reach_ok [OF assms]] by (simp add: row_blank_def)

theorem row_reset_correct_witness:
  "row_reset cell_default (row_mut_full (push_zerowidth 0x301) (row_new 2)) =
     Some \<lparr>row_inner = replicate 2 (cell_from (c_bg cell_default)), row_occ = 0\<rparr>"
  by (rule row_reset_correct) (auto intro: row_reach.intros)

text \<open>the inclusive view \<open>row[..=e]\<close> raises \<open>occ\<close> only to \<open>e\<close>, so a later
  \<open>reset\<close> with the same background leaves the cell \<open>e\<close> as the view wrote it.\<close>

theorem row_mut_to_inclusive_stale:
  assumes "e + 1 < cols"
  shows "\<exists>r r'. row_mut_to_inclusive e f (row_new cols) = Some r \<and>
           row_reset cell_default r = Some r' \<and> row_inner r' ! e = f cell_default"
proof -
  have last: "last (map_range 0 (e + 1) f (replicate cols cell_default)) = cell_default"
  proof -
    have "map_range 0 (e + 1) f (replicate cols cell_default) ! (cols - 1) = cell_default"
      using assms by (simp add: nth_map_range)
    moreover have "replicate cols cell_default \<noteq> []" using assms by auto
    ultimately show ?thesis by (simp add: last_conv_nth)
  qed
  show ?thesis
    using assms last
    by (auto simp: row_mut_to_inclusive_def row_new_def row_len_def row_reset_def nth_map_range)
qed

theorem row_mut_to_inclusive_stale_witness:
  "\<exists>r r'. row_mut_to_inclusive 0 (\<lambda>c. c\<lparr>c_char := 65\<rparr>) (row_new 2) = Some r \<and>
     row_reset cell_default r = Some r' \<and> row_inner r' ! 0 = cell_default\<lparr>c_char := 65\<rparr>"
  using row_mut_to_inclusive_stale [of 0 2 "\<lambda>c. c\<lparr>c_char := 65\<rparr>"] by simp

text \<open>a row that was reset to a coloured background and then grown has its
  coloured cells behind \<open>occ\<close> but a default last cell; the next \<open>reset\<close> to the
  default background skips them.\<close>

theorem row_grow_stale:
  assumes "0 < n" "n < m" "i < n"
  shows "\<exists>r. row_reset cell_default (row_grow m (row_blank n b)) = Some r \<and>
             row_inner r ! i = cell_from b"
proof -
  have "last (row_inner (row_grow m (row_blank n b))) = cell_default"
    using assms by (simp add: row_grow_def row_blank_def row_len_def)
  then show ?thesis
    using assms by (auto simp: row_reset_def row_grow_def row_blank_def row_len_def nth_append)
qed

theorem row_grow_stale_witness:
  "\<exists>r. row_reset cell_default (row_grow 3 (row_blank 2 (Named Red))) = Some r \<and>
       row_inner r ! 1 = cell_from (Named Red)"
  by (rule row_grow_stale) simp_all

section \<open>Grapheme bound, line length, shrinking\<close>

definition grapheme_ok :: "cell \<Rightarrow> bool" where
  "grapheme_ok c \<longleftrightarrow> str_len (raw_content c) \<le> MAX_GRAPHEME_BYTES"

lemma len_utf8_le: "len_utf8 c \<le> 4"
  by (simp add: len_utf8_def)

lemma str_len_simps [simp]:
  "str_len [] = 0" "str_len (c # cs) = len_utf8 c + str_len cs"
  "str_len (cs @ ds) = str_len cs + str_len ds"
  by (simp_all add: str_len_def)

lemma grapheme_ok_push:
  assumes "grapheme_ok c"
  shows "grapheme_ok (push_zerowidth ch c)"
proof -
  have "len_utf8 x + len_utf8 ch \<le> MAX_GRAPHEME_BYTES" for x
    using len_utf8_le [of x] len_utf8_le [of ch] by (simp add: MAX_GRAPHEME_BYTES_def)
  with assms show ?thesis
    by (auto simp: grapheme_ok_def push_zerowidth_def raw_content_def content_with_zerowidth_def
        Let_def split: option.splits if_splits)
qed

text \<open>The base character of a cell that holds zero-width characters.\<close>

definition has_base :: "rust_char \<Rightarrow> cell \<Rightarrow> bool" where
  "has_base b c \<longleftrightarrow>
     (case content_with_zerowidth c of Some s \<Rightarrow> s \<noteq> [] \<and> hd s = b | None \<Rightarrow> False)"

lemma has_base_push: "has_base b c \<Longrightarrow> has_base b (push_zerowidth ch c)"
  by (auto simp: has_base_def push_zerowidth_def content_with_zerowidth_def Let_def
      split: option.splits if_splits)

lemma has_base_push_first:
  "content_with_zerowidth c = None \<Longrightarrow>
     has_base (if c_char c = DEFAULT_CHAR then 0x20 else c_char c) (push_zerowidth ch c)"
  by (auto simp: has_base_def push_zerowidth_def content_with_zerowidth_def Let_def
      split: option.splits if_splits)

lemma has_base_fold: "has_base b c \<Longrightarrow> has_base b (fold push_zerowidth chs c)"
  by (induction chs arbitrary: c) (simp_all add: has_base_push)

lemma grapheme_ok_fold: "grapheme_ok c \<Longrightarrow> grapheme_ok (fold push_zerowidth chs c)"
  by (induction chs arbitrary: c) (simp_all add: grapheme_ok_push)

text \<open>however many zero-width characters are pushed onto a cell that started
  with a single character, its grapheme stays within \<open>MAX_GRAPHEME_BYTES\<close> bytes and
  keeps its base character first (a space if the cell was empty).\<close>

theorem push_zerowidth_bounded:
  assumes "content_with_zerowidth c = None"
  shows "str_len (raw_content (fold push_zerowidth (ch # chs) c)) \<le> MAX_GRAPHEME_BYTES \<and>
         hd (raw_content (fold push_zerowidth (ch # chs) c)) =
           (if c_char c = DEFAULT_CHAR then 0x20 else c_char c)"
proof -
  have "grapheme_ok c"
    using assms len_utf8_le [of "c_char c"]
    by (simp add: grapheme_ok_def raw_content_def MAX_GRAPHEME_BYTES_def)
  then show ?thesis
    using has_base_fold [OF has_base_push_first [OF assms], of chs ch] grapheme_ok_fold [of c "ch # chs"]
    by (auto simp: grapheme_ok_def has_base_def raw_content_def split: option.splits)
qed

theorem push_zerowidth_bounded_witness:
  "str_len (raw_content (fold push_zerowidth (0x301 # replicate 500 0x301) cell_default))
     \<le> MAX_GRAPHEME_BYTES \<and>
   hd (raw_content (fold push_zerowidth (0x301 # replicate 500 0x301) cell_default)) = 0x20"
  using push_zerowidth_bounded [where c = cell_default and ch = "0x301" and chs = "replicate 500 0x301"]
  by (simp add: content_with_zerowidth_def cell_default_def del: fold.simps)

lemma length_dropWhile_rev:
  "length (dropWhile P (rev xs)) \<le> length xs \<and>
   (\<forall>i. length (dropWhile P (rev xs)) \<le> i \<longrightarrow> i < length xs \<longrightarrow> P (xs ! i)) \<and>
   (dropWhile P (rev xs) \<noteq> [] \<longrightarrow> \<not> P (xs ! (length (dropWhile P (rev xs)) - 1)))"
proof (induction xs rule: rev_induct)
  case (snoc x xs)
  show ?case
  proof (cases "P x")
    case True
    have "length (dropWhile P (rev xs)) - 1 < length xs" if "dropWhile P (rev xs) \<noteq> []"
      using that snoc.IH by (metis One_nat_def Suc_pred length_greater_0_conv less_eq_Suc_le)
    then show ?thesis using True snoc.IH by (auto simp: nth_append)
  qed (simp add: nth_append)
qed simp

text \<open>\<open>line_length\<close> of an unwrapped row is the smallest length such that all
  later cells are unwritten: the cells from it on hold the default character, and
  the cell before it, if any, does not.\<close>

theorem line_length_correct:
  assumes "row_inner r \<noteq> []" "\<not> bf_contains (c_flags (last (row_inner r))) WRAPLINE"
  shows "line_length r \<le> row_len r \<and>
         (\<forall>i<row_len r. line_length r \<le> i \<longrightarrow> c_char (row_inner r ! i) = DEFAULT_CHAR) \<and>
         (0 < line_length r \<longrightarrow> c_char (row_inner r ! (line_length r - 1)) \<noteq> DEFAULT_CHAR)"
proof -
  have "line_length r = length (dropWhile (\<lambda>c. c_char c = DEFAULT_CHAR) (rev (row_inner r)))"
    using assms by (simp add: line_length_def row_len_def)
  then show ?thesis
    using length_dropWhile_rev [of "\<lambda>c. c_char c = DEFAULT_CHAR" "row_inner r"]
    by (auto simp: row_len_def)
qed

theorem line_length_correct_witness:
  "line_length (row_new 3) \<le> row_len (row_new 3) \<and>
   list_all (\<lambda>i. c_char (row_inner (row_new 3) ! i) = DEFAULT_CHAR) [line_length (row_new 3)..<row_len (row_new 3)]"
proof -
  have "row_inner (row_new 3) \<noteq> []" "\<not> bf_contains (c_flags (last (row_inner (row_new 3)))) WRAPLINE"
    by (simp_all add: row_new_def bf_contains_def cell_default_def WRAPLINE_def)
  from line_length_correct [OF this] show ?thesis by (simp add: list_all_iff)
qed

lemma trim_empty_split:
  "\<exists>rest. cs = trim_empty_cells cs @ rest \<and>
          list_all (\<lambda>c. cell_is_empty c \<and> \<not> is_end_of_prompt c) rest"
proof -
  let ?P = "\<lambda>c. \<not> (\<not> cell_is_empty c \<or> is_end_of_prompt c)"
  have "cs = rev (takeWhile ?P (rev cs) @ dropWhile ?P (rev cs))"
    by (simp only: takeWhile_dropWhile_id rev_rev_ident)
  then have "cs = trim_empty_cells cs @ rev (takeWhile ?P (rev cs))"
    by (simp only: trim_empty_cells_def rev_append)
  moreover have "list_all ?P (rev (takeWhile ?P (rev cs)))"
    by (auto simp: list_all_iff dest: set_takeWhileD)
  ultimately show ?thesis by auto
qed

text \<open>\<open>Row::shrink\<close> loses no content: the kept cells followed by the returned
  overflow are a prefix of the old row, and what is dropped after them is empty
  cells that carry no end-of-prompt marker.\<close>

theorem row_shrink_lossless:
  "\<exists>rest. row_inner r = row_inner (fst (row_shrink cols r)) @
            (case snd (row_shrink cols r) of Some cs \<Rightarrow> cs | None \<Rightarrow> []) @ rest \<and>
          list_all (\<lambda>c. cell_is_empty c \<and> \<not> is_end_of_prompt c) rest \<and>
          row_len (fst (row_shrink cols r)) = min cols (row_len r)"
proof (cases "row_len r \<le> cols")
  case False
  obtain rest where "drop cols (row_inner r) = trim_empty_cells (drop cols (row_inner r)) @ rest"
    "list_all (\<lambda>c. cell_is_empty c \<and> \<not> is_end_of_prompt c) rest"
    using trim_empty_split by blast
  then show ?thesis
    using False append_take_drop_id [of cols "row_inner r"]
    by (auto simp: row_shrink_def Let_def row_len_def intro!: exI [of _ rest])
qed (simp add: row_shrink_def)

end
