(* ===== verification/Storage.thy ===== *)
theory Storage
  imports Row
begin

text \<open>
  The ring buffer of rows behind a grid
  (\<^verbatim>\<open>app/src/terminal/model/grid/storage.rs\<close>).  Rows live in \<open>inner\<close>, rotated by
  \<open>bottom_row\<close>, in grid order (\<open>is_sequential\<close>) or bottom-up; \<open>len\<close> of them are in
  use.  \<open>storage_rows\<close> reads the buffer as the list of its rows from top to bottom.
  The locale \<open>row_buffer\<close> is what the grid relies on: lookup, update, swap and the
  two rotations, as laws on that list.  It is interpreted on the ring buffer for
  both directions.
\<close>

record storage =
  sto_inner :: "row list"
  sto_bottom_row :: nat
  sto_visible_lines :: nat
  sto_len :: nat
  sto_is_sequential :: bool
  sto_max_cache_size :: nat

definition sto_with_rows :: "row list \<Rightarrow> bool \<Rightarrow> nat \<Rightarrow> storage" where
  "sto_with_rows rows is_sequential visible_lines =
     \<lparr>sto_inner = rows, sto_bottom_row = 0, sto_visible_lines = visible_lines,
      sto_len = length rows, sto_is_sequential = is_sequential, sto_max_cache_size = 1\<rparr>"

definition sto_with_capacity :: "nat \<Rightarrow> nat \<Rightarrow> bool \<Rightarrow> storage" where
  "sto_with_capacity visible_lines cols is_sequential =
     sto_with_rows (replicate visible_lines (row_new cols)) is_sequential visible_lines"

definition sto_rezero :: "storage \<Rightarrow> storage" where
  "sto_rezero s =
     (if sto_bottom_row s = 0 then s
      else s\<lparr>sto_inner := rotate_left (sto_bottom_row s) (sto_inner s), sto_bottom_row := 0\<rparr>)"

definition sto_truncate_unused_rows :: "storage \<Rightarrow> storage" where
  "sto_truncate_unused_rows s =
     (let s' = sto_rezero s in s'\<lparr>sto_inner := take (sto_len s') (sto_inner s')\<rparr>)"

definition sto_truncate_columns :: "nat \<Rightarrow> storage \<Rightarrow> storage" where
  "sto_truncate_columns cols s = s\<lparr>sto_inner := map (row_truncate cols) (sto_inner s)\<rparr>"

definition sto_shrink_lines :: "nat \<Rightarrow> storage \<Rightarrow> storage option" where
  "sto_shrink_lines shrinkage s = do {
     l \<leftarrow> checked_sub (sto_len s) shrinkage;
     let s' = s\<lparr>sto_len := l\<rparr>;
     Some (if length (sto_inner s') > sto_len s' + sto_max_cache_size s'
           then sto_truncate_unused_rows s' else s')
   }"

definition sto_truncate_to :: "nat \<Rightarrow> storage \<Rightarrow> storage option" where
  "sto_truncate_to target_len s = do {
     s' \<leftarrow> (if target_len < sto_len s
           then let z = sto_rezero s; d = sto_len z - target_len
                in if d \<le> length (sto_inner z)
                   then Some (z\<lparr>sto_inner := drop d (sto_inner z), sto_len := target_len,
                                sto_visible_lines := min (sto_visible_lines z) target_len\<rparr>)
                   else None
           else Some s);
     Some (sto_truncate_unused_rows s')
   }"

definition sto_push_from_scrollback :: "row list \<Rightarrow> storage \<Rightarrow> storage option" where
  "sto_push_from_scrollback rows s =
     (let rows' = (if sto_is_sequential s then rows else rev rows);
          z = sto_rezero s
      in if sto_len z \<le> length (sto_inner z)
         then Some (z\<lparr>sto_inner := take (sto_len z) (sto_inner z) @ rows',
                      sto_len := sto_len z + length rows\<rparr>)
         else None)"

definition sto_initialize :: "nat \<Rightarrow> nat \<Rightarrow> storage \<Rightarrow> storage" where
  "sto_initialize additional_rows cols s =
     (let s' = (if sto_len s + additional_rows > length (sto_inner s)
                then let z = sto_rezero s
                     in z\<lparr>sto_inner := sto_inner z @
                            replicate (max additional_rows (sto_max_cache_size z)) (row_new cols)\<rparr>
                else s)
      in s'\<lparr>sto_len := sto_len s' + additional_rows\<rparr>)"

text \<open>From a grid index to an index of \<open>inner\<close>; the subtraction underflows when the
  index is beyond the rows in use.\<close>

definition sto_from_grid_index :: "storage \<Rightarrow> nat \<Rightarrow> nat option" where
  "sto_from_grid_index s requested = do {
     req \<leftarrow> (if sto_is_sequential s then Some requested
            else checked_sub (sto_len s) (requested + 1));
     let zeroed = sto_bottom_row s + req;
     Some (if zeroed \<ge> length (sto_inner s) then zeroed - length (sto_inner s) else zeroed)
   }"

definition sto_to_grid_index :: "storage \<Rightarrow> nat \<Rightarrow> nat option" where
  "sto_to_grid_index s visible_row = do {
     h \<leftarrow> checked_sub (sto_len s) (sto_visible_lines s);
     Some (h + visible_row)
   }"

definition sto_get :: "nat \<Rightarrow> storage \<Rightarrow> row option" where
  "sto_get i s = do { j \<leftarrow> sto_from_grid_index s i; vec_get (sto_inner s) j }"

text \<open>\<open>IndexMut\<close>, with the update the caller makes (which may itself panic).\<close>

definition sto_mut :: "nat \<Rightarrow> (row \<Rightarrow> row option) \<Rightarrow> storage \<Rightarrow> storage option" where
  "sto_mut i f s = do {
     j \<leftarrow> sto_from_grid_index s i;
     r \<leftarrow> vec_get (sto_inner s) j;
     r' \<leftarrow> f r;
     Some (s\<lparr>sto_inner := (sto_inner s)[j := r']\<rparr>)
   }"

definition sto_get_visible :: "nat \<Rightarrow> storage \<Rightarrow> row option" where
  "sto_get_visible row s = do { i \<leftarrow> sto_to_grid_index s row; sto_get i s }"

definition sto_mut_visible :: "nat \<Rightarrow> (row \<Rightarrow> row option) \<Rightarrow> storage \<Rightarrow> storage option" where
  "sto_mut_visible row f s = do { i \<leftarrow> sto_to_grid_index s row; sto_mut i f s }"

definition sto_swap :: "nat \<Rightarrow> nat \<Rightarrow> storage \<Rightarrow> storage option" where
  "sto_swap a b s = do {
     i \<leftarrow> sto_from_grid_index s a;
     j \<leftarrow> sto_from_grid_index s b;
     inner \<leftarrow> vec_swap (sto_inner s) i j;
     Some (s\<lparr>sto_inner := inner\<rparr>)
   }"

definition sto_swap_lines :: "nat \<Rightarrow> nat \<Rightarrow> storage \<Rightarrow> storage option" where
  "sto_swap_lines a b s = do {
     a' \<leftarrow> sto_to_grid_index s a;
     b' \<leftarrow> sto_to_grid_index s b;
     sto_swap a' b' s
   }"

text \<open>\<open>(bottom_row as isize + count + len as isize) as usize % len\<close>: the sum must not
  be negative, the remainder not by zero.\<close>

definition sto_rotate :: "int \<Rightarrow> storage \<Rightarrow> storage option" where
  "sto_rotate count s =
     (let l = length (sto_inner s); x = int (sto_bottom_row s) + count + int l
      in if l = 0 \<or> x < 0 then None else Some (s\<lparr>sto_bottom_row := nat x mod l\<rparr>))"

definition sto_retract :: "int \<Rightarrow> storage \<Rightarrow> storage option" where
  "sto_retract count s = sto_rotate (if sto_is_sequential s then - count else count) s"

definition sto_extend :: "int \<Rightarrow> storage \<Rightarrow> storage option" where
  "sto_extend count s = sto_rotate (if \<not> sto_is_sequential s then - count else count) s"

definition sto_replace_inner :: "row list \<Rightarrow> storage \<Rightarrow> storage" where
  "sto_replace_inner v s = s\<lparr>sto_len := length v, sto_inner := v, sto_bottom_row := 0\<rparr>"

definition sto_take_all :: "storage \<Rightarrow> storage \<times> row list" where
  "sto_take_all s =
     (let z = sto_truncate_unused_rows s in (z\<lparr>sto_inner := [], sto_len := 0\<rparr>, sto_inner z))"

definition sto_grow_visible_lines :: "nat \<Rightarrow> storage \<Rightarrow> storage option" where
  "sto_grow_visible_lines next_lines s = do {
     growage \<leftarrow> checked_sub next_lines (sto_visible_lines s);
     r \<leftarrow> sto_get 0 s;
     let s' = sto_initialize growage (row_len r) s;
     Some (s'\<lparr>sto_visible_lines := next_lines\<rparr>)
   }"

definition sto_shrink_visible_lines :: "nat \<Rightarrow> storage \<Rightarrow> storage option" where
  "sto_shrink_visible_lines next_lines s = do {
     shrinkage \<leftarrow> checked_sub (sto_visible_lines s) next_lines;
     s' \<leftarrow> sto_shrink_lines shrinkage s;
     Some (s'\<lparr>sto_visible_lines := next_lines\<rparr>)
   }"

section \<open>The buffer as a list of rows\<close>

definition sto_idx :: "storage \<Rightarrow> nat \<Rightarrow> nat" where
  "sto_idx s i =
     (let z = sto_bottom_row s + (if sto_is_sequential s then i else sto_len s - (i + 1))
      in if z \<ge> length (sto_inner s) then z - length (sto_inner s) else z)"

definition storage_rows :: "storage \<Rightarrow> row list" where
  "storage_rows s = map (\<lambda>i. sto_inner s ! sto_idx s i) [0..<sto_len s]"

definition sto_inv :: "nat \<Rightarrow> nat \<Rightarrow> nat \<Rightarrow> bool \<Rightarrow> storage \<Rightarrow> bool" where
  "sto_inv cols l v sq s \<longleftrightarrow>
     sto_bottom_row s < length (sto_inner s) \<and> sto_len s = l \<and> l \<le> length (sto_inner s) \<and>
     sto_visible_lines s = v \<and> v \<le> l \<and> sto_is_sequential s = sq \<and>
     list_all (row_ok cols) (sto_inner s)"

lemma length_storage_rows [simp]: "length (storage_rows s) = sto_len s"
  by (simp add: storage_rows_def)

lemma nth_storage_rows: "i < sto_len s \<Longrightarrow> storage_rows s ! i = sto_inner s ! sto_idx s i"
  by (simp add: storage_rows_def)

lemma sto_inv_len: "sto_inv cols l v sq s \<Longrightarrow> sto_len s = l"
  by (simp add: sto_inv_def)

lemma sto_idx_inner [simp]:
  "length xs = length (sto_inner s) \<Longrightarrow> sto_idx (s\<lparr>sto_inner := xs\<rparr>) k = sto_idx s k"
  by (simp add: sto_idx_def Let_def)

lemma sto_from_grid_index_eq:
  "sto_inv cols l v sq s \<Longrightarrow> i < l \<Longrightarrow> sto_from_grid_index s i = Some (sto_idx s i)"
  by (auto simp: sto_from_grid_index_def sto_idx_def checked_sub_def sto_inv_def Let_def)

lemma sto_idx_less: "sto_inv cols l v sq s \<Longrightarrow> i < l \<Longrightarrow> sto_idx s i < length (sto_inner s)"
  by (auto simp: sto_idx_def sto_inv_def Let_def)

lemma sto_idx_inj:
  "sto_inv cols l v sq s \<Longrightarrow> i < l \<Longrightarrow> j < l \<Longrightarrow> sto_idx s i = sto_idx s j \<longleftrightarrow> i = j"
  by (auto simp: sto_idx_def sto_inv_def Let_def split: if_splits)

lemma sto_inv_row_ok:
  "sto_inv cols l v sq s \<Longrightarrow> i < l \<Longrightarrow> row_ok cols (storage_rows s ! i)"
  using sto_idx_less [of cols l v sq s i]
  by (auto simp: nth_storage_rows sto_inv_def list_all_length)

lemma sto_get_eq:
  "sto_inv cols l v sq s \<Longrightarrow> i < l \<Longrightarrow> sto_get i s = Some (storage_rows s ! i)"
  by (simp add: sto_get_def sto_from_grid_index_eq vec_get_def sto_idx_less nth_storage_rows
      sto_inv_len)

text \<open>Writing one slot of the raw buffer writes one row of the grid.\<close>

lemma storage_rows_update:
  assumes "sto_inv cols l v sq s" "i < l"
  shows "storage_rows (s\<lparr>sto_inner := (sto_inner s)[sto_idx s i := r]\<rparr>) = (storage_rows s)[i := r]"
proof (intro nth_equalityI)
  fix k assume "k < length (storage_rows (s\<lparr>sto_inner := (sto_inner s)[sto_idx s i := r]\<rparr>))"
  then have k: "k < l" using assms by (simp add: sto_inv_def)
  show "storage_rows (s\<lparr>sto_inner := (sto_inner s)[sto_idx s i := r]\<rparr>) ! k =
             (storage_rows s)[i := r] ! k"
    using assms k sto_idx_inj [OF assms(1) k assms(2)] sto_idx_less [OF assms]
    by (auto simp: nth_storage_rows nth_list_update sto_inv_def)
qed simp

lemma sto_inv_update:
  assumes "sto_inv cols l v sq s" "j < length (sto_inner s)" "row_ok cols r"
  shows "sto_inv cols l v sq (s\<lparr>sto_inner := (sto_inner s)[j := r]\<rparr>)"
  using assms by (auto simp: sto_inv_def list_all_length nth_list_update)

lemma sto_mut_eq:
  assumes "sto_inv cols l v sq s" "i < l" "f (storage_rows s ! i) = Some r" "row_ok cols r"
  shows "\<exists>s'. sto_mut i f s = Some s' \<and> sto_inv cols l v sq s' \<and>
              storage_rows s' = (storage_rows s)[i := r]"
proof -
  have "storage_rows s ! i = sto_inner s ! sto_idx s i"
    using assms by (simp add: nth_storage_rows sto_inv_def)
  then show ?thesis
    using assms sto_idx_less [OF assms(1,2)]
    by (auto simp: sto_mut_def sto_from_grid_index_eq vec_get_def sto_inv_update storage_rows_update)
qed

lemma sto_swap_eq:
  assumes "sto_inv cols l v sq s" "a < l" "b < l"
  shows "\<exists>s'. sto_swap a b s = Some s' \<and> sto_inv cols l v sq s' \<and>
              storage_rows s' = (storage_rows s)[a := storage_rows s ! b, b := storage_rows s ! a]"
proof -
  let ?i = "sto_idx s a" and ?j = "sto_idx s b"
  let ?s1 = "s\<lparr>sto_inner := (sto_inner s)[?i := storage_rows s ! b]\<rparr>"
  let ?s2 = "?s1\<lparr>sto_inner := (sto_inner ?s1)[sto_idx ?s1 b := storage_rows s ! a]\<rparr>"
  have i: "?i < length (sto_inner s)" "?j < length (sto_inner s)"
    using sto_idx_less [OF assms(1)] assms by auto
  have ok: "row_ok cols (storage_rows s ! a)" "row_ok cols (storage_rows s ! b)"
    using sto_inv_row_ok [OF assms(1)] assms by auto
  have idx1: "sto_idx ?s1 b = ?j" by simp
  have inv1: "sto_inv cols l v sq ?s1" using assms(1) i(1) ok(2) by (rule sto_inv_update)
  have inv2: "sto_inv cols l v sq ?s2"
    by (rule sto_inv_update [OF inv1 _ ok(1)]) (use i idx1 in simp)
  have "storage_rows ?s2 = (storage_rows s)[a := storage_rows s ! b, b := storage_rows s ! a]"
    using storage_rows_update [OF inv1 assms(3)] storage_rows_update [OF assms(1,2)] by simp
  moreover have "sto_swap a b s = Some ?s2"
    using assms i idx1
    by (simp add: sto_swap_def sto_from_grid_index_eq vec_swap_def nth_storage_rows sto_inv_len)
  ultimately show ?thesis using inv2 by blast
qed

section \<open>Rotations\<close>

lemma sto_idx_mod:
  assumes "sto_inv cols l v sq s" "i < l"
  shows "sto_idx s i = (sto_bottom_row s + (if sq then i else l - (i + 1))) mod length (sto_inner s)"
proof -
  let ?q = "if sq then i else l - (i + 1)" and ?L = "length (sto_inner s)"
  have "sto_idx s i = (if ?L \<le> sto_bottom_row s + ?q then sto_bottom_row s + ?q - ?L
                       else sto_bottom_row s + ?q)"
    using assms by (simp add: sto_idx_def sto_inv_def Let_def)
  moreover have "sto_bottom_row s < ?L" "?q < ?L"
    using assms by (auto simp: sto_inv_def)
  then have "sto_bottom_row s + ?q - ?L < ?L" by linarith
  ultimately show ?thesis by (auto simp: le_mod_geq)
qed

lemma ring_shift: "a + q = c + (L::nat) \<Longrightarrow> (a mod L + q) mod L = c mod L"
  by (metis mod_add_left_eq mod_add_self2)

lemma sto_idx_shift:
  assumes "sto_inv cols l v sq s" "sto_inv cols l v sq s'" "sto_inner s' = sto_inner s" "i < l" "j < l"
    and "sto_bottom_row s' = a mod length (sto_inner s)"
    and "a + (if sq then i else l - (i + 1)) =
         sto_bottom_row s + (if sq then j else l - (j + 1)) + length (sto_inner s)"
  shows "sto_idx s' i = sto_idx s j"
  unfolding sto_idx_mod [OF assms(2,4)] sto_idx_mod [OF assms(1,5)] assms(3,6)
  by (rule ring_shift [OF assms(7)])

lemma sto_rotate_inv:
  assumes "sto_inv cols l v sq s" "\<bar>count\<bar> \<le> int (length (sto_inner s))"
  shows "\<exists>s'. sto_rotate count s = Some s' \<and> sto_inv cols l v sq s' \<and> sto_inner s' = sto_inner s \<and>
     sto_bottom_row s' =
       nat (int (sto_bottom_row s) + count + int (length (sto_inner s))) mod length (sto_inner s)"
proof -
  have "length (sto_inner s) > 0" using assms(1) by (auto simp: sto_inv_def)
  then show ?thesis
    using assms by (auto simp: sto_rotate_def sto_inv_def Let_def)
qed

text \<open>Extending by \<open>n\<close> moves every row up by \<open>n\<close>; the bottom \<open>n\<close> rows are whatever the
  ring holds there.\<close>

lemma sto_extend_eq:
  assumes "sto_inv cols l v sq s" "n \<le> l"
  shows "\<exists>s'. sto_extend (int n) s = Some s' \<and> sto_inv cols l v sq s' \<and>
              (\<forall>i. i + n < l \<longrightarrow> storage_rows s' ! i = storage_rows s ! (i + n))"
proof -
  let ?L = "length (sto_inner s)" and ?c = "if \<not> sq then - int n else int n"
  have L: "l \<le> ?L" "sto_bottom_row s < ?L" using assms(1) by (auto simp: sto_inv_def)
  have c: "\<bar>?c\<bar> \<le> int ?L" using assms(2) L by simp
  obtain s' where s': "sto_rotate ?c s = Some s'" "sto_inv cols l v sq s'" "sto_inner s' = sto_inner s"
      "sto_bottom_row s' = nat (int (sto_bottom_row s) + ?c + int ?L) mod ?L"
    using sto_rotate_inv [OF assms(1) c] by blast
  have "storage_rows s' ! i = storage_rows s ! (i + n)" if i: "i + n < l" for i
  proof -
    have "sto_idx s' i = sto_idx s (i + n)"
      by (rule sto_idx_shift [OF assms(1) s'(2,3) _ _ s'(4)]) (use i L assms(2) in auto)
    then show ?thesis
      using i s'(2,3) assms(1) by (simp add: nth_storage_rows sto_inv_len)
  qed
  moreover have "sto_extend (int n) s = Some s'"
    using assms(1) s'(1) by (simp add: sto_extend_def sto_inv_def)
  ultimately show ?thesis using s'(2) by blast
qed

lemma sto_retract_eq:
  assumes "sto_inv cols l v sq s" "n \<le> l"
  shows "\<exists>s'. sto_retract (int n) s = Some s' \<and> sto_inv cols l v sq s' \<and>
              (\<forall>i. i + n < l \<longrightarrow> storage_rows s' ! (i + n) = storage_rows s ! i)"
proof -
  let ?L = "length (sto_inner s)" and ?c = "if sq then - int n else int n"
  have L: "l \<le> ?L" "sto_bottom_row s < ?L" using assms(1) by (auto simp: sto_inv_def)
  have c: "\<bar>?c\<bar> \<le> int ?L" using assms(2) L by simp
  obtain s' where s': "sto_rotate ?c s = Some s'" "sto_inv cols l v sq s'" "sto_inner s' = sto_inner s"
      "sto_bottom_row s' = nat (int (sto_bottom_row s) + ?c + int ?L) mod ?L"
    using sto_rotate_inv [OF assms(1) c] by blast
  have "storage_rows s' ! (i + n) = storage_rows s ! i" if i: "i + n < l" for i
  proof -
    have "sto_idx s' (i + n) = sto_idx s i"
      by (rule sto_idx_shift [OF assms(1) s'(2,3) _ _ s'(4)]) (use i L assms(2) in auto)
    then show ?thesis
      using i s'(2,3) assms(1) by (simp add: nth_storage_rows sto_inv_len)
  qed
  moreover have "sto_retract (int n) s = Some s'"
    using assms(1) s'(1) by (simp add: sto_retract_def sto_inv_def)
  ultimately show ?thesis using s'(2) by blast
qed

section \<open>The interface the grid relies on\<close>

locale row_buffer =
  fixes rows :: "'s \<Rightarrow> row list"
    and invar :: "'s \<Rightarrow> bool"
    and ok :: "row \<Rightarrow> bool"
    and size :: nat
    and mut :: "nat \<Rightarrow> (row \<Rightarrow> row option) \<Rightarrow> 's \<Rightarrow> 's option"
    and swap :: "nat \<Rightarrow> nat \<Rightarrow> 's \<Rightarrow> 's option"
    and extend retract :: "int \<Rightarrow> 's \<Rightarrow> 's option"
  assumes length_rows: "invar s \<Longrightarrow> length (rows s) = size"
    and rows_ok: "invar s \<Longrightarrow> i < size \<Longrightarrow> ok (rows s ! i)"
    and mut: "invar s \<Longrightarrow> i < size \<Longrightarrow> f (rows s ! i) = Some r \<Longrightarrow> ok r \<Longrightarrow>
              \<exists>s'. mut i f s = Some s' \<and> invar s' \<and> rows s' = (rows s)[i := r]"
    and swap: "invar s \<Longrightarrow> i < size \<Longrightarrow> j < size \<Longrightarrow>
              \<exists>s'. swap i j s = Some s' \<and> invar s' \<and>
                   rows s' = (rows s)[i := rows s ! j, j := rows s ! i]"
    and extend: "invar s \<Longrightarrow> n \<le> size \<Longrightarrow>
              \<exists>s'. extend (int n) s = Some s' \<and> invar s' \<and>
                   (\<forall>i. i + n < size \<longrightarrow> rows s' ! i = rows s ! (i + n))"
    and retract: "invar s \<Longrightarrow> n \<le> size \<Longrightarrow>
              \<exists>s'. retract (int n) s = Some s' \<and> invar s' \<and>
                   (\<forall>i. i + n < size \<longrightarrow> rows s' ! (i + n) = rows s ! i)"
begin

text \<open>Swapping, row by row.\<close>

lemma swap_nth:
  assumes "invar s" "i < size" "j < size"
  shows "\<exists>s'. swap i j s = Some s' \<and> invar s' \<and>
              (\<forall>k < size. rows s' ! k = rows s ! (if k = i then j else if k = j then i else k))"
  using swap [OF assms] length_rows [OF assms(1)] assms by (auto simp: nth_list_update)

text \<open>A loop that overwrites the listed rows with one and the same row.\<close>

lemma reset_loop:
  assumes "invar s" "\<forall>i\<in>set ixs. i < size" "\<And>r. ok r \<Longrightarrow> f r = Some B" "ok B"
  shows "\<exists>s'. fold_m (\<lambda>i. mut i f) ixs s = Some s' \<and> invar s' \<and>
              (\<forall>j < size. rows s' ! j = (if j \<in> set ixs then B else rows s ! j))"
  using assms(1,2)
proof (induction ixs arbitrary: s)
  case (Cons i ixs)
  then have i: "i < size" by simp
  obtain s1 where s1: "mut i f s = Some s1" "invar s1" "rows s1 = (rows s)[i := B]"
    using mut [where f = f, OF Cons.prems(1) i assms(3) [OF rows_ok [OF Cons.prems(1) i]] assms(4)] by blast
  obtain s2 where s2: "fold_m (\<lambda>i. mut i f) ixs s1 = Some s2" "invar s2"
      "\<forall>j < size. rows s2 ! j = (if j \<in> set ixs then B else rows s1 ! j)"
    using Cons.IH [OF s1(2)] Cons.prems(2) by auto
  have "\<forall>j < size. rows s2 ! j = (if j \<in> set (i # ixs) then B else rows s ! j)"
    using s2(3) s1(3) length_rows [OF Cons.prems(1)] by (auto simp: nth_list_update)
  then show ?case using s1(1) s2(1,2) by auto
qed simp

text \<open>Before an upward shift by \<open>n\<close>: the \<open>a\<close> rows fixed at the top move to where the
  shift will bring them back.\<close>

lemma lift_top_loop:
  assumes "invar s" "a + n \<le> size"
  shows "\<exists>s'. fold_m (\<lambda>i. swap i (i + n)) (rev [0..<a]) s = Some s' \<and> invar s' \<and>
              (\<forall>j<a. rows s' ! (j + n) = rows s ! j) \<and>
              (\<forall>j < size. a + n \<le> j \<longrightarrow> rows s' ! j = rows s ! j)"
  using assms
proof (induction a arbitrary: s)
  case (Suc a)
  then have a: "a < size" "a + n < size" by auto
  obtain s1 where s1: "swap a (a + n) s = Some s1" "invar s1"
      "\<forall>k < size. rows s1 ! k = rows s ! (if k = a then a + n else if k = a + n then a else k)"
    using swap_nth [OF Suc.prems(1) a] by blast
  obtain s2 where s2: "fold_m (\<lambda>i. swap i (i + n)) (rev [0..<a]) s1 = Some s2" "invar s2"
      "\<forall>j<a. rows s2 ! (j + n) = rows s1 ! j"
      "\<forall>j < size. a + n \<le> j \<longrightarrow> rows s2 ! j = rows s1 ! j"
    using Suc.IH [OF s1(2)] Suc.prems(2) by auto
  have "rows s2 ! (j + n) = rows s ! j" if "j < Suc a" for j
  proof (cases "j = a")
    case True then show ?thesis using s2(4) s1(3) a by auto
  next
    case False then show ?thesis using that s2(3) s1(3) a by auto
  qed
  moreover have "rows s2 ! j = rows s ! j" if "j < size" "Suc a + n \<le> j" for j
    using that s2(4) s1(3) a by auto
  ultimately show ?case using s1(1) s2(1,2) by auto
qed simp

text \<open>After an upward shift by \<open>n\<close> whose last \<open>n\<close> rows are blank: the \<open>k\<close> rows fixed at
  the bottom move down over the blank rows.\<close>

lemma settle_bottom_loop:
  assumes "invar s" "k + n \<le> size" "\<forall>j < size. size \<le> j + n \<longrightarrow> rows s ! j = B"
  shows "\<exists>s'. fold_m (\<lambda>i s. do { q \<leftarrow> checked_sub (size - i - 1) n; swap (size - i - 1) q s })
                [0..<k] s = Some s' \<and> invar s' \<and>
              (\<forall>p < size. size \<le> p + k \<longrightarrow> rows s' ! p = rows s ! (p - n)) \<and>
              (\<forall>p < size. size \<le> p + k + n \<longrightarrow> p + k < size \<longrightarrow> rows s' ! p = B) \<and>
              (\<forall>p < size. p + k + n < size \<longrightarrow> rows s' ! p = rows s ! p)"
    (is "\<exists>s'. fold_m ?f _ _ = _ \<and> _")
  using assms(2)
proof (induction k)
  case 0
  then show ?case using assms by auto
next
  case (Suc k)
  then obtain s1 where s1: "fold_m ?f [0..<k] s = Some s1" "invar s1"
      "\<And>p. p < size \<Longrightarrow> size \<le> p + k \<Longrightarrow> rows s1 ! p = rows s ! (p - n)"
      "\<And>p. p < size \<Longrightarrow> size \<le> p + k + n \<Longrightarrow> p + k < size \<Longrightarrow> rows s1 ! p = B"
      "\<And>p. p < size \<Longrightarrow> p + k + n < size \<Longrightarrow> rows s1 ! p = rows s ! p"
    by auto
  let ?p = "size - k - 1" and ?q = "size - k - 1 - n"
  have pq: "?p < size" "?q < size" "n \<le> ?p" using Suc.prems by auto
  obtain s2 where s2: "swap ?p ?q s1 = Some s2" "invar s2"
      "\<And>j. j < size \<Longrightarrow> rows s2 ! j = rows s1 ! (if j = ?p then ?q else if j = ?q then ?p else j)"
    using swap_nth [OF s1(2) pq(1,2)] by blast
  have "rows s2 ! p = rows s ! (p - n)" if "p < size" "size \<le> p + Suc k" for p
    using that s2(3) [of p] s1(3) [of p] s1(5) [of ?q] Suc.prems by (cases "p = ?p") auto
  moreover have "rows s2 ! p = B" if "p < size" "size \<le> p + Suc k + n" "p + Suc k < size" for p
    using that s2(3) [of p] s1(4) [of ?p] s1(4) [of p] Suc.prems by (cases "p = ?q") auto
  moreover have "rows s2 ! p = rows s ! p" if "p < size" "p + Suc k + n < size" for p
    using that s2(3) [of p] s1(5) [of p] by auto
  moreover have "fold_m ?f [0..<Suc k] s = Some s2"
    using s1(1) s2(1) pq by (simp add: fold_m_snoc checked_sub_def)
  ultimately show ?case using s2(2) by blast
qed

text \<open>The mirror images for a downward shift.\<close>

lemma lift_bottom_loop:
  assumes "invar s" "k + n \<le> size"
  shows "\<exists>s'. fold_m (\<lambda>i s. do { q \<leftarrow> checked_sub (size - i - 1) n; swap (size - i - 1) q s })
                (rev [0..<k]) s = Some s' \<and> invar s' \<and>
              (\<forall>p < size. size \<le> p + k \<longrightarrow> rows s' ! (p - n) = rows s ! p) \<and>
              (\<forall>p < size. p + k + n < size \<longrightarrow> rows s' ! p = rows s ! p)"
    (is "\<exists>s'. fold_m ?f _ _ = _ \<and> _")
  using assms
proof (induction k arbitrary: s)
  case (Suc k)
  let ?p = "size - k - 1" and ?q = "size - k - 1 - n"
  have pq: "?p < size" "?q < size" "n \<le> ?p" using Suc.prems by auto
  obtain s1 where s1: "swap ?p ?q s = Some s1" "invar s1"
      "\<And>j. j < size \<Longrightarrow> rows s1 ! j = rows s ! (if j = ?p then ?q else if j = ?q then ?p else j)"
    using swap_nth [OF Suc.prems(1) pq(1,2)] by blast
  obtain s2 where s2: "fold_m ?f (rev [0..<k]) s1 = Some s2" "invar s2"
      "\<And>p. p < size \<Longrightarrow> size \<le> p + k \<Longrightarrow> rows s2 ! (p - n) = rows s1 ! p"
      "\<And>p. p < size \<Longrightarrow> p + k + n < size \<Longrightarrow> rows s2 ! p = rows s1 ! p"
    using Suc.IH [OF s1(2)] Suc.prems(2) by auto
  have "rows s2 ! (p - n) = rows s ! p" if "p < size" "size \<le> p + Suc k" for p
  proof (cases "p = ?p")
    case True then show ?thesis using s2(4) [of ?q] s1(3) [of ?q] pq Suc.prems(2) by auto
  next
    case False then show ?thesis using that s2(3) [of p] s1(3) [of p] pq by auto
  qed
  moreover have "rows s2 ! p = rows s ! p" if "p < size" "p + Suc k + n < size" for p
    using that s2(4) [of p] s1(3) [of p] by auto
  moreover have "fold_m ?f (rev [0..<Suc k]) s = Some s2"
    using s1(1) s2(1) pq by (simp add: checked_sub_def)
  ultimately show ?case using s2(2) by blast
qed simp

lemma settle_top_loop:
  assumes "invar s" "a + n \<le> size" "\<forall>j<n. rows s ! j = B"
  shows "\<exists>s'. fold_m (\<lambda>i. swap i (i + n)) [0..<a] s = Some s' \<and> invar s' \<and>
              (\<forall>j<a. rows s' ! j = rows s ! (j + n)) \<and>
              (\<forall>j<a + n. a \<le> j \<longrightarrow> rows s' ! j = B) \<and>
              (\<forall>j < size. a + n \<le> j \<longrightarrow> rows s' ! j = rows s ! j)"
  using assms(2)
proof (induction a)
  case 0
  then show ?case using assms by auto
next
  case (Suc a)
  then obtain s1 where s1: "fold_m (\<lambda>i. swap i (i + n)) [0..<a] s = Some s1" "invar s1"
      "\<And>j. j < a \<Longrightarrow> rows s1 ! j = rows s ! (j + n)"
      "\<And>j. j < a + n \<Longrightarrow> a \<le> j \<Longrightarrow> rows s1 ! j = B"
      "\<And>j. j < size \<Longrightarrow> a + n \<le> j \<Longrightarrow> rows s1 ! j = rows s ! j"
    by auto
  have a: "a < size" "a + n < size" using Suc.prems by auto
  obtain s2 where s2: "swap a (a + n) s1 = Some s2" "invar s2"
      "\<And>j. j < size \<Longrightarrow> rows s2 ! j = rows s1 ! (if j = a then a + n else if j = a + n then a else j)"
    using swap_nth [OF s1(2) a] by blast
  have "rows s2 ! j = rows s ! (j + n)" if "j < Suc a" for j
    using that s2(3) [of j] s1(3) [of j] s1(5) [of "a + n"] a by (cases "j = a") auto
  moreover have "rows s2 ! j = B" if "j < Suc a + n" "Suc a \<le> j" for j
    using that s2(3) [of j] s1(4) [of j] s1(4) [of a] a by (cases "j = a + n") auto
  moreover have "rows s2 ! j = rows s ! j" if "j < size" "Suc a + n \<le> j" for j
    using that s2(3) [of j] s1(5) [of j] by auto
  moreover have "fold_m (\<lambda>i. swap i (i + n)) [0..<Suc a] s = Some s2"
    using s1(1) s2(1) by (simp add: fold_m_snoc)
  ultimately show ?case using s2(2) by blast
qed

end

interpretation sb: row_buffer storage_rows "sto_inv cols l v sq" "row_ok cols" l
    sto_mut sto_swap sto_extend sto_retract
  by unfold_locales
     (simp add: sto_inv_len, rule sto_inv_row_ok, assumption+, rule sto_mut_eq, assumption+,
      rule sto_swap_eq, assumption+, rule sto_extend_eq, assumption+, rule sto_retract_eq, assumption+)

section \<open>Resizing the buffer\<close>

lemma zeroed_rows:
  assumes "sto_bottom_row s = 0" "sto_len s \<le> length (sto_inner s)"
  shows "storage_rows s = (if sto_is_sequential s then take (sto_len s) (sto_inner s)
                           else rev (take (sto_len s) (sto_inner s)))"
  using assms by (intro nth_equalityI) (auto simp: nth_storage_rows sto_idx_def rev_nth Let_def)

lemma sto_rezero_eq:
  assumes "sto_inv cols l v sq s"
  shows "sto_inv cols l v sq (sto_rezero s)" "sto_bottom_row (sto_rezero s) = 0"
    "storage_rows (sto_rezero s) = storage_rows s"
    "length (sto_inner (sto_rezero s)) = length (sto_inner s)"
proof -
  show len: "length (sto_inner (sto_rezero s)) = length (sto_inner s)"
    and b: "sto_bottom_row (sto_rezero s) = 0"
    by (simp_all add: sto_rezero_def)
  show inv: "sto_inv cols l v sq (sto_rezero s)"
    using assms by (auto simp: sto_rezero_def sto_inv_def list_all_iff)
  show "storage_rows (sto_rezero s) = storage_rows s"
  proof (intro nth_equalityI)
    fix i assume "i < length (storage_rows (sto_rezero s))"
    then have i: "i < l" using inv by (simp add: sto_inv_len)
    show "storage_rows (sto_rezero s) ! i = storage_rows s ! i"
      using i assms
      by (auto simp: nth_storage_rows sto_inv_def sto_rezero_def sto_idx_def Let_def nth_rotate_left)
  qed (simp add: sto_inv_len [OF inv] sto_inv_len [OF assms])
qed

lemma sto_rezero_list:
  assumes "sto_inv cols l v sq s"
  shows "storage_rows s = (if sq then take l (sto_inner (sto_rezero s))
                           else rev (take l (sto_inner (sto_rezero s))))"
proof -
  note z = sto_rezero_eq [OF assms]
  have "sto_len (sto_rezero s) = l" "sto_is_sequential (sto_rezero s) = sq"
    "l \<le> length (sto_inner (sto_rezero s))"
    using z(1) by (simp_all add: sto_inv_def)
  then show ?thesis using zeroed_rows [OF z(2)] z(3) by simp
qed

lemma sto_truncate_unused_eq:
  assumes "sto_inv cols l v sq s" "0 < l"
  shows "sto_inv cols l v sq (sto_truncate_unused_rows s)"
    "storage_rows (sto_truncate_unused_rows s) = storage_rows s"
    "length (sto_inner (sto_truncate_unused_rows s)) = l"
    "sto_bottom_row (sto_truncate_unused_rows s) = 0"
proof -
  let ?t = "sto_truncate_unused_rows s"
  note z = sto_rezero_eq [OF assms(1)]
  have zi: "sto_len (sto_rezero s) = l" "l \<le> length (sto_inner (sto_rezero s))"
    using z(1) by (simp_all add: sto_inv_def)
  then show b: "sto_bottom_row ?t = 0" and len: "length (sto_inner ?t) = l"
    using z(2) by (simp_all add: sto_truncate_unused_rows_def Let_def)
  show inv: "sto_inv cols l v sq ?t"
    using z zi assms(2)
    by (auto simp: sto_inv_def sto_truncate_unused_rows_def Let_def list_all_iff dest: in_set_takeD)
  have "sto_is_sequential ?t = sq" "sto_len ?t = l" using inv by (simp_all add: sto_inv_def)
  then show "storage_rows ?t = storage_rows s"
    using zeroed_rows [OF b] len sto_rezero_list [OF assms(1)] zi
    by (simp add: sto_truncate_unused_rows_def Let_def)
qed

lemma sto_shrink_lines_eq:
  assumes "sto_inv cols l v sq s" "n < l" "v \<le> l - n"
  shows "\<exists>s'. sto_shrink_lines n s = Some s' \<and> sto_inv cols (l - n) v sq s' \<and>
              storage_rows s' = (if sq then take (l - n) (storage_rows s) else drop n (storage_rows s))"
proof -
  let ?s = "s\<lparr>sto_len := l - n\<rparr>"
  have inv: "sto_inv cols (l - n) v sq ?s" using assms by (auto simp: sto_inv_def)
  have rows: "storage_rows ?s = (if sq then take (l - n) (storage_rows s) else drop n (storage_rows s))"
    using assms
    by (intro nth_equalityI) (auto simp: nth_storage_rows sto_idx_def sto_inv_def add.commute Let_def)
  show ?thesis
    using assms inv rows sto_truncate_unused_eq [OF inv]
    by (auto simp: sto_shrink_lines_def checked_sub_def sto_inv_len Let_def)
qed

lemma sto_truncate_to_eq:
  assumes "sto_inv cols l v sq s" "t < l" "0 < t"
  shows "\<exists>s'. sto_truncate_to t s = Some s' \<and> sto_inv cols t (min v t) sq s' \<and>
              storage_rows s' = (if sq then drop (l - t) (storage_rows s) else take t (storage_rows s))"
proof -
  note z = sto_rezero_eq [OF assms(1)]
  let ?z = "sto_rezero s"
  let ?d = "?z\<lparr>sto_inner := drop (l - t) (sto_inner ?z), sto_len := t,
               sto_visible_lines := min v t\<rparr>"
  have zi: "sto_len ?z = l" "l \<le> length (sto_inner ?z)" "sto_visible_lines ?z = v"
      "list_all (row_ok cols) (sto_inner ?z)" "sto_is_sequential ?z = sq"
    using z(1) by (auto simp: sto_inv_def)
  have inv: "sto_inv cols t (min v t) sq ?d"
    using zi z(2) assms(2,3) by (auto simp: sto_inv_def list_all_iff dest: in_set_dropD)
  have "storage_rows ?d = (if sq then take t (drop (l - t) (sto_inner ?z))
                           else rev (take t (drop (l - t) (sto_inner ?z))))"
    using zeroed_rows [of ?d] z(2) zi assms(2) by simp
  also have "\<dots> = (if sq then drop (l - t) (storage_rows s) else take t (storage_rows s))"
    using assms(2) zi(2) by (simp add: sto_rezero_list [OF assms(1)] take_drop take_rev)
  finally have rows: "storage_rows ?d = \<dots>" .
  have "sto_len s = l" using assms(1) by (simp add: sto_inv_len)
  then have "sto_truncate_to t s = Some (sto_truncate_unused_rows ?d)"
    using assms(2) zi by (auto simp: sto_truncate_to_def Let_def)
  then show ?thesis
    using rows sto_truncate_unused_eq [OF inv assms(3)] by simp
qed

lemma sto_push_from_scrollback_eq:
  assumes "sto_inv cols l v sq s" "list_all (row_ok cols) rs" "0 < l"
  shows "\<exists>s'. sto_push_from_scrollback rs s = Some s' \<and> sto_inv cols (l + length rs) v sq s' \<and>
              storage_rows s' = (if sq then storage_rows s @ rs else rs @ storage_rows s)"
proof -
  note z = sto_rezero_eq [OF assms(1)]
  let ?z = "sto_rezero s"
  let ?d = "?z\<lparr>sto_inner := take l (sto_inner ?z) @ (if sq then rs else rev rs),
               sto_len := l + length rs\<rparr>"
  have zi: "sto_len ?z = l" "l \<le> length (sto_inner ?z)" "sto_visible_lines ?z = v" "v \<le> l"
      "list_all (row_ok cols) (sto_inner ?z)" "sto_is_sequential ?z = sq" "sto_is_sequential s = sq"
    using z(1) assms(1) by (auto simp: sto_inv_def)
  have inv: "sto_inv cols (l + length rs) v sq ?d"
    using zi z(1,2) assms(2,3) by (auto simp: sto_inv_def list_all_iff dest: in_set_takeD)
  have "storage_rows ?d = (if sq then storage_rows s @ rs else rs @ storage_rows s)"
    using zeroed_rows [of ?d] z(2) zi by (simp add: sto_rezero_list [OF assms(1)])
  then show ?thesis
    using inv zi by (simp add: sto_push_from_scrollback_def Let_def)
qed

lemma sto_with_rows_eq:
  assumes "list_all (row_ok cols) rs" "rs \<noteq> []" "v \<le> length rs"
  shows "sto_inv cols (length rs) v sq (sto_with_rows rs sq v)"
    "storage_rows (sto_with_rows rs sq v) = (if sq then rs else rev rs)"
  using assms zeroed_rows [of "sto_with_rows rs sq v"]
  by (simp_all add: sto_inv_def sto_with_rows_def)

lemma sto_to_grid_index_eq:
  "sto_inv cols l l sq s \<Longrightarrow> sto_to_grid_index s i = Some i"
  by (simp add: sto_to_grid_index_def sto_inv_def checked_sub_def)

lemma sto_mut_visible_eq:
  "sto_inv cols l l sq s \<Longrightarrow> sto_mut_visible i f s = sto_mut i f s"
  by (simp add: sto_mut_visible_def sto_to_grid_index_eq)

lemma sto_get_visible_eq:
  "sto_inv cols l l sq s \<Longrightarrow> sto_get_visible i s = sto_get i s"
  by (simp add: sto_get_visible_def sto_to_grid_index_eq)

lemma sto_swap_lines_eq:
  "sto_inv cols l l sq s \<Longrightarrow> sto_swap_lines a b s = sto_swap a b s"
  by (simp add: sto_swap_lines_def sto_to_grid_index_eq)

text \<open>A small buffer on which the properties are exercised.\<close>

definition sample_storage :: "bool \<Rightarrow> storage" where
  "sample_storage sq = sto_with_rows [row_blank 2 (Named Red), row_new 2] sq 2"

lemma sto_inv_sample: "sto_inv 2 2 2 sq (sample_storage sq)"
  by (simp add: sample_storage_def sto_inv_def sto_with_rows_def row_ok_blank row_ok_new)

text \<open>with the rows stored bottom-up, rows pulled back from scrollback go above
  the grid, and truncating the buffer to \<open>t\<close> rows keeps the \<open>t\<close> topmost rows,
  wherever the ring is rotated.\<close>

theorem sto_pull_and_truncate:
  assumes "sto_inv cols l v False s" "list_all (row_ok cols) rs" "0 < t" "t < l + length rs" "0 < l"
  shows "\<exists>s1 s2. sto_push_from_scrollback rs s = Some s1 \<and> sto_truncate_to t s1 = Some s2 \<and>
           storage_rows s2 = take t (rs @ storage_rows s) \<and> sto_inv cols t (min v t) False s2"
proof -
  obtain s1 where s1: "sto_push_from_scrollback rs s = Some s1"
      "sto_inv cols (l + length rs) v False s1" "storage_rows s1 = rs @ storage_rows s"
    using sto_push_from_scrollback_eq [OF assms(1,2,5)] by auto
  then show ?thesis using sto_truncate_to_eq [OF s1(2) assms(4,3)] by auto
qed

theorem sto_pull_and_truncate_witness:
  "\<exists>s1 s2. sto_push_from_scrollback [row_new 2] (sample_storage False) = Some s1 \<and>
           sto_truncate_to 2 s1 = Some s2 \<and>
           storage_rows s2 = take 2 ([row_new 2] @ storage_rows (sample_storage False)) \<and>
           sto_inv 2 2 (min 2 2) False s2"
  using sto_pull_and_truncate [OF sto_inv_sample, of "[row_new 2]" 2] by (simp add: row_ok_new)

text \<open>with sequential storage, \<open>truncate_to\<close> drains the same end of the raw buffer,
  which is then the top of the grid: it keeps the \<open>t\<close> bottommost rows and drops the
  rows above them.\<close>

theorem sto_truncate_to_sequential:
  assumes "sto_inv cols l v True s" "0 < t" "t < l"
  shows "\<exists>s'. sto_truncate_to t s = Some s' \<and> storage_rows s' = drop (l - t) (storage_rows s)"
  using sto_truncate_to_eq [OF assms(1,3,2)] by auto

theorem sto_truncate_to_sequential_witness:
  "\<exists>s'. sto_truncate_to 1 (sample_storage True) = Some s' \<and>
        storage_rows s' = drop (2 - 1) (storage_rows (sample_storage True))"
  using sto_truncate_to_sequential [OF sto_inv_sample, of 1] by simp

end
