(* ===== verification/Control_Params.thy ===== *)
theory Control_Params
  imports Row
begin

text \<open>
  The parameters of control sequences
  (\<^verbatim>\<open>crates/warp_terminal/src/model/ansi/control_sequence_parameters.rs\<close>): terminal
  modes, colours and their escape codes, the character sets, the parser of SGR
  (graphic rendition) parameters and the parser of OSC 133 prompt markers.
  Parameters are lists of sub-parameters, as the \<open>vte\<close> parser hands them over;
  \<open>u16\<close> values, on which no arithmetic is done, are natural numbers.
\<close>

section \<open>Modes\<close>

datatype mode =
    CursorKeys | DECCOLM | Insert | Origin | LineWrap | BlinkingCursor | LineFeedNewLine
  | ShowCursor | ReportMouseClicks | ReportCellMouseMotion | ReportAllMouseMotion
  | ReportFocusInOut | Utf8Mouse | SgrMouse | AlternateScroll | UrgencyHints
  | SwapScreen bool | BracketedPaste | SyncOutput

datatype cursor_shape = ShapeBlock | ShapeUnderline | ShapeBeam | ShapeHollowBlock | ShapeHidden

datatype line_clear_mode = ClearRight | ClearLeft | ClearLineAll

datatype clear_mode = Below | Above | ClearAll | Saved | ResetAndClear | ActiveBlock

datatype tabulation_clear_mode = TabCurrent | TabAll

definition private_modes :: "(nat \<times> mode) list" where
  "private_modes =
     [(1, CursorKeys), (3, DECCOLM), (6, Origin), (7, LineWrap), (12, BlinkingCursor),
      (25, ShowCursor), (1000, ReportMouseClicks), (1002, ReportCellMouseMotion),
      (1003, ReportAllMouseMotion), (1004, ReportFocusInOut), (1005, Utf8Mouse),
      (1006, SgrMouse), (1007, AlternateScroll), (1042, UrgencyHints),
      (47, SwapScreen False), (1049, SwapScreen True), (2004, BracketedPaste),
      (2026, SyncOutput)]"

definition ansi_modes :: "(nat \<times> mode) list" where
  "ansi_modes = [(4, Insert), (20, LineFeedNewLine)]"

text \<open>\<open>Mode::from_primitive\<close>; the intermediate byte \<open>?\<close> (0x3F) selects the private modes.\<close>

definition mode_from_primitive :: "nat option \<Rightarrow> nat \<Rightarrow> mode option" where
  "mode_from_primitive intermediate num =
     (if num = 0 then None
      else case intermediate of
             Some b \<Rightarrow> if b = 0x3F then map_of private_modes num else None
           | None \<Rightarrow> map_of ansi_modes num)"

section \<open>Character sets\<close>

datatype charset_index = G0 | G1 | G2 | G3

datatype standard_charset = Ascii | SpecialCharacterAndLineDrawing

definition line_drawing_map :: "(rust_char \<times> rust_char) list" where
  "line_drawing_map =
     [(0x60, 0x25C6), (0x61, 0x2592), (0x62, 0x09), (0x63, 0x0C), (0x64, 0x0D), (0x65, 0x0A),
      (0x66, 0xB0), (0x67, 0xB1), (0x68, 0x2424), (0x69, 0x0B), (0x6A, 0x2518), (0x6B, 0x2510),
      (0x6C, 0x250C), (0x6D, 0x2514), (0x6E, 0x253C), (0x6F, 0x23BA), (0x70, 0x23BB),
      (0x71, 0x2500), (0x72, 0x23BC), (0x73, 0x23BD), (0x74, 0x251C), (0x75, 0x2524),
      (0x76, 0x2534), (0x77, 0x252C), (0x78, 0x2502), (0x79, 0x2264), (0x7A, 0x2265),
      (0x7B, 0x3C0), (0x7C, 0x2260), (0x7D, 0xA3), (0x7E, 0xB7)]"

fun charset_map :: "standard_charset \<Rightarrow> rust_char \<Rightarrow> rust_char" where
  "charset_map Ascii c = c"
| "charset_map SpecialCharacterAndLineDrawing c =
     (case map_of line_drawing_map c of Some d \<Rightarrow> d | None \<Rightarrow> c)"

section \<open>Colours\<close>

fun to_bright :: "named_color \<Rightarrow> named_color" where
  "to_bright Foreground = BrightForeground"
| "to_bright Black = BrightBlack"
| "to_bright Red = BrightRed"
| "to_bright Green = BrightGreen"
| "to_bright Yellow = BrightYellow"
| "to_bright Blue = BrightBlue"
| "to_bright Magenta = BrightMagenta"
| "to_bright Cyan = BrightCyan"
| "to_bright White = BrightWhite"
| "to_bright DimForeground = Foreground"
| "to_bright DimBlack = Black"
| "to_bright DimRed = Red"
| "to_bright DimGreen = Green"
| "to_bright DimYellow = Yellow"
| "to_bright DimBlue = Blue"
| "to_bright DimMagenta = Magenta"
| "to_bright DimCyan = Cyan"
| "to_bright DimWhite = White"
| "to_bright c = c"

fun to_dim :: "named_color \<Rightarrow> named_color" where
  "to_dim Black = DimBlack"
| "to_dim Red = DimRed"
| "to_dim Green = DimGreen"
| "to_dim Yellow = DimYellow"
| "to_dim Blue = DimBlue"
| "to_dim Magenta = DimMagenta"
| "to_dim Cyan = DimCyan"
| "to_dim White = DimWhite"
| "to_dim Foreground = DimForeground"
| "to_dim BrightBlack = Black"
| "to_dim BrightRed = Red"
| "to_dim BrightGreen = Green"
| "to_dim BrightYellow = Yellow"
| "to_dim BrightBlue = Blue"
| "to_dim BrightMagenta = Magenta"
| "to_dim BrightCyan = Cyan"
| "to_dim BrightWhite = White"
| "to_dim BrightForeground = Foreground"
| "to_dim c = c"

fun to_ansi_bg_escape_code :: "named_color \<Rightarrow> nat option" where
  "to_ansi_bg_escape_code Black = Some 40" | "to_ansi_bg_escape_code DimBlack = Some 40"
| "to_ansi_bg_escape_code Red = Some 41" | "to_ansi_bg_escape_code DimRed = Some 41"
| "to_ansi_bg_escape_code Green = Some 42" | "to_ansi_bg_escape_code DimGreen = Some 42"
| "to_ansi_bg_escape_code Yellow = Some 43" | "to_ansi_bg_escape_code DimYellow = Some 43"
| "to_ansi_bg_escape_code Blue = Some 44" | "to_ansi_bg_escape_code DimBlue = Some 44"
| "to_ansi_bg_escape_code Magenta = Some 45" | "to_ansi_bg_escape_code DimMagenta = Some 45"
| "to_ansi_bg_escape_code Cyan = Some 46" | "to_ansi_bg_escape_code DimCyan = Some 46"
| "to_ansi_bg_escape_code White = Some 47" | "to_ansi_bg_escape_code DimWhite = Some 47"
| "to_ansi_bg_escape_code Background = Some 49"
| "to_ansi_bg_escape_code BrightBlack = Some 100"
| "to_ansi_bg_escape_code BrightRed = Some 101"
| "to_ansi_bg_escape_code BrightGreen = Some 102"
| "to_ansi_bg_escape_code BrightYellow = Some 103"
| "to_ansi_bg_escape_code BrightBlue = Some 104"
| "to_ansi_bg_escape_code BrightMagenta = Some 105"
| "to_ansi_bg_escape_code BrightCyan = Some 106"
| "to_ansi_bg_escape_code BrightWhite = Some 107"
| "to_ansi_bg_escape_code _ = None"

fun to_ansi_fg_escape_code :: "named_color \<Rightarrow> nat option" where
  "to_ansi_fg_escape_code Black = Some 30" | "to_ansi_fg_escape_code DimBlack = Some 30"
| "to_ansi_fg_escape_code Red = Some 31" | "to_ansi_fg_escape_code DimRed = Some 31"
| "to_ansi_fg_escape_code Green = Some 32" | "to_ansi_fg_escape_code DimGreen = Some 32"
| "to_ansi_fg_escape_code Yellow = Some 33" | "to_ansi_fg_escape_code DimYellow = Some 33"
| "to_ansi_fg_escape_code Blue = Some 34" | "to_ansi_fg_escape_code DimBlue = Some 34"
| "to_ansi_fg_escape_code Magenta = Some 35" | "to_ansi_fg_escape_code DimMagenta = Some 35"
| "to_ansi_fg_escape_code Cyan = Some 36" | "to_ansi_fg_escape_code DimCyan = Some 36"
| "to_ansi_fg_escape_code White = Some 37" | "to_ansi_fg_escape_code DimWhite = Some 37"
| "to_ansi_fg_escape_code Foreground = Some 39"
| "to_ansi_fg_escape_code BrightForeground = Some 39"
| "to_ansi_fg_escape_code DimForeground = Some 39"
| "to_ansi_fg_escape_code BrightBlack = Some 90"
| "to_ansi_fg_escape_code BrightRed = Some 91"
| "to_ansi_fg_escape_code BrightGreen = Some 92"
| "to_ansi_fg_escape_code BrightYellow = Some 93"
| "to_ansi_fg_escape_code BrightBlue = Some 94"
| "to_ansi_fg_escape_code BrightMagenta = Some 95"
| "to_ansi_fg_escape_code BrightCyan = Some 96"
| "to_ansi_fg_escape_code BrightWhite = Some 97"
| "to_ansi_fg_escape_code _ = None"

fun into_color_index :: "named_color \<Rightarrow> nat" where
  "into_color_index Black = 0" | "into_color_index Red = 1" | "into_color_index Green = 2"
| "into_color_index Yellow = 3" | "into_color_index Blue = 4" | "into_color_index Magenta = 5"
| "into_color_index Cyan = 6" | "into_color_index White = 7"
| "into_color_index BrightBlack = 8" | "into_color_index BrightRed = 9"
| "into_color_index BrightGreen = 10" | "into_color_index BrightYellow = 11"
| "into_color_index BrightBlue = 12" | "into_color_index BrightMagenta = 13"
| "into_color_index BrightCyan = 14" | "into_color_index BrightWhite = 15"
| "into_color_index Foreground = 256" | "into_color_index Background = 257"
| "into_color_index Cursor = 258" | "into_color_index DimBlack = 259"
| "into_color_index DimRed = 260" | "into_color_index DimGreen = 261"
| "into_color_index DimYellow = 262" | "into_color_index DimBlue = 263"
| "into_color_index DimMagenta = 264" | "into_color_index DimCyan = 265"
| "into_color_index DimWhite = 266" | "into_color_index BrightForeground = 267"
| "into_color_index DimForeground = 268"

section \<open>SGR attributes\<close>

datatype attr =
    AttrReset | AttrBold | AttrDim | AttrItalic | AttrUnderline | AttrDoubleUnderline
  | AttrBlinkSlow | AttrBlinkFast | AttrReverse | AttrHidden | AttrStrike
  | AttrCancelBold | AttrCancelBoldDim | AttrCancelItalic | AttrCancelUnderline
  | AttrCancelBlink | AttrCancelReverse | AttrCancelHidden | AttrCancelStrike
  | AttrForeground color | AttrBackground color

text \<open>\<open>parse_sgr_color\<close> on the remaining parameter values; the second component is what
  the iterator has left.  Each \<open>u8::try_from\<close> may end the parse early.\<close>

fun next_u8 :: "nat list \<Rightarrow> u8 option \<times> nat list" where
  "next_u8 [] = (None, [])"
| "next_u8 (p # ps) = (if p \<le> 255 then Some (of_nat p) else None, ps)"

definition parse_sgr_color :: "nat list \<Rightarrow> color option \<times> nat list" where
  "parse_sgr_color params =
     (case params of
        [] \<Rightarrow> (None, [])
      | p # ps \<Rightarrow>
          if p = 2 then
            (case next_u8 ps of
               (None, rest) \<Rightarrow> (None, rest)
             | (Some r, ps1) \<Rightarrow>
                 (case next_u8 ps1 of
                    (None, rest) \<Rightarrow> (None, rest)
                  | (Some g, ps2) \<Rightarrow>
                      (case next_u8 ps2 of
                         (None, rest) \<Rightarrow> (None, rest)
                       | (Some b, rest) \<Rightarrow> (Some (Spec r g b 255), rest))))
          else if p = 5 then
            (case next_u8 ps of
               (None, rest) \<Rightarrow> (None, rest)
             | (Some i, rest) \<Rightarrow> (Some (Indexed i), rest))
          else (None, ps))"

definition sgr_single :: "(nat \<times> attr) list" where
  "sgr_single =
     [(0, AttrReset), (1, AttrBold), (2, AttrDim), (3, AttrItalic), (5, AttrBlinkSlow),
      (6, AttrBlinkFast), (7, AttrReverse), (8, AttrHidden), (9, AttrStrike),
      (21, AttrCancelBold), (22, AttrCancelBoldDim), (23, AttrCancelItalic),
      (24, AttrCancelUnderline), (25, AttrCancelBlink), (27, AttrCancelReverse),
      (28, AttrCancelHidden), (29, AttrCancelStrike),
      (30, AttrForeground (Named Black)), (31, AttrForeground (Named Red)),
      (32, AttrForeground (Named Green)), (33, AttrForeground (Named Yellow)),
      (34, AttrForeground (Named Blue)), (35, AttrForeground (Named Magenta)),
      (36, AttrForeground (Named Cyan)), (37, AttrForeground (Named White)),
      (39, AttrForeground (Named Foreground)),
      (40, AttrBackground (Named Black)), (41, AttrBackground (Named Red)),
      (42, AttrBackground (Named Green)), (43, AttrBackground (Named Yellow)),
      (44, AttrBackground (Named Blue)), (45, AttrBackground (Named Magenta)),
      (46, AttrBackground (Named Cyan)), (47, AttrBackground (Named White)),
      (49, AttrBackground (Named Background)),
      (90, AttrForeground (Named BrightBlack)), (91, AttrForeground (Named BrightRed)),
      (92, AttrForeground (Named BrightGreen)), (93, AttrForeground (Named BrightYellow)),
      (94, AttrForeground (Named BrightBlue)), (95, AttrForeground (Named BrightMagenta)),
      (96, AttrForeground (Named BrightCyan)), (97, AttrForeground (Named BrightWhite)),
      (100, AttrBackground (Named BrightBlack)), (101, AttrBackground (Named BrightRed)),
      (102, AttrBackground (Named BrightGreen)), (103, AttrBackground (Named BrightYellow)),
      (104, AttrBackground (Named BrightBlue)), (105, AttrBackground (Named BrightMagenta)),
      (106, AttrBackground (Named BrightCyan)), (107, AttrBackground (Named BrightWhite))]"

text \<open>The sub-parameter form \<open>38:2:...\<close> with an optional colour space.\<close>

definition sgr_sub_color :: "nat list \<Rightarrow> color option" where
  "sgr_sub_color ps =
     (let rgb_start = (if length ps > 4 then 2 else 1)
      in fst (parse_sgr_color (hd ps # drop rgb_start ps)))"

text \<open>One turn of the loop: the attribute of the next parameter and the parameters left.
  The bare \<open>38\<close> and \<open>48\<close> read their colour from the parameters that follow.\<close>

definition sgr_step :: "nat list \<Rightarrow> nat list list \<Rightarrow> attr option \<times> nat list list" where
  "sgr_step param rest =
     (case param of
        [] \<Rightarrow> (None, rest)
      | [p] \<Rightarrow>
          if p = 4 then (Some AttrUnderline, rest)
          else if p = 38 \<or> p = 48 then
            (let (c, left) = parse_sgr_color (map hd rest)
             in (map_option (if p = 38 then AttrForeground else AttrBackground) c,
                 drop (length rest - length left) rest))
          else (map_of sgr_single p, rest)
      | p # ps \<Rightarrow>
          if p = 4 then
            (Some (if ps = [0] then AttrCancelUnderline
                   else if ps = [2] then AttrDoubleUnderline else AttrUnderline), rest)
          else if p = 38 then (map_option AttrForeground (sgr_sub_color ps), rest)
          else if p = 48 then (map_option AttrBackground (sgr_sub_color ps), rest)
          else (None, rest))"

lemma sgr_step_length: "length (snd (sgr_step p rest)) \<le> length rest"
  by (auto simp: sgr_step_def split: list.splits prod.splits)

function attrs_from_sgr_parameters :: "nat list list \<Rightarrow> attr option list" where
  "attrs_from_sgr_parameters [] = []"
| "attrs_from_sgr_parameters (p # rest) =
     (case sgr_step p rest of (a, rest') \<Rightarrow> a # attrs_from_sgr_parameters rest')"
  by pat_completeness auto

termination
  by (relation "measure length") (auto, metis less_Suc_eq_le sgr_step_length snd_conv)

section \<open>Prompt markers\<close>

datatype prompt_kind = PromptInitial | PromptRight

datatype prompt_marker = StartPrompt prompt_kind | EndPrompt

datatype prompt_marker_error = UnknownParam | MalformedOption

definition prompt_kind_of :: "nat list \<Rightarrow> prompt_kind option" where
  "prompt_kind_of value =
     (if value = [0x69] then Some PromptInitial else if value = [0x72] then Some PromptRight else None)"

primrec prompt_options :: "nat list list \<Rightarrow> prompt_kind \<Rightarrow> prompt_marker_error + prompt_kind" where
  "prompt_options [] kind = Inr kind"
| "prompt_options (param # ps) kind =
     (let key = takeWhile (\<lambda>b. b \<noteq> 0x3D) param;
          tail = dropWhile (\<lambda>b. b \<noteq> 0x3D) param
      in if tail = [] then Inl MalformedOption
         else if length key + 1 \<ge> length param then Inl MalformedOption
         else prompt_options ps
                (if key = [0x6B] then (case prompt_kind_of (tl tail) of Some k \<Rightarrow> k | None \<Rightarrow> kind)
                 else kind))"

definition prompt_marker_of :: "nat list list \<Rightarrow> prompt_marker_error + prompt_marker" where
  "prompt_marker_of params =
     (case params of
        [] \<Rightarrow> Inl UnknownParam
      | p # ps \<Rightarrow>
          if p = [0x41] then Inr (StartPrompt PromptInitial)
          else if p = [0x42] then Inr EndPrompt
          else if p = [0x50] then map_sum id StartPrompt (prompt_options ps PromptInitial)
          else Inl UnknownParam)"

section \<open>Properties\<close>

lemma map_of_sgr_single_fg:
  "to_ansi_fg_escape_code c = Some k \<Longrightarrow>
     \<exists>c'. map_of sgr_single k = Some (AttrForeground (Named c')) \<and> to_ansi_fg_escape_code c' = Some k"
  by (cases c) (auto simp: sgr_single_def)

lemma map_of_sgr_single_bg:
  "to_ansi_bg_escape_code c = Some k \<Longrightarrow>
     \<exists>c'. map_of sgr_single k = Some (AttrBackground (Named c')) \<and> to_ansi_bg_escape_code c' = Some k"
  by (cases c) (auto simp: sgr_single_def)

lemma escape_code_plain:
  "to_ansi_fg_escape_code c = Some k \<Longrightarrow> k \<notin> {4, 38, 48}"
  "to_ansi_bg_escape_code c = Some k \<Longrightarrow> k \<notin> {4, 38, 48}"
  by (cases c; simp; fail | cases c; force)+

text \<open>the escape codes printed for a named colour are read back by the SGR parser as
  a foreground (background) attribute whose colour prints the same code.\<close>

theorem sgr_named_color_roundtrip:
  assumes "to_ansi_fg_escape_code c = Some k" "to_ansi_bg_escape_code d = Some j"
  shows "\<exists>c' d'. attrs_from_sgr_parameters [[k], [j]] =
                   [Some (AttrForeground (Named c')), Some (AttrBackground (Named d'))] \<and>
                 to_ansi_fg_escape_code c' = Some k \<and> to_ansi_bg_escape_code d' = Some j"
  using map_of_sgr_single_fg [OF assms(1)] map_of_sgr_single_bg [OF assms(2)]
    escape_code_plain(1) [OF assms(1)] escape_code_plain(2) [OF assms(2)]
  by (auto simp: sgr_step_def)

theorem sgr_named_color_roundtrip_witness:
  "\<exists>c' d'. attrs_from_sgr_parameters [[91], [42]] =
             [Some (AttrForeground (Named c')), Some (AttrBackground (Named d'))] \<and>
           to_ansi_fg_escape_code c' = Some 91 \<and> to_ansi_bg_escape_code d' = Some 42"
  by (rule sgr_named_color_roundtrip [of BrightRed 91 Green 42]) simp_all

text \<open>the three notations of a direct colour (semicolons, colons, colons with a
  colour space) denote the same attribute, and the semicolon form consumes exactly
  its five parameters, so that what follows is parsed on its own.\<close>

theorem sgr_direct_color:
  assumes "r \<le> 255" "g \<le> 255" "b \<le> 255"
  shows "attrs_from_sgr_parameters ([38] # [2] # [r] # [g] # [b] # rest) =
           Some (AttrForeground (Spec (of_nat r) (of_nat g) (of_nat b) 255)) # attrs_from_sgr_parameters rest \<and>
         attrs_from_sgr_parameters ([38, 2, r, g, b] # rest) =
           Some (AttrForeground (Spec (of_nat r) (of_nat g) (of_nat b) 255)) # attrs_from_sgr_parameters rest \<and>
         attrs_from_sgr_parameters ([38, 2, cs, r, g, b] # rest) =
           Some (AttrForeground (Spec (of_nat r) (of_nat g) (of_nat b) 255)) # attrs_from_sgr_parameters rest"
  using assms by (simp add: sgr_step_def sgr_sub_color_def parse_sgr_color_def)

theorem sgr_direct_color_witness:
  "attrs_from_sgr_parameters ([38] # [2] # [1] # [2] # [3] # [[0]]) =
     Some (AttrForeground (Spec (of_nat 1) (of_nat 2) (of_nat 3) 255)) # attrs_from_sgr_parameters [[0]] \<and>
   attrs_from_sgr_parameters ([38, 2, 1, 2, 3] # [[0]]) =
     Some (AttrForeground (Spec (of_nat 1) (of_nat 2) (of_nat 3) 255)) # attrs_from_sgr_parameters [[0]] \<and>
   attrs_from_sgr_parameters ([38, 2, 7, 1, 2, 3] # [[0]]) =
     Some (AttrForeground (Spec (of_nat 1) (of_nat 2) (of_nat 3) 255)) # attrs_from_sgr_parameters [[0]]"
  by (rule sgr_direct_color) simp_all

end
