(* ===== verification/Grid_Storage.thy ===== *)
theory Grid_Storage
  imports Storage Control_Params
begin

text \<open>
  The grid of cells with its cursors
  (\<^verbatim>\<open>app/src/terminal/model/grid/grid_storage.rs\<close>, and the row regions of
  \<^verbatim>\<open>indexing.rs\<close>).  The operations work on the ring buffer through the
  \<open>row_buffer\<close> interface.  \<open>scroll_up_rows\<close> and \<open>scroll_down_rows\<close> say what scrolling a
  region means on the list of rows; the swap-rotate-reset-swap routines of the
  code are shown to implement them without panicking.
\<close>

section \<open>Cursors\<close>

type_synonym charsets = "charset_index \<Rightarrow> standard_charset"

record cursor =
  cur_row :: nat
  cur_col :: nat
  cur_template :: cell
  cur_charsets :: charsets
  cur_input_needs_wrap :: bool

definition cursor_default :: cursor where
  "cursor_default =
     \<lparr>cur_row = 0, cur_col = 0, cur_template = cell_default, cur_charsets = (\<lambda>_. Ascii),
      cur_input_needs_wrap = False\<rparr>"

section \<open>The grid\<close>

record grid =
  g_cursor :: cursor
  g_max_cursor_row :: nat
  g_max_cursor_col :: nat
  g_saved_cursor :: cursor
  g_raw :: storage
  g_columns :: nat
  g_rows :: nat
  g_max_scroll_limit :: nat
  g_num_lines_truncated :: u64

definition grid_new :: "nat \<Rightarrow> nat \<Rightarrow> nat \<Rightarrow> bool \<Rightarrow> grid" where
  "grid_new rows columns max_scroll_limit sequential =
     \<lparr>g_cursor = cursor_default, g_max_cursor_row = 0, g_max_cursor_col = 0,
      g_saved_cursor = cursor_default,
      g_raw = sto_with_capacity rows columns sequential,
      g_columns = columns, g_rows = rows, g_max_scroll_limit = max_scroll_limit,
      g_num_lines_truncated = 0\<rparr>"

definition g_total_rows :: "grid \<Rightarrow> nat" where
  "g_total_rows g = sto_len (g_raw g)"

definition g_history_size :: "grid \<Rightarrow> nat option" where
  "g_history_size g = checked_sub (g_total_rows g) (g_rows g)"

definition g_mut :: "nat \<Rightarrow> (row \<Rightarrow> row option) \<Rightarrow> grid \<Rightarrow> grid option" where
  "g_mut row f g = do { raw \<leftarrow> sto_mut_visible row f (g_raw g); Some (g\<lparr>g_raw := raw\<rparr>) }"

definition g_get_visible :: "nat \<Rightarrow> grid \<Rightarrow> row option" where
  "g_get_visible row g = sto_get_visible row (g_raw g)"

definition g_get :: "nat \<Rightarrow> grid \<Rightarrow> row option option" where
  "g_get i g = (if i < g_total_rows g then do { r \<leftarrow> sto_get i (g_raw g); Some (Some r) }
                else Some None)"

text \<open>The point a split-off grid gives to one of the cursors of the original.\<close>

definition adjust_cursor_point ::
    "nat \<Rightarrow> nat \<Rightarrow> nat \<Rightarrow> nat \<Rightarrow> nat \<Rightarrow> nat \<times> nat \<Rightarrow> (nat \<times> nat) option" where
  "adjust_cursor_point num_preceding_rows initial_history_size new_history_size new_visible_rows
     columns p =
     (let row = fst p + initial_history_size
      in if num_preceding_rows \<le> row
         then let visible_row = row - num_preceding_rows - new_history_size
              in if visible_row < new_visible_rows then Some (visible_row, snd p)
                 else do { r \<leftarrow> checked_sub new_visible_rows 1;
                           c \<leftarrow> checked_sub columns 1;
                           Some (r, c) }
         else Some (0, 0))"

definition grid_new_for_split :: "row list \<Rightarrow> nat \<Rightarrow> nat \<Rightarrow> grid \<Rightarrow> grid option" where
  "grid_new_for_split rows num_preceding_rows initial_history_size g =
     (let sq = sto_is_sequential (g_raw g);
          visible_lines = length rows;
          rows' = (if sq then rows else rev rows);
          g0 = \<lparr>g_cursor = g_cursor g, g_max_cursor_row = g_max_cursor_row g,
                g_max_cursor_col = g_max_cursor_col g, g_saved_cursor = g_saved_cursor g,
                g_raw = sto_with_rows rows' sq visible_lines, g_columns = g_columns g,
                g_rows = visible_lines, g_max_scroll_limit = g_max_scroll_limit g,
                g_num_lines_truncated = 0\<rparr>
      in do {
        h \<leftarrow> g_history_size g0;
        let adj = adjust_cursor_point num_preceding_rows initial_history_size h (g_rows g0) (g_columns g0);
        c \<leftarrow> adj (cur_row (g_cursor g), cur_col (g_cursor g));
        sc \<leftarrow> adj (cur_row (g_saved_cursor g), cur_col (g_saved_cursor g));
        mc \<leftarrow> adj (g_max_cursor_row g, g_max_cursor_col g);
        Some (g0\<lparr>g_cursor := (g_cursor g)\<lparr>cur_row := fst c, cur_col := snd c\<rparr>,
                 g_saved_cursor := (g_saved_cursor g)\<lparr>cur_row := fst sc, cur_col := snd sc\<rparr>,
                 g_max_cursor_row := fst mc, g_max_cursor_col := snd mc\<rparr>)
      })"

definition g_set_stored_rows :: "row list \<Rightarrow> nat \<Rightarrow> nat \<Rightarrow> grid \<Rightarrow> grid" where
  "g_set_stored_rows rows visible_rows columns g =
     (let rows' = take visible_rows rows @ replicate (visible_rows - length rows) (row_new columns);
          sq = sto_is_sequential (g_raw g);
          rows'' = (if sq then rows' else rev rows')
      in g\<lparr>g_rows := visible_rows, g_columns := columns,
           g_raw := sto_with_rows rows'' sq visible_rows\<rparr>)"

definition g_update_history :: "nat \<Rightarrow> grid \<Rightarrow> grid option" where
  "g_update_history history_size g = do {
     h \<leftarrow> g_history_size g;
     raw \<leftarrow> (if h > history_size then sto_shrink_lines (h - history_size) (g_raw g) else Some (g_raw g));
     Some (g\<lparr>g_raw := raw, g_max_scroll_limit := history_size\<rparr>)
   }"

definition g_increase_scroll_limit :: "nat \<Rightarrow> grid \<Rightarrow> grid option" where
  "g_increase_scroll_limit count g = do {
     h \<leftarrow> g_history_size g;
     room \<leftarrow> checked_sub (g_max_scroll_limit g) h;
     let c = min count room;
     Some (if c \<noteq> 0 then g\<lparr>g_raw := sto_initialize c (g_columns g) (g_raw g)\<rparr> else g)
   }"

definition g_decrease_scroll_limit :: "nat \<Rightarrow> grid \<Rightarrow> grid option" where
  "g_decrease_scroll_limit count g = do {
     h \<leftarrow> g_history_size g;
     let c = min count h;
     if c \<noteq> 0 then do { raw \<leftarrow> sto_shrink_lines (min c h) (g_raw g); Some (g\<lparr>g_raw := raw\<rparr>) }
     else Some g
   }"

definition g_update_max_cursor :: "grid \<Rightarrow> grid" where
  "g_update_max_cursor g =
     (let r = cur_row (g_cursor g); c = cur_col (g_cursor g)
      in if r \<ge> g_rows g then g
         else if r > g_max_cursor_row g \<or> (r = g_max_cursor_row g \<and> c > g_max_cursor_col g)
              then g\<lparr>g_max_cursor_row := r, g_max_cursor_col := c\<rparr> else g)"

definition g_row_wraps :: "nat \<Rightarrow> grid \<Rightarrow> bool option" where
  "g_row_wraps row_idx g = do {
     r \<leftarrow> g_get row_idx g;
     Some (case r of
             None \<Rightarrow> False
           | Some rw \<Rightarrow> row_inner rw \<noteq> [] \<and> bf_contains (c_flags (last (row_inner rw))) WRAPLINE)
   }"

section \<open>Scrolling\<close>

definition reset_visible_rows :: "nat list \<Rightarrow> grid \<Rightarrow> grid option" where
  "reset_visible_rows lines g = do {
     raw \<leftarrow> fold_m (\<lambda>i. sto_mut_visible i (row_reset (cur_template (g_cursor g)))) lines (g_raw g);
     Some (g\<lparr>g_raw := raw\<rparr>)
   }"

definition g_scroll_down :: "nat \<Rightarrow> nat \<Rightarrow> nat \<Rightarrow> grid \<Rightarrow> grid option" where
  "g_scroll_down region_start region_end scroll_distance g = do {
     size \<leftarrow> checked_sub region_end region_start;
     let t = cur_template (g_cursor g);
     if scroll_distance \<ge> size then reset_visible_rows [region_start..<region_end] g
     else if g_max_scroll_limit g = 0 then do {
       fixed_lines \<leftarrow> checked_sub (g_rows g) region_end;
       raw \<leftarrow> fold_m (\<lambda>i s. do { q \<leftarrow> checked_sub (g_rows g - i - 1) scroll_distance;
                              sto_swap (g_rows g - i - 1) q s })
               (rev [0..<fixed_lines]) (g_raw g);
       raw \<leftarrow> sto_retract (int scroll_distance) raw;
       raw \<leftarrow> fold_m (\<lambda>i. sto_mut i (row_reset t)) [0..<scroll_distance] raw;
       raw \<leftarrow> fold_m (\<lambda>i. sto_swap i (i + scroll_distance)) [0..<region_start] raw;
       Some (g\<lparr>g_raw := raw\<rparr>)
     } else do {
       raw \<leftarrow> fold_m (\<lambda>line. sto_swap_lines line (line - scroll_distance))
               (rev [region_start + scroll_distance..<region_end]) (g_raw g);
       reset_visible_rows [region_start..<region_start + scroll_distance] (g\<lparr>g_raw := raw\<rparr>)
     }
   }"

definition g_scroll_up :: "nat \<Rightarrow> nat \<Rightarrow> nat \<Rightarrow> grid \<Rightarrow> grid option" where
  "g_scroll_up region_start region_end scroll_distance g = do {
     size \<leftarrow> checked_sub region_end region_start;
     let t = cur_template (g_cursor g);
     if scroll_distance \<ge> size \<and> region_start \<noteq> 0
     then reset_visible_rows [region_start..<region_end] g
     else do {
       h \<leftarrow> g_history_size g;
       let num_lines_to_truncate = (h + scroll_distance) - g_max_scroll_limit g;
       g \<leftarrow> g_increase_scroll_limit scroll_distance g;
       raw \<leftarrow> fold_m (\<lambda>i. sto_swap i (i + scroll_distance)) (rev [0..<region_start]) (g_raw g);
       raw \<leftarrow> sto_extend (int scroll_distance) raw;
       first_new \<leftarrow> checked_sub (sto_len raw) scroll_distance;
       raw \<leftarrow> fold_m (\<lambda>i. sto_mut i (row_reset t)) [first_new..<sto_len raw] raw;
       fixed_lines \<leftarrow> checked_sub (g_rows g) region_end;
       raw \<leftarrow> fold_m (\<lambda>i s. do { q \<leftarrow> checked_sub (g_rows g - i - 1) scroll_distance;
                              sto_swap (g_rows g - i - 1) q s })
               [0..<fixed_lines] raw;
       let g = g\<lparr>g_raw := raw\<rparr>;
       h' \<leftarrow> g_history_size g;
       Some (if g_max_scroll_limit g = h'
             then g\<lparr>g_num_lines_truncated := g_num_lines_truncated g + of_nat num_lines_to_truncate\<rparr>
             else g)
     }
   }"

section \<open>Clearing, truncation, the cursor cell\<close>

definition g_clear_history :: "grid \<Rightarrow> grid option" where
  "g_clear_history g = do {
     h \<leftarrow> g_history_size g;
     raw \<leftarrow> sto_shrink_lines h (g_raw g);
     Some (g\<lparr>g_raw := raw\<rparr>)
   }"

definition g_clear_and_reset_saving_cursor_line :: "grid \<Rightarrow> grid option" where
  "g_clear_and_reset_saving_cursor_line g = do {
     g \<leftarrow> g_clear_history g;
     raw \<leftarrow> sto_swap_lines (cur_row (g_cursor g)) 0 (g_raw g);
     raw' \<leftarrow> fold_m (\<lambda>i. sto_mut i (row_reset cell_default)) [1..<sto_len raw] raw;
     Some (g\<lparr>g_raw := raw', g_cursor := (g_cursor g)\<lparr>cur_row := 0\<rparr>\<rparr>)
   }"

definition g_reset :: "grid \<Rightarrow> grid option" where
  "g_reset g = do {
     g \<leftarrow> g_clear_history g;
     let g = g\<lparr>g_saved_cursor := cursor_default, g_cursor := cursor_default,
              g_max_cursor_row := 0, g_max_cursor_col := 0\<rparr>;
     raw \<leftarrow> fold_m (\<lambda>i. sto_mut i (row_reset (cur_template (g_cursor g)))) [0..<sto_len (g_raw g)] (g_raw g);
     Some (g\<lparr>g_raw := raw\<rparr>)
   }"

definition g_rows_to_cursor :: "grid \<Rightarrow> nat option" where
  "g_rows_to_cursor g = do { h \<leftarrow> g_history_size g; Some (cur_row (g_cursor g) + h) }"

definition g_truncate_to_cursor_rows :: "grid \<Rightarrow> grid option" where
  "g_truncate_to_cursor_rows g = do {
     cursor_absolute_row \<leftarrow> g_rows_to_cursor g;
     let rows_to_include = cursor_absolute_row + 1;
     raw \<leftarrow> sto_truncate_to rows_to_include (g_raw g);
     let g = g\<lparr>g_raw := raw, g_rows := min (g_rows g) rows_to_include\<rparr>;
     now \<leftarrow> g_rows_to_cursor g;
     let g = g\<lparr>g_cursor := (g_cursor g)\<lparr>cur_row := cur_row (g_cursor g) + (cursor_absolute_row - now)\<rparr>\<rparr>;
     Some (g\<lparr>g_max_cursor_row := cur_row (g_cursor g), g_max_cursor_col := cur_col (g_cursor g)\<rparr>)
   }"

definition g_truncate_columns :: "nat \<Rightarrow> grid \<Rightarrow> grid" where
  "g_truncate_columns cols g = g\<lparr>g_raw := sto_truncate_columns cols (g_raw g), g_columns := cols\<rparr>"

definition g_truncate_to_cursor_cols :: "grid \<Rightarrow> grid" where
  "g_truncate_to_cursor_cols g =
     (if \<not> (cur_col (g_cursor g) + 1 = g_columns g \<and> cur_input_needs_wrap (g_cursor g))
      then g_truncate_columns (cur_col (g_cursor g)) g else g)"

text \<open>\<open>cursor_cell\<close>, with the update made through the returned reference.  A point outside
  the grid is clamped to its last cell.\<close>

definition g_cursor_cell :: "(cell \<Rightarrow> cell) \<Rightarrow> grid \<Rightarrow> grid option" where
  "g_cursor_cell f g = do {
     h \<leftarrow> g_history_size g;
     let row = h + cur_row (g_cursor g);
     let col = cur_col (g_cursor g);
     let p = (if row \<ge> g_total_rows g \<or> col \<ge> g_columns g
              then (g_total_rows g - 1, g_columns g - 1) else (row, col));
     raw \<leftarrow> sto_mut (fst p) (row_mut_at (snd p) f) (g_raw g);
     Some (g\<lparr>g_raw := raw\<rparr>)
   }"

text \<open>\<open>region_mut(range).each(f)\<close>: every cell of the rows is visited through the
  row's mutable iterator, which marks the whole row dirty.\<close>

definition g_region_each :: "nat \<Rightarrow> nat \<Rightarrow> (cell \<Rightarrow> cell) \<Rightarrow> grid \<Rightarrow> grid option" where
  "g_region_each region_start region_end f g =
     fold_m (\<lambda>i. g_mut i (\<lambda>r. Some (row_mut_full f r))) [region_start..<region_end] g"

definition g_region_range :: "nat \<Rightarrow> nat \<Rightarrow> (cell \<Rightarrow> cell) \<Rightarrow> grid \<Rightarrow> grid option" where
  "g_region_range s e f g =
     (if s < g_rows g \<and> e \<le> g_rows g \<and> s \<le> e then g_region_each s e f g else None)"

definition g_region_to :: "nat \<Rightarrow> (cell \<Rightarrow> cell) \<Rightarrow> grid \<Rightarrow> grid option" where
  "g_region_to e f g = (if e \<le> g_rows g then g_region_each 0 e f g else None)"

definition g_region_from :: "nat \<Rightarrow> (cell \<Rightarrow> cell) \<Rightarrow> grid \<Rightarrow> grid option" where
  "g_region_from s f g = (if s < g_rows g then g_region_each s (g_rows g) f g else None)"

definition g_region_full :: "(cell \<Rightarrow> cell) \<Rightarrow> grid \<Rightarrow> grid option" where
  "g_region_full f g = g_region_each 0 (g_rows g) f g"

section \<open>Well-formed grids\<close>

definition grid_rows :: "grid \<Rightarrow> row list" where
  "grid_rows g = storage_rows (g_raw g)"

definition cursor_in :: "nat \<Rightarrow> nat \<Rightarrow> cursor \<Rightarrow> bool" where
  "cursor_in rows columns c \<longleftrightarrow> cur_row c < rows \<and> cur_col c < columns"

text \<open>The buffer of a grid without scrollback of its own, the only kind a
  \<open>GridHandler\<close> builds: every row in the ring is visible and has the grid's width.\<close>

definition buf_ok :: "grid \<Rightarrow> bool" where
  "buf_ok g \<longleftrightarrow>
     0 < g_rows g \<and> 0 < g_columns g \<and> g_max_scroll_limit g = 0 \<and>
     sto_inv (g_columns g) (g_rows g) (g_rows g) (sto_is_sequential (g_raw g)) (g_raw g)"

definition grid_ok :: "grid \<Rightarrow> bool" where
  "grid_ok g \<longleftrightarrow>
     buf_ok g \<and> cursor_in (g_rows g) (g_columns g) (g_cursor g) \<and>
     cursor_in (g_rows g) (g_columns g) (g_saved_cursor g) \<and>
     g_max_cursor_row g < g_rows g \<and> g_max_cursor_col g < g_columns g"

lemma buf_ok_sto:
  "buf_ok g \<Longrightarrow>
     sto_inv (g_columns g) (g_rows g) (g_rows g) (sto_is_sequential (g_raw g)) (g_raw g)"
  by (simp add: buf_ok_def)

lemma buf_ok_simps:
  assumes "buf_ok g"
  shows "0 < g_rows g" "0 < g_columns g" "g_max_scroll_limit g = 0"
    "sto_len (g_raw g) = g_rows g" "g_total_rows g = g_rows g" "g_history_size g = Some 0"
    "length (grid_rows g) = g_rows g"
  using assms
  by (simp_all add: buf_ok_def sto_inv_def g_total_rows_def g_history_size_def checked_sub_def
      grid_rows_def)

lemma grid_ok_buf: "grid_ok g \<Longrightarrow> buf_ok g"
  by (simp add: grid_ok_def)

text \<open>Replacing the buffer by one with the same invariant.\<close>

lemma buf_ok_raw:
  assumes "buf_ok g" "sto_inv (g_columns g) (g_rows g) (g_rows g) (sto_is_sequential (g_raw g)) raw"
  shows "buf_ok (g\<lparr>g_raw := raw\<rparr>)" "grid_rows (g\<lparr>g_raw := raw\<rparr>) = storage_rows raw"
  using assms by (auto simp: buf_ok_def grid_rows_def sto_inv_def)

lemma grid_ok_raw:
  "grid_ok g \<Longrightarrow> sto_inv (g_columns g) (g_rows g) (g_rows g) (sto_is_sequential (g_raw g)) raw \<Longrightarrow>
   grid_ok (g\<lparr>g_raw := raw\<rparr>)"
  using buf_ok_raw(1) [of g raw] by (simp add: grid_ok_def)

lemma grid_row_ok: "buf_ok g \<Longrightarrow> i < g_rows g \<Longrightarrow> row_ok (g_columns g) (grid_rows g ! i)"
  using sb.rows_ok [OF buf_ok_sto] by (simp add: grid_rows_def)

text \<open>What an operation on the buffer keeps of the rest of the grid.\<close>

definition same_frame :: "grid \<Rightarrow> grid \<Rightarrow> bool" where
  "same_frame g g' \<longleftrightarrow>
     g_columns g' = g_columns g \<and> g_rows g' = g_rows g \<and> g_cursor g' = g_cursor g \<and>
     g_saved_cursor g' = g_saved_cursor g \<and> g_max_cursor_row g' = g_max_cursor_row g \<and>
     g_max_cursor_col g' = g_max_cursor_col g \<and> g_max_scroll_limit g' = g_max_scroll_limit g"

lemma same_frame_simps [simp]:
  "same_frame g g" "same_frame g (g\<lparr>g_raw := raw\<rparr>)"
  "same_frame g (g\<lparr>g_raw := raw, g_num_lines_truncated := n\<rparr>)"
  by (simp_all add: same_frame_def)

lemma same_frame_trans: "same_frame a b \<Longrightarrow> same_frame b c \<Longrightarrow> same_frame a c"
  by (simp add: same_frame_def)

lemma same_frame_ok: "same_frame g g' \<Longrightarrow> grid_ok g \<Longrightarrow> buf_ok g' \<Longrightarrow> grid_ok g'"
  by (simp add: same_frame_def grid_ok_def)

lemma g_mut_eq:
  assumes "buf_ok g" "i < g_rows g" "f (grid_rows g ! i) = Some r" "row_ok (g_columns g) r"
  shows "\<exists>g'. g_mut i f g = Some g' \<and> buf_ok g' \<and> same_frame g g' \<and>
              grid_rows g' = (grid_rows g)[i := r]"
proof -
  obtain raw where raw: "sto_mut i f (g_raw g) = Some raw"
      "sto_inv (g_columns g) (g_rows g) (g_rows g) (sto_is_sequential (g_raw g)) raw"
      "storage_rows raw = (storage_rows (g_raw g))[i := r]"
    using sb.mut [where f = f, OF buf_ok_sto [OF assms(1)] assms(2) _ assms(4)] assms(3)
    by (auto simp: grid_rows_def)
  then show ?thesis
    using buf_ok_raw [OF assms(1) raw(2)] sto_mut_visible_eq [OF buf_ok_sto [OF assms(1)]]
    by (simp add: g_mut_def grid_rows_def)
qed

lemma g_get_visible_eq:
  "buf_ok g \<Longrightarrow> i < g_rows g \<Longrightarrow> g_get_visible i g = Some (grid_rows g ! i)"
  using sto_get_eq [OF buf_ok_sto, of g i] sto_get_visible_eq [OF buf_ok_sto, of g i]
  by (simp add: g_get_visible_def grid_rows_def)

section \<open>Scrolling implements a shift of the region\<close>

definition scroll_up_rows :: "nat \<Rightarrow> nat \<Rightarrow> nat \<Rightarrow> 'a \<Rightarrow> 'a list \<Rightarrow> 'a list" where
  "scroll_up_rows a b n B xs =
     take a xs @ drop (a + n) (take b xs) @ replicate (min n (b - a)) B @ drop b xs"

definition scroll_down_rows :: "nat \<Rightarrow> nat \<Rightarrow> nat \<Rightarrow> 'a \<Rightarrow> 'a list \<Rightarrow> 'a list" where
  "scroll_down_rows a b n B xs =
     take a xs @ replicate (min n (b - a)) B @ take (b - a - n) (drop a xs) @ drop b xs"

lemma scroll_up_rows_nth:
  assumes "a \<le> b" "b \<le> length xs"
  shows "length (scroll_up_rows a b n B xs) = length xs"
    "i < length xs \<Longrightarrow> scroll_up_rows a b n B xs ! i =
       (if i < a \<or> b \<le> i then xs ! i else if i + n < b then xs ! (i + n) else B)"
  using assms by (auto simp: scroll_up_rows_def nth_append min_def add.commute)

lemma scroll_down_rows_nth:
  assumes "a \<le> b" "b \<le> length xs"
  shows "length (scroll_down_rows a b n B xs) = length xs"
    "i < length xs \<Longrightarrow> scroll_down_rows a b n B xs ! i =
       (if i < a \<or> b \<le> i then xs ! i else if i < a + n then B else xs ! (i - n))"
  using assms by (auto simp: scroll_down_rows_def nth_append min_def add.commute)

lemma reset_visible_rows_eq:
  assumes "buf_ok g" "a \<le> b" "b \<le> g_rows g"
  shows "\<exists>g'. reset_visible_rows [a..<b] g = Some g' \<and> buf_ok g' \<and> same_frame g g' \<and>
     (\<forall>i<g_rows g. grid_rows g' ! i =
        (if a \<le> i \<and> i < b then row_blank (g_columns g) (c_bg (cur_template (g_cursor g)))
         else grid_rows g ! i))"
proof -
  let ?I = "sto_inv (g_columns g) (g_rows g) (g_rows g) (sto_is_sequential (g_raw g))"
  let ?f = "row_reset (cur_template (g_cursor g))"
  have vis: "fold_m (\<lambda>i. sto_mut_visible i ?f) ixs raw = fold_m (\<lambda>i. sto_mut i ?f) ixs raw"
    if "?I raw" "\<forall>i\<in>set ixs. i < g_rows g" for raw ixs
    using that
  proof (induction ixs arbitrary: raw)
    case (Cons i ixs)
    have "row_ok (g_columns g) (storage_rows raw ! i)"
      using sb.rows_ok [OF Cons.prems(1)] Cons.prems(2) by simp
    then obtain raw' where "sto_mut i ?f raw = Some raw'" "?I raw'"
      using sb.mut [where f = ?f, OF Cons.prems(1), of i] Cons.prems(2)
        row_reset_blank row_ok_blank buf_ok_simps(2) [OF assms(1)] by auto
    then show ?case
      using Cons by (simp add: sto_mut_visible_eq [OF Cons.prems(1)])
  qed simp
  obtain raw where raw: "fold_m (\<lambda>i. sto_mut i ?f) [a..<b] (g_raw g) = Some raw" "?I raw"
      "\<forall>j<g_rows g. storage_rows raw ! j =
         (if j \<in> set [a..<b] then row_blank (g_columns g) (c_bg (cur_template (g_cursor g)))
          else storage_rows (g_raw g) ! j)"
    using sb.reset_loop [where f = ?f and ixs = "[a..<b]" and
        B = "row_blank (g_columns g) (c_bg (cur_template (g_cursor g)))", OF buf_ok_sto [OF assms(1)]]
      row_reset_blank row_ok_blank buf_ok_simps(2) [OF assms(1)] assms(3) by auto
  have "reset_visible_rows [a..<b] g = Some (g\<lparr>g_raw := raw\<rparr>)"
    using raw(1) vis [OF buf_ok_sto [OF assms(1)], of "[a..<b]"] assms(3)
    by (simp add: reset_visible_rows_def)
  then show ?thesis
    using buf_ok_raw [OF assms(1) raw(2)] raw(3) by (simp add: grid_rows_def)
qed

lemma g_scroll_up_eq:
  assumes "buf_ok g" "a \<le> b" "b \<le> g_rows g" "a \<noteq> 0 \<or> n \<le> b"
  shows "\<exists>g'. g_scroll_up a b n g = Some g' \<and> buf_ok g' \<and> same_frame g g' \<and>
     grid_rows g' =
       scroll_up_rows a b n (row_blank (g_columns g) (c_bg (cur_template (g_cursor g)))) (grid_rows g)"
proof (cases "b - a \<le> n \<and> a \<noteq> 0")
  case True
  obtain g' where g': "reset_visible_rows [a..<b] g = Some g'" "buf_ok g'" "same_frame g g'"
      "\<forall>i<g_rows g. grid_rows g' ! i =
        (if a \<le> i \<and> i < b then row_blank (g_columns g) (c_bg (cur_template (g_cursor g)))
         else grid_rows g ! i)"
    using reset_visible_rows_eq [OF assms(1-3)] by blast
  have "grid_rows g' =
      scroll_up_rows a b n (row_blank (g_columns g) (c_bg (cur_template (g_cursor g)))) (grid_rows g)"
    using g'(3,4) True assms(2,3) buf_ok_simps(7) [OF assms(1)] buf_ok_simps(7) [OF g'(2)]
    by (intro nth_equalityI) (auto simp: scroll_up_rows_nth same_frame_def)
  then show ?thesis
    using g'(1-3) True assms(2) by (simp add: g_scroll_up_def checked_sub_def)
next
  case False
  let ?R = "g_rows g" and ?t = "cur_template (g_cursor g)"
  let ?B = "row_blank (g_columns g) (c_bg ?t)"
  let ?I = "sto_inv (g_columns g) ?R ?R (sto_is_sequential (g_raw g))"
  have n: "n \<le> b - a" using False assms(4) by auto
  have an: "a + n \<le> ?R" "n \<le> ?R" "?R - b + n \<le> ?R" using n assms(2,3) by auto
  note G = buf_ok_simps [OF assms(1)]
  obtain r1 where r1: "fold_m (\<lambda>i. sto_swap i (i + n)) (rev [0..<a]) (g_raw g) = Some r1" "?I r1"
      "\<And>j. j < a \<Longrightarrow> storage_rows r1 ! (j + n) = grid_rows g ! j"
      "\<And>j. j < ?R \<Longrightarrow> a + n \<le> j \<Longrightarrow> storage_rows r1 ! j = grid_rows g ! j"
    using sb.lift_top_loop [OF buf_ok_sto [OF assms(1)] an(1)] unfolding grid_rows_def by blast
  obtain r2 where r2: "sto_extend (int n) r1 = Some r2" "?I r2"
      "\<And>i. i + n < ?R \<Longrightarrow> storage_rows r2 ! i = storage_rows r1 ! (i + n)"
    using sb.extend [OF r1(2) an(2)] by blast
  have len2: "sto_len r2 = ?R" using r2(2) by (simp add: sto_inv_len)
  obtain r3 where r3: "fold_m (\<lambda>i. sto_mut i (row_reset ?t)) [?R - n..<?R] r2 = Some r3" "?I r3"
      "\<And>j. j < ?R \<Longrightarrow> storage_rows r3 ! j = (if ?R - n \<le> j then ?B else storage_rows r2 ! j)"
    using sb.reset_loop [where f = "row_reset ?t" and ixs = "[?R - n..<?R]" and B = ?B, OF r2(2)]
      row_reset_blank row_ok_blank G(2) by auto
  have blank: "\<forall>j<?R. ?R \<le> j + n \<longrightarrow> storage_rows r3 ! j = ?B" using r3(3) by auto
  obtain r4 where r4: "fold_m (\<lambda>i s. do { q \<leftarrow> checked_sub (?R - i - 1) n; sto_swap (?R - i - 1) q s })
        [0..<?R - b] r3 = Some r4" "?I r4"
      "\<And>p. p < ?R \<Longrightarrow> b \<le> p \<Longrightarrow> storage_rows r4 ! p = storage_rows r3 ! (p - n)"
      "\<And>p. p < ?R \<Longrightarrow> b \<le> p + n \<Longrightarrow> p < b \<Longrightarrow> storage_rows r4 ! p = ?B"
      "\<And>p. p < ?R \<Longrightarrow> p + n < b \<Longrightarrow> storage_rows r4 ! p = storage_rows r3 ! p"
  proof -
    have le: "?R \<le> p + (?R - b) \<longleftrightarrow> b \<le> p" "?R \<le> p + (?R - b) + n \<longleftrightarrow> b \<le> p + n"
      "p + (?R - b) < ?R \<longleftrightarrow> p < b" "p + (?R - b) + n < ?R \<longleftrightarrow> p + n < b" for p
      using assms(3) by auto
    show thesis
      using sb.settle_bottom_loop [OF r3(2) an(3) blank] that unfolding le by blast
  qed
  have "storage_rows r4 ! i = (if i < a \<or> b \<le> i then grid_rows g ! i
          else if i + n < b then grid_rows g ! (i + n) else ?B)" if i: "i < ?R" for i
  proof -
    consider "b \<le> i" | "i < b" "b \<le> i + n" "a \<le> i" | "i + n < b" "a \<le> i" | "i < a" "i + n < b"
      using n assms(2) i by linarith
    then show ?thesis
    proof cases
      case 1
      have "i - n + n = i" "i - n < ?R - n" using n 1 i assms(2) by auto
      then show ?thesis
        using 1 i r4(3) [of i] r3(3) [of "i - n"] r2(3) [of "i - n"] r1(4) [of i] n assms(2) by auto
    next
      case 4
      then show ?thesis
        using r4(5) [of i] r3(3) [of i] r2(3) [of i] r1(3) [of i] i assms(3) by auto
    qed (use i assms(3) r4(4) [of i] r4(5) [of i] r3(3) [of i] r2(3) [of i] r1(4) [of "i + n"] in auto)
  qed
  then have rows: "storage_rows r4 = scroll_up_rows a b n ?B (grid_rows g)"
    using r4(2) G(7) assms(2,3)
    by (intro nth_equalityI) (auto simp: scroll_up_rows_nth sto_inv_len)
  have "\<exists>m. g_scroll_up a b n g = Some (g\<lparr>g_raw := r4, g_num_lines_truncated := m\<rparr>)"
    using False assms(2,3) n G r1(1) r2(1) r3(1) r4(1) len2 r4(2)
    by (auto simp: g_scroll_up_def checked_sub_def g_increase_scroll_limit_def g_history_size_def
        g_total_rows_def sto_inv_len)
  moreover have "buf_ok (g\<lparr>g_raw := r4, g_num_lines_truncated := m\<rparr>)" for m
    using buf_ok_raw [OF assms(1) r4(2)] by (simp add: buf_ok_def)
  ultimately show ?thesis using rows by (auto simp: grid_rows_def)
qed

lemma g_scroll_down_eq:
  assumes "buf_ok g" "a \<le> b" "b \<le> g_rows g"
  shows "\<exists>g'. g_scroll_down a b n g = Some g' \<and> buf_ok g' \<and> same_frame g g' \<and>
     grid_rows g' =
       scroll_down_rows a b n (row_blank (g_columns g) (c_bg (cur_template (g_cursor g)))) (grid_rows g)"
proof (cases "b - a \<le> n")
  case True
  obtain g' where g': "reset_visible_rows [a..<b] g = Some g'" "buf_ok g'" "same_frame g g'"
      "\<forall>i<g_rows g. grid_rows g' ! i =
        (if a \<le> i \<and> i < b then row_blank (g_columns g) (c_bg (cur_template (g_cursor g)))
         else grid_rows g ! i)"
    using reset_visible_rows_eq [OF assms(1-3)] by blast
  have "grid_rows g' =
      scroll_down_rows a b n (row_blank (g_columns g) (c_bg (cur_template (g_cursor g)))) (grid_rows g)"
    using g'(3,4) True assms(2,3) buf_ok_simps(7) [OF assms(1)] buf_ok_simps(7) [OF g'(2)]
    by (intro nth_equalityI) (auto simp: scroll_down_rows_nth same_frame_def)
  then show ?thesis
    using g'(1-3) True assms(2) by (simp add: g_scroll_down_def checked_sub_def)
next
  case False
  let ?R = "g_rows g" and ?t = "cur_template (g_cursor g)"
  let ?B = "row_blank (g_columns g) (c_bg ?t)"
  let ?I = "sto_inv (g_columns g) ?R ?R (sto_is_sequential (g_raw g))"
  have n: "n < b - a" using False by simp
  have an: "a + n \<le> ?R" "n \<le> ?R" "?R - b + n \<le> ?R" using n assms(2,3) by auto
  note G = buf_ok_simps [OF assms(1)]
  have le: "?R \<le> p + (?R - b) \<longleftrightarrow> b \<le> p" "p + (?R - b) + n < ?R \<longleftrightarrow> p + n < b" for p
    using assms(3) by auto
  obtain r1 where r1: "fold_m (\<lambda>i s. do { q \<leftarrow> checked_sub (?R - i - 1) n; sto_swap (?R - i - 1) q s })
        (rev [0..<?R - b]) (g_raw g) = Some r1" "?I r1"
      "\<And>p. p < ?R \<Longrightarrow> b \<le> p \<Longrightarrow> storage_rows r1 ! (p - n) = grid_rows g ! p"
      "\<And>p. p < ?R \<Longrightarrow> p + n < b \<Longrightarrow> storage_rows r1 ! p = grid_rows g ! p"
    using sb.lift_bottom_loop [OF buf_ok_sto [OF assms(1)] an(3)] unfolding le grid_rows_def by blast
  obtain r2 where r2: "sto_retract (int n) r1 = Some r2" "?I r2"
      "\<And>i. i + n < ?R \<Longrightarrow> storage_rows r2 ! (i + n) = storage_rows r1 ! i"
    using sb.retract [OF r1(2) an(2)] by blast
  obtain r3 where r3: "fold_m (\<lambda>i. sto_mut i (row_reset ?t)) [0..<n] r2 = Some r3" "?I r3"
      "\<And>j. j < ?R \<Longrightarrow> storage_rows r3 ! j = (if j < n then ?B else storage_rows r2 ! j)"
    using sb.reset_loop [where f = "row_reset ?t" and ixs = "[0..<n]" and B = ?B, OF r2(2)]
      row_reset_blank row_ok_blank G(2) an(2) by auto
  have blank: "\<forall>j<n. storage_rows r3 ! j = ?B" using r3(3) an(2) by auto
  obtain r4 where r4: "fold_m (\<lambda>i. sto_swap i (i + n)) [0..<a] r3 = Some r4" "?I r4"
      "\<And>j. j < a \<Longrightarrow> storage_rows r4 ! j = storage_rows r3 ! (j + n)"
      "\<And>j. j < a + n \<Longrightarrow> a \<le> j \<Longrightarrow> storage_rows r4 ! j = ?B"
      "\<And>j. j < ?R \<Longrightarrow> a + n \<le> j \<Longrightarrow> storage_rows r4 ! j = storage_rows r3 ! j"
    using sb.settle_top_loop [OF r3(2) an(1) blank] by blast
  have r23: "storage_rows r3 ! i = storage_rows r1 ! (i - n)" if "i < ?R" "n \<le> i" for i
    using that r3(3) [of i] r2(3) [of "i - n"] by auto
  have "storage_rows r4 ! i = (if i < a \<or> b \<le> i then grid_rows g ! i
          else if i < a + n then ?B else grid_rows g ! (i - n))" if i: "i < ?R" for i
  proof -
    consider "i < a" | "a \<le> i" "i < a + n" | "a + n \<le> i" "i < b" | "b \<le> i"
      using n assms(2) i by linarith
    then show ?thesis
    proof cases
      case 1
      then show ?thesis
        using r4(3) [of i] r23 [of "i + n"] r1(4) [of i] an n assms(2,3) i by auto
    qed (use i n assms(2,3) r4(4) [of i] r4(5) [of i] r23 [of i] r1(3) [of i] r1(4) [of "i - n"] in auto)
  qed
  then have rows: "storage_rows r4 = scroll_down_rows a b n ?B (grid_rows g)"
    using r4(2) G(7) assms(2,3)
    by (intro nth_equalityI) (auto simp: scroll_down_rows_nth sto_inv_len)
  have "g_scroll_down a b n g = Some (g\<lparr>g_raw := r4\<rparr>)"
    using False assms(2,3) G(3) r1(1) r2(1) r3(1) r4(1)
    by (simp add: g_scroll_down_def checked_sub_def)
  then show ?thesis using rows buf_ok_raw [OF assms(1) r4(2)] by simp
qed

section \<open>The remaining grid operations\<close>

lemma grid_ok_new [wf_intros]:
  "0 < rows \<Longrightarrow> 0 < columns \<Longrightarrow> grid_ok (grid_new rows columns 0 sq)"
  by (auto simp: grid_ok_def buf_ok_def grid_new_def sto_inv_def sto_with_capacity_def
      sto_with_rows_def cursor_in_def cursor_default_def list_all_iff row_ok_new)

lemma g_clear_history_eq:
  assumes "buf_ok g"
  shows "\<exists>g'. g_clear_history g = Some g' \<and> buf_ok g' \<and> same_frame g g' \<and> grid_rows g' = grid_rows g"
proof -
  obtain raw where raw: "sto_shrink_lines 0 (g_raw g) = Some raw"
      "sto_inv (g_columns g) (g_rows g) (g_rows g) (sto_is_sequential (g_raw g)) raw"
      "storage_rows raw = storage_rows (g_raw g)"
    using sto_shrink_lines_eq [OF buf_ok_sto [OF assms], of 0] buf_ok_simps [OF assms]
    by (auto split: if_splits)
  then show ?thesis
    using buf_ok_raw [OF assms raw(2)] buf_ok_simps(6) [OF assms]
    by (simp add: g_clear_history_def grid_rows_def)
qed

lemma reset_rows_raw:
  assumes "buf_ok g" "\<forall>i\<in>set ixs. i < g_rows g"
  shows "\<exists>raw. fold_m (\<lambda>i. sto_mut i (row_reset t)) ixs (g_raw g) = Some raw \<and>
           buf_ok (g\<lparr>g_raw := raw\<rparr>) \<and> sto_len raw = g_rows g \<and>
           (\<forall>i<g_rows g. storage_rows raw ! i =
              (if i \<in> set ixs then row_blank (g_columns g) (c_bg t) else grid_rows g ! i))"
proof -
  obtain raw where raw: "fold_m (\<lambda>i. sto_mut i (row_reset t)) ixs (g_raw g) = Some raw"
      "sto_inv (g_columns g) (g_rows g) (g_rows g) (sto_is_sequential (g_raw g)) raw"
      "\<forall>i<g_rows g. storage_rows raw ! i =
         (if i \<in> set ixs then row_blank (g_columns g) (c_bg t) else storage_rows (g_raw g) ! i)"
    using sb.reset_loop [where f = "row_reset t" and ixs = ixs and
        B = "row_blank (g_columns g) (c_bg t)", OF buf_ok_sto [OF assms(1)] assms(2)]
      row_reset_blank row_ok_blank buf_ok_simps(2) [OF assms(1)] by auto
  then show ?thesis
    using buf_ok_raw [OF assms(1) raw(2)] by (auto simp: grid_rows_def sto_inv_len)
qed

lemma g_reset_eq:
  assumes "grid_ok g"
  shows "\<exists>g'. g_reset g = Some g' \<and> grid_ok g' \<and> g_rows g' = g_rows g \<and> g_columns g' = g_columns g \<and>
     g_cursor g' = cursor_default \<and>
     grid_rows g' = replicate (g_rows g) (row_blank (g_columns g) (Named Background))"
proof -
  obtain g1 where g1: "g_clear_history g = Some g1" "buf_ok g1" "same_frame g g1"
    using g_clear_history_eq [OF grid_ok_buf [OF assms]] by blast
  let ?g2 = "g1\<lparr>g_saved_cursor := cursor_default, g_cursor := cursor_default,
                 g_max_cursor_row := 0, g_max_cursor_col := 0\<rparr>"
  have g2: "buf_ok ?g2" using g1(2) by (simp add: buf_ok_def)
  obtain raw where raw: "fold_m (\<lambda>i. sto_mut i (row_reset cell_default)) [0..<g_rows ?g2] (g_raw ?g2) = Some raw"
      "buf_ok (?g2\<lparr>g_raw := raw\<rparr>)" "sto_len raw = g_rows ?g2"
      "\<forall>i<g_rows ?g2. storage_rows raw ! i = row_blank (g_columns ?g2) (c_bg cell_default)"
    using reset_rows_raw [OF g2, of "[0..<g_rows ?g2]" cell_default] by auto
  have t: "cur_template cursor_default = cell_default" by (simp add: cursor_default_def)
  have bg: "c_bg cell_default = Named Background" by (simp add: cell_default_def)
  have "g_reset g = Some (?g2\<lparr>g_raw := raw\<rparr>)"
    using g1(1) raw(1) buf_ok_simps(4) [OF g1(2)] by (simp add: g_reset_def t)
  moreover have "grid_ok (?g2\<lparr>g_raw := raw\<rparr>)"
    using raw(2) by (simp add: grid_ok_def buf_ok_def cursor_in_def cursor_default_def)
  moreover have "storage_rows raw = replicate (g_rows g) (row_blank (g_columns g) (Named Background))"
    using raw(3,4) g1(3) bg by (intro nth_equalityI) (auto simp: same_frame_def)
  ultimately show ?thesis using g1(3) by (auto simp: grid_rows_def same_frame_def)
qed

lemma g_mut_ok:
  assumes "buf_ok g" "i < g_rows g"
    and "\<And>r. row_ok (g_columns g) r \<Longrightarrow> \<exists>r'. f r = Some r' \<and> row_ok (g_columns g) r'"
  shows "\<exists>g'. g_mut i f g = Some g' \<and> buf_ok g' \<and> same_frame g g'"
proof -
  obtain r where "f (grid_rows g ! i) = Some r" "row_ok (g_columns g) r"
    using assms(3) grid_row_ok [OF assms(1,2)] by blast
  then show ?thesis using g_mut_eq [where f = f, OF assms(1,2)] by blast
qed

lemma g_mut_loop_ok:
  assumes "buf_ok g" "\<forall>i\<in>set ixs. i < g_rows g"
    and "\<And>i r. row_ok (g_columns g) r \<Longrightarrow> \<exists>r'. f i r = Some r' \<and> row_ok (g_columns g) r'"
  shows "\<exists>g'. fold_m (\<lambda>i. g_mut i (f i)) ixs g = Some g' \<and> (buf_ok g' \<and> same_frame g g')"
proof (rule fold_m_inv)
  fix i g' assume *: "i \<in> set ixs" "buf_ok g' \<and> same_frame g g'"
  then have "i < g_rows g'" "\<And>r. row_ok (g_columns g') r \<Longrightarrow> \<exists>r'. f i r = Some r' \<and> row_ok (g_columns g') r'"
    using assms(2,3) by (auto simp: same_frame_def)
  then show "\<exists>g''. g_mut i (f i) g' = Some g'' \<and> (buf_ok g'' \<and> same_frame g g'')"
    using g_mut_ok [of g' i "f i"] * same_frame_trans by blast
qed (use assms(1) in simp)

lemma g_region_each_ok:
  assumes "buf_ok g" "e \<le> g_rows g"
  shows "\<exists>g'. g_region_each s e f g = Some g' \<and> buf_ok g' \<and> same_frame g g'"
  unfolding g_region_each_def
  by (rule g_mut_loop_ok [OF assms(1), of "[s..<e]" "\<lambda>_ r. Some (row_mut_full f r)"])
     (use assms(2) full_mut.mut_ok [OF _ refl] in auto)

lemma row_mut_at_ok:
  "row_ok cols r \<Longrightarrow> i < cols \<Longrightarrow> \<exists>r'. row_mut_at i f r = Some r' \<and> row_ok cols r'"
  using at_mut.mut_ok [of cols r i f] by (auto simp: row_mut_at_def row_ok_def)

lemma row_mut_range_ok:
  "row_ok cols r \<Longrightarrow> a \<le> b \<Longrightarrow> b \<le> cols \<Longrightarrow> \<exists>r'. row_mut_range a b f r = Some r' \<and> row_ok cols r'"
  using range_mut.mut_ok [of cols r a b f] by (auto simp: row_mut_range_def row_ok_def)

lemma row_mut_to_ok:
  "row_ok cols r \<Longrightarrow> b \<le> cols \<Longrightarrow> \<exists>r'. row_mut_to b f r = Some r' \<and> row_ok cols r'"
  using to_mut.mut_ok [of cols r b f] by (auto simp: row_mut_to_def row_ok_def)

lemma row_mut_from_ok:
  "row_ok cols r \<Longrightarrow> a \<le> cols \<Longrightarrow> \<exists>r'. row_mut_from a f r = Some r' \<and> row_ok cols r'"
  using from_mut.mut_ok [of cols r a f] by (auto simp: row_mut_from_def row_ok_def)

lemma g_cursor_cell_eq:
  assumes "buf_ok g" "cursor_in (g_rows g) (g_columns g) (g_cursor g)"
  shows "\<exists>g'. g_cursor_cell f g = Some g' \<and> buf_ok g' \<and> same_frame g g' \<and>
     grid_rows g' = (grid_rows g)[cur_row (g_cursor g) :=
        \<lparr>row_inner = (row_inner (grid_rows g ! cur_row (g_cursor g)))
            [cur_col (g_cursor g) := f (row_inner (grid_rows g ! cur_row (g_cursor g)) ! cur_col (g_cursor g))],
         row_occ = max (row_occ (grid_rows g ! cur_row (g_cursor g))) (cur_col (g_cursor g) + 1)\<rparr>]"
proof -
  let ?r = "cur_row (g_cursor g)" and ?c = "cur_col (g_cursor g)"
  have b: "?r < g_rows g" "?c < g_columns g" using assms(2) by (auto simp: cursor_in_def)
  have rok: "row_ok (g_columns g) (grid_rows g ! ?r)" using grid_row_ok [OF assms(1) b(1)] .
  obtain r' where r': "row_mut_at ?c f (grid_rows g ! ?r) = Some r'" "row_ok (g_columns g) r'"
    using row_mut_at_ok [OF rok b(2)] by blast
  obtain g' where g': "g_mut ?r (row_mut_at ?c f) g = Some g'" "buf_ok g'" "same_frame g g'"
      "grid_rows g' = (grid_rows g)[?r := r']"
    using g_mut_eq [where f = "row_mut_at ?c f", OF assms(1) b(1) r'(1,2)] by blast
  have "g_cursor_cell f g = g_mut ?r (row_mut_at ?c f) g"
    using b buf_ok_simps(5,6) [OF assms(1)] sto_mut_visible_eq [OF buf_ok_sto [OF assms(1)]]
    by (simp add: g_cursor_cell_def g_mut_def)
  then show ?thesis
    using g' r'(1) b by (auto simp: row_mut_at_def split: if_splits)
qed

lemma g_update_max_cursor_ok [wf_intros]:
  "grid_ok g \<Longrightarrow> grid_ok (g_update_max_cursor g)"
  by (auto simp: grid_ok_def buf_ok_def g_update_max_cursor_def cursor_in_def Let_def)

lemma g_update_max_cursor_simps [simp]:
  "g_cursor (g_update_max_cursor g) = g_cursor g" "g_raw (g_update_max_cursor g) = g_raw g"
  "g_rows (g_update_max_cursor g) = g_rows g" "g_columns (g_update_max_cursor g) = g_columns g"
  "g_saved_cursor (g_update_max_cursor g) = g_saved_cursor g"
  "grid_rows (g_update_max_cursor g) = grid_rows g"
  by (simp_all add: g_update_max_cursor_def Let_def grid_rows_def)

lemma g_clear_and_reset_saving_cursor_line_eq:
  assumes "grid_ok g"
  shows "\<exists>g'. g_clear_and_reset_saving_cursor_line g = Some g' \<and> grid_ok g' \<and>
     g_rows g' = g_rows g \<and> g_columns g' = g_columns g \<and>
     g_cursor g' = (g_cursor g)\<lparr>cur_row := 0\<rparr> \<and>
     grid_rows g' = grid_rows g ! cur_row (g_cursor g) #
        replicate (g_rows g - 1) (row_blank (g_columns g) (Named Background))"
proof -
  have bg: "c_bg cell_default = Named Background" by (simp add: cell_default_def)
  obtain g1 where g1: "g_clear_history g = Some g1" "buf_ok g1" "same_frame g g1" "grid_rows g1 = grid_rows g"
    using g_clear_history_eq [OF grid_ok_buf [OF assms]] by blast
  let ?r = "cur_row (g_cursor g)"
  have r: "?r < g_rows g1" "0 < g_rows g1"
    using assms g1(3) by (auto simp: grid_ok_def cursor_in_def same_frame_def)
  obtain raw where raw: "sto_swap ?r 0 (g_raw g1) = Some raw"
      "sto_inv (g_columns g1) (g_rows g1) (g_rows g1) (sto_is_sequential (g_raw g1)) raw"
      "storage_rows raw ! 0 = grid_rows g ! ?r"
    using sb.swap_nth [OF buf_ok_sto [OF g1(2)] r] g1(4) r(2) by (auto simp: grid_rows_def)
  note ok = buf_ok_raw [OF g1(2) raw(2)]
  have len: "sto_len raw = g_rows g1" using raw(2) by (simp add: sto_inv_len)
  obtain raw' where raw': "fold_m (\<lambda>i. sto_mut i (row_reset cell_default)) [1..<g_rows g1] raw = Some raw'"
      "buf_ok (g1\<lparr>g_raw := raw'\<rparr>)" "sto_len raw' = g_rows g1"
      "\<forall>i<g_rows g1. storage_rows raw' ! i =
         (if i \<in> set [1..<g_rows g1] then row_blank (g_columns g1) (c_bg cell_default) else storage_rows raw ! i)"
    using reset_rows_raw [OF ok(1), of "[1..<g_rows g1]" cell_default] ok(2) by auto
  let ?g' = "g1\<lparr>g_raw := raw', g_cursor := (g_cursor g1)\<lparr>cur_row := 0\<rparr>\<rparr>"
  have "g_clear_and_reset_saving_cursor_line g = Some ?g'"
    using g1(1,3) raw(1) raw'(1) len sto_swap_lines_eq [OF buf_ok_sto [OF g1(2)]]
    by (simp add: g_clear_and_reset_saving_cursor_line_def same_frame_def)
  moreover have "grid_ok ?g'"
    using raw'(2) assms g1(3) r(2) by (simp add: grid_ok_def buf_ok_def cursor_in_def same_frame_def)
  moreover have "storage_rows raw' = grid_rows g ! ?r #
        replicate (g_rows g - 1) (row_blank (g_columns g) (Named Background))"
    using raw'(3,4) raw(3) r(2) g1(3) bg
    by (intro nth_equalityI) (auto simp: same_frame_def nth_Cons split: nat.split)
  ultimately show ?thesis using g1(3) by (auto simp: grid_rows_def same_frame_def)
qed

lemma sto_truncate_to_le:
  assumes "sto_inv cols l v False s" "t \<le> l" "0 < t"
  shows "\<exists>s'. sto_truncate_to t s = Some s' \<and> sto_inv cols t (min v t) False s' \<and>
              storage_rows s' = take t (storage_rows s)"
proof (cases "t < l")
  case True
  then show ?thesis using sto_truncate_to_eq [OF assms(1) _ assms(3)] by auto
next
  case False
  then have "t = l" using assms(2) by simp
  moreover have "v \<le> l" using assms(1) by (simp add: sto_inv_def)
  ultimately show ?thesis
    using sto_truncate_unused_eq [OF assms(1)] assms(3) sto_inv_len [OF assms(1)]
    by (auto simp: sto_truncate_to_def min_def)
qed

section \<open>Properties\<close>

text \<open>C2: scrolling a region up.  For every region within the screen and every
  distance the callers can pass (any distance when rows are fixed at the top, at most
  the region's height otherwise), \<open>scroll_up\<close> does not panic, shifts the rows of the
  region up by the distance, blanks the rows that come in at the bottom with the
  cursor's background, leaves the rows outside the region in place, and keeps the
  grid well-formed.\<close>

theorem g_scroll_up_correct:
  assumes "grid_ok g" "a \<le> b" "b \<le> g_rows g" "a \<noteq> 0 \<or> n \<le> b"
  shows "\<exists>g'. g_scroll_up a b n g = Some g' \<and> grid_ok g' \<and> g_cursor g' = g_cursor g \<and>
     grid_rows g' =
       scroll_up_rows a b n (row_blank (g_columns g) (c_bg (cur_template (g_cursor g)))) (grid_rows g)"
  using g_scroll_up_eq [OF grid_ok_buf [OF assms(1)] assms(2-4)] same_frame_ok [OF _ assms(1)]
  by (auto simp: same_frame_def)

theorem g_scroll_up_correct_witness:
  "\<exists>g'. g_scroll_up 1 3 1 (grid_new 4 2 0 False) = Some g' \<and> grid_ok g' \<and>
     g_cursor g' = g_cursor (grid_new 4 2 0 False) \<and>
     grid_rows g' = scroll_up_rows 1 3 1
       (row_blank (g_columns (grid_new 4 2 0 False)) (c_bg (cur_template (g_cursor (grid_new 4 2 0 False)))))
       (grid_rows (grid_new 4 2 0 False))"
  by (rule g_scroll_up_correct) (simp_all add: grid_ok_new, simp add: grid_new_def)

text \<open>scrolling a region down, for any distance: the rows of the region shift down,
  blank rows come in at its top, the rows outside stay.\<close>

theorem g_scroll_down_correct:
  assumes "grid_ok g" "a \<le> b" "b \<le> g_rows g"
  shows "\<exists>g'. g_scroll_down a b n g = Some g' \<and> grid_ok g' \<and> g_cursor g' = g_cursor g \<and>
     grid_rows g' =
       scroll_down_rows a b n (row_blank (g_columns g) (c_bg (cur_template (g_cursor g)))) (grid_rows g)"
  using g_scroll_down_eq [OF grid_ok_buf [OF assms(1)] assms(2-3)] same_frame_ok [OF _ assms(1)]
  by (auto simp: same_frame_def)

theorem g_scroll_down_correct_witness:
  "\<exists>g'. g_scroll_down 1 3 1 (grid_new 4 2 0 True) = Some g' \<and> grid_ok g' \<and>
     g_cursor g' = g_cursor (grid_new 4 2 0 True) \<and>
     grid_rows g' = scroll_down_rows 1 3 1
       (row_blank (g_columns (grid_new 4 2 0 True)) (c_bg (cur_template (g_cursor (grid_new 4 2 0 True)))))
       (grid_rows (grid_new 4 2 0 True))"
  by (rule g_scroll_down_correct) (simp_all add: grid_ok_new, simp add: grid_new_def)

text \<open>truncating to the cursor's row, in a grid that holds \<open>h\<close> rows of scrollback
  above its visible rows: exactly the rows up to and including the cursor's row
  remain, the cursor keeps its absolute row and ends on the last visible row.\<close>

theorem g_truncate_to_cursor_rows_correct:
  assumes "sto_inv (g_columns g) (g_rows g + h) (g_rows g) False (g_raw g)"
    and "cur_row (g_cursor g) < g_rows g"
  shows "\<exists>g' h'. g_truncate_to_cursor_rows g = Some g' \<and>
     grid_rows g' = take (cur_row (g_cursor g) + h + 1) (grid_rows g) \<and>
     g_history_size g' = Some h' \<and> cur_row (g_cursor g') + h' = cur_row (g_cursor g) + h \<and>
     cur_row (g_cursor g') = g_rows g' - 1 \<and> 0 < g_rows g'"
proof -
  let ?t = "cur_row (g_cursor g) + h + 1"
  obtain raw where raw: "sto_truncate_to ?t (g_raw g) = Some raw"
      "sto_inv (g_columns g) ?t (min (g_rows g) ?t) False raw"
      "storage_rows raw = take ?t (storage_rows (g_raw g))"
    using sto_truncate_to_le [OF assms(1), of ?t] assms(2) by auto
  have hist: "g_history_size g = Some h"
    using assms(1) by (simp add: g_history_size_def g_total_rows_def checked_sub_def sto_inv_len)
  have len: "sto_len raw = ?t" using raw(2) by (simp add: sto_inv_len)
  show ?thesis
    using raw(1,3) hist len assms(2)
    by (auto simp: g_truncate_to_cursor_rows_def g_rows_to_cursor_def g_history_size_def
        g_total_rows_def checked_sub_def grid_rows_def Let_def min_def)
qed

theorem g_truncate_to_cursor_rows_correct_witness:
  "\<exists>g' h'. g_truncate_to_cursor_rows (grid_new 3 2 0 False) = Some g' \<and>
     grid_rows g' = take 1 (grid_rows (grid_new 3 2 0 False)) \<and>
     g_history_size g' = Some h' \<and> cur_row (g_cursor g') + h' = 0 \<and>
     cur_row (g_cursor g') = g_rows g' - 1 \<and> 0 < g_rows g'"
  using g_truncate_to_cursor_rows_correct [of "grid_new 3 2 0 False" 0]
    buf_ok_sto [OF grid_ok_buf [OF grid_ok_new [of 3 2 False]]]
  by (simp add: grid_new_def sto_with_capacity_def sto_with_rows_def cursor_default_def)

text \<open>a grid split off another holds the given rows in order, and its three cursor
  points lie inside it.\<close>

theorem grid_new_for_split_ok:
  assumes "grid_ok g" "rows \<noteq> []" "list_all (row_ok (g_columns g)) rows"
  shows "\<exists>g'. grid_new_for_split rows k h g = Some g' \<and> grid_ok g' \<and> grid_rows g' = rows \<and>
     g_rows g' = length rows"
proof -
  let ?sq = "sto_is_sequential (g_raw g)"
  let ?rows = "if ?sq then rows else rev rows"
  have r: "list_all (row_ok (g_columns g)) ?rows" "?rows \<noteq> []" "length ?rows = length rows"
    using assms(2,3) by (auto simp: list_all_iff)
  note sto = sto_with_rows_eq [OF r(1,2), of "length rows" ?sq]
  have adj: "\<exists>p'. adjust_cursor_point k h 0 (length rows) (g_columns g) p = Some p' \<and>
                  fst p' < length rows \<and> snd p' < g_columns g" if "snd p < g_columns g" for p
    using assms(2) that by (cases rows) (auto simp: adjust_cursor_point_def Let_def checked_sub_def)
  show ?thesis
    using assms sto r
      adj [of "(cur_row (g_cursor g), cur_col (g_cursor g))"]
      adj [of "(cur_row (g_saved_cursor g), cur_col (g_saved_cursor g))"]
      adj [of "(g_max_cursor_row g, g_max_cursor_col g)"]
    by (fastforce simp: grid_new_for_split_def Let_def g_history_size_def g_total_rows_def checked_sub_def
        grid_ok_def buf_ok_def cursor_in_def grid_rows_def sto_inv_len sto_with_rows_def [of ?rows])
qed

theorem grid_new_for_split_ok_witness:
  "\<exists>g'. grid_new_for_split [row_new 2] 0 0 (grid_new 3 2 0 False) = Some g' \<and> grid_ok g' \<and>
     grid_rows g' = [row_new 2] \<and> g_rows g' = length [row_new 2]"
  by (rule grid_new_for_split_ok) (simp_all add: grid_ok_new, simp add: grid_new_def row_ok_new)

end
