(* ===== verification/Term_Mode.thy ===== *)
theory Term_Mode
  imports Rust_Prelude
begin

text \<open>
  Terminal mode flags and the kitty keyboard modes
  (\<^verbatim>\<open>crates/warp_terminal/src/model/mode.rs\<close>), kept as 32-bit words.
\<close>

definition SHOW_CURSOR :: u32 where "SHOW_CURSOR = 0x1"
definition APP_CURSOR :: u32 where "APP_CURSOR = 0x2"
definition APP_KEYPAD :: u32 where "APP_KEYPAD = 0x4"
definition MOUSE_REPORT_CLICK :: u32 where "MOUSE_REPORT_CLICK = 0x8"
definition BRACKETED_PASTE :: u32 where "BRACKETED_PASTE = 0x10"
definition SGR_MOUSE :: u32 where "SGR_MOUSE = 0x20"
definition MOUSE_MOTION :: u32 where "MOUSE_MOTION = 0x40"
definition LINE_WRAP :: u32 where "LINE_WRAP = 0x80"
definition LINE_FEED_NEW_LINE :: u32 where "LINE_FEED_NEW_LINE = 0x100"
definition ORIGIN :: u32 where "ORIGIN = 0x200"
definition INSERT :: u32 where "INSERT = 0x400"
definition FOCUS_IN_OUT :: u32 where "FOCUS_IN_OUT = 0x800"
definition MOUSE_DRAG :: u32 where "MOUSE_DRAG = 0x2000"
definition MOUSE_MODE :: u32 where "MOUSE_MODE = 0x2048"
definition UTF8_MOUSE :: u32 where "UTF8_MOUSE = 0x4000"
definition ALTERNATE_SCROLL :: u32 where "ALTERNATE_SCROLL = 0x8000"
definition VI :: u32 where "VI = 0x10000"
definition URGENCY_HINTS :: u32 where "URGENCY_HINTS = 0x20000"
definition KEYBOARD_DISAMBIGUATE_ESCAPE :: u32 where "KEYBOARD_DISAMBIGUATE_ESCAPE = 0x40000"
definition KEYBOARD_REPORT_EVENT_TYPES :: u32 where "KEYBOARD_REPORT_EVENT_TYPES = 0x80000"
definition KEYBOARD_REPORT_ALTERNATE_KEYS :: u32 where "KEYBOARD_REPORT_ALTERNATE_KEYS = 0x100000"
definition KEYBOARD_REPORT_ALL_AS_ESCAPE :: u32 where "KEYBOARD_REPORT_ALL_AS_ESCAPE = 0x200000"
definition KEYBOARD_REPORT_ASSOCIATED_TEXT :: u32 where "KEYBOARD_REPORT_ASSOCIATED_TEXT = 0x400000"

definition KEYBOARD_PROTOCOL :: u32 where
  "KEYBOARD_PROTOCOL =
     KEYBOARD_DISAMBIGUATE_ESCAPE OR KEYBOARD_REPORT_EVENT_TYPES OR KEYBOARD_REPORT_ALTERNATE_KEYS
     OR KEYBOARD_REPORT_ALL_AS_ESCAPE OR KEYBOARD_REPORT_ASSOCIATED_TEXT"

definition term_mode_default :: u32 where
  "term_mode_default = SHOW_CURSOR OR LINE_WRAP OR ALTERNATE_SCROLL OR URGENCY_HINTS"

lemmas term_mode_flag_defs = SHOW_CURSOR_def APP_CURSOR_def APP_KEYPAD_def MOUSE_REPORT_CLICK_def
  BRACKETED_PASTE_def SGR_MOUSE_def MOUSE_MOTION_def LINE_WRAP_def LINE_FEED_NEW_LINE_def ORIGIN_def
  INSERT_def FOCUS_IN_OUT_def MOUSE_DRAG_def MOUSE_MODE_def UTF8_MOUSE_def ALTERNATE_SCROLL_def
  VI_def URGENCY_HINTS_def

lemmas keyboard_flag_defs = KEYBOARD_DISAMBIGUATE_ESCAPE_def KEYBOARD_REPORT_EVENT_TYPES_def
  KEYBOARD_REPORT_ALTERNATE_KEYS_def KEYBOARD_REPORT_ALL_AS_ESCAPE_def
  KEYBOARD_REPORT_ASSOCIATED_TEXT_def KEYBOARD_PROTOCOL_def

definition NO_MODE :: u32 where "NO_MODE = 0"
definition DISAMBIGUATE_ESC_CODES :: u32 where "DISAMBIGUATE_ESC_CODES = 0x1"
definition REPORT_EVENT_TYPES :: u32 where "REPORT_EVENT_TYPES = 0x2"
definition REPORT_ALTERNATE_KEYS :: u32 where "REPORT_ALTERNATE_KEYS = 0x4"
definition REPORT_ALL_KEYS_AS_ESC :: u32 where "REPORT_ALL_KEYS_AS_ESC = 0x8"
definition REPORT_ASSOCIATED_TEXT :: u32 where "REPORT_ASSOCIATED_TEXT = 0x10"

lemmas keyboard_mode_defs = NO_MODE_def DISAMBIGUATE_ESC_CODES_def REPORT_EVENT_TYPES_def
  REPORT_ALTERNATE_KEYS_def REPORT_ALL_KEYS_AS_ESC_def REPORT_ASSOCIATED_TEXT_def

definition term_mode_from :: "u32 \<Rightarrow> u32" where
  "term_mode_from modes =
     (let m0 = 0;
          m1 = (if bf_contains modes DISAMBIGUATE_ESC_CODES then m0 OR KEYBOARD_DISAMBIGUATE_ESCAPE else m0);
          m2 = (if bf_contains modes REPORT_EVENT_TYPES then m1 OR KEYBOARD_REPORT_EVENT_TYPES else m1);
          m3 = (if bf_contains modes REPORT_ALTERNATE_KEYS then m2 OR KEYBOARD_REPORT_ALTERNATE_KEYS else m2);
          m4 = (if bf_contains modes REPORT_ALL_KEYS_AS_ESC then m3 OR KEYBOARD_REPORT_ALL_AS_ESCAPE else m3);
          m5 = (if bf_contains modes REPORT_ASSOCIATED_TEXT then m4 OR KEYBOARD_REPORT_ASSOCIATED_TEXT else m4)
      in m5)"

datatype apply_behavior = Replace | Union | Difference

definition from_kitty_apply_mode :: "nat \<Rightarrow> apply_behavior option" where
  "from_kitty_apply_mode m =
     (if m = 1 then Some Replace else if m = 2 then Some Union else if m = 3 then Some Difference
      else None)"

lemma term_mode_from_within: "term_mode_from modes AND NOT KEYBOARD_PROTOCOL = 0"
  by (simp add: term_mode_from_def Let_def keyboard_flag_defs)

text \<open>Resynchronising the keyboard bits keeps all other bits and sets exactly the
  image of the keyboard mode.\<close>

lemma keyboard_sync:
  assumes "m' = (m AND NOT KEYBOARD_PROTOCOL) OR term_mode_from k"
  shows "m' AND KEYBOARD_PROTOCOL = term_mode_from k" "m' AND NOT KEYBOARD_PROTOCOL = m AND NOT KEYBOARD_PROTOCOL"
proof -
  have sub: "bit (term_mode_from k) n \<Longrightarrow> bit KEYBOARD_PROTOCOL n" for n
    using term_mode_from_within [of k] bit_imp_le_length [of "term_mode_from k" n]
    by (auto simp: bit_eq_iff bit_simps)
  show "m' AND KEYBOARD_PROTOCOL = term_mode_from k"
    "m' AND NOT KEYBOARD_PROTOCOL = m AND NOT KEYBOARD_PROTOCOL"
    using sub by (auto simp: assms bit_eq_iff bit_simps)
qed

end
