(* ===== verification/Ansi_Handler.thy ===== *)
theory Ansi_Handler
  imports Grid_Storage Term_Mode
begin

text \<open>
  The interpreter of control functions on a grid: the \<open>ansi::Handler\<close> implementation
  of \<open>GridHandler\<close> (\<^verbatim>\<open>app/src/terminal/model/grid/ansi_handler.rs\<close>, with the helpers
  of \<^verbatim>\<open>grid_handler.rs\<close> and \<^verbatim>\<open>ansi_handler/tab_stops.rs\<close>), one definition per handler
  method.  A method returns \<open>None\<close> where the code would panic.

  The scrollback store is used through the three operations the handlers call
  (\<open>flat_ops\<close>).  The display widths of characters and strings come from the
  \<open>unicode_width\<close> crate and are arguments.  Of the state of \<open>GridHandler\<close>, the image map,
  the secret map, the row filters, the event proxy and the trimming counters are left
  out: no modelled field depends on them.
\<close>

section \<open>Tab stops\<close>

definition INITIAL_TABSTOPS :: nat where "INITIAL_TABSTOPS = 8"

definition tabs_new :: "nat \<Rightarrow> bool list" where
  "tabs_new num_cols = map (\<lambda>i. i mod INITIAL_TABSTOPS = 0) [0..<num_cols]"

definition tabs_clear_all :: "bool list \<Rightarrow> bool list" where
  "tabs_clear_all tabs = replicate (length tabs) False"

definition tabs_resize :: "nat \<Rightarrow> bool list \<Rightarrow> bool list" where
  "tabs_resize num_cols tabs =
     take num_cols tabs @ map (\<lambda>i. i mod INITIAL_TABSTOPS = 0) [length tabs..<num_cols]"

section \<open>State\<close>

type_synonym point = "nat \<times> nat"

record 'f flat_ops =
  fo_push_row :: "row \<Rightarrow> 'f \<Rightarrow> 'f"
  fo_clear :: "'f \<Rightarrow> 'f"
  fo_total_rows :: "'f \<Rightarrow> nat"

record 'f handler =
  h_grid :: grid
  h_flat :: 'f
  h_mode :: u32
  h_tabs :: "bool list"
  h_cursor_shape :: cursor_shape
  h_cursor_blinking :: bool
  h_active_charset :: charset_index
  h_region_start :: nat
  h_region_end :: nat
  h_is_alt_screen :: bool
  h_supports_emoji :: bool
  h_dirty_start :: point
  h_dirty_end :: point
  h_find_dirty :: "(nat \<times> nat) option"
  h_keyboard_mode :: u32
  h_keyboard_stack :: "u32 list"
  h_clear_in_place :: bool

datatype scroll_delta = ScrollUp nat | ScrollDown nat

definition scroll_zero :: scroll_delta where "scroll_zero = ScrollDown 0"

definition handler_new :: "nat \<Rightarrow> nat \<Rightarrow> bool \<Rightarrow> bool \<Rightarrow> 'f \<Rightarrow> 'f handler" where
  "handler_new rows columns is_alt_screen sequential flat =
     \<lparr>h_grid = grid_new rows columns 0 sequential, h_flat = flat, h_mode = term_mode_default,
      h_tabs = tabs_new columns, h_cursor_shape = ShapeBlock, h_cursor_blinking = False,
      h_active_charset = G0, h_region_start = 0, h_region_end = rows,
      h_is_alt_screen = is_alt_screen, h_supports_emoji = True,
      h_dirty_start = (0, 0), h_dirty_end = (0, 0), h_find_dirty = None,
      h_keyboard_mode = NO_MODE, h_keyboard_stack = [], h_clear_in_place = False\<rparr>"

definition h_columns :: "'f handler \<Rightarrow> nat" where
  "h_columns h = g_columns (h_grid h)"

definition h_visible_rows :: "'f handler \<Rightarrow> nat" where
  "h_visible_rows h = g_rows (h_grid h)"

abbreviation h_cursor :: "'f handler \<Rightarrow> cursor" where
  "h_cursor h \<equiv> g_cursor (h_grid h)"

definition h_history_size :: "'f flat_ops \<Rightarrow> 'f handler \<Rightarrow> nat" where
  "h_history_size fo h = fo_total_rows fo (h_flat h)"

definition on_grid :: "(grid \<Rightarrow> grid option) \<Rightarrow> 'f handler \<Rightarrow> 'f handler option" where
  "on_grid f h = do { g \<leftarrow> f (h_grid h); Some (h\<lparr>h_grid := g\<rparr>) }"

section \<open>Cursor bookkeeping\<close>

definition point_wrapping_add :: "nat \<Rightarrow> nat \<Rightarrow> point \<Rightarrow> point" where
  "point_wrapping_add num_cols distance p =
     (fst p + (distance + snd p) div num_cols, (snd p + distance) mod num_cols)"

definition point_wrapping_sub :: "nat \<Rightarrow> nat \<Rightarrow> point \<Rightarrow> point" where
  "point_wrapping_sub num_cols distance p =
     (let line_changes = (distance + num_cols - 1 - snd p) div num_cols
      in if fst p \<ge> line_changes
         then (fst p - line_changes, (num_cols + snd p - distance mod num_cols) mod num_cols)
         else (0, 0))"

definition point_le :: "point \<Rightarrow> point \<Rightarrow> bool" where
  "point_le p q \<longleftrightarrow> fst p < fst q \<or> (fst p = fst q \<and> snd p \<le> snd q)"

definition h_cursor_point :: "'f flat_ops \<Rightarrow> 'f handler \<Rightarrow> point" where
  "h_cursor_point fo h = (h_history_size fo h + cur_row (h_cursor h), cur_col (h_cursor h))"

definition update_find_dirty_rows_range :: "nat \<Rightarrow> 'f handler \<Rightarrow> 'f handler" where
  "update_find_dirty_rows_range row h =
     h\<lparr>h_find_dirty := Some (case h_find_dirty h of
                               Some (s, e) \<Rightarrow> (min s row, max e row)
                             | None \<Rightarrow> (row, row))\<rparr>"

definition update_dirty_cells_range :: "'f flat_ops \<Rightarrow> 'f handler \<Rightarrow> 'f handler" where
  "update_dirty_cells_range fo h =
     (let p0 = h_cursor_point fo h;
          p = (if cur_input_needs_wrap (h_cursor h) then point_wrapping_add (h_columns h) 1 p0 else p0)
      in update_find_dirty_rows_range (fst p)
           (h\<lparr>h_dirty_start := (if point_le (h_dirty_start h) p then h_dirty_start h else p),
              h_dirty_end := (if point_le (h_dirty_end h) p then p else h_dirty_end h)\<rparr>))"

definition reset_dirty_cells_range :: "'f flat_ops \<Rightarrow> 'f handler \<Rightarrow> 'f handler" where
  "reset_dirty_cells_range fo h =
     h\<lparr>h_dirty_start := h_cursor_point fo h, h_dirty_end := h_cursor_point fo h\<rparr>"

definition dirty_cells_range :: "'f handler \<Rightarrow> (point \<times> point) option" where
  "dirty_cells_range h =
     (if point_le (h_dirty_end h) (h_dirty_start h) then None
      else Some (h_dirty_start h, point_wrapping_sub (h_columns h) 1 (h_dirty_end h)))"

text \<open>The cursor may be moved anywhere (\<open>update_cursor\<close>) or only forward.\<close>

definition update_cursor :: "'f flat_ops \<Rightarrow> (cursor \<Rightarrow> cursor) \<Rightarrow> 'f handler \<Rightarrow> 'f handler" where
  "update_cursor fo f h =
     (let h1 = update_dirty_cells_range fo (h\<lparr>h_grid := g_update_max_cursor (h_grid h)\<rparr>);
          h2 = h1\<lparr>h_grid := (h_grid h1)\<lparr>g_cursor := f (g_cursor (h_grid h1))\<rparr>\<rparr>
      in update_dirty_cells_range fo h2)"

definition move_cursor_forward :: "(cursor \<Rightarrow> cursor) \<Rightarrow> 'f handler \<Rightarrow> 'f handler" where
  "move_cursor_forward f h = h\<lparr>h_grid := (h_grid h)\<lparr>g_cursor := f (h_cursor h)\<rparr>\<rparr>"

definition on_finish_byte_processing :: "'f flat_ops \<Rightarrow> 'f handler \<Rightarrow> 'f handler" where
  "on_finish_byte_processing fo h =
     reset_dirty_cells_range fo
       (update_dirty_cells_range fo (h\<lparr>h_grid := g_update_max_cursor (h_grid h)\<rparr>))"

section \<open>Scrolling\<close>

definition scroll_region_up :: "'f flat_ops \<Rightarrow> nat \<Rightarrow> nat \<Rightarrow> nat \<Rightarrow> 'f handler \<Rightarrow> 'f handler option" where
  "scroll_region_up fo region_start region_end lines h = do {
     h1 \<leftarrow> (if h_is_alt_screen h then Some h
           else fold_m (\<lambda>i h. do { r \<leftarrow> g_get_visible i (h_grid h);
                                   Some (h\<lparr>h_flat := fo_push_row fo r (h_flat h)\<rparr>) })
                  [region_start..<min region_end (region_start + lines)] h);
     h2 \<leftarrow> on_grid (g_scroll_up region_start region_end lines) h1;
     Some (update_dirty_cells_range fo h2)
   }"

definition scroll_up_relative ::
    "'f flat_ops \<Rightarrow> nat \<Rightarrow> nat \<Rightarrow> 'f handler \<Rightarrow> ('f handler \<times> scroll_delta) option" where
  "scroll_up_relative fo origin_row lines0 h = do {
     size \<leftarrow> checked_sub (h_region_end h) (h_region_start h);
     let lines = min lines0 size;
     h' \<leftarrow> scroll_region_up fo origin_row (h_region_end h) lines h;
     Some (h', ScrollUp lines)
   }"

definition scroll_down_relative ::
    "nat \<Rightarrow> nat \<Rightarrow> 'f handler \<Rightarrow> ('f handler \<times> scroll_delta) option" where
  "scroll_down_relative origin_row lines0 h = do {
     size \<leftarrow> checked_sub (h_region_end h) (h_region_start h);
     below \<leftarrow> checked_sub (h_region_end h) origin_row;
     let lines = min (min lines0 size) below;
     h' \<leftarrow> on_grid (g_scroll_down origin_row (h_region_end h) lines) h;
     Some (h', ScrollDown lines)
   }"

definition scroll_up :: "'f flat_ops \<Rightarrow> nat \<Rightarrow> 'f handler \<Rightarrow> ('f handler \<times> scroll_delta) option" where
  "scroll_up fo lines h = scroll_up_relative fo (h_region_start h) lines h"

definition scroll_down :: "nat \<Rightarrow> 'f handler \<Rightarrow> ('f handler \<times> scroll_delta) option" where
  "scroll_down lines h = scroll_down_relative (h_region_start h) lines h"

definition linefeed :: "'f flat_ops \<Rightarrow> 'f handler \<Rightarrow> ('f handler \<times> scroll_delta) option" where
  "linefeed fo h =
     (let next_row = cur_row (h_cursor h) + 1
      in if next_row = h_region_end h then scroll_up fo 1 h
         else if next_row < h_visible_rows h
              then Some (move_cursor_forward (\<lambda>c. c\<lparr>cur_row := cur_row c + 1\<rparr>) h, scroll_zero)
              else Some (h, scroll_zero))"

definition insert_blank_lines :: "nat \<Rightarrow> 'f handler \<Rightarrow> ('f handler \<times> scroll_delta) option" where
  "insert_blank_lines lines h =
     (let origin = cur_row (h_cursor h)
      in if h_region_start h \<le> origin \<and> origin < h_region_end h
         then scroll_down_relative origin lines h else Some (h, scroll_zero))"

definition delete_lines :: "'f flat_ops \<Rightarrow> nat \<Rightarrow> 'f handler \<Rightarrow> ('f handler \<times> scroll_delta) option" where
  "delete_lines fo lines0 h = do {
     let origin = cur_row (h_cursor h);
     below \<leftarrow> checked_sub (h_visible_rows h) origin;
     let lines = min below lines0;
     if lines > 0 \<and> h_region_start h \<le> origin \<and> origin < h_region_end h
     then scroll_up_relative fo origin lines h else Some (h, scroll_zero)
   }"

definition reverse_index :: "'f flat_ops \<Rightarrow> 'f handler \<Rightarrow> ('f handler \<times> scroll_delta) option" where
  "reverse_index fo h =
     (if cur_row (h_cursor h) = h_region_start h then scroll_down 1 h
      else Some (update_cursor fo (\<lambda>c. c\<lparr>cur_row := cur_row c - 1\<rparr>) h, scroll_zero))"

text \<open>\<open>clear_viewport\<close> starts its grapheme cursor at column \<open>columns()\<close> of row 0, a point no
  row contains, so the cursor is invalid from the start, the search loop does not run
  and the row it reports is 0.\<close>

definition clear_viewport :: "'f flat_ops \<Rightarrow> 'f handler \<Rightarrow> 'f handler option" where
  "clear_viewport fo h = do {
     let row = 0;
     positions \<leftarrow> checked_sub (h_visible_rows h) row;
     h' \<leftarrow> scroll_region_up fo 0 (h_visible_rows h) positions h;
     let template = cur_template (h_cursor h');
     on_grid (\<lambda>g. do { raw \<leftarrow> fold_m (\<lambda>i. sto_mut i (row_reset template)) [positions..<h_visible_rows h'] (g_raw g);
                       Some (g\<lparr>g_raw := raw\<rparr>) }) h'
   }"

section \<open>Cursor movement\<close>

definition goto :: "'f flat_ops \<Rightarrow> nat \<Rightarrow> nat \<Rightarrow> 'f handler \<Rightarrow> 'f handler option" where
  "goto fo row column h = do {
     max_y \<leftarrow> (if bf_contains (h_mode h) ORIGIN then checked_sub (h_region_end h) 1
              else checked_sub (h_visible_rows h) 1);
     let y_offset = (if bf_contains (h_mode h) ORIGIN then h_region_start h else 0);
     Some (update_cursor fo (\<lambda>c. c\<lparr>cur_row := min (row + y_offset) max_y,
                                   cur_col := min column (h_columns h - 1),
                                   cur_input_needs_wrap := False\<rparr>) h)
   }"

definition goto_line :: "'f flat_ops \<Rightarrow> nat \<Rightarrow> 'f handler \<Rightarrow> 'f handler option" where
  "goto_line fo row h = goto fo row (cur_col (h_cursor h)) h"

definition goto_col :: "'f flat_ops \<Rightarrow> nat \<Rightarrow> 'f handler \<Rightarrow> 'f handler option" where
  "goto_col fo column h = goto fo (cur_row (h_cursor h)) column h"

definition move_up :: "'f flat_ops \<Rightarrow> nat \<Rightarrow> 'f handler \<Rightarrow> 'f handler option" where
  "move_up fo lines h = goto fo (cur_row (h_cursor h) - lines) (cur_col (h_cursor h)) h"

definition move_down :: "'f flat_ops \<Rightarrow> nat \<Rightarrow> 'f handler \<Rightarrow> 'f handler option" where
  "move_down fo lines h = goto fo (cur_row (h_cursor h) + lines) (cur_col (h_cursor h)) h"

definition move_down_and_cr :: "'f flat_ops \<Rightarrow> nat \<Rightarrow> 'f handler \<Rightarrow> 'f handler option" where
  "move_down_and_cr fo lines h = goto fo (cur_row (h_cursor h) + lines) 0 h"

definition move_up_and_cr :: "'f flat_ops \<Rightarrow> nat \<Rightarrow> 'f handler \<Rightarrow> 'f handler option" where
  "move_up_and_cr fo lines h = goto fo (cur_row (h_cursor h) - lines) 0 h"

definition move_forward :: "nat \<Rightarrow> 'f handler \<Rightarrow> 'f handler" where
  "move_forward columns h =
     move_cursor_forward (\<lambda>c. c\<lparr>cur_col := min (cur_col c + columns) (h_columns h - 1),
                                cur_input_needs_wrap := False\<rparr>) h"

definition move_backward :: "'f flat_ops \<Rightarrow> nat \<Rightarrow> 'f handler \<Rightarrow> 'f handler" where
  "move_backward fo columns h =
     update_cursor fo (\<lambda>c. c\<lparr>cur_col := cur_col c - columns, cur_input_needs_wrap := False\<rparr>) h"

definition backspace :: "'f flat_ops \<Rightarrow> 'f handler \<Rightarrow> 'f handler" where
  "backspace fo h =
     (if cur_col (h_cursor h) > 0
      then update_cursor fo (\<lambda>c. c\<lparr>cur_col := cur_col c - 1, cur_input_needs_wrap := False\<rparr>) h
      else h)"

definition carriage_return :: "'f flat_ops \<Rightarrow> 'f handler \<Rightarrow> 'f handler" where
  "carriage_return fo h = update_cursor fo (\<lambda>c. c\<lparr>cur_col := 0, cur_input_needs_wrap := False\<rparr>) h"

definition newline :: "'f flat_ops \<Rightarrow> 'f handler \<Rightarrow> 'f handler option" where
  "newline fo h = do {
     (h', _) \<leftarrow> linefeed fo h;
     Some (if bf_contains (h_mode h') LINE_FEED_NEW_LINE then carriage_return fo h' else h')
   }"

definition save_cursor_position :: "'f handler \<Rightarrow> 'f handler" where
  "save_cursor_position h = h\<lparr>h_grid := (h_grid h)\<lparr>g_saved_cursor := h_cursor h\<rparr>\<rparr>"

definition restore_cursor_position :: "'f flat_ops \<Rightarrow> 'f handler \<Rightarrow> 'f handler" where
  "restore_cursor_position fo h =
     (let saved = g_saved_cursor (h_grid h) in update_cursor fo (\<lambda>_. saved) h)"

datatype status_report = StatusOk | CursorReport nat nat

definition device_status :: "nat \<Rightarrow> 'f handler \<Rightarrow> status_report option" where
  "device_status arg h =
     (if arg = 5 then Some StatusOk
      else if arg = 6 then Some (CursorReport (cur_row (h_cursor h) + 1) (cur_col (h_cursor h) + 1))
      else None)"

section \<open>Writing cells\<close>

text \<open>\<open>self.grid[row]\<close> with an absolute row index.\<close>

definition h_mut_row :: "nat \<Rightarrow> (row \<Rightarrow> row option) \<Rightarrow> 'f handler \<Rightarrow> 'f handler option" where
  "h_mut_row i f h =
     on_grid (\<lambda>g. do { raw \<leftarrow> sto_mut i f (g_raw g); Some (g\<lparr>g_raw := raw\<rparr>) }) h"

definition h_cell :: "nat \<Rightarrow> nat \<Rightarrow> 'f handler \<Rightarrow> cell option" where
  "h_cell i j h = do { r \<leftarrow> sto_get i (g_raw (h_grid h)); vec_get (row_inner r) j }"

definition grid_cursor_row :: "'f handler \<Rightarrow> nat option" where
  "grid_cursor_row h = do { hs \<leftarrow> g_history_size (h_grid h); Some (hs + cur_row (h_cursor h)) }"

definition set_pair :: "nat \<Rightarrow> nat \<Rightarrow> cell \<Rightarrow> cell list \<Rightarrow> cell list option" where
  "set_pair i j c xs = do { ys \<leftarrow> vec_set xs i c; vec_set ys j c }"

definition wide_start_cells :: "nat \<Rightarrow> nat \<Rightarrow> color \<Rightarrow> cell list \<Rightarrow> cell list option" where
  "wide_start_cells num_cols col bg xs = do {
     c \<leftarrow> vec_get xs col;
     ys \<leftarrow> (if bf_contains (c_flags c) WIDE_CHAR_SPACER \<and> col > 0
           then set_pair col (col - 1) (cell_from bg) xs else Some xs);
     d \<leftarrow> vec_get ys col;
     if bf_contains (c_flags d) WIDE_CHAR \<and> col + 1 < num_cols
     then set_pair col (col + 1) (cell_from bg) ys else Some ys
   }"

definition wide_end_cells :: "nat \<Rightarrow> color \<Rightarrow> cell list \<Rightarrow> cell list option" where
  "wide_end_cells col bg xs = do {
     c \<leftarrow> vec_get xs col;
     if bf_contains (c_flags c) WIDE_CHAR_SPACER \<and> col > 0
     then set_pair col (col - 1) (cell_from bg) xs else Some xs
   }"

definition reset_wide_char_at_start_boundary ::
    "nat \<Rightarrow> nat \<Rightarrow> color \<Rightarrow> 'f handler \<Rightarrow> 'f handler option" where
  "reset_wide_char_at_start_boundary row col bg h =
     h_mut_row row (row_mut_slice (wide_start_cells (h_columns h) col bg)) h"

definition reset_wide_char_at_end_boundary ::
    "nat \<Rightarrow> nat \<Rightarrow> color \<Rightarrow> 'f handler \<Rightarrow> 'f handler option" where
  "reset_wide_char_at_end_boundary row col bg h =
     h_mut_row row (row_mut_slice (wide_end_cells col bg)) h"

text \<open>The part of \<open>write_at_cursor\<close> that unlinks the other half of a wide character
  and the leading spacer on the row above.\<close>

definition unlink_wide_char :: "nat \<Rightarrow> nat \<Rightarrow> u16 \<Rightarrow> 'f handler \<Rightarrow> 'f handler option" where
  "unlink_wide_char row col flags h =
     (if bf_intersects flags (WIDE_CHAR OR WIDE_CHAR_SPACER) then do {
        let bg = c_bg (cur_template (h_cursor h));
        let num_cols = h_columns h;
        h0 \<leftarrow> (if col \<le> 1 \<and> row > 0 \<and>
                  (col = 0 \<and> bf_contains flags WIDE_CHAR \<or>
                   col = 1 \<and> bf_contains flags WIDE_CHAR_SPACER)
              then h_mut_row (row - 1) (row_mut_at (num_cols - 1)
                     (\<lambda>c. c\<lparr>c_flags := bf_remove (c_flags c) LEADING_WIDE_CHAR_SPACER\<rparr>)) h
              else Some h);
        if bf_contains flags WIDE_CHAR_SPACER \<and> col > 0 then do {
          h' \<leftarrow> h_mut_row row (row_mut_at col (\<lambda>_. cell_from bg)) h0;
          h_mut_row row (row_mut_at (col - 1) (\<lambda>_. cell_from bg)) h'
        } else if bf_contains flags WIDE_CHAR \<and> col + 1 < num_cols then do {
          h' \<leftarrow> h_mut_row row (row_mut_at col (\<lambda>_. cell_from bg)) h0;
          h_mut_row row (row_mut_at (col + 1) (\<lambda>_. cell_from bg)) h'
        } else Some h0
      } else Some h)"

text \<open>\<open>write_at_cursor\<close>; \<open>post\<close> is what the caller does to the returned cell.\<close>

definition write_at_cursor ::
    "rust_char \<Rightarrow> (cell \<Rightarrow> cell) \<Rightarrow> 'f handler \<Rightarrow> 'f handler option" where
  "write_at_cursor ch post h = do {
     row \<leftarrow> grid_cursor_row h;
     let col = cur_col (h_cursor h);
     cell \<leftarrow> h_cell row col h;
     h1 \<leftarrow> unlink_wide_char row col (c_flags cell) h;
     let t = cur_template (h_cursor h1);
     let ch' = charset_map (cur_charsets (h_cursor h1) (h_active_charset h1)) ch;
     on_grid (g_cursor_cell (\<lambda>c. post ((drop_extra c)\<lparr>c_char := ch', c_fg := c_fg t, c_bg := c_bg t,
                                                      c_flags := c_flags t\<rparr>))) h1
   }"

definition advance_cursor_by_one_cell :: "'f handler \<Rightarrow> 'f handler" where
  "advance_cursor_by_one_cell h =
     move_cursor_forward (\<lambda>c. if cur_col c + 1 < h_columns h then c\<lparr>cur_col := cur_col c + 1\<rparr>
                              else c\<lparr>cur_input_needs_wrap := True\<rparr>) h"

definition wrapline :: "'f flat_ops \<Rightarrow> 'f handler \<Rightarrow> 'f handler option" where
  "wrapline fo h =
     (if \<not> bf_contains (h_mode h) LINE_WRAP then Some h
      else do {
        h1 \<leftarrow> on_grid (g_cursor_cell (\<lambda>c. c\<lparr>c_flags := bf_insert (c_flags c) WRAPLINE\<rparr>)) h;
        h2 \<leftarrow> (if cur_row (h_cursor h1) + 1 \<ge> h_region_end h1
              then do { (h', _) \<leftarrow> linefeed fo h1; Some h' }
              else Some (move_cursor_forward (\<lambda>c. c\<lparr>cur_row := cur_row c + 1\<rparr>) h1));
        Some (move_cursor_forward (\<lambda>c. c\<lparr>cur_col := 0, cur_input_needs_wrap := False\<rparr>) h2)
      })"

definition insert_flag :: "u16 \<Rightarrow> cell \<Rightarrow> cell" where
  "insert_flag f c = c\<lparr>c_flags := bf_insert (c_flags c) f\<rparr>"

text \<open>The zero-width branch of \<open>input\<close>.\<close>

definition input_zero_width ::
    "(rust_char list \<Rightarrow> nat) \<Rightarrow> rust_char \<Rightarrow> 'f handler \<Rightarrow> 'f handler option" where
  "input_zero_width str_width ch h = do {
     let col0 = (if cur_input_needs_wrap (h_cursor h) then cur_col (h_cursor h)
                 else cur_col (h_cursor h) - 1);
     row \<leftarrow> grid_cursor_row h;
     c0 \<leftarrow> h_cell row col0 h;
     let col = (if bf_contains (c_flags c0) WIDE_CHAR_SPACER then col0 - 1 else col0);
     h1 \<leftarrow> h_mut_row row (row_mut_at col (push_zerowidth ch)) h;
     c1 \<leftarrow> h_cell row col h1;
     if str_width (raw_content c1) = 2 \<and> h_supports_emoji h1 then do {
       h2 \<leftarrow> h_mut_row row (row_mut_at col (insert_flag WIDE_CHAR)) h1;
       h3 \<leftarrow> write_at_cursor DEFAULT_CHAR (insert_flag WIDE_CHAR_SPACER) h2;
       Some (advance_cursor_by_one_cell h3)
     } else Some h1
   }"

text \<open>The shift of insert mode.\<close>

definition input_insert_shift :: "nat \<Rightarrow> 'f handler \<Rightarrow> 'f handler option" where
  "input_insert_shift width h = do {
     let num_cols = h_columns h;
     if bf_contains (h_mode h) INSERT \<and> cur_col (h_cursor h) + width < num_cols then do {
       row \<leftarrow> grid_cursor_row h;
       let col = cur_col (h_cursor h);
       let bg = c_bg (cur_template (h_cursor h));
       h1 \<leftarrow> reset_wide_char_at_start_boundary row col bg h;
       h2 \<leftarrow> reset_wide_char_at_end_boundary row (num_cols - width) bg h1;
       h_mut_row row (row_mut_slice (fold_m (\<lambda>j xs. vec_swap xs (j + width) j)
                        (rev [col..<num_cols - width]))) h2
     } else Some h
   }"

definition input ::
    "'f flat_ops \<Rightarrow> (rust_char \<Rightarrow> nat option) \<Rightarrow> (rust_char list \<Rightarrow> nat) \<Rightarrow> rust_char \<Rightarrow>
     'f handler \<Rightarrow> 'f handler option" where
  "input fo char_width str_width ch h =
     (case char_width ch of
        None \<Rightarrow> Some h
      | Some width \<Rightarrow>
          if width = 0 then input_zero_width str_width ch h
          else do {
            h1 \<leftarrow> (if cur_input_needs_wrap (h_cursor h) then wrapline fo h else Some h);
            h2 \<leftarrow> input_insert_shift width h1;
            if width = 1 then do {
              h3 \<leftarrow> write_at_cursor ch id h2;
              Some (advance_cursor_by_one_cell h3)
            } else if cur_col (h_cursor h2) + 1 \<ge> h_columns h2 \<and> \<not> bf_contains (h_mode h2) LINE_WRAP
            then Some (move_cursor_forward (\<lambda>c. c\<lparr>cur_input_needs_wrap := True\<rparr>) h2)
            else do {
              h3 \<leftarrow> (if cur_col (h_cursor h2) + 1 \<ge> h_columns h2 then do {
                      h' \<leftarrow> write_at_cursor DEFAULT_CHAR (insert_flag LEADING_WIDE_CHAR_SPACER) h2;
                      wrapline fo h'
                    } else Some h2);
              h4 \<leftarrow> write_at_cursor ch (insert_flag WIDE_CHAR) h3;
              let h5 = move_cursor_forward (\<lambda>c. c\<lparr>cur_col := cur_col c + 1\<rparr>) h4;
              h6 \<leftarrow> write_at_cursor DEFAULT_CHAR (insert_flag WIDE_CHAR_SPACER) h5;
              Some (advance_cursor_by_one_cell h6)
            }
          })"

section \<open>Inserting, deleting and erasing characters\<close>

definition insert_blank :: "nat \<Rightarrow> 'f handler \<Rightarrow> 'f handler option" where
  "insert_blank count0 h = do {
     let bg = c_bg (cur_template (h_cursor h));
     let cols = h_columns h;
     let source = cur_col (h_cursor h);
     avail \<leftarrow> checked_sub cols source;
     let count = min count0 avail;
     let destination = source + count;
     num_cells \<leftarrow> checked_sub cols destination;
     row \<leftarrow> grid_cursor_row h;
     h1 \<leftarrow> reset_wide_char_at_start_boundary row source bg h;
     let push_off = cols - count;
     h2 \<leftarrow> (if push_off < cols then reset_wide_char_at_end_boundary row push_off bg h1 else Some h1);
     h_mut_row row (row_mut_slice (\<lambda>xs. do {
       ys \<leftarrow> fold_m (\<lambda>offset xs. vec_swap xs (destination + offset) (source + offset)) (rev [0..<num_cells]) xs;
       if destination \<le> length ys then Some (map_range source destination (\<lambda>_. cell_from bg) ys) else None
     })) h2
   }"

definition erase_chars :: "nat \<Rightarrow> 'f handler \<Rightarrow> 'f handler option" where
  "erase_chars count h =
     (if count = 0 then Some h
      else do {
        let cols = h_columns h;
        let start = cur_col (h_cursor h);
        let end_col = min (start + count) cols;
        let bg = c_bg (cur_template (h_cursor h));
        row \<leftarrow> grid_cursor_row h;
        h1 \<leftarrow> reset_wide_char_at_start_boundary row start bg h;
        h2 \<leftarrow> (if end_col < cols then reset_wide_char_at_end_boundary row end_col bg h1 else Some h1);
        h_mut_row row (row_mut_range start end_col (\<lambda>_. cell_from bg)) h2
      })"

definition delete_chars :: "nat \<Rightarrow> 'f handler \<Rightarrow> 'f handler option" where
  "delete_chars count0 h =
     (if count0 = 0 then Some h
      else do {
        let cols = h_columns h;
        let bg = c_bg (cur_template (h_cursor h));
        let count = min count0 cols;
        let start = cur_col (h_cursor h);
        last_col \<leftarrow> checked_sub cols 1;
        let end_col = min (start + count) last_col;
        let num_cells = cols - end_col;
        row \<leftarrow> grid_cursor_row h;
        h1 \<leftarrow> reset_wide_char_at_start_boundary row start bg h;
        h2 \<leftarrow> (if end_col < cols then reset_wide_char_at_end_boundary row end_col bg h1 else Some h1);
        h_mut_row row (row_mut_slice (\<lambda>xs. do {
          ys \<leftarrow> fold_m (\<lambda>offset xs. vec_swap xs (start + offset) (end_col + offset)) [0..<num_cells] xs;
          Some (map_range (cols - count) (length ys) (\<lambda>_. cell_from bg) ys)
        })) h2
      })"

section \<open>Clearing\<close>

definition clear_line :: "line_clear_mode \<Rightarrow> 'f handler \<Rightarrow> 'f handler option" where
  "clear_line m h = do {
     let bg = c_bg (cur_template (h_cursor h));
     let col = cur_col (h_cursor h);
     row \<leftarrow> grid_cursor_row h;
     h1 \<leftarrow> (case m of
             ClearRight \<Rightarrow> reset_wide_char_at_start_boundary row col bg h
           | ClearLeft \<Rightarrow> if col + 1 < h_columns h
                          then reset_wide_char_at_end_boundary row (col + 1) bg h else Some h
           | ClearLineAll \<Rightarrow> Some h);
     h_mut_row row (case m of
         ClearRight \<Rightarrow> row_mut_from col (\<lambda>_. cell_from bg)
       | ClearLeft \<Rightarrow> row_mut_to_inclusive col (\<lambda>_. cell_from bg)
       | ClearLineAll \<Rightarrow> (\<lambda>r. Some (row_mut_full (\<lambda>_. cell_from bg) r))) h1
   }"

text \<open>The grid part of \<open>clear_visible_rows_in_place\<close>.\<close>

definition clear_visible_rows_in_place :: "'f flat_ops \<Rightarrow> color \<Rightarrow> 'f handler \<Rightarrow> 'f handler option" where
  "clear_visible_rows_in_place fo bg h = do {
     h1 \<leftarrow> on_grid (g_region_full (\<lambda>_. cell_from bg)) h;
     let first_row = h_history_size fo h1;
     Some (h1\<lparr>h_dirty_start := (first_row, 0), h_dirty_end := (first_row + h_visible_rows h1, 0)\<rparr>)
   }"

definition clear_screen :: "'f flat_ops \<Rightarrow> clear_mode \<Rightarrow> 'f handler \<Rightarrow> 'f handler option" where
  "clear_screen fo m h = do {
     let bg = c_bg (cur_template (h_cursor h));
     let blank = (\<lambda>_. cell_from bg);
     let row0 = cur_row (h_cursor h);
     let col = cur_col (h_cursor h);
     case m of
       Above \<Rightarrow> do {
         let h1 = h\<lparr>h_flat := fo_clear fo (h_flat h)\<rparr>;
         h2 \<leftarrow> (if row0 > 1 then on_grid (g_region_to row0 blank) h1 else Some h1);
         let end_col = min (col + 1) (h_columns h2);
         row \<leftarrow> grid_cursor_row h2;
         h3 \<leftarrow> (if end_col < h_columns h2 then reset_wide_char_at_end_boundary row end_col bg h2 else Some h2);
         h_mut_row row (row_mut_to end_col blank) h3
       }
     | Below \<Rightarrow> do {
         row \<leftarrow> grid_cursor_row h;
         h1 \<leftarrow> reset_wide_char_at_start_boundary row col bg h;
         h2 \<leftarrow> h_mut_row row (row_mut_from col blank) h1;
         last_row \<leftarrow> checked_sub (h_visible_rows h) 1;
         if row0 < last_row then on_grid (g_region_from (row0 + 1) blank) h2 else Some h2
       }
     | ClearAll \<Rightarrow>
         if h_is_alt_screen h then on_grid (g_region_full blank) h
         else if h_clear_in_place h then clear_visible_rows_in_place fo bg h
         else clear_viewport fo h
     | Saved \<Rightarrow>
         if h_history_size fo h > 0
         then on_grid g_clear_history (h\<lparr>h_flat := fo_clear fo (h_flat h)\<rparr>) else Some h
     | _ \<Rightarrow> do {
         let h1 = h\<lparr>h_flat := fo_clear fo (h_flat h)\<rparr>;
         h2 \<leftarrow> on_grid g_clear_and_reset_saving_cursor_line h1;
         let cursor_row = fst (h_cursor_point fo h2);
         let h3 = h2\<lparr>h_dirty_start := (cursor_row, 0), h_dirty_end := (cursor_row + 1, 0)\<rparr>;
         Some (on_finish_byte_processing fo h3)
       }
   }"

definition decaln :: "'f handler \<Rightarrow> 'f handler option" where
  "decaln h = on_grid (g_region_full (\<lambda>_. cell_default\<lparr>c_char := 0x45\<rparr>)) h"

definition reset_state :: "'f flat_ops \<Rightarrow> 'f handler \<Rightarrow> 'f handler option" where
  "reset_state fo h = do {
     h1 \<leftarrow> on_grid g_reset h;
     Some (h1\<lparr>h_flat := fo_clear fo (h_flat h1), h_active_charset := G0,
              h_cursor_shape := ShapeBlock, h_cursor_blinking := False,
              h_region_start := 0, h_region_end := h_visible_rows h1,
              h_tabs := tabs_new (h_columns h1)\<rparr>)
   }"

section \<open>Tabs\<close>

definition set_horizontal_tabstop :: "'f handler \<Rightarrow> 'f handler option" where
  "set_horizontal_tabstop h = do {
     tabs \<leftarrow> vec_set (h_tabs h) (cur_col (h_cursor h)) True;
     Some (h\<lparr>h_tabs := tabs\<rparr>)
   }"

definition clear_tabs :: "tabulation_clear_mode \<Rightarrow> 'f handler \<Rightarrow> 'f handler option" where
  "clear_tabs m h =
     (case m of
        TabCurrent \<Rightarrow> do { tabs \<leftarrow> vec_set (h_tabs h) (cur_col (h_cursor h)) False;
                           Some (h\<lparr>h_tabs := tabs\<rparr>) }
      | TabAll \<Rightarrow> Some (h\<lparr>h_tabs := tabs_clear_all (h_tabs h)\<rparr>))"

text \<open>The inner loop of \<open>put_tab\<close>: on to the next tab stop or the last column.\<close>

function next_tab :: "bool list \<Rightarrow> nat \<Rightarrow> nat \<Rightarrow> nat option" where
  "next_tab tabs cols col =
     (if col + 1 = cols then Some col
      else if col + 1 < length tabs
           then if tabs ! (col + 1) then Some (col + 1) else next_tab tabs cols (col + 1)
           else None)"
  by auto
termination by (relation "measure (\<lambda>(tabs, _, col). length tabs - col)") auto

declare next_tab.simps [simp del]

primrec put_tab_loop :: "nat \<Rightarrow> 'f handler \<Rightarrow> 'f handler option" where
  "put_tab_loop 0 h = Some h"
| "put_tab_loop (Suc count) h =
     (if cur_col (h_cursor h) < h_columns h then do {
        let ch = charset_map (cur_charsets (h_cursor h) (h_active_charset h)) 0x09;
        h1 \<leftarrow> on_grid (g_cursor_cell (\<lambda>c. if c_char c = DEFAULT_CHAR \<or> c_char c = 0x20
                                          then c\<lparr>c_char := ch\<rparr> else c)) h;
        col \<leftarrow> next_tab (h_tabs h1) (h_columns h1) (cur_col (h_cursor h1));
        put_tab_loop count (move_cursor_forward (\<lambda>c. c\<lparr>cur_col := col\<rparr>) h1)
      } else Some h)"

definition put_tab :: "'f flat_ops \<Rightarrow> nat \<Rightarrow> 'f handler \<Rightarrow> 'f handler option" where
  "put_tab fo count h =
     (if cur_input_needs_wrap (h_cursor h) then wrapline fo h else put_tab_loop count h)"

primrec prev_tab :: "bool list \<Rightarrow> nat \<Rightarrow> nat \<Rightarrow> nat option" where
  "prev_tab tabs col 0 = Some col"
| "prev_tab tabs col (Suc i) =
     do { t \<leftarrow> vec_get tabs i; if t then Some i else prev_tab tabs col i }"

primrec move_backward_tabs :: "'f flat_ops \<Rightarrow> nat \<Rightarrow> 'f handler \<Rightarrow> 'f handler option" where
  "move_backward_tabs fo 0 h = Some h"
| "move_backward_tabs fo (Suc n) h = do {
     col \<leftarrow> prev_tab (h_tabs h) (cur_col (h_cursor h)) (cur_col (h_cursor h));
     move_backward_tabs fo n (update_cursor fo (\<lambda>c. c\<lparr>cur_col := col\<rparr>) h)
   }"

section \<open>Attributes, modes, regions, character sets\<close>

definition attr_flags :: "(u16 \<Rightarrow> u16) \<Rightarrow> cell \<Rightarrow> cell" where
  "attr_flags f t = t\<lparr>c_flags := f (c_flags t)\<rparr>"

fun apply_attr :: "attr \<Rightarrow> cell \<Rightarrow> cell" where
  "apply_attr (AttrForeground col) t = t\<lparr>c_fg := col\<rparr>"
| "apply_attr (AttrBackground col) t = t\<lparr>c_bg := col\<rparr>"
| "apply_attr AttrReset t = t\<lparr>c_fg := Named Foreground, c_bg := Named Background, c_flags := 0\<rparr>"
| "apply_attr AttrReverse t = attr_flags (\<lambda>f. bf_insert f INVERSE) t"
| "apply_attr AttrCancelReverse t = attr_flags (\<lambda>f. bf_remove f INVERSE) t"
| "apply_attr AttrBold t = attr_flags (\<lambda>f. bf_insert f BOLD) t"
| "apply_attr AttrCancelBold t = attr_flags (\<lambda>f. bf_remove f BOLD) t"
| "apply_attr AttrDim t = attr_flags (\<lambda>f. bf_insert f DIM) t"
| "apply_attr AttrCancelBoldDim t = attr_flags (\<lambda>f. bf_remove f (BOLD OR DIM)) t"
| "apply_attr AttrItalic t = attr_flags (\<lambda>f. bf_insert f ITALIC) t"
| "apply_attr AttrCancelItalic t = attr_flags (\<lambda>f. bf_remove f ITALIC) t"
| "apply_attr AttrUnderline t =
     attr_flags (\<lambda>f. bf_insert (bf_remove f DOUBLE_UNDERLINE) UNDERLINE) t"
| "apply_attr AttrDoubleUnderline t =
     attr_flags (\<lambda>f. bf_insert (bf_remove f UNDERLINE) DOUBLE_UNDERLINE) t"
| "apply_attr AttrCancelUnderline t =
     attr_flags (\<lambda>f. bf_remove f (UNDERLINE OR DOUBLE_UNDERLINE)) t"
| "apply_attr AttrHidden t = attr_flags (\<lambda>f. bf_insert f HIDDEN) t"
| "apply_attr AttrCancelHidden t = attr_flags (\<lambda>f. bf_remove f HIDDEN) t"
| "apply_attr AttrStrike t = attr_flags (\<lambda>f. bf_insert f STRIKEOUT) t"
| "apply_attr AttrCancelStrike t = attr_flags (\<lambda>f. bf_remove f STRIKEOUT) t"
| "apply_attr _ t = t"

definition terminal_attribute :: "attr \<Rightarrow> 'f handler \<Rightarrow> 'f handler" where
  "terminal_attribute a h =
     h\<lparr>h_grid := (h_grid h)\<lparr>g_cursor := (h_cursor h)\<lparr>cur_template := apply_attr a (cur_template (h_cursor h))\<rparr>\<rparr>\<rparr>"

definition set_scrolling_region :: "'f flat_ops \<Rightarrow> nat \<Rightarrow> nat option \<Rightarrow> 'f handler \<Rightarrow> 'f handler option" where
  "set_scrolling_region fo top_line bottom0 h =
     (let bottom = (case bottom0 of Some b \<Rightarrow> b | None \<Rightarrow> h_visible_rows h)
      in if top_line \<ge> bottom then Some h
         else do {
           start \<leftarrow> checked_sub top_line 1;
           goto fo 0 0 (h\<lparr>h_region_start := min start (h_visible_rows h),
                          h_region_end := min bottom (h_visible_rows h)\<rparr>)
         })"

definition deccolm :: "'f flat_ops \<Rightarrow> 'f handler \<Rightarrow> 'f handler option" where
  "deccolm fo h = do {
     h1 \<leftarrow> set_scrolling_region fo 1 None h;
     on_grid (g_region_full (\<lambda>_. cell_from (c_bg (cur_template (h_cursor h1))))) h1
   }"

definition h_insert_mode :: "u32 \<Rightarrow> 'f handler \<Rightarrow> 'f handler" where
  "h_insert_mode f h = h\<lparr>h_mode := bf_insert (h_mode h) f\<rparr>"

definition h_remove_mode :: "u32 \<Rightarrow> 'f handler \<Rightarrow> 'f handler" where
  "h_remove_mode f h = h\<lparr>h_mode := bf_remove (h_mode h) f\<rparr>"

fun set_mode :: "'f flat_ops \<Rightarrow> mode \<Rightarrow> 'f handler \<Rightarrow> 'f handler option" where
  "set_mode fo UrgencyHints h = Some (h_insert_mode URGENCY_HINTS h)"
| "set_mode fo (SwapScreen _) h = None"
| "set_mode fo ShowCursor h = Some (h_insert_mode SHOW_CURSOR h)"
| "set_mode fo CursorKeys h = Some (h_insert_mode APP_CURSOR h)"
| "set_mode fo ReportMouseClicks h = Some (h_insert_mode MOUSE_REPORT_CLICK (h_remove_mode MOUSE_MODE h))"
| "set_mode fo ReportCellMouseMotion h = Some (h_insert_mode MOUSE_DRAG (h_remove_mode MOUSE_MODE h))"
| "set_mode fo ReportAllMouseMotion h = Some (h_insert_mode MOUSE_MOTION (h_remove_mode MOUSE_MODE h))"
| "set_mode fo ReportFocusInOut h = Some (h_insert_mode FOCUS_IN_OUT h)"
| "set_mode fo BracketedPaste h = Some (h_insert_mode BRACKETED_PASTE h)"
| "set_mode fo SgrMouse h = Some (h_insert_mode SGR_MOUSE (h_remove_mode UTF8_MOUSE h))"
| "set_mode fo Utf8Mouse h = Some (h_insert_mode UTF8_MOUSE (h_remove_mode SGR_MOUSE h))"
| "set_mode fo AlternateScroll h = Some (h_insert_mode ALTERNATE_SCROLL h)"
| "set_mode fo LineWrap h = Some (h_insert_mode LINE_WRAP h)"
| "set_mode fo LineFeedNewLine h = Some (h_insert_mode LINE_FEED_NEW_LINE h)"
| "set_mode fo Origin h = Some (h_insert_mode ORIGIN h)"
| "set_mode fo DECCOLM h = deccolm fo h"
| "set_mode fo Insert h = Some (h_insert_mode INSERT h)"
| "set_mode fo BlinkingCursor h = Some (h\<lparr>h_cursor_blinking := True\<rparr>)"
| "set_mode fo SyncOutput h = Some h"

fun unset_mode :: "'f flat_ops \<Rightarrow> mode \<Rightarrow> 'f handler \<Rightarrow> 'f handler option" where
  "unset_mode fo UrgencyHints h = Some (h_remove_mode URGENCY_HINTS h)"
| "unset_mode fo (SwapScreen _) h = None"
| "unset_mode fo ShowCursor h = Some (h_remove_mode SHOW_CURSOR h)"
| "unset_mode fo CursorKeys h = Some (h_remove_mode APP_CURSOR h)"
| "unset_mode fo ReportMouseClicks h = Some (h_remove_mode MOUSE_REPORT_CLICK h)"
| "unset_mode fo ReportCellMouseMotion h = Some (h_remove_mode MOUSE_DRAG h)"
| "unset_mode fo ReportAllMouseMotion h = Some (h_remove_mode MOUSE_MOTION h)"
| "unset_mode fo ReportFocusInOut h = Some (h_remove_mode FOCUS_IN_OUT h)"
| "unset_mode fo BracketedPaste h = Some (h_remove_mode BRACKETED_PASTE h)"
| "unset_mode fo SgrMouse h = Some (h_remove_mode SGR_MOUSE h)"
| "unset_mode fo Utf8Mouse h = Some (h_remove_mode UTF8_MOUSE h)"
| "unset_mode fo AlternateScroll h = Some (h_remove_mode ALTERNATE_SCROLL h)"
| "unset_mode fo LineWrap h = Some (h_remove_mode LINE_WRAP h)"
| "unset_mode fo LineFeedNewLine h = Some (h_remove_mode LINE_FEED_NEW_LINE h)"
| "unset_mode fo Origin h = Some (h_remove_mode ORIGIN h)"
| "unset_mode fo DECCOLM h = deccolm fo h"
| "unset_mode fo Insert h = Some (h_remove_mode INSERT h)"
| "unset_mode fo BlinkingCursor h = Some (h\<lparr>h_cursor_blinking := False\<rparr>)"
| "unset_mode fo SyncOutput h = Some h"

definition set_keypad_application_mode :: "'f handler \<Rightarrow> 'f handler" where
  "set_keypad_application_mode h = h_insert_mode APP_KEYPAD h"

definition unset_keypad_application_mode :: "'f handler \<Rightarrow> 'f handler" where
  "unset_keypad_application_mode h = h_remove_mode APP_KEYPAD h"

definition set_active_charset :: "charset_index \<Rightarrow> 'f handler \<Rightarrow> 'f handler" where
  "set_active_charset i h = h\<lparr>h_active_charset := i\<rparr>"

definition configure_charset :: "charset_index \<Rightarrow> standard_charset \<Rightarrow> 'f handler \<Rightarrow> 'f handler" where
  "configure_charset i cs h =
     h\<lparr>h_grid := (h_grid h)\<lparr>g_cursor := (h_cursor h)\<lparr>cur_charsets := (cur_charsets (h_cursor h))(i := cs)\<rparr>\<rparr>\<rparr>"

definition set_cursor_style :: "(cursor_shape \<times> bool) option \<Rightarrow> 'f handler \<Rightarrow> 'f handler" where
  "set_cursor_style style h =
     (case style of
        Some (shape, blinking) \<Rightarrow> h\<lparr>h_cursor_shape := shape, h_cursor_blinking := blinking\<rparr>
      | None \<Rightarrow> h\<lparr>h_cursor_shape := ShapeBlock, h_cursor_blinking := False\<rparr>)"

section \<open>Keyboard modes\<close>

definition KEYBOARD_MODE_STACK_MAX_DEPTH :: nat where "KEYBOARD_MODE_STACK_MAX_DEPTH = 4096"

definition set_keyboard_mode :: "u32 \<Rightarrow> apply_behavior \<Rightarrow> 'f handler \<Rightarrow> 'f handler" where
  "set_keyboard_mode m behavior h =
     (let current = h_keyboard_mode h;
          new_mode = (case behavior of Replace \<Rightarrow> m | Union \<Rightarrow> current OR m
                      | Difference \<Rightarrow> current AND NOT m)
      in h\<lparr>h_keyboard_mode := new_mode,
           h_mode := (h_mode h AND NOT KEYBOARD_PROTOCOL) OR term_mode_from new_mode\<rparr>)"

text \<open>The stack is a bounded deque: pushing on a full one drops its oldest entry.\<close>

definition bounded_push :: "nat \<Rightarrow> 'a \<Rightarrow> 'a list \<Rightarrow> 'a list" where
  "bounded_push cap x xs = (let ys = xs @ [x] in drop (length ys - cap) ys)"

definition push_keyboard_mode :: "u32 \<Rightarrow> 'f handler \<Rightarrow> 'f handler" where
  "push_keyboard_mode m h =
     set_keyboard_mode m Replace
       (h\<lparr>h_keyboard_stack := bounded_push KEYBOARD_MODE_STACK_MAX_DEPTH m (h_keyboard_stack h)\<rparr>)"

definition pop_keyboard_modes :: "nat \<Rightarrow> 'f handler \<Rightarrow> 'f handler" where
  "pop_keyboard_modes count h =
     (let removals = min count (length (h_keyboard_stack h));
          stack = take (length (h_keyboard_stack h) - removals) (h_keyboard_stack h);
          m = (if stack = [] then NO_MODE else last stack)
      in set_keyboard_mode m Replace (h\<lparr>h_keyboard_stack := stack\<rparr>))"

definition reset_keyboard_mode_state :: "'f handler \<Rightarrow> 'f handler" where
  "reset_keyboard_mode_state h = set_keyboard_mode NO_MODE Replace (h\<lparr>h_keyboard_stack := []\<rparr>)"

end
