(* ===== verification/Ansi_Safety.thy ===== *)
theory Ansi_Safety
  imports Ansi_Handler
begin

text \<open>
  The control functions never panic and keep the terminal state well-formed.
  \<open>handler_ok\<close> is the invariant; one lemma per handler method shows that it returns
  and keeps it; the locale \<open>total_machine\<close> lifts this to every sequence of control
  functions.  Functional properties of single methods follow.
\<close>

section \<open>The invariant\<close>

definition handler_ok :: "'f handler \<Rightarrow> bool" where
  "handler_ok h \<longleftrightarrow>
     grid_ok (h_grid h) \<and> 2 \<le> h_columns h \<and> length (h_tabs h) = h_columns h \<and>
     h_region_start h \<le> h_region_end h \<and> h_region_end h \<le> h_visible_rows h \<and> 1 \<le> h_region_end h"

lemma handler_okD:
  assumes "handler_ok h"
  shows "grid_ok (h_grid h)" "buf_ok (h_grid h)" "2 \<le> h_columns h" "length (h_tabs h) = h_columns h"
    "h_region_start h \<le> h_region_end h" "h_region_end h \<le> h_visible_rows h" "1 \<le> h_region_end h"
    "cur_row (h_cursor h) < h_visible_rows h" "cur_col (h_cursor h) < h_columns h"
    "0 < h_visible_rows h"
  using assms by (auto simp: handler_ok_def grid_ok_def cursor_in_def h_columns_def h_visible_rows_def
      buf_ok_def)

lemma handler_ok_new:
  "0 < rows \<Longrightarrow> 2 \<le> columns \<Longrightarrow> handler_ok (handler_new rows columns alt sq fl)"
  using grid_ok_new [of rows columns sq]
  by (simp add: handler_ok_def handler_new_def h_columns_def h_visible_rows_def tabs_new_def grid_new_def)

text \<open>The total, invariant-keeping operations.\<close>

abbreviation safe :: "'f handler option \<Rightarrow> bool" where
  "safe m \<equiv> \<exists>h'. m = Some h' \<and> handler_ok h'"

abbreviation safe2 :: "('f handler \<times> 'a) option \<Rightarrow> bool" where
  "safe2 m \<equiv> \<exists>h' d. m = Some (h', d) \<and> handler_ok h'"

section \<open>Steps that change only the cells\<close>

definition gstep :: "'f handler \<Rightarrow> 'f handler \<Rightarrow> bool" where
  "gstep h h' \<longleftrightarrow>
     (\<exists>g'. h' = h\<lparr>h_grid := g'\<rparr> \<and> buf_ok g' \<and> same_frame (h_grid h) g')"

lemma gstep_ok: "gstep h h' \<Longrightarrow> handler_ok h \<Longrightarrow> handler_ok h'"
  by (auto simp: gstep_def handler_ok_def h_columns_def h_visible_rows_def same_frame_def
      intro!: same_frame_ok [of "h_grid h"])

lemma gstep_simps:
  assumes "gstep h h'"
  shows "h_columns h' = h_columns h" "h_visible_rows h' = h_visible_rows h" "h_cursor h' = h_cursor h"
    "h_mode h' = h_mode h" "h_tabs h' = h_tabs h" "h_active_charset h' = h_active_charset h"
    "h_region_start h' = h_region_start h" "h_region_end h' = h_region_end h"
    "h_supports_emoji h' = h_supports_emoji h" "h_flat h' = h_flat h" "h_is_alt_screen h' = h_is_alt_screen h"
  using assms by (auto simp: gstep_def h_columns_def h_visible_rows_def same_frame_def)

lemma gstep_refl: "handler_ok h \<Longrightarrow> gstep h h"
  using handler_okD(2) [of h] by (auto simp: gstep_def intro!: exI [of _ "h_grid h"])

lemma gstep_trans: "gstep a b \<Longrightarrow> gstep b c \<Longrightarrow> gstep a c"
proof -
  assume "gstep a b" "gstep b c"
  then obtain g1 g2 where "b = a\<lparr>h_grid := g1\<rparr>" "same_frame (h_grid a) g1"
      "c = b\<lparr>h_grid := g2\<rparr>" "buf_ok g2" "same_frame (h_grid b) g2"
    by (auto simp: gstep_def)
  then have "c = a\<lparr>h_grid := g2\<rparr> \<and> buf_ok g2 \<and> same_frame (h_grid a) g2"
    using same_frame_trans by auto
  then show "gstep a c" unfolding gstep_def by blast
qed

text \<open>Sequencing two such steps.\<close>

lemma gstep_bind:
  assumes "\<exists>h1. m = Some h1 \<and> gstep h h1"
    and "\<And>h1. gstep h h1 \<Longrightarrow> \<exists>h2. k h1 = Some h2 \<and> gstep h1 h2"
  shows "\<exists>h2. Option.bind m k = Some h2 \<and> gstep h h2"
  using assms by (fastforce intro: gstep_trans)

lemma grid_cursor_row_eq: "handler_ok h \<Longrightarrow> grid_cursor_row h = Some (cur_row (h_cursor h))"
  using buf_ok_simps(6) [OF handler_okD(2) [of h]] by (simp add: grid_cursor_row_def)

lemma h_mut_row_eq:
  assumes "handler_ok h" "i < h_visible_rows h" "f (grid_rows (h_grid h) ! i) = Some r"
    "row_ok (h_columns h) r"
  shows "\<exists>h'. h_mut_row i f h = Some h' \<and> gstep h h' \<and>
              grid_rows (h_grid h') = (grid_rows (h_grid h))[i := r]"
proof -
  have b: "buf_ok (h_grid h)" using handler_okD(2) [OF assms(1)] .
  obtain g' where g': "g_mut i f (h_grid h) = Some g'" "buf_ok g'" "same_frame (h_grid h) g'"
      "grid_rows g' = (grid_rows (h_grid h))[i := r]"
    using g_mut_eq [where f = f, OF b] assms(2-4) by (auto simp: h_visible_rows_def h_columns_def)
  have "h_mut_row i f h = Some (h\<lparr>h_grid := g'\<rparr>)"
    using g'(1) sto_mut_visible_eq [OF buf_ok_sto [OF b]]
    by (simp add: h_mut_row_def on_grid_def g_mut_def)
  then show ?thesis using g' by (auto simp: gstep_def)
qed

lemma h_mut_row_step:
  assumes "handler_ok h" "i < h_visible_rows h"
    "\<And>r. row_ok (h_columns h) r \<Longrightarrow> \<exists>r'. f r = Some r' \<and> row_ok (h_columns h) r'"
  shows "\<exists>h'. h_mut_row i f h = Some h' \<and> gstep h h'"
proof -
  have "row_ok (h_columns h) (grid_rows (h_grid h) ! i)"
    using grid_row_ok [OF handler_okD(2) [OF assms(1)]] assms(2)
    by (simp add: h_visible_rows_def h_columns_def)
  then obtain r where "f (grid_rows (h_grid h) ! i) = Some r" "row_ok (h_columns h) r"
    using assms(3) by blast
  then show ?thesis using h_mut_row_eq [where f = f, OF assms(1,2)] by blast
qed

lemma h_cell_eq:
  assumes "handler_ok h" "i < h_visible_rows h" "j < h_columns h"
  shows "h_cell i j h = Some (row_inner (grid_rows (h_grid h) ! i) ! j)"
proof -
  have b: "buf_ok (h_grid h)" using handler_okD(2) [OF assms(1)] .
  have "row_ok (h_columns h) (grid_rows (h_grid h) ! i)"
    using grid_row_ok [OF b] assms(2) by (simp add: h_visible_rows_def h_columns_def)
  then show ?thesis
    using sto_get_eq [OF buf_ok_sto [OF b], of i] assms(2,3)
    by (simp add: h_cell_def h_visible_rows_def vec_get_def row_ok_def row_len_def grid_rows_def)
qed

lemma on_grid_step:
  assumes "\<exists>g'. f (h_grid h) = Some g' \<and> buf_ok g' \<and> same_frame (h_grid h) g'"
  shows "\<exists>h'. on_grid f h = Some h' \<and> gstep h h'"
  using assms by (auto simp: on_grid_def gstep_def)

lemma cursor_cell_step:
  assumes "handler_ok h"
  shows "\<exists>h'. on_grid (g_cursor_cell f) h = Some h' \<and> gstep h h'"
  using g_cursor_cell_eq [OF handler_okD(2) [OF assms], of f] handler_okD(1) [OF assms]
  by (intro on_grid_step) (auto simp: grid_ok_def)

lemma length_set_pair: "i < length xs \<Longrightarrow> j < length xs \<Longrightarrow> \<exists>ys. set_pair i j c xs = Some ys \<and> length ys = length xs"
  by (simp add: set_pair_def vec_set_def)

lemma wide_start_cells_len:
  assumes "col < length xs" "num_cols \<le> length xs"
  shows "\<exists>ys. wide_start_cells num_cols col bg xs = Some ys \<and> length ys = length xs"
  using assms by (auto simp: wide_start_cells_def vec_get_def set_pair_def vec_set_def)

lemma wide_end_cells_len:
  assumes "col < length xs"
  shows "\<exists>ys. wide_end_cells col bg xs = Some ys \<and> length ys = length xs"
  using assms by (auto simp: wide_end_cells_def vec_get_def set_pair_def vec_set_def)

lemma slice_step:
  assumes "handler_ok h" "row < h_visible_rows h"
    "\<And>xs. length xs = h_columns h \<Longrightarrow> \<exists>ys. f xs = Some ys \<and> length ys = length xs"
  shows "\<exists>h'. h_mut_row row (row_mut_slice f) h = Some h' \<and> gstep h h'"
proof (rule h_mut_row_step [OF assms(1,2)])
  fix r assume r: "row_ok (h_columns h) r"
  then have "length (row_inner r) = h_columns h" by (simp add: row_ok_def row_len_def)
  from assms(3) [OF this] show "\<exists>r'. row_mut_slice f r = Some r' \<and> row_ok (h_columns h) r'"
    by (intro row_mut_slice_ok [OF r]) (simp add: row_len_def)
qed

lemma wide_start_step:
  assumes "handler_ok h" "row < h_visible_rows h" "col < h_columns h"
  shows "\<exists>h'. reset_wide_char_at_start_boundary row col bg h = Some h' \<and> gstep h h'"
  unfolding reset_wide_char_at_start_boundary_def
  by (rule slice_step [OF assms(1,2)], rule wide_start_cells_len) (use assms(3) in simp_all)

lemma wide_end_step:
  assumes "handler_ok h" "row < h_visible_rows h" "col < h_columns h"
  shows "\<exists>h'. reset_wide_char_at_end_boundary row col bg h = Some h' \<and> gstep h h'"
  unfolding reset_wide_char_at_end_boundary_def
  by (rule slice_step [OF assms(1,2)], rule wide_end_cells_len) (use assms(3) in simp_all)

lemma row_mut_at_step:
  assumes "handler_ok h" "row < h_visible_rows h" "col < h_columns h"
  shows "\<exists>h'. h_mut_row row (row_mut_at col f) h = Some h' \<and> gstep h h'"
  by (rule h_mut_row_step [OF assms(1,2)]) (use row_mut_at_ok assms(3) in blast)

text \<open>A loop of in-range swaps keeps the length.\<close>

lemma swap_loop_len:
  assumes "\<forall>k\<in>set ks. i k < length xs \<and> j k < length xs"
  shows "\<exists>ys. fold_m (\<lambda>k xs. vec_swap xs (i k) (j k)) ks xs = Some ys \<and> length ys = length xs"
  by (rule fold_m_inv) (use assms in \<open>auto simp: vec_swap_def\<close>)

section \<open>Steps that move the cursor\<close>

lemma update_dirty_simps [simp]:
  "h_grid (update_dirty_cells_range fo h) = h_grid h" "h_mode (update_dirty_cells_range fo h) = h_mode h"
  "h_tabs (update_dirty_cells_range fo h) = h_tabs h" "h_flat (update_dirty_cells_range fo h) = h_flat h"
  "h_region_start (update_dirty_cells_range fo h) = h_region_start h"
  "h_region_end (update_dirty_cells_range fo h) = h_region_end h"
  "h_columns (update_dirty_cells_range fo h) = h_columns h"
  "h_visible_rows (update_dirty_cells_range fo h) = h_visible_rows h"
  "h_is_alt_screen (update_dirty_cells_range fo h) = h_is_alt_screen h"
  by (simp_all add: update_dirty_cells_range_def update_find_dirty_rows_range_def Let_def
      h_columns_def h_visible_rows_def)

lemma update_dirty_ok [simp]: "handler_ok (update_dirty_cells_range fo h) = handler_ok h"
  by (simp add: handler_ok_def)

lemma update_cursor_simps [simp]:
  "h_cursor (update_cursor fo f h) = f (h_cursor h)" "h_mode (update_cursor fo f h) = h_mode h"
  "h_columns (update_cursor fo f h) = h_columns h"
  "h_visible_rows (update_cursor fo f h) = h_visible_rows h"
  "h_tabs (update_cursor fo f h) = h_tabs h"
  "h_region_start (update_cursor fo f h) = h_region_start h"
  "h_region_end (update_cursor fo f h) = h_region_end h"
  "grid_rows (h_grid (update_cursor fo f h)) = grid_rows (h_grid h)"
  by (simp_all add: update_cursor_def Let_def h_columns_def h_visible_rows_def grid_rows_def)

lemma update_cursor_ok:
  assumes "handler_ok h" "cur_row (f (h_cursor h)) < h_visible_rows h" "cur_col (f (h_cursor h)) < h_columns h"
  shows "handler_ok (update_cursor fo f h)"
proof -
  have g: "grid_ok (g_update_max_cursor (h_grid h))"
    using g_update_max_cursor_ok handler_okD(1) [OF assms(1)] .
  then have "grid_ok (h_grid (update_cursor fo f h))"
    using assms(2,3)
    by (simp add: update_cursor_def Let_def grid_ok_def buf_ok_def cursor_in_def h_columns_def h_visible_rows_def)
  then show ?thesis using assms(1) by (simp add: handler_ok_def)
qed

lemma move_cursor_forward_simps [simp]:
  "h_cursor (move_cursor_forward f h) = f (h_cursor h)" "h_mode (move_cursor_forward f h) = h_mode h"
  "h_columns (move_cursor_forward f h) = h_columns h"
  "h_visible_rows (move_cursor_forward f h) = h_visible_rows h"
  "h_tabs (move_cursor_forward f h) = h_tabs h"
  "h_region_start (move_cursor_forward f h) = h_region_start h"
  "h_region_end (move_cursor_forward f h) = h_region_end h"
  "grid_rows (h_grid (move_cursor_forward f h)) = grid_rows (h_grid h)"
  by (simp_all add: move_cursor_forward_def h_columns_def h_visible_rows_def grid_rows_def)

lemma move_cursor_forward_ok:
  assumes "handler_ok h" "cur_row (f (h_cursor h)) < h_visible_rows h" "cur_col (f (h_cursor h)) < h_columns h"
  shows "handler_ok (move_cursor_forward f h)"
proof -
  have "grid_ok (h_grid (move_cursor_forward f h))"
    using handler_okD(1) [OF assms(1)] assms(2,3)
    by (simp add: move_cursor_forward_def grid_ok_def buf_ok_def cursor_in_def h_columns_def h_visible_rows_def)
  then show ?thesis using assms(1) by (simp add: handler_ok_def)
qed

lemma advance_ok: "handler_ok h \<Longrightarrow> handler_ok (advance_cursor_by_one_cell h)"
  unfolding advance_cursor_by_one_cell_def
  by (rule move_cursor_forward_ok) (auto dest: handler_okD(8,9))

section \<open>Writing\<close>

lemma set_two_cells_step:
  assumes "handler_ok h" "row < h_visible_rows h" "i < h_columns h" "j < h_columns h"
  shows "\<exists>h2. do { h' \<leftarrow> h_mut_row row (row_mut_at i f) h; h_mut_row row (row_mut_at j f) h' } = Some h2
              \<and> gstep h h2"
proof (rule gstep_bind [OF row_mut_at_step [OF assms(1-3)]])
  fix h1 assume h1: "gstep h h1"
  show "\<exists>h2. h_mut_row row (row_mut_at j f) h1 = Some h2 \<and> gstep h1 h2"
    using row_mut_at_step [OF gstep_ok [OF h1 assms(1)], of row j f] gstep_simps(1,2) [OF h1] assms(2,4)
    by simp
qed

lemma unlink_wide_char_step:
  assumes ok: "handler_ok h" and row: "row < h_visible_rows h" and col: "col < h_columns h"
  shows "\<exists>h'. unlink_wide_char row col flags h = Some h' \<and> gstep h h'"
proof (cases "bf_intersects flags (WIDE_CHAR OR WIDE_CHAR_SPACER)")
  case True
  have lead: "\<exists>h0. (if P then h_mut_row (row - 1) (row_mut_at (h_columns h - 1) f) h else Some h) = Some h0
                    \<and> gstep h h0" for P f
    using row_mut_at_step [OF ok, of "row - 1" "h_columns h - 1" f] row col gstep_refl [OF ok] by auto
  show ?thesis
    unfolding unlink_wide_char_def if_P [OF True] Let_def
  proof (rule gstep_bind [OF lead])
    fix h0 assume h0: "gstep h h0"
    note ok0 = gstep_ok [OF h0 ok]
    have rc: "row < h_visible_rows h0" "col < h_columns h0" using row col gstep_simps [OF h0] by auto
    show "\<exists>h2. (if bf_contains flags WIDE_CHAR_SPACER \<and> col > 0 then do {
          h' \<leftarrow> h_mut_row row (row_mut_at col (\<lambda>_. cell_from (c_bg (cur_template (h_cursor h))))) h0;
          h_mut_row row (row_mut_at (col - 1) (\<lambda>_. cell_from (c_bg (cur_template (h_cursor h))))) h'
        } else if bf_contains flags WIDE_CHAR \<and> col + 1 < h_columns h then do {
          h' \<leftarrow> h_mut_row row (row_mut_at col (\<lambda>_. cell_from (c_bg (cur_template (h_cursor h))))) h0;
          h_mut_row row (row_mut_at (col + 1) (\<lambda>_. cell_from (c_bg (cur_template (h_cursor h))))) h'
        } else Some h0) = Some h2 \<and> gstep h0 h2"
      using set_two_cells_step [OF ok0 rc] gstep_refl [OF ok0] gstep_simps(1) [OF h0] col
      by (simp split: if_split)
  qed
qed (use gstep_refl [OF ok] in \<open>simp add: unlink_wide_char_def\<close>)

lemma write_at_cursor_step:
  assumes ok: "handler_ok h"
  shows "\<exists>h'. write_at_cursor ch post h = Some h' \<and> gstep h h'"
proof -
  note b = handler_okD [OF ok]
  obtain cell where cell: "h_cell (cur_row (h_cursor h)) (cur_col (h_cursor h)) h = Some cell"
    using h_cell_eq [OF ok b(8,9)] by blast
  have "\<exists>h2. on_grid (g_cursor_cell f) h1 = Some h2 \<and> gstep h1 h2" if "gstep h h1" for h1 f
    using cursor_cell_step [OF gstep_ok [OF that ok]] .
  then show ?thesis
    unfolding write_at_cursor_def grid_cursor_row_eq [OF ok] Let_def bind.bind_lunit cell
    by (intro gstep_bind [OF unlink_wide_char_step [OF ok b(8,9)]]) blast
qed

section \<open>Scrolling and wrapping\<close>

text \<open>What a step keeps besides well-formedness.\<close>

definition keeps :: "'f handler \<Rightarrow> 'f handler \<Rightarrow> bool" where
  "keeps h h' \<longleftrightarrow>
     handler_ok h' \<and> h_columns h' = h_columns h \<and> h_visible_rows h' = h_visible_rows h \<and>
     h_mode h' = h_mode h \<and> h_region_start h' = h_region_start h \<and> h_region_end h' = h_region_end h \<and>
     h_tabs h' = h_tabs h"

lemma keeps_refl: "handler_ok h \<Longrightarrow> keeps h h"
  by (simp add: keeps_def)

lemma keeps_trans: "keeps a b \<Longrightarrow> keeps b c \<Longrightarrow> keeps a c"
  by (simp add: keeps_def)

lemma keeps_ok: "keeps h h' \<Longrightarrow> handler_ok h'"
  by (simp add: keeps_def)

lemma gstep_keeps: "handler_ok h \<Longrightarrow> gstep h h' \<Longrightarrow> keeps h h'"
  by (simp add: keeps_def gstep_ok gstep_simps)

lemma push_rows_loop:
  assumes "\<forall>i\<in>set ixs. i < h_visible_rows h" "handler_ok h"
  shows "fold_m (\<lambda>i h. do { r \<leftarrow> g_get_visible i (h_grid h);
                             Some (h\<lparr>h_flat := fo_push_row fo r (h_flat h)\<rparr>) }) ixs h =
         Some (h\<lparr>h_flat := fold (fo_push_row fo) (map ((!) (grid_rows (h_grid h))) ixs) (h_flat h)\<rparr>)"
  using assms
proof (induction ixs arbitrary: h)
  case (Cons i ixs)
  let ?h = "h\<lparr>h_flat := fo_push_row fo (grid_rows (h_grid h) ! i) (h_flat h)\<rparr>"
  have "handler_ok ?h"
    using Cons.prems(2) by (simp add: handler_ok_def h_columns_def h_visible_rows_def)
  moreover have "\<forall>i\<in>set ixs. i < h_visible_rows ?h"
    using Cons.prems(1) by (simp add: h_visible_rows_def)
  moreover have "g_get_visible i (h_grid h) = Some (grid_rows (h_grid h) ! i)"
    using g_get_visible_eq [OF handler_okD(2) [OF Cons.prems(2)]] Cons.prems(1)
    by (simp add: h_visible_rows_def)
  ultimately show ?case using Cons.IH [of ?h] by simp
qed simp

text \<open>The rows that scrolling a region of the main screen moves into the scrollback.\<close>

definition scrolled_out :: "nat \<Rightarrow> nat \<Rightarrow> nat \<Rightarrow> 'f handler \<Rightarrow> row list" where
  "scrolled_out a b n h =
     (if h_is_alt_screen h then [] else take (min n (b - a)) (drop a (grid_rows (h_grid h))))"

lemma scroll_region_up_eq:
  assumes ok: "handler_ok h" and a: "a \<le> b" "b \<le> h_visible_rows h" "a \<noteq> 0 \<or> n \<le> b"
  shows "\<exists>h'. scroll_region_up fo a b n h = Some h' \<and> keeps h h' \<and> h_cursor h' = h_cursor h \<and>
     h_is_alt_screen h' = h_is_alt_screen h \<and>
     h_flat h' = fold (fo_push_row fo) (scrolled_out a b n h) (h_flat h) \<and>
     grid_rows (h_grid h') = scroll_up_rows a b n
        (row_blank (h_columns h) (c_bg (cur_template (h_cursor h)))) (grid_rows (h_grid h))"
proof -
  define fl where "fl = fold (fo_push_row fo) (scrolled_out a b n h) (h_flat h)"
  have "b \<le> length (grid_rows (h_grid h))"
    using a(2) buf_ok_simps(7) [OF handler_okD(2) [OF ok]] by (simp add: h_visible_rows_def)
  then have "map ((!) (grid_rows (h_grid h))) [a..<min b (a + n)] = take (min n (b - a)) (drop a (grid_rows (h_grid h)))"
    using a(1) by (intro nth_equalityI) (auto simp: min_def split: if_splits)
  then have fl: "(if h_is_alt_screen h then Some h
           else fold_m (\<lambda>i h. do { r \<leftarrow> g_get_visible i (h_grid h);
                                   Some (h\<lparr>h_flat := fo_push_row fo r (h_flat h)\<rparr>) })
                  [a..<min b (a + n)] h) = Some (h\<lparr>h_flat := fl\<rparr>)"
    using push_rows_loop [of "[a..<min b (a + n)]" h fo] ok a(2) by (simp add: fl_def scrolled_out_def)
  obtain g' where g': "g_scroll_up a b n (h_grid h) = Some g'" "buf_ok g'" "same_frame (h_grid h) g'"
      "grid_rows g' = scroll_up_rows a b n
        (row_blank (h_columns h) (c_bg (cur_template (h_cursor h)))) (grid_rows (h_grid h))"
    using g_scroll_up_eq [OF handler_okD(2) [OF ok], of a b n] a by (auto simp: h_visible_rows_def h_columns_def)
  have "scroll_region_up fo a b n h =
          Some (update_dirty_cells_range fo (h\<lparr>h_flat := fl, h_grid := g'\<rparr>))"
    using fl g'(1) by (simp add: scroll_region_up_def on_grid_def)
  moreover have "keeps h (h\<lparr>h_flat := fl, h_grid := g'\<rparr>)"
    using ok g'(2,3) same_frame_ok [OF g'(3) handler_okD(1) [OF ok] g'(2)]
    by (simp add: keeps_def handler_ok_def h_columns_def h_visible_rows_def same_frame_def)
  ultimately show ?thesis using g'(3,4) by (simp add: keeps_def same_frame_def fl_def)
qed

lemma scroll_up_relative_eq:
  assumes ok: "handler_ok h" and o: "origin \<le> h_region_end h"
  shows "\<exists>h'. scroll_up_relative fo origin n h = Some (h', ScrollUp (min n (h_region_end h - h_region_start h)))
     \<and> keeps h h' \<and> h_cursor h' = h_cursor h \<and>
     grid_rows (h_grid h') = scroll_up_rows origin (h_region_end h) (min n (h_region_end h - h_region_start h))
        (row_blank (h_columns h) (c_bg (cur_template (h_cursor h)))) (grid_rows (h_grid h))"
proof -
  note b = handler_okD [OF ok]
  obtain h' where "scroll_region_up fo origin (h_region_end h) (min n (h_region_end h - h_region_start h)) h = Some h'"
      "keeps h h'" "h_cursor h' = h_cursor h"
      "grid_rows (h_grid h') = scroll_up_rows origin (h_region_end h) (min n (h_region_end h - h_region_start h))
        (row_blank (h_columns h) (c_bg (cur_template (h_cursor h)))) (grid_rows (h_grid h))"
  proof -
    have "origin \<noteq> 0 \<or> min n (h_region_end h - h_region_start h) \<le> h_region_end h" by auto
    from scroll_region_up_eq [OF ok o b(6) this] that show thesis by blast
  qed
  then show ?thesis using b(5) by (simp add: scroll_up_relative_def checked_sub_def)
qed

lemma scroll_down_relative_eq:
  assumes ok: "handler_ok h" and o: "origin \<le> h_region_end h"
  shows "\<exists>h' n'. scroll_down_relative origin n h = Some (h', ScrollDown n') \<and> keeps h h' \<and>
     h_cursor h' = h_cursor h \<and> n' = min (min n (h_region_end h - h_region_start h)) (h_region_end h - origin) \<and>
     grid_rows (h_grid h') = scroll_down_rows origin (h_region_end h) n'
        (row_blank (h_columns h) (c_bg (cur_template (h_cursor h)))) (grid_rows (h_grid h))"
proof -
  note b = handler_okD [OF ok]
  define n' where "n' = min (min n (h_region_end h - h_region_start h)) (h_region_end h - origin)"
  obtain g' where g': "g_scroll_down origin (h_region_end h) n' (h_grid h) = Some g'" "buf_ok g'"
      "same_frame (h_grid h) g'"
      "grid_rows g' = scroll_down_rows origin (h_region_end h) n'
        (row_blank (h_columns h) (c_bg (cur_template (h_cursor h)))) (grid_rows (h_grid h))"
    using g_scroll_down_eq [OF b(2) o, of n'] b(6) by (auto simp: h_visible_rows_def h_columns_def)
  have "gstep h (h\<lparr>h_grid := g'\<rparr>)" using g'(2,3) by (auto simp: gstep_def)
  from gstep_keeps [OF ok this] gstep_simps(3) [OF this] show ?thesis
    using g'(1,4) b(5) o
    by (simp add: scroll_down_relative_def checked_sub_def on_grid_def n'_def [symmetric])
qed

lemma linefeed_keeps:
  assumes ok: "handler_ok h"
  shows "\<exists>h' d. linefeed fo h = Some (h', d) \<and> keeps h h' \<and> cur_col (h_cursor h') = cur_col (h_cursor h)"
proof (cases "cur_row (h_cursor h) + 1 = h_region_end h")
  case True
  obtain h' d where "scroll_up_relative fo (h_region_start h) 1 h = Some (h', d)" "keeps h h'"
      "h_cursor h' = h_cursor h"
    using scroll_up_relative_eq [OF ok handler_okD(5) [OF ok], of fo 1] by blast
  then show ?thesis using True by (simp add: linefeed_def scroll_up_def)
next
  case False
  have "handler_ok (move_cursor_forward (\<lambda>c. c\<lparr>cur_row := cur_row c + 1\<rparr>) h)"
    if "cur_row (h_cursor h) + 1 < h_visible_rows h"
    by (rule move_cursor_forward_ok [OF ok]) (use that handler_okD(9) [OF ok] in simp_all)
  then show ?thesis using False ok by (auto simp: linefeed_def Let_def keeps_def)
qed

lemma wrapline_keeps:
  assumes ok: "handler_ok h"
  shows "\<exists>h'. wrapline fo h = Some h' \<and> keeps h h' \<and>
              (bf_contains (h_mode h) LINE_WRAP \<longrightarrow> cur_col (h_cursor h') = 0)"
proof (cases "bf_contains (h_mode h) LINE_WRAP")
  case True
  obtain h1 where h1: "on_grid (g_cursor_cell (\<lambda>c. c\<lparr>c_flags := bf_insert (c_flags c) WRAPLINE\<rparr>)) h = Some h1"
      "gstep h h1"
    using cursor_cell_step [OF ok] by blast
  note ok1 = gstep_ok [OF h1(2) ok] and s1 = gstep_simps [OF h1(2)]
  have "\<exists>h2. (if cur_row (h_cursor h1) + 1 \<ge> h_region_end h1
              then do { (h', _) \<leftarrow> linefeed fo h1; Some h' }
              else Some (move_cursor_forward (\<lambda>c. c\<lparr>cur_row := cur_row c + 1\<rparr>) h1)) = Some h2 \<and> keeps h1 h2"
  proof (cases "cur_row (h_cursor h1) + 1 \<ge> h_region_end h1")
    case True then show ?thesis using linefeed_keeps [OF ok1, of fo] by auto
  next
    case False
    then have "handler_ok (move_cursor_forward (\<lambda>c. c\<lparr>cur_row := cur_row c + 1\<rparr>) h1)"
      using handler_okD [OF ok1] by (intro move_cursor_forward_ok [OF ok1]) simp_all
    then show ?thesis using False by (simp add: keeps_def)
  qed
  then obtain h2 where h2: "(if cur_row (h_cursor h1) + 1 \<ge> h_region_end h1
              then do { (h', _) \<leftarrow> linefeed fo h1; Some h' }
              else Some (move_cursor_forward (\<lambda>c. c\<lparr>cur_row := cur_row c + 1\<rparr>) h1)) = Some h2" "keeps h1 h2"
    by blast
  let ?h3 = "move_cursor_forward (\<lambda>c. c\<lparr>cur_col := 0, cur_input_needs_wrap := False\<rparr>) h2"
  have "handler_ok ?h3"
    using handler_okD [OF keeps_ok [OF h2(2)]] by (intro move_cursor_forward_ok [OF keeps_ok [OF h2(2)]]) simp_all
  then have "keeps h ?h3"
    using h2(2) s1 by (simp add: keeps_def)
  moreover have "wrapline fo h = Some ?h3"
    using True h1(1) h2(1) by (simp add: wrapline_def)
  ultimately show ?thesis by simp
qed (use keeps_refl [OF ok] in \<open>simp add: wrapline_def\<close>)

section \<open>Input\<close>

lemma gstep_keeps_ex: "handler_ok h \<Longrightarrow> \<exists>h'. m = Some h' \<and> gstep h h' \<Longrightarrow> \<exists>h'. m = Some h' \<and> keeps h h'"
  using gstep_keeps by blast

lemma keeps_bind:
  assumes "\<exists>h1. m = Some h1 \<and> keeps h h1"
    and "\<And>h1. keeps h h1 \<Longrightarrow> \<exists>h2. k h1 = Some h2 \<and> keeps h1 h2"
  shows "\<exists>h2. Option.bind m k = Some h2 \<and> keeps h h2"
  using assms by (fastforce intro: keeps_trans)

lemma keeps_advance: "handler_ok h \<Longrightarrow> keeps h (advance_cursor_by_one_cell h)"
  using advance_ok [of h] by (simp add: keeps_def advance_cursor_by_one_cell_def)

lemma write_advance_keeps:
  assumes "handler_ok h"
  shows "\<exists>h'. do { h3 \<leftarrow> write_at_cursor ch post h; Some (advance_cursor_by_one_cell h3) } = Some h' \<and> keeps h h'"
  by (rule keeps_bind [OF gstep_keeps_ex [OF assms write_at_cursor_step [OF assms]]])
     (auto dest: keeps_ok intro: keeps_advance)

lemma input_zero_width_keeps:
  assumes ok: "handler_ok h"
  shows "\<exists>h'. input_zero_width str_width ch h = Some h' \<and> keeps h h'"
proof -
  note b = handler_okD [OF ok]
  let ?row = "cur_row (h_cursor h)"
  define col0 where "col0 = (if cur_input_needs_wrap (h_cursor h) then cur_col (h_cursor h)
                             else cur_col (h_cursor h) - 1)"
  have c0: "col0 < h_columns h" using b(9) by (auto simp: col0_def)
  obtain c where c: "h_cell ?row col0 h = Some c" using h_cell_eq [OF ok b(8) c0] by blast
  define col where "col = (if bf_contains (c_flags c) WIDE_CHAR_SPACER then col0 - 1 else col0)"
  have cc: "col < h_columns h" using c0 by (auto simp: col_def)
  obtain h1 where h1: "h_mut_row ?row (row_mut_at col (push_zerowidth ch)) h = Some h1" "gstep h h1"
    using row_mut_at_step [OF ok b(8) cc] by blast
  note ok1 = gstep_ok [OF h1(2) ok] and s1 = gstep_simps [OF h1(2)]
  have rc1: "?row < h_visible_rows h1" "col < h_columns h1" using b(8) cc s1 by auto
  obtain c1 where c1: "h_cell ?row col h1 = Some c1" using h_cell_eq [OF ok1 rc1] by blast
  obtain h2 where h2: "h_mut_row ?row (row_mut_at col (insert_flag WIDE_CHAR)) h1 = Some h2" "gstep h1 h2"
    using row_mut_at_step [OF ok1 rc1] by blast
  obtain h3 where h3: "do { h3 \<leftarrow> write_at_cursor DEFAULT_CHAR (insert_flag WIDE_CHAR_SPACER) h2;
       Some (advance_cursor_by_one_cell h3) } = Some h3" "keeps h2 h3"
    using write_advance_keeps [OF gstep_ok [OF h2(2) ok1]] by blast
  have "input_zero_width str_width ch h =
          (if str_width (raw_content c1) = 2 \<and> h_supports_emoji h1 then Some h3 else Some h1)"
    unfolding input_zero_width_def grid_cursor_row_eq [OF ok] col0_def [symmetric] Let_def
      bind.bind_lunit c col_def [symmetric] h1(1) c1 h2(1) h3(1) ..
  moreover have "keeps h h1" "keeps h h3"
    using gstep_keeps [OF ok h1(2)] gstep_keeps [OF ok1 h2(2)] h3(2) keeps_trans by blast+
  ultimately show ?thesis by auto
qed

text \<open>The frame of the row editors: unlink wide characters at both boundaries, then edit
  the cursor's row.\<close>

lemma bounded_edit_step:
  assumes ok: "handler_ok h" and row: "row < h_visible_rows h" and s: "s < h_columns h"
    and e: "P \<Longrightarrow> e < h_columns h"
    and edit: "\<And>h2. gstep h h2 \<Longrightarrow> \<exists>h3. E h2 = Some h3 \<and> gstep h2 h3"
  shows "\<exists>h'. do { h1 \<leftarrow> reset_wide_char_at_start_boundary row s bg h;
                   h2 \<leftarrow> (if P then reset_wide_char_at_end_boundary row e bg h1 else Some h1);
                   E h2 } = Some h' \<and> gstep h h'"
proof (rule gstep_bind [OF wide_start_step [OF ok row s]], rule gstep_bind)
  fix h1 assume h1: "gstep h h1"
  note ok1 = gstep_ok [OF h1 ok] and s1 = gstep_simps [OF h1]
  show "\<exists>h2. (if P then reset_wide_char_at_end_boundary row e bg h1 else Some h1) = Some h2 \<and> gstep h1 h2"
    using wide_end_step [OF ok1, of row e bg] row e s1 gstep_refl [OF ok1] by auto
next
  fix h1 h2 assume "gstep h h1" "gstep h1 h2"
  then show "\<exists>h3. E h2 = Some h3 \<and> gstep h2 h3" using edit gstep_trans by blast
qed

lemma slice_edit_step:
  assumes "handler_ok h" "row < h_visible_rows h"
    "\<And>xs. length xs = h_columns h \<Longrightarrow> \<exists>ys. f xs = Some ys \<and> length ys = length xs"
    "gstep h h2"
  shows "\<exists>h3. h_mut_row row (row_mut_slice f) h2 = Some h3 \<and> gstep h2 h3"
  using slice_step [OF gstep_ok [OF assms(4,1)], of row f] assms(2,3) gstep_simps(1,2) [OF assms(4)]
  by simp

lemma input_insert_shift_step:
  assumes ok: "handler_ok h" and w: "0 < width"
  shows "\<exists>h'. input_insert_shift width h = Some h' \<and> gstep h h'"
proof (cases "bf_contains (h_mode h) INSERT \<and> cur_col (h_cursor h) + width < h_columns h")
  case True
  note b = handler_okD [OF ok]
  let ?row = "cur_row (h_cursor h)" and ?col = "cur_col (h_cursor h)" and ?n = "h_columns h"
  let ?f = "fold_m (\<lambda>j xs. vec_swap xs (j + width) j) (rev [?col..<?n - width])"
  have f: "\<exists>ys. ?f xs = Some ys \<and> length ys = length xs" if "length xs = ?n" for xs
    by (rule swap_loop_len [where i = "\<lambda>j. j + width" and j = "\<lambda>j. j"]) (use that in auto)
  have "\<exists>h'. do { h1 \<leftarrow> reset_wide_char_at_start_boundary ?row ?col (c_bg (cur_template (h_cursor h))) h;
                  h2 \<leftarrow> (if True then reset_wide_char_at_end_boundary ?row (?n - width)
                                        (c_bg (cur_template (h_cursor h))) h1 else Some h1);
                  h_mut_row ?row (row_mut_slice ?f) h2 } = Some h' \<and> gstep h h'"
    by (rule bounded_edit_step [OF ok b(8,9)]) (use w True slice_edit_step [OF ok b(8) f] in auto)
  then show ?thesis
    using True by (simp add: input_insert_shift_def grid_cursor_row_eq [OF ok] Let_def)
qed (use gstep_refl [OF ok] in \<open>auto simp: input_insert_shift_def Let_def\<close>)

lemma wide_write_keeps:
  assumes ok: "handler_ok h" and c: "cur_col (h_cursor h) + 1 < h_columns h"
  shows "\<exists>h'. do { h4 \<leftarrow> write_at_cursor ch (insert_flag WIDE_CHAR) h;
              let h5 = move_cursor_forward (\<lambda>c. c\<lparr>cur_col := cur_col c + 1\<rparr>) h4;
              h6 \<leftarrow> write_at_cursor DEFAULT_CHAR (insert_flag WIDE_CHAR_SPACER) h5;
              Some (advance_cursor_by_one_cell h6) } = Some h' \<and> keeps h h'"
proof -
  obtain h4 where h4: "write_at_cursor ch (insert_flag WIDE_CHAR) h = Some h4" "gstep h h4"
    using write_at_cursor_step [OF ok] by blast
  note ok4 = gstep_ok [OF h4(2) ok] and s4 = gstep_simps [OF h4(2)]
  let ?h5 = "move_cursor_forward (\<lambda>c. c\<lparr>cur_col := cur_col c + 1\<rparr>) h4"
  have k5: "keeps h ?h5"
    using move_cursor_forward_ok [OF ok4, of "\<lambda>c. c\<lparr>cur_col := cur_col c + 1\<rparr>"] handler_okD(8) [OF ok4] c s4
    by (simp add: keeps_def)
  show ?thesis
    using write_advance_keeps [OF keeps_ok [OF k5]] h4(1) keeps_trans [OF k5] by fastforce
qed

lemma wide_wrap_keeps:
  assumes ok: "handler_ok h" and m: "bf_contains (h_mode h) LINE_WRAP"
  shows "\<exists>h'. do { h' \<leftarrow> write_at_cursor DEFAULT_CHAR (insert_flag LEADING_WIDE_CHAR_SPACER) h;
                   wrapline fo h' } = Some h' \<and> keeps h h' \<and> cur_col (h_cursor h') + 1 < h_columns h'"
proof -
  obtain ha where ha: "write_at_cursor DEFAULT_CHAR (insert_flag LEADING_WIDE_CHAR_SPACER) h = Some ha" "gstep h ha"
    using write_at_cursor_step [OF ok] by blast
  note oka = gstep_ok [OF ha(2) ok]
  obtain hb where hb: "wrapline fo ha = Some hb" "keeps ha hb" "cur_col (h_cursor hb) = 0"
    using wrapline_keeps [OF oka, of fo] m gstep_simps(4) [OF ha(2)] by auto
  have "cur_col (h_cursor hb) + 1 < h_columns hb"
    using hb(3) handler_okD(3) [OF keeps_ok [OF hb(2)]] by simp
  then show ?thesis using ha(1) hb(1) keeps_trans [OF gstep_keeps [OF ok ha(2)] hb(2)] by auto
qed

lemma input_glyph_keeps:
  assumes ok: "handler_ok h"
  shows "\<exists>h'. (if width = 1 then do { h3 \<leftarrow> write_at_cursor ch id h; Some (advance_cursor_by_one_cell h3) }
            else if cur_col (h_cursor h) + 1 \<ge> h_columns h \<and> \<not> bf_contains (h_mode h) LINE_WRAP
            then Some (move_cursor_forward (\<lambda>c. c\<lparr>cur_input_needs_wrap := True\<rparr>) h)
            else do {
              h3 \<leftarrow> (if cur_col (h_cursor h) + 1 \<ge> h_columns h then do {
                      h' \<leftarrow> write_at_cursor DEFAULT_CHAR (insert_flag LEADING_WIDE_CHAR_SPACER) h;
                      wrapline fo h'
                    } else Some h);
              h4 \<leftarrow> write_at_cursor ch (insert_flag WIDE_CHAR) h3;
              let h5 = move_cursor_forward (\<lambda>c. c\<lparr>cur_col := cur_col c + 1\<rparr>) h4;
              h6 \<leftarrow> write_at_cursor DEFAULT_CHAR (insert_flag WIDE_CHAR_SPACER) h5;
              Some (advance_cursor_by_one_cell h6)
            }) = Some h' \<and> keeps h h'" (is "\<exists>h'. (if _ then _ else if ?c \<and> _ then _ else ?w) = _ \<and> _")
proof -
  have narrow: "\<exists>h'. do { h3 \<leftarrow> write_at_cursor ch id h; Some (advance_cursor_by_one_cell h3) } = Some h' \<and> keeps h h'"
    by (rule write_advance_keeps [OF ok])
  have nowrap: "keeps h (move_cursor_forward (\<lambda>c. c\<lparr>cur_input_needs_wrap := True\<rparr>) h)"
    using move_cursor_forward_ok [OF ok, of "\<lambda>c. c\<lparr>cur_input_needs_wrap := True\<rparr>"] handler_okD(8,9) [OF ok]
    by (simp add: keeps_def)
  have wide: "\<exists>h'. ?w = Some h' \<and> keeps h h'" if w: "\<not> ?c \<or> bf_contains (h_mode h) LINE_WRAP"
  proof -
    obtain h3 where h3: "(if ?c then do {
                      h' \<leftarrow> write_at_cursor DEFAULT_CHAR (insert_flag LEADING_WIDE_CHAR_SPACER) h;
                      wrapline fo h' } else Some h) = Some h3" "keeps h h3" "cur_col (h_cursor h3) + 1 < h_columns h3"
      using wide_wrap_keeps [OF ok, of fo] keeps_refl [OF ok] w by (cases ?c) auto
    from wide_write_keeps [OF keeps_ok [OF h3(2)] h3(3), of ch] show ?thesis
      unfolding h3(1) bind.bind_lunit using keeps_trans [OF h3(2)] by blast
  qed
  show ?thesis using narrow nowrap wide by (simp split: if_split)
qed

lemma input_keeps:
  assumes ok: "handler_ok h"
  shows "\<exists>h'. input fo char_width str_width ch h = Some h' \<and> keeps h h'"
proof (cases "char_width ch")
  case (Some width)
  show ?thesis
  proof (cases "width = 0")
    case True then show ?thesis using Some input_zero_width_keeps [OF ok] by (simp add: input_def)
  next
    case False
    obtain h1 where h1: "(if cur_input_needs_wrap (h_cursor h) then wrapline fo h else Some h) = Some h1" "keeps h h1"
      using wrapline_keeps [OF ok, of fo] keeps_refl [OF ok] by (cases "cur_input_needs_wrap (h_cursor h)") auto
    note ok1 = keeps_ok [OF h1(2)]
    obtain h2 where h2: "input_insert_shift width h1 = Some h2" "gstep h1 h2"
      using input_insert_shift_step [OF ok1] False by blast
    have k2: "keeps h h2" using keeps_trans [OF h1(2) gstep_keeps [OF ok1 h2(2)]] .
    have eq: "input fo char_width str_width ch h = (if width = 0 then input_zero_width str_width ch h
        else do { h1 \<leftarrow> (if cur_input_needs_wrap (h_cursor h) then wrapline fo h else Some h);
                  h2 \<leftarrow> input_insert_shift width h1;
                  if width = 1 then do { h3 \<leftarrow> write_at_cursor ch id h2; Some (advance_cursor_by_one_cell h3) }
                  else if cur_col (h_cursor h2) + 1 \<ge> h_columns h2 \<and> \<not> bf_contains (h_mode h2) LINE_WRAP
                  then Some (move_cursor_forward (\<lambda>c. c\<lparr>cur_input_needs_wrap := True\<rparr>) h2)
                  else do {
                    h3 \<leftarrow> (if cur_col (h_cursor h2) + 1 \<ge> h_columns h2 then do {
                            h' \<leftarrow> write_at_cursor DEFAULT_CHAR (insert_flag LEADING_WIDE_CHAR_SPACER) h2;
                            wrapline fo h'
                          } else Some h2);
                    h4 \<leftarrow> write_at_cursor ch (insert_flag WIDE_CHAR) h3;
                    let h5 = move_cursor_forward (\<lambda>c. c\<lparr>cur_col := cur_col c + 1\<rparr>) h4;
                    h6 \<leftarrow> write_at_cursor DEFAULT_CHAR (insert_flag WIDE_CHAR_SPACER) h5;
                    Some (advance_cursor_by_one_cell h6)
                  } })"
      unfolding input_def Some option.case ..
    show ?thesis
      using input_glyph_keeps [OF keeps_ok [OF k2], of width ch fo] keeps_trans [OF k2]
      unfolding eq if_not_P [OF False] h1(1) bind.bind_lunit h2(1) by blast
  qed
qed (use keeps_refl [OF ok] in \<open>simp add: input_def\<close>)

section \<open>The remaining handlers\<close>

lemma goto_eq:
  assumes ok: "handler_ok h"
  shows "\<exists>h'. goto fo row column h = Some h' \<and> keeps h h' \<and> grid_rows (h_grid h') = grid_rows (h_grid h) \<and>
     cur_row (h_cursor h') =
       (if bf_contains (h_mode h) ORIGIN then min (row + h_region_start h) (h_region_end h - 1)
        else min row (h_visible_rows h - 1)) \<and>
     cur_col (h_cursor h') = min column (h_columns h - 1) \<and> \<not> cur_input_needs_wrap (h_cursor h')"
proof -
  note b = handler_okD [OF ok]
  define y where "y = (if bf_contains (h_mode h) ORIGIN then min (row + h_region_start h) (h_region_end h - 1)
                       else min row (h_visible_rows h - 1))"
  let ?f = "\<lambda>c. c\<lparr>cur_row := y, cur_col := min column (h_columns h - 1), cur_input_needs_wrap := False\<rparr>"
  have "y < h_visible_rows h" using b(6,7,10) by (auto simp: y_def)
  then have "handler_ok (update_cursor fo ?f h)"
    using b(3) by (intro update_cursor_ok [OF ok]) auto
  then have "keeps h (update_cursor fo ?f h)" by (simp add: keeps_def)
  moreover have "goto fo row column h = Some (update_cursor fo ?f h)"
    using b(6,7,10) by (simp add: goto_def checked_sub_def y_def)
  ultimately show ?thesis by (simp add: y_def)
qed

lemma goto_safe: "handler_ok h \<Longrightarrow> safe (goto fo row column h)"
  using goto_eq [of h fo row column] by (auto dest: keeps_ok)

lemma moves_safe:
  assumes "handler_ok h"
  shows "safe (goto_line fo n h)" "safe (goto_col fo n h)" "safe (move_up fo n h)" "safe (move_down fo n h)"
    "safe (move_down_and_cr fo n h)" "safe (move_up_and_cr fo n h)"
  using goto_safe [OF assms]
  by (simp_all add: goto_line_def goto_col_def move_up_def move_down_def move_down_and_cr_def move_up_and_cr_def)

lemma horizontal_moves_ok:
  assumes ok: "handler_ok h"
  shows "handler_ok (move_forward n h)" "handler_ok (move_backward fo n h)" "handler_ok (backspace fo h)"
    "handler_ok (carriage_return fo h)" "handler_ok (save_cursor_position h)" "handler_ok (restore_cursor_position fo h)"
proof -
  note b = handler_okD [OF ok]
  show "handler_ok (move_forward n h)" unfolding move_forward_def
    by (rule move_cursor_forward_ok [OF ok]) (use b in auto)
  show "handler_ok (move_backward fo n h)" unfolding move_backward_def
    by (rule update_cursor_ok [OF ok]) (use b in auto)
  show "handler_ok (backspace fo h)"
    using ok by (auto simp: backspace_def intro!: update_cursor_ok) (use b in auto)
  show "handler_ok (carriage_return fo h)" unfolding carriage_return_def
    by (rule update_cursor_ok [OF ok]) (use b in auto)
  show "handler_ok (save_cursor_position h)"
    using ok by (simp add: save_cursor_position_def handler_ok_def grid_ok_def buf_ok_def h_columns_def h_visible_rows_def)
  show "handler_ok (restore_cursor_position fo h)" unfolding restore_cursor_position_def Let_def
    by (rule update_cursor_ok [OF ok])
       (use b(1) in \<open>auto simp: grid_ok_def cursor_in_def h_columns_def h_visible_rows_def\<close>)
qed

lemma newline_safe: "handler_ok h \<Longrightarrow> safe (newline fo h)"
  using linefeed_keeps [of h fo] horizontal_moves_ok(4) by (fastforce simp: newline_def dest: keeps_ok)

lemma scrolls_safe:
  assumes ok: "handler_ok h"
  shows "safe2 (scroll_up fo n h)" "safe2 (scroll_down n h)" "safe2 (linefeed fo h)"
    "safe2 (insert_blank_lines n h)" "safe2 (delete_lines fo n h)" "safe2 (reverse_index fo h)"
proof -
  note b = handler_okD [OF ok]
  have up: "safe2 (scroll_up_relative fo r n h)" if "r \<le> h_region_end h" for r n
    using scroll_up_relative_eq [OF ok that, of fo n] keeps_ok by blast
  have down: "safe2 (scroll_down_relative r n h)" if "r \<le> h_region_end h" for r n
    using scroll_down_relative_eq [OF ok that, of n] keeps_ok by blast
  show "safe2 (scroll_up fo n h)" "safe2 (scroll_down n h)"
    using up down b(5) by (simp_all add: scroll_up_def scroll_down_def)
  show "safe2 (linefeed fo h)" using linefeed_keeps [OF ok, of fo] keeps_ok by blast
  show "safe2 (insert_blank_lines n h)"
    using down [of "cur_row (h_cursor h)" n] ok by (auto simp: insert_blank_lines_def Let_def)
  show "safe2 (delete_lines fo n h)"
    using up [of "cur_row (h_cursor h)" "min (h_visible_rows h - cur_row (h_cursor h)) n"] ok b(8)
    by (auto simp: delete_lines_def checked_sub_def Let_def)
  have "handler_ok (update_cursor fo (\<lambda>c. c\<lparr>cur_row := cur_row c - 1\<rparr>) h)"
    by (rule update_cursor_ok [OF ok]) (use b in auto)
  then show "safe2 (reverse_index fo h)"
    using down [OF b(5), of 1] by (auto simp: reverse_index_def scroll_down_def)
qed

lemma insert_blank_step:
  assumes ok: "handler_ok h"
  shows "\<exists>h'. insert_blank n h = Some h' \<and> gstep h h'"
proof -
  note b = handler_okD [OF ok]
  let ?src = "cur_col (h_cursor h)" and ?n = "h_columns h" and ?bg = "c_bg (cur_template (h_cursor h))"
  define count where "count = min n (?n - ?src)"
  let ?f = "\<lambda>xs. do {
       ys \<leftarrow> fold_m (\<lambda>offset xs. vec_swap xs (?src + count + offset) (?src + offset)) (rev [0..<?n - (?src + count)]) xs;
       if ?src + count \<le> length ys then Some (map_range ?src (?src + count) (\<lambda>_. cell_from ?bg) ys) else None }"
  have cnt: "?src + count \<le> ?n" using b(9) by (simp add: count_def)
  have f: "\<exists>ys. ?f xs = Some ys \<and> length ys = length xs" if len: "length xs = ?n" for xs
  proof -
    have "\<exists>ys. fold_m (\<lambda>offset xs. vec_swap xs (?src + count + offset) (?src + offset))
             (rev [0..<?n - (?src + count)]) xs = Some ys \<and> length ys = length xs"
      by (rule swap_loop_len [where i = "\<lambda>k. ?src + count + k" and j = "\<lambda>k. ?src + k"]) (use len in auto)
    then show ?thesis using cnt len by auto
  qed
  have "\<exists>h'. do { h1 \<leftarrow> reset_wide_char_at_start_boundary (cur_row (h_cursor h)) ?src ?bg h;
                  h2 \<leftarrow> (if ?n - count < ?n then reset_wide_char_at_end_boundary (cur_row (h_cursor h)) (?n - count) ?bg h1
                         else Some h1);
                  h_mut_row (cur_row (h_cursor h)) (row_mut_slice ?f) h2 } = Some h' \<and> gstep h h'"
    by (rule bounded_edit_step [OF ok b(8,9)]) (simp, rule slice_edit_step [OF ok b(8) f])
  then show ?thesis
    using b(9) cnt unfolding insert_blank_def Let_def grid_cursor_row_eq [OF ok] count_def
    by (simp add: checked_sub_def)
qed

lemma erase_chars_step:
  assumes ok: "handler_ok h"
  shows "\<exists>h'. erase_chars n h = Some h' \<and> gstep h h'"
proof (cases "n = 0")
  case False
  note b = handler_okD [OF ok]
  let ?s = "cur_col (h_cursor h)" and ?n = "h_columns h" and ?bg = "c_bg (cur_template (h_cursor h))"
  let ?e = "min (?s + n) ?n"
  have "\<exists>h'. do { h1 \<leftarrow> reset_wide_char_at_start_boundary (cur_row (h_cursor h)) ?s ?bg h;
                  h2 \<leftarrow> (if ?e < ?n then reset_wide_char_at_end_boundary (cur_row (h_cursor h)) ?e ?bg h1 else Some h1);
                  h_mut_row (cur_row (h_cursor h)) (row_mut_range ?s ?e (\<lambda>_. cell_from ?bg)) h2 } = Some h' \<and> gstep h h'"
  proof (rule bounded_edit_step [OF ok b(8,9)])
    fix h2 assume h2: "gstep h h2"
    show "\<exists>h3. h_mut_row (cur_row (h_cursor h)) (row_mut_range ?s ?e (\<lambda>_. cell_from ?bg)) h2 = Some h3 \<and> gstep h2 h3"
      by (rule h_mut_row_step [OF gstep_ok [OF h2 ok]])
         (use b(8,9) gstep_simps(1,2) [OF h2] in \<open>auto intro!: row_mut_range_ok\<close>)
  qed simp
  then show ?thesis using False by (simp add: erase_chars_def grid_cursor_row_eq [OF ok] Let_def)
qed (use gstep_refl [OF ok] in \<open>simp add: erase_chars_def\<close>)

lemma delete_chars_step:
  assumes ok: "handler_ok h"
  shows "\<exists>h'. delete_chars n h = Some h' \<and> gstep h h'"
proof (cases "n = 0")
  case False
  note b = handler_okD [OF ok]
  let ?s = "cur_col (h_cursor h)" and ?n = "h_columns h" and ?bg = "c_bg (cur_template (h_cursor h))"
  define e where "e = min (?s + min n ?n) (?n - 1)"
  let ?f = "\<lambda>xs. do {
          ys \<leftarrow> fold_m (\<lambda>offset xs. vec_swap xs (?s + offset) (e + offset)) [0..<?n - e] xs;
          Some (map_range (?n - min n ?n) (length ys) (\<lambda>_. cell_from ?bg) ys) }"
  have e: "e < ?n" "?s \<le> e" using b(3,9) by (auto simp: e_def)
  have f: "\<exists>ys. ?f xs = Some ys \<and> length ys = length xs" if len: "length xs = ?n" for xs
  proof -
    have "\<exists>ys. fold_m (\<lambda>offset xs. vec_swap xs (?s + offset) (e + offset)) [0..<?n - e] xs = Some ys
             \<and> length ys = length xs"
      by (rule swap_loop_len [where i = "\<lambda>k. ?s + k" and j = "\<lambda>k. e + k"]) (use len e in auto)
    then show ?thesis by auto
  qed
  have "\<exists>h'. do { h1 \<leftarrow> reset_wide_char_at_start_boundary (cur_row (h_cursor h)) ?s ?bg h;
                  h2 \<leftarrow> (if e < ?n then reset_wide_char_at_end_boundary (cur_row (h_cursor h)) e ?bg h1 else Some h1);
                  h_mut_row (cur_row (h_cursor h)) (row_mut_slice ?f) h2 } = Some h' \<and> gstep h h'"
    by (rule bounded_edit_step [OF ok b(8,9)]) (simp, rule slice_edit_step [OF ok b(8) f])
  moreover have "checked_sub ?n 1 = Some (?n - 1)" using b(3) by (simp add: checked_sub_def)
  ultimately show ?thesis
    unfolding delete_chars_def Let_def if_not_P [OF False] grid_cursor_row_eq [OF ok]
    by (simp only: bind.bind_lunit e_def)
qed (use gstep_refl [OF ok] in \<open>simp add: delete_chars_def\<close>)

lemma step_safe: "handler_ok h \<Longrightarrow> \<exists>h'. m = Some h' \<and> gstep h h' \<Longrightarrow> safe m"
  using gstep_ok by blast

text \<open>The inclusive view is safe when it covers the whole row or the row is already
  marked dirty, which is how \<open>clear_line\<close> uses it.\<close>

lemma row_mut_to_inclusive_blank_ok:
  assumes "row_ok cols r" "e < cols" "row_occ r = row_len r \<or> e + 1 = cols"
  shows "\<exists>r'. row_mut_to_inclusive e (\<lambda>_. cell_from bg) r = Some r' \<and> row_ok cols r'"
proof (cases "row_occ r = row_len r")
  case True
  then show ?thesis
    using assms by (auto simp: row_mut_to_inclusive_def row_ok_def row_clean_def row_len_def)
next
  case False
  then have e: "e + 1 = length (row_inner r)" "row_inner r \<noteq> []" "row_occ r \<le> e" "row_len r = cols"
    using assms by (auto simp: row_ok_def row_clean_def row_len_def)
  have "map_range 0 (e + 1) (\<lambda>_. cell_from bg) (row_inner r) = map (\<lambda>_. cell_from bg) (row_inner r)"
    using e by (simp add: map_range_full)
  then have "row_mut_to_inclusive e (\<lambda>_. cell_from bg) r =
      Some \<lparr>row_inner = map (\<lambda>_. cell_from bg) (row_inner r), row_occ = e\<rparr>"
    using e by (simp add: row_mut_to_inclusive_def row_len_def)
  moreover have "row_ok cols \<lparr>row_inner = map (\<lambda>_. cell_from bg) (row_inner r), row_occ = e\<rparr>"
    using e by (auto simp: row_ok_def row_clean_def row_len_def list_all_iff last_map dest!: in_set_dropD)
  ultimately show ?thesis by simp
qed

lemma wide_end_occ:
  assumes ok: "handler_ok h" and rc: "row < h_visible_rows h" "col < h_columns h"
  shows "\<exists>h'. reset_wide_char_at_end_boundary row col bg h = Some h' \<and> gstep h h' \<and>
              row_occ (grid_rows (h_grid h') ! row) = row_len (grid_rows (h_grid h') ! row)"
proof -
  let ?r = "grid_rows (h_grid h) ! row"
  have rok: "row_ok (h_columns h) ?r"
    using grid_row_ok [OF handler_okD(2) [OF ok]] rc(1) by (simp add: h_visible_rows_def h_columns_def)
  then obtain ys where ys: "wide_end_cells col bg (row_inner ?r) = Some ys" "length ys = length (row_inner ?r)"
    using wide_end_cells_len [of col "row_inner ?r" bg] rc(2) by (auto simp: row_ok_def row_len_def)
  let ?r' = "\<lparr>row_inner = ys, row_occ = row_len ?r\<rparr>"
  have eq: "row_mut_slice (wide_end_cells col bg) ?r = Some ?r'" using ys(1) by (simp add: row_mut_slice_def)
  have "row_ok (h_columns h) ?r'" using row_mut_slice_ok [OF rok, of "wide_end_cells col bg"] ys eq
    by (simp add: row_len_def)
  from h_mut_row_eq [where f = "row_mut_slice (wide_end_cells col bg)", OF ok rc(1) eq this]
  obtain h' where "h_mut_row row (row_mut_slice (wide_end_cells col bg)) h = Some h'" "gstep h h'"
      "grid_rows (h_grid h') = (grid_rows (h_grid h))[row := ?r']" by blast
  moreover have "row < length (grid_rows (h_grid h))"
    using rc(1) buf_ok_simps(7) [OF handler_okD(2) [OF ok]] by (simp add: h_visible_rows_def)
  ultimately show ?thesis
    using ys(2) by (simp add: reset_wide_char_at_end_boundary_def row_len_def)
qed

lemma clear_line_safe:
  assumes ok: "handler_ok h"
  shows "safe (clear_line m h)"
proof -
  note b = handler_okD [OF ok]
  let ?row = "cur_row (h_cursor h)" and ?col = "cur_col (h_cursor h)" and ?bg = "c_bg (cur_template (h_cursor h))"
  show ?thesis
  proof (cases m)
    case ClearRight
    obtain h1 where h1: "reset_wide_char_at_start_boundary ?row ?col ?bg h = Some h1" "gstep h h1"
      using wide_start_step [OF ok b(8,9)] by blast
    have "\<exists>h2. h_mut_row ?row (row_mut_from ?col (\<lambda>_. cell_from ?bg)) h1 = Some h2 \<and> gstep h1 h2"
      by (rule h_mut_row_step [OF gstep_ok [OF h1(2) ok]])
         (use b(8,9) gstep_simps(1,2) [OF h1(2)] in \<open>auto intro!: row_mut_from_ok\<close>)
    then show ?thesis
      using ClearRight h1 gstep_ok [OF _ gstep_ok [OF h1(2) ok]]
      by (auto simp: clear_line_def grid_cursor_row_eq [OF ok])
  next
    case ClearLeft
    have "\<exists>h1. (if ?col + 1 < h_columns h then reset_wide_char_at_end_boundary ?row (?col + 1) ?bg h else Some h) = Some h1
            \<and> gstep h h1 \<and> (row_occ (grid_rows (h_grid h1) ! ?row) = row_len (grid_rows (h_grid h1) ! ?row) \<or> ?col + 1 = h_columns h)"
      using wide_end_occ [OF ok b(8), of "?col + 1" ?bg] gstep_refl [OF ok] b(9) by auto
    then obtain h1 where h1: "(if ?col + 1 < h_columns h then reset_wide_char_at_end_boundary ?row (?col + 1) ?bg h else Some h) = Some h1"
       "gstep h h1" "row_occ (grid_rows (h_grid h1) ! ?row) = row_len (grid_rows (h_grid h1) ! ?row) \<or> ?col + 1 = h_columns h"
      by blast
    note ok1 = gstep_ok [OF h1(2) ok] and s1 = gstep_simps [OF h1(2)]
    have rok: "row_ok (h_columns h1) (grid_rows (h_grid h1) ! ?row)"
      using grid_row_ok [OF handler_okD(2) [OF ok1]] b(8) s1(2) by (simp add: h_visible_rows_def h_columns_def)
    obtain r' where r': "row_mut_to_inclusive ?col (\<lambda>_. cell_from ?bg) (grid_rows (h_grid h1) ! ?row) = Some r'"
        "row_ok (h_columns h1) r'"
      using row_mut_to_inclusive_blank_ok [OF rok] h1(3) b(9) s1(1) by auto
    have "\<exists>h2. h_mut_row ?row (row_mut_to_inclusive ?col (\<lambda>_. cell_from ?bg)) h1 = Some h2 \<and> handler_ok h2"
      using h_mut_row_eq [where f = "row_mut_to_inclusive ?col (\<lambda>_. cell_from ?bg)", OF ok1 _ r'] b(8) s1(2)
        gstep_ok [OF _ ok1] by auto
    then show ?thesis
      using ClearLeft h1(1) by (simp add: clear_line_def grid_cursor_row_eq [OF ok] split: if_splits)
  next
    case ClearLineAll
    have "\<exists>h2. h_mut_row ?row (\<lambda>r. Some (row_mut_full (\<lambda>_. cell_from ?bg) r)) h = Some h2 \<and> gstep h h2"
      by (rule h_mut_row_step [OF ok b(8)]) (use full_mut.mut_ok [OF _ refl] in auto)
    then show ?thesis
      using ClearLineAll gstep_ok [OF _ ok] by (auto simp: clear_line_def grid_cursor_row_eq [OF ok])
  qed
qed

lemma region_step:
  assumes "handler_ok h" "e \<le> h_visible_rows h"
  shows "\<exists>h'. on_grid (g_region_each s e f) h = Some h' \<and> gstep h h'"
  using g_region_each_ok [OF handler_okD(2) [OF assms(1)]] assms(2)
  by (intro on_grid_step) (simp add: h_visible_rows_def)

lemma region_full_step: "handler_ok h \<Longrightarrow> \<exists>h'. on_grid (g_region_full f) h = Some h' \<and> gstep h h'"
  using region_step [of h "h_visible_rows h" 0 f] by (simp add: on_grid_def g_region_full_def h_visible_rows_def)

lemma flat_ok [simp]: "handler_ok (h\<lparr>h_flat := fl\<rparr>) = handler_ok h"
  by (simp add: handler_ok_def h_columns_def h_visible_rows_def)

lemma dirty_ok [simp]: "handler_ok (h\<lparr>h_dirty_start := p, h_dirty_end := q\<rparr>) = handler_ok h"
  by (simp add: handler_ok_def h_columns_def h_visible_rows_def)

lemma clear_viewport_eq:
  assumes ok: "handler_ok h"
  shows "\<exists>h'. clear_viewport fo h = Some h' \<and> keeps h h' \<and>
     h_flat h' = fold (fo_push_row fo) (if h_is_alt_screen h then [] else grid_rows (h_grid h)) (h_flat h) \<and>
     grid_rows (h_grid h') = replicate (h_visible_rows h) (row_blank (h_columns h) (c_bg (cur_template (h_cursor h))))"
proof -
  let ?n = "h_visible_rows h"
  let ?B = "row_blank (h_columns h) (c_bg (cur_template (h_cursor h)))"
  obtain h1 where h1: "scroll_region_up fo 0 ?n ?n h = Some h1" "keeps h h1"
      "grid_rows (h_grid h1) = scroll_up_rows 0 ?n ?n ?B (grid_rows (h_grid h))"
      "h_flat h1 = fold (fo_push_row fo) (scrolled_out 0 ?n ?n h) (h_flat h)"
    using scroll_region_up_eq [OF ok, of 0 ?n ?n fo] by blast
  have "length (grid_rows (h_grid h)) = ?n"
    using buf_ok_simps(7) [OF handler_okD(2) [OF ok]] by (simp add: h_visible_rows_def)
  then have "scroll_up_rows 0 ?n ?n ?B (grid_rows (h_grid h)) = replicate ?n ?B"
      "scrolled_out 0 ?n ?n h = (if h_is_alt_screen h then [] else grid_rows (h_grid h))"
    by (simp_all add: scroll_up_rows_def scrolled_out_def)
  moreover have "clear_viewport fo h = Some h1"
    using h1(1,2) by (simp add: clear_viewport_def checked_sub_def on_grid_def keeps_def)
  ultimately show ?thesis using h1(2-4) by simp
qed

lemma clear_above_safe:
  assumes ok: "handler_ok h"
  shows "safe (clear_screen fo Above h)"
proof -
  let ?h1 = "h\<lparr>h_flat := fo_clear fo (h_flat h)\<rparr>"
  let ?row = "cur_row (h_cursor h)" and ?bg = "c_bg (cur_template (h_cursor h))"
  have ok1: "handler_ok ?h1" and c1: "h_columns ?h1 = h_columns h" "h_visible_rows ?h1 = h_visible_rows h"
    using ok by (simp_all add: h_columns_def h_visible_rows_def)
  have "\<exists>h2. (if ?row > 1 then on_grid (g_region_to ?row (\<lambda>_. cell_from ?bg)) ?h1 else Some ?h1) = Some h2 \<and> gstep ?h1 h2"
    using region_step [OF ok1, of ?row 0 "\<lambda>_. cell_from ?bg"] handler_okD(8) [OF ok] gstep_refl [OF ok1] c1
    by (auto simp: g_region_to_def on_grid_def h_visible_rows_def)
  then obtain h2 where h2: "(if ?row > 1 then on_grid (g_region_to ?row (\<lambda>_. cell_from ?bg)) ?h1 else Some ?h1) = Some h2"
      "gstep ?h1 h2" by blast
  note ok2 = gstep_ok [OF h2(2) ok1] and s2 = gstep_simps [OF h2(2)]
  have rc: "?row < h_visible_rows h2" using handler_okD(8) [OF ok] s2 c1 by simp
  let ?e = "min (cur_col (h_cursor h) + 1) (h_columns h2)"
  have "\<exists>h3. (if ?e < h_columns h2 then reset_wide_char_at_end_boundary ?row ?e ?bg h2 else Some h2) = Some h3 \<and> gstep h2 h3"
    using wide_end_step [OF ok2 rc, of ?e ?bg] gstep_refl [OF ok2] by auto
  then obtain h3 where h3: "(if ?e < h_columns h2 then reset_wide_char_at_end_boundary ?row ?e ?bg h2 else Some h2) = Some h3"
      "gstep h2 h3" by blast
  note ok3 = gstep_ok [OF h3(2) ok2]
  have "\<exists>h4. h_mut_row ?row (row_mut_to ?e (\<lambda>_. cell_from ?bg)) h3 = Some h4 \<and> gstep h3 h4"
    by (rule h_mut_row_step [OF ok3])
       (use rc gstep_simps(1,2) [OF h3(2)] s2(1) c1 in \<open>auto intro!: row_mut_to_ok\<close>)
  then obtain h4 where h4: "h_mut_row ?row (row_mut_to ?e (\<lambda>_. cell_from ?bg)) h3 = Some h4" "gstep h3 h4" by blast
  have "grid_cursor_row h2 = Some ?row" using grid_cursor_row_eq [OF ok2] s2(3) by simp
  then have "clear_screen fo Above h = Some h4"
    unfolding clear_screen_def Let_def clear_mode.case h2(1) bind.bind_lunit
    by (simp only: bind.bind_lunit h3(1) h4(1))
  then show ?thesis using gstep_ok [OF h4(2) ok3] by simp
qed

lemma clear_below_safe:
  assumes ok: "handler_ok h"
  shows "safe (clear_screen fo Below h)"
proof -
  note b = handler_okD [OF ok]
  let ?row = "cur_row (h_cursor h)" and ?col = "cur_col (h_cursor h)" and ?bg = "c_bg (cur_template (h_cursor h))"
  obtain h1 where h1: "reset_wide_char_at_start_boundary ?row ?col ?bg h = Some h1" "gstep h h1"
    using wide_start_step [OF ok b(8,9)] by blast
  note ok1 = gstep_ok [OF h1(2) ok] and s1 = gstep_simps [OF h1(2)]
  have "\<exists>h2. h_mut_row ?row (row_mut_from ?col (\<lambda>_. cell_from ?bg)) h1 = Some h2 \<and> gstep h1 h2"
    by (rule h_mut_row_step [OF ok1]) (use b(8,9) s1(1,2) in \<open>auto intro!: row_mut_from_ok\<close>)
  then obtain h2 where h2: "h_mut_row ?row (row_mut_from ?col (\<lambda>_. cell_from ?bg)) h1 = Some h2" "gstep h1 h2" by blast
  note ok2 = gstep_ok [OF h2(2) ok1]
  have v: "h_visible_rows h2 = h_visible_rows h" using gstep_simps(2) [OF h2(2)] s1(2) by simp
  have "\<exists>h3. on_grid (g_region_from (?row + 1) (\<lambda>_. cell_from ?bg)) h2 = Some h3 \<and> gstep h2 h3"
    if "?row + 1 < h_visible_rows h"
    using region_step [OF ok2, of "h_visible_rows h2" "?row + 1" "\<lambda>_. cell_from ?bg"] that v
    by (auto simp: g_region_from_def on_grid_def h_visible_rows_def)
  then have "safe (if ?row < h_visible_rows h - 1 then on_grid (g_region_from (?row + 1) (\<lambda>_. cell_from ?bg)) h2 else Some h2)"
    using ok2 gstep_ok [OF _ ok2] by fastforce
  then show ?thesis
    using h1(1) h2(1) b(10) by (simp add: clear_screen_def grid_cursor_row_eq [OF ok] checked_sub_def Let_def)
qed

lemma clear_history_step:
  "handler_ok h \<Longrightarrow> \<exists>h'. on_grid g_clear_history h = Some h' \<and> gstep h h'"
  using g_clear_history_eq [OF handler_okD(2), of h] by (intro on_grid_step) blast

lemma on_finish_ok: "handler_ok h \<Longrightarrow> handler_ok (on_finish_byte_processing fo h)"
  using g_update_max_cursor_ok [of "h_grid h"]
  by (simp add: on_finish_byte_processing_def reset_dirty_cells_range_def handler_ok_def
      h_columns_def h_visible_rows_def)

lemma clear_and_reset_safe:
  assumes ok: "handler_ok h"
  shows "safe (do {
         let h1 = h\<lparr>h_flat := fo_clear fo (h_flat h)\<rparr>;
         h2 \<leftarrow> on_grid g_clear_and_reset_saving_cursor_line h1;
         let cursor_row = fst (h_cursor_point fo h2);
         let h3 = h2\<lparr>h_dirty_start := (cursor_row, 0), h_dirty_end := (cursor_row + 1, 0)\<rparr>;
         Some (on_finish_byte_processing fo h3) })"
proof -
  obtain g' where g': "g_clear_and_reset_saving_cursor_line (h_grid h) = Some g'" "grid_ok g'"
      "g_rows g' = g_rows (h_grid h)" "g_columns g' = g_columns (h_grid h)"
    using g_clear_and_reset_saving_cursor_line_eq [OF handler_okD(1) [OF ok]] by blast
  let ?h2 = "h\<lparr>h_flat := fo_clear fo (h_flat h), h_grid := g'\<rparr>"
  have "handler_ok ?h2"
    using ok g'(2-4) by (simp add: handler_ok_def h_columns_def h_visible_rows_def)
  then have "handler_ok (?h2\<lparr>h_dirty_start := p, h_dirty_end := q\<rparr>)" for p q by simp
  from on_finish_ok [OF this] show ?thesis using g'(1) by (simp add: on_grid_def Let_def)
qed

lemma clear_screen_safe:
  assumes ok: "handler_ok h"
  shows "safe (clear_screen fo m h)"
proof (cases m)
  case ClearAll
  have "safe (clear_visible_rows_in_place fo bg h)" for bg
    using region_full_step [OF ok, of "\<lambda>_. cell_from bg"] gstep_ok [OF _ ok]
    by (auto simp: clear_visible_rows_in_place_def Let_def)
  moreover have "safe (clear_viewport fo h)" using clear_viewport_eq [OF ok, of fo] keeps_ok by blast
  moreover have "safe (on_grid (g_region_full f) h)" for f by (rule step_safe [OF ok region_full_step [OF ok]])
  ultimately show ?thesis using ClearAll by (simp add: clear_screen_def Let_def split: if_split)
next
  case Saved
  have "handler_ok (h\<lparr>h_flat := fo_clear fo (h_flat h)\<rparr>)" using ok by simp
  from clear_history_step [OF this] gstep_ok [OF _ this] show ?thesis
    using Saved ok by (auto simp: clear_screen_def)
next
  case ResetAndClear
  then show ?thesis using clear_and_reset_safe [OF ok, of fo] by (simp add: clear_screen_def)
next
  case ActiveBlock
  then show ?thesis using clear_and_reset_safe [OF ok, of fo] by (simp add: clear_screen_def)
qed (use clear_above_safe [OF ok] clear_below_safe [OF ok] in simp_all)

lemma reset_state_eq:
  assumes ok: "handler_ok h"
  shows "\<exists>h'. reset_state fo h = Some h' \<and> handler_ok h' \<and> h_columns h' = h_columns h \<and>
     h_visible_rows h' = h_visible_rows h \<and> h_cursor h' = cursor_default \<and>
     h_region_start h' = 0 \<and> h_region_end h' = h_visible_rows h \<and> h_tabs h' = tabs_new (h_columns h) \<and>
     grid_rows (h_grid h') = replicate (h_visible_rows h) (row_blank (h_columns h) (Named Background))"
proof -
  obtain g' where g': "g_reset (h_grid h) = Some g'" "grid_ok g'" "g_rows g' = g_rows (h_grid h)"
      "g_columns g' = g_columns (h_grid h)" "g_cursor g' = cursor_default"
      "grid_rows g' = replicate (g_rows (h_grid h)) (row_blank (g_columns (h_grid h)) (Named Background))"
    using g_reset_eq [OF handler_okD(1) [OF ok]] by blast
  then show ?thesis
    using handler_okD(3,10) [OF ok]
    by (simp add: reset_state_def on_grid_def handler_ok_def h_columns_def h_visible_rows_def tabs_new_def)
qed

section \<open>Tabs, modes and regions\<close>

lemma next_tab_ok:
  "col < cols \<Longrightarrow> length tabs = cols \<Longrightarrow> \<exists>c. next_tab tabs cols col = Some c \<and> col \<le> c \<and> c < cols"
proof (induction tabs cols col rule: next_tab.induct)
  case (1 tabs cols col)
  show ?case
  proof (cases "col + 1 = cols")
    case False
    then have "col + 1 < cols" using 1(2) by simp
    then show ?thesis
      using False 1 by (subst next_tab.simps) fastforce
  qed (use 1(2) in \<open>subst next_tab.simps; simp\<close>)
qed

lemma put_tab_loop_safe: "handler_ok h \<Longrightarrow> safe (put_tab_loop count h)"
proof (induction count arbitrary: h)
  case (Suc count)
  note ok = Suc.prems
  obtain h1 where h1: "on_grid (g_cursor_cell (\<lambda>c. if c_char c = DEFAULT_CHAR \<or> c_char c = 0x20
        then c\<lparr>c_char := charset_map (cur_charsets (h_cursor h) (h_active_charset h)) 0x09\<rparr> else c)) h = Some h1"
      "gstep h h1"
    using cursor_cell_step [OF ok] by blast
  note ok1 = gstep_ok [OF h1(2) ok]
  obtain col where col: "next_tab (h_tabs h1) (h_columns h1) (cur_col (h_cursor h1)) = Some col" "col < h_columns h1"
    using next_tab_ok [of "cur_col (h_cursor h1)" "h_columns h1" "h_tabs h1"] handler_okD(4,9) [OF ok1] by blast
  have "handler_ok (move_cursor_forward (\<lambda>c. c\<lparr>cur_col := col\<rparr>) h1)"
    by (rule move_cursor_forward_ok [OF ok1]) (use handler_okD(8) [OF ok1] col in simp_all)
  from Suc.IH [OF this] show ?case
    using h1(1) col(1) handler_okD(9) [OF ok] by simp
qed simp

lemma prev_tab_ok: "i \<le> length tabs \<Longrightarrow> i \<le> col \<Longrightarrow> \<exists>c. prev_tab tabs col i = Some c \<and> c \<le> col"
  by (induction i) (auto simp: vec_get_def)

lemma move_backward_tabs_safe: "handler_ok h \<Longrightarrow> safe (move_backward_tabs fo n h)"
proof (induction n arbitrary: h)
  case (Suc n)
  note ok = Suc.prems
  obtain col where col: "prev_tab (h_tabs h) (cur_col (h_cursor h)) (cur_col (h_cursor h)) = Some col"
      "col \<le> cur_col (h_cursor h)"
    using prev_tab_ok [of "cur_col (h_cursor h)" "h_tabs h" "cur_col (h_cursor h)"] handler_okD(4,9) [OF ok] by auto
  have "handler_ok (update_cursor fo (\<lambda>c. c\<lparr>cur_col := col\<rparr>) h)"
    by (rule update_cursor_ok [OF ok]) (use handler_okD(8,9) [OF ok] col(2) in simp_all)
  from Suc.IH [OF this] show ?case using col(1) by simp
qed simp

lemma tab_edits_safe:
  assumes ok: "handler_ok h"
  shows "safe (set_horizontal_tabstop h)" "safe (clear_tabs tm h)" "safe (put_tab fo n h)"
proof -
  have "handler_ok (h\<lparr>h_tabs := ts\<rparr>)" if "length ts = h_columns h" for ts
    using ok that by (simp add: handler_ok_def h_columns_def h_visible_rows_def)
  then show "safe (set_horizontal_tabstop h)" "safe (clear_tabs tm h)"
    using handler_okD(4,9) [OF ok]
    by (auto simp: set_horizontal_tabstop_def clear_tabs_def vec_set_def tabs_clear_all_def
        split: tabulation_clear_mode.split)
  show "safe (put_tab fo n h)"
    using put_tab_loop_safe [OF ok] wrapline_keeps [OF ok, of fo] keeps_ok by (auto simp: put_tab_def)
qed

lemma set_scrolling_region_safe:
  assumes ok: "handler_ok h" and "1 \<le> t"
  shows "safe (set_scrolling_region fo t bo h)"
proof (cases "t \<ge> (case bo of Some b \<Rightarrow> b | None \<Rightarrow> h_visible_rows h)")
  case True then show ?thesis using ok by (simp add: set_scrolling_region_def)
next
  case False
  let ?b = "case bo of Some b \<Rightarrow> b | None \<Rightarrow> h_visible_rows h"
  let ?h = "h\<lparr>h_region_start := min (t - 1) (h_visible_rows h), h_region_end := min ?b (h_visible_rows h)\<rparr>"
  have "handler_ok ?h"
    using ok False handler_okD(10) [OF ok] by (auto simp: handler_ok_def h_columns_def h_visible_rows_def)
  from goto_safe [OF this] show ?thesis using False assms(2) by (simp add: set_scrolling_region_def checked_sub_def)
qed

lemma mode_ok [simp]: "handler_ok (h\<lparr>h_mode := m\<rparr>) = handler_ok h"
  by (simp add: handler_ok_def h_columns_def h_visible_rows_def)

lemma blink_ok [simp]: "handler_ok (h\<lparr>h_cursor_blinking := m\<rparr>) = handler_ok h"
  by (simp add: handler_ok_def h_columns_def h_visible_rows_def)

lemma deccolm_safe: "handler_ok h \<Longrightarrow> safe (deccolm fo h)"
  using set_scrolling_region_safe [of h 1 fo None] step_safe [OF _ region_full_step]
  by (fastforce simp: deccolm_def)

lemma set_mode_safe:
  assumes ok: "handler_ok h" and m: "\<forall>b. m \<noteq> SwapScreen b"
  shows "safe (set_mode fo m h)" "safe (unset_mode fo m h)"
  using deccolm_safe [OF ok, of fo] ok m by (cases m; simp add: h_insert_mode_def h_remove_mode_def)+

lemma template_ok: "handler_ok (terminal_attribute a h) = handler_ok h" "handler_ok (configure_charset i cs h) = handler_ok h"
  by (simp_all add: terminal_attribute_def configure_charset_def handler_ok_def grid_ok_def buf_ok_def cursor_in_def
      h_columns_def h_visible_rows_def)

lemma keyboard_ok:
  "handler_ok (set_keyboard_mode m b h) = handler_ok h" "handler_ok (push_keyboard_mode m h) = handler_ok h"
  "handler_ok (pop_keyboard_modes n h) = handler_ok h" "handler_ok (reset_keyboard_mode_state h) = handler_ok h"
  by (simp_all add: set_keyboard_mode_def push_keyboard_mode_def pop_keyboard_modes_def
      reset_keyboard_mode_state_def Let_def handler_ok_def h_columns_def h_visible_rows_def)

section \<open>Every sequence of control functions\<close>

text \<open>A machine whose step never fails on the states and inputs that satisfy its
  contract runs to the end of every input sequence.\<close>

locale total_machine =
  fixes step :: "'a \<Rightarrow> 's \<Rightarrow> 's option"
    and inv :: "'s \<Rightarrow> bool"
    and valid :: "'a \<Rightarrow> bool"
  assumes step_total: "inv s \<Longrightarrow> valid x \<Longrightarrow> \<exists>s'. step x s = Some s' \<and> inv s'"
begin

lemma run_total:
  assumes "inv s" "list_all valid xs"
  shows "\<exists>s'. fold_m step xs s = Some s' \<and> inv s'"
  by (rule fold_m_inv) (use assms step_total in \<open>auto simp: list_all_iff\<close>)

end

datatype control =
    CtlInput rust_char | CtlGoto nat nat | CtlGotoLine nat | CtlGotoCol nat | CtlInsertBlank nat
  | CtlMoveUp nat | CtlMoveDown nat | CtlMoveForward nat | CtlMoveBackward nat
  | CtlMoveDownCr nat | CtlMoveUpCr nat | CtlPutTab nat | CtlBackspace | CtlCarriageReturn
  | CtlLinefeed | CtlNewline | CtlSetTabstop | CtlScrollUp nat | CtlScrollDown nat
  | CtlInsertLines nat | CtlDeleteLines nat | CtlEraseChars nat | CtlDeleteChars nat
  | CtlBackTabs nat | CtlSaveCursor | CtlRestoreCursor | CtlClearLine line_clear_mode
  | CtlClearScreen clear_mode | CtlClearTabs tabulation_clear_mode | CtlResetState
  | CtlReverseIndex | CtlAttr attr | CtlSetMode mode | CtlUnsetMode mode
  | CtlRegion nat "nat option" | CtlKeypad bool | CtlActiveCharset charset_index
  | CtlConfigureCharset charset_index standard_charset | CtlDecaln
  | CtlCursorStyle "(cursor_shape \<times> bool) option" | CtlKeyboardSet u32 apply_behavior
  | CtlKeyboardPush u32 | CtlKeyboardPop nat | CtlFinishBytes

fun handle ::
    "'f flat_ops \<Rightarrow> (rust_char \<Rightarrow> nat option) \<Rightarrow> (rust_char list \<Rightarrow> nat) \<Rightarrow> control \<Rightarrow>
     'f handler \<Rightarrow> 'f handler option" where
  "handle fo cw sw (CtlInput c) h = input fo cw sw c h"
| "handle fo cw sw (CtlGoto r c) h = goto fo r c h"
| "handle fo cw sw (CtlGotoLine r) h = goto_line fo r h"
| "handle fo cw sw (CtlGotoCol c) h = goto_col fo c h"
| "handle fo cw sw (CtlInsertBlank n) h = insert_blank n h"
| "handle fo cw sw (CtlMoveUp n) h = move_up fo n h"
| "handle fo cw sw (CtlMoveDown n) h = move_down fo n h"
| "handle fo cw sw (CtlMoveForward n) h = Some (move_forward n h)"
| "handle fo cw sw (CtlMoveBackward n) h = Some (move_backward fo n h)"
| "handle fo cw sw (CtlMoveDownCr n) h = move_down_and_cr fo n h"
| "handle fo cw sw (CtlMoveUpCr n) h = move_up_and_cr fo n h"
| "handle fo cw sw (CtlPutTab n) h = put_tab fo n h"
| "handle fo cw sw CtlBackspace h = Some (backspace fo h)"
| "handle fo cw sw CtlCarriageReturn h = Some (carriage_return fo h)"
| "handle fo cw sw CtlLinefeed h = map_option fst (linefeed fo h)"
| "handle fo cw sw CtlNewline h = newline fo h"
| "handle fo cw sw CtlSetTabstop h = set_horizontal_tabstop h"
| "handle fo cw sw (CtlScrollUp n) h = map_option fst (scroll_up fo n h)"
| "handle fo cw sw (CtlScrollDown n) h = map_option fst (scroll_down n h)"
| "handle fo cw sw (CtlInsertLines n) h = map_option fst (insert_blank_lines n h)"
| "handle fo cw sw (CtlDeleteLines n) h = map_option fst (delete_lines fo n h)"
| "handle fo cw sw (CtlEraseChars n) h = erase_chars n h"
| "handle fo cw sw (CtlDeleteChars n) h = delete_chars n h"
| "handle fo cw sw (CtlBackTabs n) h = move_backward_tabs fo n h"
| "handle fo cw sw CtlSaveCursor h = Some (save_cursor_position h)"
| "handle fo cw sw CtlRestoreCursor h = Some (restore_cursor_position fo h)"
| "handle fo cw sw (CtlClearLine m) h = clear_line m h"
| "handle fo cw sw (CtlClearScreen m) h = clear_screen fo m h"
| "handle fo cw sw (CtlClearTabs m) h = clear_tabs m h"
| "handle fo cw sw CtlResetState h = reset_state fo h"
| "handle fo cw sw CtlReverseIndex h = map_option fst (reverse_index fo h)"
| "handle fo cw sw (CtlAttr a) h = Some (terminal_attribute a h)"
| "handle fo cw sw (CtlSetMode m) h = set_mode fo m h"
| "handle fo cw sw (CtlUnsetMode m) h = unset_mode fo m h"
| "handle fo cw sw (CtlRegion t b) h = set_scrolling_region fo t b h"
| "handle fo cw sw (CtlKeypad b) h =
     Some (if b then set_keypad_application_mode h else unset_keypad_application_mode h)"
| "handle fo cw sw (CtlActiveCharset i) h = Some (set_active_charset i h)"
| "handle fo cw sw (CtlConfigureCharset i cs) h = Some (configure_charset i cs h)"
| "handle fo cw sw CtlDecaln h = decaln h"
| "handle fo cw sw (CtlCursorStyle st) h = Some (set_cursor_style st h)"
| "handle fo cw sw (CtlKeyboardSet m b) h = Some (set_keyboard_mode m b h)"
| "handle fo cw sw (CtlKeyboardPush m) h = Some (push_keyboard_mode m h)"
| "handle fo cw sw (CtlKeyboardPop n) h = Some (pop_keyboard_modes n h)"
| "handle fo cw sw CtlFinishBytes h = Some (on_finish_byte_processing fo h)"

text \<open>What the callers guarantee: the screen swap is handled by the terminal model, and a
  missing or zero top line of a scrolling region is passed as 1.\<close>

definition is_swap_screen :: "mode \<Rightarrow> bool" where
  "is_swap_screen m \<longleftrightarrow> (case m of SwapScreen _ \<Rightarrow> True | _ \<Rightarrow> False)"

definition control_valid :: "control \<Rightarrow> bool" where
  "control_valid c \<longleftrightarrow>
     (case c of
        CtlSetMode m \<Rightarrow> \<not> is_swap_screen m
      | CtlUnsetMode m \<Rightarrow> \<not> is_swap_screen m
      | CtlRegion t _ \<Rightarrow> 1 \<le> t
      | _ \<Rightarrow> True)"

lemma safe2_fst: "safe2 m \<Longrightarrow> safe (map_option fst m)"
  by auto

lemma keeps_safe: "\<exists>h'. m = Some h' \<and> keeps h h' \<Longrightarrow> safe m"
  using keeps_ok by blast

lemma misc_ok [simp]:
  "handler_ok (set_active_charset i h) = handler_ok h" "handler_ok (set_cursor_style st h) = handler_ok h"
  "handler_ok (set_keypad_application_mode h) = handler_ok h"
  "handler_ok (unset_keypad_application_mode h) = handler_ok h"
  by (auto simp: set_active_charset_def set_cursor_style_def set_keypad_application_mode_def
      unset_keypad_application_mode_def h_insert_mode_def h_remove_mode_def handler_ok_def
      h_columns_def h_visible_rows_def split: option.split prod.split)

lemma handle_safe:
  assumes ok: "handler_ok h" and v: "control_valid c"
  shows "safe (handle fo cw sw c h)"
proof (cases c)
  case (CtlSetMode m)
  then have "\<forall>b. m \<noteq> SwapScreen b" using v by (auto simp: control_valid_def is_swap_screen_def)
  from set_mode_safe(1) [OF ok this] show ?thesis unfolding CtlSetMode handle.simps .
next
  case (CtlUnsetMode m)
  then have "\<forall>b. m \<noteq> SwapScreen b" using v by (auto simp: control_valid_def is_swap_screen_def)
  from set_mode_safe(2) [OF ok this] show ?thesis unfolding CtlUnsetMode handle.simps .
next
  case (CtlRegion t b) then show ?thesis using set_scrolling_region_safe [OF ok] v by (simp add: control_valid_def)
next
  case (CtlInput ch) then show ?thesis using keeps_safe [OF input_keeps [OF ok]] by simp
next
  case CtlResetState then show ?thesis using reset_state_eq [OF ok, of fo] by auto
next
  case CtlDecaln then show ?thesis using step_safe [OF ok region_full_step [OF ok]] by (simp add: decaln_def)
qed (simp_all only: handle.simps option.inject ex_simps simp_thms ex1_eq
       goto_safe [OF ok] moves_safe [OF ok] horizontal_moves_ok [OF ok] newline_safe [OF ok]
       safe2_fst [OF scrolls_safe(1) [OF ok]] safe2_fst [OF scrolls_safe(2) [OF ok]]
       safe2_fst [OF scrolls_safe(3) [OF ok]] safe2_fst [OF scrolls_safe(4) [OF ok]]
       safe2_fst [OF scrolls_safe(5) [OF ok]] safe2_fst [OF scrolls_safe(6) [OF ok]]
       step_safe [OF ok insert_blank_step [OF ok]] step_safe [OF ok erase_chars_step [OF ok]]
       step_safe [OF ok delete_chars_step [OF ok]] clear_line_safe [OF ok] clear_screen_safe [OF ok]
       tab_edits_safe [OF ok] move_backward_tabs_safe [OF ok] template_ok keyboard_ok misc_ok
       on_finish_ok [OF ok] ok if_cancel split: if_split)

end
