(* ===== verification/Ansi_Properties.thy ===== *)
theory Ansi_Properties
  imports Ansi_Safety
begin


text \<open>A terminal without scrollback content and with the widths of a monospaced ASCII
  font, used to exercise the properties.\<close>

definition unit_flat :: "unit flat_ops" where
  "unit_flat = \<lparr>fo_push_row = (\<lambda>_ f. f), fo_clear = (\<lambda>f. f), fo_total_rows = (\<lambda>_. 0)\<rparr>"

definition sample_handler :: "unit handler" where
  "sample_handler = handler_new 3 4 False False ()"

lemma sample_ok: "handler_ok sample_handler"
  by (simp add: sample_handler_def handler_ok_new)

lemma sample_simps:
  "h_columns sample_handler = 4" "h_visible_rows sample_handler = 3" "cur_row (h_cursor sample_handler) = 0"
  "cur_col (h_cursor sample_handler) = 0" "\<not> cur_input_needs_wrap (h_cursor sample_handler)"
  by (simp_all add: sample_handler_def handler_new_def grid_new_def cursor_default_def h_columns_def h_visible_rows_def)



text \<open>on a one-column terminal the same interpreter does panic: a wide character
  wraps to column 0 and its spacer is then written at column 1.\<close>

theorem wide_char_one_column_panics:
  "input unit_flat (\<lambda>_. Some 2) length 0x4E2D (handler_new 2 1 False False ()) = None"
  by (simp add: input_def handler_new_def unit_flat_def grid_new_def cursor_default_def
      sto_with_capacity_def sto_with_rows_def row_new_def numeral_2_eq_2 term_mode_default_def
      term_mode_flag_defs input_insert_shift_def bf_defs h_columns_def h_visible_rows_def
      write_at_cursor_def grid_cursor_row_def g_history_size_def g_total_rows_def checked_sub_def
      h_cell_def sto_get_def sto_from_grid_index_def vec_get_def unlink_wide_char_def cell_default_def
      on_grid_def g_cursor_cell_def sto_mut_def row_mut_at_def row_len_def wrapline_def
      move_cursor_forward_def insert_flag_def drop_extra_def Let_def cell_flag_defs)

text \<open>\<open>goto\<close> clamps the target to the screen, relative to the scrolling region in
  origin mode, clears the pending wrap and touches no cell.\<close>

theorem goto_clamps:
  assumes "handler_ok h"
  shows "\<exists>h'. goto fo row column h = Some h' \<and> handler_ok h' \<and>
     cur_row (h_cursor h') =
       (if bf_contains (h_mode h) ORIGIN then min (row + h_region_start h) (h_region_end h - 1)
        else min row (h_visible_rows h - 1)) \<and>
     cur_col (h_cursor h') = min column (h_columns h - 1) \<and>
     \<not> cur_input_needs_wrap (h_cursor h') \<and> grid_rows (h_grid h') = grid_rows (h_grid h)"
  using goto_eq [OF assms, of fo row column] by (auto dest: keeps_ok)

theorem goto_clamps_witness:
  "\<exists>h'. goto unit_flat 100 100 sample_handler = Some h' \<and> handler_ok h' \<and>
     cur_row (h_cursor h') =
       (if bf_contains (h_mode sample_handler) ORIGIN
        then min (100 + h_region_start sample_handler) (h_region_end sample_handler - 1)
        else min 100 (h_visible_rows sample_handler - 1)) \<and>
     cur_col (h_cursor h') = min 100 (h_columns sample_handler - 1) \<and>
     \<not> cur_input_needs_wrap (h_cursor h') \<and>
     grid_rows (h_grid h') = grid_rows (h_grid sample_handler)"
  by (rule goto_clamps [OF sample_ok])


section \<open>The screen as a matrix of cells\<close>

definition screen :: "'f handler \<Rightarrow> cell list list" where
  "screen h = map row_inner (grid_rows (h_grid h))"

abbreviation cursor_line :: "'f handler \<Rightarrow> cell list" where
  "cursor_line h \<equiv> screen h ! cur_row (h_cursor h)"

text \<open>A cell that is no half of a wide character.\<close>

definition plain_cell :: "cell \<Rightarrow> bool" where
  "plain_cell c \<longleftrightarrow> \<not> bf_intersects (c_flags c) (WIDE_CHAR OR WIDE_CHAR_SPACER)"

lemma plain_cellD:
  assumes "plain_cell c"
  shows "\<not> bf_contains (c_flags c) WIDE_CHAR" "\<not> bf_contains (c_flags c) WIDE_CHAR_SPACER"
proof -
  have *: "c_flags c AND (WIDE_CHAR OR WIDE_CHAR_SPACER) = 0"
    using assms by (simp add: plain_cell_def bf_intersects_def)
  have "c_flags c AND f = 0" if f: "f AND (WIDE_CHAR OR WIDE_CHAR_SPACER) = f" for f
  proof -
    have "c_flags c AND f = (c_flags c AND (WIDE_CHAR OR WIDE_CHAR_SPACER)) AND f"
      by (subst f [symmetric]) (simp only: ac_simps)
    then show ?thesis using * by simp
  qed
  from this [of WIDE_CHAR] this [of WIDE_CHAR_SPACER]
  show "\<not> bf_contains (c_flags c) WIDE_CHAR" "\<not> bf_contains (c_flags c) WIDE_CHAR_SPACER"
    by (simp_all add: bf_contains_def cell_flag_defs)
qed

lemma screen_dims:
  assumes "handler_ok h"
  shows "length (screen h) = h_visible_rows h" "i < h_visible_rows h \<Longrightarrow> length (screen h ! i) = h_columns h"
  using buf_ok_simps(7) [OF handler_okD(2) [OF assms]] grid_row_ok [OF handler_okD(2) [OF assms]]
  by (simp_all add: screen_def h_visible_rows_def h_columns_def row_ok_def row_len_def)

lemma slice_screen:
  assumes ok: "handler_ok h" and row: "row < h_visible_rows h"
    and f: "f (screen h ! row) = Some ys" "length ys = h_columns h"
  shows "\<exists>h'. h_mut_row row (row_mut_slice f) h = Some h' \<and> gstep h h' \<and> screen h' = (screen h)[row := ys]"
proof -
  let ?r = "grid_rows (h_grid h) ! row"
  have len: "row < length (grid_rows (h_grid h))"
    using screen_dims(1) [OF ok] row by (simp add: screen_def)
  have rok: "row_ok (h_columns h) ?r"
    using grid_row_ok [OF handler_okD(2) [OF ok]] row by (simp add: h_visible_rows_def h_columns_def)
  have f': "f (row_inner ?r) = Some ys" using f(1) len by (simp add: screen_def)
  have eq: "row_mut_slice f ?r = Some \<lparr>row_inner = ys, row_occ = row_len ?r\<rparr>" (is "_ = Some ?r'")
    using f' by (simp add: row_mut_slice_def)
  have "row_ok (h_columns h) ?r'"
    using row_mut_slice_ok [OF rok, of f] f' f(2) rok eq by (simp add: row_len_def row_ok_def)
  from h_mut_row_eq [where f = "row_mut_slice f", OF ok row eq this] show ?thesis
    using len by (auto simp: screen_def map_update)
qed

lemma wide_start_plain:
  assumes "col < length xs" "plain_cell (xs ! col)"
  shows "wide_start_cells n col bg xs = Some xs" "wide_end_cells col bg xs = Some xs"
  using assms plain_cellD [OF assms(2)] by (simp_all add: wide_start_cells_def wide_end_cells_def vec_get_def)

lemma wide_resets_plain:
  assumes ok: "handler_ok h" and rc: "row < h_visible_rows h" "col < h_columns h"
    and p: "plain_cell (screen h ! row ! col)"
  shows "\<exists>h'. reset_wide_char_at_start_boundary row col bg h = Some h' \<and> gstep h h' \<and> screen h' = screen h"
    "\<exists>h'. reset_wide_char_at_end_boundary row col bg h = Some h' \<and> gstep h h' \<and> screen h' = screen h"
  using slice_screen [OF ok rc(1), of _ "screen h ! row"] wide_start_plain [OF _ p] screen_dims [OF ok] rc
  by (fastforce simp: reset_wide_char_at_start_boundary_def reset_wide_char_at_end_boundary_def)+

text \<open>Both boundary repairs do nothing between plain cells, so an edit of the cursor line
  acts on the line as it is.\<close>

lemma bounded_edit_plain:
  assumes ok: "handler_ok h" and rc: "row < h_visible_rows h" "i < h_columns h"
    and p: "plain_cell (screen h ! row ! i)" "j < h_columns h \<Longrightarrow> plain_cell (screen h ! row ! j)"
    and k: "\<And>h2. gstep h h2 \<Longrightarrow> screen h2 = screen h \<Longrightarrow>
              \<exists>h'. k h2 = Some h' \<and> gstep h2 h' \<and> screen h' = (screen h)[row := ys]"
  shows "\<exists>h'. do { h1 \<leftarrow> reset_wide_char_at_start_boundary row i bg h;
                  h2 \<leftarrow> (if j < h_columns h then reset_wide_char_at_end_boundary row j bg h1 else Some h1);
                  k h2 } = Some h' \<and> gstep h h' \<and> screen h' = (screen h)[row := ys]"
proof -
  obtain h1 where h1: "reset_wide_char_at_start_boundary row i bg h = Some h1" "gstep h h1" "screen h1 = screen h"
    using wide_resets_plain(1) [OF ok rc p(1)] by blast
  note ok1 = gstep_ok [OF h1(2) ok] and s1 = gstep_simps(1,2) [OF h1(2)]
  obtain h2 where h2: "(if j < h_columns h then reset_wide_char_at_end_boundary row j bg h1 else Some h1) = Some h2"
      "gstep h1 h2" "screen h2 = screen h"
    using wide_resets_plain(2) [OF ok1, of row j bg] gstep_refl [OF ok1] h1(3) s1 rc(1) p(2) by (cases "j < h_columns h") auto
  show ?thesis
    using k [OF gstep_trans [OF h1(2) h2(2)] h2(3)] h1(1,2) h2(1,2) gstep_trans by fastforce
qed


section \<open>Deleting and erasing\<close>

text \<open>The loop \<open>for offset in 0..n { row.swap(s + offset, e + offset) }\<close> moves the cells
  at \<open>e\<close> down to \<open>s\<close>, whether or not the two ranges overlap.\<close>

lemma swap_shift:
  assumes "s \<le> e" "e + n \<le> length xs"
  shows "\<exists>ys. fold_m (\<lambda>k xs. vec_swap xs (s + k) (e + k)) [0..<n] xs = Some ys \<and> length ys = length xs \<and>
     (\<forall>i < length xs. (i < s \<longrightarrow> ys ! i = xs ! i) \<and> (s \<le> i \<and> i < s + n \<longrightarrow> ys ! i = xs ! (i - s + e)) \<and>
        (e + n \<le> i \<longrightarrow> ys ! i = xs ! i))"
  using assms(2)
proof (induction n)
  case (Suc n)
  then obtain ys where ys: "fold_m (\<lambda>k xs. vec_swap xs (s + k) (e + k)) [0..<n] xs = Some ys" "length ys = length xs"
      "\<And>i. i < length xs \<Longrightarrow> i < s \<Longrightarrow> ys ! i = xs ! i"
      "\<And>i. i < length xs \<Longrightarrow> s \<le> i \<Longrightarrow> i < s + n \<Longrightarrow> ys ! i = xs ! (i - s + e)"
      "\<And>i. i < length xs \<Longrightarrow> e + n \<le> i \<Longrightarrow> ys ! i = xs ! i"
    by fastforce
  have b: "s + n < length ys" "e + n < length ys" using Suc.prems assms(1) ys(2) by auto
  let ?z = "ys[s + n := ys ! (e + n), e + n := ys ! (s + n)]"
  have "fold_m (\<lambda>k xs. vec_swap xs (s + k) (e + k)) [0..<Suc n] xs = Some ?z"
    using ys(1) b by (simp add: fold_m_append vec_swap_def)
  moreover have "?z ! i = xs ! i" if "i < length xs" "i < s" for i
    using that ys(2,3) assms(1) by simp
  moreover have "?z ! i = xs ! (i - s + e)" if "i < length xs" "s \<le> i" "i < s + Suc n" for i
    using that ys(2,4) ys(5) [of "e + n"] b assms(1) by (cases "i = s + n") (auto simp: nth_list_update add.commute)
  moreover have "?z ! i = xs ! i" if "i < length xs" "e + Suc n \<le> i" for i
    using that ys(2,5) assms(1) by simp
  ultimately show ?case using ys(2) by auto
qed auto

lemma delete_cells:
  assumes "s < length xs" "0 < n"
    and "k = min n (length xs)" "e = min (s + k) (length xs - 1)"
  shows "do { ys \<leftarrow> fold_m (\<lambda>offset xs. vec_swap xs (s + offset) (e + offset)) [0..<length xs - e] xs;
              Some (map_range (length xs - k) (length ys) (\<lambda>_. b) ys) } =
         Some (take (min s (length xs - k)) xs @ drop (s + k) xs @ replicate k b)"
proof -
  let ?n = "length xs"
  have se: "s \<le> e" "e + (?n - e) \<le> ?n" using assms by auto
  obtain ys where ys: "fold_m (\<lambda>k xs. vec_swap xs (s + k) (e + k)) [0..<?n - e] xs = Some ys" "length ys = ?n"
      "\<And>i. i < ?n \<Longrightarrow> i < s \<Longrightarrow> ys ! i = xs ! i"
      "\<And>i. i < ?n \<Longrightarrow> s \<le> i \<Longrightarrow> i < s + (?n - e) \<Longrightarrow> ys ! i = xs ! (i - s + e)"
    using swap_shift [OF se] by blast
  have "map_range (?n - k) ?n (\<lambda>_. b) ys = take (min s (?n - k)) xs @ drop (s + k) xs @ replicate k b"
  proof (rule nth_equalityI)
    show "length (map_range (?n - k) ?n (\<lambda>_. b) ys) = length (take (min s (?n - k)) xs @ drop (s + k) xs @ replicate k b)"
      using assms(1,3) ys(2) by (auto simp: min_def)
  next
    fix i assume "i < length (map_range (?n - k) ?n (\<lambda>_. b) ys)"
    then have i: "i < ?n" using ys(2) by simp
    have k: "k \<le> ?n" and tl: "length (take (min s (?n - k)) xs @ drop (s + k) xs) = ?n - k"
      using assms(1,3) by (auto simp: min_def)
    show "map_range (?n - k) ?n (\<lambda>_. b) ys ! i = (take (min s (?n - k)) xs @ drop (s + k) xs @ replicate k b) ! i"
    proof (cases "i < ?n - k")
      case True
      then have "(take (min s (?n - k)) xs @ drop (s + k) xs @ replicate k b) ! i =
          (take (min s (?n - k)) xs @ drop (s + k) xs) ! i"
        using tl by (metis append.assoc nth_append)
      moreover have "map_range (?n - k) ?n (\<lambda>_. b) ys ! i = ys ! i" using True ys(2) i by (simp add: nth_map_range)
      moreover have "ys ! i = (take (min s (?n - k)) xs @ drop (s + k) xs) ! i"
      proof (cases "i < s")
        case False
        then have "e = s + k" "min s (?n - k) = s" using True assms by auto
        then show ?thesis using False True ys(4) [OF i] i by (simp add: nth_append add.commute)
      qed (use True ys(3) [OF i] i in \<open>simp add: nth_append\<close>)
      ultimately show ?thesis by simp
    next
      case False
      then have "(take (min s (?n - k)) xs @ drop (s + k) xs @ replicate k b) ! i = replicate k b ! (i - (?n - k))"
        using tl by (metis append.assoc nth_append)
      then show ?thesis using False ys(2) i by (simp add: nth_map_range)
    qed
  qed
  then show ?thesis using ys(1,2) by simp
qed

lemma delete_chars_cells:
  assumes ok: "handler_ok h" and pos: "0 < n" and p: "list_all plain_cell (cursor_line h)"
  defines "k \<equiv> min n (h_columns h)" and "s \<equiv> cur_col (h_cursor h)"
  shows "\<exists>h'. delete_chars n h = Some h' \<and> gstep h h' \<and>
     screen h' = (screen h)[cur_row (h_cursor h) :=
        take (min s (h_columns h - k)) (cursor_line h) @ drop (s + k) (cursor_line h) @
        replicate k (cell_from (c_bg (cur_template (h_cursor h))))]"
proof -
  note b = handler_okD [OF ok]
  let ?row = "cur_row (h_cursor h)" and ?n = "h_columns h" and ?bg = "c_bg (cur_template (h_cursor h))"
  let ?xs = "cursor_line h"
  let ?ys = "take (min s (?n - k)) ?xs @ drop (s + k) ?xs @ replicate k (cell_from ?bg)"
  define e where "e = min (s + k) (?n - 1)"
  let ?f = "\<lambda>xs. do {
          ys \<leftarrow> fold_m (\<lambda>offset xs. vec_swap xs (s + offset) (e + offset)) [0..<?n - e] xs;
          Some (map_range (?n - k) (length ys) (\<lambda>_. cell_from ?bg) ys) }"
  have len: "length ?xs = ?n" using screen_dims [OF ok] b(8) by simp
  have pl: "plain_cell (?xs ! i)" if "i < ?n" for i using p len that by (simp add: list_all_length)
  have f: "?f ?xs = Some ?ys" "length ?ys = ?n"
    using delete_cells [of s ?xs n k e "cell_from ?bg"] len b(9) pos by (auto simp: e_def k_def s_def)
  have "\<exists>h'. do { h1 \<leftarrow> reset_wide_char_at_start_boundary ?row s ?bg h;
                  h2 \<leftarrow> (if e < ?n then reset_wide_char_at_end_boundary ?row e ?bg h1 else Some h1);
                  h_mut_row ?row (row_mut_slice ?f) h2 } = Some h' \<and> gstep h h' \<and> screen h' = (screen h)[?row := ?ys]"
  proof (rule bounded_edit_plain [OF ok b(8)])
    fix h2 assume h2: "gstep h h2" "screen h2 = screen h"
    show "\<exists>h'. h_mut_row ?row (row_mut_slice ?f) h2 = Some h' \<and> gstep h2 h' \<and> screen h' = (screen h)[?row := ?ys]"
      using slice_screen [OF gstep_ok [OF h2(1) ok], of ?row ?f ?ys] f gstep_simps(1,2) [OF h2(1)] b(8) h2(2) by simp
  qed (use b(9) pl in \<open>simp_all add: s_def\<close>)
  moreover have "checked_sub ?n 1 = Some (?n - 1)" using b(3) by (simp add: checked_sub_def)
  moreover have "n \<noteq> 0" using pos by simp
  ultimately show ?thesis
    unfolding delete_chars_def Let_def grid_cursor_row_eq [OF ok]
    by (simp only: if_False bind.bind_lunit e_def k_def s_def)
qed


text \<open>deleting \<open>n\<close> characters that all lie on the line closes the gap: the cells left
  of the cursor stay, those after the deleted ones move left, and \<open>n\<close> blank cells with
  the current background fill the right end; no other line changes.\<close>

theorem delete_chars_correct:
  assumes "handler_ok h" "0 < n" "cur_col (h_cursor h) + n \<le> h_columns h" "list_all plain_cell (cursor_line h)"
  shows "\<exists>h'. delete_chars n h = Some h' \<and> h_cursor h' = h_cursor h \<and>
     screen h' = (screen h)[cur_row (h_cursor h) :=
        take (cur_col (h_cursor h)) (cursor_line h) @ drop (cur_col (h_cursor h) + n) (cursor_line h) @
        replicate n (cell_from (c_bg (cur_template (h_cursor h))))]"
proof -
  have "min n (h_columns h) = n" "min (cur_col (h_cursor h)) (h_columns h - n) = cur_col (h_cursor h)"
    using assms(3) by auto
  then show ?thesis
    using delete_chars_cells [OF assms(1,2,4)] by (auto simp: gstep_simps)
qed

text \<open>when fewer than \<open>n\<close> cells remain to the right of the cursor, the clamp is to the
  line's width and not to what remains, and cells to the left of the cursor are
  erased too: the line keeps only its first \<open>columns - n\<close> cells.\<close>

theorem delete_chars_overrun:
  assumes "handler_ok h" "0 < cur_col (h_cursor h)" "h_columns h < cur_col (h_cursor h) + n"
    and "list_all plain_cell (cursor_line h)"
  shows "\<exists>h'. delete_chars n h = Some h' \<and> h_columns h - n < cur_col (h_cursor h) \<and>
     screen h' = (screen h)[cur_row (h_cursor h) :=
        take (h_columns h - n) (cursor_line h) @
        replicate (min n (h_columns h)) (cell_from (c_bg (cur_template (h_cursor h))))]"
proof -
  note b = handler_okD(8,9) [OF assms(1)]
  have n: "0 < n" "h_columns h - n < cur_col (h_cursor h)" using assms(2,3) b(2) by auto
  have m: "h_columns h - min n (h_columns h) = h_columns h - n" by simp
  have "length (cursor_line h) = h_columns h" using screen_dims [OF assms(1)] b(1) by simp
  then have "drop (cur_col (h_cursor h) + min n (h_columns h)) (cursor_line h) = []" using assms(3) by (auto simp: min_def)
  moreover have "min (cur_col (h_cursor h)) (h_columns h - n) = h_columns h - n" using n(2) by simp
  ultimately show ?thesis
    using delete_chars_cells [OF assms(1) n(1) assms(4)] n(2) by (auto simp: m)
qed

text \<open>A fresh screen is blank.\<close>

lemma screen_new:
  assumes "0 < rows" "0 < columns"
  shows "screen (handler_new rows columns alt sq fl) = replicate rows (replicate columns cell_default)"
proof -
  let ?s = "sto_with_capacity rows columns sq"
  have "sto_idx ?s i < rows" if "i < rows" for i
    using that by (simp add: sto_idx_def sto_with_capacity_def sto_with_rows_def Let_def)
  then have "storage_rows ?s = replicate rows (row_new columns)"
    by (intro nth_equalityI) (simp_all add: storage_rows_def sto_with_capacity_def sto_with_rows_def)
  then show ?thesis
    by (simp add: screen_def handler_new_def grid_new_def grid_rows_def row_new_def)
qed

text \<open>The sample terminal with its cursor at column 2 of 4.\<close>

definition sample_mid :: "unit handler" where
  "sample_mid = move_forward 2 sample_handler"

lemma sample_mid_facts:
  "handler_ok sample_mid" "h_columns sample_mid = 4" "h_visible_rows sample_mid = 3"
  "cur_row (h_cursor sample_mid) = 0" "cur_col (h_cursor sample_mid) = 2"
  "screen sample_mid = replicate 3 (replicate 4 cell_default)"
  "\<not> cur_input_needs_wrap (h_cursor sample_mid)" "list_all plain_cell (replicate 4 cell_default)"
  "cur_template (h_cursor sample_mid) = cell_default" "h_mode sample_mid = term_mode_default"
  "h_active_charset sample_mid = G0" "cur_charsets (h_cursor sample_mid) = (\<lambda>_. Ascii)"
proof -
  show "handler_ok sample_mid" by (simp add: sample_mid_def horizontal_moves_ok sample_ok)
  show "screen sample_mid = replicate 3 (replicate 4 cell_default)"
    using screen_new [of 3 4 False False "()"]
    by (simp add: sample_mid_def move_forward_def screen_def sample_handler_def)
qed (simp_all add: sample_mid_def move_forward_def move_cursor_forward_def sample_handler_def handler_new_def
       grid_new_def cursor_default_def h_columns_def h_visible_rows_def list_all_iff plain_cell_def
       cell_default_def bf_defs)

theorem delete_chars_correct_witness:
  "\<exists>h'. delete_chars 1 sample_mid = Some h' \<and> h_cursor h' = h_cursor sample_mid \<and>
     screen h' = (screen sample_mid)[cur_row (h_cursor sample_mid) :=
        take (cur_col (h_cursor sample_mid)) (cursor_line sample_mid) @
        drop (cur_col (h_cursor sample_mid) + 1) (cursor_line sample_mid) @
        replicate 1 (cell_from (c_bg (cur_template (h_cursor sample_mid))))]"
  by (rule delete_chars_correct) (simp_all add: sample_mid_facts)

theorem delete_chars_overrun_witness:
  "\<exists>h'. delete_chars 3 sample_mid = Some h' \<and> h_columns sample_mid - 3 < cur_col (h_cursor sample_mid) \<and>
     screen h' = (screen sample_mid)[cur_row (h_cursor sample_mid) :=
        take (h_columns sample_mid - 3) (cursor_line sample_mid) @
        replicate (min 3 (h_columns sample_mid)) (cell_from (c_bg (cur_template (h_cursor sample_mid))))]"
  by (rule delete_chars_overrun) (simp_all add: sample_mid_facts)


section \<open>Printing\<close>

text \<open>The cell that printing \<open>ch\<close> leaves: the character through the active character
  set, the attributes of the cursor's template, no zero-width characters; only an
  end-of-prompt mark of the overwritten cell stays.\<close>

definition print_cell :: "'f handler \<Rightarrow> rust_char \<Rightarrow> cell \<Rightarrow> cell" where
  "print_cell h ch old =
     (let t = cur_template (h_cursor h)
      in \<lparr>c_char = charset_map (cur_charsets (h_cursor h) (h_active_charset h)) ch,
          c_fg = c_fg t, c_bg = c_bg t, c_flags = c_flags t, c_extra = c_extra (drop_extra old)\<rparr>)"

lemma cursor_cell_screen:
  assumes ok: "handler_ok h"
  shows "\<exists>h'. on_grid (g_cursor_cell f) h = Some h' \<and> gstep h h' \<and>
     screen h' = (screen h)[cur_row (h_cursor h) :=
        (cursor_line h)[cur_col (h_cursor h) := f (cursor_line h ! cur_col (h_cursor h))]]"
proof -
  have len: "cur_row (h_cursor h) < length (grid_rows (h_grid h))"
    using screen_dims(1) [OF ok] handler_okD(8) [OF ok] by (simp add: screen_def)
  obtain g' where "g_cursor_cell f (h_grid h) = Some g'" "buf_ok g'" "same_frame (h_grid h) g'"
     "grid_rows g' = (grid_rows (h_grid h))[cur_row (h_cursor h) :=
        \<lparr>row_inner = (row_inner (grid_rows (h_grid h) ! cur_row (h_cursor h)))
            [cur_col (h_cursor h) := f (row_inner (grid_rows (h_grid h) ! cur_row (h_cursor h)) ! cur_col (h_cursor h))],
         row_occ = max (row_occ (grid_rows (h_grid h) ! cur_row (h_cursor h))) (cur_col (h_cursor h) + 1)\<rparr>]"
    using g_cursor_cell_eq [OF handler_okD(2) [OF ok], of f] handler_okD(1) [OF ok] by (auto simp: grid_ok_def)
  then show ?thesis
    using len by (auto simp: on_grid_def gstep_def screen_def map_update)
qed

lemma write_at_cursor_plain:
  assumes ok: "handler_ok h" and p: "plain_cell (cursor_line h ! cur_col (h_cursor h))"
  shows "\<exists>h'. write_at_cursor ch id h = Some h' \<and> gstep h h' \<and>
     screen h' = (screen h)[cur_row (h_cursor h) := (cursor_line h)[cur_col (h_cursor h) :=
        print_cell h ch (cursor_line h ! cur_col (h_cursor h))]]"
proof -
  note b = handler_okD(8,9) [OF ok]
  have cell: "h_cell (cur_row (h_cursor h)) (cur_col (h_cursor h)) h = Some (cursor_line h ! cur_col (h_cursor h))"
    using h_cell_eq [OF ok b] screen_dims(1) [OF ok] b(1) by (simp add: screen_def)
  let ?f = "\<lambda>c. id ((drop_extra c)\<lparr>c_char := charset_map (cur_charsets (h_cursor h) (h_active_charset h)) ch,
      c_fg := c_fg (cur_template (h_cursor h)), c_bg := c_bg (cur_template (h_cursor h)),
      c_flags := c_flags (cur_template (h_cursor h))\<rparr>)"
  have f: "?f = print_cell h ch" by (rule ext) (simp add: print_cell_def Let_def)
  have "write_at_cursor ch id h = on_grid (g_cursor_cell ?f) h"
    using p cell grid_cursor_row_eq [OF ok]
    by (simp add: write_at_cursor_def unlink_wide_char_def plain_cell_def Let_def)
  then show ?thesis using cursor_cell_screen [OF ok, of "print_cell h ch"] unfolding f by simp
qed

lemma input_plain:
  assumes ok: "handler_ok h" and w: "cw ch = Some 1" and m: "\<not> bf_contains (h_mode h) INSERT"
    and nw: "\<not> cur_input_needs_wrap (h_cursor h)" and p: "plain_cell (cursor_line h ! cur_col (h_cursor h))"
  shows "\<exists>h'. input fo cw sw ch h = Some h' \<and> keeps h h' \<and> h_active_charset h' = h_active_charset h \<and>
     h_cursor h' = (h_cursor h)\<lparr>cur_col := min (cur_col (h_cursor h) + 1) (h_columns h - 1),
                                cur_input_needs_wrap := (cur_col (h_cursor h) + 1 = h_columns h)\<rparr> \<and>
     screen h' = (screen h)[cur_row (h_cursor h) := (cursor_line h)[cur_col (h_cursor h) :=
        print_cell h ch (cursor_line h ! cur_col (h_cursor h))]]"
proof -
  obtain h1 where h1: "write_at_cursor ch id h = Some h1" "gstep h h1"
      "screen h1 = (screen h)[cur_row (h_cursor h) := (cursor_line h)[cur_col (h_cursor h) :=
        print_cell h ch (cursor_line h ! cur_col (h_cursor h))]]"
    using write_at_cursor_plain [OF ok p] by blast
  note s = gstep_simps [OF h1(2)]
  let ?h = "advance_cursor_by_one_cell h1"
  have "input fo cw sw ch h = Some ?h"
    using w m nw h1(1) by (simp add: input_def input_insert_shift_def)
  moreover have "keeps h ?h"
    using keeps_trans [OF gstep_keeps [OF ok h1(2)] keeps_advance [OF gstep_ok [OF h1(2) ok]]] .
  moreover have "h_cursor ?h = (h_cursor h)\<lparr>cur_col := min (cur_col (h_cursor h) + 1) (h_columns h - 1),
                                cur_input_needs_wrap := (cur_col (h_cursor h) + 1 = h_columns h)\<rparr>"
    using handler_okD(9) [OF ok] nw s(1,3)
    by (cases "cur_col (h_cursor h) + 1 < h_columns h") (auto simp: advance_cursor_by_one_cell_def intro!: cursor.equality)
  moreover have "screen ?h = screen h1" "h_active_charset ?h = h_active_charset h1"
    by (simp_all add: advance_cursor_by_one_cell_def screen_def move_cursor_forward_def grid_rows_def)
  ultimately show ?thesis using h1(3) s(6) by simp
qed

text \<open>C40: printing a run of single-width characters that fits on the line writes exactly
  these characters, with the current attributes, from the cursor on; nothing else on
  the screen changes; the cursor ends behind the text, or on the last column with a
  wrap pending when the text fills the line.\<close>

theorem print_text_correct:
  assumes "handler_ok h" "\<forall>ch \<in> set s. cw ch = Some 1" "\<not> bf_contains (h_mode h) INSERT"
    "\<not> cur_input_needs_wrap (h_cursor h)" "cur_col (h_cursor h) + length s \<le> h_columns h"
    "list_all plain_cell (drop (cur_col (h_cursor h)) (cursor_line h))"
  shows "\<exists>h'. fold_m (input fo cw sw) s h = Some h' \<and> handler_ok h' \<and>
     screen h' = (screen h)[cur_row (h_cursor h) :=
        take (cur_col (h_cursor h)) (cursor_line h) @ map2 (print_cell h) s (drop (cur_col (h_cursor h)) (cursor_line h)) @
        drop (cur_col (h_cursor h) + length s) (cursor_line h)] \<and>
     h_cursor h' = (h_cursor h)\<lparr>cur_col := min (cur_col (h_cursor h) + length s) (h_columns h - 1),
                                cur_input_needs_wrap := (cur_col (h_cursor h) + length s = h_columns h)\<rparr>"
  using assms
proof (induction s arbitrary: h)
  case Nil
  then have "h_cursor h = (h_cursor h)\<lparr>cur_col := min (cur_col (h_cursor h)) (h_columns h - 1),
      cur_input_needs_wrap := (cur_col (h_cursor h) = h_columns h)\<rparr>"
    using handler_okD(9) [OF Nil(1)] by (intro cursor.equality) auto
  then show ?case using Nil by simp
next
  case (Cons ch s)
  note ok = Cons.prems(1)
  note b = handler_okD(8,9) [OF ok]
  let ?row = "cur_row (h_cursor h)" and ?col = "cur_col (h_cursor h)" and ?xs = "cursor_line h"
  let ?p = "print_cell h ch (?xs ! ?col)"
  have len: "length ?xs = h_columns h" "?row < length (screen h)" using screen_dims [OF ok] b(1) by auto
  have d: "drop ?col ?xs = ?xs ! ?col # drop (Suc ?col) ?xs" using len(1) b(2) by (simp add: Cons_nth_drop_Suc)
  have t: "take (Suc ?col) (?xs[?col := ?p]) = take ?col ?xs @ [?p]"
    using len(1) b(2) by (simp add: take_Suc_conv_app_nth)
  have p: "plain_cell (?xs ! ?col)" using Cons.prems(6) d by simp
  obtain h1 where h1: "input fo cw sw ch h = Some h1" "keeps h h1" "h_active_charset h1 = h_active_charset h"
     "h_cursor h1 = (h_cursor h)\<lparr>cur_col := min (?col + 1) (h_columns h - 1),
                                cur_input_needs_wrap := (?col + 1 = h_columns h)\<rparr>"
     "screen h1 = (screen h)[?row := ?xs[?col := ?p]]"
    using input_plain [OF ok _ Cons.prems(3,4) p, of cw ch fo sw] Cons.prems(2) by auto
  show ?case
  proof (cases "?col + 1 = h_columns h")
    case True
    then have "length s = 0" using Cons.prems(5) by (simp del: length_0_conv)
    then have "s = []" by simp
    moreover have "?xs[?col := ?p] = take ?col ?xs @ [?p] @ drop (Suc ?col) ?xs"
      using len(1) b(2) by (simp add: upd_conv_take_nth_drop)
    ultimately show ?thesis using h1 d True keeps_ok [OF h1(2)] by simp
  next
    case False
    then have c1: "?col + 1 < h_columns h" using b(2) by simp
    have xs1: "cursor_line h1 = ?xs[?col := ?p]" using h1(4,5) len(2) by simp
    have pc: "print_cell h1 = print_cell h" using h1(3,4) by (intro ext) (simp add: print_cell_def)
    obtain h2 where h2: "fold_m (input fo cw sw) s h1 = Some h2" "handler_ok h2"
       "screen h2 = (screen h1)[?row := take (Suc ?col) (?xs[?col := ?p]) @
          map2 (print_cell h) s (drop (Suc ?col) ?xs) @ drop (Suc ?col + length s) ?xs]"
       "h_cursor h2 = (h_cursor h1)\<lparr>cur_col := min (Suc ?col + length s) (h_columns h - 1),
          cur_input_needs_wrap := (Suc ?col + length s = h_columns h)\<rparr>"
      using Cons.IH [of h1] Cons.prems(2,3,5,6) h1(2,4) c1 xs1 pc d by (auto simp: keeps_def)
    have "screen h2 = (screen h)[?row := take ?col ?xs @ map2 (print_cell h) (ch # s) (drop ?col ?xs) @
        drop (?col + length (ch # s)) ?xs]"
      unfolding h2(3) h1(5) t d by simp
    then show ?thesis using h1(1,4) h2 by simp
  qed
qed

theorem print_text_correct_witness:
  "\<exists>h'. fold_m (input unit_flat (\<lambda>_. Some 1) length) [0x68, 0x69] sample_mid = Some h' \<and> handler_ok h' \<and>
     screen h' = (screen sample_mid)[cur_row (h_cursor sample_mid) :=
        take (cur_col (h_cursor sample_mid)) (cursor_line sample_mid) @
        map2 (print_cell sample_mid) [0x68, 0x69] (drop (cur_col (h_cursor sample_mid)) (cursor_line sample_mid)) @
        drop (cur_col (h_cursor sample_mid) + length [0x68, 0x69 :: rust_char]) (cursor_line sample_mid)] \<and>
     h_cursor h' = (h_cursor sample_mid)\<lparr>
        cur_col := min (cur_col (h_cursor sample_mid) + length [0x68, 0x69 :: rust_char]) (h_columns sample_mid - 1),
        cur_input_needs_wrap := (cur_col (h_cursor sample_mid) + length [0x68, 0x69 :: rust_char] = h_columns sample_mid)\<rparr>"
proof (rule print_text_correct)
  show "\<not> bf_contains (h_mode sample_mid) INSERT"
    by (simp add: sample_mid_facts term_mode_default_def term_mode_flag_defs bf_defs)
qed (use sample_mid_facts(8) in \<open>simp_all add: sample_mid_facts list_all_iff\<close>)


section \<open>Keyboard modes\<close>

lemma set_keyboard_mode_simps [simp]:
  "h_keyboard_stack (set_keyboard_mode m b h) = h_keyboard_stack h"
  "h_keyboard_mode (set_keyboard_mode m Replace h) = m"
  "h_mode (set_keyboard_mode m Replace h) = (h_mode h AND NOT KEYBOARD_PROTOCOL) OR term_mode_from m"
  by (simp_all add: set_keyboard_mode_def Let_def)

lemma push_all:
  assumes "length (h_keyboard_stack h) + length ms \<le> KEYBOARD_MODE_STACK_MAX_DEPTH"
  shows "h_keyboard_stack (fold push_keyboard_mode ms h) = h_keyboard_stack h @ ms \<and>
         h_mode (fold push_keyboard_mode ms h) AND NOT KEYBOARD_PROTOCOL = h_mode h AND NOT KEYBOARD_PROTOCOL"
  using assms
proof (induction ms arbitrary: h)
  case (Cons m ms)
  let ?h = "push_keyboard_mode m h"
  have "h_keyboard_stack ?h = h_keyboard_stack h @ [m]"
    using Cons.prems by (simp add: push_keyboard_mode_def bounded_push_def Let_def)
  moreover have "h_mode ?h AND NOT KEYBOARD_PROTOCOL = h_mode h AND NOT KEYBOARD_PROTOCOL"
    using keyboard_sync(2) [OF refl] by (simp add: push_keyboard_mode_def)
  ultimately show ?case using Cons.IH [of ?h] Cons.prems by simp
qed simp

text \<open>pushing a list of keyboard modes and popping as many gives back the stack that
  was there, as long as the stack stays within its bound, and makes its top (or no
  mode) current again; the terminal mode's keyboard bits follow and its other bits
  are untouched.\<close>

theorem keyboard_push_pop:
  assumes "length (h_keyboard_stack h) + length ms \<le> KEYBOARD_MODE_STACK_MAX_DEPTH"
  defines "h' \<equiv> pop_keyboard_modes (length ms) (fold push_keyboard_mode ms h)"
  defines "restored \<equiv> (if h_keyboard_stack h = [] then NO_MODE else last (h_keyboard_stack h))"
  shows "h_keyboard_stack h' = h_keyboard_stack h \<and> h_keyboard_mode h' = restored \<and>
         h_mode h' AND KEYBOARD_PROTOCOL = term_mode_from restored \<and>
         h_mode h' AND NOT KEYBOARD_PROTOCOL = h_mode h AND NOT KEYBOARD_PROTOCOL"
  using push_all [OF assms(1)] keyboard_sync [OF refl, of "h_mode (fold push_keyboard_mode ms h)" restored]
  by (cases "h_keyboard_stack h = []") (simp_all add: h'_def restored_def pop_keyboard_modes_def Let_def)

theorem keyboard_push_pop_witness:
  "h_keyboard_stack (pop_keyboard_modes (length [1, 5::u32]) (fold push_keyboard_mode [1, 5] sample_handler)) =
     h_keyboard_stack sample_handler \<and>
   h_keyboard_mode (pop_keyboard_modes (length [1, 5::u32]) (fold push_keyboard_mode [1, 5] sample_handler)) =
     (if h_keyboard_stack sample_handler = [] then NO_MODE else last (h_keyboard_stack sample_handler)) \<and>
   h_mode (pop_keyboard_modes (length [1, 5::u32]) (fold push_keyboard_mode [1, 5] sample_handler)) AND KEYBOARD_PROTOCOL =
     term_mode_from (if h_keyboard_stack sample_handler = [] then NO_MODE else last (h_keyboard_stack sample_handler)) \<and>
   h_mode (pop_keyboard_modes (length [1, 5::u32]) (fold push_keyboard_mode [1, 5] sample_handler)) AND NOT KEYBOARD_PROTOCOL =
     h_mode sample_handler AND NOT KEYBOARD_PROTOCOL"
  by (rule keyboard_push_pop)
     (simp add: sample_handler_def handler_new_def KEYBOARD_MODE_STACK_MAX_DEPTH_def)

section \<open>Mouse modes\<close>

datatype mode_op = OpSet mode | OpUnset mode

fun apply_mode_op :: "'f flat_ops \<Rightarrow> mode_op \<Rightarrow> 'f handler \<Rightarrow> 'f handler option" where
  "apply_mode_op fo (OpSet m) h = set_mode fo m h"
| "apply_mode_op fo (OpUnset m) h = unset_mode fo m h"

definition mouse_exclusive :: "u32 \<Rightarrow> bool" where
  "mouse_exclusive m \<longleftrightarrow>
     \<not> (bf_contains m MOUSE_REPORT_CLICK \<and> bf_contains m MOUSE_DRAG) \<and>
     \<not> (bf_contains m MOUSE_REPORT_CLICK \<and> bf_contains m MOUSE_MOTION) \<and>
     \<not> (bf_contains m MOUSE_DRAG \<and> bf_contains m MOUSE_MOTION) \<and>
     \<not> (bf_contains m SGR_MOUSE \<and> bf_contains m UTF8_MOUSE)"

lemma bf_contains_exp:
  fixes m :: u32
  assumes "k < 32"
  shows "bf_contains m (push_bit k 1) \<longleftrightarrow> bit m k"
proof
  assume "bf_contains m (push_bit k 1)"
  then have "bit (m AND push_bit k 1) k = bit (push_bit k 1 :: u32) k" by (simp add: bf_contains_def)
  then show "bit m k" using assms by (simp add: bit_simps)
next
  assume "bit m k"
  then show "bf_contains m (push_bit k 1)"
    unfolding bf_contains_def by (intro bit_word_eqI) (auto simp: bit_and_iff bit_exp_iff)
qed

lemma mouse_flags_bits:
  "bf_contains m MOUSE_REPORT_CLICK \<longleftrightarrow> bit m 3" "bf_contains m MOUSE_MOTION \<longleftrightarrow> bit m 6"
  "bf_contains m MOUSE_DRAG \<longleftrightarrow> bit m 13" "bf_contains m SGR_MOUSE \<longleftrightarrow> bit m 5"
  "bf_contains m UTF8_MOUSE \<longleftrightarrow> bit m 14"
  using bf_contains_exp [of 3 m] bf_contains_exp [of 6 m] bf_contains_exp [of 13 m] bf_contains_exp [of 5 m]
    bf_contains_exp [of 14 m] by (simp_all add: term_mode_flag_defs push_bit_eq_mult)

lemma deccolm_mode: "deccolm fo h = Some h' \<Longrightarrow> h_mode h' = h_mode h"
  by (auto simp: deccolm_def set_scrolling_region_def goto_def on_grid_def Let_def
      split: bind_splits if_splits option.splits)

lemma exclusive_remove: "mouse_exclusive m \<Longrightarrow> mouse_exclusive (bf_remove m f)"
  by (auto simp: mouse_exclusive_def mouse_flags_bits bf_remove_def bit_simps)

lemma exclusive_insert:
  assumes "\<not> bit f 3" "\<not> bit f 5" "\<not> bit f 6" "\<not> bit f 13" "\<not> bit f 14"
  shows "mouse_exclusive (bf_insert m f) = mouse_exclusive m"
  using assms by (simp add: mouse_exclusive_def mouse_flags_bits bf_insert_def bit_simps)

lemma exclusive_mouse:
  assumes "mouse_exclusive m"
  shows "mouse_exclusive (bf_insert (bf_remove m MOUSE_MODE) MOUSE_REPORT_CLICK)"
    "mouse_exclusive (bf_insert (bf_remove m MOUSE_MODE) MOUSE_DRAG)"
    "mouse_exclusive (bf_insert (bf_remove m MOUSE_MODE) MOUSE_MOTION)"
    "mouse_exclusive (bf_insert (bf_remove m UTF8_MOUSE) SGR_MOUSE)"
    "mouse_exclusive (bf_insert (bf_remove m SGR_MOUSE) UTF8_MOUSE)"
proof -
  have set: "bit MOUSE_MODE n \<longleftrightarrow> n = 3 \<or> n = 6 \<or> n = 13" "bit MOUSE_REPORT_CLICK n \<longleftrightarrow> n = 3"
    "bit MOUSE_DRAG n \<longleftrightarrow> n = 13" "bit MOUSE_MOTION n \<longleftrightarrow> n = 6" "bit UTF8_MOUSE n \<longleftrightarrow> n = 14"
    "bit SGR_MOUSE n \<longleftrightarrow> n = 5" if "n \<in> {3, 5, 6, 13, 14}" for n
    using that by (auto simp: term_mode_flag_defs)
  show "mouse_exclusive (bf_insert (bf_remove m MOUSE_MODE) MOUSE_REPORT_CLICK)"
    "mouse_exclusive (bf_insert (bf_remove m MOUSE_MODE) MOUSE_DRAG)"
    "mouse_exclusive (bf_insert (bf_remove m MOUSE_MODE) MOUSE_MOTION)"
    "mouse_exclusive (bf_insert (bf_remove m UTF8_MOUSE) SGR_MOUSE)"
    "mouse_exclusive (bf_insert (bf_remove m SGR_MOUSE) UTF8_MOUSE)"
    using assms
    by (simp_all add: mouse_exclusive_def mouse_flags_bits bf_insert_def bf_remove_def bit_or_iff
        bit_and_iff bit_not_iff_eq set)
qed

lemma other_modes_bits:
  assumes "f \<in> {URGENCY_HINTS, SHOW_CURSOR, APP_CURSOR, FOCUS_IN_OUT, BRACKETED_PASTE, ALTERNATE_SCROLL,
      LINE_WRAP, LINE_FEED_NEW_LINE, ORIGIN, INSERT}"
  shows "mouse_exclusive (bf_insert m f) = mouse_exclusive m"
  by (rule exclusive_insert) (use assms in \<open>auto simp: term_mode_flag_defs\<close>)

lemma mode_op_exclusive:
  assumes "mouse_exclusive (h_mode h)"
  shows "pred_option (\<lambda>h'. mouse_exclusive (h_mode h')) (apply_mode_op fo p h)"
proof -
  have deccolm: "pred_option (\<lambda>h'. mouse_exclusive (h_mode h')) (deccolm fo h)"
    using assms deccolm_mode [of fo h] by (cases "deccolm fo h") auto
  show ?thesis
  proof (cases p)
    case (OpSet m)
    then show ?thesis
      using assms deccolm
      by (cases m; simp add: h_insert_mode_def h_remove_mode_def other_modes_bits exclusive_mouse)
  next
    case (OpUnset m)
    then show ?thesis
      using assms deccolm
      by (cases m; simp add: h_insert_mode_def h_remove_mode_def exclusive_remove)
  qed
qed

text \<open>whatever sequence of modes a program sets and resets on a fresh terminal, at most
  one of the three mouse-tracking modes and at most one of the two mouse encodings is
  on.\<close>

theorem mouse_modes_exclusive:
  assumes "fold_m (apply_mode_op fo) ops (handler_new rows columns alt sq fl) = Some h"
  shows "mouse_exclusive (h_mode h)"
proof -
  have "mouse_exclusive (h_mode h2)" if "fold_m (apply_mode_op fo) ps h1 = Some h2" "mouse_exclusive (h_mode h1)"
    for ps h1 h2
    using that
  proof (induction ps arbitrary: h1)
    case (Cons a ps)
    then obtain h3 where "apply_mode_op fo a h1 = Some h3" "fold_m (apply_mode_op fo) ps h3 = Some h2"
      by (auto simp: bind_eq_Some_conv)
    then show ?case using Cons.IH [of h3] mode_op_exclusive [OF Cons.prems(2), of fo a] by simp
  qed simp
  moreover have "mouse_exclusive (h_mode (handler_new rows columns alt sq fl))"
    by (simp add: mouse_exclusive_def handler_new_def term_mode_default_def term_mode_flag_defs bf_defs)
  ultimately show ?thesis using assms by blast
qed

theorem mouse_modes_exclusive_witness:
  "mouse_exclusive (h_mode (h_insert_mode MOUSE_MOTION (h_remove_mode MOUSE_MODE
     (h_insert_mode MOUSE_DRAG (h_remove_mode MOUSE_MODE sample_handler)))))"
  by (rule mouse_modes_exclusive [of unit_flat "[OpSet ReportCellMouseMotion, OpSet ReportAllMouseMotion]" 3 4 False False "()"])
     (simp add: sample_handler_def)


section \<open>Scrollback\<close>

text \<open>C3: scrolling a region of the main screen up by \<open>n\<close> lines appends exactly the \<open>n\<close>
  top lines of the region, in order and with their contents, to the scrollback, moves
  the other lines of the region up and blanks the bottom; on the alternate screen
  the scrollback is untouched.\<close>

theorem scroll_region_up_scrollback:
  assumes "handler_ok h" "a \<le> b" "b \<le> h_visible_rows h" "a \<noteq> 0 \<or> n \<le> b"
  shows "\<exists>h'. scroll_region_up fo a b n h = Some h' \<and> handler_ok h' \<and>
     h_flat h' = fold (fo_push_row fo)
        (if h_is_alt_screen h then [] else take (min n (b - a)) (drop a (grid_rows (h_grid h)))) (h_flat h) \<and>
     grid_rows (h_grid h') =
        take a (grid_rows (h_grid h)) @ drop (a + n) (take b (grid_rows (h_grid h))) @
        replicate (min n (b - a)) (row_blank (h_columns h) (c_bg (cur_template (h_cursor h)))) @
        drop b (grid_rows (h_grid h))"
  using scroll_region_up_eq [OF assms, of fo]
  by (auto simp: scrolled_out_def scroll_up_rows_def dest: keeps_ok)

theorem scroll_region_up_scrollback_witness:
  "\<exists>h'. scroll_region_up unit_flat 0 3 1 sample_handler = Some h' \<and> handler_ok h' \<and>
     h_flat h' = fold (fo_push_row unit_flat)
        (if h_is_alt_screen sample_handler then []
         else take (min 1 (3 - 0)) (drop 0 (grid_rows (h_grid sample_handler)))) (h_flat sample_handler) \<and>
     grid_rows (h_grid h') =
        take 0 (grid_rows (h_grid sample_handler)) @ drop (0 + 1) (take 3 (grid_rows (h_grid sample_handler))) @
        replicate (min 1 (3 - 0)) (row_blank (h_columns sample_handler) (c_bg (cur_template (h_cursor sample_handler)))) @
        drop 3 (grid_rows (h_grid sample_handler))"
  by (rule scroll_region_up_scrollback) (simp_all add: sample_ok sample_simps)

text \<open>clearing the whole main screen moves every line of it into the scrollback, blank
  lines included, so clearing an empty screen adds a screenful of blank lines.\<close>

theorem clear_viewport_pushes_every_line:
  assumes "handler_ok h"
  shows "\<exists>h'. clear_viewport fo h = Some h' \<and> handler_ok h' \<and>
     h_flat h' = fold (fo_push_row fo) (if h_is_alt_screen h then [] else grid_rows (h_grid h)) (h_flat h) \<and>
     grid_rows (h_grid h') = replicate (h_visible_rows h) (row_blank (h_columns h) (c_bg (cur_template (h_cursor h))))"
  using clear_viewport_eq [OF assms, of fo] by (auto dest: keeps_ok)

theorem clear_viewport_pushes_every_line_witness:
  "\<exists>h'. clear_viewport unit_flat sample_handler = Some h' \<and> handler_ok h' \<and>
     h_flat h' = fold (fo_push_row unit_flat)
        (if h_is_alt_screen sample_handler then [] else grid_rows (h_grid sample_handler)) (h_flat sample_handler) \<and>
     grid_rows (h_grid h') = replicate (h_visible_rows sample_handler)
        (row_blank (h_columns sample_handler) (c_bg (cur_template (h_cursor sample_handler))))"
  by (rule clear_viewport_pushes_every_line [OF sample_ok])

section \<open>Clearing above the cursor\<close>

lemma h_mut_row_frame:
  assumes ok: "handler_ok h" and i: "i < h_visible_rows h"
    and f: "\<And>r. row_ok (h_columns h) r \<Longrightarrow> \<exists>r'. f r = Some r' \<and> row_ok (h_columns h) r'"
  shows "\<exists>h'. h_mut_row i f h = Some h' \<and> gstep h h' \<and> (\<forall>j. j \<noteq> i \<longrightarrow> screen h' ! j = screen h ! j)"
proof -
  have "row_ok (h_columns h) (grid_rows (h_grid h) ! i)"
    using grid_row_ok [OF handler_okD(2) [OF ok]] i by (simp add: h_visible_rows_def h_columns_def)
  then obtain r where r: "f (grid_rows (h_grid h) ! i) = Some r" "row_ok (h_columns h) r" using f by blast
  obtain h' where "h_mut_row i f h = Some h'" "gstep h h'" "grid_rows (h_grid h') = (grid_rows (h_grid h))[i := r]"
    using h_mut_row_eq [where f = f, OF ok i r] by blast
  then show ?thesis by (auto simp: screen_def map_update)
qed

text \<open>erasing from the top of the screen to the cursor leaves line 0 as it is when the
  cursor is on line 1: the guard for the lines above is \<open>row > 1\<close>.\<close>

theorem clear_above_skips_line_zero:
  assumes ok: "handler_ok h" and row: "cur_row (h_cursor h) = 1"
  shows "\<exists>h'. clear_screen fo Above h = Some h' \<and> screen h' ! 0 = screen h ! 0"
proof -
  let ?h = "h\<lparr>h_flat := fo_clear fo (h_flat h)\<rparr>" and ?bg = "c_bg (cur_template (h_cursor h))"
  let ?e = "min (cur_col (h_cursor h) + 1) (h_columns h)"
  have ok1: "handler_ok ?h" and s: "h_columns ?h = h_columns h" "h_visible_rows ?h = h_visible_rows h" "screen ?h = screen h"
    using ok by (simp_all add: h_columns_def h_visible_rows_def screen_def)
  have rc: "1 < h_visible_rows ?h" "?e \<le> h_columns h" using handler_okD(8) [OF ok] row s by auto
  have "\<exists>h3. (if ?e < h_columns h then reset_wide_char_at_end_boundary 1 ?e ?bg ?h else Some ?h) = Some h3 \<and>
          gstep ?h h3 \<and> screen h3 ! 0 = screen h ! 0"
  proof (cases "?e < h_columns h")
    case True
    have "\<exists>r'. row_mut_slice (wide_end_cells ?e ?bg) r = Some r' \<and> row_ok (h_columns ?h) r'"
      if r: "row_ok (h_columns ?h) r" for r
      using wide_end_cells_len [of ?e "row_inner r" ?bg] True r s(1)
      by (intro row_mut_slice_ok [OF r]) (simp add: row_ok_def row_len_def)
    from h_mut_row_frame [where f = "row_mut_slice (wide_end_cells ?e ?bg)", OF ok1 rc(1) this]
    show ?thesis using True s(3) by (auto simp: reset_wide_char_at_end_boundary_def)
  qed (use gstep_refl [OF ok1] s(3) in simp)
  then obtain h3 where h3: "(if ?e < h_columns h then reset_wide_char_at_end_boundary 1 ?e ?bg ?h else Some ?h) = Some h3"
      "gstep ?h h3" "screen h3 ! 0 = screen h ! 0" by blast
  note ok3 = gstep_ok [OF h3(2) ok1] and s3 = gstep_simps(1,2) [OF h3(2)]
  have "\<exists>h4. h_mut_row 1 (row_mut_to ?e (\<lambda>_. cell_from ?bg)) h3 = Some h4 \<and> gstep h3 h4 \<and>
      (\<forall>j. j \<noteq> 1 \<longrightarrow> screen h4 ! j = screen h3 ! j)"
    by (rule h_mut_row_frame [OF ok3]) (use rc s s3 in \<open>auto intro!: row_mut_to_ok\<close>)
  then obtain h4 where h4: "h_mut_row 1 (row_mut_to ?e (\<lambda>_. cell_from ?bg)) h3 = Some h4" "screen h4 ! 0 = screen h ! 0"
    using h3(3) by auto
  have "grid_cursor_row ?h = Some 1" using grid_cursor_row_eq [OF ok1] row by simp
  then have "clear_screen fo Above h = Some h4"
    unfolding clear_screen_def Let_def clear_mode.case row
    by (simp only: less_irrefl if_False bind.bind_lunit s(1) h3(1) h4(1))
  then show ?thesis using h4(2) by blast
qed

definition sample_line_one :: "unit handler" where
  "sample_line_one = update_cursor unit_flat (\<lambda>c. c\<lparr>cur_row := 1\<rparr>) sample_handler"

theorem clear_above_skips_line_zero_witness:
  "\<exists>h'. clear_screen unit_flat Above sample_line_one = Some h' \<and> screen h' ! 0 = screen sample_line_one ! 0"
proof (rule clear_above_skips_line_zero)
  show "handler_ok sample_line_one" unfolding sample_line_one_def
    by (rule update_cursor_ok) (simp_all add: sample_ok sample_simps)
qed (simp add: sample_line_one_def)

end
