(* ===== verification/Rust_Std.thy ===== *)
theory Rust_Std
  imports Rust_Prelude "HOL-Library.AList"
begin

text \<open>
  The parts of the Rust standard library that the remote-control components use:
  results with early return, UTF-8 bytes of a string, big-endian integers and hash
  maps.  A hash map is reached through the interface \<open>hash_map\<close>, whose laws are
  those of \<open>std::collections::HashMap\<close>; the order of iteration is not part of it.
\<close>

section \<open>Results\<close>

text \<open>\<open>Result<T, E>\<close> is \<open>'e + 'a\<close>, with \<open>Inl\<close> for \<open>Err\<close>.  \<open>reject_if\<close> is
  \<open>if b { return Err(e) }\<close> and \<open>and_then\<close> the operator \<open>?\<close>.\<close>

type_synonym ('a, 'e) result = "'e + 'a"

definition reject_if :: "bool \<Rightarrow> 'e \<Rightarrow> (unit, 'e) result" where
  "reject_if b e = (if b then Inl e else Inr ())"

definition and_then :: "('a, 'e) result \<Rightarrow> ('a \<Rightarrow> ('b, 'e) result) \<Rightarrow> ('b, 'e) result" where
  "and_then r f = (case r of Inl e \<Rightarrow> Inl e | Inr x \<Rightarrow> f x)"

definition then_check :: "(unit, 'e) result \<Rightarrow> (unit, 'e) result \<Rightarrow> (unit, 'e) result" where
  "then_check r s = and_then r (\<lambda>_. s)"

definition ok_or :: "'a option \<Rightarrow> 'e \<Rightarrow> ('a, 'e) result" where
  "ok_or x e = (case x of Some y \<Rightarrow> Inr y | None \<Rightarrow> Inl e)"

definition is_ok :: "('a, 'e) result \<Rightarrow> bool" where
  "is_ok r \<longleftrightarrow> (case r of Inl _ \<Rightarrow> False | Inr _ \<Rightarrow> True)"

lemma result_Inr [simp]:
  "reject_if b e = Inr u \<longleftrightarrow> \<not> b"
  "and_then r f = Inr y \<longleftrightarrow> (\<exists>x. r = Inr x \<and> f x = Inr y)"
  "then_check c d = Inr v \<longleftrightarrow> c = Inr () \<and> d = Inr v"
  "ok_or z e' = Inr w \<longleftrightarrow> z = Some w"
  by (auto simp: reject_if_def and_then_def then_check_def ok_or_def split: sum.splits option.splits)

lemma is_ok_iff: "is_ok r \<longleftrightarrow> (\<exists>x. r = Inr x)"
  by (cases r) (auto simp: is_ok_def)

primrec all_ok :: "('a \<Rightarrow> (unit, 'e) result) \<Rightarrow> 'a list \<Rightarrow> (unit, 'e) result" where
  "all_ok f [] = Inr ()"
| "all_ok f (x # xs) = then_check (f x) (all_ok f xs)"

lemma all_ok_Inr [simp]: "all_ok f xs = Inr u \<longleftrightarrow> (\<forall>x\<in>set xs. f x = Inr ())"
  by (induction xs) auto

section \<open>Strings\<close>

definition lit :: "string \<Rightarrow> rust_str" where
  "lit s = map of_char s"

definition utf8_char :: "rust_char \<Rightarrow> nat list" where
  "utf8_char c =
     (if c < 0x80 then [c]
      else if c < 0x800 then [0xC0 + c div 0x40, 0x80 + c mod 0x40]
      else if c < 0x10000 then [0xE0 + c div 0x1000, 0x80 + (c div 0x40) mod 0x40, 0x80 + c mod 0x40]
      else [0xF0 + c div 0x40000, 0x80 + (c div 0x1000) mod 0x40, 0x80 + (c div 0x40) mod 0x40,
            0x80 + c mod 0x40])"

definition str_bytes :: "rust_str \<Rightarrow> nat list" where
  "str_bytes s = concat (map utf8_char s)"

lemma length_str_bytes [simp]: "length (str_bytes s) = str_len s"
proof -
  have "length (utf8_char c) = len_utf8 c" for c by (simp add: utf8_char_def len_utf8_def)
  then show ?thesis by (induction s) (simp_all add: str_bytes_def str_len_def)
qed

definition is_ascii_control :: "nat \<Rightarrow> bool" where
  "is_ascii_control b \<longleftrightarrow> b < 0x20 \<or> b = 0x7F"

definition byte_is_ascii_whitespace :: "nat \<Rightarrow> bool" where
  "byte_is_ascii_whitespace b \<longleftrightarrow> b = 0x20 \<or> b = 0x09 \<or> b = 0x0A \<or> b = 0x0C \<or> b = 0x0D"

text \<open>\<open>char::is_control\<close>: the general category Cc.\<close>

definition is_control :: "rust_char \<Rightarrow> bool" where
  "is_control c \<longleftrightarrow> c < 0x20 \<or> (0x7F \<le> c \<and> c < 0xA0)"

definition is_ascii_lowercase :: "nat \<Rightarrow> bool" where
  "is_ascii_lowercase b \<longleftrightarrow> 0x61 \<le> b \<and> b \<le> 0x7A"

definition is_ascii_digit :: "nat \<Rightarrow> bool" where
  "is_ascii_digit b \<longleftrightarrow> 0x30 \<le> b \<and> b \<le> 0x39"

definition is_ascii_hexdigit :: "nat \<Rightarrow> bool" where
  "is_ascii_hexdigit b \<longleftrightarrow> is_ascii_digit b \<or> (0x61 \<le> b \<and> b \<le> 0x66) \<or> (0x41 \<le> b \<and> b \<le> 0x46)"

definition trim_start_matches :: "rust_char \<Rightarrow> rust_str \<Rightarrow> rust_str" where
  "trim_start_matches c s = dropWhile (\<lambda>d. d = c) s"

definition trim_end_matches :: "rust_char \<Rightarrow> rust_str \<Rightarrow> rust_str" where
  "trim_end_matches c s = rev (dropWhile (\<lambda>d. d = c) (rev s))"

section \<open>Big-endian integers\<close>

primrec be_bytes :: "nat \<Rightarrow> 'a::len word \<Rightarrow> u8 list" where
  "be_bytes 0 w = []"
| "be_bytes (Suc n) w = be_bytes n (drop_bit 8 w) @ [ucast w]"

definition from_be_bytes :: "u8 list \<Rightarrow> 'a::len word" where
  "from_be_bytes bs = foldl (\<lambda>acc b. push_bit 8 acc OR ucast b) 0 bs"

lemma length_be_bytes [simp]: "length (be_bytes n w) = n"
  by (induction n arbitrary: w) simp_all

lemma from_be_snoc: "from_be_bytes (bs @ [b]) = push_bit 8 (from_be_bytes bs) OR ucast b"
  by (simp add: from_be_bytes_def)

lemma from_be_be_bytes: "from_be_bytes (be_bytes n (w :: 'a::len word)) = take_bit (8 * n) w"
proof (induction n arbitrary: w)
  case (Suc n)
  show ?case
    unfolding be_bytes.simps from_be_snoc Suc.IH
    by (rule bit_word_eqI) (auto simp: bit_simps)
qed (simp add: from_be_bytes_def)

lemma from_be_bound:
  assumes "8 * length bs \<le> LENGTH('a::len)"
  shows "take_bit (8 * length bs) (from_be_bytes bs :: 'a word) = from_be_bytes bs"
  using assms
proof (induction bs rule: rev_induct)
  case (snoc b bs)
  then have "take_bit (8 * length bs) (from_be_bytes bs :: 'a word) = from_be_bytes bs" by simp
  then have high: "bit (from_be_bytes bs :: 'a word) n \<Longrightarrow> n < 8 * length bs" for n
    by (metis bit_take_bit_iff)
  have low: "bit b n \<Longrightarrow> n < 8" for n using bit_imp_le_length [of b n] by simp
  show ?case
    unfolding from_be_snoc
    by (rule bit_word_eqI) (auto simp: bit_simps dest: high low)
qed (simp add: from_be_bytes_def)

lemma be_bytes_from_be:
  assumes "8 * length bs \<le> LENGTH('a::len)"
  shows "be_bytes (length bs) (from_be_bytes bs :: 'a word) = bs"
  using assms
proof (induction bs rule: rev_induct)
  case (snoc b bs)
  have le: "8 * length bs \<le> LENGTH('a)" using snoc.prems by simp
  have "take_bit (8 * length bs) (from_be_bytes bs :: 'a word) = from_be_bytes bs"
    by (rule from_be_bound [OF le])
  then have high: "bit (from_be_bytes bs :: 'a word) n \<Longrightarrow> n < 8 * length bs" for n
    by (metis bit_take_bit_iff)
  have low: "bit b n \<Longrightarrow> n < 8" for n using bit_imp_le_length [of b n] by simp
  have "drop_bit 8 (push_bit 8 (from_be_bytes bs) OR ucast b :: 'a word) = from_be_bytes bs"
    using snoc.prems by (intro bit_word_eqI) (auto simp: bit_simps dest: high low)
  moreover have "ucast (push_bit 8 (from_be_bytes bs) OR ucast b :: 'a word) = b"
    using snoc.prems by (intro bit_word_eqI) (auto simp: bit_simps)
  ultimately show ?case using snoc.IH [OF le] by (simp add: from_be_snoc)
qed simp

section \<open>Hash maps\<close>

text \<open>What the callers of a \<open>HashMap\<close> rely on.\<close>

locale hash_map =
  fixes get :: "'m \<Rightarrow> 'k \<Rightarrow> 'v option"
    and put :: "'k \<Rightarrow> 'v \<Rightarrow> 'm \<Rightarrow> 'm"
    and remove :: "'k \<Rightarrow> 'm \<Rightarrow> 'm"
    and retain :: "('k \<Rightarrow> 'v \<Rightarrow> bool) \<Rightarrow> 'm \<Rightarrow> 'm"
    and size_of :: "'m \<Rightarrow> nat"
    and inv :: "'m \<Rightarrow> bool"
  assumes get_put: "inv m \<Longrightarrow> get (put k v m) = (get m)(k \<mapsto> v)"
    and get_remove: "inv m \<Longrightarrow> get (remove k m) = (get m)(k := None)"
    and get_retain: "inv m \<Longrightarrow> get (retain P m) k = (case get m k of Some v \<Rightarrow> if P k v then Some v else None | None \<Rightarrow> None)"
    and put_inv: "inv m \<Longrightarrow> inv (put k v m)"
    and remove_inv: "inv m \<Longrightarrow> inv (remove k m)"
    and retain_inv: "inv m \<Longrightarrow> inv (retain P m)"
    and finite_get: "inv m \<Longrightarrow> finite (dom (get m))"
    and size_of_eq: "inv m \<Longrightarrow> size_of m = card (dom (get m))"
begin

lemmas inv_intros = put_inv remove_inv retain_inv

lemma get_retain_Some: "inv m \<Longrightarrow> get (retain P m) k = Some v \<longleftrightarrow> get m k = Some v \<and> P k v"
  by (auto simp: get_retain split: option.splits)

lemma dom_retain: "inv m \<Longrightarrow> dom (get (retain P m)) = {k. \<exists>v. get m k = Some v \<and> P k v}"
  by (auto simp: get_retain_Some)

lemma size_retain: "inv m \<Longrightarrow> size_of (retain P m) \<le> size_of m"
  by (auto simp: size_of_eq retain_inv dom_retain intro!: card_mono finite_get)

lemma size_remove: "inv m \<Longrightarrow> size_of (remove k m) \<le> size_of m"
  by (auto simp: size_of_eq remove_inv get_remove intro!: card_mono finite_get)

lemma size_put: "inv m \<Longrightarrow> size_of (put k v m) \<le> Suc (size_of m)"
  by (simp add: size_of_eq put_inv get_put card_insert_if finite_get)

lemma size_put_present: "inv m \<Longrightarrow> get m k = Some w \<Longrightarrow> size_of (put k v m) = size_of m"
  by (simp add: size_of_eq put_inv get_put insert_absorb domI)

text \<open>A key removed once stays out until it is put back.\<close>

lemma get_remove_retain: "inv m \<Longrightarrow> get (retain P (remove k m)) k = None"
  by (simp add: get_retain remove_inv get_remove)

end

text \<open>The executable model: an association list with distinct keys.\<close>

type_synonym ('k, 'v) hash_map = "('k \<times> 'v) list"

definition hm_inv :: "('k, 'v) hash_map \<Rightarrow> bool" where
  "hm_inv m \<longleftrightarrow> distinct (map fst m)"

definition hm_get :: "('k, 'v) hash_map \<Rightarrow> 'k \<Rightarrow> 'v option" where
  "hm_get m = map_of m"

definition hm_put :: "'k \<Rightarrow> 'v \<Rightarrow> ('k, 'v) hash_map \<Rightarrow> ('k, 'v) hash_map" where
  "hm_put k v m = AList.update k v m"

definition hm_remove :: "'k \<Rightarrow> ('k, 'v) hash_map \<Rightarrow> ('k, 'v) hash_map" where
  "hm_remove k m = AList.delete k m"

definition hm_retain :: "('k \<Rightarrow> 'v \<Rightarrow> bool) \<Rightarrow> ('k, 'v) hash_map \<Rightarrow> ('k, 'v) hash_map" where
  "hm_retain P m = filter (\<lambda>(k, v). P k v) m"

definition hm_len :: "('k, 'v) hash_map \<Rightarrow> nat" where
  "hm_len m = length m"

definition hm_values :: "('k, 'v) hash_map \<Rightarrow> 'v list" where
  "hm_values m = map snd m"

lemmas hm_defs = hm_inv_def hm_get_def hm_put_def hm_remove_def hm_retain_def hm_len_def hm_values_def

lemma map_of_filter_distinct:
  "distinct (map fst m) \<Longrightarrow>
   map_of (filter (\<lambda>(k, v). P k v) m) k = (case map_of m k of Some v \<Rightarrow> if P k v then Some v else None | None \<Rightarrow> None)"
  by (induction m) (auto simp: map_of_eq_None_iff image_iff split: option.splits)

lemma distinct_map_fst_filter: "distinct (map fst m) \<Longrightarrow> distinct (map fst (filter P m))"
  by (simp add: distinct_map_filter)

interpretation hm: hash_map hm_get hm_put hm_remove hm_retain hm_len hm_inv
proof
  fix m :: "('k, 'v) hash_map" and k :: 'k and v :: 'v and P :: "'k \<Rightarrow> 'v \<Rightarrow> bool"
  assume inv: "hm_inv m"
  show "hm_get (hm_put k v m) = (hm_get m)(k \<mapsto> v)" by (simp add: hm_defs update_conv')
  show "hm_get (hm_remove k m) = (hm_get m)(k := None)" by (simp add: hm_defs delete_conv')
  show "hm_get (hm_retain P m) k = (case hm_get m k of Some v \<Rightarrow> if P k v then Some v else None | None \<Rightarrow> None)"
    using inv by (simp add: hm_defs map_of_filter_distinct)
  show "hm_inv (hm_put k v m)" "hm_inv (hm_remove k m)"
    using inv by (simp_all add: hm_defs distinct_update distinct_delete)
  show "hm_inv (hm_retain P m)" using inv by (simp add: hm_defs distinct_map_filter)
  show "finite (dom (hm_get m))" by (simp add: hm_defs finite_dom_map_of)
  show "hm_len m = card (dom (hm_get m))"
    using inv by (simp add: hm_defs dom_map_of_conv_image_fst distinct_card flip: set_map)
qed

lemma hm_empty [simp]: "hm_inv []" "hm_get [] k = None" "hm_len [] = 0"
  by (simp_all add: hm_defs)

text \<open>Counting values: what \<open>map.values().filter(p).count()\<close> returns.\<close>

definition hm_count :: "('v \<Rightarrow> bool) \<Rightarrow> ('k, 'v) hash_map \<Rightarrow> nat" where
  "hm_count p m = length (filter p (hm_values m))"

lemma hm_count_card:
  assumes "hm_inv m"
  shows "hm_count p m = card {k. \<exists>v. hm_get m k = Some v \<and> p v}"
proof -
  have "hm_count p m = hm_len (hm_retain (\<lambda>_. p) m)"
    by (simp add: hm_count_def hm_defs filter_map comp_def split_def)
  also have "\<dots> = card {k. \<exists>v. hm_get m k = Some v \<and> p v}"
    using assms by (simp add: hm.size_of_eq hm.retain_inv hm.dom_retain)
  finally show ?thesis .
qed

end
