(* ===== verification/Companion_Protocol.thy ===== *)
theory Companion_Protocol
  imports Rust_Std
begin

text \<open>
  The contract between the Mac and a paired phone
  (\<^verbatim>\<open>crates/clinch_companion_protocol/src/lib.rs\<close>): the client messages with their
  validation, the pairing and authentication requests, and the binary frames that
  carry terminal output and upload chunks.  The base64 decoder is a library of its
  own and a parameter \<open>b64\<close>.
\<close>

section \<open>Constants\<close>

definition PROTOCOL_VERSION :: u16 where "PROTOCOL_VERSION = 1"
definition MAX_JAVASCRIPT_SAFE_INTEGER :: u64 where
  "MAX_JAVASCRIPT_SAFE_INTEGER = push_bit 53 1 - 1"

definition javascript_safe_integer :: "u64 \<Rightarrow> u64" where
  "javascript_safe_integer v = v AND MAX_JAVASCRIPT_SAFE_INTEGER"

definition PAIRING_INVITATION_TTL_SECS :: nat where "PAIRING_INVITATION_TTL_SECS = 5 * 60"
definition AUTH_CHALLENGE_TTL_SECS :: nat where "AUTH_CHALLENGE_TTL_SECS = 60"
definition AUTH_SESSION_TTL_SECS :: nat where "AUTH_SESSION_TTL_SECS = 15 * 60"
definition DEVICE_INACTIVITY_LIMIT_DAYS :: nat where "DEVICE_INACTIVITY_LIMIT_DAYS = 90"
definition MAX_INPUT_BYTES :: nat where "MAX_INPUT_BYTES = 64 * 1024"
definition MAX_PROMPT_BYTES :: nat where "MAX_PROMPT_BYTES = 256 * 1024"
definition MAX_UPLOAD_BYTES :: u64 where "MAX_UPLOAD_BYTES = 25 * 1024 * 1024"
definition MAX_UPLOAD_CHUNK_BYTES :: nat where "MAX_UPLOAD_CHUNK_BYTES = 256 * 1024"
definition MAX_TERMINAL_FRAME_BYTES :: nat where "MAX_TERMINAL_FRAME_BYTES = 256 * 1024"
definition MAX_DEVICE_NAME_BYTES :: nat where "MAX_DEVICE_NAME_BYTES = 96"
definition MAX_PATH_BYTES :: nat where "MAX_PATH_BYTES = 4096"
definition MAX_FILENAME_BYTES :: nat where "MAX_FILENAME_BYTES = 255"
definition MAX_MIME_BYTES :: nat where "MAX_MIME_BYTES = 128"
definition MAX_OPAQUE_ID_BYTES :: nat where "MAX_OPAQUE_ID_BYTES = 256"
definition MAX_SECTION_NAME_BYTES :: nat where "MAX_SECTION_NAME_BYTES = 256"
definition MAX_CONNECTIONS_PER_DEVICE :: nat where "MAX_CONNECTIONS_PER_DEVICE = 3"

type_synonym uuid = "128 word"

section \<open>Validation primitives\<close>

datatype protocol_error =
    UnsupportedVersion u16
  | InvalidTextLength string nat nat
  | InvalidOpaqueId string
  | InvalidDimensions
  | InvalidPath
  | InvalidFilename
  | UploadSize u64
  | InvalidSha256
  | InvalidBase64Payload string
  | InvalidP256PublicKey
  | InvalidP256Signature

type_synonym check = "(unit, protocol_error) result"
type_synonym b64 = "rust_str \<Rightarrow> u8 list option"

definition validate_text :: "string \<Rightarrow> rust_str \<Rightarrow> nat \<Rightarrow> nat \<Rightarrow> check" where
  "validate_text field v mn mx =
     reject_if (str_len v < mn \<or> str_len v > mx) (InvalidTextLength field mn mx)"

definition validate_opaque_id :: "string \<Rightarrow> rust_str \<Rightarrow> check" where
  "validate_opaque_id field v =
     reject_if (v = [] \<or> str_len v > MAX_OPAQUE_ID_BYTES \<or>
                list_ex (\<lambda>b. is_ascii_control b \<or> byte_is_ascii_whitespace b) (str_bytes v))
       (InvalidOpaqueId field)"

definition validate_base64_payload :: "b64 \<Rightarrow> string \<Rightarrow> rust_str \<Rightarrow> nat \<Rightarrow> check" where
  "validate_base64_payload b64 field v max_decoded_bytes =
     then_check
       (reject_if (v = [] \<or> str_len v > (max_decoded_bytes + 2) div 3 * 4) (InvalidBase64Payload field))
       (case b64 v of
          None \<Rightarrow> Inl (InvalidBase64Payload field)
        | Some decoded \<Rightarrow> reject_if (decoded = [] \<or> length decoded > max_decoded_bytes)
                             (InvalidBase64Payload field))"

record terminal_dimensions =
  td_columns :: u16
  td_rows :: u16

definition validate_dimensions :: "terminal_dimensions \<Rightarrow> check" where
  "validate_dimensions d =
     reject_if (td_columns d < 2 \<or> td_rows d < 1 \<or> td_columns d > 1000 \<or> td_rows d > 1000) InvalidDimensions"

definition validate_path :: "rust_str \<Rightarrow> check" where
  "validate_path p = reject_if (p = [] \<or> str_len p > MAX_PATH_BYTES \<or> 0 \<in> set p) InvalidPath"

definition validate_filename :: "rust_str \<Rightarrow> check" where
  "validate_filename f =
     reject_if (f = [] \<or> str_len f > MAX_FILENAME_BYTES \<or> f = [0x2E] \<or> f = [0x2E, 0x2E] \<or>
                list_ex (\<lambda>c. c = 0x2F \<or> c = 0x5C \<or> c = 0) f \<or> list_ex is_control f)
       InvalidFilename"

section \<open>Requests\<close>

datatype capability = CapView | CapControl | CapCreateSession | CapUpload
datatype device_platform = Ios | Ipados | Macos | Android | OtherPlatform
datatype agent_provider = ProviderClaudeCode | ProviderCodex
datatype session_kind = SessionTerminal | SessionClaudeCode | SessionCodex
datatype terminal_key = KeyEscape | KeyTab | KeyArrowUp | KeyArrowDown | KeyArrowLeft | KeyArrowRight
  | KeyControlD | KeyHome | KeyEnd | KeyPageUp | KeyPageDown | KeyDelete

record target_ref =
  tr_app_instance_id :: uuid
  tr_project_id :: rust_str
  tr_tab_id :: rust_str
  tr_pane_id :: rust_str

definition validate_target :: "target_ref \<Rightarrow> check" where
  "validate_target t =
     then_check (validate_opaque_id ''project_id'' (tr_project_id t))
       (then_check (validate_opaque_id ''tab_id'' (tr_tab_id t))
         (validate_opaque_id ''pane_id'' (tr_pane_id t)))"

record pairing_claim_request =
  pcr_invitation_id :: uuid
  pcr_secret :: rust_str
  pcr_device_name :: rust_str
  pcr_platform :: device_platform
  pcr_public_key_p256_raw :: rust_str

definition valid_p256_key :: "u8 list \<Rightarrow> bool" where
  "valid_p256_key key \<longleftrightarrow> length key = 65 \<and> hd key = 4"

definition validate_claim_request :: "b64 \<Rightarrow> pairing_claim_request \<Rightarrow> check" where
  "validate_claim_request b64 r =
     then_check (validate_text ''device_name'' (pcr_device_name r) 1 MAX_DEVICE_NAME_BYTES)
       (then_check (validate_text ''secret'' (pcr_secret r) 32 512)
         (case b64 (pcr_public_key_p256_raw r) of
            None \<Rightarrow> Inl InvalidP256PublicKey
          | Some key \<Rightarrow> reject_if (\<not> valid_p256_key key) InvalidP256PublicKey))"

record pairing_status_request =
  psr_claim_id :: uuid
  psr_claim_secret :: rust_str

definition validate_status_request :: "pairing_status_request \<Rightarrow> check" where
  "validate_status_request r = validate_text ''claim_secret'' (psr_claim_secret r) 32 512"

record authenticate_request =
  ar_device_id :: uuid
  ar_challenge_id :: uuid
  ar_signature :: rust_str
  ar_last_seen_sequence :: u64

definition validate_authenticate :: "b64 \<Rightarrow> authenticate_request \<Rightarrow> check" where
  "validate_authenticate b64 r =
     (case b64 (ar_signature r) of
        None \<Rightarrow> Inl InvalidP256Signature
      | Some sig \<Rightarrow> reject_if (length sig \<noteq> 64) InvalidP256Signature)"

section \<open>Client messages\<close>

text \<open>The constructors carry the fields of the message structs in their order.  The
  revision is present in every message that changes the workspace.\<close>

datatype client_message =
    Ping | RequestSnapshot
  | SelectTarget target_ref u64
  | AcquireWriterLease target_ref u64 bool
  | ReleaseWriterLease target_ref
  | SubmitComposerText target_ref u64 rust_str
  | RawTerminalInput target_ref u64 rust_str
  | InterruptTerminal target_ref u64
  | TerminalResize target_ref u64 terminal_dimensions
  | SetTerminalSizePin target_ref u64 bool
  | TerminalKey target_ref u64 terminal_key
  | CreateProject uuid u64 rust_str "rust_str option"
  | CreateSession uuid u64 rust_str session_kind "rust_str option" "rust_str option"
  | ResumeSession uuid u64 rust_str agent_provider rust_str rust_str
  | CreateTask uuid u64 rust_str rust_str
  | DeleteTask uuid u64 rust_str uuid
  | LaunchTask uuid u64 rust_str uuid agent_provider
  | CreateSection target_ref u64 rust_str
  | SetTabSection target_ref u64 "rust_str option"
  | QuickInsertPreview target_ref u64 rust_str u64
  | QuickInsertSubmit target_ref u64 rust_str u64
  | UploadBegin target_ref u64 rust_str rust_str u64 rust_str
  | UploadCommit uuid
  | UploadCancel uuid
  | UnpairDevice
  | Disconnect

record client_envelope =
  ce_version :: u16
  ce_request_id :: uuid
  ce_payload :: client_message

definition check_opt :: "('a \<Rightarrow> check) \<Rightarrow> 'a option \<Rightarrow> check" where
  "check_opt f v = (case v of None \<Rightarrow> Inr () | Some x \<Rightarrow> f x)"

definition validate_upload :: "rust_str \<Rightarrow> rust_str \<Rightarrow> u64 \<Rightarrow> rust_str \<Rightarrow> check" where
  "validate_upload filename mime sz sha256 =
     then_check (validate_filename filename)
       (then_check (validate_text ''mime'' mime 1 MAX_MIME_BYTES)
         (then_check (reject_if (sz = 0 \<or> sz > MAX_UPLOAD_BYTES) (UploadSize sz))
           (reject_if (str_len sha256 \<noteq> 64 \<or> \<not> list_all is_ascii_hexdigit (str_bytes sha256)) InvalidSha256)))"

fun validate_payload :: "b64 \<Rightarrow> client_message \<Rightarrow> check" where
  "validate_payload b64 (SelectTarget t _) = validate_target t"
| "validate_payload b64 (AcquireWriterLease t _ _) = validate_target t"
| "validate_payload b64 (ReleaseWriterLease t) = validate_target t"
| "validate_payload b64 (SubmitComposerText t _ txt) =
     then_check (validate_target t) (validate_text ''composer_text'' txt 1 MAX_PROMPT_BYTES)"
| "validate_payload b64 (RawTerminalInput t _ d) =
     then_check (validate_target t) (validate_base64_payload b64 ''raw_terminal_input'' d MAX_INPUT_BYTES)"
| "validate_payload b64 (InterruptTerminal t _) = validate_target t"
| "validate_payload b64 (TerminalResize t _ d) = then_check (validate_target t) (validate_dimensions d)"
| "validate_payload b64 (SetTerminalSizePin t _ _) = validate_target t"
| "validate_payload b64 (TerminalKey t _ _) = validate_target t"
| "validate_payload b64 (CreateProject _ _ p cwd) =
     then_check (validate_opaque_id ''project_id'' p) (check_opt validate_path cwd)"
| "validate_payload b64 (CreateSession _ _ p _ cwd prompt) =
     then_check (validate_opaque_id ''project_id'' p)
       (then_check (check_opt validate_path cwd)
         (check_opt (\<lambda>x. validate_text ''initial_prompt'' x 0 MAX_PROMPT_BYTES) prompt))"
| "validate_payload b64 (ResumeSession _ _ p _ sid cwd) =
     then_check (validate_opaque_id ''project_id'' p)
       (then_check (validate_text ''durable_session_id'' sid 1 MAX_OPAQUE_ID_BYTES) (validate_path cwd))"
| "validate_payload b64 (CreateTask _ _ p txt) =
     then_check (validate_opaque_id ''project_id'' p) (validate_text ''task_text'' txt 1 MAX_PROMPT_BYTES)"
| "validate_payload b64 (DeleteTask _ _ p _) = validate_opaque_id ''project_id'' p"
| "validate_payload b64 (LaunchTask _ _ p _ _) = validate_opaque_id ''project_id'' p"
| "validate_payload b64 (CreateSection t _ n) =
     then_check (validate_target t) (validate_text ''section_name'' n 1 MAX_SECTION_NAME_BYTES)"
| "validate_payload b64 (SetTabSection t _ sid) =
     then_check (validate_target t) (check_opt (validate_opaque_id ''section_id'') sid)"
| "validate_payload b64 (QuickInsertPreview t _ i _) =
     then_check (validate_target t) (validate_opaque_id ''quick_insert_id'' i)"
| "validate_payload b64 (QuickInsertSubmit t _ i _) =
     then_check (validate_target t) (validate_opaque_id ''quick_insert_id'' i)"
| "validate_payload b64 (UploadBegin t _ f m sz sha) =
     then_check (validate_target t) (validate_upload f m sz sha)"
| "validate_payload b64 _ = Inr ()"

definition validate_envelope :: "b64 \<Rightarrow> client_envelope \<Rightarrow> check" where
  "validate_envelope b64 e =
     then_check (reject_if (ce_version e \<noteq> PROTOCOL_VERSION) (UnsupportedVersion (ce_version e)))
       (validate_payload b64 (ce_payload e))"

section \<open>Binary frames\<close>

definition BINARY_FRAME_MAGIC :: "u8 list" where "BINARY_FRAME_MAGIC = [0x43, 0x52]"
definition BINARY_FRAME_HEADER_BYTES :: nat where "BINARY_FRAME_HEADER_BYTES = 32"

datatype binary_frame_kind = TerminalOutput | UploadChunk

datatype binary_frame_error =
    TooShort | InvalidMagic | UnsupportedFrameVersion u16 | UnknownKind u8 | InvalidFlags
  | UnexpectedKind u8 u8 | ChunkTooLarge | TerminalFrameTooLarge

definition kind_byte :: "binary_frame_kind \<Rightarrow> u8" where
  "kind_byte k = (case k of TerminalOutput \<Rightarrow> 1 | UploadChunk \<Rightarrow> 2)"

definition kind_try_from :: "u8 \<Rightarrow> (binary_frame_kind, binary_frame_error) result" where
  "kind_try_from v = (if v = 1 then Inr TerminalOutput else if v = 2 then Inr UploadChunk else Inl (UnknownKind v))"

definition encode_binary_frame :: "binary_frame_kind \<Rightarrow> uuid \<Rightarrow> u64 \<Rightarrow> u8 list \<Rightarrow> u8 list" where
  "encode_binary_frame kind i sequence payload =
     BINARY_FRAME_MAGIC @ be_bytes 2 PROTOCOL_VERSION @ [kind_byte kind] @ replicate 3 0 @
     be_bytes 16 i @ be_bytes 8 sequence @ payload"

definition decode_binary_frame ::
    "u8 list \<Rightarrow> (binary_frame_kind \<times> uuid \<times> u64 \<times> u8 list, binary_frame_error) result" where
  "decode_binary_frame frame =
     (if length frame < BINARY_FRAME_HEADER_BYTES then Inl TooShort
      else if take 2 frame \<noteq> BINARY_FRAME_MAGIC then Inl InvalidMagic
      else let version = from_be_bytes [frame ! 2, frame ! 3]
           in if version \<noteq> PROTOCOL_VERSION then Inl (UnsupportedFrameVersion version)
              else and_then (kind_try_from (frame ! 4)) (\<lambda>kind.
                     if take 3 (drop 5 frame) \<noteq> replicate 3 0 then Inl InvalidFlags
                     else Inr (kind, from_be_bytes (take 16 (drop 8 frame)),
                               from_be_bytes (take 8 (drop 24 frame)),
                               drop BINARY_FRAME_HEADER_BYTES frame)))"

definition encode_upload_chunk :: "uuid \<Rightarrow> u64 \<Rightarrow> u8 list \<Rightarrow> (u8 list, binary_frame_error) result" where
  "encode_upload_chunk upload_id chunk_index payload =
     (if length payload > MAX_UPLOAD_CHUNK_BYTES then Inl ChunkTooLarge
      else Inr (encode_binary_frame UploadChunk upload_id chunk_index payload))"

definition decode_upload_chunk :: "u8 list \<Rightarrow> (uuid \<times> u64 \<times> u8 list, binary_frame_error) result" where
  "decode_upload_chunk frame =
     and_then (decode_binary_frame frame) (\<lambda>(kind, i, chunk_index, payload).
       if kind \<noteq> UploadChunk then Inl (UnexpectedKind (kind_byte UploadChunk) (kind_byte kind))
       else if length payload > MAX_UPLOAD_CHUNK_BYTES then Inl ChunkTooLarge
       else Inr (i, chunk_index, payload))"

definition encode_terminal_output :: "uuid \<Rightarrow> u64 \<Rightarrow> u8 list \<Rightarrow> (u8 list, binary_frame_error) result" where
  "encode_terminal_output stream_id terminal_sequence payload =
     (if length payload > MAX_TERMINAL_FRAME_BYTES then Inl TerminalFrameTooLarge
      else Inr (encode_binary_frame TerminalOutput stream_id terminal_sequence payload))"

definition decode_terminal_output :: "u8 list \<Rightarrow> (uuid \<times> u64 \<times> u8 list, binary_frame_error) result" where
  "decode_terminal_output frame =
     and_then (decode_binary_frame frame) (\<lambda>(kind, i, sequence, payload).
       if kind \<noteq> TerminalOutput then Inl (UnexpectedKind (kind_byte TerminalOutput) (kind_byte kind))
       else if length payload > MAX_TERMINAL_FRAME_BYTES then Inl TerminalFrameTooLarge
       else Inr (i, sequence, payload))"

section \<open>Frames: the decoder accepts exactly what the encoder writes\<close>

lemma kind_try_from_byte: "kind_try_from v = Inr k \<longleftrightarrow> v = kind_byte k"
  by (cases k) (auto simp: kind_try_from_def kind_byte_def)

lemma take_drop_split: "take n (drop m xs) @ drop (m + n) xs = drop m xs"
  by (metis append_take_drop_id drop_drop add.commute)

lemma frame_split:
  assumes "32 \<le> length f"
  shows "f = take 2 f @ [f ! 2, f ! 3] @ [f ! 4] @ take 3 (drop 5 f) @ take 16 (drop 8 f) @
             take 8 (drop 24 f) @ drop 32 f"
proof -
  have one: "drop n f = f ! n # drop (Suc n) f" if "n < 32" for n
    using assms that by (simp add: Cons_nth_drop_Suc)
  have "f = take 2 f @ drop 2 f" by simp
  also have "drop 2 f = [f ! 2, f ! 3] @ [f ! 4] @ drop 5 f"
    using one [of 2] one [of 3] one [of 4] by (simp add: eval_nat_numeral)
  also have "drop 5 f = take 3 (drop 5 f) @ drop 8 f" using take_drop_split [of 3 5 f] by simp
  also have "drop 8 f = take 16 (drop 8 f) @ drop 24 f" using take_drop_split [of 16 8 f] by simp
  also have "drop 24 f = take 8 (drop 24 f) @ drop 32 f" using take_drop_split [of 8 24 f] by simp
  finally show ?thesis by simp
qed

lemma version_bytes: "be_bytes 2 PROTOCOL_VERSION = [0, 1]"
  by (simp add: PROTOCOL_VERSION_def numeral_2_eq_2)

lemma version_from_bytes: "from_be_bytes [a, b] = PROTOCOL_VERSION \<longleftrightarrow> a = 0 \<and> b = 1"
proof
  assume "from_be_bytes [a, b] = PROTOCOL_VERSION"
  then have "be_bytes 2 (from_be_bytes [a, b] :: u16) = [0, 1]" using version_bytes by simp
  moreover have "be_bytes 2 (from_be_bytes [a, b] :: u16) = [a, b]"
    using be_bytes_from_be [where 'a = 16, of "[a, b]"] by (simp add: numeral_2_eq_2)
  ultimately show "a = 0 \<and> b = 1" by simp
qed (simp add: from_be_bytes_def PROTOCOL_VERSION_def)

lemma binary_frame_roundtrip_iff:
  "decode_binary_frame f = Inr (k, i, q, p) \<longleftrightarrow> f = encode_binary_frame k i q p"
proof
  assume d: "decode_binary_frame f = Inr (k, i, q, p)"
  then have "\<not> length f < BINARY_FRAME_HEADER_BYTES"
    by (auto simp: decode_binary_frame_def)
  then have len: "32 \<le> length f" by (simp add: BINARY_FRAME_HEADER_BYTES_def)
  from d have parts: "take 2 f = BINARY_FRAME_MAGIC" "from_be_bytes [f ! 2, f ! 3] = PROTOCOL_VERSION"
      "f ! 4 = kind_byte k" "take 3 (drop 5 f) = replicate 3 0"
      "i = from_be_bytes (take 16 (drop 8 f))" "q = from_be_bytes (take 8 (drop 24 f))" "p = drop 32 f"
    by (auto simp: decode_binary_frame_def BINARY_FRAME_HEADER_BYTES_def Let_def kind_try_from_byte
        split: if_splits)
  have "be_bytes 16 i = take 16 (drop 8 f)" "be_bytes 8 q = take 8 (drop 24 f)"
    using be_bytes_from_be [where 'a = 128, of "take 16 (drop 8 f)"]
      be_bytes_from_be [where 'a = 64, of "take 8 (drop 24 f)"] len parts(5,6) by simp_all
  then show "f = encode_binary_frame k i q p"
    using frame_split [OF len] parts(1-4,7) version_from_bytes [of "f ! 2" "f ! 3"]
    by (simp add: encode_binary_frame_def version_bytes)
next
  assume f: "f = encode_binary_frame k i q p"
  obtain A B where AB: "be_bytes 16 i = A" "be_bytes 8 q = B" "length A = 16" "length B = 8"
    using length_be_bytes by metis
  have three: "replicate 3 (0 :: u8) = [0, 0, 0]" by (simp add: numeral_3_eq_3)
  have f': "f = 0x43 # 0x52 # 0 # 1 # kind_byte k # 0 # 0 # 0 # A @ B @ p"
    using f AB(1,2) by (simp add: encode_binary_frame_def BINARY_FRAME_MAGIC_def version_bytes three)
  have "from_be_bytes A = i" "from_be_bytes B = q"
    using from_be_be_bytes [of 16 i] from_be_be_bytes [of 8 q] AB(1,2) by (simp_all add: take_bit_word_eq_self)
  then show "decode_binary_frame f = Inr (k, i, q, p)"
    using AB(3,4) unfolding f'
    by (simp add: decode_binary_frame_def BINARY_FRAME_HEADER_BYTES_def BINARY_FRAME_MAGIC_def
        version_from_bytes Let_def three kind_try_from_byte)
qed



lemma frame_kinds_differ: "encode_binary_frame TerminalOutput i n p \<noteq> encode_binary_frame UploadChunk i' n' p'"
  by (simp add: encode_binary_frame_def BINARY_FRAME_MAGIC_def kind_byte_def)

text \<open>upload chunks and terminal output each decode to exactly what was encoded, within
  the size limit, and a frame of one kind is never taken for the other.\<close>

theorem typed_frames_roundtrip:
  "(decode_upload_chunk f = Inr (i, n, p) \<longleftrightarrow> encode_upload_chunk i n p = Inr f) \<and>
   (decode_terminal_output f = Inr (i, n, p) \<longleftrightarrow> encode_terminal_output i n p = Inr f) \<and>
   \<not> (is_ok (decode_upload_chunk f) \<and> is_ok (decode_terminal_output f))"
  by (auto simp: decode_upload_chunk_def encode_upload_chunk_def decode_terminal_output_def
      encode_terminal_output_def binary_frame_roundtrip_iff is_ok_iff frame_kinds_differ split: if_splits prod.splits)

section \<open>What a validated message guarantees\<close>

lemma utf8_ascii: "b \<in> set (utf8_char c) \<Longrightarrow> b < 0x80 \<Longrightarrow> c = b"
  by (auto simp: utf8_char_def split: if_splits)

lemma ascii_bytes:
  assumes "list_all is_ascii_hexdigit (str_bytes s)"
  shows "list_all is_ascii_hexdigit s \<and> str_len s = length s"
proof -
  have "is_ascii_hexdigit c \<and> len_utf8 c = 1" if "c \<in> set s" for c
  proof -
    obtain b where b: "b \<in> set (utf8_char c)" by (cases "utf8_char c") (auto simp: utf8_char_def split: if_splits)
    then have h: "is_ascii_hexdigit b" using assms that by (auto simp: list_all_iff str_bytes_def)
    then have "b < 0x80" by (auto simp: is_ascii_hexdigit_def is_ascii_digit_def)
    then show ?thesis using utf8_ascii [OF b] h by (simp add: len_utf8_def)
  qed
  then show ?thesis by (induction s) (auto simp: str_len_def)
qed

text \<open>an upload request that passes validation names a plain file: no path separator,
  NUL or control character, neither of the two directory names, at most 255 bytes;
  its size is positive and within the limit, and its digest is 64 hexadecimal
  digits.\<close>

theorem validated_upload_is_safe:
  assumes "validate_envelope b64 e = Inr ()" "ce_payload e = UploadBegin t revision f mime sz sha"
  shows "0x2F \<notin> set f \<and> 0x5C \<notin> set f \<and> 0 \<notin> set f \<and> list_all (\<lambda>c. \<not> is_control c) f \<and>
         f \<noteq> [] \<and> f \<noteq> lit ''.'' \<and> f \<noteq> lit ''..'' \<and> str_len f \<le> 255 \<and>
         0 < sz \<and> sz \<le> 25 * 1024 * 1024 \<and> length sha = 64 \<and> list_all is_ascii_hexdigit sha"
proof -
  have v: "validate_filename f = Inr ()" "sz \<noteq> 0" "\<not> sz > MAX_UPLOAD_BYTES" "str_len sha = 64"
      "list_all is_ascii_hexdigit (str_bytes sha)"
    using assms by (simp_all add: validate_envelope_def validate_upload_def)
  from v(1) have "0x2F \<notin> set f \<and> 0x5C \<notin> set f \<and> 0 \<notin> set f \<and> list_all (\<lambda>c. \<not> is_control c) f \<and>
      f \<noteq> [] \<and> f \<noteq> lit ''.'' \<and> f \<noteq> lit ''..'' \<and> str_len f \<le> 255"
    by (auto simp: validate_filename_def list_ex_iff list_all_iff lit_def MAX_FILENAME_BYTES_def)
  then show ?thesis
    using v(2-5) ascii_bytes [OF v(5)] by (simp add: MAX_UPLOAD_BYTES_def word_neq_0_conv not_less)
qed

text \<open>the cheap length check that precedes the base64 decoding never changes the verdict:
  with a decoder of padded base64, a payload is accepted exactly when it decodes to
  between one byte and the limit.\<close>

theorem base64_length_check_is_harmless:
  assumes "\<forall>v d. b64 v = Some d \<longrightarrow> str_len v = 4 * ((length d + 2) div 3)"
  shows "validate_base64_payload b64 field v limit = Inr () \<longleftrightarrow>
         (\<exists>d. b64 v = Some d \<and> 0 < length d \<and> length d \<le> limit)"
proof
  assume "validate_base64_payload b64 field v limit = Inr ()"
  then show "\<exists>d. b64 v = Some d \<and> 0 < length d \<and> length d \<le> limit"
    by (auto simp: validate_base64_payload_def split: option.splits)
next
  assume "\<exists>d. b64 v = Some d \<and> 0 < length d \<and> length d \<le> limit"
  then obtain d where d: "b64 v = Some d" "0 < length d" "length d \<le> limit" by blast
  then have l: "str_len v = 4 * ((length d + 2) div 3)" using assms by blast
  have "(length d + 2) div 3 \<le> (limit + 2) div 3" using d(3) by (simp add: div_le_mono)
  moreover have "0 < (length d + 2) div 3" using d(2) by (simp add: div_greater_zero_iff Suc_le_eq)
  ultimately have "v \<noteq> []" "str_len v \<le> (limit + 2) div 3 * 4" using l by (auto simp: str_len_def)
  then show "validate_base64_payload b64 field v limit = Inr ()"
    using d by (auto simp: validate_base64_payload_def)
qed

text \<open>A decoder that knows one word, to exercise the two properties above.\<close>

definition sample_b64 :: b64 where
  "sample_b64 v = (if v = lit ''QQ=='' then Some [0x41] else None)"

theorem base64_length_check_is_harmless_witness:
  "validate_base64_payload sample_b64 ''f'' (lit ''QQ=='') 1 = Inr () \<longleftrightarrow>
     (\<exists>d. sample_b64 (lit ''QQ=='') = Some d \<and> 0 < length d \<and> length d \<le> 1)"
  by (rule base64_length_check_is_harmless) (simp add: sample_b64_def lit_def str_len_def len_utf8_def)

definition sample_upload :: client_envelope where
  "sample_upload =
     \<lparr>ce_version = 1, ce_request_id = 7,
      ce_payload = UploadBegin \<lparr>tr_app_instance_id = 1, tr_project_id = lit ''p'', tr_tab_id = lit ''t'',
                               tr_pane_id = lit ''q''\<rparr> 3 (lit ''a.png'') (lit ''image/png'') 10 (replicate 64 0x61)\<rparr>"

theorem validated_upload_is_safe_witness:
  "0x2F \<notin> set (lit ''a.png'') \<and> 0x5C \<notin> set (lit ''a.png'') \<and> 0 \<notin> set (lit ''a.png'') \<and>
   list_all (\<lambda>c. \<not> is_control c) (lit ''a.png'') \<and>
   lit ''a.png'' \<noteq> [] \<and> lit ''a.png'' \<noteq> lit ''.'' \<and> lit ''a.png'' \<noteq> lit ''..'' \<and> str_len (lit ''a.png'') \<le> 255 \<and>
   0 < (10 :: u64) \<and> (10 :: u64) \<le> 25 * 1024 * 1024 \<and> length (replicate 64 (0x61 :: nat)) = 64 \<and>
   list_all is_ascii_hexdigit (replicate 64 0x61)"
proof (rule validated_upload_is_safe)
  have "str_len (replicate n 0x61) = n" "str_bytes (replicate n 0x61) = replicate n 0x61" for n
    by (induction n) (simp_all add: str_len_def str_bytes_def len_utf8_def utf8_char_def)
  then show "validate_envelope sample_b64 sample_upload = Inr ()"
    by (simp add: sample_upload_def validate_envelope_def validate_upload_def validate_target_def
        validate_opaque_id_def validate_filename_def validate_text_def lit_def str_len_def str_bytes_def
        len_utf8_def utf8_char_def is_ascii_control_def byte_is_ascii_whitespace_def is_control_def
        is_ascii_hexdigit_def is_ascii_digit_def PROTOCOL_VERSION_def MAX_OPAQUE_ID_BYTES_def
        MAX_FILENAME_BYTES_def MAX_MIME_BYTES_def MAX_UPLOAD_BYTES_def list_all_iff)
qed (simp add: sample_upload_def)

end
