(* ===== verification/Pairing.thy ===== *)
theory Pairing
  imports Companion_Protocol
begin

text \<open>
  The authority that pairs phones and authenticates their sessions
  (\<^verbatim>\<open>app/src/remote_control/pairing.rs\<close>).  Every public method of \<open>PairingManager\<close> is a
  function from the state under the lock to its result and the new state; a method
  that fails may still have changed the state (a claim uses up its invitation, an
  attempt is counted).  Times are nanoseconds since the epoch.  Fresh identifiers,
  secrets and challenge bytes come from the random source and are arguments; hashing,
  base64, signature verification and the printed form of an identifier are the
  libraries' and come in the record \<open>crypto\<close>.  A poisoned lock is not modelled.
\<close>

section \<open>Constants and data\<close>

type_synonym time = int
type_synonym hash = "u8 list"

definition seconds :: "int \<Rightarrow> time" where "seconds n = n * 1000000000"
definition days :: "int \<Rightarrow> time" where "days n = seconds (n * 86400)"

definition REGISTRY_VERSION :: nat where "REGISTRY_VERSION = 1"
definition MAX_PAIRED_DEVICES :: nat where "MAX_PAIRED_DEVICES = 32"
definition MAX_PENDING_CLAIMS :: nat where "MAX_PENDING_CLAIMS = 16"
definition MAX_CHALLENGES :: nat where "MAX_CHALLENGES = 64"
definition MAX_SECURITY_ATTEMPTS_PER_MINUTE :: nat where "MAX_SECURITY_ATTEMPTS_PER_MINUTE = 30"
definition PAIRING_CLAIM_TTL_SECS :: nat where "PAIRING_CLAIM_TTL_SECS = 2 * 60"

record crypto =
  cr_secret_hash :: "rust_str \<Rightarrow> hash"
  cr_b64 :: b64
  cr_b64_encode :: "u8 list \<Rightarrow> rust_str"
  cr_fingerprint :: "u8 list \<Rightarrow> rust_str"
  cr_verify :: "u8 list \<Rightarrow> u8 list \<Rightarrow> u8 list \<Rightarrow> bool"
  cr_show_uuid :: "uuid \<Rightarrow> rust_str"

record paired_device =
  pd_id :: uuid
  pd_name :: rust_str
  pd_platform :: device_platform
  pd_capabilities :: "capability list"
  pd_public_key :: rust_str
  pd_paired_at :: time
  pd_last_seen_at :: "time option"
  pd_revoked_at :: "time option"

record device_registry =
  dr_version :: nat
  dr_route_id :: rust_str
  dr_devices :: "paired_device list"

record invitation =
  inv_secret_hash :: hash
  inv_expires_at :: time
  inv_auto_approve :: bool

datatype claim_resolution = ClaimPending | ClaimApproved uuid "capability list" | ClaimRejected

record claim =
  cl_secret_hash :: hash
  cl_device_name :: rust_str
  cl_platform :: device_platform
  cl_public_key :: rust_str
  cl_fingerprint :: rust_str
  cl_expires_at :: time
  cl_resolution :: claim_resolution
  cl_auto_approve :: bool

record challenge =
  ch_device_id :: uuid
  ch_bytes :: "u8 list"
  ch_expires_at :: time

record session =
  se_id :: uuid
  se_device_id :: uuid
  se_expires_at :: time
  se_connected :: bool

record pairing_state =
  ps_registry :: device_registry
  ps_invitations :: "(uuid, invitation) hash_map"
  ps_claims :: "(uuid, claim) hash_map"
  ps_challenges :: "(uuid, challenge) hash_map"
  ps_sessions :: "(hash, session) hash_map"
  ps_attempts :: "time list"

datatype pairing_error =
    PeInvalidRequest | PeUnauthorized | PeNotFound | PeExpired | PeAlreadyUsed | PeCapacity
  | PeRateLimited | PeRevoked | PeUnsupportedRegistryVersion nat | PeInvalidRegistry | PeStateUnavailable

datatype pairing_error_kind =
    KindInvalidRequest | KindUnauthorized | KindNotFound | KindExpired | KindAlreadyUsed | KindCapacity
  | KindRateLimited | KindRevoked | KindInternal

fun error_kind :: "pairing_error \<Rightarrow> pairing_error_kind" where
  "error_kind PeInvalidRequest = KindInvalidRequest"
| "error_kind PeInvalidRegistry = KindInvalidRequest"
| "error_kind (PeUnsupportedRegistryVersion _) = KindInvalidRequest"
| "error_kind PeUnauthorized = KindUnauthorized"
| "error_kind PeNotFound = KindNotFound"
| "error_kind PeExpired = KindExpired"
| "error_kind PeAlreadyUsed = KindAlreadyUsed"
| "error_kind PeCapacity = KindCapacity"
| "error_kind PeRateLimited = KindRateLimited"
| "error_kind PeRevoked = KindRevoked"
| "error_kind PeStateUnavailable = KindInternal"

type_synonym 'a outcome = "('a, pairing_error) result \<times> pairing_state"

section \<open>The device registry\<close>

definition validate_device :: "crypto \<Rightarrow> paired_device \<Rightarrow> (unit, pairing_error) result" where
  "validate_device cr d =
     (case cr_b64 cr (pd_public_key d) of
        None \<Rightarrow> Inl PeInvalidRegistry
      | Some key \<Rightarrow>
          reject_if (pd_name d = [] \<or> str_len (pd_name d) > MAX_DEVICE_NAME_BYTES \<or>
                     list_ex is_control (pd_name d) \<or> \<not> valid_p256_key key) PeInvalidRegistry)"

text \<open>The \<open>retain\<close> with the two sets: a device goes if its identifier or its key was seen,
  and the key is only recorded when the identifier is new.\<close>

fun dedupe :: "uuid list \<Rightarrow> rust_str list \<Rightarrow> paired_device list \<Rightarrow> paired_device list" where
  "dedupe ids keys [] = []"
| "dedupe ids keys (d # ds) =
     (if pd_id d \<in> set ids then dedupe ids keys ds
      else if pd_public_key d \<in> set keys then dedupe (pd_id d # ids) keys ds
      else d # dedupe (pd_id d # ids) (pd_public_key d # keys) ds)"

definition validate_registry :: "crypto \<Rightarrow> device_registry \<Rightarrow> (device_registry, pairing_error) result" where
  "validate_registry cr r =
     (if dr_version r \<noteq> REGISTRY_VERSION then Inl (PeUnsupportedRegistryVersion (dr_version r))
      else if str_len (dr_route_id r) \<noteq> 24 \<or>
              \<not> list_all (\<lambda>b. is_ascii_lowercase b \<or> is_ascii_digit b) (str_bytes (dr_route_id r))
      then Inl PeInvalidRegistry
      else if length (dr_devices r) > MAX_PAIRED_DEVICES then Inl PeInvalidRegistry
      else and_then (all_ok (validate_device cr) (dr_devices r)) (\<lambda>_.
        Inr (r\<lparr>dr_devices :=
          sort_key pd_paired_at (dedupe [] [] (sort_key (\<lambda>d. - pd_paired_at d) (dr_devices r)))\<rparr>)))"

definition route_path :: "device_registry \<Rightarrow> rust_str" where
  "route_path r = lit ''/clinch-remote-'' @ dr_route_id r"

definition is_inactive :: "time \<Rightarrow> paired_device \<Rightarrow> bool" where
  "is_inactive now d \<longleftrightarrow>
     now - (case pd_last_seen_at d of Some t \<Rightarrow> t | None \<Rightarrow> pd_paired_at d)
       > days (int DEVICE_INACTIVITY_LIMIT_DAYS)"

record device_summary =
  ds_id :: uuid
  ds_name :: rust_str
  ds_platform :: device_platform
  ds_capabilities :: "capability list"
  ds_connected :: bool
  ds_last_seen_at :: "time option"

definition device_summary_of :: "paired_device \<Rightarrow> bool \<Rightarrow> device_summary" where
  "device_summary_of d connected =
     \<lparr>ds_id = pd_id d, ds_name = pd_name d, ds_platform = pd_platform d,
      ds_capabilities = pd_capabilities d, ds_connected = connected, ds_last_seen_at = pd_last_seen_at d\<rparr>"

definition find_device :: "uuid \<Rightarrow> pairing_state \<Rightarrow> paired_device option" where
  "find_device i s = find (\<lambda>d. pd_id d = i) (dr_devices (ps_registry s))"

text \<open>\<open>iter_mut().find(...)\<close> followed by an update of the device found.\<close>

fun update_first :: "('a \<Rightarrow> bool) \<Rightarrow> ('a \<Rightarrow> 'a) \<Rightarrow> 'a list \<Rightarrow> 'a list" where
  "update_first P f [] = []"
| "update_first P f (x # xs) = (if P x then f x # xs else x # update_first P f xs)"

fun remove_first :: "('a \<Rightarrow> bool) \<Rightarrow> 'a list \<Rightarrow> 'a list" where
  "remove_first P [] = []"
| "remove_first P (x # xs) = (if P x then xs else x # remove_first P xs)"

definition on_devices :: "(paired_device list \<Rightarrow> paired_device list) \<Rightarrow> pairing_state \<Rightarrow> pairing_state" where
  "on_devices f s = s\<lparr>ps_registry := (ps_registry s)\<lparr>dr_devices := f (dr_devices (ps_registry s))\<rparr>\<rparr>"

section \<open>Guards\<close>

definition ensure_device_active :: "paired_device \<Rightarrow> time \<Rightarrow> (unit, pairing_error) result" where
  "ensure_device_active d now =
     then_check (reject_if (pd_revoked_at d \<noteq> None) PeRevoked) (reject_if (is_inactive now d) PeExpired)"

definition check_rate_limit :: "time \<Rightarrow> pairing_state \<Rightarrow> unit outcome" where
  "check_rate_limit now s =
     (let recent = dropWhile (\<lambda>t. t \<le> now - seconds 60) (ps_attempts s)
      in if length recent \<ge> MAX_SECURITY_ATTEMPTS_PER_MINUTE
         then (Inl PeRateLimited, s\<lparr>ps_attempts := recent\<rparr>)
         else (Inr (), s\<lparr>ps_attempts := recent @ [now]\<rparr>))"

definition prune :: "time \<Rightarrow> pairing_state \<Rightarrow> pairing_state" where
  "prune now s =
     s\<lparr>ps_invitations := hm_retain (\<lambda>_ i. inv_expires_at i > now) (ps_invitations s),
       ps_claims := hm_retain (\<lambda>_ c. cl_expires_at c > now) (ps_claims s),
       ps_challenges := hm_retain (\<lambda>_ c. ch_expires_at c > now) (ps_challenges s),
       ps_sessions := hm_retain (\<lambda>_ x. se_expires_at x > now) (ps_sessions s)\<rparr>"

definition secrets_match :: "crypto \<Rightarrow> hash \<Rightarrow> rust_str \<Rightarrow> bool" where
  "secrets_match cr expected candidate \<longleftrightarrow> expected = cr_secret_hash cr candidate"

section \<open>Life cycle\<close>

definition pairing_new :: "crypto \<Rightarrow> device_registry \<Rightarrow> (pairing_state, pairing_error) result" where
  "pairing_new cr r =
     and_then (validate_registry cr r) (\<lambda>r'.
       Inr \<lparr>ps_registry = r', ps_invitations = [], ps_claims = [], ps_challenges = [], ps_sessions = [],
            ps_attempts = []\<rparr>)"

definition restore_registry :: "crypto \<Rightarrow> device_registry \<Rightarrow> pairing_state \<Rightarrow> unit outcome" where
  "restore_registry cr r s =
     (case validate_registry cr r of
        Inl e \<Rightarrow> (Inl e, s)
      | Inr r' \<Rightarrow>
          if ps_invitations s \<noteq> [] \<or> ps_claims s \<noteq> [] \<or> ps_challenges s \<noteq> [] \<or> ps_sessions s \<noteq> []
          then (Inl PeStateUnavailable, s)
          else (Inr (), s\<lparr>ps_registry := r'\<rparr>))"

definition invalidate_ephemeral_state :: "pairing_state \<Rightarrow> pairing_state" where
  "invalidate_ephemeral_state s =
     s\<lparr>ps_invitations := [], ps_claims := [], ps_challenges := [], ps_sessions := [], ps_attempts := []\<rparr>"

section \<open>Invitations and claims\<close>

record pairing_invitation =
  pi_id :: uuid
  pi_pairing_url :: rust_str
  pi_expires_at :: time

definition insert_invitation ::
    "crypto \<Rightarrow> rust_str \<Rightarrow> time \<Rightarrow> bool \<Rightarrow> uuid \<Rightarrow> rust_str \<Rightarrow> pairing_state \<Rightarrow> pairing_invitation outcome" where
  "insert_invitation cr base_url now auto_approve i secret s =
     (let s1 = prune now s;
          expires_at = now + seconds (int PAIRING_INVITATION_TTL_SECS);
          s2 = s1\<lparr>ps_invitations := hm_put i \<lparr>inv_secret_hash = cr_secret_hash cr secret,
                    inv_expires_at = expires_at, inv_auto_approve = auto_approve\<rparr> []\<rparr>;
          url = trim_end_matches 0x2F base_url @ lit ''/'' @ trim_start_matches 0x2F (route_path (ps_registry s2)) @
                lit ''/pair#'' @ cr_show_uuid cr i @ lit '':'' @ secret
      in (Inr \<lparr>pi_id = i, pi_pairing_url = url, pi_expires_at = expires_at\<rparr>, s2))"

definition create_invitation ::
    "crypto \<Rightarrow> rust_str \<Rightarrow> time \<Rightarrow> uuid \<Rightarrow> rust_str \<Rightarrow> pairing_state \<Rightarrow> pairing_invitation outcome" where
  "create_invitation cr base_url now = insert_invitation cr base_url now False"

definition create_auto_approving_invitation ::
    "crypto \<Rightarrow> rust_str \<Rightarrow> time \<Rightarrow> uuid \<Rightarrow> rust_str \<Rightarrow> pairing_state \<Rightarrow> pairing_invitation outcome" where
  "create_auto_approving_invitation cr base_url now = insert_invitation cr base_url now True"

record claim_receipt =
  crc_claim_id :: uuid
  crc_claim_secret :: rust_str
  crc_device_name :: rust_str
  crc_fingerprint :: rust_str
  crc_expires_at :: time

definition active_devices :: "pairing_state \<Rightarrow> paired_device list" where
  "active_devices s = filter (\<lambda>d. pd_revoked_at d = None) (dr_devices (ps_registry s))"

definition claim_invitation ::
    "crypto \<Rightarrow> pairing_claim_request \<Rightarrow> time \<Rightarrow> uuid \<Rightarrow> rust_str \<Rightarrow> pairing_state \<Rightarrow> claim_receipt outcome" where
  "claim_invitation cr req now claim_id claim_secret s =
     (if \<not> is_ok (validate_claim_request (cr_b64 cr) req) \<or> list_ex is_control (pcr_device_name req)
      then (Inl PeInvalidRequest, s)
      else case check_rate_limit now s of
        (Inl e, s1) \<Rightarrow> (Inl e, s1)
      | (Inr _, s1) \<Rightarrow>
          (let s2 = prune now s1 in
           if hm_len (ps_claims s2) \<ge> MAX_PENDING_CLAIMS then (Inl PeCapacity, s2)
           else case hm_get (ps_invitations s2) (pcr_invitation_id req) of
             None \<Rightarrow> (Inl PeNotFound, s2)
           | Some invitation \<Rightarrow>
               (let s3 = s2\<lparr>ps_invitations := hm_remove (pcr_invitation_id req) (ps_invitations s2)\<rparr> in
                if inv_expires_at invitation \<le> now then (Inl PeExpired, s3)
                else if \<not> secrets_match cr (inv_secret_hash invitation) (pcr_secret req) then (Inl PeUnauthorized, s3)
                else if length (active_devices s3) \<ge> MAX_PAIRED_DEVICES then (Inl PeCapacity, s3)
                else case cr_b64 cr (pcr_public_key_p256_raw req) of
                  None \<Rightarrow> (Inl PeInvalidRequest, s3)
                | Some key \<Rightarrow>
                    (let fp = cr_fingerprint cr key;
                         expires_at = now + seconds (int PAIRING_CLAIM_TTL_SECS);
                         c = \<lparr>cl_secret_hash = cr_secret_hash cr claim_secret, cl_device_name = pcr_device_name req,
                              cl_platform = pcr_platform req, cl_public_key = pcr_public_key_p256_raw req,
                              cl_fingerprint = fp, cl_expires_at = expires_at, cl_resolution = ClaimPending,
                              cl_auto_approve = inv_auto_approve invitation\<rparr>
                     in (Inr \<lparr>crc_claim_id = claim_id, crc_claim_secret = claim_secret,
                              crc_device_name = pcr_device_name req, crc_fingerprint = fp,
                              crc_expires_at = expires_at\<rparr>,
                         s3\<lparr>ps_claims := hm_put claim_id c (ps_claims s3)\<rparr>)))))"

definition cancel_invitation :: "uuid \<Rightarrow> pairing_state \<Rightarrow> pairing_state" where
  "cancel_invitation i s = s\<lparr>ps_invitations := hm_remove i (ps_invitations s)\<rparr>"

record pending_claim_summary =
  pcs_id :: uuid
  pcs_device_name :: rust_str
  pcs_platform :: device_platform
  pcs_fingerprint :: rust_str
  pcs_expires_at :: time

definition pending_claims :: "time \<Rightarrow> pairing_state \<Rightarrow> pending_claim_summary list \<times> pairing_state" where
  "pending_claims now s =
     (let s1 = prune now s
      in (map (\<lambda>(i, c). \<lparr>pcs_id = i, pcs_device_name = cl_device_name c, pcs_platform = cl_platform c,
                         pcs_fingerprint = cl_fingerprint c, pcs_expires_at = cl_expires_at c\<rparr>)
            (filter (\<lambda>(_, c). cl_resolution c = ClaimPending) (ps_claims s1)), s1))"

definition auto_approvable_claims :: "time \<Rightarrow> pairing_state \<Rightarrow> uuid list \<times> pairing_state" where
  "auto_approvable_claims now s =
     (let s1 = prune now s
      in (map fst (filter (\<lambda>(_, c). cl_auto_approve c \<and> cl_resolution c = ClaimPending) (ps_claims s1)), s1))"

lemma remove_first_length: "list_ex P xs \<Longrightarrow> Suc (length (remove_first P xs)) = length xs"
  by (induction xs) auto

text \<open>The loop that drops the oldest revoked records while the registry is full.  The registry
  never holds more than 32 devices, so a loop that gives up has removed nothing.\<close>

function make_room :: "paired_device list \<Rightarrow> paired_device list option" where
  "make_room ds =
     (if length ds \<ge> MAX_PAIRED_DEVICES then
        if list_ex (\<lambda>d. pd_revoked_at d \<noteq> None) ds
        then make_room (remove_first (\<lambda>d. pd_revoked_at d \<noteq> None) ds)
        else None
      else Some ds)"
  by auto

termination
proof (relation "measure length")
  fix ds :: "paired_device list"
  assume "list_ex (\<lambda>d. pd_revoked_at d \<noteq> None) ds"
  from remove_first_length [OF this]
  show "(remove_first (\<lambda>d. pd_revoked_at d \<noteq> None) ds, ds) \<in> measure length" by simp
qed simp

declare make_room.simps [simp del]

definition resolve_claim :: "uuid \<Rightarrow> claim \<Rightarrow> claim_resolution \<Rightarrow> pairing_state \<Rightarrow> pairing_state" where
  "resolve_claim claim_id c r s = s\<lparr>ps_claims := hm_put claim_id (c\<lparr>cl_resolution := r\<rparr>) (ps_claims s)\<rparr>"

definition approve ::
    "uuid \<Rightarrow> capability list \<Rightarrow> time \<Rightarrow> uuid \<Rightarrow> pairing_state \<Rightarrow> paired_device outcome" where
  "approve claim_id capabilities now new_id s =
     (let s1 = prune now s in
      if capabilities = [] then (Inl PeInvalidRequest, s1)
      else case hm_get (ps_claims s1) claim_id of
        None \<Rightarrow> (Inl PeNotFound, s1)
      | Some c \<Rightarrow>
          if cl_resolution c \<noteq> ClaimPending then (Inl PeAlreadyUsed, s1)
          else
            (let same = (\<lambda>d. pd_revoked_at d = None \<and> pd_public_key d = cl_public_key c) in
             case find same (dr_devices (ps_registry s1)) of
               Some d \<Rightarrow>
                 (let record = d\<lparr>pd_name := cl_device_name c, pd_platform := cl_platform c,
                                 pd_capabilities := capabilities, pd_paired_at := now\<rparr>
                  in (Inr record,
                      resolve_claim claim_id c (ClaimApproved (pd_id record) capabilities)
                        (on_devices (update_first same (\<lambda>_. record)) s1)))
             | None \<Rightarrow>
                 (case make_room (dr_devices (ps_registry s1)) of
                    None \<Rightarrow> (Inl PeCapacity, s1)
                  | Some ds \<Rightarrow>
                      (let record = \<lparr>pd_id = new_id, pd_name = cl_device_name c, pd_platform = cl_platform c,
                                     pd_capabilities = capabilities, pd_public_key = cl_public_key c,
                                     pd_paired_at = now, pd_last_seen_at = None, pd_revoked_at = None\<rparr>
                       in (Inr record,
                           resolve_claim claim_id c (ClaimApproved new_id capabilities)
                             (on_devices (\<lambda>_. ds @ [record]) s1))))))"

definition reject_claim :: "uuid \<Rightarrow> time \<Rightarrow> pairing_state \<Rightarrow> unit outcome" where
  "reject_claim claim_id now s =
     (let s1 = prune now s in
      case hm_get (ps_claims s1) claim_id of
        None \<Rightarrow> (Inl PeNotFound, s1)
      | Some c \<Rightarrow> if cl_resolution c \<noteq> ClaimPending then (Inl PeAlreadyUsed, s1)
                  else (Inr (), resolve_claim claim_id c ClaimRejected s1))"

datatype pairing_status_reply =
  StatusPending | StatusApproved uuid "capability list" | StatusRejected | StatusExpired

fun status_of :: "claim_resolution \<Rightarrow> pairing_status_reply" where
  "status_of ClaimPending = StatusPending"
| "status_of (ClaimApproved device_id capabilities) = StatusApproved device_id capabilities"
| "status_of ClaimRejected = StatusRejected"

definition pairing_status ::
    "crypto \<Rightarrow> pairing_status_request \<Rightarrow> time \<Rightarrow> pairing_state \<Rightarrow> pairing_status_reply outcome" where
  "pairing_status cr req now s =
     (if \<not> is_ok (validate_status_request req) then (Inl PeInvalidRequest, s)
      else let s1 = prune now s in
           case hm_get (ps_claims s1) (psr_claim_id req) of
             None \<Rightarrow> (case check_rate_limit now s1 of
                        (Inl e, s2) \<Rightarrow> (Inl e, s2)
                      | (Inr _, s2) \<Rightarrow> (Inl PeNotFound, s2))
           | Some c \<Rightarrow>
               if \<not> secrets_match cr (cl_secret_hash c) (psr_claim_secret req)
               then (case check_rate_limit now s1 of
                       (Inl e, s2) \<Rightarrow> (Inl e, s2)
                     | (Inr _, s2) \<Rightarrow> (Inl PeUnauthorized, s2))
               else (Inr (status_of (cl_resolution c)), s1))"

section \<open>Challenges and sessions\<close>

record auth_challenge =
  ac_id :: uuid
  ac_device_id :: uuid
  ac_challenge :: rust_str
  ac_expires_at :: time

definition create_challenge ::
    "crypto \<Rightarrow> uuid \<Rightarrow> time \<Rightarrow> uuid \<Rightarrow> u8 list \<Rightarrow> pairing_state \<Rightarrow> auth_challenge outcome" where
  "create_challenge cr device_id now i bytes s =
     (case check_rate_limit now s of
        (Inl e, s1) \<Rightarrow> (Inl e, s1)
      | (Inr _, s1) \<Rightarrow>
          (let s2 = prune now s1 in
           case find_device device_id s2 of
             None \<Rightarrow> (Inl PeNotFound, s2)
           | Some d \<Rightarrow>
               (case ensure_device_active d now of
                  Inl e \<Rightarrow> (Inl e, s2)
                | Inr _ \<Rightarrow>
                    if hm_len (ps_challenges s2) \<ge> MAX_CHALLENGES then (Inl PeCapacity, s2)
                    else let expires_at = now + seconds (int AUTH_CHALLENGE_TTL_SECS)
                         in (Inr \<lparr>ac_id = i, ac_device_id = device_id, ac_challenge = cr_b64_encode cr bytes,
                                  ac_expires_at = expires_at\<rparr>,
                             s2\<lparr>ps_challenges := hm_put i \<lparr>ch_device_id = device_id, ch_bytes = bytes,
                                                 ch_expires_at = expires_at\<rparr> (ps_challenges s2)\<rparr>))))"

record authenticated_session =
  as_session_id :: uuid
  as_device :: device_summary
  as_expires_at :: time
  as_cookie_token :: rust_str

definition connected_sessions :: "uuid \<Rightarrow> time \<Rightarrow> pairing_state \<Rightarrow> nat" where
  "connected_sessions device_id now s =
     hm_count (\<lambda>x. se_device_id x = device_id \<and> se_connected x \<and> se_expires_at x > now) (ps_sessions s)"

text \<open>The part of \<open>authenticate\<close> after the signature is verified.\<close>

definition open_session ::
    "crypto \<Rightarrow> paired_device \<Rightarrow> time \<Rightarrow> uuid \<Rightarrow> rust_str \<Rightarrow> pairing_state \<Rightarrow> authenticated_session outcome" where
  "open_session cr d now session_id cookie s =
     (if connected_sessions (pd_id d) now s \<ge> MAX_CONNECTIONS_PER_DEVICE then (Inl PeCapacity, s)
      else
        (let kept = hm_retain (\<lambda>_ x. se_device_id x \<noteq> pd_id d \<or> se_connected x) (ps_sessions s);
             d' = d\<lparr>pd_last_seen_at := Some now\<rparr>;
             expires_at = now + seconds (int AUTH_SESSION_TTL_SECS);
             x = \<lparr>se_id = session_id, se_device_id = pd_id d, se_expires_at = expires_at, se_connected = False\<rparr>
         in (Inr \<lparr>as_session_id = session_id, as_device = device_summary_of d' False,
                  as_expires_at = expires_at, as_cookie_token = cookie\<rparr>,
             (on_devices (update_first (\<lambda>y. pd_id y = pd_id d) (\<lambda>_. d')) s)
               \<lparr>ps_sessions := hm_put (cr_secret_hash cr cookie) x kept\<rparr>)))"

definition authenticate ::
    "crypto \<Rightarrow> authenticate_request \<Rightarrow> time \<Rightarrow> uuid \<Rightarrow> rust_str \<Rightarrow> pairing_state \<Rightarrow> authenticated_session outcome" where
  "authenticate cr req now session_id cookie s =
     (if \<not> is_ok (validate_authenticate (cr_b64 cr) req) then (Inl PeInvalidRequest, s)
      else case check_rate_limit now s of
        (Inl e, s1) \<Rightarrow> (Inl e, s1)
      | (Inr _, s1) \<Rightarrow>
          (let s2 = prune now s1 in
           case hm_get (ps_challenges s2) (ar_challenge_id req) of
             None \<Rightarrow> (Inl PeNotFound, s2)
           | Some ch \<Rightarrow>
               (let s3 = s2\<lparr>ps_challenges := hm_remove (ar_challenge_id req) (ps_challenges s2)\<rparr> in
                if ch_device_id ch \<noteq> ar_device_id req then (Inl PeUnauthorized, s3)
                else if ch_expires_at ch \<le> now then (Inl PeExpired, s3)
                else case find_device (ar_device_id req) s3 of
                  None \<Rightarrow> (Inl PeNotFound, s3)
                | Some d \<Rightarrow>
                    (case ensure_device_active d now of
                       Inl e \<Rightarrow> (Inl e, s3)
                     | Inr _ \<Rightarrow>
                         (case cr_b64 cr (pd_public_key d) of
                            None \<Rightarrow> (Inl PeInvalidRegistry, s3)
                          | Some key \<Rightarrow>
                              (case cr_b64 cr (ar_signature req) of
                                 None \<Rightarrow> (Inl PeInvalidRequest, s3)
                               | Some sig \<Rightarrow>
                                   if \<not> cr_verify cr key (ch_bytes ch) sig then (Inl PeUnauthorized, s3)
                                   else open_session cr d now session_id cookie s3))))))"

record session_authorization =
  sa_session_id :: uuid
  sa_device_id :: uuid
  sa_device_name :: rust_str
  sa_capabilities :: "capability list"

definition authorization_for :: "session \<Rightarrow> paired_device \<Rightarrow> session_authorization" where
  "authorization_for x d =
     \<lparr>sa_session_id = se_id x, sa_device_id = pd_id d, sa_device_name = pd_name d,
      sa_capabilities = pd_capabilities d\<rparr>"

definition authorize_session ::
    "crypto \<Rightarrow> rust_str \<Rightarrow> time \<Rightarrow> pairing_state \<Rightarrow> session_authorization outcome" where
  "authorize_session cr cookie now s =
     (let s1 = prune now s in
      case hm_get (ps_sessions s1) (cr_secret_hash cr cookie) of
        None \<Rightarrow> (Inl PeUnauthorized, s1)
      | Some x \<Rightarrow>
          (case find_device (se_device_id x) s1 of
             None \<Rightarrow> (Inl PeNotFound, s1)
           | Some d \<Rightarrow>
               (case ensure_device_active d now of
                  Inl e \<Rightarrow> (Inl e, s1)
                | Inr _ \<Rightarrow> (Inr (authorization_for x d), s1))))"

definition connect_session ::
    "crypto \<Rightarrow> rust_str \<Rightarrow> time \<Rightarrow> pairing_state \<Rightarrow> session_authorization outcome" where
  "connect_session cr cookie now s =
     (let s1 = prune now s; token = cr_secret_hash cr cookie in
      case hm_get (ps_sessions s1) token of
        None \<Rightarrow> (Inl PeUnauthorized, s1)
      | Some x \<Rightarrow>
          (case find_device (se_device_id x) s1 of
             None \<Rightarrow> (Inl PeNotFound, s1)
           | Some d \<Rightarrow>
               (case ensure_device_active d now of
                  Inl e \<Rightarrow> (Inl e, s1)
                | Inr _ \<Rightarrow>
                    if se_connected x then (Inl PeAlreadyUsed, s1)
                    else if connected_sessions (se_device_id x) now s1 \<ge> MAX_CONNECTIONS_PER_DEVICE
                    then (Inl PeCapacity, s1)
                    else
                      (Inr (authorization_for x d),
                       (on_devices (update_first (\<lambda>y. pd_id y = se_device_id x)
                                     (\<lambda>y. y\<lparr>pd_last_seen_at := Some now\<rparr>)) s1)
                         \<lparr>ps_sessions := hm_put token (x\<lparr>se_connected := True\<rparr>) (ps_sessions s1)\<rparr>))))"

text \<open>\<open>values_mut().find(...)\<close> frees one session with the identifier.\<close>

fun release_first :: "uuid \<Rightarrow> ('h \<times> session) list \<Rightarrow> ('h \<times> session) list" where
  "release_first i [] = []"
| "release_first i ((h, x) # m) =
     (if se_id x = i then (h, x\<lparr>se_connected := False\<rparr>) # m else (h, x) # release_first i m)"

definition release_session :: "uuid \<Rightarrow> pairing_state \<Rightarrow> pairing_state" where
  "release_session i s = s\<lparr>ps_sessions := release_first i (ps_sessions s)\<rparr>"

definition paired_devices :: "time \<Rightarrow> pairing_state \<Rightarrow> device_summary list \<times> pairing_state" where
  "paired_devices now s =
     (let s1 = prune now s;
          connected_ids = map se_device_id (filter se_connected (hm_values (ps_sessions s1)))
      in (map (\<lambda>d. device_summary_of d (pd_id d \<in> set connected_ids)) (active_devices s1), s1))"

definition revoke_device :: "uuid \<Rightarrow> time \<Rightarrow> pairing_state \<Rightarrow> unit outcome" where
  "revoke_device device_id now s =
     (case find_device device_id s of
        None \<Rightarrow> (Inl PeNotFound, s)
      | Some _ \<Rightarrow>
          (Inr (), (on_devices (update_first (\<lambda>d. pd_id d = device_id) (\<lambda>d. d\<lparr>pd_revoked_at := Some now\<rparr>)) s)
             \<lparr>ps_sessions := hm_retain (\<lambda>_ x. se_device_id x \<noteq> device_id) (ps_sessions s),
              ps_challenges := hm_retain (\<lambda>_ c. ch_device_id c \<noteq> device_id) (ps_challenges s)\<rparr>))"

definition revoke_all_devices :: "time \<Rightarrow> pairing_state \<Rightarrow> pairing_state" where
  "revoke_all_devices now s =
     invalidate_ephemeral_state
       (on_devices (map (\<lambda>d. if pd_revoked_at d = None then d\<lparr>pd_revoked_at := Some now\<rparr> else d)) s)"

end
