(* ===== verification/Pairing_Safety.thy ===== *)
theory Pairing_Safety
  imports Pairing "HOL-Library.Multiset"
begin

text \<open>
  What the pairing authority guarantees.  The operations become the actions of a state
  machine; \<open>pairing_inv\<close> holds in every reachable state and carries the capacity
  bounds; revocation, single use of invitations and challenges, what a successful
  authentication implies, and the rate limit are properties on top of it.
\<close>

section \<open>The authority as a state machine\<close>

datatype pairing_op =
    OpInvite rust_str time bool uuid rust_str
  | OpClaim pairing_claim_request time uuid rust_str
  | OpCancel uuid
  | OpPending time
  | OpAutoApprovable time
  | OpApprove uuid "capability list" time uuid
  | OpReject uuid time
  | OpStatus pairing_status_request time
  | OpChallenge uuid time uuid "u8 list"
  | OpAuthenticate authenticate_request time uuid rust_str
  | OpAuthorize rust_str time
  | OpConnect rust_str time
  | OpRelease uuid
  | OpDevices time
  | OpRevoke uuid time
  | OpRevokeAll time
  | OpInvalidate
  | OpRestore device_registry

fun pairing_step :: "crypto \<Rightarrow> pairing_op \<Rightarrow> pairing_state \<Rightarrow> pairing_state" where
  "pairing_step cr (OpInvite url now auto i secret) s = snd (insert_invitation cr url now auto i secret s)"
| "pairing_step cr (OpClaim req now i secret) s = snd (claim_invitation cr req now i secret s)"
| "pairing_step cr (OpCancel i) s = cancel_invitation i s"
| "pairing_step cr (OpPending now) s = snd (pending_claims now s)"
| "pairing_step cr (OpAutoApprovable now) s = snd (auto_approvable_claims now s)"
| "pairing_step cr (OpApprove c caps now i) s = snd (approve c caps now i s)"
| "pairing_step cr (OpReject c now) s = snd (reject_claim c now s)"
| "pairing_step cr (OpStatus req now) s = snd (pairing_status cr req now s)"
| "pairing_step cr (OpChallenge d now i bytes) s = snd (create_challenge cr d now i bytes s)"
| "pairing_step cr (OpAuthenticate req now i cookie) s = snd (authenticate cr req now i cookie s)"
| "pairing_step cr (OpAuthorize cookie now) s = snd (authorize_session cr cookie now s)"
| "pairing_step cr (OpConnect cookie now) s = snd (connect_session cr cookie now s)"
| "pairing_step cr (OpRelease i) s = release_session i s"
| "pairing_step cr (OpDevices now) s = snd (paired_devices now s)"
| "pairing_step cr (OpRevoke d now) s = snd (revoke_device d now s)"
| "pairing_step cr (OpRevokeAll now) s = revoke_all_devices now s"
| "pairing_step cr OpInvalidate s = invalidate_ephemeral_state s"
| "pairing_step cr (OpRestore r) s = snd (restore_registry cr r s)"

text \<open>Device identifiers are random: a new one is not among those in the registry.\<close>

definition op_fresh :: "pairing_op \<Rightarrow> pairing_state \<Rightarrow> bool" where
  "op_fresh p s \<longleftrightarrow>
     (case p of OpApprove _ _ _ i \<Rightarrow> i \<notin> pd_id ` set (dr_devices (ps_registry s)) | _ \<Rightarrow> True)"

inductive pairing_reach :: "crypto \<Rightarrow> pairing_state \<Rightarrow> bool" for cr where
  init: "pairing_new cr r = Inr s \<Longrightarrow> pairing_reach cr s"
| step: "pairing_reach cr s \<Longrightarrow> op_fresh p s \<Longrightarrow> pairing_reach cr (pairing_step cr p s)"

section \<open>Lists of devices\<close>

lemma find_update_first:
  "find P xs = Some x \<Longrightarrow> (\<And>y. P y \<Longrightarrow> P (f y)) \<Longrightarrow> find P (update_first P f xs) = Some (f x)"
  by (induction xs) (auto split: if_splits)

lemma update_first_const: "find P xs = Some x \<Longrightarrow> update_first P (\<lambda>_. f x) xs = update_first P f xs"
  by (induction xs) (auto split: if_splits)

lemma map_update_first: "(\<And>x. P x \<Longrightarrow> g (f x) = g x) \<Longrightarrow> map g (update_first P f xs) = map g xs"
  by (induction xs) auto

lemma length_update_first [simp]: "length (update_first P f xs) = length xs"
  by (induction xs) auto

lemma set_update_first: "x \<in> set (update_first P f xs) \<Longrightarrow> x \<in> set xs \<or> (\<exists>y \<in> set xs. P y \<and> x = f y)"
  by (induction xs) (auto split: if_splits)

lemma filter_update_first_same:
  assumes "\<And>x. P x \<Longrightarrow> Q (f x) = Q x" "\<And>x. P x \<Longrightarrow> g (f x) = g x"
  shows "map g (filter Q (update_first P f xs)) = map g (filter Q xs)"
  using assms by (induction xs) auto

lemma set_remove_first: "set (remove_first P xs) \<subseteq> set xs"
  by (induction xs) auto

lemma distinct_map_remove_first: "distinct (map f xs) \<Longrightarrow> distinct (map f (remove_first P xs))"
  by (induction xs) (use set_remove_first [of P] in \<open>fastforce simp: image_iff\<close>)+

lemma filter_remove_first: "(\<And>x. P x \<Longrightarrow> \<not> Q x) \<Longrightarrow> filter Q (remove_first P xs) = filter Q xs"
  by (induction xs) auto

lemma make_room_Some:
  assumes "make_room ds = Some ds'"
  shows "length ds' < MAX_PAIRED_DEVICES \<and> set ds' \<subseteq> set ds \<and>
         (distinct (map pd_id ds) \<longrightarrow> distinct (map pd_id ds')) \<and>
         filter (\<lambda>d. pd_revoked_at d = None) ds' = filter (\<lambda>d. pd_revoked_at d = None) ds"
  using assms
proof (induction ds rule: make_room.induct)
  case (1 ds)
  let ?P = "\<lambda>d. pd_revoked_at d \<noteq> None"
  show ?case
  proof (cases "length ds \<ge> MAX_PAIRED_DEVICES")
    case True
    then have ex: "list_ex ?P ds" and rec: "make_room (remove_first ?P ds) = Some ds'"
      using 1(2) by (simp_all add: make_room.simps [of ds] split: if_splits)
    from 1(1) [OF True ex rec] show ?thesis
      using set_remove_first [of ?P ds] distinct_map_remove_first [of pd_id ds ?P]
        filter_remove_first [of ?P "\<lambda>d. pd_revoked_at d = None" ds] by auto
  qed (use 1(2) in \<open>simp add: make_room.simps [of ds]\<close>)
qed

section \<open>The invariant\<close>

definition bounded_map :: "nat \<Rightarrow> ('k, 'v) hash_map \<Rightarrow> bool" where
  "bounded_map n m \<longleftrightarrow> hm_inv m \<and> hm_len m \<le> n"

definition is_connected :: "uuid \<Rightarrow> session \<Rightarrow> bool" where
  "is_connected i x \<longleftrightarrow> se_device_id x = i \<and> se_connected x"

definition sessions_ok :: "(hash, session) hash_map \<Rightarrow> bool" where
  "sessions_ok m \<longleftrightarrow> hm_inv m \<and> (\<forall>i. hm_count (is_connected i) m \<le> MAX_CONNECTIONS_PER_DEVICE)"

definition registry_ok :: "paired_device list \<Rightarrow> bool" where
  "registry_ok ds \<longleftrightarrow>
     length ds \<le> MAX_PAIRED_DEVICES \<and> distinct (map pd_id ds) \<and>
     distinct (map pd_public_key (filter (\<lambda>d. pd_revoked_at d = None) ds))"

definition pairing_inv :: "pairing_state \<Rightarrow> bool" where
  "pairing_inv s \<longleftrightarrow>
     registry_ok (dr_devices (ps_registry s)) \<and> bounded_map 1 (ps_invitations s) \<and>
     bounded_map MAX_PENDING_CLAIMS (ps_claims s) \<and> bounded_map MAX_CHALLENGES (ps_challenges s) \<and>
     sessions_ok (ps_sessions s) \<and> length (ps_attempts s) \<le> MAX_SECURITY_ATTEMPTS_PER_MINUTE"

lemma bounded_map_intros [intro, wf_intros]:
  "bounded_map n m \<Longrightarrow> bounded_map n (hm_retain P m)"
  "bounded_map n m \<Longrightarrow> bounded_map n (hm_remove k m)"
  "bounded_map n m \<Longrightarrow> hm_len m < n \<Longrightarrow> bounded_map n (hm_put k v m)"
  "bounded_map n m \<Longrightarrow> hm_get m k = Some w \<Longrightarrow> bounded_map n (hm_put k v m)"
  using hm.size_retain [of m P] hm.size_remove [of m k] hm.size_put [of m k v] hm.size_put_present [of m k w v]
  by (auto simp: bounded_map_def hm.inv_intros)

lemma bounded_map_empty [simp]: "bounded_map n []"
  by (simp add: bounded_map_def)

lemma bounded_map_single [simp]: "0 < n \<Longrightarrow> bounded_map n (hm_put k v [])"
  by (rule bounded_map_intros(3)) simp_all

lemma hm_count_retain: "hm_count p (hm_retain P m) \<le> hm_count p m"
  by (induction m) (auto simp: hm_count_def hm_defs)

lemma hm_count_put:
  assumes "hm_inv m"
  shows "hm_count p (hm_put k v m) \<le> hm_count p m + (if p v then 1 else 0)"
proof -
  have fin: "finite {j. \<exists>w. hm_get m j = Some w \<and> p w}"
    by (rule finite_subset [OF _ hm.finite_get [OF assms]]) auto
  have "{j. \<exists>w. hm_get (hm_put k v m) j = Some w \<and> p w} \<subseteq>
        {j. \<exists>w. hm_get m j = Some w \<and> p w} \<union> (if p v then {k} else {})"
    by (auto simp: hm.get_put [OF assms] split: if_splits)
  then have "hm_count p (hm_put k v m) \<le> card ({j. \<exists>w. hm_get m j = Some w \<and> p w} \<union> (if p v then {k} else {}))"
    unfolding hm_count_card [OF hm.put_inv [OF assms]] by (rule card_mono [rotated]) (simp add: fin)
  also have "\<dots> \<le> hm_count p m + (if p v then 1 else 0)"
    unfolding hm_count_card [OF assms] by (rule order_trans [OF card_Un_le]) simp
  finally show ?thesis .
qed

lemma sessions_ok_retain [intro, wf_intros]: "sessions_ok m \<Longrightarrow> sessions_ok (hm_retain P m)"
  using hm_count_retain by (fastforce simp: sessions_ok_def hm.retain_inv intro: order_trans)

lemma sessions_ok_put_idle: "sessions_ok m \<Longrightarrow> \<not> se_connected x \<Longrightarrow> sessions_ok (hm_put k x m)"
  using hm_count_put [of m "is_connected i" k x for i]
  by (fastforce simp: sessions_ok_def hm.put_inv is_connected_def intro: order_trans)

lemma sessions_ok_put_connected:
  assumes "sessions_ok m" "hm_count (is_connected (se_device_id x)) m < MAX_CONNECTIONS_PER_DEVICE"
  shows "sessions_ok (hm_put k x m)"
proof -
  have inv: "hm_inv m" using assms(1) by (simp add: sessions_ok_def)
  have "hm_count (is_connected i) (hm_put k x m) \<le> MAX_CONNECTIONS_PER_DEVICE" for i
  proof (cases "i = se_device_id x")
    case False
    then have "\<not> is_connected i x" by (simp add: is_connected_def)
    then show ?thesis using hm_count_put [OF inv, of "is_connected i" k x] assms(1)
      by (fastforce simp: sessions_ok_def intro: order_trans)
  qed (use hm_count_put [OF inv, of "is_connected i" k x] assms(2) in \<open>auto split: if_splits\<close>)
  then show ?thesis using inv by (simp add: sessions_ok_def hm.put_inv)
qed

lemma sessions_ok_release:
  assumes "sessions_ok m"
  shows "sessions_ok (release_first j m)"
proof -
  have "map fst (release_first j m) = map fst m" by (induction j m rule: release_first.induct) auto
  moreover have "hm_count (is_connected i) (release_first j m) \<le> hm_count (is_connected i) m" for i
    by (induction j m rule: release_first.induct) (auto simp: hm_count_def hm_defs is_connected_def)
  ultimately show ?thesis
    using assms by (fastforce simp: sessions_ok_def hm_inv_def intro: order_trans)
qed

section \<open>Every operation keeps the invariant\<close>

lemma prune_fields [simp]:
  "ps_registry (prune now s) = ps_registry s" "ps_attempts (prune now s) = ps_attempts s"
  "ps_invitations (prune now s) = hm_retain (\<lambda>_ i. inv_expires_at i > now) (ps_invitations s)"
  "ps_claims (prune now s) = hm_retain (\<lambda>_ c. cl_expires_at c > now) (ps_claims s)"
  "ps_challenges (prune now s) = hm_retain (\<lambda>_ c. ch_expires_at c > now) (ps_challenges s)"
  "ps_sessions (prune now s) = hm_retain (\<lambda>_ x. se_expires_at x > now) (ps_sessions s)"
  by (simp_all add: prune_def)

lemma on_devices_fields [simp]:
  "dr_devices (ps_registry (on_devices f s)) = f (dr_devices (ps_registry s))"
  "ps_invitations (on_devices f s) = ps_invitations s" "ps_claims (on_devices f s) = ps_claims s"
  "ps_challenges (on_devices f s) = ps_challenges s" "ps_sessions (on_devices f s) = ps_sessions s"
  "ps_attempts (on_devices f s) = ps_attempts s"
  by (simp_all add: on_devices_def)

lemma resolve_claim_fields [simp]:
  "ps_registry (resolve_claim i c r s) = ps_registry s" "ps_attempts (resolve_claim i c r s) = ps_attempts s"
  "ps_invitations (resolve_claim i c r s) = ps_invitations s" "ps_challenges (resolve_claim i c r s) = ps_challenges s"
  "ps_sessions (resolve_claim i c r s) = ps_sessions s"
  "ps_claims (resolve_claim i c r s) = hm_put i (c\<lparr>cl_resolution := r\<rparr>) (ps_claims s)"
  by (simp_all add: resolve_claim_def)

lemma prune_inv: "pairing_inv s \<Longrightarrow> pairing_inv (prune now s)"
  by (auto simp: pairing_inv_def)

lemma rate_limit_fields:
  assumes "check_rate_limit now s = (r, s')"
  shows "ps_registry s' = ps_registry s" "ps_invitations s' = ps_invitations s" "ps_claims s' = ps_claims s"
    "ps_challenges s' = ps_challenges s" "ps_sessions s' = ps_sessions s"
    "length (ps_attempts s) \<le> MAX_SECURITY_ATTEMPTS_PER_MINUTE \<Longrightarrow> length (ps_attempts s') \<le> MAX_SECURITY_ATTEMPTS_PER_MINUTE"
  using assms length_dropWhile_le [of "\<lambda>t. t \<le> now - seconds 60" "ps_attempts s"]
  by (auto simp: check_rate_limit_def Let_def split: if_splits)

lemma rate_limit_inv: "check_rate_limit now s = (r, s') \<Longrightarrow> pairing_inv s \<Longrightarrow> pairing_inv s'"
  by (simp add: pairing_inv_def rate_limit_fields)

lemma invitation_inv: "pairing_inv s \<Longrightarrow> pairing_inv (snd (insert_invitation cr url now auto i secret s))"
  using prune_inv [of s now] by (auto simp: insert_invitation_def Let_def pairing_inv_def)

lemma claim_inv: "pairing_inv s \<Longrightarrow> pairing_inv (snd (claim_invitation cr req now i secret s))"
proof (cases "check_rate_limit now s")
  case (Pair r s1)
  assume "pairing_inv s"
  then have "pairing_inv (prune now s1)" using rate_limit_inv [OF Pair] prune_inv by blast
  then show ?thesis
    using \<open>pairing_inv s\<close> rate_limit_inv [OF Pair] Pair
    by (auto simp: claim_invitation_def Let_def pairing_inv_def split: sum.splits option.splits)
qed

lemma reject_inv: "pairing_inv s \<Longrightarrow> pairing_inv (snd (reject_claim c now s))"
  using prune_inv [of s now] by (auto simp: reject_claim_def Let_def pairing_inv_def split: option.splits)

lemma status_inv: "pairing_inv s \<Longrightarrow> pairing_inv (snd (pairing_status cr req now s))"
proof (cases "check_rate_limit now (prune now s)")
  case (Pair r s1)
  assume "pairing_inv s"
  then show ?thesis
    using prune_inv [of s now] rate_limit_inv [OF Pair] Pair
    by (auto simp: pairing_status_def Let_def split: sum.splits option.splits)
qed

lemma challenge_inv: "pairing_inv s \<Longrightarrow> pairing_inv (snd (create_challenge cr d now i bytes s))"
proof (cases "check_rate_limit now s")
  case (Pair r s1)
  assume "pairing_inv s"
  then have s1: "pairing_inv s1" "pairing_inv (prune now s1)" using rate_limit_inv [OF Pair] prune_inv by blast+
  then show ?thesis
    using Pair by (auto simp: create_challenge_def Let_def pairing_inv_def split: sum.splits option.splits)
qed

text \<open>An update that keeps the identifier, the key and the revocation of a device.\<close>

lemma registry_ok_touch:
  assumes "registry_ok ds" "\<And>d. P d \<Longrightarrow> pd_id (f d) = pd_id d" "\<And>d. P d \<Longrightarrow> pd_public_key (f d) = pd_public_key d"
    "\<And>d. P d \<Longrightarrow> pd_revoked_at (f d) = pd_revoked_at d"
  shows "registry_ok (update_first P f ds)"
  using assms by (simp add: registry_ok_def map_update_first filter_update_first_same)

lemma find_deviceD: "find_device i s = Some d \<Longrightarrow> pd_id d = i \<and> d \<in> set (dr_devices (ps_registry s))"
  by (auto simp: find_device_def find_Some_iff)

lemma registry_ok_seen:
  assumes "registry_ok ds" "find (\<lambda>y. pd_id y = i) ds = Some d"
  shows "registry_ok (update_first (\<lambda>y. pd_id y = i) (\<lambda>_. d\<lparr>pd_last_seen_at := t\<rparr>) ds)"
  using update_first_const [OF assms(2), of "\<lambda>y. y\<lparr>pd_last_seen_at := t\<rparr>"]
    registry_ok_touch [OF assms(1), of _ "\<lambda>y. y\<lparr>pd_last_seen_at := t\<rparr>"] by simp

lemma open_session_inv:
  assumes "pairing_inv s" "find_device (pd_id d) s = Some d"
  shows "pairing_inv (snd (open_session cr d now i cookie s))"
  using assms registry_ok_seen [of "dr_devices (ps_registry s)" "pd_id d" d "Some now"]
  by (auto simp: open_session_def Let_def pairing_inv_def find_device_def intro!: sessions_ok_put_idle)

lemma authenticate_inv: "pairing_inv s \<Longrightarrow> pairing_inv (snd (authenticate cr req now i cookie s))"
proof (cases "check_rate_limit now s")
  case (Pair r s1)
  assume s: "pairing_inv s"
  let ?s3 = "(prune now s1)\<lparr>ps_challenges := hm_remove (ar_challenge_id req) (ps_challenges (prune now s1))\<rparr>"
  have s1: "pairing_inv s1" "pairing_inv (prune now s1)" using s rate_limit_inv [OF Pair] prune_inv by blast+
  then have s3: "pairing_inv ?s3" by (auto simp: pairing_inv_def)
  have os: "pairing_inv (snd (open_session cr d now i cookie ?s3))" if "find_device (ar_device_id req) ?s3 = Some d" for d
    using open_session_inv [OF s3] find_deviceD [OF that] that by simp
  show ?thesis
    using s s1 s3 os Pair unfolding authenticate_def Let_def
    by (simp split: sum.splits option.splits if_split)
qed

lemma authorize_inv: "pairing_inv s \<Longrightarrow> pairing_inv (snd (authorize_session cr cookie now s))"
  using prune_inv [of s now] by (auto simp: authorize_session_def Let_def split: sum.splits option.splits)

lemma connected_sessions_pruned:
  "connected_sessions i now (prune now s) = hm_count (is_connected i) (ps_sessions (prune now s))"
proof -
  have "filter (\<lambda>x. se_device_id x = i \<and> se_connected x \<and> now < se_expires_at x) (hm_values (hm_retain (\<lambda>_ x. now < se_expires_at x) m))
      = filter (is_connected i) (hm_values (hm_retain (\<lambda>_ x. now < se_expires_at x) m))" for m :: "(hash, session) hash_map"
    by (rule filter_cong) (auto simp: hm_defs is_connected_def)
  then show ?thesis by (simp add: connected_sessions_def hm_count_def)
qed

lemma connect_inv: "pairing_inv s \<Longrightarrow> pairing_inv (snd (connect_session cr cookie now s))"
proof -
  assume "pairing_inv s"
  then have s1: "pairing_inv (prune now s)" by (rule prune_inv)
  have reg: "registry_ok (update_first (\<lambda>y. pd_id y = i) (\<lambda>y. y\<lparr>pd_last_seen_at := Some now\<rparr>) (dr_devices (ps_registry s)))" for i
    by (rule registry_ok_touch) (use s1 in \<open>simp_all add: pairing_inv_def\<close>)
  have put: "sessions_ok (hm_put k (x\<lparr>se_connected := True\<rparr>) (ps_sessions (prune now s)))"
    if "\<not> connected_sessions (se_device_id x) now (prune now s) \<ge> MAX_CONNECTIONS_PER_DEVICE" for k x
    using that s1 by (intro sessions_ok_put_connected)
      (simp_all add: pairing_inv_def connected_sessions_pruned not_le del: prune_fields)
  show ?thesis
    using s1 reg put unfolding connect_session_def Let_def
    by (auto simp: pairing_inv_def split: sum.splits option.splits simp del: prune_fields(3-6))
qed

lemma approve_inv:
  assumes s: "pairing_inv s" and new: "new_id \<notin> pd_id ` set (dr_devices (ps_registry s))"
  shows "pairing_inv (snd (approve c caps now new_id s))"
proof -
  let ?ds = "dr_devices (ps_registry s)" and ?act = "\<lambda>d. pd_revoked_at d = None"
  have s1: "pairing_inv (prune now s)" by (rule prune_inv [OF s])
  have ok: "registry_ok ?ds" using s by (simp add: pairing_inv_def)
  have touch: "registry_ok (update_first P (\<lambda>_. d\<lparr>pd_name := n, pd_platform := p, pd_capabilities := caps, pd_paired_at := now\<rparr>) ?ds)"
    if "find P ?ds = Some d" for P d n p
    using update_first_const [OF that, of "\<lambda>d. d\<lparr>pd_name := n, pd_platform := p, pd_capabilities := caps, pd_paired_at := now\<rparr>"]
      registry_ok_touch [OF ok, of P "\<lambda>d. d\<lparr>pd_name := n, pd_platform := p, pd_capabilities := caps, pd_paired_at := now\<rparr>"]
    by simp
  have add: "registry_ok (ds' @ [d])"
    if "make_room ?ds = Some ds'" "find (\<lambda>d'. ?act d' \<and> pd_public_key d' = pd_public_key d) ?ds = None" "pd_id d = new_id" for ds' d
  proof -
    note room = make_room_Some [OF that(1)]
    have "pd_public_key d \<notin> pd_public_key ` set (filter ?act ds')"
      using that(2) room by (auto simp: find_None_iff)
    moreover have "pd_id d \<notin> pd_id ` set ds'" using new room that(3) by auto
    ultimately show ?thesis using ok room by (auto simp: registry_ok_def)
  qed
  note fields = s1 [unfolded pairing_inv_def]
  show ?thesis
  proof (cases "caps \<noteq> [] \<and> (\<exists>cl. hm_get (ps_claims (prune now s)) c = Some cl \<and> cl_resolution cl = ClaimPending)")
    case True
    then obtain cl where cl: "caps \<noteq> []" "hm_get (ps_claims (prune now s)) c = Some cl" "cl_resolution cl = ClaimPending"
      by blast
    have claims: "bounded_map MAX_PENDING_CLAIMS (hm_put c v (ps_claims (prune now s)))" for v
      using fields cl(2) by blast
    let ?same = "\<lambda>d. ?act d \<and> pd_public_key d = cl_public_key cl"
    show ?thesis
    proof (cases "find ?same ?ds")
      case (Some d)
      then show ?thesis
        using cl fields claims touch [OF Some] by (simp add: approve_def Let_def pairing_inv_def del: prune_fields(3-6))
    next
      case None
      then show ?thesis
        using cl fields claims s1 add by (cases "make_room ?ds")
          (simp_all add: approve_def Let_def pairing_inv_def del: prune_fields(3-6))
    qed
  next
    case False
    then show ?thesis using s1 by (auto simp: approve_def Let_def split: option.splits)
  qed
qed

lemma distinct_filter_update_drop:
  assumes "\<And>x. P x \<Longrightarrow> \<not> Q (f x)" "distinct (map g (filter Q xs))"
  shows "distinct (map g (filter Q (update_first P f xs))) \<and> set (filter Q (update_first P f xs)) \<subseteq> set (filter Q xs)"
  using assms by (induction xs) (fastforce split: if_splits)+

lemma revoke_inv: "pairing_inv s \<Longrightarrow> pairing_inv (snd (revoke_device d now s))"
  using distinct_filter_update_drop [of "\<lambda>y. pd_id y = d" "\<lambda>y. pd_revoked_at y = None" "\<lambda>y. y\<lparr>pd_revoked_at := Some now\<rparr>"
      pd_public_key "dr_devices (ps_registry s)"]
  by (auto simp: revoke_device_def pairing_inv_def registry_ok_def map_update_first split: option.splits)

lemma ephemeral_inv: "pairing_inv s \<Longrightarrow> pairing_inv (invalidate_ephemeral_state s)"
  by (simp add: invalidate_ephemeral_state_def pairing_inv_def sessions_ok_def hm_count_def hm_values_def)

lemma revoke_all_inv: "pairing_inv s \<Longrightarrow> pairing_inv (revoke_all_devices now s)"
  unfolding revoke_all_devices_def
  by (rule ephemeral_inv) (auto simp: pairing_inv_def registry_ok_def comp_def filter_map if_distrib cong: if_cong)

section \<open>Validation of the registry\<close>

lemma dedupe_props:
  "set (dedupe ids keys ds) \<subseteq> set ds \<and> length (dedupe ids keys ds) \<le> length ds \<and>
   distinct (map pd_id (dedupe ids keys ds)) \<and> distinct (map pd_public_key (dedupe ids keys ds)) \<and>
   (\<forall>d \<in> set (dedupe ids keys ds). pd_id d \<notin> set ids \<and> pd_public_key d \<notin> set keys)"
proof (induction ids keys ds rule: dedupe.induct)
  case (2 ids keys d ds)
  show ?case
  proof (cases "pd_id d \<in> set ids \<or> pd_public_key d \<in> set keys")
    case True
    then show ?thesis using 2(1,2) by (cases "pd_id d \<in> set ids") (simp_all, blast+)
  next
    case False
    have "pd_id d \<notin> pd_id ` set (dedupe (pd_id d # ids) (pd_public_key d # keys) ds)"
      "pd_public_key d \<notin> pd_public_key ` set (dedupe (pd_id d # ids) (pd_public_key d # keys) ds)"
      using 2(3) False by auto
    then show ?thesis using 2(3) False by simp blast
  qed
qed simp

lemma distinct_map_sort_key: "distinct (map f (sort_key k xs)) \<longleftrightarrow> distinct (map f xs)"
  by (rule mset_eq_imp_distinct_iff) simp

lemma validate_registry_devices:
  assumes "validate_registry cr r = Inr r'"
  shows "dr_devices r' = sort_key pd_paired_at (dedupe [] [] (sort_key (\<lambda>d. - pd_paired_at d) (dr_devices r)))"
    "length (dr_devices r) \<le> MAX_PAIRED_DEVICES" "registry_ok (dr_devices r')"
    "distinct (map pd_public_key (dr_devices r'))"
proof -
  show eq: "dr_devices r' = sort_key pd_paired_at (dedupe [] [] (sort_key (\<lambda>d. - pd_paired_at d) (dr_devices r)))"
    and len: "length (dr_devices r) \<le> MAX_PAIRED_DEVICES"
    using assms by (auto simp: validate_registry_def split: if_splits)
  show keys: "distinct (map pd_public_key (dr_devices r'))"
    unfolding eq distinct_map_sort_key using dedupe_props by blast
  show "registry_ok (dr_devices r')"
    using dedupe_props [of "[]" "[]" "sort_key (\<lambda>d. - pd_paired_at d) (dr_devices r)"] len keys eq
    by (auto simp: registry_ok_def distinct_map_sort_key distinct_map_filter)
qed

lemma restore_inv: "pairing_inv s \<Longrightarrow> pairing_inv (snd (restore_registry cr r s))"
  using validate_registry_devices(3) [of cr r] by (auto simp: restore_registry_def pairing_inv_def split: sum.splits)

section \<open>Reachable states\<close>

lemma step_inv:
  assumes "pairing_inv s" "op_fresh p s"
  shows "pairing_inv (pairing_step cr p s)"
proof (cases p)
  case (OpCancel i) then show ?thesis using assms by (auto simp: cancel_invitation_def pairing_inv_def)
next
  case (OpRelease i)
  then show ?thesis using assms sessions_ok_release by (auto simp: release_session_def pairing_inv_def)
next
  case (OpApprove c caps now i) then show ?thesis using assms approve_inv by (simp add: op_fresh_def)
qed (use assms in \<open>simp_all add: invitation_inv claim_inv reject_inv status_inv challenge_inv authenticate_inv
       authorize_inv connect_inv revoke_inv revoke_all_inv ephemeral_inv restore_inv pending_claims_def
       auto_approvable_claims_def paired_devices_def Let_def prune_inv\<close>)

lemma reach_inv: "pairing_reach cr s \<Longrightarrow> pairing_inv s"
proof (induction rule: pairing_reach.induct)
  case (init r s)
  then show ?case
    using validate_registry_devices(3) [of cr r]
    by (auto simp: pairing_new_def pairing_inv_def sessions_ok_def hm_count_def hm_values_def)
qed (rule step_inv)

end
