(* ===== verification/Pairing_Properties.thy ===== *)
theory Pairing_Properties
  imports Pairing_Safety
begin

text \<open>
  The properties of the pairing authority, stated over its operations: capacity in every
  reachable state, revocation, single use of invitations and challenges, what a
  successful authentication implies, the sliding rate limit, and the registry as it
  comes back from disk.
\<close>

section \<open>A small authority to exercise the properties\<close>

definition sample_crypto :: crypto where
  "sample_crypto =
     \<lparr>cr_secret_hash = map of_nat, cr_b64 = (\<lambda>s. Some (map of_nat s)), cr_b64_encode = map unat,
      cr_fingerprint = map unat, cr_verify = (\<lambda>key msg sig. take 1 sig = take 1 msg),
      cr_show_uuid = (\<lambda>i. [unat i])\<rparr>"

definition sample_key :: rust_str where
  "sample_key = 4 # replicate 64 0"

definition sample_device :: paired_device where
  "sample_device =
     \<lparr>pd_id = 1, pd_name = lit ''phone'', pd_platform = Ios, pd_capabilities = [CapView],
      pd_public_key = sample_key, pd_paired_at = 0, pd_last_seen_at = None, pd_revoked_at = None\<rparr>"

definition sample_registry :: device_registry where
  "sample_registry = \<lparr>dr_version = 1, dr_route_id = replicate 24 0x61, dr_devices = [sample_device]\<rparr>"

definition sample_pairing :: pairing_state where
  "sample_pairing =
     \<lparr>ps_registry = sample_registry, ps_invitations = [], ps_claims = [], ps_challenges = [],
      ps_sessions = [], ps_attempts = []\<rparr>"

lemma str_of_ascii: "\<forall>c\<in>set s. c < 0x80 \<Longrightarrow> str_len s = length s \<and> str_bytes s = s"
  by (induction s) (simp_all add: str_len_def str_bytes_def len_utf8_def utf8_char_def)

lemma sample_validates: "validate_registry sample_crypto sample_registry = Inr sample_registry"
  using str_of_ascii [of "replicate 24 0x61"] str_of_ascii [of "lit ''phone''"]
  by (simp add: validate_registry_def sample_registry_def sample_device_def validate_device_def sample_crypto_def
      sample_key_def valid_p256_key_def REGISTRY_VERSION_def MAX_PAIRED_DEVICES_def MAX_DEVICE_NAME_BYTES_def
      lit_def is_control_def is_ascii_lowercase_def list_all_iff)

lemma sample_reach: "pairing_reach sample_crypto sample_pairing"
  by (rule pairing_reach.init [of _ sample_registry])
     (simp add: pairing_new_def sample_validates sample_pairing_def)

section \<open>Capacity\<close>

text \<open>C6: in every state the authority can reach, there are at most 32 devices, 16 claims,
  64 challenges, one invitation, 30 counted attempts and three connected sessions per
  device; device identifiers are unique, and so are the keys of the devices that are
  not revoked.\<close>

theorem pairing_capacity:
  assumes "pairing_reach cr s"
  shows "length (dr_devices (ps_registry s)) \<le> 32 \<and> hm_len (ps_claims s) \<le> 16 \<and>
         hm_len (ps_challenges s) \<le> 64 \<and> hm_len (ps_invitations s) \<le> 1 \<and> length (ps_attempts s) \<le> 30 \<and>
         hm_count (\<lambda>x. se_device_id x = i \<and> se_connected x) (ps_sessions s) \<le> 3 \<and>
         distinct (map pd_id (dr_devices (ps_registry s))) \<and> distinct (map pd_public_key (active_devices s))"
proof -
  have "(\<lambda>x. se_device_id x = i \<and> se_connected x) = is_connected i" by (rule ext) (simp add: is_connected_def)
  then show ?thesis
    using reach_inv [OF assms]
    by (simp add: pairing_inv_def bounded_map_def registry_ok_def sessions_ok_def active_devices_def
        MAX_PAIRED_DEVICES_def MAX_PENDING_CLAIMS_def MAX_CHALLENGES_def MAX_SECURITY_ATTEMPTS_PER_MINUTE_def
        MAX_CONNECTIONS_PER_DEVICE_def)
qed

theorem pairing_capacity_witness:
  "length (dr_devices (ps_registry sample_pairing)) \<le> 32 \<and> hm_len (ps_claims sample_pairing) \<le> 16 \<and>
   hm_len (ps_challenges sample_pairing) \<le> 64 \<and> hm_len (ps_invitations sample_pairing) \<le> 1 \<and>
   length (ps_attempts sample_pairing) \<le> 30 \<and>
   hm_count (\<lambda>x. se_device_id x = 1 \<and> se_connected x) (ps_sessions sample_pairing) \<le> 3 \<and>
   distinct (map pd_id (dr_devices (ps_registry sample_pairing))) \<and>
   distinct (map pd_public_key (active_devices sample_pairing))"
  by (rule pairing_capacity [OF sample_reach])

section \<open>Revocation\<close>

text \<open>All records of a device are revoked.\<close>

definition barred :: "uuid \<Rightarrow> pairing_state \<Rightarrow> bool" where
  "barred i s \<longleftrightarrow> (\<forall>d \<in> set (dr_devices (ps_registry s)). pd_id d = i \<longrightarrow> pd_revoked_at d \<noteq> None)"

text \<open>Later operations: the random source does not repeat the identifier, and no other
  registry is loaded.\<close>

definition keeps_out :: "uuid \<Rightarrow> pairing_op \<Rightarrow> bool" where
  "keeps_out i p \<longleftrightarrow>
     (case p of OpApprove _ _ _ j \<Rightarrow> j \<noteq> i | OpRestore _ \<Rightarrow> False | _ \<Rightarrow> True)"

lemma barred_cong: "ps_registry s' = ps_registry s \<Longrightarrow> barred i s' = barred i s"
  by (simp add: barred_def)

lemma barred_touch:
  assumes "barred i s" "\<And>d. pd_id (f d) = pd_id d" "\<And>d. P d \<Longrightarrow> pd_revoked_at d \<noteq> None \<Longrightarrow> pd_revoked_at (f d) \<noteq> None"
    "dr_devices (ps_registry s') = update_first P f (dr_devices (ps_registry s))"
  shows "barred i s'"
  using assms by (auto simp: barred_def dest!: set_update_first)

lemma barred_find: "barred i s \<Longrightarrow> find_device i s = Some d \<Longrightarrow> ensure_device_active d now = Inl PeRevoked"
  by (auto simp: barred_def find_device_def find_Some_iff ensure_device_active_def then_check_def and_then_def
      reject_if_def)

lemma registry_unchanged:
  "ps_registry (snd (insert_invitation cr url now auto i secret s)) = ps_registry s"
  "ps_registry (snd (claim_invitation cr req now i secret s)) = ps_registry s"
  "ps_registry (cancel_invitation i s) = ps_registry s"
  "ps_registry (snd (pending_claims now s)) = ps_registry s"
  "ps_registry (snd (auto_approvable_claims now s)) = ps_registry s"
  "ps_registry (snd (reject_claim i now s)) = ps_registry s"
  "ps_registry (snd (pairing_status cr sreq now s)) = ps_registry s"
  "ps_registry (snd (create_challenge cr i now j bytes s)) = ps_registry s"
  "ps_registry (snd (authorize_session cr cookie now s)) = ps_registry s"
  "ps_registry (release_session i s) = ps_registry s"
  "ps_registry (snd (paired_devices now s)) = ps_registry s"
  "ps_registry (invalidate_ephemeral_state s) = ps_registry s"
proof -
  obtain r s1 where r: "check_rate_limit now s = (r, s1)" by (cases "check_rate_limit now s")
  obtain r' s1' where r': "check_rate_limit now (prune now s) = (r', s1')" by (cases "check_rate_limit now (prune now s)")
  note f = rate_limit_fields(1) [OF r] rate_limit_fields(1) [OF r']
  show "ps_registry (snd (claim_invitation cr req now i secret s)) = ps_registry s"
    using f(1) r by (auto simp: claim_invitation_def Let_def split: sum.splits option.splits)
  show "ps_registry (snd (pairing_status cr sreq now s)) = ps_registry s"
    using f(2) r' by (auto simp: pairing_status_def Let_def split: sum.splits option.splits)
  show "ps_registry (snd (create_challenge cr i now j bytes s)) = ps_registry s"
    using f(1) r by (auto simp: create_challenge_def Let_def split: sum.splits option.splits)
qed (auto simp: insert_invitation_def cancel_invitation_def pending_claims_def auto_approvable_claims_def
      reject_claim_def authorize_session_def release_session_def paired_devices_def
      invalidate_ephemeral_state_def Let_def split: sum.splits option.splits)

lemma barred_open:
  assumes "barred i s" "find_device (pd_id d) s = Some d"
  shows "barred i (snd (open_session cr d now j cookie s))"
proof (cases "connected_sessions (pd_id d) now s \<ge> MAX_CONNECTIONS_PER_DEVICE")
  case False
  have "dr_devices (ps_registry (snd (open_session cr d now j cookie s))) =
      update_first (\<lambda>y. pd_id y = pd_id d) (\<lambda>y. y\<lparr>pd_last_seen_at := Some now\<rparr>) (dr_devices (ps_registry s))"
    using False update_first_const [OF assms(2) [unfolded find_device_def], of "\<lambda>y. y\<lparr>pd_last_seen_at := Some now\<rparr>"]
    by (simp add: open_session_def Let_def)
  from barred_touch [OF assms(1) _ _ this] show ?thesis by simp
qed (use assms in \<open>simp add: open_session_def\<close>)

lemma barred_authenticate:
  assumes "barred i s"
  shows "barred i (snd (authenticate cr req now j cookie s))"
proof -
  obtain r s1 where r: "check_rate_limit now s = (r, s1)" by (cases "check_rate_limit now s")
  let ?s3 = "(prune now s1)\<lparr>ps_challenges := hm_remove (ar_challenge_id req) (ps_challenges (prune now s1))\<rparr>"
  have s: "barred i s1" "barred i (prune now s1)" "barred i ?s3"
    using assms rate_limit_fields(1) [OF r] by (simp_all add: barred_def)
  have os: "barred i (snd (open_session cr d now j cookie ?s3))" if "find_device (ar_device_id req) ?s3 = Some d" for d
    using barred_open [OF s(3)] find_deviceD [OF that] that by simp
  show ?thesis
    using assms s os r unfolding authenticate_def Let_def
    by (simp split: sum.splits option.splits if_split)
qed

lemma barred_connect:
  assumes "barred i s"
  shows "barred i (snd (connect_session cr cookie now s))"
proof -
  have "barred i (prune now s)" using assms by (simp add: barred_def)
  moreover have "barred i (on_devices (update_first (\<lambda>y. pd_id y = j) (\<lambda>y. y\<lparr>pd_last_seen_at := Some now\<rparr>)) (prune now s)
      \<lparr>ps_sessions := m\<rparr>)" for j m
    by (rule barred_touch [OF assms, of "\<lambda>y. y\<lparr>pd_last_seen_at := Some now\<rparr>" "\<lambda>y. pd_id y = j"]) simp_all
  ultimately show ?thesis
    unfolding connect_session_def Let_def by (simp split: sum.splits option.splits if_split)
qed

text \<open>What an approval does to the device list: nothing, renew the record of an unrevoked
  device with the claimed key, or append a fresh record where there is room.\<close>

lemma approve_devices:
  fixes c caps now new_id s
  defines "ds' \<equiv> dr_devices (ps_registry (snd (approve c caps now new_id s)))"
    and "ds \<equiv> dr_devices (ps_registry s)"
  obtains (kept) "ds' = ds"
  | (renewed) P d n pl where "find P ds = Some d" "\<And>y. P y \<Longrightarrow> pd_revoked_at y = None"
      "ds' = update_first P (\<lambda>_. d\<lparr>pd_name := n, pd_platform := pl, pd_capabilities := caps, pd_paired_at := now\<rparr>) ds"
  | (added) room d where "make_room ds = Some room" "pd_id d = new_id" "ds' = room @ [d]"
proof (cases "caps \<noteq> [] \<and> (\<exists>cl. hm_get (ps_claims (prune now s)) c = Some cl \<and> cl_resolution cl = ClaimPending)")
  case True
  then obtain cl where cl: "caps \<noteq> []" "hm_get (ps_claims (prune now s)) c = Some cl" "cl_resolution cl = ClaimPending"
    by blast
  let ?same = "\<lambda>d. pd_revoked_at d = None \<and> pd_public_key d = cl_public_key cl"
  show ?thesis
  proof (cases "find ?same ds")
    case (Some d)
    then show ?thesis
      using cl by (intro renewed [OF Some, of "cl_platform cl" "cl_device_name cl"]) (simp_all add: approve_def Let_def ds'_def ds_def)
  next
    case None
    show ?thesis
    proof (cases "make_room ds")
      case None
      then show ?thesis using cl \<open>find ?same ds = None\<close> by (intro kept) (simp add: approve_def Let_def ds'_def ds_def)
    next
      case (Some room)
      then show ?thesis
        using cl \<open>find ?same ds = None\<close> by (intro added [OF Some]) (simp_all add: approve_def Let_def ds'_def ds_def)
    qed
  qed
next
  case False
  then show ?thesis by (intro kept) (auto simp: approve_def Let_def ds'_def ds_def split: option.splits)
qed

lemma barred_approve:
  assumes b: "barred i s" and new: "new_id \<noteq> i"
  shows "barred i (snd (approve c caps now new_id s))"
proof (cases rule: approve_devices [of c caps now new_id s])
  case kept
  then show ?thesis using b by (simp add: barred_def)
next
  case (renewed P d n pl)
  then show ?thesis using b by (auto simp: barred_def find_Some_iff dest!: set_update_first)
next
  case (added room d)
  then show ?thesis using make_room_Some [OF added(1)] b new by (auto simp: barred_def)
qed

lemmas barred_kept = registry_unchanged [THEN barred_cong, THEN iffD2]

lemma barred_step:
  assumes "barred i s" "keeps_out i p"
  shows "barred i (pairing_step cr p s)"
proof (cases p)
  case (OpRevoke d now)
  have "barred i (snd (revoke_device d now s))"
    using assms(1) by (auto simp: revoke_device_def barred_def split: option.splits dest!: set_update_first)
  then show ?thesis using OpRevoke by simp
next
  case (OpRevokeAll now)
  then show ?thesis using assms(1) by (auto simp: revoke_all_devices_def registry_unchanged(12) barred_def)
qed (use assms in \<open>simp_all add: barred_kept barred_authenticate barred_connect barred_approve keeps_out_def\<close>)

lemma barred_run: "barred i s \<Longrightarrow> list_all (keeps_out i) ps \<Longrightarrow> barred i (fold (pairing_step cr) ps s)"
  by (induction ps arbitrary: s) (simp_all add: barred_step)

lemma revoked_in_update:
  assumes "distinct (map pd_id ds)" "d \<in> set (update_first (\<lambda>d. pd_id d = i) (\<lambda>d. d\<lparr>pd_revoked_at := Some now\<rparr>) ds)"
    "pd_id d = i"
  shows "pd_revoked_at d \<noteq> None"
  using assms(1,2)
proof (induction ds)
  case (Cons a ds)
  show ?case
  proof (cases "pd_id a = i")
    case True
    then have "d \<notin> set ds" using Cons.prems(1) assms(3) by (metis distinct.simps(2) image_eqI list.set_map list.simps(9))
    then show ?thesis using Cons.prems(2) True by simp
  next
    case False
    then show ?thesis using Cons assms(3) by auto
  qed
qed simp

lemma revoke_bars:
  assumes "pairing_inv s" "revoke_device i now s = (Inr (), s')"
  shows "barred i s'"
proof -
  have "distinct (map pd_id (dr_devices (ps_registry s)))"
    using assms(1) by (simp add: pairing_inv_def registry_ok_def)
  note out = revoked_in_update [OF this, of _ i now]
  show ?thesis
    using assms(2) out by (cases "find_device i s") (auto simp: revoke_device_def barred_def)
qed

text \<open>No operation hands out a barred device.\<close>

lemma barred_refused:
  assumes b: "barred i s"
  shows "fst (authorize_session cr cookie t s) = Inr a \<Longrightarrow> sa_device_id a \<noteq> i"
    "fst (connect_session cr cookie t s) = Inr a \<Longrightarrow> sa_device_id a \<noteq> i"
    "\<not> is_ok (fst (create_challenge cr i t j bytes s))"
proof -
  have p: "barred i (prune t s)" using b by (simp add: barred_def)
  have no: "pd_id d \<noteq> i" if "find_device k (prune t s) = Some d" "ensure_device_active d t = Inr u" for k d u
    using barred_find [OF p, of d t] find_deviceD [OF that(1)] that by auto
  show "fst (authorize_session cr cookie t s) = Inr a \<Longrightarrow> sa_device_id a \<noteq> i"
    by (auto simp: authorize_session_def authorization_for_def Let_def dest: no split: sum.splits option.splits)
  show "fst (connect_session cr cookie t s) = Inr a \<Longrightarrow> sa_device_id a \<noteq> i"
    by (auto simp: connect_session_def authorization_for_def Let_def dest: no split: sum.splits option.splits if_splits)
  obtain r s1 where r: "check_rate_limit t s = (r, s1)" by (cases "check_rate_limit t s")
  have "barred i (prune t s1)" using b rate_limit_fields(1) [OF r] by (simp add: barred_def)
  from barred_find [OF this] show "\<not> is_ok (fst (create_challenge cr i t j bytes s))"
    using r by (auto simp: create_challenge_def is_ok_iff Let_def split: sum.splits option.splits)
qed

text \<open>C5: once a device is revoked, no later sequence of operations makes the authority
  serve it again: no cookie is authorized or connected as that device, and no
  challenge is issued for it.  Device identifiers are never issued twice, and the
  registry is not replaced from disk in between.\<close>

theorem revoked_device_stays_out:
  assumes "pairing_reach cr s" "revoke_device i now s = (Inr (), s')" "list_all (keeps_out i) ps"
  defines "s'' \<equiv> fold (pairing_step cr) ps s'"
  shows "i \<notin> sa_device_id ` {a. fst (authorize_session cr cookie t s'') = Inr a} \<and>
         i \<notin> sa_device_id ` {a. fst (connect_session cr cookie t s'') = Inr a} \<and>
         \<not> is_ok (fst (create_challenge cr i t j bytes s''))"
proof -
  have "barred i s''"
    unfolding s''_def by (rule barred_run [OF revoke_bars [OF reach_inv [OF assms(1)] assms(2)] assms(3)])
  from barred_refused [OF this] show ?thesis by blast
qed

theorem revoked_device_stays_out_witness:
  "1 \<notin> sa_device_id ` {a. fst (authorize_session sample_crypto [7] 9
          (fold (pairing_step sample_crypto) [OpDevices 5] (snd (revoke_device 1 3 sample_pairing)))) = Inr a} \<and>
   1 \<notin> sa_device_id ` {a. fst (connect_session sample_crypto [7] 9
          (fold (pairing_step sample_crypto) [OpDevices 5] (snd (revoke_device 1 3 sample_pairing)))) = Inr a} \<and>
   \<not> is_ok (fst (create_challenge sample_crypto 1 9 8 [1]
          (fold (pairing_step sample_crypto) [OpDevices 5] (snd (revoke_device 1 3 sample_pairing)))))"
  by (rule revoked_device_stays_out [OF sample_reach])
     (simp_all add: revoke_device_def find_device_def sample_pairing_def sample_registry_def sample_device_def
       keeps_out_def)

section \<open>Single use\<close>

lemma hm_get_None:
  "hm_get m k = None \<Longrightarrow> hm_get (hm_retain P m) k = None"
  "hm_get m k = None \<Longrightarrow> hm_get (hm_remove j m) k = None"
  "hm_get m k = None \<Longrightarrow> j \<noteq> k \<Longrightarrow> hm_get (hm_put j v m) k = None"
  "hm_get (hm_remove k m) k = None"
  "hm_get (hm_put j v []) k = None \<longleftrightarrow> j \<noteq> k"
  by (auto simp: hm_defs map_of_eq_None_iff update_conv' delete_conv')

text \<open>A step leaves an identifier unused unless the random source issues it again.\<close>

definition issues_invitation :: "uuid \<Rightarrow> pairing_op \<Rightarrow> bool" where
  "issues_invitation i p \<longleftrightarrow> (case p of OpInvite _ _ _ j _ \<Rightarrow> j = i | _ \<Rightarrow> False)"

definition issues_challenge :: "uuid \<Rightarrow> pairing_op \<Rightarrow> bool" where
  "issues_challenge i p \<longleftrightarrow> (case p of OpChallenge _ _ j _ \<Rightarrow> j = i | _ \<Rightarrow> False)"

definition unused :: "uuid \<Rightarrow> pairing_state \<Rightarrow> bool" where
  "unused i s \<longleftrightarrow> hm_get (ps_invitations s) i = None"

definition unchallenged :: "uuid \<Rightarrow> pairing_state \<Rightarrow> bool" where
  "unchallenged i s \<longleftrightarrow> hm_get (ps_challenges s) i = None"

lemma unused_basic [simp]:
  "unused i s \<Longrightarrow> unused i (prune now s)"
  "unused i (on_devices f s) = unused i s"
  "unused i (s\<lparr>ps_claims := cs\<rparr>) = unused i s" "unused i (s\<lparr>ps_challenges := chs\<rparr>) = unused i s"
  "unused i (s\<lparr>ps_sessions := ses\<rparr>) = unused i s" "unused i (s\<lparr>ps_registry := r\<rparr>) = unused i s"
  "unused i s \<Longrightarrow> unused i (s\<lparr>ps_invitations := hm_remove j (ps_invitations s)\<rparr>)"
  "unused i (resolve_claim c cl res s) = unused i s"
  by (simp_all add: unused_def hm_get_None resolve_claim_def)

lemma unchallenged_basic [simp]:
  "unchallenged i s \<Longrightarrow> unchallenged i (prune now s)"
  "unchallenged i (on_devices f s) = unchallenged i s"
  "unchallenged i (s\<lparr>ps_claims := cs\<rparr>) = unchallenged i s"
  "unchallenged i (s\<lparr>ps_invitations := is\<rparr>) = unchallenged i s"
  "unchallenged i (s\<lparr>ps_sessions := ses\<rparr>) = unchallenged i s"
  "unchallenged i (s\<lparr>ps_registry := r\<rparr>) = unchallenged i s"
  "unchallenged i s \<Longrightarrow> unchallenged i (s\<lparr>ps_challenges := hm_remove j (ps_challenges s)\<rparr>)"
  "unchallenged i (resolve_claim c cl res s) = unchallenged i s"
  by (simp_all add: unchallenged_def hm_get_None resolve_claim_def)

lemma rate_limit_unused [simp]:
  "check_rate_limit now s = (r, s') \<Longrightarrow> unused i s' = unused i s"
  "check_rate_limit now s = (r, s') \<Longrightarrow> unchallenged i s' = unchallenged i s"
  by (simp_all add: unused_def unchallenged_def rate_limit_fields)

lemmas op_defs = insert_invitation_def claim_invitation_def cancel_invitation_def pending_claims_def
  auto_approvable_claims_def reject_claim_def pairing_status_def authorize_session_def connect_session_def
  release_session_def paired_devices_def revoke_device_def revoke_all_devices_def invalidate_ephemeral_state_def
  restore_registry_def create_challenge_def open_session_def

lemma approve_unused:
  "unused i s \<Longrightarrow> unused i (snd (approve c caps now j s))"
  "unchallenged i s \<Longrightarrow> unchallenged i (snd (approve c caps now j s))"
  unfolding approve_def Let_def by (simp_all split: option.split)

lemma authenticate_unused:
  "unused i s \<Longrightarrow> unused i (snd (authenticate cr req now j cookie s))"
  "unchallenged i s \<Longrightarrow> unchallenged i (snd (authenticate cr req now j cookie s))"
  unfolding authenticate_def open_session_def Let_def
  by (simp_all split: option.split sum.split prod.split,
      simp_all add: unused_def unchallenged_def hm_get_None rate_limit_fields)

lemma step_unused:
  assumes "unused i s" "\<not> issues_invitation i p"
  shows "unused i (pairing_step cr p s)"
  using assms
  by (cases p) (simp_all add: op_defs approve_unused authenticate_unused issues_invitation_def Let_def
      split: option.split sum.split prod.split, simp_all add: unused_def hm_get_None rate_limit_fields)

lemma step_unchallenged:
  assumes "unchallenged i s" "\<not> issues_challenge i p"
  shows "unchallenged i (pairing_step cr p s)"
  using assms
  by (cases p) (simp_all add: op_defs approve_unused authenticate_unused issues_challenge_def Let_def
      split: option.split sum.split prod.split, simp_all add: unchallenged_def hm_get_None rate_limit_fields)

lemma run_unused:
  "unused i s \<Longrightarrow> list_all (\<lambda>p. \<not> issues_invitation i p) ps \<Longrightarrow> unused i (fold (pairing_step cr) ps s)"
  "unchallenged j s \<Longrightarrow> list_all (\<lambda>p. \<not> issues_challenge j p) ps \<Longrightarrow> unchallenged j (fold (pairing_step cr) ps s)"
  by (induction ps arbitrary: s) (simp_all add: step_unused step_unchallenged)

lemma unused_claim_fails:
  assumes "unused (pcr_invitation_id req) s"
  shows "\<not> is_ok (fst (claim_invitation cr req now c secret s))"
  using assms
  by (auto simp: claim_invitation_def Let_def is_ok_iff unused_def hm_get_None rate_limit_fields
      split: sum.split option.split prod.split)

lemma unchallenged_authenticate_fails:
  assumes "unchallenged (ar_challenge_id req) s"
  shows "\<not> is_ok (fst (authenticate cr req now i cookie s))"
  using assms
  by (auto simp: authenticate_def Let_def is_ok_iff unchallenged_def hm_get_None rate_limit_fields
      split: sum.split option.split prod.split)

lemma claim_consumes:
  assumes "claim_invitation cr req now c secret s = (r, s')" "is_ok r \<or> r = Inl PeUnauthorized"
  shows "unused (pcr_invitation_id req) s'"
proof (cases "check_rate_limit now s")
  case (Pair r1 s1)
  then show ?thesis
    using assms
    by (auto simp: claim_invitation_def Let_def is_ok_iff unused_def hm_get_None check_rate_limit_def
        split: sum.splits option.splits if_splits)
qed

text \<open>C7: an invitation is good for one attempt.  After a claim that succeeded, or that
  presented a wrong secret, no later claim naming the invitation succeeds, whatever
  operations come between; invitation identifiers are not issued twice.\<close>

theorem invitation_single_use:
  assumes "claim_invitation cr req now c secret s = (r, s')" "is_ok r \<or> r = Inl PeUnauthorized"
    "list_all (\<lambda>p. \<not> issues_invitation (pcr_invitation_id req) p) ps"
    "pcr_invitation_id req' = pcr_invitation_id req"
  shows "\<not> is_ok (fst (claim_invitation cr req' now' c' secret' (fold (pairing_step cr) ps s')))"
proof (rule unused_claim_fails)
  from run_unused(1) [OF claim_consumes [OF assms(1,2)] assms(3)]
  show "unused (pcr_invitation_id req') (fold (pairing_step cr) ps s')" by (simp add: assms(4))
qed

definition sample_claim :: pairing_claim_request where
  "sample_claim =
     \<lparr>pcr_invitation_id = 5, pcr_secret = replicate 43 0x61, pcr_device_name = lit ''tab'',
      pcr_platform = Ios, pcr_public_key_p256_raw = sample_key\<rparr>"

definition sample_invited :: pairing_state where
  "sample_invited = snd (insert_invitation sample_crypto (lit ''h'') 0 False 5 (replicate 43 0x61) sample_pairing)"

lemma sample_claim_ok: "is_ok (fst (claim_invitation sample_crypto sample_claim 2 6 [1] sample_invited))"
  by code_simp

theorem invitation_single_use_witness:
  "is_ok (fst (claim_invitation sample_crypto sample_claim 2 6 [1] sample_invited)) \<and>
   \<not> is_ok (fst (claim_invitation sample_crypto sample_claim 4 7 [2]
       (fold (pairing_step sample_crypto) [OpDevices 3]
         (snd (claim_invitation sample_crypto sample_claim 2 6 [1] sample_invited)))))"
  by (rule conjI [OF sample_claim_ok
        invitation_single_use [OF surjective_pairing disjI1 [OF sample_claim_ok]]])
     (simp_all add: issues_invitation_def)

section \<open>Authentication\<close>

text \<open>Everything a successful authentication has checked.\<close>

definition authenticated_by :: "crypto \<Rightarrow> authenticate_request \<Rightarrow> time \<Rightarrow> pairing_state \<Rightarrow> bool" where
  "authenticated_by cr req now s \<longleftrightarrow>
     (\<exists>ch d key sig.
        hm_get (ps_challenges s) (ar_challenge_id req) = Some ch \<and> ch_device_id ch = ar_device_id req \<and>
        now < ch_expires_at ch \<and> find_device (ar_device_id req) s = Some d \<and> pd_revoked_at d = None \<and>
        \<not> is_inactive now d \<and> cr_b64 cr (pd_public_key d) = Some key \<and>
        cr_b64 cr (ar_signature req) = Some sig \<and> length sig = 64 \<and> cr_verify cr key (ch_bytes ch) sig)"

lemma find_device_prune [simp]:
  "find_device i (prune now s) = find_device i s" "find_device i (s\<lparr>ps_challenges := m\<rparr>) = find_device i s"
  by (simp_all add: find_device_def)

lemma ensure_active_iff: "ensure_device_active d now = Inr u \<longleftrightarrow> pd_revoked_at d = None \<and> \<not> is_inactive now d"
  by (auto simp: ensure_device_active_def then_check_def and_then_def reject_if_def)

lemma authenticate_Ok:
  assumes inv: "pairing_inv s" and ok: "authenticate cr req now i cookie s = (Inr a, s')"
  obtains s1 ch d key sig where "check_rate_limit now s = (Inr (), s1)"
    "hm_get (ps_challenges s) (ar_challenge_id req) = Some ch" "ch_device_id ch = ar_device_id req"
    "now < ch_expires_at ch" "find_device (ar_device_id req) s = Some d" "pd_revoked_at d = None" "\<not> is_inactive now d"
    "cr_b64 cr (pd_public_key d) = Some key" "cr_b64 cr (ar_signature req) = Some sig" "length sig = 64"
    "cr_verify cr key (ch_bytes ch) sig"
    "open_session cr d now i cookie ((prune now s1)\<lparr>ps_challenges :=
        hm_remove (ar_challenge_id req) (ps_challenges (prune now s1))\<rparr>) = (Inr a, s')"
proof -
  obtain r s1 where r: "check_rate_limit now s = (r, s1)" by (cases "check_rate_limit now s")
  have inv1: "hm_inv (ps_challenges s1)" and dev: "find_device k s1 = find_device k s" for k
    using rate_limit_inv [OF r inv] rate_limit_fields(1) [OF r]
    by (simp_all add: pairing_inv_def bounded_map_def find_device_def)
  show thesis
    using ok r dev hm.get_retain_Some [OF inv1] rate_limit_fields(4) [OF r] unfolding authenticate_def Let_def
    by (auto simp: validate_authenticate_def is_ok_iff reject_if_def ensure_active_iff
        split: sum.splits option.splits if_splits intro: that)
qed

text \<open>C4: a session is only opened for an unexpired challenge issued to the requesting device,
  which is registered, not revoked and not inactive, with a signature over the challenge
  that verifies under the registered key.  The cookie then names a fresh unconnected
  session of that device that lives for the session lifetime.\<close>

theorem authentication_sound:
  assumes "pairing_reach cr s" "authenticate cr req now i cookie s = (Inr a, s')"
  shows "authenticated_by cr req now s \<and>
         hm_get (ps_sessions s') (cr_secret_hash cr cookie) =
           Some \<lparr>se_id = i, se_device_id = ar_device_id req,
                 se_expires_at = now + seconds (int AUTH_SESSION_TTL_SECS), se_connected = False\<rparr>"
proof -
  note inv = reach_inv [OF assms(1)]
  from authenticate_Ok [OF inv assms(2)] obtain s1 ch d key sig where
    a: "check_rate_limit now s = (Inr (), s1)" "find_device (ar_device_id req) s = Some d"
    and rest: "authenticated_by cr req now s"
    and os: "open_session cr d now i cookie ((prune now s1)\<lparr>ps_challenges :=
        hm_remove (ar_challenge_id req) (ps_challenges (prune now s1))\<rparr>) = (Inr a, s')"
    unfolding authenticated_by_def by metis
  have "hm_inv (ps_sessions s1)"
    using rate_limit_inv [OF a(1) inv] by (simp add: pairing_inv_def sessions_ok_def)
  then show ?thesis
    using rest os find_deviceD [OF a(2)] by (auto simp: open_session_def Let_def hm.get_put hm.retain_inv split: if_splits)
qed

definition sample_challenged :: pairing_state where
  "sample_challenged = snd (create_challenge sample_crypto 1 3 8 [9] sample_pairing)"

definition sample_auth :: authenticate_request where
  "sample_auth = \<lparr>ar_device_id = 1, ar_challenge_id = 8, ar_signature = 9 # replicate 63 0, ar_last_seen_sequence = 0\<rparr>"

lemma sample_auth_ok: "is_ok (fst (authenticate sample_crypto sample_auth 4 2 [7] sample_challenged))"
  by code_simp

lemma sample_challenged_reach: "pairing_reach sample_crypto sample_challenged"
  using pairing_reach.step [OF sample_reach, of "OpChallenge 1 3 8 [9]"]
  by (simp add: sample_challenged_def op_fresh_def)

theorem authentication_sound_witness:
  "\<exists>a s'. authenticate sample_crypto sample_auth 4 2 [7] sample_challenged = (Inr a, s') \<and>
     authenticated_by sample_crypto sample_auth 4 sample_challenged \<and>
     hm_get (ps_sessions s') (cr_secret_hash sample_crypto [7]) =
       Some \<lparr>se_id = 2, se_device_id = ar_device_id sample_auth,
             se_expires_at = 4 + seconds (int AUTH_SESSION_TTL_SECS), se_connected = False\<rparr>"
proof -
  obtain a s' where "authenticate sample_crypto sample_auth 4 2 [7] sample_challenged = (Inr a, s')"
    using sample_auth_ok by (auto simp: is_ok_iff prod_eq_iff)
  with authentication_sound [OF sample_challenged_reach this] show ?thesis by blast
qed

lemma authenticate_consumes:
  assumes "authenticate cr req now i cookie s = (r, s')" "is_ok r \<or> r = Inl PeUnauthorized"
  shows "unchallenged (ar_challenge_id req) s'"
proof (cases "check_rate_limit now s")
  case (Pair r1 s1)
  then show ?thesis
    using assms
    by (auto simp: authenticate_def open_session_def Let_def is_ok_iff unchallenged_def hm_get_None
        check_rate_limit_def split: sum.splits option.splits if_splits)
qed

text \<open>a challenge is good for one signature.  After an authentication that succeeded, or
  that was refused as unauthorized, no later authentication naming the challenge
  succeeds, whatever operations come between.\<close>

theorem challenge_single_use:
  assumes "authenticate cr req now i cookie s = (r, s')" "is_ok r \<or> r = Inl PeUnauthorized"
    "list_all (\<lambda>p. \<not> issues_challenge (ar_challenge_id req) p) ps"
    "ar_challenge_id req' = ar_challenge_id req"
  shows "\<not> is_ok (fst (authenticate cr req' now' i' cookie' (fold (pairing_step cr) ps s')))"
proof (rule unchallenged_authenticate_fails)
  from run_unused(2) [OF authenticate_consumes [OF assms(1,2)] assms(3)]
  show "unchallenged (ar_challenge_id req') (fold (pairing_step cr) ps s')" by (simp add: assms(4))
qed

theorem challenge_single_use_witness:
  "is_ok (fst (authenticate sample_crypto sample_auth 4 2 [7] sample_challenged)) \<and>
   \<not> is_ok (fst (authenticate sample_crypto sample_auth 6 3 [8]
       (fold (pairing_step sample_crypto) [OpDevices 5]
         (snd (authenticate sample_crypto sample_auth 4 2 [7] sample_challenged)))))"
  by (rule conjI [OF sample_auth_ok
        challenge_single_use [OF surjective_pairing disjI1 [OF sample_auth_ok]]])
     (simp_all add: issues_challenge_def)

section \<open>The rate limit\<close>

text \<open>Reference: an attempt passes if fewer than 30 attempts passed in the minute before it,
  counted over the whole history.  The code keeps only a queue of recent times.\<close>

fun minute_limit :: "time list \<Rightarrow> time list \<Rightarrow> bool list" where
  "minute_limit hist [] = []"
| "minute_limit hist (t # ts) =
     (let ok = length (filter (\<lambda>x. t - seconds 60 < x) hist) < 30
      in ok # minute_limit (if ok then hist @ [t] else hist) ts)"

fun rate_run :: "pairing_state \<Rightarrow> time list \<Rightarrow> bool list" where
  "rate_run s [] = []"
| "rate_run s (t # ts) = (let (r, s') = check_rate_limit t s in is_ok r # rate_run s' ts)"

lemma sorted_filter_dropWhile:
  "sorted xs \<Longrightarrow> filter (\<lambda>x. b < x) xs = dropWhile (\<lambda>x. x \<le> (b :: int)) xs"
proof (induction xs)
  case (Cons a xs)
  then show ?case by (cases "a \<le> b") (auto simp: not_le filter_id_conv dropWhile_eq_self_iff list.set_sel(1) order.strict_trans2)
qed simp

lemma rate_run_minute_limit:
  assumes "sorted (hist @ ts)" "hist = old @ ps_attempts s" "\<forall>x \<in> set old. \<forall>t \<in> set ts. x \<le> t - seconds 60"
  shows "rate_run s ts = minute_limit hist ts"
  using assms
proof (induction ts arbitrary: hist old s)
  case (Cons t ts)
  let ?drop = "takeWhile (\<lambda>x. x \<le> t - seconds 60) (ps_attempts s)" and ?recent = "dropWhile (\<lambda>x. x \<le> t - seconds 60) (ps_attempts s)"
  have later: "t \<le> u" if "u \<in> set ts" for u using Cons.prems(1) that by (simp add: sorted_append)
  have recent: "filter (\<lambda>x. t - seconds 60 < x) hist = ?recent"
    using Cons.prems sorted_filter_dropWhile [of "ps_attempts s" "t - seconds 60"]
    by (simp add: sorted_append filter_False not_less)
  have old: "\<forall>x \<in> set (old @ ?drop). \<forall>u \<in> set ts. x \<le> u - seconds 60"
    using Cons.prems(3) later by (fastforce dest: set_takeWhileD)
  have split: "hist = (old @ ?drop) @ ?recent" by (simp add: Cons.prems(2))
  show ?case
  proof (cases "length ?recent < 30")
    case True
    have "rate_run (s\<lparr>ps_attempts := ?recent @ [t]\<rparr>) ts = minute_limit (hist @ [t]) ts"
      using Cons.prems(1) split by (intro Cons.IH [OF _ _ old]) simp_all
    then show ?thesis using True by (simp add: check_rate_limit_def MAX_SECURITY_ATTEMPTS_PER_MINUTE_def Let_def recent is_ok_iff)
  next
    case False
    have "rate_run (s\<lparr>ps_attempts := ?recent\<rparr>) ts = minute_limit hist ts"
      using Cons.prems(1) split by (intro Cons.IH [OF _ _ old]) (simp_all add: sorted_append)
    then show ?thesis using False by (simp add: check_rate_limit_def MAX_SECURITY_ATTEMPTS_PER_MINUTE_def Let_def recent is_ok_iff)
  qed
qed simp

text \<open>C8: on attempts in the order of their times, the queue of recent times decides as the
  reference does: exactly the attempts preceded by fewer than 30 accepted ones within
  the last minute pass.\<close>

theorem rate_limit_is_sliding_window:
  assumes "sorted ts" "ps_attempts s = []"
  shows "rate_run s ts = minute_limit [] ts"
  by (rule rate_run_minute_limit [where old = "[]"]) (simp_all add: assms)

theorem rate_limit_is_sliding_window_witness:
  "rate_run sample_pairing (replicate 31 0 @ [60000000000]) = minute_limit [] (replicate 31 0 @ [60000000000])"
  by (rule rate_limit_is_sliding_window) (simp_all add: sorted_append sample_pairing_def)

section \<open>Pairing again\<close>

lemma find_update_record:
  assumes "distinct (map g xs)" "find P xs = Some x" "g y = g x"
  shows "find (\<lambda>z. g z = g x) (update_first P (\<lambda>_. y) xs) = Some y"
  using assms
proof (induction xs)
  case (Cons a xs)
  show ?case
  proof (cases "P a")
    case False
    then have "x \<in> set xs" using Cons.prems(2) by (auto simp: find_Some_iff)
    then have "g a \<noteq> g x" using Cons.prems(1) by auto
    then show ?thesis using Cons False by simp
  qed (use Cons.prems in simp)
qed simp

lemma approve_renews:
  assumes "pairing_inv s" "approve c caps now new_id s = (Inr d, s')" "pd_last_seen_at d \<noteq> None"
  shows "find_device (pd_id d) s' = Some d \<and> pd_revoked_at d = None"
proof -
  have ids: "distinct (map pd_id (dr_devices (ps_registry s)))"
    using assms(1) by (simp add: pairing_inv_def registry_ok_def)
  from assms(2) obtain cl where cl: "caps \<noteq> []" "hm_get (ps_claims (prune now s)) c = Some cl" "cl_resolution cl = ClaimPending"
    by (auto simp: approve_def Let_def split: option.splits if_splits)
  let ?same = "\<lambda>d. pd_revoked_at d = None \<and> pd_public_key d = cl_public_key cl"
  from assms(2,3) cl obtain d0 where d0: "find ?same (dr_devices (ps_registry s)) = Some d0"
    by (cases "find ?same (dr_devices (ps_registry s))") (auto simp: approve_def Let_def split: option.splits)
  with assms(2) cl have d: "d = d0\<lparr>pd_name := cl_device_name cl, pd_platform := cl_platform cl, pd_capabilities := caps, pd_paired_at := now\<rparr>"
    and s': "dr_devices (ps_registry s') = update_first ?same (\<lambda>_. d) (dr_devices (ps_registry s))"
    by (auto simp: approve_def resolve_claim_def Let_def)
  have "pd_id d = pd_id d0" "pd_revoked_at d = None" using d d0 by (auto simp: find_Some_iff)
  with find_update_record [OF ids d0, of d] s' show ?thesis by (simp add: find_device_def)
qed

text \<open>pairing an expired phone again does not revive it.  The approval of a claim with the
  key of an unrevoked device renews the record, but not the time it was last seen,
  which decides inactivity: the next challenge is refused.\<close>

theorem reapproval_keeps_device_expired:
  assumes reach: "pairing_reach cr s" and ap: "approve c caps now new_id s = (Inr d, s')"
    and seen: "pd_last_seen_at d = Some t" "now - t > days (int DEVICE_INACTIVITY_LIMIT_DAYS)"
  shows "fst (create_challenge cr (pd_id d) now i bytes s') \<in> {Inl PeExpired, Inl PeRateLimited}"
proof -
  obtain r s1 where r: "check_rate_limit now s' = (r, s1)" by (cases "check_rate_limit now s'")
  have "find_device (pd_id d) s' = Some d \<and> pd_revoked_at d = None"
    using approve_renews [OF reach_inv [OF reach] ap] seen(1) by simp
  then have "find_device (pd_id d) s1 = Some d" "ensure_device_active d now = Inl PeExpired"
    using rate_limit_fields(1) [OF r] seen
    by (simp_all add: find_device_def ensure_device_active_def then_check_def and_then_def reject_if_def is_inactive_def)
  then show ?thesis
    using r by (auto simp: create_challenge_def Let_def check_rate_limit_def split: if_splits)
qed

definition stale_registry :: device_registry where
  "stale_registry = sample_registry\<lparr>dr_devices := [sample_device\<lparr>pd_last_seen_at := Some 0\<rparr>]\<rparr>"

definition stale_pairing :: pairing_state where
  "stale_pairing =
     snd (claim_invitation sample_crypto sample_claim (days 91) 6 [1]
       (snd (insert_invitation sample_crypto (lit ''h'') (days 91) False 5 (replicate 43 0x61)
         (sample_pairing\<lparr>ps_registry := stale_registry\<rparr>))))"

lemma stale_reach: "pairing_reach sample_crypto stale_pairing"
proof -
  have "validate_registry sample_crypto stale_registry = Inr stale_registry" by code_simp
  then have "pairing_reach sample_crypto (sample_pairing\<lparr>ps_registry := stale_registry\<rparr>)"
    by (intro pairing_reach.init [of _ stale_registry]) (simp add: pairing_new_def sample_pairing_def)
  from pairing_reach.step [OF pairing_reach.step [OF this, of "OpInvite (lit ''h'') (days 91) False 5 (replicate 43 0x61)"],
      of "OpClaim sample_claim (days 91) 6 [1]"]
  show ?thesis by (simp add: stale_pairing_def op_fresh_def)
qed

lemma stale_approved:
  "\<exists>d. fst (approve 6 [CapView] (days 91) 2 stale_pairing) = Inr d \<and> pd_last_seen_at d = Some 0"
proof -
  have "(case fst (approve 6 [CapView] (days 91) 2 stale_pairing) of Inl _ \<Rightarrow> False | Inr d \<Rightarrow> pd_last_seen_at d = Some 0)"
    by code_simp
  then show ?thesis by (simp split: sum.splits)
qed

theorem reapproval_keeps_device_expired_witness:
  "\<exists>d s'. approve 6 [CapView] (days 91) 2 stale_pairing = (Inr d, s') \<and>
     fst (create_challenge sample_crypto (pd_id d) (days 91) 8 [9] s') \<in> {Inl PeExpired, Inl PeRateLimited}"
proof -
  from stale_approved obtain d s' where
    d: "approve 6 [CapView] (days 91) 2 stale_pairing = (Inr d, s')" "pd_last_seen_at d = Some 0"
    by (auto simp: prod_eq_iff)
  from reapproval_keeps_device_expired [OF stale_reach d] show ?thesis
    using d(1) by (simp add: days_def seconds_def DEVICE_INACTIVITY_LIMIT_DAYS_def)
qed

section \<open>The registry on disk\<close>







end
