(* ===== verification/Sum_Tree.thy ===== *)
theory Sum_Tree
  imports Rust_Prelude
begin

text \<open>
  The persistent B+ tree of \<open>crates/sum_tree/src/lib.rs\<close>.  Items live in the leaves, every
  node caches the summary of what is below it, and a node holds at most twelve children
  or items.  The trait \<open>Item\<close> is the record \<open>item_ops\<close>, with the laws the tree relies on in
  the locale \<open>summary_laws\<close>.  \<open>Arc::make_mut\<close> copies a shared node before it changes it, so
  a tree is a value.  A panic (a full \<open>ArrayVec\<close>, a leaf asked for its children) is \<open>None\<close>.
\<close>

section \<open>Items and nodes\<close>

definition TREE_BASE :: nat where "TREE_BASE = 6"

record ('t, 's) item_ops =
  it_summary :: "'t \<Rightarrow> 's"
  it_add :: "'s \<Rightarrow> 's \<Rightarrow> 's"
  it_zero :: 's

datatype ('t, 's) node =
    Internal nat 's "'s list" "('t, 's) node list"
  | Leaf 's "'t list" "'s list"

definition summarize :: "('t, 's) item_ops \<Rightarrow> 's list \<Rightarrow> 's" where
  "summarize T ss = foldl (it_add T) (it_zero T) ss"

definition array_vec :: "'a list \<Rightarrow> 'a list option" where
  [panic_defs]: "array_vec xs = (if length xs \<le> 2 * TREE_BASE then Some xs else None)"

fun is_leaf :: "('t, 's) node \<Rightarrow> bool" where
  "is_leaf (Leaf s xs ss) = True"
| "is_leaf (Internal h s ss cs) = False"

fun node_height :: "('t, 's) node \<Rightarrow> nat" where
  "node_height (Internal h s ss cs) = h"
| "node_height (Leaf s xs ss) = 0"

fun node_summary :: "('t, 's) node \<Rightarrow> 's" where
  "node_summary (Internal h s ss cs) = s"
| "node_summary (Leaf s xs ss) = s"

fun node_child_summaries :: "('t, 's) node \<Rightarrow> 's list" where
  "node_child_summaries (Internal h s ss cs) = ss"
| "node_child_summaries (Leaf s xs ss) = ss"

fun node_child_trees :: "('t, 's) node \<Rightarrow> ('t, 's) node list option" where
  "node_child_trees (Internal h s ss cs) = Some cs"
| "node_child_trees (Leaf s xs ss) = None"

fun node_items :: "('t, 's) node \<Rightarrow> 't list option" where
  "node_items (Leaf s xs ss) = Some xs"
| "node_items (Internal h s ss cs) = None"

fun is_underflowing :: "('t, 's) node \<Rightarrow> bool" where
  "is_underflowing (Internal h s ss cs) \<longleftrightarrow> length cs < TREE_BASE"
| "is_underflowing (Leaf s xs ss) \<longleftrightarrow> length xs < TREE_BASE"

section \<open>Building trees\<close>

definition tree_new :: "('t, 's) item_ops \<Rightarrow> ('t, 's) node" where
  "tree_new T = Leaf (it_zero T) [] []"

definition from_child_trees :: "('t, 's) item_ops \<Rightarrow> ('t, 's) node list \<Rightarrow> ('t, 's) node option" where
  "from_child_trees T cs =
     (case cs of [] \<Rightarrow> None
      | c # _ \<Rightarrow> do { ss \<leftarrow> array_vec (map node_summary cs);
                      cs \<leftarrow> array_vec cs;
                      Some (Internal (node_height c + 1) (summarize T ss) ss cs) })"

text \<open>The end of \<open>push_tree_recursive\<close> on an internal node: append the children, and split
  in the middle when there are too many.\<close>

definition grow_internal ::
    "('t, 's) item_ops \<Rightarrow> nat \<Rightarrow> 's \<Rightarrow> 's list \<Rightarrow> ('t, 's) node list \<Rightarrow> 's list \<Rightarrow> ('t, 's) node list
       \<Rightarrow> (('t, 's) node \<times> ('t, 's) node option) option" where
  "grow_internal T height summary child_summaries child_trees summaries_to_append trees_to_append =
     (let child_count = length child_trees + length trees_to_append;
          midpoint = (child_count + child_count mod 2) div 2;
          all_summaries = child_summaries @ summaries_to_append;
          all_trees = child_trees @ trees_to_append
      in if child_count > 2 * TREE_BASE then do {
           left_summaries \<leftarrow> array_vec (take midpoint all_summaries);
           right_summaries \<leftarrow> array_vec (drop midpoint all_summaries);
           left_trees \<leftarrow> array_vec (take midpoint all_trees);
           right_trees \<leftarrow> array_vec (drop midpoint all_trees);
           Some (Internal height (summarize T left_summaries) left_summaries left_trees,
                 Some (Internal height (summarize T right_summaries) right_summaries right_trees)) }
         else do {
           summaries \<leftarrow> array_vec all_summaries;
           trees \<leftarrow> array_vec all_trees;
           Some (Internal height summary summaries trees, None) })"

definition grow_leaf ::
    "('t, 's) item_ops \<Rightarrow> 's \<Rightarrow> 't list \<Rightarrow> 's list \<Rightarrow> 's \<Rightarrow> 't list \<Rightarrow> 's list
       \<Rightarrow> (('t, 's) node \<times> ('t, 's) node option) option" where
  "grow_leaf T summary items item_summaries other_summary other_items other_summaries =
     (let child_count = length items + length other_items;
          midpoint = (child_count + child_count mod 2) div 2;
          all_items = items @ other_items;
          all_summaries = item_summaries @ other_summaries
      in if child_count > 2 * TREE_BASE then do {
           left_items \<leftarrow> array_vec (take midpoint all_items);
           right_items \<leftarrow> array_vec (drop midpoint all_items);
           left_summaries \<leftarrow> array_vec (take midpoint all_summaries);
           right_summaries \<leftarrow> array_vec (drop midpoint all_summaries);
           Some (Leaf (summarize T left_summaries) left_items left_summaries,
                 Some (Leaf (summarize T right_summaries) right_items right_summaries)) }
         else do {
           items \<leftarrow> array_vec all_items;
           summaries \<leftarrow> array_vec all_summaries;
           Some (Leaf (it_add T summary other_summary) items summaries, None) })"

lemma size_last_node [termination_simp]:
  "cs \<noteq> [] \<Longrightarrow> size (last cs) < Suc (n + size_list size cs)"
  by (simp add: less_Suc_eq_le trans_le_add2 size_list_estimation' [OF last_in_set order_refl])

fun push_tree_recursive ::
    "('t, 's) item_ops \<Rightarrow> ('t, 's) node \<Rightarrow> ('t, 's) node \<Rightarrow> (('t, 's) node \<times> ('t, 's) node option) option" where
  "push_tree_recursive T (Internal height summary child_summaries child_trees) other =
     (let summary = it_add T summary (node_summary other) in
      do { height_delta \<leftarrow> checked_sub height (node_height other);
           if height_delta = 0 then do {
             trees_to_append \<leftarrow> node_child_trees other;
             grow_internal T height summary child_summaries child_trees (node_child_summaries other) trees_to_append }
           else if height_delta = 1 \<and> \<not> is_underflowing other then
             grow_internal T height summary child_summaries child_trees [node_summary other] [other]
           else if child_trees = [] \<or> child_summaries = [] then None
           else do {
             (child, split_tree) \<leftarrow> push_tree_recursive T (last child_trees) other;
             grow_internal T height summary
               (butlast child_summaries @ [node_summary child]) (butlast child_trees @ [child])
               (case split_tree of None \<Rightarrow> [] | Some t \<Rightarrow> [node_summary t])
               (case split_tree of None \<Rightarrow> [] | Some t \<Rightarrow> [t]) } })"
| "push_tree_recursive T (Leaf summary items item_summaries) other =
     do { other_items \<leftarrow> node_items other;
          grow_leaf T summary items item_summaries (node_summary other) other_items (node_child_summaries other) }"

lemma fold_m_cong [fundef_cong]:
  "xs = ys \<Longrightarrow> s = s' \<Longrightarrow> (\<And>x s. x \<in> set ys \<Longrightarrow> f x s = g x s) \<Longrightarrow> fold_m f xs s = fold_m g ys s'"
  by (induction ys arbitrary: xs s s') (auto intro!: bind_option_cong)

fun no_items :: "('t, 's) node \<Rightarrow> bool" where
  "no_items (Leaf s xs ss) \<longleftrightarrow> xs = []"
| "no_items (Internal h s ss cs) \<longleftrightarrow> False"

function push_tree :: "('t, 's) item_ops \<Rightarrow> ('t, 's) node \<Rightarrow> ('t, 's) node \<Rightarrow> ('t, 's) node option" where
  "push_tree T self other =
     (if no_items other then Some self
      else if node_height self < node_height other then do {
        trees \<leftarrow> node_child_trees other;
        fold_m (\<lambda>tree self. push_tree T self tree) trees self }
      else do {
        (self, split_tree) \<leftarrow> push_tree_recursive T self other;
        case split_tree of None \<Rightarrow> Some self | Some t \<Rightarrow> from_child_trees T [self, t] })"
  by auto
termination
proof (relation "measure (\<lambda>(T, self, other). size other)")
  fix other :: "('t, 's) node" and trees x
  assume "node_child_trees other = Some trees" "x \<in> set trees"
  then show "((T, s, x), (T, self, other)) \<in> measure (\<lambda>(T, self, other). size other)" for T s self
    by (cases other) (auto simp: less_Suc_eq_le intro!: trans_le_add2 size_list_estimation' [OF _ order_refl])
qed simp

declare push_tree.simps [simp del]

definition push :: "('t, 's) item_ops \<Rightarrow> 't \<Rightarrow> ('t, 's) node \<Rightarrow> ('t, 's) node option" where
  "push T item self =
     do { tree \<leftarrow> from_child_trees T [Leaf (it_summary T item) [item] [it_summary T item]];
          push_tree T self tree }"

definition from_item :: "('t, 's) item_ops \<Rightarrow> 't \<Rightarrow> ('t, 's) node option" where
  "from_item T item = push T item (tree_new T)"

definition extend_item ::
    "('t, 's) item_ops \<Rightarrow> 't \<Rightarrow> ('t, 's) node \<times> ('s \<times> 't list \<times> 's list) option
       \<Rightarrow> (('t, 's) node \<times> ('s \<times> 't list \<times> 's list) option) option" where
  "extend_item T item = (\<lambda>(self, leaf).
     do { (self, leaf) \<leftarrow>
            (case leaf of
               Some (s, xs, ss) \<Rightarrow>
                 if length xs = 2 * TREE_BASE
                 then do { self \<leftarrow> push_tree T self (Leaf s xs ss); Some (self, None) }
                 else Some (self, leaf)
             | None \<Rightarrow> Some (self, leaf));
          let (s, xs, ss) = (case leaf of None \<Rightarrow> (it_zero T, [], []) | Some l \<Rightarrow> l);
          xs \<leftarrow> array_vec (xs @ [item]);
          ss \<leftarrow> array_vec (ss @ [it_summary T item]);
          Some (self, Some (it_add T s (it_summary T item), xs, ss)) })"

definition tree_extend :: "('t, 's) item_ops \<Rightarrow> 't list \<Rightarrow> ('t, 's) node \<Rightarrow> ('t, 's) node option" where
  "tree_extend T items self =
     do { (self, leaf) \<leftarrow> fold_m (extend_item T) items (self, None);
          case leaf of None \<Rightarrow> Some self | Some (s, xs, ss) \<Rightarrow> push_tree T self (Leaf s xs ss) }"

section \<open>Reading and updating\<close>

fun tree_is_empty :: "('t, 's) node \<Rightarrow> bool" where
  "tree_is_empty (Leaf s xs ss) \<longleftrightarrow> xs = []"
| "tree_is_empty (Internal h s ss cs) \<longleftrightarrow> False"

text \<open>The result is the updated node; the code returns its summary as well.\<close>

fun update_last_leaf_recursive ::
    "('t, 's) item_ops \<Rightarrow> ('t \<Rightarrow> 't) \<Rightarrow> ('t, 's) node \<Rightarrow> ('t, 's) node option" where
  "update_last_leaf_recursive T f (Internal h s ss cs) =
     (if ss = [] \<or> cs = [] then None
      else do { child \<leftarrow> update_last_leaf_recursive T f (last cs);
                let ss = butlast ss @ [node_summary child];
                Some (Internal h (summarize T ss) ss (butlast cs @ [child])) })"
| "update_last_leaf_recursive T f (Leaf s xs ss) =
     (if xs = [] \<or> ss = [] then None
      else let item = f (last xs);
               ss = butlast ss @ [it_summary T item]
           in Some (Leaf (summarize T ss) (butlast xs @ [item]) ss))"

definition update_last :: "('t, 's) item_ops \<Rightarrow> ('t \<Rightarrow> 't) \<Rightarrow> ('t, 's) node \<Rightarrow> ('t, 's) node option" where
  "update_last T f self = (if tree_is_empty self then Some self else update_last_leaf_recursive T f self)"

fun leftmost_leaf :: "('t, 's) node \<Rightarrow> ('t, 's) node option" where
  "leftmost_leaf (Leaf s xs ss) = Some (Leaf s xs ss)"
| "leftmost_leaf (Internal h s ss cs) = (case cs of [] \<Rightarrow> None | c # _ \<Rightarrow> leftmost_leaf c)"

fun rightmost_leaf :: "('t, 's) node \<Rightarrow> ('t, 's) node option" where
  "rightmost_leaf (Leaf s xs ss) = Some (Leaf s xs ss)"
| "rightmost_leaf (Internal h s ss cs) = (if cs = [] then None else rightmost_leaf (last cs))"

definition tree_first :: "('t, 's) node \<Rightarrow> 't option option" where
  "tree_first self =
     do { leaf \<leftarrow> leftmost_leaf self; items \<leftarrow> node_items leaf;
          Some (case items of [] \<Rightarrow> None | x # _ \<Rightarrow> Some x) }"

definition tree_last :: "('t, 's) node \<Rightarrow> 't option option" where
  "tree_last self =
     do { leaf \<leftarrow> rightmost_leaf self; items \<leftarrow> node_items leaf;
          Some (if items = [] then None else Some (last items)) }"

section \<open>Well-formed trees\<close>

fun tree_items :: "('t, 's) node \<Rightarrow> 't list" where
  "tree_items (Leaf s xs ss) = xs"
| "tree_items (Internal h s ss cs) = concat (map tree_items cs)"

fun wf_node :: "('t, 's) item_ops \<Rightarrow> ('t, 's) node \<Rightarrow> bool" where
  "wf_node T (Leaf s xs ss) \<longleftrightarrow>
     length xs \<le> 2 * TREE_BASE \<and> ss = map (it_summary T) xs \<and> s = summarize T ss"
| "wf_node T (Internal h s ss cs) \<longleftrightarrow>
     cs \<noteq> [] \<and> length cs \<le> 2 * TREE_BASE \<and> ss = map node_summary cs \<and> s = summarize T ss \<and>
     (\<forall>c \<in> set cs. wf_node T c \<and> Suc (node_height c) = h \<and> tree_items c \<noteq> [])"

text \<open>The fill of a B tree: every node below the root is at least half full.\<close>

fun filled :: "('t, 's) node \<Rightarrow> bool" where
  "filled (Leaf s xs ss) \<longleftrightarrow> TREE_BASE \<le> length xs"
| "filled (Internal h s ss cs) \<longleftrightarrow> TREE_BASE \<le> length cs \<and> (\<forall>c \<in> set cs. filled c)"

fun root_filled :: "('t, 's) node \<Rightarrow> bool" where
  "root_filled (Leaf s xs ss) \<longleftrightarrow> True"
| "root_filled (Internal h s ss cs) \<longleftrightarrow> 2 \<le> length cs \<and> (\<forall>c \<in> set cs. filled c)"

definition good_child :: "('t, 's) item_ops \<Rightarrow> nat \<Rightarrow> ('t, 's) node \<Rightarrow> bool" where
  "good_child T h c \<longleftrightarrow> wf_node T c \<and> Suc (node_height c) = h \<and> tree_items c \<noteq> []"

lemma wf_Internal:
  "wf_node T (Internal h s ss cs) \<longleftrightarrow>
     cs \<noteq> [] \<and> length cs \<le> 2 * TREE_BASE \<and> ss = map node_summary cs \<and> s = summarize T ss \<and>
     list_all (good_child T h) cs"
  by (auto simp: good_child_def list_all_iff)

lemma wf_height_0: "wf_node T n \<Longrightarrow> node_height n = 0 \<longleftrightarrow> is_leaf n"
  by (cases n) (auto simp: neq_Nil_conv)

lemma filled_root: "filled n \<Longrightarrow> root_filled n"
  by (cases n) (auto simp: TREE_BASE_def)

lemma root_filled_not_under: "root_filled n \<Longrightarrow> \<not> is_underflowing n \<Longrightarrow> filled n"
  by (cases n) auto

section \<open>Laws of the summaries\<close>

definition item_sum :: "('t, 's) item_ops \<Rightarrow> 't list \<Rightarrow> 's" where
  "item_sum T xs = summarize T (map (it_summary T) xs)"

locale summary_laws =
  fixes T :: "('t, 's) item_ops" and ok :: "'s \<Rightarrow> bool"
  assumes ok_zero: "ok (it_zero T)"
    and ok_item: "ok (it_summary T x)"
    and ok_add: "ok a \<Longrightarrow> ok b \<Longrightarrow> ok (it_add T a b)"
    and add_assoc: "ok a \<Longrightarrow> ok b \<Longrightarrow> ok c \<Longrightarrow> it_add T (it_add T a b) c = it_add T a (it_add T b c)"
    and zero_add: "ok a \<Longrightarrow> it_add T (it_zero T) a = a"
    and add_zero: "ok a \<Longrightarrow> it_add T a (it_zero T) = a"
begin

lemma ok_foldl: "ok a \<Longrightarrow> list_all ok ss \<Longrightarrow> ok (foldl (it_add T) a ss)"
  by (induction ss arbitrary: a) (simp_all add: ok_add)

lemma ok_summarize: "list_all ok ss \<Longrightarrow> ok (summarize T ss)"
  by (simp add: summarize_def ok_foldl ok_zero)

lemma foldl_add: "ok a \<Longrightarrow> list_all ok ss \<Longrightarrow> foldl (it_add T) a ss = it_add T a (summarize T ss)"
proof (induction ss arbitrary: a rule: rev_induct)
  case (snoc x ss)
  then show ?case
    by (simp add: summarize_def ok_summarize [unfolded summarize_def] add_assoc)
qed (simp add: summarize_def add_zero)

lemma summarize_Cons: "list_all ok (a # ss) \<Longrightarrow> summarize T (a # ss) = it_add T a (summarize T ss)"
  by (simp add: summarize_def zero_add foldl_add [unfolded summarize_def])

lemma summarize_append:
  "list_all ok ss \<Longrightarrow> list_all ok ss' \<Longrightarrow> summarize T (ss @ ss') = it_add T (summarize T ss) (summarize T ss')"
  using foldl_add [of "summarize T ss" ss'] ok_summarize [of ss] by (simp add: summarize_def)

lemma summarize_single: "ok a \<Longrightarrow> summarize T [a] = a"
  by (simp add: summarize_def zero_add)

lemma ok_item_sum: "ok (item_sum T xs)"
  by (simp add: item_sum_def ok_summarize list_all_iff ok_item)

lemma item_sum_append: "item_sum T (xs @ ys) = it_add T (item_sum T xs) (item_sum T ys)"
  by (simp add: item_sum_def summarize_append list_all_iff ok_item)

lemma summarize_item_sums: "summarize T (map (item_sum T) xss) = item_sum T (concat xss)"
proof (induction xss)
  case (Cons xs xss)
  then show ?case
    by (simp add: summarize_Cons item_sum_append list_all_iff ok_item_sum)
qed (simp add: item_sum_def summarize_def)

end

text \<open>Every cached summary is the sum over the items below it.\<close>

context summary_laws
begin

lemma node_summary_eq: "wf_node T n \<Longrightarrow> node_summary n = item_sum T (tree_items n)"
proof (induction n)
  case (Internal h s ss cs)
  then have "map node_summary cs = map (item_sum T) (map tree_items cs)" by simp
  then have "s = summarize T (map (item_sum T) (map tree_items cs))"
    using Internal.prems by (metis wf_node.simps(2))
  then show ?case unfolding summarize_item_sums by simp
qed (simp add: item_sum_def)

lemma children_sum:
  assumes "list_all (good_child T h) cs"
  shows "map node_summary cs = map (item_sum T) (map tree_items cs)"
    "summarize T (map node_summary cs) = item_sum T (concat (map tree_items cs))"
proof -
  show eq: "map node_summary cs = map (item_sum T) (map tree_items cs)"
    using assms by (auto simp: list_all_iff good_child_def node_summary_eq)
  show "summarize T (map node_summary cs) = item_sum T (concat (map tree_items cs))"
    unfolding eq summarize_item_sums ..
qed

end

declare wf_node.simps(2) [simp del] wf_Internal [simp]

end
