(* ===== verification/Sum_Cursor.thy ===== *)
theory Sum_Cursor
  imports Sum_Tree
begin

text \<open>
  The cursor of \<open>crates/sum_tree/src/cursor.rs\<close>: a path from the root to an item, with the
  sums of two dimensions up to it.  A dimension (the trait \<open>Dimension\<close>) is a record; the
  dimension that is sought has a linear order.  The stack has its top first.  Debug
  assertions count as panics, as does a stack of more than sixteen entries.
\<close>

section \<open>The cursor and its position\<close>

datatype seek_bias = SeekLeft | SeekRight

record ('d, 's) dimension =
  dim_default :: 'd
  dim_add :: "'d \<Rightarrow> 's \<Rightarrow> 'd"

record ('t, 's, 'd, 'u) stack_entry =
  en_tree :: "('t, 's) node"
  en_index :: nat
  en_seek :: 'd
  en_sum :: 'u

record ('t, 's, 'd, 'u) cursor =
  cu_tree :: "('t, 's) node"
  cu_stack :: "('t, 's, 'd, 'u) stack_entry list"
  cu_seek :: 'd
  cu_sum :: 'u
  cu_did_seek :: bool
  cu_at_end :: bool

definition cursor_new ::
    "('d, 's) dimension \<Rightarrow> ('u, 's) dimension \<Rightarrow> ('t, 's) node \<Rightarrow> ('t, 's, 'd, 'u) cursor" where
  "cursor_new D U tree =
     \<lparr>cu_tree = tree, cu_stack = [], cu_seek = dim_default D, cu_sum = dim_default U,
      cu_did_seek = False, cu_at_end = False\<rparr>"

definition cursor_reset ::
    "('d, 's) dimension \<Rightarrow> ('u, 's) dimension \<Rightarrow> ('t, 's, 'd, 'u) cursor \<Rightarrow> ('t, 's, 'd, 'u) cursor" where
  "cursor_reset D U c =
     c\<lparr>cu_did_seek := False, cu_at_end := False, cu_stack := [], cu_seek := dim_default D, cu_sum := dim_default U\<rparr>"

definition extent :: "('d, 's) dimension \<Rightarrow> ('t, 's) node \<Rightarrow> 'd" where
  "extent D tree = dim_add D (dim_default D) (node_summary tree)"

definition stack_push :: "'e \<Rightarrow> 'e list \<Rightarrow> 'e list option" where
  [panic_defs]: "stack_push e st = (if length st < 16 then Some (e # st) else None)"

definition seek_position :: "('t, 's, 'd, 'u) cursor \<Rightarrow> 'd" where
  "seek_position c = cu_seek c"

definition cursor_start :: "('t, 's, 'd, 'u) cursor \<Rightarrow> 'u" where
  "cursor_start c = cu_sum c"

definition cursor_item :: "('t, 's, 'd, 'u) cursor \<Rightarrow> 't option option" where
  "cursor_item c =
     (if \<not> cu_did_seek c then None
      else case cu_stack c of
        [] \<Rightarrow> Some None
      | e # _ \<Rightarrow>
          (case en_tree e of
             Leaf s xs ss \<Rightarrow> if en_index e = length xs then Some None
                             else do { x \<leftarrow> vec_get xs (en_index e); Some (Some x) }
           | Internal h s ss cs \<Rightarrow> Some None))"

definition item_summary :: "('t, 's, 'd, 'u) cursor \<Rightarrow> 's option option" where
  "item_summary c =
     (if \<not> cu_did_seek c then None
      else case cu_stack c of
        [] \<Rightarrow> Some None
      | e # _ \<Rightarrow>
          (case en_tree e of
             Leaf s xs ss \<Rightarrow> if en_index e = length ss then Some None
                             else do { x \<leftarrow> vec_get ss (en_index e); Some (Some x) }
           | Internal h s ss cs \<Rightarrow> Some None))"

definition end_seek_position :: "('d, 's) dimension \<Rightarrow> ('t, 's, 'd, 'u) cursor \<Rightarrow> 'd option" where
  "end_seek_position D c =
     do { s \<leftarrow> item_summary c;
          Some (case s of None \<Rightarrow> seek_position c | Some s \<Rightarrow> dim_add D (seek_position c) s) }"

definition cursor_end :: "('u, 's) dimension \<Rightarrow> ('t, 's, 'd, 'u) cursor \<Rightarrow> 'u option" where
  "cursor_end U c =
     do { s \<leftarrow> item_summary c;
          Some (case s of None \<Rightarrow> cursor_start c | Some s \<Rightarrow> dim_add U (cursor_start c) s) }"

fun prev_leaf_in :: "('t, 's, 'd, 'u) stack_entry list \<Rightarrow> ('t, 's) node option option" where
  "prev_leaf_in [] = Some None"
| "prev_leaf_in (e # es) =
     (if en_index e \<noteq> 0 then
        (case en_tree e of
           Internal h s ss cs \<Rightarrow> do { t \<leftarrow> vec_get cs (en_index e - 1); leaf \<leftarrow> rightmost_leaf t; Some (Some leaf) }
         | Leaf s xs ss \<Rightarrow> Some None)
      else prev_leaf_in es)"

definition prev_leaf :: "('t, 's, 'd, 'u) cursor \<Rightarrow> ('t, 's) node option option" where
  "prev_leaf c = prev_leaf_in (tl (cu_stack c))"

definition prev_item :: "('t, 's, 'd, 'u) cursor \<Rightarrow> 't option option" where
  "prev_item c =
     (if \<not> cu_did_seek c then None
      else case cu_stack c of
        [] \<Rightarrow> if cu_at_end c then tree_last (cu_tree c) else Some None
      | e # _ \<Rightarrow>
          if en_index e = 0 then do {
            leaf \<leftarrow> prev_leaf c;
            case leaf of
              None \<Rightarrow> Some None
            | Some leaf \<Rightarrow> do { xs \<leftarrow> node_items leaf; if xs = [] then None else Some (Some (last xs)) } }
          else (case en_tree e of
                  Leaf s xs ss \<Rightarrow> do { x \<leftarrow> vec_get xs (en_index e - 1); Some (Some x) }
                | Internal h s ss cs \<Rightarrow> Some None))"

section \<open>Descending\<close>

text \<open>The first summary the filter accepts, and the sums of what comes before it.\<close>

fun find_summary ::
    "('d, 's) dimension \<Rightarrow> ('u, 's) dimension \<Rightarrow> ('s \<Rightarrow> bool) \<Rightarrow> 's list \<Rightarrow> nat \<Rightarrow> 'd \<Rightarrow> 'u \<Rightarrow> nat option \<times> 'd \<times> 'u" where
  "find_summary D U f [] i d u = (None, d, u)"
| "find_summary D U f (s # ss) i d u =
     (if f s then (Some i, d, u) else find_summary D U f ss (i + 1) (dim_add D d s) (dim_add U u s))"

lemma nth_node_size [termination_simp]: "i < length cs \<Longrightarrow> size (cs ! i) < Suc (n + size_list size cs)"
  by (simp add: less_Suc_eq_le trans_le_add2 size_list_estimation' [OF nth_mem order_refl])

function descend_to_first ::
    "('d, 's) dimension \<Rightarrow> ('u, 's) dimension \<Rightarrow> ('s \<Rightarrow> bool) \<Rightarrow> ('t, 's) node
       \<Rightarrow> ('t, 's, 'd, 'u) stack_entry list \<Rightarrow> 'd \<Rightarrow> 'u
       \<Rightarrow> (('t, 's, 'd, 'u) stack_entry list \<times> 'd \<times> 'u) option" where
  "descend_to_first D U f subtree st d u =
     (let (found, d, u) = find_summary D U f (node_child_summaries subtree) 0 d u in
      case found of
        None \<Rightarrow> Some (st, d, u)
      | Some i \<Rightarrow> do {
          st \<leftarrow> stack_push \<lparr>en_tree = subtree, en_index = i, en_seek = d, en_sum = u\<rparr> st;
          case subtree of
            Leaf s xs ss \<Rightarrow> Some (st, d, u)
          | Internal h s ss cs \<Rightarrow>
              if i < length cs then descend_to_first D U f (cs ! i) st d u else None })"
  by auto
termination
  by (relation "measure (\<lambda>(D, U, f, n, st, d, u). size n)") (simp_all add: nth_node_size)

declare descend_to_first.simps [simp del]

definition descend_to_first_item ::
    "('d, 's) dimension \<Rightarrow> ('u, 's) dimension \<Rightarrow> ('t, 's) node \<Rightarrow> ('s \<Rightarrow> bool) \<Rightarrow> ('t, 's, 'd, 'u) cursor
       \<Rightarrow> ('t, 's, 'd, 'u) cursor option" where
  "descend_to_first_item D U subtree f c =
     do { (st, d, u) \<leftarrow> descend_to_first D U f subtree (cu_stack c) (cu_seek c) (cu_sum c);
          Some (c\<lparr>cu_did_seek := True, cu_stack := st, cu_seek := d, cu_sum := u\<rparr>) }"

fun descend_to_last ::
    "('d, 's) dimension \<Rightarrow> ('u, 's) dimension \<Rightarrow> ('t, 's) node \<Rightarrow> ('t, 's, 'd, 'u) stack_entry list \<Rightarrow> 'd \<Rightarrow> 'u
       \<Rightarrow> (('t, 's, 'd, 'u) stack_entry list \<times> 'd \<times> 'u) option" where
  "descend_to_last D U (Internal h s ss cs) st d u =
     (if ss = [] \<or> cs = [] then None
      else let d = foldl (dim_add D) d (butlast ss); u = foldl (dim_add U) u (butlast ss) in
           do { st \<leftarrow> stack_push \<lparr>en_tree = Internal h s ss cs, en_index = length cs - 1, en_seek = d, en_sum = u\<rparr> st;
                descend_to_last D U (last cs) st d u })"
| "descend_to_last D U (Leaf s xs ss) st d u =
     (let d = foldl (dim_add D) d (butlast ss); u = foldl (dim_add U) u (butlast ss) in
      do { st \<leftarrow> stack_push \<lparr>en_tree = Leaf s xs ss, en_index = length ss - 1, en_seek = d, en_sum = u\<rparr> st;
           Some (st, d, u) })"

definition descend_to_last_item ::
    "('d, 's) dimension \<Rightarrow> ('u, 's) dimension \<Rightarrow> ('t, 's) node \<Rightarrow> ('t, 's, 'd, 'u) cursor
       \<Rightarrow> ('t, 's, 'd, 'u) cursor option" where
  "descend_to_last_item D U subtree c =
     do { (st, d, u) \<leftarrow> descend_to_last D U subtree (cu_stack c) (cu_seek c) (cu_sum c);
          Some (c\<lparr>cu_did_seek := True, cu_stack := st, cu_seek := d, cu_sum := u\<rparr>) }"

section \<open>Moving by one item\<close>

function skip_children ::
    "('d, 's) dimension \<Rightarrow> ('u, 's) dimension \<Rightarrow> ('s \<Rightarrow> bool) \<Rightarrow> 's list \<Rightarrow> nat \<Rightarrow> 'd \<Rightarrow> 'u \<Rightarrow> 'd \<Rightarrow> 'u
       \<Rightarrow> nat \<times> 'd \<times> 'u \<times> 'd \<times> 'u" where
  "skip_children D U f ss i ed eu d u =
     (if i < length ss then
        let ed = dim_add D ed (ss ! i); eu = dim_add U eu (ss ! i); i = i + 1 in
        if i < length ss then
          if f (ss ! i) then (i, ed, eu, d, u)
          else skip_children D U f ss i ed eu (dim_add D d (ss ! i)) (dim_add U u (ss ! i))
        else (i, ed, eu, d, u)
      else (i, ed, eu, d, u))"
  by auto
termination
  by (relation "measure (\<lambda>(D, U, f, ss, i, ed, eu, d, u). length ss - i)") auto

declare skip_children.simps [simp del]

text \<open>In a leaf: \<open>True\<close> if the loop stops at an accepted item, \<open>False\<close> at the end.\<close>

function skip_items ::
    "('d, 's) dimension \<Rightarrow> ('u, 's) dimension \<Rightarrow> ('s \<Rightarrow> bool) \<Rightarrow> 's list \<Rightarrow> nat \<Rightarrow> 'd \<Rightarrow> 'u \<Rightarrow> 'd \<Rightarrow> 'u
       \<Rightarrow> (bool \<times> nat \<times> 'd \<times> 'u \<times> 'd \<times> 'u) option" where
  "skip_items D U f ss i ed eu d u =
     (if i < length ss then
        let s = ss ! i; d = dim_add D d s; ed = dim_add D ed s; u = dim_add U u s; eu = dim_add U eu s; i = i + 1 in
        if i < length ss then
          if f (ss ! i) then Some (True, i, ed, eu, d, u) else skip_items D U f ss i ed eu d u
        else Some (False, i, ed, eu, d, u)
      else None)"
  by auto
termination
  by (relation "measure (\<lambda>(D, U, f, ss, i, ed, eu, d, u). length ss - i)") auto

declare skip_items.simps [simp del]

text \<open>The last component says whether the loop returned from within a leaf.\<close>

fun next_loop ::
    "('d, 's) dimension \<Rightarrow> ('u, 's) dimension \<Rightarrow> ('s \<Rightarrow> bool) \<Rightarrow> ('t, 's, 'd, 'u) stack_entry list \<Rightarrow> 'd \<Rightarrow> 'u
       \<Rightarrow> (('t, 's, 'd, 'u) stack_entry list \<times> 'd \<times> 'u \<times> bool) option" where
  "next_loop D U f [] d u = Some ([], d, u, False)"
| "next_loop D U f (e # es) d u =
     (case en_tree e of
        Internal h s ss cs \<Rightarrow>
          (let (i, ed, eu, d, u) = skip_children D U f ss (en_index e) (en_seek e) (en_sum e) d u;
               e = e\<lparr>en_index := i, en_seek := ed, en_sum := eu\<rparr>
           in if i < length cs
              then do { (st, d, u) \<leftarrow> descend_to_first D U f (cs ! i) (e # es) d u; Some (st, d, u, False) }
              else next_loop D U f es d u)
      | Leaf s xs ss \<Rightarrow>
          do { (stop, i, ed, eu, d, u) \<leftarrow> skip_items D U f ss (en_index e) (en_seek e) (en_sum e) d u;
               if stop then Some (e\<lparr>en_index := i, en_seek := ed, en_sum := eu\<rparr> # es, d, u, True)
               else next_loop D U f es d u })"

definition next_internal ::
    "('d, 's) dimension \<Rightarrow> ('u, 's) dimension \<Rightarrow> ('s \<Rightarrow> bool) \<Rightarrow> ('t, 's, 'd, 'u) cursor
       \<Rightarrow> ('t, 's, 'd, 'u) cursor option" where
  "next_internal D U f c =
     (if \<not> cu_did_seek c then None
      else if cu_stack c = [] then do {
        c \<leftarrow> (if \<not> cu_at_end c then descend_to_first_item D U (cu_tree c) f c else Some c);
        Some (c\<lparr>cu_at_end := (cu_stack c = [])\<rparr>) }
      else do {
        (st, d, u, returned) \<leftarrow> next_loop D U f (cu_stack c) (cu_seek c) (cu_sum c);
        let c = c\<lparr>cu_stack := st, cu_seek := d, cu_sum := u\<rparr>;
        Some (if returned then c else c\<lparr>cu_at_end := (st = [])\<rparr>) })"

definition cursor_next ::
    "('d, 's) dimension \<Rightarrow> ('u, 's) dimension \<Rightarrow> ('t, 's, 'd, 'u) cursor \<Rightarrow> ('t, 's, 'd, 'u) cursor option" where
  "cursor_next D U c = next_internal D U (\<lambda>_. True) c"

fun prev_loop ::
    "('d, 's) dimension \<Rightarrow> ('u, 's) dimension \<Rightarrow> ('t, 's, 'd, 'u) stack_entry list \<Rightarrow> 'd \<Rightarrow> 'u
       \<Rightarrow> (('t, 's, 'd, 'u) stack_entry list \<times> 'd \<times> 'u) option" where
  "prev_loop D U [] d u = Some ([], d, u)"
| "prev_loop D U (e # es) d u =
     (if en_index e > 0 then
        let i = en_index e - 1;
            (d, u) = (case es of e' # _ \<Rightarrow> (en_seek e', en_sum e') | [] \<Rightarrow> (dim_default D, dim_default U));
            ss = node_child_summaries (en_tree e);
            d = foldl (dim_add D) d (take i ss);
            u = foldl (dim_add U) u (take i ss)
        in if length ss < i then None
           else do {
             st \<leftarrow> stack_push \<lparr>en_tree = en_tree e, en_index = i, en_seek = d, en_sum = u\<rparr> es;
             case en_tree e of
               Internal h s ss cs \<Rightarrow> do { t \<leftarrow> vec_get cs i; descend_to_last D U t st d u }
             | Leaf s xs ss \<Rightarrow> Some (st, d, u) }
      else prev_loop D U es d u)"

definition cursor_prev ::
    "('d, 's) dimension \<Rightarrow> ('u, 's) dimension \<Rightarrow> ('t, 's, 'd, 'u) cursor \<Rightarrow> ('t, 's, 'd, 'u) cursor option" where
  "cursor_prev D U c =
     (if \<not> cu_did_seek c then None
      else if cu_at_end c then do {
        c \<leftarrow> descend_to_last_item D U (cu_tree c) (c\<lparr>cu_seek := dim_default D, cu_sum := dim_default U\<rparr>);
        Some (c\<lparr>cu_at_end := False\<rparr>) }
      else do {
        (st, d, u) \<leftarrow> prev_loop D U (cu_stack c) (cu_seek c) (cu_sum c);
        Some (c\<lparr>cu_stack := st, cu_seek := d, cu_sum := u\<rparr>) })"

section \<open>Iteration\<close>

definition iter_next ::
    "('d, 's) dimension \<Rightarrow> ('u, 's) dimension \<Rightarrow> ('t, 's, 'd, 'u) cursor
       \<Rightarrow> ('t option \<times> ('t, 's, 'd, 'u) cursor) option" where
  "iter_next D U c =
     do { c \<leftarrow> (if \<not> cu_did_seek c then descend_to_first_item D U (cu_tree c) (\<lambda>_. True) c else Some c);
          item \<leftarrow> cursor_item c;
          case item of
            None \<Rightarrow> Some (None, c)
          | Some x \<Rightarrow> do { c \<leftarrow> cursor_next D U c; Some (Some x, c) } }"

definition iter_next_back ::
    "('d, 's) dimension \<Rightarrow> ('u, 's) dimension \<Rightarrow> ('t, 's, 'd, 'u) cursor
       \<Rightarrow> ('t option \<times> ('t, 's, 'd, 'u) cursor) option" where
  "iter_next_back D U c =
     do { c \<leftarrow> (if \<not> cu_did_seek c then descend_to_last_item D U (cu_tree c) c else Some c);
          c \<leftarrow> (if cu_at_end c then cursor_prev D U c else Some c);
          item \<leftarrow> cursor_item c;
          case item of
            None \<Rightarrow> Some (None, c)
          | Some x \<Rightarrow> do { c \<leftarrow> cursor_prev D U c; Some (Some x, c) } }"

definition unit_dim :: "(unit, 's) dimension" where
  "unit_dim = \<lparr>dim_default = (), dim_add = (\<lambda>_ _. ())\<rparr>"

definition filter_cursor_new ::
    "('u, 's) dimension \<Rightarrow> ('s \<Rightarrow> bool) \<Rightarrow> ('t, 's) node \<Rightarrow> ('t, 's, unit, 'u) cursor option" where
  "filter_cursor_new U f tree =
     (let c = cursor_new unit_dim U tree in
      if f (node_summary tree) then descend_to_first_item unit_dim U tree f c
      else Some (c\<lparr>cu_did_seek := True, cu_at_end := True\<rparr>))"

definition filter_cursor_next ::
    "('u, 's) dimension \<Rightarrow> ('s \<Rightarrow> bool) \<Rightarrow> ('t, 's, unit, 'u) cursor
       \<Rightarrow> ('t option \<times> ('t, 's, unit, 'u) cursor) option" where
  "filter_cursor_next U f c =
     do { item \<leftarrow> cursor_item c;
          case item of
            None \<Rightarrow> Some (None, c)
          | Some x \<Rightarrow> do { c \<leftarrow> next_internal unit_dim U f c; Some (Some x, c) } }"

section \<open>Seeking\<close>

datatype ('t, 's, 'a) seek_aggregate = AggNone | AggSlice "('t, 's) node" | AggSummary 'a

text \<open>The target lies past a position that ends at \<open>e\<close>.\<close>

definition beyond :: "seek_bias \<Rightarrow> 'd::linorder \<Rightarrow> 'd \<Rightarrow> bool" where
  "beyond bias target e \<longleftrightarrow> target > e \<or> (target = e \<and> bias = SeekRight)"

definition beyond_clamped :: "seek_bias \<Rightarrow> bool \<Rightarrow> bool \<Rightarrow> 'd::linorder \<Rightarrow> 'd \<Rightarrow> bool" where
  "beyond_clamped bias clamp at_last target e =
     beyond bias (if at_last \<and> clamp then min target e else target) e"

definition agg_child ::
    "('t, 's) item_ops \<Rightarrow> ('a, 's) dimension \<Rightarrow> ('t, 's) node \<Rightarrow> 's \<Rightarrow> ('t, 's, 'a) seek_aggregate
       \<Rightarrow> ('t, 's, 'a) seek_aggregate option" where
  "agg_child T A child s agg =
     (case agg of
        AggNone \<Rightarrow> Some AggNone
      | AggSlice tree \<Rightarrow> do { tree \<leftarrow> push_tree T tree child; Some (AggSlice tree) }
      | AggSummary a \<Rightarrow> Some (AggSummary (dim_add A a s)))"

text \<open>Items of a leaf are first collected in a leaf of their own, which is pushed at the end.\<close>

type_synonym ('t, 's) slice_leaf = "'s \<times> 't list \<times> 's list"

definition agg_item ::
    "('t, 's) item_ops \<Rightarrow> ('a, 's) dimension \<Rightarrow> 't \<Rightarrow> 's \<Rightarrow> ('t, 's, 'a) seek_aggregate \<times> ('t, 's) slice_leaf
       \<Rightarrow> ('t, 's, 'a) seek_aggregate \<times> ('t, 's) slice_leaf" where
  "agg_item T A x s = (\<lambda>(agg, sum, xs, ss).
     case agg of
       AggNone \<Rightarrow> (agg, sum, xs, ss)
     | AggSlice tree \<Rightarrow> (agg, it_add T sum s, xs @ [x], ss @ [s])
     | AggSummary a \<Rightarrow> (AggSummary (dim_add A a s), sum, xs, ss))"

definition agg_flush ::
    "('t, 's) item_ops \<Rightarrow> ('t, 's, 'a) seek_aggregate \<times> ('t, 's) slice_leaf \<Rightarrow> ('t, 's, 'a) seek_aggregate option" where
  "agg_flush T = (\<lambda>(agg, sum, xs, ss).
     case agg of
       AggSlice tree \<Rightarrow>
         if xs = [] then Some agg
         else do { xs \<leftarrow> array_vec xs; ss \<leftarrow> array_vec ss;
                   tree \<leftarrow> push_tree T tree (Leaf sum xs ss); Some (AggSlice tree) }
     | _ \<Rightarrow> Some agg)"

subsection \<open>From a position: unwinding the stack\<close>

fun resume_children ::
    "('t, 's) item_ops \<Rightarrow> ('d::linorder, 's) dimension \<Rightarrow> ('u, 's) dimension \<Rightarrow> ('a, 's) dimension \<Rightarrow> seek_bias \<Rightarrow> bool
       \<Rightarrow> 'd \<Rightarrow> nat \<Rightarrow> (('t, 's) node \<times> 's) list \<Rightarrow> nat \<Rightarrow> 'd \<Rightarrow> 'u \<Rightarrow> ('t, 's, 'a) seek_aggregate
       \<Rightarrow> (nat \<times> 'd \<times> 'u \<times> ('t, 's, 'a) seek_aggregate \<times> ('t, 's) node option) option" where
  "resume_children T D U A bias clamp target n [] i d u agg = Some (i, d, u, agg, None)"
| "resume_children T D U A bias clamp target n ((child, s) # rest) i d u agg =
     (if beyond_clamped bias clamp (i = n - 1) target (dim_add D d s)
      then do { agg \<leftarrow> agg_child T A child s agg;
                resume_children T D U A bias clamp target n rest (i + 1) (dim_add D d s) (dim_add U u s) agg }
      else Some (i, d, u, agg, Some child))"

fun resume_items ::
    "('t, 's) item_ops \<Rightarrow> ('d::linorder, 's) dimension \<Rightarrow> ('u, 's) dimension \<Rightarrow> ('a, 's) dimension \<Rightarrow> seek_bias \<Rightarrow> bool
       \<Rightarrow> 'd \<Rightarrow> nat \<Rightarrow> ('t \<times> 's) list \<Rightarrow> nat \<Rightarrow> 'd \<Rightarrow> 'u \<Rightarrow> ('t, 's, 'a) seek_aggregate \<times> ('t, 's) slice_leaf
       \<Rightarrow> nat \<times> 'd \<times> 'u \<times> (('t, 's, 'a) seek_aggregate \<times> ('t, 's) slice_leaf) \<times> bool" where
  "resume_items T D U A bias clamp target n [] i d u acc = (i, d, u, acc, False)"
| "resume_items T D U A bias clamp target n ((x, s) # rest) i d u acc =
     (if beyond_clamped bias clamp (i = n - 1) target (dim_add D d s)
      then resume_items T D U A bias clamp target n rest (i + 1) (dim_add D d s) (dim_add U u s) (agg_item T A x s acc)
      else (i, d, u, acc, True))"

text \<open>The result carries the subtree to descend into, if there is one.\<close>

fun resume ::
    "('t, 's) item_ops \<Rightarrow> ('d::linorder, 's) dimension \<Rightarrow> ('u, 's) dimension \<Rightarrow> ('a, 's) dimension \<Rightarrow> seek_bias \<Rightarrow> bool
       \<Rightarrow> 'd \<Rightarrow> ('t, 's, 'd, 'u) stack_entry list \<Rightarrow> 'd \<Rightarrow> 'u \<Rightarrow> ('t, 's, 'a) seek_aggregate
       \<Rightarrow> (('t, 's, 'd, 'u) stack_entry list \<times> 'd \<times> 'u \<times> ('t, 's, 'a) seek_aggregate \<times> ('t, 's) node option) option" where
  "resume T D U A bias clamp target [] d u agg = Some ([], d, u, agg, None)"
| "resume T D U A bias clamp target (e # es) d u agg =
     (case en_tree e of
        Internal h s ss cs \<Rightarrow>
          (let i = en_index e + 1 in
           if length cs < i \<or> length ss < i then None
           else do {
             (i, d, u, agg, child) \<leftarrow>
               resume_children T D U A bias clamp target (length cs) (zip (drop i cs) (drop i ss)) i d u agg;
             case child of
               Some t \<Rightarrow> Some (e\<lparr>en_index := i\<rparr> # es, d, u, agg, Some t)
             | None \<Rightarrow> resume T D U A bias clamp target es d u agg })
      | Leaf s xs ss \<Rightarrow>
          (let i = en_index e in
           if length xs < i \<or> length ss < i then None
           else let (i, d, u, acc, stop) =
                  resume_items T D U A bias clamp target (length xs) (zip (drop i xs) (drop i ss)) i d u
                    (agg, it_zero T, [], [])
                in do { agg \<leftarrow> agg_flush T acc;
                        if stop then Some (e\<lparr>en_index := i\<rparr> # es, d, u, agg, None)
                        else resume T D U A bias clamp target es d u agg }))"

subsection \<open>Into a subtree\<close>

text \<open>The scan of one node stops at the child that holds the target; its last component says
  that the target is past the child all the same, which happens at the last child of a
  node below the root when the cached sums are not exact.\<close>

fun seek_children ::
    "('t, 's) item_ops \<Rightarrow> ('d::linorder, 's) dimension \<Rightarrow> ('u, 's) dimension \<Rightarrow> ('a, 's) dimension \<Rightarrow> seek_bias \<Rightarrow> bool
       \<Rightarrow> 'd \<Rightarrow> 'd \<Rightarrow> bool \<Rightarrow> nat \<Rightarrow> (('t, 's) node \<times> 's) list \<Rightarrow> nat \<Rightarrow> 'd \<Rightarrow> 'u \<Rightarrow> ('t, 's, 'a) seek_aggregate
       \<Rightarrow> ('d \<times> 'u \<times> ('t, 's, 'a) seek_aggregate \<times> (nat \<times> ('t, 's) node \<times> bool) option) option" where
  "seek_children T D U A bias clamp target max_end at_root n [] i d u agg = Some (d, u, agg, None)"
| "seek_children T D U A bias clamp target max_end at_root n ((child, s) # rest) i d u agg =
     (let at_last = (i = n - 1);
          child_end = (if at_last then max (dim_add D d s) max_end else dim_add D d s);
          past = beyond_clamped bias clamp at_last target child_end
      in if (at_root \<or> \<not> at_last) \<and> past
         then do { agg \<leftarrow> agg_child T A child s agg;
                   seek_children T D U A bias clamp target max_end at_root n rest (i + 1)
                     (dim_add D d s) (dim_add U u s) agg }
         else Some (d, u, agg, Some (i, child, past)))"

lemma child_size: "c \<in> set cs \<Longrightarrow> size c < Suc (n + size_list size cs)"
  by (simp add: less_Suc_eq_le trans_le_add2 size_list_estimation' [OF _ order_refl])

lemma seek_children_found:
  "seek_children T D U A bias clamp target m r n zs i d u agg = Some (d', u', agg', Some (j, c, past)) \<Longrightarrow>
   c \<in> set (map fst zs)"
  by (induction T D U A bias clamp target m r n zs i d u agg rule: seek_children.induct)
     (auto simp: Let_def split: if_splits Option.bind_splits)

fun seek_items ::
    "('t, 's) item_ops \<Rightarrow> ('d::linorder, 's) dimension \<Rightarrow> ('u, 's) dimension \<Rightarrow> ('a, 's) dimension \<Rightarrow> seek_bias \<Rightarrow> bool
       \<Rightarrow> 'd \<Rightarrow> 'd \<Rightarrow> bool \<Rightarrow> nat \<Rightarrow> ('t \<times> 's) list \<Rightarrow> nat \<Rightarrow> 'd \<Rightarrow> 'u \<Rightarrow> ('t, 's, 'a) seek_aggregate \<times> ('t, 's) slice_leaf
       \<Rightarrow> 'd \<times> 'u \<times> (('t, 's, 'a) seek_aggregate \<times> ('t, 's) slice_leaf) \<times> (nat \<times> bool) option" where
  "seek_items T D U A bias clamp target max_end at_root n [] i d u acc = (d, u, acc, None)"
| "seek_items T D U A bias clamp target max_end at_root n ((x, s) # rest) i d u acc =
     (let at_last = (i = n - 1);
          item_end = (if at_last then max (dim_add D d s) max_end else dim_add D d s);
          past = beyond_clamped bias clamp at_last target item_end
      in if (at_root \<or> \<not> at_last) \<and> past
         then seek_items T D U A bias clamp target max_end at_root n rest (i + 1)
                (dim_add D d s) (dim_add U u s) (agg_item T A x s acc)
         else if past then (dim_add D d s, dim_add U u s, acc, Some (i, True))
         else (d, u, acc, Some (i, False)))"

function seek_descend ::
    "('t, 's) item_ops \<Rightarrow> ('d::linorder, 's) dimension \<Rightarrow> ('u, 's) dimension \<Rightarrow> ('a, 's) dimension \<Rightarrow> seek_bias \<Rightarrow> bool
       \<Rightarrow> 'd \<Rightarrow> ('t, 's) node \<Rightarrow> ('t, 's, 'd, 'u) stack_entry list \<Rightarrow> 'd \<Rightarrow> 'u \<Rightarrow> ('t, 's, 'a) seek_aggregate \<Rightarrow> bool
       \<Rightarrow> (('t, 's, 'd, 'u) stack_entry list \<times> 'd \<times> 'u \<times> ('t, 's, 'a) seek_aggregate \<times> bool) option" where
  "seek_descend T D U A bias clamp target subtree st d u agg after =
     (case subtree of
        Internal h s ss cs \<Rightarrow>
          do { (d, u, agg, found) \<leftarrow>
                 seek_children T D U A bias clamp target (dim_add D d s) (st = []) (length cs) (zip cs ss) 0 d u agg;
               case found of
                 None \<Rightarrow> Some (st, d, u, agg, after)
               | Some (i, child, past) \<Rightarrow> do {
                   st \<leftarrow> stack_push \<lparr>en_tree = subtree, en_index = i, en_seek = d, en_sum = u\<rparr> st;
                   seek_descend T D U A bias clamp target child st d u agg (after \<or> past) } }
      | Leaf s xs ss \<Rightarrow>
          (let (d, u, acc, found) =
             seek_items T D U A bias clamp target (dim_add D d s) (st = []) (length xs) (zip xs ss) 0 d u (agg, it_zero T, [], [])
           in do {
             st \<leftarrow> (case found of
                       None \<Rightarrow> Some st
                     | Some (i, past) \<Rightarrow> stack_push \<lparr>en_tree = subtree, en_index = i, en_seek = d, en_sum = u\<rparr> st);
             agg \<leftarrow> agg_flush T acc;
             Some (st, d, u, agg, after \<or> (case found of Some (i, past) \<Rightarrow> past | None \<Rightarrow> False)) }))"
  by auto
termination
  by (relation "measure (\<lambda>(T, D, U, A, bias, clamp, target, n, st, d, u, agg, after). size n)")
     (auto dest!: seek_children_found, erule set_zip_leftD [THEN child_size])

declare seek_descend.simps [simp del]

definition seek_finish ::
    "('d::linorder, 's) dimension \<Rightarrow> seek_bias \<Rightarrow> 'd \<Rightarrow> ('t, 's, 'd, 'u) cursor
       \<Rightarrow> (bool \<times> ('t, 's, 'd, 'u) cursor) option" where
  "seek_finish D bias target c =
     (let c = c\<lparr>cu_at_end := (cu_stack c = [])\<rparr> in
      if bias = SeekLeft then do {
        s \<leftarrow> item_summary c;
        let e = (case s of None \<Rightarrow> cu_seek c | Some s \<Rightarrow> dim_add D (cu_seek c) s);
        Some (target = e, c) }
      else Some (target = cu_seek c, c))"

definition seek_internal ::
    "('t, 's) item_ops \<Rightarrow> ('d::linorder, 's) dimension \<Rightarrow> ('u, 's) dimension \<Rightarrow> ('a, 's) dimension \<Rightarrow> seek_bias \<Rightarrow> bool
       \<Rightarrow> 'd \<Rightarrow> ('t, 's, 'a) seek_aggregate \<Rightarrow> ('t, 's, 'd, 'u) cursor
       \<Rightarrow> (bool \<times> ('t, 's, 'a) seek_aggregate \<times> ('t, 's, 'd, 'u) cursor) option" where
  "seek_internal T D U A bias clamp target agg c =
     (if target < cu_seek c then None
      else do {
        (st, d, u, agg, subtree) \<leftarrow>
          (if cu_did_seek c then resume T D U A bias clamp target (cu_stack c) (cu_seek c) (cu_sum c) agg
           else Some (cu_stack c, cu_seek c, cu_sum c, agg, Some (cu_tree c)));
        (st, d, u, agg, after) \<leftarrow>
          (case subtree of
             None \<Rightarrow> Some (st, d, u, agg, False)
           | Some t \<Rightarrow> seek_descend T D U A bias clamp target t st d u agg False);
        let c = c\<lparr>cu_did_seek := True, cu_stack := st, cu_seek := d, cu_sum := u\<rparr>;
        if after then do { c \<leftarrow> cursor_next D U c; Some (target = cu_seek c, agg, c) }
        else do { (b, c) \<leftarrow> seek_finish D bias target c; Some (b, agg, c) } })"

definition seek ::
    "('t, 's) item_ops \<Rightarrow> ('d::linorder, 's) dimension \<Rightarrow> ('u, 's) dimension \<Rightarrow> 'd \<Rightarrow> seek_bias
       \<Rightarrow> ('t, 's, 'd, 'u) cursor \<Rightarrow> (bool \<times> ('t, 's, 'd, 'u) cursor) option" where
  "seek T D U pos bias c =
     do { (b, _, c) \<leftarrow> seek_internal T D U (unit_dim :: (unit, 's) dimension) bias False pos AggNone (cursor_reset D U c);
          Some (b, c) }"

definition seek_clamped ::
    "('t, 's) item_ops \<Rightarrow> ('d::linorder, 's) dimension \<Rightarrow> ('u, 's) dimension \<Rightarrow> 'd \<Rightarrow> seek_bias
       \<Rightarrow> ('t, 's, 'd, 'u) cursor \<Rightarrow> ('t, 's, 'd, 'u) cursor option" where
  "seek_clamped T D U pos bias c =
     do { (_, _, c) \<leftarrow> seek_internal T D U (unit_dim :: (unit, 's) dimension) bias True pos AggNone (cursor_reset D U c);
          Some c }"

definition cursor_slice ::
    "('t, 's) item_ops \<Rightarrow> ('d::linorder, 's) dimension \<Rightarrow> ('u, 's) dimension \<Rightarrow> 'd \<Rightarrow> seek_bias
       \<Rightarrow> ('t, 's, 'd, 'u) cursor \<Rightarrow> (('t, 's) node \<times> ('t, 's, 'd, 'u) cursor) option" where
  "cursor_slice T D U target bias c =
     do { (_, agg, c) \<leftarrow>
            seek_internal T D U (unit_dim :: (unit, 's) dimension) bias False target (AggSlice (tree_new T)) c;
          case agg of AggSlice t \<Rightarrow> Some (t, c) | _ \<Rightarrow> None }"

definition cursor_suffix ::
    "('t, 's) item_ops \<Rightarrow> ('d::linorder, 's) dimension \<Rightarrow> ('u, 's) dimension
       \<Rightarrow> ('t, 's, 'd, 'u) cursor \<Rightarrow> (('t, 's) node \<times> ('t, 's, 'd, 'u) cursor) option" where
  "cursor_suffix T D U c = cursor_slice T D U (extent D (cu_tree c)) SeekRight c"

definition cursor_summary ::
    "('t, 's) item_ops \<Rightarrow> ('d::linorder, 's) dimension \<Rightarrow> ('u, 's) dimension \<Rightarrow> ('a, 's) dimension \<Rightarrow> 'd \<Rightarrow> seek_bias
       \<Rightarrow> ('t, 's, 'd, 'u) cursor \<Rightarrow> ('a \<times> ('t, 's, 'd, 'u) cursor) option" where
  "cursor_summary T D U A target bias c =
     do { (_, agg, c) \<leftarrow> seek_internal T D U A bias False target (AggSummary (dim_default A)) c;
          case agg of AggSummary a \<Rightarrow> Some (a, c) | _ \<Rightarrow> None }"

section \<open>Keyed items\<close>

definition tree_insert ::
    "('t, 's) item_ops \<Rightarrow> ('k::linorder, 's) dimension \<Rightarrow> ('t \<Rightarrow> 'k) \<Rightarrow> 't \<Rightarrow> ('t, 's) node \<Rightarrow> ('t, 's) node option" where
  "tree_insert T K key item self =
     do { let c = cursor_new K (unit_dim :: (unit, 's) dimension) self;
          (new_tree, c) \<leftarrow> cursor_slice T K unit_dim (key item) SeekLeft c;
          new_tree \<leftarrow> push T item new_tree;
          (rest, c) \<leftarrow> cursor_suffix T K unit_dim c;
          push_tree T new_tree rest }"

datatype 't edit = InsertEdit 't | RemoveEdit 't

fun edit_item :: "'t edit \<Rightarrow> 't" where
  "edit_item (InsertEdit x) = x"
| "edit_item (RemoveEdit x) = x"

definition edit_step ::
    "('t, 's) item_ops \<Rightarrow> ('k::linorder, 's) dimension \<Rightarrow> ('t \<Rightarrow> 'k) \<Rightarrow> 't edit
       \<Rightarrow> ('t, 's) node \<times> 't list \<times> ('t, 's, 'k, unit) cursor
       \<Rightarrow> (('t, 's) node \<times> 't list \<times> ('t, 's, 'k, unit) cursor) option" where
  "edit_step T K key e = (\<lambda>(new_tree, buffered, c).
     do { let new_key = key (edit_item e);
          old_item \<leftarrow> cursor_item c;
          (new_tree, buffered, c, old_item) \<leftarrow>
            (if (case old_item of Some x \<Rightarrow> key x < new_key | None \<Rightarrow> False) then do {
               new_tree \<leftarrow> tree_extend T buffered new_tree;
               (t, c) \<leftarrow> cursor_slice T K unit_dim new_key SeekLeft c;
               new_tree \<leftarrow> push_tree T new_tree t;
               old_item \<leftarrow> cursor_item c;
               Some (new_tree, [], c, old_item) }
             else Some (new_tree, buffered, c, old_item));
          c \<leftarrow> (if (case old_item of Some x \<Rightarrow> key x = new_key | None \<Rightarrow> False)
                 then cursor_next K unit_dim c else Some c);
          Some (new_tree, (case e of InsertEdit x \<Rightarrow> buffered @ [x] | RemoveEdit x \<Rightarrow> buffered), c) })"

text \<open>The edits come in some order that is sorted by key; \<open>sort_unstable_by_key\<close> leaves open
  which.\<close>

definition tree_edit ::
    "('t, 's) item_ops \<Rightarrow> ('k::linorder, 's) dimension \<Rightarrow> ('t \<Rightarrow> 'k) \<Rightarrow> ('t edit list \<Rightarrow> 't edit list) \<Rightarrow> 't edit list
       \<Rightarrow> ('t, 's) node \<Rightarrow> ('t, 's) node option" where
  "tree_edit T K key sort_unstable edits self =
     (if edits = [] then Some self
      else do {
        (_, c) \<leftarrow> seek T K (unit_dim :: (unit, 's) dimension) (dim_default K) SeekLeft (cursor_new K unit_dim self);
        (new_tree, buffered, c) \<leftarrow> fold_m (edit_step T K key) (sort_unstable edits) (tree_new T, [], c);
        new_tree \<leftarrow> tree_extend T buffered new_tree;
        (rest, c) \<leftarrow> cursor_suffix T K unit_dim c;
        push_tree T new_tree rest })"

end
