(* ===== verification/Editor_Text.thy ===== *)
theory Editor_Text
  imports Sum_Cursor
begin

text \<open>
  The text of the editor buffer, \<open>app/src/editor/view/model/buffer/text.rs\<close>, with \<open>Point\<close> of
  \<open>crates/warpui_core/src/text/point.rs\<close>.  A text is a string, a tree of runs of equally
  wide characters, and a range of character offsets.  Offsets in characters and bytes and
  points (row and column) are converted by seeking in the tree.

  Offsets are natural numbers.  Rows and columns are \<open>u32\<close> in the code: the conversion of
  a run length is truncated, sums are not, which is exact for texts shorter than \<open>2 ^ 32\<close>
  characters.  The style a text carries along is left out.
\<close>

section \<open>Points\<close>

datatype text_point = Point (row: nat) (column: nat)

text \<open>\<open>Ord::cmp\<close> compares the rows first; on 64-bit targets it does so by comparing
  \<open>row << 32 | column\<close>.\<close>

instantiation text_point :: linorder
begin

definition less_eq_text_point :: "text_point \<Rightarrow> text_point \<Rightarrow> bool" where
  "p \<le> q \<longleftrightarrow> row p < row q \<or> row p = row q \<and> column p \<le> column q"

definition less_text_point :: "text_point \<Rightarrow> text_point \<Rightarrow> bool" where
  "p < q \<longleftrightarrow> row p < row q \<or> row p = row q \<and> column p < column q"

instance
  by standard (auto simp: less_eq_text_point_def less_text_point_def text_point.expand)

end

definition packed :: "text_point \<Rightarrow> nat" where
  "packed p = row p * 2 ^ 32 + column p"

lemma point_order_packed:
  assumes "column p < 2 ^ 32" "column q < 2 ^ 32"
  shows "p \<le> q \<longleftrightarrow> packed p \<le> packed q"
  using assms by (auto simp: less_eq_text_point_def packed_def)

definition point_add :: "text_point \<Rightarrow> text_point \<Rightarrow> text_point" where
  "point_add p q =
     (if row q = 0 then Point (row p) (column p + column q) else Point (row p + row q) (column q))"

definition point_sub :: "text_point \<Rightarrow> text_point \<Rightarrow> text_point option" where
  "point_sub p q =
     (if \<not> q \<le> p then None
      else if row p = row q then do { c \<leftarrow> checked_sub (column p) (column q); Some (Point 0 c) }
      else do { r \<leftarrow> checked_sub (row p) (row q); Some (Point r (column p)) })"

section \<open>Runs and their summaries\<close>

datatype run = Newline | Chars nat nat

record text_summary =
  ts_chars :: nat
  ts_bytes :: nat
  ts_lines :: text_point
  ts_first_line_len :: nat
  ts_rightmost_point :: text_point

definition as_u32 :: "nat \<Rightarrow> nat" where
  "as_u32 n = n mod 2 ^ 32"

fun run_summary :: "run \<Rightarrow> text_summary" where
  "run_summary Newline =
     \<lparr>ts_chars = 1, ts_bytes = 1, ts_lines = Point 1 0, ts_first_line_len = 0, ts_rightmost_point = Point 0 0\<rparr>"
| "run_summary (Chars len char_size) =
     \<lparr>ts_chars = len, ts_bytes = len * char_size, ts_lines = Point 0 (as_u32 len), ts_first_line_len = as_u32 len,
      ts_rightmost_point = Point 0 (as_u32 len)\<rparr>"

fun run_char_size :: "run \<Rightarrow> nat" where
  "run_char_size Newline = 1"
| "run_char_size (Chars len char_size) = char_size"

definition text_summary_add :: "text_summary \<Rightarrow> text_summary \<Rightarrow> text_summary" where
  "text_summary_add a b =
     (let joined_line_len = column (ts_lines a) + ts_first_line_len b;
          rightmost = (if joined_line_len > column (ts_rightmost_point a)
                       then Point (row (ts_lines a)) joined_line_len else ts_rightmost_point a);
          rightmost = (if column (ts_rightmost_point b) > column rightmost
                       then point_add (ts_lines a) (ts_rightmost_point b) else rightmost)
      in \<lparr>ts_chars = ts_chars a + ts_chars b,
          ts_bytes = ts_bytes a + ts_bytes b,
          ts_lines = point_add (ts_lines a) (ts_lines b),
          ts_first_line_len = (if row (ts_lines a) = 0 then ts_first_line_len a + ts_first_line_len b
                               else ts_first_line_len a),
          ts_rightmost_point = rightmost\<rparr>)"

definition text_summary_default :: text_summary where
  "text_summary_default =
     \<lparr>ts_chars = 0, ts_bytes = 0, ts_lines = Point 0 0, ts_first_line_len = 0, ts_rightmost_point = Point 0 0\<rparr>"

definition run_ops :: "(run, text_summary) item_ops" where
  "run_ops = \<lparr>it_summary = run_summary, it_add = text_summary_add, it_zero = text_summary_default\<rparr>"

definition summary_dim :: "(text_summary, text_summary) dimension" where
  "summary_dim = \<lparr>dim_default = text_summary_default, dim_add = text_summary_add\<rparr>"

definition point_dim :: "(text_point, text_summary) dimension" where
  "point_dim = \<lparr>dim_default = Point 0 0, dim_add = (\<lambda>p s. point_add p (ts_lines s))\<rparr>"

definition bytes_dim :: "(nat, text_summary) dimension" where
  "bytes_dim = \<lparr>dim_default = 0, dim_add = (\<lambda>n s. n + ts_bytes s)\<rparr>"

definition chars_dim :: "(nat, text_summary) dimension" where
  "chars_dim = \<lparr>dim_default = 0, dim_add = (\<lambda>n s. n + ts_chars s)\<rparr>"

section \<open>Texts\<close>

record buffer_text =
  tx_text :: rust_str
  tx_runs :: "(run, text_summary) node"
  tx_start :: nat
  tx_end :: nat

text \<open>The loop of \<open>From<String>\<close>, with the length and the character size of the open run.\<close>

fun text_runs :: "nat \<Rightarrow> nat \<Rightarrow> rust_str \<Rightarrow> run list" where
  "text_runs run_chars run_size [] = (if run_chars \<noteq> 0 then [Chars run_chars run_size] else [])"
| "text_runs run_chars run_size (ch # chars) =
     (let ch_size = len_utf8 ch;
          flush = (run_chars \<noteq> 0 \<and> (ch = 10 \<or> run_size \<noteq> ch_size));
          run_chars' = (if flush then 0 else run_chars)
      in (if flush then [Chars run_chars run_size] else []) @
         (if ch = 10 then Newline # text_runs run_chars' ch_size chars
          else text_runs (run_chars' + 1) ch_size chars))"

definition text_from :: "rust_str \<Rightarrow> buffer_text option" where
  "text_from s =
     do { tree \<leftarrow> tree_extend run_ops (text_runs 0 0 s) (tree_new run_ops);
          Some \<lparr>tx_text = s, tx_runs = tree, tx_start = 0, tx_end = length s\<rparr> }"

text \<open>\<open>Text::slice\<close> with the bounds of the range already resolved to offsets.\<close>

definition text_slice :: "nat \<Rightarrow> nat \<Rightarrow> buffer_text \<Rightarrow> buffer_text" where
  "text_slice from to t =
     t\<lparr>tx_start := min (tx_start t + from) (tx_end t), tx_end := min (tx_start t + to) (tx_end t)\<rparr>"

definition text_len :: "buffer_text \<Rightarrow> nat option" where
  "text_len t = checked_sub (tx_end t) (tx_start t)"

definition text_is_empty :: "buffer_text \<Rightarrow> bool" where
  "text_is_empty t \<longleftrightarrow> \<not> tx_start t < tx_end t"

definition text_eq :: "buffer_text \<Rightarrow> buffer_text \<Rightarrow> bool" where
  "text_eq a b \<longleftrightarrow> tx_text a = tx_text b"

abbreviation text_cursor :: "('d, text_summary) dimension \<Rightarrow> buffer_text \<Rightarrow> (run, text_summary, 'd, text_summary) cursor" where
  "text_cursor D t \<equiv> cursor_new D summary_dim (tx_runs t)"

definition abs_point_for_offset :: "buffer_text \<Rightarrow> nat \<Rightarrow> text_point option" where
  "abs_point_for_offset t offset =
     do { (_, c) \<leftarrow> seek run_ops chars_dim summary_dim offset SeekRight (text_cursor chars_dim t);
          overshoot \<leftarrow> checked_sub offset (ts_chars (cursor_start c));
          Some (point_add (ts_lines (cursor_start c)) (Point 0 (as_u32 overshoot))) }"

definition abs_byte_offset_for_offset :: "buffer_text \<Rightarrow> nat \<Rightarrow> nat option" where
  "abs_byte_offset_for_offset t offset =
     do { (_, c) \<leftarrow> seek run_ops chars_dim summary_dim offset SeekRight (text_cursor chars_dim t);
          overshoot \<leftarrow> checked_sub offset (ts_chars (cursor_start c));
          item \<leftarrow> cursor_item c;
          Some (ts_bytes (cursor_start c) + overshoot * (case item of None \<Rightarrow> 0 | Some run \<Rightarrow> run_char_size run)) }"

definition point_for_offset :: "buffer_text \<Rightarrow> nat \<Rightarrow> text_point option" where
  "point_for_offset t offset =
     do { p \<leftarrow> abs_point_for_offset t (tx_start t + offset);
          q \<leftarrow> abs_point_for_offset t (tx_start t);
          point_sub p q }"

definition offset_for_point :: "buffer_text \<Rightarrow> text_point \<Rightarrow> nat option" where
  "offset_for_point t point =
     do { start \<leftarrow> abs_point_for_offset t (tx_start t);
          let abs_point = point_add start point;
          (_, c) \<leftarrow> seek run_ops point_dim summary_dim abs_point SeekRight (text_cursor point_dim t);
          overshoot \<leftarrow> point_sub abs_point (ts_lines (cursor_start c));
          checked_sub (ts_chars (cursor_start c) + column overshoot) (tx_start t) }"

definition byte_offset_for_point :: "buffer_text \<Rightarrow> text_point \<Rightarrow> nat option" where
  "byte_offset_for_point t point =
     do { character_offset \<leftarrow> offset_for_point t point;
          a \<leftarrow> abs_byte_offset_for_offset t (character_offset + tx_start t);
          b \<leftarrow> abs_byte_offset_for_offset t (tx_start t);
          checked_sub a b }"

definition char_offset_for_byte_offset :: "buffer_text \<Rightarrow> nat \<Rightarrow> nat option" where
  "char_offset_for_byte_offset t byte_offset =
     do { start \<leftarrow> abs_byte_offset_for_offset t (tx_start t);
          let abs_byte_offset = start + byte_offset;
          (_, c) \<leftarrow> seek run_ops bytes_dim summary_dim abs_byte_offset SeekRight (text_cursor bytes_dim t);
          overshoot \<leftarrow> checked_sub abs_byte_offset (ts_bytes (cursor_start c));
          item \<leftarrow> cursor_item c;
          let size = (case item of None \<Rightarrow> 1 | Some run \<Rightarrow> run_char_size run);
          chars \<leftarrow> (if size = 0 then None else Some (overshoot div size));
          checked_sub (ts_chars (cursor_start c) + chars) (tx_start t) }"

text \<open>Slicing a string by bytes panics inside a character.\<close>

fun char_at_byte :: "rust_str \<Rightarrow> nat \<Rightarrow> nat option" where
  "char_at_byte cs 0 = Some 0"
| "char_at_byte [] (Suc n) = None"
| "char_at_byte (c # cs) (Suc n) =
     (if len_utf8 c \<le> Suc n then do { k \<leftarrow> char_at_byte cs (Suc n - len_utf8 c); Some (Suc k) } else None)"

definition str_slice :: "rust_str \<Rightarrow> nat \<Rightarrow> nat \<Rightarrow> rust_str option" where
  "str_slice cs a b =
     (if a \<le> b then do { i \<leftarrow> char_at_byte cs a; j \<leftarrow> char_at_byte cs b; Some (drop i (take j cs)) } else None)"

definition text_index :: "buffer_text \<Rightarrow> nat \<Rightarrow> nat \<Rightarrow> rust_str option" where
  "text_index t from to =
     do { a \<leftarrow> abs_byte_offset_for_offset t (min (tx_start t + from) (tx_end t));
          b \<leftarrow> abs_byte_offset_for_offset t (min (tx_start t + to) (tx_end t));
          str_slice (tx_text t) a b }"

definition as_str :: "buffer_text \<Rightarrow> rust_str option" where
  "as_str t =
     do { a \<leftarrow> abs_byte_offset_for_offset t (tx_start t);
          b \<leftarrow> abs_byte_offset_for_offset t (tx_end t);
          str_slice (tx_text t) a b }"

definition byte_len :: "buffer_text \<Rightarrow> nat option" where
  "byte_len t = do { s \<leftarrow> as_str t; Some (str_len s) }"

section \<open>Lines\<close>

definition line_len :: "buffer_text \<Rightarrow> nat \<Rightarrow> nat option" where
  "line_len t r =
     do { (_, c) \<leftarrow> seek run_ops chars_dim point_dim (tx_start t) SeekRight (cursor_new chars_dim point_dim (tx_runs t));
          let absolute_row = row (cursor_start c) + r;
          (_, c) \<leftarrow> seek run_ops point_dim chars_dim (Point absolute_row 0) SeekRight
                      (cursor_new point_dim chars_dim (tx_runs t));
          let prefix_len = tx_start t - cursor_start c;
          (len, c) \<leftarrow> cursor_summary run_ops point_dim chars_dim chars_dim (Point (absolute_row + 1) 0) SeekLeft c;
          let suffix_len = cursor_start c - tx_end t;
          Some (as_u32 (len - prefix_len - suffix_len)) }"

definition text_lines :: "buffer_text \<Rightarrow> text_point option" where
  "text_lines t =
     do { p \<leftarrow> abs_point_for_offset t (tx_end t);
          q \<leftarrow> abs_point_for_offset t (tx_start t);
          point_sub p q }"

text \<open>\<open>max_by_key\<close> keeps the last of several maximal elements.\<close>

fun max_by_column :: "text_point \<Rightarrow> text_point list \<Rightarrow> text_point" where
  "max_by_column p [] = p"
| "max_by_column p (q # qs) = max_by_column (if column p \<le> column q then q else p) qs"

definition text_rightmost_point :: "buffer_text \<Rightarrow> text_point option" where
  "text_rightmost_point t =
     do { end_point \<leftarrow> text_lines t;
          if row end_point = 0 then Some end_point
          else do {
            first \<leftarrow> line_len t 0;
            if row end_point \<le> 1 then Some (max_by_column end_point [Point 0 first])
            else do {
              (_, c) \<leftarrow> seek run_ops chars_dim point_dim (tx_start t) SeekRight
                          (cursor_new chars_dim point_dim (tx_runs t));
              let absolute_start_row = row (cursor_start c);
              (_, c) \<leftarrow> seek run_ops point_dim chars_dim (Point (absolute_start_row + 1) 0) SeekRight
                          (cursor_new point_dim chars_dim (tx_runs t));
              (s, c) \<leftarrow> cursor_summary run_ops point_dim chars_dim summary_dim
                          (Point (absolute_start_row + row end_point) 0) SeekLeft c;
              Some (max_by_column end_point [Point 0 first, point_add (Point 1 0) (ts_rightmost_point s)]) } } }"

definition text_summary_of :: "buffer_text \<Rightarrow> text_summary option" where
  "text_summary_of t =
     do { chars \<leftarrow> checked_sub (tx_end t) (tx_start t);
          a \<leftarrow> abs_byte_offset_for_offset t (tx_end t);
          b \<leftarrow> abs_byte_offset_for_offset t (tx_start t);
          bytes \<leftarrow> checked_sub a b;
          end_point \<leftarrow> text_lines t;
          first \<leftarrow> line_len t 0;
          rightmost \<leftarrow> text_rightmost_point t;
          Some \<lparr>ts_chars = chars, ts_bytes = bytes, ts_lines = end_point, ts_first_line_len = first,
                ts_rightmost_point = rightmost\<rparr> }"

end
