(* ===== verification/Sum_Tree_Correct.thy ===== *)
theory Sum_Tree_Correct
  imports Sum_Tree
begin

text \<open>
  Pushing trees together is concatenation of their items, without a panic, with every
  cached summary exact and the tree balanced; the fill of the nodes survives
  \<open>push_tree\<close> and \<open>extend\<close>, which bounds the height, but not \<open>push\<close>.
\<close>

definition pending :: "('s \<times> 't list \<times> 's list) option \<Rightarrow> 't list" where
  "pending leaf = (case leaf of None \<Rightarrow> [] | Some (s, xs, ss) \<Rightarrow> xs)"

definition pending_ok :: "('t, 's) item_ops \<Rightarrow> ('s \<times> 't list \<times> 's list) option \<Rightarrow> bool" where
  "pending_ok T leaf =
     (case leaf of None \<Rightarrow> True
      | Some (s, xs, ss) \<Rightarrow> s = item_sum T xs \<and> ss = map (it_summary T) xs \<and> length xs \<le> 2 * TREE_BASE)"

section \<open>One level\<close>

text \<open>What a push leaves: one node, or two halves.\<close>

fun grown :: "('t, 's) item_ops \<Rightarrow> nat \<Rightarrow> 't list \<Rightarrow> ('t, 's) node \<times> ('t, 's) node option \<Rightarrow> bool" where
  "grown T h xs (a, None) \<longleftrightarrow> wf_node T a \<and> node_height a = h \<and> tree_items a = xs"
| "grown T h xs (a, Some b) \<longleftrightarrow>
     wf_node T a \<and> node_height a = h \<and> wf_node T b \<and> node_height b = h \<and>
     tree_items a @ tree_items b = xs \<and> tree_items a \<noteq> [] \<and> tree_items b \<noteq> []"

fun grown_filled :: "('t, 's) node \<Rightarrow> ('t, 's) node \<times> ('t, 's) node option \<Rightarrow> bool" where
  "grown_filled a0 (a, None) \<longleftrightarrow> (filled a0 \<longrightarrow> filled a) \<and> (root_filled a0 \<longrightarrow> root_filled a)"
| "grown_filled a0 (a, Some b) \<longleftrightarrow> filled a \<and> filled b"

lemma midpoint_bounds:
  assumes "2 * TREE_BASE < n" "n \<le> 4 * TREE_BASE"
  defines "m \<equiv> (n + n mod 2) div 2"
  shows "TREE_BASE \<le> m \<and> m \<le> 2 * TREE_BASE \<and> TREE_BASE \<le> n - m \<and> n - m \<le> 2 * TREE_BASE \<and> m < n"
  using assms by (simp add: TREE_BASE_def) presburger

lemma concat_items_nonempty:
  "list_all (good_child T h) cs \<Longrightarrow> cs \<noteq> [] \<Longrightarrow> concat (map tree_items cs) \<noteq> []"
  by (cases cs) (auto simp: good_child_def)

lemma wf_Internal_children:
  "list_all (good_child T h) cs \<Longrightarrow> cs \<noteq> [] \<Longrightarrow> length cs \<le> 2 * TREE_BASE \<Longrightarrow>
   wf_node T (Internal h (summarize T (map node_summary cs)) (map node_summary cs) cs)"
  by (simp add: wf_Internal)

lemma list_all_take_drop: "list_all P xs \<Longrightarrow> list_all P (take n xs) \<and> list_all P (drop n xs)"
  by (auto simp: list_all_iff dest: in_set_takeD in_set_dropD)

lemma grow_internal_grown:
  fixes cs cs' :: "('t, 's) node list"
  assumes good: "list_all (good_child T h) (cs @ cs')" and cs: "cs \<noteq> []" "length cs \<le> 2 * TREE_BASE"
    and cs': "length cs' \<le> 2 * TREE_BASE" and s: "s = summarize T (map node_summary (cs @ cs'))"
  obtains r where "grow_internal T h s (map node_summary cs) cs (map node_summary cs') cs' = Some r"
    "grown T h (concat (map tree_items (cs @ cs'))) r"
    "list_all filled (cs @ cs') \<Longrightarrow> grown_filled (Internal h s0 ss0 cs) r"
proof (cases "2 * TREE_BASE < length (cs @ cs')")
  case True
  define m where "m = (length (cs @ cs') + length (cs @ cs') mod 2) div 2"
  let ?l = "take m (cs @ cs')" and ?r = "drop m (cs @ cs')"
  let ?node = "\<lambda>ts. Internal h (summarize T (map node_summary ts)) (map node_summary ts) ts"
  have m: "TREE_BASE \<le> m" "m \<le> 2 * TREE_BASE" "TREE_BASE \<le> length (cs @ cs') - m"
    "length (cs @ cs') - m \<le> 2 * TREE_BASE" "m < length (cs @ cs')"
    using midpoint_bounds [OF True] cs cs' by (simp_all add: m_def)
  have pos: "0 < m" using m(1) by (simp add: TREE_BASE_def)
  have len: "length ?l = m" "length ?r = length (cs @ cs') - m" using m(5) by simp_all
  have nonempty: "?l \<noteq> []" "?r \<noteq> []" using len m(5) pos by (metis length_greater_0_conv, metis length_greater_0_conv zero_less_diff)
  have halves: "list_all (good_child T h) ?l" "list_all (good_child T h) ?r"
    using list_all_take_drop [OF good] by blast+
  have eq: "grow_internal T h s (map node_summary cs) cs (map node_summary cs') cs' = Some (?node ?l, Some (?node ?r))"
    using True m unfolding grow_internal_def Let_def length_append [symmetric] m_def [symmetric] map_append [symmetric]
      take_map drop_map by (simp add: array_vec_def) arith
  show thesis
  proof (rule that [OF eq])
    show "grown T h (concat (map tree_items (cs @ cs'))) (?node ?l, Some (?node ?r))"
      using wf_Internal_children [OF halves(1)] wf_Internal_children [OF halves(2)] nonempty len m
        concat_items_nonempty [OF halves(1) nonempty(1)] concat_items_nonempty [OF halves(2) nonempty(2)]
      by (simp only: grown.simps node_height.simps tree_items.simps concat_append [symmetric] map_append [symmetric]
          append_take_drop_id) simp
    show "grown_filled (Internal h s0 ss0 cs) (?node ?l, Some (?node ?r))" if "list_all filled (cs @ cs')"
      using list_all_take_drop [OF that, of m] len m by (simp only: grown_filled.simps filled.simps list_all_iff) simp
  qed
next
  case False
  have "grow_internal T h s (map node_summary cs) cs (map node_summary cs') cs' =
      Some (Internal h s (map node_summary (cs @ cs')) (cs @ cs'), None)"
    using False unfolding grow_internal_def Let_def by (simp add: array_vec_def)
  then show thesis
  proof (rule that)
    show "grown T h (concat (map tree_items (cs @ cs'))) (Internal h s (map node_summary (cs @ cs')) (cs @ cs'), None)"
      using wf_Internal_children [OF good] cs False s by simp
    show "grown_filled (Internal h s0 ss0 cs) (Internal h s (map node_summary (cs @ cs')) (cs @ cs'), None)"
      if "list_all filled (cs @ cs')"
      using that by (auto simp: list_all_iff)
  qed
qed

context summary_laws
begin

lemma summarize_items: "list_all ok (map (it_summary T) xs)"
  by (simp add: list_all_iff ok_item)

lemma grow_leaf_grown:
  assumes "length xs \<le> 2 * TREE_BASE" "length ys \<le> 2 * TREE_BASE" "ys \<noteq> []"
  obtains r where
    "grow_leaf T (item_sum T xs) xs (map (it_summary T) xs) (item_sum T ys) ys (map (it_summary T) ys) = Some r"
    "grown T 0 (xs @ ys) r" "grown_filled (Leaf s0 xs ss0) r"
proof (cases "2 * TREE_BASE < length (xs @ ys)")
  case True
  define m where "m = (length (xs @ ys) + length (xs @ ys) mod 2) div 2"
  let ?l = "take m (xs @ ys)" and ?r = "drop m (xs @ ys)"
  let ?node = "\<lambda>zs. Leaf (item_sum T zs) zs (map (it_summary T) zs)"
  have m: "TREE_BASE \<le> m" "m \<le> 2 * TREE_BASE" "TREE_BASE \<le> length (xs @ ys) - m"
    "length (xs @ ys) - m \<le> 2 * TREE_BASE" "m < length (xs @ ys)"
    using midpoint_bounds [OF True] assms by (simp_all add: m_def)
  have len: "length ?l = m" "length ?r = length (xs @ ys) - m" using m(5) by simp_all
  have "0 < m" using m(1) by (simp add: TREE_BASE_def)
  then have nonempty: "?l \<noteq> []" "?r \<noteq> []"
    using len m(5) by (metis length_greater_0_conv, metis length_greater_0_conv zero_less_diff)
  have eq: "grow_leaf T (item_sum T xs) xs (map (it_summary T) xs) (item_sum T ys) ys (map (it_summary T) ys) =
      Some (?node ?l, Some (?node ?r))"
    using True m unfolding grow_leaf_def Let_def length_append [symmetric] m_def [symmetric] map_append [symmetric]
      take_map drop_map item_sum_def by (simp add: array_vec_def) arith
  show thesis
  proof (rule that [OF eq])
    show "grown T 0 (xs @ ys) (?node ?l, Some (?node ?r))"
      using nonempty len m by (simp only: grown.simps wf_node.simps tree_items.simps node_height.simps
          append_take_drop_id item_sum_def) simp
    show "grown_filled (Leaf s0 xs ss0) (?node ?l, Some (?node ?r))"
      using len m by (simp only: grown_filled.simps filled.simps)
  qed
next
  case False
  then show thesis
    using summarize_items by (intro that) (auto simp: grow_leaf_def Let_def array_vec_def item_sum_def summarize_append)
qed

section \<open>The recursion along the right spine\<close>

lemma children_append_sum:
  "list_all (good_child T h) cs \<Longrightarrow> list_all (good_child T h) cs' \<Longrightarrow>
   it_add T (item_sum T (concat (map tree_items cs))) (item_sum T (concat (map tree_items cs'))) =
   summarize T (map node_summary (cs @ cs'))"
  using children_sum(2) [of h "cs @ cs'"] by (simp add: item_sum_append)

lemma last_child_replaced:
  fixes cs :: "('t, 's) node list"
  assumes "list_all (good_child T h) cs" "cs \<noteq> []" "length cs \<le> 2 * TREE_BASE"
    "grown T (node_height (last cs)) (tree_items (last cs) @ tree_items b) (c, sp)" "tree_items b \<noteq> []"
  defines "cs1 \<equiv> butlast cs @ [c]" and "cs2 \<equiv> (case sp of None \<Rightarrow> [] | Some t \<Rightarrow> [t])"
  shows "list_all (good_child T h) (cs1 @ cs2)" "length cs1 \<le> 2 * TREE_BASE" "length cs2 \<le> 2 * TREE_BASE"
    "concat (map tree_items (cs1 @ cs2)) = concat (map tree_items cs) @ tree_items b"
    "grown_filled (last cs) (c, sp) \<Longrightarrow> list_all filled cs \<Longrightarrow> list_all filled (cs1 @ cs2)"
proof -
  obtain ds d where cs: "cs = ds @ [d]" using assms(2) by (metis append_butlast_last_id)
  show "list_all (good_child T h) (cs1 @ cs2)" "length cs1 \<le> 2 * TREE_BASE" "length cs2 \<le> 2 * TREE_BASE"
    "concat (map tree_items (cs1 @ cs2)) = concat (map tree_items cs) @ tree_items b"
    "grown_filled (last cs) (c, sp) \<Longrightarrow> list_all filled cs \<Longrightarrow> list_all filled (cs1 @ cs2)"
    using assms(1,3-5) unfolding cs1_def cs2_def cs by (cases sp; simp add: good_child_def TREE_BASE_def)+
qed

lemma push_recursive_grown:
  assumes "wf_node T a" "wf_node T b" "node_height b \<le> node_height a" "tree_items b \<noteq> []"
  shows "\<exists>r. push_tree_recursive T a b = Some r \<and> grown T (node_height a) (tree_items a @ tree_items b) r \<and>
    (root_filled a \<longrightarrow> root_filled b \<longrightarrow> grown_filled a r)"
  using assms
proof (induction a arbitrary: b)
  case (Internal h s ss cs b)
  have cs: "cs \<noteq> []" "length cs \<le> 2 * TREE_BASE" "list_all (good_child T h) cs" and ss: "ss = map node_summary cs"
    using Internal.prems(1) by simp_all
  let ?s = "it_add T s (node_summary b)" and ?xs = "concat (map tree_items cs) @ tree_items b"
  have sum: "?s = item_sum T ?xs"
    using node_summary_eq [OF Internal.prems(1)] node_summary_eq [OF Internal.prems(2)] by (simp add: item_sum_append)
  have delta: "checked_sub h (node_height b) = Some (h - node_height b)"
    using Internal.prems(3) by (simp add: checked_sub_def)
  have grow: "\<exists>r. push_tree_recursive T (Internal h s ss cs) b = Some r \<and> grown T h ?xs r \<and>
      (root_filled (Internal h s ss cs) \<longrightarrow> root_filled b \<longrightarrow> grown_filled (Internal h s ss cs) r)"
    if eq: "push_tree_recursive T (Internal h s ss cs) b =
        grow_internal T h ?s (map node_summary cs1) cs1 (map node_summary cs2) cs2"
      and good: "list_all (good_child T h) (cs1 @ cs2)" and len: "length cs1 = length cs" "length cs2 \<le> 2 * TREE_BASE"
      and xs: "concat (map tree_items (cs1 @ cs2)) = ?xs"
      and fill: "list_all filled cs \<Longrightarrow> root_filled b \<Longrightarrow> list_all filled (cs1 @ cs2)" for cs1 cs2
  proof -
    have "cs1 \<noteq> []" "length cs1 \<le> 2 * TREE_BASE" using cs len(1) by auto
    moreover have "?s = summarize T (map node_summary (cs1 @ cs2))"
      using sum children_sum(2) [OF good] xs by simp
    ultimately obtain r where
      r: "grow_internal T h ?s (map node_summary cs1) cs1 (map node_summary cs2) cs2 = Some r"
      "grown T h (concat (map tree_items (cs1 @ cs2))) r"
      "list_all filled (cs1 @ cs2) \<Longrightarrow> grown_filled (Internal h s ss cs1) r"
      using grow_internal_grown [OF good _ _ len(2)] by metis
    have "grown_filled (Internal h s ss cs) r" if "root_filled (Internal h s ss cs)" "root_filled b"
      using r(3) fill that len(1) by (cases "(T, h, ?xs, r)" rule: grown.cases) (simp_all add: list_all_iff)
    then show ?thesis using r eq xs by simp
  qed
  consider (same) "h - node_height b = 0" | (below) "h - node_height b = 1" "\<not> is_underflowing b"
    | (deep) "h - node_height b \<noteq> 0" "\<not> (h - node_height b = 1 \<and> \<not> is_underflowing b)"
    by blast
  then have "\<exists>r. push_tree_recursive T (Internal h s ss cs) b = Some r \<and> grown T h ?xs r \<and>
      (root_filled (Internal h s ss cs) \<longrightarrow> root_filled b \<longrightarrow> grown_filled (Internal h s ss cs) r)"
  proof cases
    case same
    have "node_height b = h" "0 < h"
      using same Internal.prems(3) cs(1,3) by (auto simp: list_all_iff good_child_def neq_Nil_conv)
    then obtain s' cs' where b: "b = Internal h s' (map node_summary cs') cs'"
      using Internal.prems(2) by (cases b) auto
    show ?thesis
      by (rule grow [of cs cs']) (use b delta same ss cs Internal.prems(2) in \<open>auto simp: list_all_iff\<close>)
  next
    case below
    show ?thesis
    proof (rule grow [of cs "[b]"])
      show "list_all (good_child T h) (cs @ [b])"
        using cs Internal.prems(2,4) below by (simp add: good_child_def)
    qed (use delta below ss root_filled_not_under in \<open>auto simp: TREE_BASE_def\<close>)
  next
    case deep
    have last: "last cs \<in> set cs" "good_child T h (last cs)" using cs by (simp_all add: list_all_iff)
    obtain c sp where rec: "push_tree_recursive T (last cs) b = Some (c, sp)"
      "grown T (node_height (last cs)) (tree_items (last cs) @ tree_items b) (c, sp)"
      "root_filled (last cs) \<longrightarrow> root_filled b \<longrightarrow> grown_filled (last cs) (c, sp)"
      using Internal.IH [OF last(1) _ Internal.prems(2) _ Internal.prems(4)] last(2) deep(1) Internal.prems(3)
      by (fastforce simp: good_child_def)
    note new = last_child_replaced [OF cs(3,1,2) rec(2) Internal.prems(4)]
    show ?thesis
    proof (rule grow [OF _ new(1) _ new(3,4)])
      show "push_tree_recursive T (Internal h s ss cs) b = grow_internal T h ?s (map node_summary (butlast cs @ [c]))
          (butlast cs @ [c]) (map node_summary (case sp of None \<Rightarrow> [] | Some t \<Rightarrow> [t])) (case sp of None \<Rightarrow> [] | Some t \<Rightarrow> [t])"
        using delta deep rec(1) cs(1) ss by (cases sp) (auto simp: map_butlast)
      show "list_all filled ((butlast cs @ [c]) @ (case sp of None \<Rightarrow> [] | Some t \<Rightarrow> [t]))"
        if "list_all filled cs" "root_filled b"
        using new(5) rec(3) that last(1) filled_root by (auto simp: list_all_iff)
    qed (use cs in simp_all)
  qed
  then show ?case by simp
next
  case (Leaf s xs ss b)
  then obtain s' ys ss' where b: "b = Leaf s' ys ss'" by (cases b) (auto simp: neq_Nil_conv good_child_def)
  from grow_leaf_grown [of xs ys s ss] Leaf.prems b obtain r where
    "grow_leaf T (item_sum T xs) xs (map (it_summary T) xs) (item_sum T ys) ys (map (it_summary T) ys) = Some r"
    "grown T 0 (xs @ ys) r" "grown_filled (Leaf s xs ss) r" by auto
  then show ?case using Leaf.prems b by (simp add: item_sum_def)
qed

section \<open>Whole trees\<close>

lemma from_two_trees:
  assumes "grown T h xs (a, Some b)"
  obtains t where "from_child_trees T [a, b] = Some t" "wf_node T t" "tree_items t = xs"
    "filled a \<Longrightarrow> filled b \<Longrightarrow> root_filled t"
  using assms that [of "Internal (node_height a + 1) (summarize T (map node_summary [a, b])) (map node_summary [a, b]) [a, b]"]
  by (simp add: from_child_trees_def array_vec_def TREE_BASE_def good_child_def)

lemma no_items_iff: "wf_node T n \<Longrightarrow> no_items n \<longleftrightarrow> tree_items n = []"
  by (cases n) (use concat_items_nonempty in fastforce)+

lemma push_tree_appends:
  assumes "wf_node T a" "wf_node T b"
  shows "\<exists>t. push_tree T a b = Some t \<and> wf_node T t \<and> tree_items t = tree_items a @ tree_items b \<and>
    (root_filled a \<longrightarrow> root_filled b \<longrightarrow> root_filled t)"
  using assms
proof (induction b arbitrary: a rule: measure_induct_rule [where f = size])
  case (less b)
  show ?case
  proof (cases "tree_items b = [] \<or> node_height b \<le> node_height a")
    case True
    show ?thesis
    proof (cases "tree_items b = []")
      case True
      then show ?thesis using less.prems no_items_iff [OF less.prems(2)] by (simp add: push_tree.simps)
    next
      case False
      with True have h: "node_height b \<le> node_height a" by blast
      obtain c sp where r: "push_tree_recursive T a b = Some (c, sp)"
        "grown T (node_height a) (tree_items a @ tree_items b) (c, sp)"
        "root_filled a \<longrightarrow> root_filled b \<longrightarrow> grown_filled a (c, sp)"
        using push_recursive_grown [OF less.prems h False] by auto
      have push: "push_tree T a b = (case sp of None \<Rightarrow> Some c | Some t \<Rightarrow> from_child_trees T [c, t])"
        using False h r(1) no_items_iff [OF less.prems(2)] by (simp add: push_tree.simps)
      show ?thesis
      proof (cases sp)
        case (Some t)
        then show ?thesis using from_two_trees [of _ _ c t] r push by (metis grown_filled.simps(2) option.simps(5))
      qed (use r push in simp)
    qed
  next
    case False
    then obtain h s ss cs where b: "b = Internal h s ss cs" by (cases b) auto
    have cs: "list_all (good_child T h) cs" using less.prems(2) b by simp
    have fold: "\<exists>t. fold_m (\<lambda>tree self. push_tree T self tree) ds a = Some t \<and> wf_node T t \<and>
        tree_items t = tree_items a @ concat (map tree_items ds) \<and>
        (root_filled a \<longrightarrow> list_all filled ds \<longrightarrow> root_filled t)"
      if "set ds \<subseteq> set cs" "wf_node T a" for ds a
      using that
    proof (induction ds arbitrary: a)
      case (Cons d ds)
      have d: "d \<in> set cs" using Cons.prems by simp
      then have "size d < size b" using b by (simp add: less_Suc_eq_le trans_le_add2 size_list_estimation' [OF _ order_refl])
      moreover have "wf_node T d" using cs d by (simp add: list_all_iff good_child_def)
      ultimately obtain t where "push_tree T a d = Some t" "wf_node T t" "tree_items t = tree_items a @ tree_items d"
        "root_filled a \<longrightarrow> filled d \<longrightarrow> root_filled t"
        using less.IH Cons.prems(2) filled_root by blast
      then show ?case using Cons.IH [of t] Cons.prems(1) by auto
    qed simp
    have "push_tree T a b = fold_m (\<lambda>tree self. push_tree T self tree) cs a"
      using False b by (simp add: push_tree.simps [of T a "Internal h s ss cs"])
    moreover have "root_filled b \<longrightarrow> list_all filled cs" by (simp add: b list_all_iff)
    ultimately show ?thesis using fold [of cs a] less.prems(1) b by auto
  qed
qed

lemma singleton_leaf: "wf_node T (Leaf (it_summary T x) [x] [it_summary T x])"
  by (simp add: summarize_single ok_item TREE_BASE_def)

lemma push_appends:
  assumes "wf_node T t"
  shows "\<exists>t'. push T x t = Some t' \<and> wf_node T t' \<and> tree_items t' = tree_items t @ [x]"
proof -
  let ?leaf = "Leaf (it_summary T x) [x] [it_summary T x]"
  have "from_child_trees T [?leaf] = Some (Internal 1 (summarize T [it_summary T x]) [it_summary T x] [?leaf])"
    by (simp add: from_child_trees_def array_vec_def TREE_BASE_def)
  moreover have "wf_node T (Internal 1 (summarize T [it_summary T x]) [it_summary T x] [?leaf])"
    using singleton_leaf [of x] by (simp add: good_child_def TREE_BASE_def)
  ultimately show ?thesis using push_tree_appends [OF assms] by (fastforce simp: push_def)
qed

text \<open>The loop of \<open>extend\<close> keeps the pending items in a leaf of their own.\<close>

lemma extend_item_step:
  assumes "wf_node T t" "pending_ok T leaf"
  shows "\<exists>t' leaf'. extend_item T x (t, leaf) = Some (t', leaf') \<and> wf_node T t' \<and> pending_ok T leaf' \<and>
    leaf' \<noteq> None \<and> tree_items t' @ pending leaf' = tree_items t @ pending leaf @ [x] \<and>
    (root_filled t \<longrightarrow> root_filled t')"
proof -
  have single: "pending_ok T (Some (it_add T (it_zero T) (it_summary T x), [x], [it_summary T x]))"
    by (simp add: pending_ok_def item_sum_def summarize_def TREE_BASE_def)
  show ?thesis
  proof (cases "\<exists>s xs ss. leaf = Some (s, xs, ss) \<and> length xs = 2 * TREE_BASE")
    case True
    then obtain s xs ss where leaf: "leaf = Some (s, xs, ss)" "length xs = 2 * TREE_BASE" by blast
    then have "wf_node T (Leaf s xs ss)" using assms(2) by (simp add: pending_ok_def item_sum_def)
    from push_tree_appends [OF assms(1) this] obtain t' where
      "push_tree T t (Leaf s xs ss) = Some t'" "wf_node T t'" "tree_items t' = tree_items t @ xs"
      "root_filled t \<longrightarrow> root_filled t'" by auto
    then show ?thesis using leaf single by (simp add: extend_item_def array_vec_def pending_def TREE_BASE_def)
  next
    case False
    show ?thesis
    proof (cases leaf)
      case None
      then show ?thesis using assms(1) single by (simp add: extend_item_def array_vec_def pending_def TREE_BASE_def)
    next
      case (Some l)
      obtain s xs ss where l: "l = (s, xs, ss)" by (cases l)
      have "length xs < 2 * TREE_BASE" using False assms(2) Some l by (auto simp: pending_ok_def)
      moreover have "it_add T (item_sum T xs) (it_summary T x) = item_sum T (xs @ [x])"
        by (simp add: item_sum_def summarize_def)
      ultimately show ?thesis
        using assms Some l by (simp add: extend_item_def array_vec_def pending_def pending_ok_def)
    qed
  qed
qed

lemma extend_loop:
  assumes "wf_node T t" "pending_ok T leaf"
  shows "\<exists>t' leaf'. fold_m (extend_item T) xs (t, leaf) = Some (t', leaf') \<and> wf_node T t' \<and> pending_ok T leaf' \<and>
    tree_items t' @ pending leaf' = tree_items t @ pending leaf @ xs \<and> (root_filled t \<longrightarrow> root_filled t')"
  using assms
proof (induction xs arbitrary: t leaf)
  case (Cons x xs)
  obtain t1 leaf1 where "extend_item T x (t, leaf) = Some (t1, leaf1)" "wf_node T t1" "pending_ok T leaf1"
    "tree_items t1 @ pending leaf1 = tree_items t @ pending leaf @ [x]" "root_filled t \<longrightarrow> root_filled t1"
    using extend_item_step [OF Cons.prems] by blast
  then show ?case using Cons.IH [of t1 leaf1] by (fastforce simp flip: append_assoc)
qed simp

lemma extend_appends:
  assumes "wf_node T t"
  shows "\<exists>t'. tree_extend T xs t = Some t' \<and> wf_node T t' \<and> tree_items t' = tree_items t @ xs \<and>
    (root_filled t \<longrightarrow> root_filled t')"
proof -
  obtain t1 leaf where loop: "fold_m (extend_item T) xs (t, None) = Some (t1, leaf)" "wf_node T t1" "pending_ok T leaf"
    "tree_items t1 @ pending leaf = tree_items t @ xs" "root_filled t \<longrightarrow> root_filled t1"
    using extend_loop [OF assms, of None xs] by (auto simp: pending_ok_def pending_def)
  show ?thesis
  proof (cases leaf)
    case None
    then show ?thesis using loop by (simp add: tree_extend_def pending_def)
  next
    case (Some l)
    obtain s ys ss where l: "l = (s, ys, ss)" by (cases l)
    have "wf_node T (Leaf s ys ss)" using loop(3) Some l by (simp add: pending_ok_def item_sum_def)
    from push_tree_appends [OF loop(2) this] loop Some l show ?thesis by (auto simp: tree_extend_def pending_def)
  qed
qed

lemma update_last_leaf:
  assumes "wf_node T t" "tree_items t \<noteq> []"
  shows "\<exists>t'. update_last_leaf_recursive T f t = Some t' \<and> wf_node T t' \<and> node_height t' = node_height t \<and>
    tree_items t' = butlast (tree_items t) @ [f (last (tree_items t))] \<and>
    (filled t \<longrightarrow> filled t') \<and> (root_filled t \<longrightarrow> root_filled t')"
  using assms
proof (induction t)
  case (Internal h s ss cs)
  then obtain ds d where cs: "cs = ds @ [d]" by (metis append_butlast_last_id wf_Internal)
  have d: "wf_node T d" "Suc (node_height d) = h" "tree_items d \<noteq> []" and ss: "ss = map node_summary cs"
    using Internal.prems(1) cs by (simp_all add: good_child_def)
  obtain d' where d': "update_last_leaf_recursive T f d = Some d'" "wf_node T d'" "node_height d' = node_height d"
    "tree_items d' = butlast (tree_items d) @ [f (last (tree_items d))]" "filled d \<longrightarrow> filled d'"
    using Internal.IH [of d] d cs by auto
  have "update_last_leaf_recursive T f (Internal h s ss cs) =
      Some (Internal h (summarize T (map node_summary (ds @ [d']))) (map node_summary (ds @ [d'])) (ds @ [d']))"
    using d'(1) cs ss by (simp add: Let_def)
  moreover have "wf_node T (Internal h (summarize T (map node_summary (ds @ [d']))) (map node_summary (ds @ [d'])) (ds @ [d']))"
    using Internal.prems(1) cs d d' by (simp add: good_child_def)
  ultimately show ?case using cs d d' by (auto simp: butlast_append)
next
  case (Leaf s xs ss)
  then show ?case by (cases xs rule: rev_cases) (simp_all add: Let_def)
qed

lemma update_last_replaces:
  assumes "wf_node T t"
  shows "\<exists>t'. update_last T f t = Some t' \<and> wf_node T t' \<and> (root_filled t \<longrightarrow> root_filled t') \<and>
    tree_items t' = (if tree_items t = [] then [] else butlast (tree_items t) @ [f (last (tree_items t))])"
proof (cases "tree_items t = []")
  case True
  then have "tree_is_empty t" using no_items_iff [OF assms] by (cases t) simp_all
  then show ?thesis using assms True by (simp add: update_last_def)
next
  case False
  then have "\<not> tree_is_empty t" using no_items_iff [OF assms] by (cases t) simp_all
  then show ?thesis using update_last_leaf [OF assms False] False by (auto simp: update_last_def)
qed

end

section \<open>The height\<close>

lemma concat_items_bound:
  "(\<And>c. c \<in> set cs \<Longrightarrow> n \<le> length (tree_items c)) \<Longrightarrow> length cs * n \<le> length (concat (map tree_items cs))"
  by (induction cs) (simp_all add: add_mono)

lemma filled_items: "wf_node T n \<Longrightarrow> filled n \<Longrightarrow> TREE_BASE ^ Suc (node_height n) \<le> length (tree_items n)"
proof (induction n)
  case (Internal h s ss cs)
  have "TREE_BASE * TREE_BASE ^ h \<le> length cs * TREE_BASE ^ h" using Internal.prems(2) by simp
  also have "\<dots> \<le> length (concat (map tree_items cs))"
    using Internal by (intro concat_items_bound) (auto simp: list_all_iff good_child_def)
  finally show ?case by simp
qed simp

lemma root_filled_items:
  assumes "wf_node T n" "root_filled n" "0 < node_height n"
  shows "2 * TREE_BASE ^ node_height n \<le> length (tree_items n)"
proof (cases n)
  case (Internal h s ss cs)
  have "2 * TREE_BASE ^ h \<le> length cs * TREE_BASE ^ h" using assms(2) Internal by simp
  also have "\<dots> \<le> length (concat (map tree_items cs))"
    using filled_items [of T] assms Internal by (intro concat_items_bound) (fastforce simp: list_all_iff good_child_def)
  finally show ?thesis using Internal by simp
qed (use assms in simp)

section \<open>Leaves\<close>

fun leaf_count :: "('t, 's) node \<Rightarrow> nat" where
  "leaf_count (Leaf s xs ss) = 1"
| "leaf_count (Internal h s ss cs) = sum_list (map leaf_count cs)"

definition leaf_total :: "('t, 's) node \<times> ('t, 's) node option \<Rightarrow> nat" where
  "leaf_total r = leaf_count (fst r) + (case snd r of None \<Rightarrow> 0 | Some t \<Rightarrow> leaf_count t)"

lemma grow_internal_leaves:
  assumes "grow_internal T h s ss cs ss' cs' = Some r"
  shows "leaf_total r = sum_list (map leaf_count (cs @ cs'))"
proof -
  have split: "sum_list (map leaf_count (take n ds)) + sum_list (map leaf_count (drop n ds)) = sum_list (map leaf_count ds)"
    for n and ds :: "('a, 'b) node list"
    by (metis append_take_drop_id map_append sum_list.append)
  show ?thesis
    using assms split [of _ "cs @ cs'"]
    by (auto simp: grow_internal_def Let_def array_vec_def leaf_total_def split: if_splits Option.bind_splits
        simp del: take_append drop_append)
qed

text \<open>A tree with internal nodes never merges leaves.\<close>

lemma push_recursive_leaves:
  assumes "push_tree_recursive T a b = Some r" "wf_node T a" "0 < node_height b" "node_height b \<le> node_height a"
  shows "leaf_total r = leaf_count a + leaf_count b"
  using assms
proof (induction a arbitrary: r)
  case (Internal h s ss cs)
  obtain ds d where cs: "cs = ds @ [d]" using Internal.prems(2) by (metis append_butlast_last_id wf_Internal)
  have d: "wf_node T d" "Suc (node_height d) = h" using Internal.prems(2) cs by (simp_all add: good_child_def)
  have delta: "checked_sub h (node_height b) = Some (h - node_height b)"
    using Internal.prems(4) by (simp add: checked_sub_def)
  consider (same) "h - node_height b = 0" | (below) "h - node_height b = 1" "\<not> is_underflowing b"
    | (deep) "h - node_height b \<noteq> 0" "\<not> (h - node_height b = 1 \<and> \<not> is_underflowing b)"
    by blast
  then show ?case
  proof cases
    case same
    then obtain ss' cs' where "grow_internal T h (it_add T s (node_summary b)) ss cs ss' cs' = Some r" "leaf_count b = sum_list (map leaf_count cs')"
      using Internal.prems(1,3) delta by (cases b) auto
    then show ?thesis using grow_internal_leaves by fastforce
  next
    case below
    then have "grow_internal T h (it_add T s (node_summary b)) ss cs [node_summary b] [b] = Some r"
      using Internal.prems(1) delta by simp
    from grow_internal_leaves [OF this] show ?thesis by simp
  next
    case deep
    then obtain c sp ss1 ss2 where rec: "push_tree_recursive T d b = Some (c, sp)"
      and r: "grow_internal T h (it_add T s (node_summary b)) ss1 (ds @ [c]) ss2 (case sp of None \<Rightarrow> [] | Some t \<Rightarrow> [t]) = Some r"
      using Internal.prems(1) delta cs by (auto split: Option.bind_splits if_splits)
    have "leaf_total (c, sp) = leaf_count d + leaf_count b"
      using Internal.IH [OF _ rec d(1) Internal.prems(3)] cs d(2) deep(1) by auto
    then show ?thesis using grow_internal_leaves [OF r] cs by (cases sp) (simp_all add: leaf_total_def)
  qed
qed simp

lemma push_leaves:
  assumes "push T x t = Some t'" "wf_node T t" "0 < node_height t"
  shows "leaf_count t' = leaf_count t + 1"
proof -
  let ?leaf = "Leaf (it_summary T x) [x] [it_summary T x]"
  define one where "one = Internal 1 (summarize T [it_summary T x]) [it_summary T x] [?leaf]"
  have one: "\<not> no_items one" "node_height one = 1" "leaf_count one = 1" by (simp_all add: one_def)
  have "push_tree T t one = Some t'"
    using assms(1) by (simp add: push_def from_child_trees_def array_vec_def TREE_BASE_def one_def)
  then obtain a sp where r: "push_tree_recursive T t one = Some (a, sp)"
    "(case sp of None \<Rightarrow> Some a | Some u \<Rightarrow> from_child_trees T [a, u]) = Some t'"
    using assms(3) one by (auto simp: push_tree.simps [of T t one] split: Option.bind_splits)
  have "leaf_total (a, sp) = leaf_count t + 1"
    using push_recursive_leaves [OF r(1) assms(2)] assms(3) one by simp
  then show ?thesis
    using r(2) by (auto simp: leaf_total_def from_child_trees_def array_vec_def split: option.splits if_splits)
qed

section \<open>What the operations guarantee\<close>

text \<open>C35: for summaries that form a monoid, pushing one well-formed tree onto another never
  panics and gives a well-formed tree (balanced, at most twelve children per node, every
  cached summary the sum of the items below it) with the items of both in order; if
  every node but the root was at least half full, that is still so.\<close>

theorem push_tree_correct:
  assumes "summary_laws T ok" "wf_node T a" "wf_node T b"
  shows "\<exists>t. push_tree T a b = Some t \<and> wf_node T t \<and> tree_items t = tree_items a @ tree_items b \<and>
           node_summary t = item_sum T (tree_items a @ tree_items b) \<and>
           (root_filled a \<and> root_filled b \<longrightarrow> root_filled t)"
  using summary_laws.push_tree_appends [OF assms] summary_laws.node_summary_eq [OF assms(1)] by metis

definition count_ops :: "(nat, nat) item_ops" where
  "count_ops = \<lparr>it_summary = (\<lambda>x. x), it_add = (+), it_zero = 0\<rparr>"

interpretation count: summary_laws count_ops "\<lambda>_. True"
  by unfold_locales (simp_all add: count_ops_def)

theorem push_tree_correct_witness:
  "\<exists>t. push_tree count_ops (Leaf 3 [1, 2] [1, 2]) (Leaf 5 [5] [5]) = Some t \<and> tree_items t = [1, 2, 5] \<and> node_summary t = 8"
proof -
  have "summary_laws count_ops (\<lambda>_. True)" by (rule count.summary_laws_axioms)
  moreover have "wf_node count_ops (Leaf 3 [1, 2] [1, 2])" "wf_node count_ops (Leaf 5 [5] [5])"
    by (simp_all add: count_ops_def summarize_def TREE_BASE_def)
  ultimately show ?thesis
    using push_tree_correct [of count_ops _ "Leaf 3 [1, 2] [1, 2]" "Leaf 5 [5] [5]"]
    by (fastforce simp: item_sum_def summarize_def count_ops_def)
qed

lemma new_tree: "wf_node T (tree_new T)" "tree_items (tree_new T) = []" "root_filled (tree_new T)"
  by (simp_all add: tree_new_def summarize_def)

text \<open>a tree built from a sequence of items holds exactly these items and stays shallow:
  a tree of height \<open>h > 0\<close> holds at least \<open>2 * 6 ^ h\<close> items.\<close>

theorem extend_builds_shallow_tree:
  assumes "summary_laws T ok"
  shows "\<exists>t. tree_extend T xs (tree_new T) = Some t \<and> wf_node T t \<and> tree_items t = xs \<and>
           (node_height t = 0 \<or> 2 * 6 ^ node_height t \<le> length xs)"
proof -
  from summary_laws.extend_appends [OF assms new_tree(1)] obtain t where
    t: "tree_extend T xs (tree_new T) = Some t" "wf_node T t" "tree_items t = xs" "root_filled t"
    using new_tree(2,3) [of T] by auto
  then show ?thesis using root_filled_items [OF t(2,4)] by (auto simp: TREE_BASE_def)
qed

theorem extend_builds_shallow_tree_witness:
  "\<exists>t. tree_extend count_ops (replicate 40 1) (tree_new count_ops) = Some t \<and> wf_node count_ops t \<and>
     tree_items t = replicate 40 1 \<and> (node_height t = 0 \<or> 2 * 6 ^ node_height t \<le> length (replicate 40 (1::nat)))"
  by (rule extend_builds_shallow_tree [OF count.summary_laws_axioms])

text \<open>on a tree with internal nodes every single push adds a leaf of its own, however empty
  the leaves already are.\<close>

theorem push_never_fills_leaves:
  assumes "summary_laws T ok" "wf_node T t" "0 < node_height t"
  shows "\<exists>t'. push T x t = Some t' \<and> tree_items t' = tree_items t @ [x] \<and> leaf_count t' = leaf_count t + 1"
  using summary_laws.push_appends [OF assms(1,2)] push_leaves [OF _ assms(2,3)] by metis

theorem push_never_fills_leaves_witness:
  "\<exists>t'. push count_ops 4 (Internal 1 3 [3] [Leaf 3 [3] [3]]) = Some t' \<and> tree_items t' = [3, 4] \<and> leaf_count t' = Suc 1"
  using push_never_fills_leaves [OF count.summary_laws_axioms, of "Internal 1 3 [3] [Leaf 3 [3] [3]]" 4]
  by (simp add: good_child_def count_ops_def summarize_def TREE_BASE_def)

end
