(* ===== verification/Sum_Cursor_Correct.thy ===== *)
theory Sum_Cursor_Correct
  imports Sum_Cursor Sum_Tree_Correct
begin

text \<open>
  The cursor as a position in the list of items.  \<open>cursor_at\<close> relates a cursor to the items
  before and after it; seeking, slicing, summing and stepping move that position the way
  the list operation \<open>skipped\<close> says, provided the sought dimension never decreases along
  the items.
\<close>

section \<open>Positions along a dimension\<close>

definition advance :: "('d, 's) dimension \<Rightarrow> ('t, 's) item_ops \<Rightarrow> 'd \<Rightarrow> 't list \<Rightarrow> 'd" where
  "advance D T d xs = foldl (dim_add D) d (map (it_summary T) xs)"

lemma advance_simps [simp]:
  "advance D T d [] = d" "advance D T d (x # xs) = advance D T (dim_add D d (it_summary T x)) xs"
  "advance D T d (xs @ ys) = advance D T (advance D T d xs) ys"
  by (simp_all add: advance_def)

text \<open>The dimension does not decrease along the items.\<close>

fun climbs :: "('d::linorder, 's) dimension \<Rightarrow> ('t, 's) item_ops \<Rightarrow> 'd \<Rightarrow> 't list \<Rightarrow> bool" where
  "climbs D T d [] \<longleftrightarrow> True"
| "climbs D T d (x # xs) \<longleftrightarrow> d \<le> dim_add D d (it_summary T x) \<and> climbs D T (dim_add D d (it_summary T x)) xs"

text \<open>The items that end before the target.\<close>

fun skipped :: "('d::linorder, 's) dimension \<Rightarrow> ('t, 's) item_ops \<Rightarrow> seek_bias \<Rightarrow> 'd \<Rightarrow> 'd \<Rightarrow> 't list \<Rightarrow> 't list" where
  "skipped D T bias target d [] = []"
| "skipped D T bias target d (x # xs) =
     (let e = dim_add D d (it_summary T x)
      in if beyond bias target e then x # skipped D T bias target e xs else [])"

lemma climbs_append [simp]: "climbs D T d (xs @ ys) \<longleftrightarrow> climbs D T d xs \<and> climbs D T (advance D T d xs) ys"
  by (induction xs arbitrary: d) auto

lemma climbs_le: "climbs D T d xs \<Longrightarrow> d \<le> advance D T d xs"
  by (induction xs arbitrary: d) (auto intro: order_trans)

lemma beyond_mono: "beyond bias target e \<Longrightarrow> d \<le> e \<Longrightarrow> beyond bias target d"
  by (auto simp: beyond_def)

lemma skipped_all: "climbs D T d xs \<Longrightarrow> beyond bias target (advance D T d xs) \<Longrightarrow> skipped D T bias target d xs = xs"
  by (induction xs arbitrary: d) (auto simp: Let_def dest: beyond_mono climbs_le)

lemma skipped_append:
  "skipped D T bias target d (xs @ ys) =
     (if skipped D T bias target d xs = xs then xs @ skipped D T bias target (advance D T d xs) ys
      else skipped D T bias target d xs)"
  by (induction xs arbitrary: d) (auto simp: Let_def)

lemma skipped_prefix: "\<exists>ys. xs = skipped D T bias target d xs @ ys"
  by (induction xs arbitrary: d) (auto simp: Let_def)

lemma skipped_stop:
  "xs \<noteq> [] \<Longrightarrow> \<not> beyond bias target (advance D T d xs) \<Longrightarrow> skipped D T bias target d xs \<noteq> xs"
proof (induction xs arbitrary: d)
  case (Cons x xs)
  then show ?case by (cases xs) (auto simp: Let_def)
qed simp

section \<open>Laws of dimensions\<close>

locale dimension_laws = summary_laws T ok
  for T :: "('t, 's) item_ops" and ok :: "'s \<Rightarrow> bool" +
  fixes D :: "('d, 's) dimension" and dok :: "'d \<Rightarrow> bool"
  assumes dok_default: "dok (dim_default D)"
    and dok_add: "dok d \<Longrightarrow> ok a \<Longrightarrow> dok (dim_add D d a)"
    and dim_add_add: "dok d \<Longrightarrow> ok a \<Longrightarrow> ok b \<Longrightarrow> dim_add D (dim_add D d a) b = dim_add D d (it_add T a b)"
    and dim_add_zero: "dok d \<Longrightarrow> dim_add D d (it_zero T) = d"
begin

lemma dok_advance: "dok d \<Longrightarrow> dok (advance D T d xs)"
  by (induction xs arbitrary: d) (simp_all add: dok_add ok_item)

lemma dim_add_item_sum: "dok d \<Longrightarrow> dim_add D d (item_sum T xs) = advance D T d xs"
proof (induction xs arbitrary: d)
  case (Cons x xs)
  have "item_sum T (x # xs) = it_add T (it_summary T x) (item_sum T xs)"
    using item_sum_append [of "[x]" xs] by (simp add: item_sum_def summarize_single ok_item)
  then show ?case
    using Cons by (simp add: dok_add ok_item flip: dim_add_add [OF Cons.prems ok_item ok_item_sum])
qed (simp add: item_sum_def summarize_def dim_add_zero)

lemma dim_add_node: "dok d \<Longrightarrow> wf_node T n \<Longrightarrow> dim_add D d (node_summary n) = advance D T d (tree_items n)"
  by (simp add: node_summary_eq dim_add_item_sum)

end

text \<open>What a seek relies on: the laws of the sought, the summed and the aggregated dimension.\<close>

locale seek_laws =
  seek: dimension_laws T ok D dok + sum: dimension_laws T ok U uok + agg: dimension_laws T ok A aok
  for T :: "('t, 's) item_ops" and ok :: "'s \<Rightarrow> bool"
    and D :: "('d::linorder, 's) dimension" and dok :: "'d \<Rightarrow> bool"
    and U :: "('u, 's) dimension" and uok :: "'u \<Rightarrow> bool"
    and A :: "('a, 's) dimension" and aok :: "'a \<Rightarrow> bool"

section \<open>Aggregates\<close>

text \<open>What an aggregate has become after the items \<open>xs\<close> were passed.\<close>

fun agg_rel ::
    "('t, 's) item_ops \<Rightarrow> ('a, 's) dimension \<Rightarrow> ('t, 's, 'a) seek_aggregate \<Rightarrow> 't list \<Rightarrow> ('t, 's, 'a) seek_aggregate \<Rightarrow> bool" where
  "agg_rel T A AggNone xs agg \<longleftrightarrow> agg = AggNone"
| "agg_rel T A (AggSlice t) xs agg \<longleftrightarrow>
     (\<exists>t'. agg = AggSlice t' \<and> wf_node T t' \<and> tree_items t' = tree_items t @ xs)"
| "agg_rel T A (AggSummary a) xs agg \<longleftrightarrow> agg = AggSummary (advance A T a xs)"

fun agg_wf :: "('t, 's) item_ops \<Rightarrow> ('a \<Rightarrow> bool) \<Rightarrow> ('t, 's, 'a) seek_aggregate \<Rightarrow> bool" where
  "agg_wf T aok AggNone \<longleftrightarrow> True"
| "agg_wf T aok (AggSlice t) \<longleftrightarrow> wf_node T t"
| "agg_wf T aok (AggSummary a) \<longleftrightarrow> aok a"

lemma agg_rel_trans: "agg_rel T A a xs b \<Longrightarrow> agg_rel T A b ys c \<Longrightarrow> agg_rel T A a (xs @ ys) c"
  by (cases a) auto

lemma agg_rel_Nil: "agg_wf T aok a \<Longrightarrow> agg_rel T A a [] a"
  by (cases a) auto

definition agg_items ::
    "('t, 's) item_ops \<Rightarrow> ('a, 's) dimension \<Rightarrow> 't list \<Rightarrow> ('t, 's, 'a) seek_aggregate \<times> ('t, 's) slice_leaf
       \<Rightarrow> ('t, 's, 'a) seek_aggregate \<times> ('t, 's) slice_leaf" where
  "agg_items T A xs acc = fold (\<lambda>x. agg_item T A x (it_summary T x)) xs acc"

lemma agg_items_simps [simp]:
  "agg_items T A [] acc = acc" "agg_items T A (x # xs) acc = agg_items T A xs (agg_item T A x (it_summary T x) acc)"
  by (simp_all add: agg_items_def)

lemma agg_items_eq:
  "agg_items T A xs (AggNone, s, ys, ss) = (AggNone, s, ys, ss)"
  "agg_items T A xs (AggSummary a, s, ys, ss) = (AggSummary (advance A T a xs), s, ys, ss)"
  "agg_items T A xs (AggSlice t, s, ys, ss) =
     (AggSlice t, foldl (it_add T) s (map (it_summary T) xs), ys @ xs, ss @ map (it_summary T) xs)"
  by (induction xs arbitrary: a s ys ss) (simp_all add: agg_item_def)

context seek_laws
begin

lemma agg_rel_wf: "agg_wf T aok a \<Longrightarrow> agg_rel T A a xs b \<Longrightarrow> agg_wf T aok b"
  by (cases a) (auto simp: agg.dok_advance)

lemma agg_child_rel:
  assumes "agg_wf T aok agg" "wf_node T c"
  obtains agg' where "agg_child T A c (node_summary c) agg = Some agg'" "agg_rel T A agg (tree_items c) agg'"
    "agg_wf T aok agg'"
proof (cases agg)
  case (AggSlice t)
  then show ?thesis
    using seek.push_tree_appends [OF _ assms(2), of t] assms(1) that by (auto simp: agg_child_def)
qed (use assms that agg.dim_add_node agg.dok_advance in \<open>auto simp: agg_child_def\<close>)

lemma agg_flush_rel:
  assumes "agg_wf T aok agg" "length xs \<le> 2 * TREE_BASE"
  shows "\<exists>agg'. agg_flush T (agg_items T A xs (agg, it_zero T, [], [])) = Some agg' \<and> agg_rel T A agg xs agg'"
proof (cases agg)
  case (AggSlice t)
  have leaf: "wf_node T (Leaf (summarize T (map (it_summary T) xs)) xs (map (it_summary T) xs))" using assms(2) by simp
  have "wf_node T t" using assms(1) AggSlice by simp
  from seek.push_tree_appends [OF this leaf] show ?thesis
    using AggSlice assms by (cases "xs = []") (auto simp: agg_items_eq agg_flush_def array_vec_def summarize_def)
qed (simp_all add: agg_items_eq agg_flush_def)

section \<open>Scanning one node\<close>

lemma scan_step:
  assumes "good_child T h c" "dok d" "uok u"
  shows "dim_add D d (node_summary c) = advance D T d (tree_items c)"
    "dim_add U u (node_summary c) = advance U T u (tree_items c)"
    "dok (advance D T d (tree_items c))" "uok (advance U T u (tree_items c))"
  using assms by (simp_all add: good_child_def seek.dim_add_node sum.dim_add_node seek.dok_advance sum.dok_advance)

lemma resume_children_scan:
  assumes "list_all (good_child T h) cs" "dok d" "uok u" "agg_wf T aok agg"
  shows "\<exists>ls rs agg'. cs = ls @ rs \<and> agg_rel T A agg (concat (map tree_items ls)) agg' \<and>
    (ls \<noteq> [] \<longrightarrow> beyond bias target (advance D T d (concat (map tree_items ls)))) \<and>
    resume_children T D U A bias False target n (zip cs (map node_summary cs)) i d u agg =
      Some (i + length ls, advance D T d (concat (map tree_items ls)), advance U T u (concat (map tree_items ls)), agg',
            case rs of [] \<Rightarrow> None | c # _ \<Rightarrow> Some c) \<and>
    (case rs of [] \<Rightarrow> True | c # _ \<Rightarrow> \<not> beyond bias target (advance D T d (concat (map tree_items (ls @ [c])))))"
  using assms
proof (induction cs arbitrary: i d u agg)
  case Nil
  then show ?case by (simp add: agg_rel_Nil)
next
  case (Cons c cs)
  have c: "good_child T h c" "wf_node T c" and rest: "list_all (good_child T h) cs"
    using Cons.prems(1) by (auto simp: good_child_def list_all_iff)
  note step = scan_step [OF c(1) Cons.prems(2,3)]
  show ?case
  proof (cases "beyond bias target (advance D T d (tree_items c))")
    case True
    obtain agg1 where agg1: "agg_child T A c (node_summary c) agg = Some agg1" "agg_rel T A agg (tree_items c) agg1"
      "agg_wf T aok agg1" by (rule agg_child_rel [OF Cons.prems(4) c(2)])
    obtain ls rs agg' where IH: "cs = ls @ rs" "agg_rel T A agg1 (concat (map tree_items ls)) agg'"
      "ls \<noteq> [] \<longrightarrow> beyond bias target (advance D T (advance D T d (tree_items c)) (concat (map tree_items ls)))"
      "resume_children T D U A bias False target n (zip cs (map node_summary cs)) (i + 1)
          (advance D T d (tree_items c)) (advance U T u (tree_items c)) agg1 =
        Some (i + 1 + length ls, advance D T (advance D T d (tree_items c)) (concat (map tree_items ls)),
              advance U T (advance U T u (tree_items c)) (concat (map tree_items ls)), agg',
              case rs of [] \<Rightarrow> None | c # _ \<Rightarrow> Some c)"
      "case rs of [] \<Rightarrow> True | r # _ \<Rightarrow>
         \<not> beyond bias target (advance D T (advance D T d (tree_items c)) (concat (map tree_items (ls @ [r]))))"
      using Cons.IH [OF rest step(3,4) agg1(3), of "i + 1"] by blast
    show ?thesis
      using True agg1 IH step by (intro exI [of _ "c # ls"] exI [of _ rs] exI [of _ agg'])
        (auto simp: beyond_clamped_def agg_rel_trans split: list.splits)
  next
    case False
    then show ?thesis
      using step agg_rel_Nil [OF Cons.prems(4)] by (intro exI [of _ "[]"] exI [of _ "c # cs"] exI [of _ agg])
        (simp add: beyond_clamped_def)
  qed
qed

text \<open>With exact sums, the extra care of the descent for the last child changes nothing.\<close>

lemma seek_children_resume:
  assumes "list_all (good_child T h) cs" "dok d" "uok u" "agg_wf T aok agg" "climbs D T d (concat (map tree_items cs))"
    "n = i + length cs" "m = advance D T d (concat (map tree_items cs))" "at_root \<or> \<not> beyond bias target m"
  shows "seek_children T D U A bias False target m at_root n (zip cs (map node_summary cs)) i d u agg =
    map_option (\<lambda>(j, d, u, agg, child). (d, u, agg, map_option (\<lambda>c. (j, c, False)) child))
      (resume_children T D U A bias False target n (zip cs (map node_summary cs)) i d u agg)"
  using assms
proof (induction cs arbitrary: i d u agg)
  case (Cons c cs)
  have c: "good_child T h c" "wf_node T c" using Cons.prems(1) by (simp_all add: good_child_def)
  note step = scan_step [OF c(1) Cons.prems(2,3)]
  obtain agg1 where agg1: "agg_child T A c (node_summary c) agg = Some agg1" "agg_wf T aok agg1"
    by (rule agg_child_rel [OF Cons.prems(4) c(2)])
  have e: "(if i = n - 1 then max (advance D T d (tree_items c)) m else advance D T d (tree_items c)) =
      advance D T d (tree_items c)"
    using Cons.prems(6,7) by (cases cs) auto
  have "seek_children T D U A bias False target m at_root n (zip cs (map node_summary cs)) (i + 1)
      (advance D T d (tree_items c)) (advance U T u (tree_items c)) agg1 =
    map_option (\<lambda>(j, d, u, agg, child). (d, u, agg, map_option (\<lambda>c. (j, c, False)) child))
      (resume_children T D U A bias False target n (zip cs (map node_summary cs)) (i + 1)
        (advance D T d (tree_items c)) (advance U T u (tree_items c)) agg1)"
    using Cons.prems step agg1 by (intro Cons.IH) simp_all
  moreover have "at_root \<or> i \<noteq> n - 1" if "beyond bias target (advance D T d (tree_items c))"
    using Cons.prems(6-8) that by (cases cs) auto
  ultimately show ?case
    using step(1,2) agg1(1)
    by (cases "beyond bias target (advance D T d (tree_items c))")
       (simp_all only: list.map zip_Cons_Cons seek_children.simps resume_children.simps Let_def e beyond_clamped_def
          simp_thms if_True if_False bind.bind_lunit option.map prod.case)
qed simp

lemma resume_items_scan:
  "resume_items T D U A bias False target n (zip xs (map (it_summary T) xs)) i d u acc =
     (let ys = skipped D T bias target d xs
      in (i + length ys, advance D T d ys, advance U T u ys, agg_items T A ys acc, ys \<noteq> xs))"
  by (induction xs arbitrary: i d u acc) (auto simp: Let_def beyond_clamped_def)

lemma seek_items_scan:
  assumes "climbs D T d xs" "n = i + length xs" "m = advance D T d xs" "at_root \<or> \<not> beyond bias target m"
  shows "seek_items T D U A bias False target m at_root n (zip xs (map (it_summary T) xs)) i d u acc =
     (let ys = skipped D T bias target d xs
      in (advance D T d ys, advance U T u ys, agg_items T A ys acc,
          if ys = xs then None else Some (i + length ys, False)))"
  using assms
proof (induction xs arbitrary: i d u acc)
  case (Cons x xs)
  let ?e = "dim_add D d (it_summary T x)"
  have e: "(if i = n - 1 then max ?e m else ?e) = ?e" using Cons.prems(2,3) by (cases xs) auto
  have "at_root \<or> i \<noteq> n - 1" if "beyond bias target ?e" using Cons.prems that by (cases xs) auto
  moreover note Cons.IH [of ?e "i + 1" "dim_add U u (it_summary T x)" "agg_item T A x (it_summary T x) acc"]
  ultimately show ?case
    using Cons.prems by (cases "beyond bias target ?e")
      (simp_all only: list.map zip_Cons_Cons seek_items.simps Let_def e beyond_clamped_def skipped.simps, simp_all)
qed simp

end

section \<open>The stack\<close>

text \<open>The items after the cursor, from the top of the stack to the root.\<close>

fun items_right :: "('t, 's, 'd, 'u) stack_entry list \<Rightarrow> 't list" where
  "items_right [] = []"
| "items_right (e # es) =
     (case en_tree e of
        Internal h s ss cs \<Rightarrow> concat (map tree_items (drop (Suc (en_index e)) cs))
      | Leaf s xs ss \<Rightarrow> []) @ items_right es"

definition items_from :: "('t, 's, 'd, 'u) stack_entry list \<Rightarrow> 't list" where
  "items_from st =
     (case st of
        [] \<Rightarrow> []
      | e # es \<Rightarrow>
          (case en_tree e of Leaf s xs ss \<Rightarrow> drop (en_index e) xs | Internal h s ss cs \<Rightarrow> []) @ items_right es)"

fun parents_ok :: "('t, 's) item_ops \<Rightarrow> ('t, 's, 'd, 'u) stack_entry list \<Rightarrow> bool" where
  "parents_ok T [] \<longleftrightarrow> True"
| "parents_ok T (e # es) \<longleftrightarrow>
     \<not> is_leaf (en_tree e) \<and> wf_node T (en_tree e) \<and> en_index e < length (node_child_summaries (en_tree e)) \<and>
     length es + node_height (en_tree e) < 16 \<and> parents_ok T es"

definition stack_ok :: "('t, 's) item_ops \<Rightarrow> ('t, 's, 'd, 'u) stack_entry list \<Rightarrow> bool" where
  "stack_ok T st \<longleftrightarrow>
     (case st of
        [] \<Rightarrow> True
      | e # es \<Rightarrow> is_leaf (en_tree e) \<and> wf_node T (en_tree e) \<and>
          en_index e < length (node_child_summaries (en_tree e)) \<and> length es < 16 \<and> parents_ok T es)"

definition cursor_at ::
    "('t, 's) item_ops \<Rightarrow> ('d, 's) dimension \<Rightarrow> ('u, 's) dimension \<Rightarrow> ('t, 's, 'd, 'u) cursor \<Rightarrow> 't list \<Rightarrow> 't list \<Rightarrow> bool" where
  "cursor_at T D U c pre post \<longleftrightarrow>
     cu_did_seek c \<and> wf_node T (cu_tree c) \<and> tree_items (cu_tree c) = pre @ post \<and>
     cu_seek c = advance D T (dim_default D) pre \<and> cu_sum c = advance U T (dim_default U) pre \<and>
     stack_ok T (cu_stack c) \<and> items_from (cu_stack c) = post \<and> cu_at_end c = (post = [])"

lemma items_from_Nil [simp]: "items_from [] = []"
  by (simp add: items_from_def)

lemma stack_ok_items: "stack_ok T st \<Longrightarrow> items_from st = [] \<longleftrightarrow> st = []"
  by (cases st) (auto simp: stack_ok_def items_from_def split: node.splits)

lemma cursor_at_item:
  "cursor_at T D U c pre post \<Longrightarrow> cursor_item c = Some (case post of [] \<Rightarrow> None | x # _ \<Rightarrow> Some x)"
  by (auto simp: cursor_at_def cursor_item_def stack_ok_def items_from_def vec_get_def Cons_nth_drop_Suc [symmetric]
      split: list.splits node.splits)

lemma cursor_at_item_summary:
  "cursor_at T D U c pre post \<Longrightarrow>
   item_summary c = Some (case post of [] \<Rightarrow> None | x # _ \<Rightarrow> Some (it_summary T x))"
  by (auto simp: cursor_at_def item_summary_def stack_ok_def items_from_def vec_get_def Cons_nth_drop_Suc [symmetric]
      split: list.splits node.splits)

section \<open>Descending and unwinding\<close>

lemma skipped_children:
  assumes "climbs D T d (concat (map tree_items (ls @ c # rs)))"
    "ls \<noteq> [] \<longrightarrow> beyond bias target (advance D T d (concat (map tree_items ls)))"
    "\<not> beyond bias target (advance D T d (concat (map tree_items (ls @ [c]))))" "tree_items c \<noteq> []"
  shows "skipped D T bias target d (concat (map tree_items (ls @ c # rs))) =
    concat (map tree_items ls) @ skipped D T bias target (advance D T d (concat (map tree_items ls))) (tree_items c)"
proof -
  have ls: "skipped D T bias target d (concat (map tree_items ls)) = concat (map tree_items ls)"
    using assms(1,2) by (cases "ls = []") (simp_all add: skipped_all)
  have "skipped D T bias target (advance D T d (concat (map tree_items ls))) (tree_items c) \<noteq> tree_items c"
    using assms(3,4) by (intro skipped_stop) simp_all
  then show ?thesis using ls by (simp add: skipped_append)
qed

lemma drop_skipped:
  "drop (length (concat (map tree_items ls) @ skipped D T bias target d (tree_items c))) (concat (map tree_items (ls @ c # rs))) =
   drop (length (skipped D T bias target d (tree_items c))) (tree_items c) @ concat (map tree_items rs)"
proof -
  obtain ws where "tree_items c = skipped D T bias target d (tree_items c) @ ws" using skipped_prefix by metis
  then have "length (skipped D T bias target d (tree_items c)) \<le> length (tree_items c)"
    by (metis le_add1 length_append)
  then show ?thesis by simp
qed

context seek_laws
begin

lemma seek_descend_position:
  assumes "wf_node T n" "dok d" "uok u" "agg_wf T aok agg" "climbs D T d (tree_items n)" "parents_ok T st"
    "length st + node_height n < 16" "st = [] \<or> tree_items n \<noteq> [] \<and> \<not> beyond bias target (advance D T d (tree_items n))"
  defines "ys \<equiv> skipped D T bias target d (tree_items n)"
  shows "\<exists>st' agg'.
    seek_descend T D U A bias False target n st d u agg after =
      Some (st', advance D T d ys, advance U T u ys, agg', after) \<and>
    stack_ok T st' \<and> items_from st' = drop (length ys) (tree_items n) @ items_right st \<and> agg_rel T A agg ys agg'"
  using assms(1-8) unfolding ys_def
proof (induction n arbitrary: st d u agg)
  case (Internal h s ss cs)
  let ?its = "\<lambda>cs. concat (map tree_items cs)"
  have cs: "cs \<noteq> []" "list_all (good_child T h) cs" "ss = map node_summary cs" "length cs \<le> 2 * TREE_BASE"
    using Internal.prems(1) by simp_all
  have max_end: "dim_add D d s = advance D T d (?its cs)"
    using seek.dim_add_node [OF Internal.prems(2,1)] by simp
  obtain ls rs agg1 where scan: "cs = ls @ rs" "agg_rel T A agg (?its ls) agg1"
    "ls \<noteq> [] \<longrightarrow> beyond bias target (advance D T d (?its ls))"
    "resume_children T D U A bias False target (length cs) (zip cs (map node_summary cs)) 0 d u agg =
       Some (0 + length ls, advance D T d (?its ls), advance U T u (?its ls), agg1, case rs of [] \<Rightarrow> None | c # _ \<Rightarrow> Some c)"
    "case rs of [] \<Rightarrow> True | c # _ \<Rightarrow> \<not> beyond bias target (advance D T d (?its (ls @ [c])))"
    using resume_children_scan [OF cs(2) Internal.prems(2-4), where n = "length cs" and i = 0] by blast
  have found: "seek_children T D U A bias False target (dim_add D d s) (st = []) (length cs) (zip cs ss) 0 d u agg =
      Some (advance D T d (?its ls), advance U T u (?its ls), agg1, case rs of [] \<Rightarrow> None | c # _ \<Rightarrow> Some (length ls, c, False))"
    using seek_children_resume [OF cs(2) Internal.prems(2-4), of "length cs" 0 "dim_add D d s" "st = []" bias target]
      Internal.prems(5,8) scan(4) max_end cs(3) by (auto split: list.splits)
  show ?case
  proof (cases rs)
    case Nil
    then have "ls = cs" using scan(1) by simp
    then have "st = []" "beyond bias target (advance D T d (?its cs))" using Internal.prems(8) scan(3) cs(1) by auto
    moreover then have "skipped D T bias target d (?its cs) = ?its cs"
      using Internal.prems(5) by (simp add: skipped_all)
    ultimately show ?thesis
      using found Nil scan(2) \<open>ls = cs\<close> by (simp add: seek_descend.simps stack_ok_def items_from_def)
  next
    case (Cons c rs')
    let ?e = "\<lparr>en_tree = Internal h s ss cs, en_index = length ls, en_seek = advance D T d (?its ls), en_sum = advance U T u (?its ls)\<rparr>"
    have c: "c \<in> set cs" "wf_node T c" "Suc (node_height c) = h" "tree_items c \<noteq> []"
      using scan(1) Cons cs(2) by (auto simp: good_child_def)
    have skip: "skipped D T bias target d (?its cs) =
        ?its ls @ skipped D T bias target (advance D T d (?its ls)) (tree_items c)"
      using skipped_children [of D T d ls c rs' bias target] Internal.prems(5) scan Cons c(4) by simp
    have "\<exists>st' agg'.
        seek_descend T D U A bias False target c (?e # st) (advance D T d (?its ls)) (advance U T u (?its ls)) agg1 after =
          Some (st', advance D T (advance D T d (?its ls)) (skipped D T bias target (advance D T d (?its ls)) (tree_items c)),
                advance U T (advance U T u (?its ls)) (skipped D T bias target (advance D T d (?its ls)) (tree_items c)), agg', after) \<and>
        stack_ok T st' \<and> items_from st' =
          drop (length (skipped D T bias target (advance D T d (?its ls)) (tree_items c))) (tree_items c) @ items_right (?e # st) \<and>
        agg_rel T A agg1 (skipped D T bias target (advance D T d (?its ls)) (tree_items c)) agg'"
    proof (rule Internal.IH [OF c(1,2)])
      show "agg_wf T aok agg1" by (rule agg_rel_wf [OF Internal.prems(4) scan(2)])
      show "climbs D T (advance D T d (?its ls)) (tree_items c)" using Internal.prems(5) scan(1) Cons by simp
      show "parents_ok T (?e # st)" using Internal.prems(1,6,7) cs(3) scan(1) Cons by (simp del: wf_Internal)
    qed (use Internal.prems(2,3,7) scan(5) Cons c in \<open>simp_all add: seek.dok_advance sum.dok_advance\<close>)
    then obtain st' agg' where rec:
      "seek_descend T D U A bias False target c (?e # st) (advance D T d (?its ls)) (advance U T u (?its ls)) agg1 after =
        Some (st', advance D T (advance D T d (?its ls)) (skipped D T bias target (advance D T d (?its ls)) (tree_items c)),
              advance U T (advance U T u (?its ls)) (skipped D T bias target (advance D T d (?its ls)) (tree_items c)), agg', after)"
      "stack_ok T st'" "items_from st' =
          drop (length (skipped D T bias target (advance D T d (?its ls)) (tree_items c))) (tree_items c) @ items_right (?e # st)"
      "agg_rel T A agg1 (skipped D T bias target (advance D T d (?its ls)) (tree_items c)) agg'" by blast
    have "seek_descend T D U A bias False target (Internal h s ss cs) st d u agg after =
        seek_descend T D U A bias False target c (?e # st) (advance D T d (?its ls)) (advance U T u (?its ls)) agg1 after"
      using found Cons Internal.prems(7) by (subst seek_descend.simps) (simp add: stack_push_def)
    moreover have "drop (length (?its ls @ skipped D T bias target (advance D T d (?its ls)) (tree_items c))) (?its cs) =
        drop (length (skipped D T bias target (advance D T d (?its ls)) (tree_items c))) (tree_items c) @ ?its rs'"
      unfolding scan(1) Cons by (rule drop_skipped)
    ultimately show ?thesis
      using rec scan(1,2) Cons skip by (auto intro: agg_rel_trans)
  qed
next
  case (Leaf s xs ss)
  have wf: "ss = map (it_summary T) xs" "length xs \<le> 2 * TREE_BASE" using Leaf.prems(1) by simp_all
  define zs where "zs = skipped D T bias target d xs"
  obtain ws where xs: "xs = zs @ ws" using skipped_prefix zs_def by metis
  have max_end: "dim_add D d s = advance D T d xs" using seek.dim_add_node [OF Leaf.prems(2,1)] by simp
  have "seek_items T D U A bias False target (dim_add D d s) (st = []) (length xs) (zip xs ss) 0 d u (agg, it_zero T, [], []) =
      (advance D T d zs, advance U T u zs, agg_items T A zs (agg, it_zero T, [], []), if zs = xs then None else Some (length zs, False))"
    using seek_items_scan [of d xs "length xs" 0 "dim_add D d s" "st = []" bias target u] Leaf.prems(5,8) max_end wf(1)
    by (auto simp: zs_def Let_def)
  moreover obtain agg' where "agg_flush T (agg_items T A zs (agg, it_zero T, [], [])) = Some agg'" "agg_rel T A agg zs agg'"
    using agg_flush_rel [OF Leaf.prems(4), of zs] wf(2) xs by auto
  moreover have "st = []" if "zs = xs"
    using that Leaf.prems(8) skipped_stop [of xs bias target D T d] by (auto simp: zs_def)
  moreover have "length zs < length xs" if "zs \<noteq> xs" using that xs by auto
  ultimately show ?case
    using Leaf.prems(1,6,7) unfolding tree_items.simps zs_def [symmetric]
    by (cases "zs = xs") (simp_all add: seek_descend.simps stack_push_def stack_ok_def items_from_def)
qed

text \<open>Unwinding the stack of parents ends at a subtree that holds the target, or has passed
  everything.\<close>

definition unwound ::
    "seek_bias \<Rightarrow> 'd \<Rightarrow> 'd \<Rightarrow> 't list \<Rightarrow> 't list \<Rightarrow> ('t, 's, 'd, 'u) stack_entry list \<Rightarrow> ('t, 's) node option \<Rightarrow> bool" where
  "unwound bias target d xs ys st sub \<longleftrightarrow>
     (ys \<noteq> [] \<longrightarrow> beyond bias target (advance D T d ys)) \<and>
     (case sub of
        None \<Rightarrow> st = [] \<and> ys = xs
      | Some t \<Rightarrow> st \<noteq> [] \<and> parents_ok T st \<and> wf_node T t \<and> tree_items t \<noteq> [] \<and> length st + node_height t < 16 \<and>
          \<not> beyond bias target (advance D T (advance D T d ys) (tree_items t)) \<and> xs = ys @ tree_items t @ items_right st)"

lemma resume_parents:
  assumes "parents_ok T st" "dok d" "uok u" "agg_wf T aok agg"
  shows "\<exists>ys st' agg' sub.
    resume T D U A bias False target st d u agg = Some (st', advance D T d ys, advance U T u ys, agg', sub) \<and>
    unwound bias target d (items_right st) ys st' sub \<and> agg_rel T A agg ys agg'"
  using assms
proof (induction st arbitrary: d u agg)
  case Nil
  then show ?case by (intro exI [of _ "[]"]) (simp add: unwound_def agg_rel_Nil)
next
  case (Cons e es)
  let ?its = "\<lambda>cs. concat (map tree_items cs)"
  obtain h s ss cs where e: "en_tree e = Internal h s ss cs" using Cons.prems(1) by (cases "en_tree e") simp_all
  define i where "i = Suc (en_index e)"
  define ds where "ds = drop i cs"
  have cs: "list_all (good_child T h) cs" "ss = map node_summary cs" "length es + h < 16" "i \<le> length cs" "parents_ok T es"
    using Cons.prems(1) e by (auto simp: i_def)
  have ds: "list_all (good_child T h) ds" using cs(1) by (auto simp: ds_def list_all_iff dest: in_set_dropD)
  have zip: "zip (drop i cs) (drop i ss) = zip ds (map node_summary ds)" by (simp add: ds_def cs(2) drop_map)
  obtain ls rs agg1 where scan: "ds = ls @ rs" "agg_rel T A agg (?its ls) agg1"
    "ls \<noteq> [] \<longrightarrow> beyond bias target (advance D T d (?its ls))"
    "resume_children T D U A bias False target (length cs) (zip ds (map node_summary ds)) i d u agg =
       Some (i + length ls, advance D T d (?its ls), advance U T u (?its ls), agg1, case rs of [] \<Rightarrow> None | c # _ \<Rightarrow> Some c)"
    "case rs of [] \<Rightarrow> True | c # _ \<Rightarrow> \<not> beyond bias target (advance D T d (?its (ls @ [c])))"
    using resume_children_scan [OF ds Cons.prems(2-4), where n = "length cs" and i = i] by blast
  have right: "items_right (e # es) = ?its ds @ items_right es" by (simp add: e ds_def i_def)
  have ls: "?its ls \<noteq> [] \<longrightarrow> beyond bias target (advance D T d (?its ls))" using scan(3) by auto
  show ?case
  proof (cases rs)
    case (Cons c rs')
    have c: "wf_node T c" "Suc (node_height c) = h" "tree_items c \<noteq> []"
      using ds scan(1) Cons by (simp_all add: good_child_def)
    have drop: "drop (Suc (i + length ls)) cs = rs'" "i + length ls < length cs"
    proof -
      have "drop (length ls) ds = c # rs'" using scan(1) Cons by simp
      then have "drop (i + length ls) cs = c # rs'" by (simp add: ds_def add.commute)
      then show "drop (Suc (i + length ls)) cs = rs'" "i + length ls < length cs"
        by (metis drop_Suc list.sel(3) tl_drop, metis drop_all leI list.distinct(1))
    qed
    let ?e = "e\<lparr>en_index := i + length ls\<rparr>"
    have "resume T D U A bias False target (e # es) d u agg =
        Some (?e # es, advance D T d (?its ls), advance U T u (?its ls), agg1, Some c)"
      using scan(4) zip e cs(2,4) Cons by (simp add: i_def [symmetric])
    moreover have "unwound bias target d (items_right (e # es)) (?its ls) (?e # es) (Some c)"
      using ls scan(1,5) Cons c cs drop right e Cons.prems(1) by (simp add: unwound_def)
    ultimately show ?thesis using scan(2) by blast
  next
    case Nil
    then have all: "ds = ls" using scan(1) by simp
    obtain ys st' agg' sub where IH:
      "resume T D U A bias False target es (advance D T d (?its ls)) (advance U T u (?its ls)) agg1 =
        Some (st', advance D T (advance D T d (?its ls)) ys, advance U T (advance U T u (?its ls)) ys, agg', sub)"
      "unwound bias target (advance D T d (?its ls)) (items_right es) ys st' sub" "agg_rel T A agg1 ys agg'"
      using Cons.IH [OF cs(5) seek.dok_advance [OF Cons.prems(2)] sum.dok_advance [OF Cons.prems(3)]
          agg_rel_wf [OF Cons.prems(4) scan(2)]] by blast
    have "resume T D U A bias False target (e # es) d u agg =
        Some (st', advance D T d (?its ls @ ys), advance U T u (?its ls @ ys), agg', sub)"
      using scan(4) zip e cs(2,4) Nil IH(1) by (simp add: i_def [symmetric])
    moreover have "unwound bias target d (items_right (e # es)) (?its ls @ ys) st' sub"
      using IH(2) ls right all by (auto simp: unwound_def split: option.splits)
    ultimately show ?thesis using agg_rel_trans [OF scan(2) IH(3)] by blast
  qed
qed

lemma seek_from_stack:
  fixes bias target
  assumes "stack_ok T st" "dok d" "uok u" "agg_wf T aok agg" "climbs D T d (items_from st)"
  defines "ys \<equiv> skipped D T bias target d (items_from st)"
  shows "\<exists>st1 d1 u1 agg1 sub st' agg'.
    resume T D U A bias False target st d u agg = Some (st1, d1, u1, agg1, sub) \<and>
    (case sub of None \<Rightarrow> Some (st1, d1, u1, agg1, False)
     | Some t \<Rightarrow> seek_descend T D U A bias False target t st1 d1 u1 agg1 False) =
      Some (st', advance D T d ys, advance U T u ys, agg', False) \<and>
    stack_ok T st' \<and> items_from st' = drop (length ys) (items_from st) \<and> agg_rel T A agg ys agg'"
proof (cases st)
  case Nil
  then show ?thesis using agg_rel_Nil [OF assms(4)] by (simp add: ys_def items_from_def stack_ok_def)
next
  case (Cons e es)
  obtain s xs ss where e: "en_tree e = Leaf s xs ss" using assms(1) Cons by (cases "en_tree e") (simp_all add: stack_ok_def)
  have top: "ss = map (it_summary T) xs" "length xs \<le> 2 * TREE_BASE" "en_index e < length xs" "length es < 16" "parents_ok T es"
    "wf_node T (Leaf s xs ss)"
    using assms(1) Cons e by (auto simp: stack_ok_def)
  define ws where "ws = drop (en_index e) xs"
  define zs where "zs = skipped D T bias target d ws"
  obtain vs where ws: "ws = zs @ vs" using skipped_prefix zs_def by metis
  have from_st: "items_from st = ws @ items_right es" by (simp add: Cons items_from_def e ws_def)
  obtain agg1 where flush: "agg_flush T (agg_items T A zs (agg, it_zero T, [], [])) = Some agg1" "agg_rel T A agg zs agg1"
    using agg_flush_rel [OF assms(4), of zs] top(2) ws by (metis diff_le_self le_trans length_append length_drop trans_le_add1 le_add1 ws_def)
  have items: "resume_items T D U A bias False target (length xs) (zip (drop (en_index e) xs) (drop (en_index e) ss)) (en_index e) d u
        (agg, it_zero T, [], []) =
      (en_index e + length zs, advance D T d zs, advance U T u zs, agg_items T A zs (agg, it_zero T, [], []), zs \<noteq> ws)"
    using resume_items_scan [of bias target "length xs" ws "en_index e" d u "(agg, it_zero T, [], [])"]
    by (simp add: top(1) drop_map ws_def zs_def Let_def)
  show ?thesis
  proof (cases "zs = ws")
    case False
    then have ys: "ys = zs" by (simp add: ys_def from_st skipped_append zs_def)
    let ?e = "e\<lparr>en_index := en_index e + length zs\<rparr>"
    have "en_index e + length zs < length xs"
      using False ws top(3) by (metis append_Nil2 append_eq_conv_conj drop_all drop_drop leI ws_def add.commute)
    moreover have "resume T D U A bias False target st d u agg = Some (?e # es, advance D T d zs, advance U T u zs, agg1, None)"
      using items False flush(1) top(1,3) e by (simp add: Cons)
    moreover have "items_from (?e # es) = drop (length zs) (items_from st)"
    proof -
      have "drop (en_index e + length zs) xs = drop (length zs) ws" by (simp add: ws_def add.commute)
      then show ?thesis using ws unfolding from_st by (simp add: items_from_def e)
    qed
    ultimately show ?thesis
      using flush(2) top e by (simp add: ys stack_ok_def)
  next
    case True
    obtain ys1 st1 agg2 sub where up:
      "resume T D U A bias False target es (advance D T d zs) (advance U T u zs) agg1 =
        Some (st1, advance D T (advance D T d zs) ys1, advance U T (advance U T u zs) ys1, agg2, sub)"
      "unwound bias target (advance D T d zs) (items_right es) ys1 st1 sub" "agg_rel T A agg1 ys1 agg2"
      using resume_parents [OF top(5) seek.dok_advance [OF assms(2)] sum.dok_advance [OF assms(3)] agg_rel_wf [OF assms(4) flush(2)]]
      by blast
    have res: "resume T D U A bias False target st d u agg =
        Some (st1, advance D T d (zs @ ys1), advance U T u (zs @ ys1), agg2, sub)"
      using items True flush(1) top(1,3) e up(1) by (simp add: Cons)
    have agg2: "agg_rel T A agg (zs @ ys1) agg2" by (rule agg_rel_trans [OF flush(2) up(3)])
    have climb: "climbs D T (advance D T d ws) (items_right es)" using assms(5) from_st by simp
    have ys: "ys = ws @ skipped D T bias target (advance D T d ws) (items_right es)"
      using True by (simp add: ys_def from_st skipped_append zs_def)
    have passed: "skipped D T bias target (advance D T d ws) (ys1 @ vs') =
        ys1 @ skipped D T bias target (advance D T (advance D T d ws) ys1) vs'" if "items_right es = ys1 @ vs'" for vs'
      using up(2) climb that True skipped_all [of D T "advance D T d ws" ys1 bias target]
      by (cases "ys1 = []") (simp_all add: skipped_append unwound_def)
    show ?thesis
    proof (cases sub)
      case None
      then have "st1 = []" "items_right es = ys1" using up(2) by (simp_all add: unwound_def)
      then show ?thesis
        using res agg2 None True ys passed [of "[]"] by (simp add: from_st stack_ok_def)
    next
      case (Some t)
      have t: "st1 \<noteq> []" "parents_ok T st1" "wf_node T t" "tree_items t \<noteq> []" "length st1 + node_height t < 16"
        "\<not> beyond bias target (advance D T (advance D T (advance D T d ws) ys1) (tree_items t))"
        "items_right es = ys1 @ tree_items t @ items_right st1"
        using up(2) Some True by (simp_all add: unwound_def)
      let ?d = "advance D T d (ws @ ys1)" and ?u = "advance U T u (ws @ ys1)"
      define vs where "vs = skipped D T bias target ?d (tree_items t)"
      have "vs \<noteq> tree_items t" using skipped_stop [OF t(4), of bias target D T ?d] t(6) by (simp add: vs_def)
      then have ys': "ys = (ws @ ys1) @ vs"
        using ys passed [OF t(7)] t(7) by (simp add: skipped_append vs_def)
      have "climbs D T ?d (tree_items t)" using climb t(7) by simp
      then obtain st' agg' where
        "seek_descend T D U A bias False target t st1 ?d ?u agg2 False = Some (st', advance D T ?d vs, advance U T ?u vs, agg', False)"
        "stack_ok T st'" "items_from st' = drop (length vs) (tree_items t) @ items_right st1" "agg_rel T A agg2 vs agg'"
        using seek_descend_position [OF t(3) seek.dok_advance [OF assms(2)] sum.dok_advance [OF assms(3)]
            agg_rel_wf [OF assms(4) agg2] _ t(2,5), of "ws @ ys1" bias target "ws @ ys1" False] t(4,6)
        by (auto simp: vs_def)
      moreover have "length vs \<le> length (tree_items t)"
        using skipped_prefix [of "tree_items t" D T bias target ?d] by (metis le_add1 length_append vs_def)
      ultimately show ?thesis
        using res Some True agg_rel_trans [OF agg2, of vs] by (simp add: ys' from_st t(7))
    qed
  qed
qed

section \<open>Cursors\<close>

lemma cursor_at_ok:
  assumes "cursor_at T D U c pre post"
  shows "dok (cu_seek c)" "uok (cu_sum c)"
  using assms by (simp_all add: cursor_at_def seek.dok_advance sum.dok_advance seek.dok_default sum.dok_default)

lemma finish_at:
  assumes "cursor_at T D U (c\<lparr>cu_at_end := (cu_stack c = [])\<rparr>) pre post"
  shows "\<exists>b. seek_finish D bias target c = Some (b, c\<lparr>cu_at_end := (cu_stack c = [])\<rparr>)"
  using cursor_at_item_summary [OF assms] by (simp add: seek_finish_def Let_def)

lemma seek_internal_at:
  fixes bias target
  assumes at: "cursor_at T D U c pre post" and climb: "climbs D T (cu_seek c) post" and le: "cu_seek c \<le> target"
    and agg: "agg_wf T aok agg"
  defines "ys \<equiv> skipped D T bias target (cu_seek c) post"
  shows "\<exists>b agg' c'. seek_internal T D U A bias False target agg c = Some (b, agg', c') \<and> cu_tree c' = cu_tree c \<and>
    cursor_at T D U c' (pre @ ys) (drop (length ys) post) \<and> agg_rel T A agg ys agg'"
proof -
  have st: "stack_ok T (cu_stack c)" "items_from (cu_stack c) = post" using at by (simp_all add: cursor_at_def)
  obtain st1 d1 u1 agg1 sub st' agg' where r:
    "resume T D U A bias False target (cu_stack c) (cu_seek c) (cu_sum c) agg = Some (st1, d1, u1, agg1, sub)"
    "(case sub of None \<Rightarrow> Some (st1, d1, u1, agg1, False)
      | Some t \<Rightarrow> seek_descend T D U A bias False target t st1 d1 u1 agg1 False) =
      Some (st', advance D T (cu_seek c) ys, advance U T (cu_sum c) ys, agg', False)"
    "stack_ok T st'" "items_from st' = drop (length ys) post" "agg_rel T A agg ys agg'"
    using seek_from_stack [OF st(1) cursor_at_ok [OF at] agg, of bias target] climb st(2) by (auto simp: ys_def)
  define c' where "c' = c\<lparr>cu_did_seek := True, cu_stack := st', cu_seek := advance D T (cu_seek c) ys, cu_sum := advance U T (cu_sum c) ys\<rparr>"
  obtain vs where "post = ys @ vs" using skipped_prefix ys_def by metis
  then have at': "cursor_at T D U (c'\<lparr>cu_at_end := (cu_stack c' = [])\<rparr>) (pre @ ys) (drop (length ys) post)"
    using at r(3,4) stack_ok_items [OF r(3)] by (simp add: cursor_at_def c'_def)
  obtain b where "seek_finish D bias target c' = Some (b, c'\<lparr>cu_at_end := (cu_stack c' = [])\<rparr>)"
    using finish_at [OF at'] by blast
  then have "seek_internal T D U A bias False target agg c = Some (b, agg', c'\<lparr>cu_at_end := (cu_stack c' = [])\<rparr>)"
    using r(1,2) le at by (simp add: seek_internal_def cursor_at_def Let_def c'_def not_less [symmetric])
  moreover have "cu_tree (c'\<lparr>cu_at_end := (cu_stack c' = [])\<rparr>) = cu_tree c" by (simp add: c'_def)
  ultimately show ?thesis using at' r(5) by blast
qed

lemma seek_internal_fresh:
  fixes bias target tree
  assumes tree: "wf_node T tree" "node_height tree < 16" and climb: "climbs D T (dim_default D) (tree_items tree)"
    and le: "dim_default D \<le> target" and agg: "agg_wf T aok agg"
  defines "ys \<equiv> skipped D T bias target (dim_default D) (tree_items tree)"
  shows "\<exists>b agg' c'. seek_internal T D U A bias False target agg (cursor_new D U tree) = Some (b, agg', c') \<and>
    cu_tree c' = tree \<and> cursor_at T D U c' ys (drop (length ys) (tree_items tree)) \<and> agg_rel T A agg ys agg'"
proof -
  let ?c = "cursor_new D U tree"
  obtain st' agg' where r:
    "seek_descend T D U A bias False target tree [] (dim_default D) (dim_default U) agg False =
      Some (st', advance D T (dim_default D) ys, advance U T (dim_default U) ys, agg', False)"
    "stack_ok T st'" "items_from st' = drop (length ys) (tree_items tree)" "agg_rel T A agg ys agg'"
    using seek_descend_position [OF tree(1) seek.dok_default sum.dok_default agg climb, of "[]" bias target False] tree(2)
    by (auto simp: ys_def)
  define c' where "c' = ?c\<lparr>cu_did_seek := True, cu_stack := st', cu_seek := advance D T (dim_default D) ys,
      cu_sum := advance U T (dim_default U) ys\<rparr>"
  obtain vs where "tree_items tree = ys @ vs" using skipped_prefix ys_def by metis
  then have at': "cursor_at T D U (c'\<lparr>cu_at_end := (cu_stack c' = [])\<rparr>) ys (drop (length ys) (tree_items tree))"
    using r(2,3) stack_ok_items [OF r(2)] tree(1) by (simp add: cursor_at_def c'_def cursor_new_def)
  obtain b where "seek_finish D bias target c' = Some (b, c'\<lparr>cu_at_end := (cu_stack c' = [])\<rparr>)"
    using finish_at [OF at'] by blast
  then have "seek_internal T D U A bias False target agg ?c = Some (b, agg', c'\<lparr>cu_at_end := (cu_stack c' = [])\<rparr>)"
    using r(1) le by (simp add: seek_internal_def cursor_new_def Let_def c'_def not_less [symmetric])
  moreover have "cu_tree (c'\<lparr>cu_at_end := (cu_stack c' = [])\<rparr>) = tree" by (simp add: c'_def cursor_new_def)
  ultimately show ?thesis using at' r(4) by blast
qed

end

section \<open>Stepping\<close>

lemma descend_first_position:
  assumes "wf_node T n" "tree_items n \<noteq> []" "parents_ok T st" "length st + node_height n < 16"
  shows "\<exists>st'. descend_to_first D U (\<lambda>_. True) n st d u = Some (st', d, u) \<and> stack_ok T st' \<and>
    items_from st' = tree_items n @ items_right st"
  using assms
proof (induction n arbitrary: st)
  case (Internal h s ss cs)
  obtain c cs' where cs: "cs = c # cs'" using Internal.prems(1) by (cases cs) simp_all
  let ?e = "\<lparr>en_tree = Internal h s ss cs, en_index = 0, en_seek = d, en_sum = u\<rparr>"
  have c: "wf_node T c" "Suc (node_height c) = h" "tree_items c \<noteq> []" using Internal.prems(1) cs by (simp_all add: good_child_def)
  have ss: "ss \<noteq> []" using Internal.prems(1) by auto
  then have "parents_ok T (?e # st)" using Internal.prems by simp
  with Internal.IH [of c "?e # st"] c cs Internal.prems(4) obtain st' where
    "descend_to_first D U (\<lambda>_. True) c (?e # st) d u = Some (st', d, u)" "stack_ok T st'"
    "items_from st' = tree_items c @ items_right (?e # st)" by auto
  moreover have "find_summary D U (\<lambda>_. True) ss 0 d u = (Some 0, d, u)" using ss by (cases ss) simp_all
  then have "descend_to_first D U (\<lambda>_. True) (Internal h s ss cs) st d u =
      descend_to_first D U (\<lambda>_. True) c (?e # st) d u"
    using cs Internal.prems(4) by (subst descend_to_first.simps) (simp add: stack_push_def)
  ultimately show ?case using cs by auto
next
  case (Leaf s xs ss)
  then show ?case
    by (cases xs) (auto simp: descend_to_first.simps stack_push_def stack_ok_def items_from_def)
qed

lemma skip_children_True:
  "i < length ss \<Longrightarrow>
   skip_children D U (\<lambda>_. True) ss i ed eu d u = (Suc i, dim_add D ed (ss ! i), dim_add U eu (ss ! i), d, u)"
  by (simp add: skip_children.simps Let_def)

lemma skip_items_True:
  "i < length ss \<Longrightarrow>
   skip_items D U (\<lambda>_. True) ss i ed eu d u =
     Some (Suc i < length ss, Suc i, dim_add D ed (ss ! i), dim_add U eu (ss ! i), dim_add D d (ss ! i), dim_add U u (ss ! i))"
  by (simp add: skip_items.simps Let_def)

lemma next_parents_position:
  assumes "parents_ok T es"
  shows "\<exists>st'. next_loop D U (\<lambda>_. True) es d u = Some (st', d, u, False) \<and> stack_ok T st' \<and> items_from st' = items_right es"
  using assms
proof (induction es)
  case (Cons e es)
  obtain h s ss cs where e: "en_tree e = Internal h s ss cs" using Cons.prems(1) by (cases "en_tree e") simp_all
  define i where "i = en_index e"
  have cs: "list_all (good_child T h) cs" "ss = map node_summary cs" "length es + h < 16" "i < length cs" "parents_ok T es"
    using Cons.prems(1) e by (auto simp: i_def)
  obtain ed eu where skip: "skip_children D U (\<lambda>_. True) ss (en_index e) (en_seek e) (en_sum e) d u = (Suc i, ed, eu, d, u)"
    using cs(2,4) by (simp add: skip_children_True i_def)
  show ?case
  proof (cases "Suc i < length cs")
    case True
    let ?e = "e\<lparr>en_index := Suc i, en_seek := ed, en_sum := eu\<rparr>"
    have c: "good_child T h (cs ! Suc i)" using cs(1) True by (simp add: list_all_length)
    have "parents_ok T (?e # es)" using Cons.prems True e cs(2) by simp
    with descend_first_position [of T "cs ! Suc i" "?e # es" D U d u] c cs(3) obtain st' where
      "descend_to_first D U (\<lambda>_. True) (cs ! Suc i) (?e # es) d u = Some (st', d, u)" "stack_ok T st'"
      "items_from st' = tree_items (cs ! Suc i) @ items_right (?e # es)" by (auto simp: good_child_def)
    then show ?thesis
      using skip True e by (simp add: i_def [symmetric] Cons_nth_drop_Suc [symmetric])
  next
    case False
    then show ?thesis using Cons.IH cs(4,5) skip e by (simp add: i_def [symmetric])
  qed
qed (simp add: stack_ok_def)

lemma cursor_next_at:
  assumes "cursor_at T D U c pre (x # post)"
  shows "\<exists>c'. cursor_next D U c = Some c' \<and> cursor_at T D U c' (pre @ [x]) post"
proof -
  have at: "cu_did_seek c" "wf_node T (cu_tree c)" "tree_items (cu_tree c) = pre @ x # post"
    "cu_seek c = advance D T (dim_default D) pre" "cu_sum c = advance U T (dim_default U) pre"
    "stack_ok T (cu_stack c)" "items_from (cu_stack c) = x # post" "\<not> cu_at_end c"
    using assms by (auto simp: cursor_at_def)
  then obtain e es where st: "cu_stack c = e # es" by (cases "cu_stack c") auto
  obtain s xs ss where e: "en_tree e = Leaf s xs ss" using at(6) st by (cases "en_tree e") (simp_all add: stack_ok_def)
  define i where "i = en_index e"
  have top: "ss = map (it_summary T) xs" "i < length xs" "length es < 16" "parents_ok T es" "wf_node T (Leaf s xs ss)"
    using at(6) st e by (auto simp: stack_ok_def i_def)
  have x: "xs ! i = x" and post: "post = drop (Suc i) xs @ items_right es"
    using at(7) st e top(2) by (simp_all add: items_from_def i_def [symmetric] Cons_nth_drop_Suc [symmetric])
  let ?d = "dim_add D (cu_seek c) (it_summary T x)" and ?u = "dim_add U (cu_sum c) (it_summary T x)"
  obtain st' r where loop: "next_loop D U (\<lambda>_. True) (e # es) (cu_seek c) (cu_sum c) = Some (st', ?d, ?u, r)"
    "stack_ok T st'" "items_from st' = post" "r \<longrightarrow> post \<noteq> []"
  proof (cases "Suc i < length xs")
    case True
    then show ?thesis
      using top x e post that by (auto simp: skip_items_True i_def [symmetric] stack_ok_def items_from_def)
  next
    case False
    from next_parents_position [OF top(4), of D U ?d ?u] obtain st' where
      "next_loop D U (\<lambda>_. True) es ?d ?u = Some (st', ?d, ?u, False)" "stack_ok T st'" "items_from st' = items_right es" by blast
    then show ?thesis
      using False top x e post that by (auto simp: skip_items_True i_def [symmetric])
  qed
  have "st' = [] \<longleftrightarrow> post = []" using stack_ok_items [OF loop(2)] loop(3) by simp
  then show ?thesis
    using loop at st by (cases r) (auto simp: cursor_next_def next_internal_def cursor_at_def Let_def simp del: next_loop.simps)
qed

text \<open>Taking items from an iterator until it is exhausted; the fuel bounds the number of items.\<close>

fun drain ::
    "('d, 's) dimension \<Rightarrow> ('u, 's) dimension \<Rightarrow> nat \<Rightarrow> ('t, 's, 'd, 'u) cursor \<Rightarrow> 't list option" where
  "drain D U 0 c = None"
| "drain D U (Suc n) c =
     do { (item, c) \<leftarrow> iter_next D U c;
          case item of None \<Rightarrow> Some [] | Some x \<Rightarrow> do { xs \<leftarrow> drain D U n c; Some (x # xs) } }"

lemma drain_at: "cursor_at T D U c pre post \<Longrightarrow> length post < n \<Longrightarrow> drain D U n c = Some post"
proof (induction post arbitrary: n c pre)
  case Nil
  then show ?case using cursor_at_item [OF Nil.prems(1)] by (cases n) (auto simp: iter_next_def cursor_at_def)
next
  case (Cons x post)
  then obtain m where n: "n = Suc m" by (cases n) simp_all
  obtain c' where "cursor_next D U c = Some c'" "cursor_at T D U c' (pre @ [x]) post"
    using cursor_next_at [OF Cons.prems(1)] by blast
  moreover have "cu_did_seek c" using Cons.prems(1) by (simp add: cursor_at_def)
  ultimately show ?case
    using Cons.IH Cons.prems(2) cursor_at_item [OF Cons.prems(1)] by (simp add: n iter_next_def)
qed

section \<open>What a cursor guarantees\<close>

lemma unit_dimension: "summary_laws T ok \<Longrightarrow> dimension_laws T ok unit_dim (\<lambda>_. True)"
  by (simp add: dimension_laws_def dimension_laws_axioms_def unit_dim_def)

lemma seek_laws_unit:
  assumes "dimension_laws T ok D dok" "dimension_laws T ok U uok"
  shows "seek_laws T ok D dok U uok (unit_dim :: (unit, 's) dimension) (\<lambda>_. True)"
  using assms unit_dimension [OF dimension_laws.axioms(1) [OF assms(1)]] unfolding seek_laws_def by blast

lemma skipped_length: "length (skipped D T bias target d xs) \<le> length xs"
  using skipped_prefix [of xs D T bias target d] by (metis le_add1 length_append)

lemma skipped_take: "skipped D T bias target d xs = take (length (skipped D T bias target d xs)) xs"
  using skipped_prefix [of xs D T bias target d] by (metis append_eq_conv_conj)

text \<open>The end of every item passed lies before the target, the end of the next does not.\<close>

lemma skipped_spec:
  fixes D T bias target d xs
  defines "k \<equiv> length (skipped D T bias target d xs)"
  shows "j < k \<Longrightarrow> beyond bias target (advance D T d (take (Suc j) xs))"
    "k < length xs \<Longrightarrow> \<not> beyond bias target (advance D T d (take (Suc k) xs))"
proof -
  show "j < k \<Longrightarrow> beyond bias target (advance D T d (take (Suc j) xs))"
    unfolding k_def
  proof (induction xs arbitrary: d j)
    case (Cons x xs)
    then show ?case by (cases j) (auto simp: Let_def split: if_splits)
  qed simp
  show "k < length xs \<Longrightarrow> \<not> beyond bias target (advance D T d (take (Suc k) xs))"
    unfolding k_def by (induction xs arbitrary: d) (auto simp: Let_def)
qed

lemma skipped_below:
  assumes "d \<le> target" shows "advance D T d (skipped D T bias target d xs) \<le> target"
  using assms by (induction xs arbitrary: d) (auto simp: Let_def beyond_def)

lemma seek_at:
  assumes "dimension_laws T ok D dok" "dimension_laws T ok U uok" "wf_node T tree" "node_height tree < 16"
    "climbs D T (dim_default D) (tree_items tree)" "dim_default D \<le> target"
  shows "\<exists>b c. seek T D U target bias (cursor_new D U tree) = Some (b, c) \<and> cu_tree c = tree \<and>
    cursor_at T D U c (skipped D T bias target (dim_default D) (tree_items tree))
      (drop (length (skipped D T bias target (dim_default D) (tree_items tree))) (tree_items tree))"
proof -
  have reset: "cursor_reset D U (cursor_new D U tree) = cursor_new D U tree"
    by (simp add: cursor_reset_def cursor_new_def)
  have "agg_wf T (\<lambda>_. True) (AggNone :: ('a, 'b, unit) seek_aggregate)" by simp
  from seek_laws.seek_internal_fresh [OF seek_laws_unit [OF assms(1,2)] assms(3-6) this, of bias]
  show ?thesis by (auto simp: seek_def reset)
qed

text \<open>C36: if the sought dimension does not decrease along the items, a seek never panics and
  stops at the first item whose end is not before the target: every item it passed
  ends before the target, the sums of both dimensions are those of exactly the items
  passed, and the cursor is at the next item, or at the end if there is none.\<close>

theorem seek_correct:
  assumes "dimension_laws T ok D dok" "dimension_laws T ok U uok" "wf_node T tree" "node_height tree < 16"
    "climbs D T (dim_default D) (tree_items tree)" "dim_default D \<le> target"
  shows "\<exists>b c k. seek T D U target bias (cursor_new D U tree) = Some (b, c) \<and> k \<le> length (tree_items tree) \<and>
    (\<forall>j<k. beyond bias target (advance D T (dim_default D) (take (Suc j) (tree_items tree)))) \<and>
    (k < length (tree_items tree) \<longrightarrow>
       \<not> beyond bias target (advance D T (dim_default D) (take (Suc k) (tree_items tree)))) \<and>
    seek_position c = advance D T (dim_default D) (take k (tree_items tree)) \<and>
    cursor_start c = advance U T (dim_default U) (take k (tree_items tree)) \<and>
    cursor_item c = Some (if k < length (tree_items tree) then Some (tree_items tree ! k) else None)"
proof -
  let ?ys = "skipped D T bias target (dim_default D) (tree_items tree)"
  obtain b c where c: "seek T D U target bias (cursor_new D U tree) = Some (b, c)"
    "cursor_at T D U c ?ys (drop (length ?ys) (tree_items tree))"
    using seek_at [OF assms] by blast
  have "cursor_item c = Some (if length ?ys < length (tree_items tree) then Some (tree_items tree ! length ?ys) else None)"
    using cursor_at_item [OF c(2)] by (auto simp: hd_drop_conv_nth split: list.splits)
       (metis Cons_nth_drop_Suc list.inject)
  then show ?thesis
    using c skipped_spec [where D = D and T = T and bias = bias and target = target and d = "dim_default D" and xs = "tree_items tree"]
      skipped_take [of D T bias target "dim_default D" "tree_items tree"] skipped_length [of D T bias target "dim_default D" "tree_items tree"]
    by (intro exI [of _ b] exI [of _ c] exI [of _ "length ?ys"]) (auto simp: cursor_at_def seek_position_def cursor_start_def)
qed

definition count_dim :: "(nat, nat) dimension" where
  "count_dim = \<lparr>dim_default = 0, dim_add = (+)\<rparr>"

interpretation count_dim: dimension_laws count_ops "\<lambda>_. True" count_dim "\<lambda>_. True"
  by unfold_locales (simp_all add: count_dim_def count_ops_def)

definition sample_tree :: "(nat, nat) node" where
  "sample_tree = Internal 1 10 [6, 4] [Leaf 6 [1, 2, 3] [1, 2, 3], Leaf 4 [4] [4]]"

lemma sample_tree_ok:
  "wf_node count_ops sample_tree" "node_height sample_tree < 16" "tree_items sample_tree = [1, 2, 3, 4]"
  "climbs count_dim count_ops (dim_default count_dim) (tree_items sample_tree)"
  by (simp_all add: sample_tree_def good_child_def count_ops_def count_dim_def summarize_def TREE_BASE_def)

theorem seek_correct_witness:
  "\<exists>b c k. seek count_ops count_dim count_dim 3 SeekRight (cursor_new count_dim count_dim sample_tree) = Some (b, c) \<and>
     k \<le> length (tree_items sample_tree) \<and>
     cursor_item c = Some (if k < length (tree_items sample_tree) then Some (tree_items sample_tree ! k) else None)"
proof -
  have "dim_default count_dim \<le> 3" by (simp add: count_dim_def)
  from seek_correct [OF count_dim.dimension_laws_axioms count_dim.dimension_laws_axioms sample_tree_ok(1,2,4) this, of SeekRight]
  show ?thesis by blast
qed

lemma slice_at:
  assumes laws: "dimension_laws T ok D dok" "dimension_laws T ok U uok"
    and at: "cursor_at T D U c pre post" and climb: "climbs D T (cu_seek c) post" and le: "cu_seek c \<le> target"
  shows "\<exists>t c'. cursor_slice T D U target bias c = Some (t, c') \<and> cu_tree c' = cu_tree c \<and> wf_node T t \<and>
    tree_items t = skipped D T bias target (cu_seek c) post \<and>
    cursor_at T D U c' (pre @ tree_items t) (drop (length (tree_items t)) post)"
proof -
  have "agg_wf T (\<lambda>_. True) (AggSlice (tree_new T) :: ('a, 'b, unit) seek_aggregate)" by (simp add: new_tree)
  from seek_laws.seek_internal_at [OF seek_laws_unit [OF laws] at climb le this, of bias]
  show ?thesis by (auto simp: cursor_slice_def new_tree)
qed

lemma suffix_at:
  assumes laws: "dimension_laws T ok D dok" "dimension_laws T ok U uok"
    and at: "cursor_at T D U c pre post" and climb: "climbs D T (cu_seek c) post"
  shows "\<exists>t c'. cursor_suffix T D U c = Some (t, c') \<and> wf_node T t \<and> tree_items t = post"
proof -
  have eq: "extent D (cu_tree c) = advance D T (cu_seek c) post"
    using dimension_laws.dim_add_node [OF laws(1) dimension_laws.dok_default [OF laws(1)], of "cu_tree c"] at
    by (simp add: extent_def cursor_at_def)
  have "skipped D T SeekRight (extent D (cu_tree c)) (cu_seek c) post = post"
    using skipped_all [OF climb, of SeekRight] by (simp add: eq beyond_def)
  then show ?thesis
    using slice_at [OF laws at climb, of "extent D (cu_tree c)" SeekRight] climbs_le [OF climb]
    by (auto simp: cursor_suffix_def eq)
qed

text \<open>C37: after a seek, cutting the tree at a later target and taking the rest loses nothing:
  the items before the cursor, those of the slice and those of the suffix are the items
  of the tree, in order, and both pieces are well-formed trees.\<close>

theorem slice_and_suffix_partition:
  assumes "dimension_laws T ok D dok" "dimension_laws T ok U uok" "wf_node T tree" "node_height tree < 16"
    "climbs D T (dim_default D) (tree_items tree)" "dim_default D \<le> t1" "t1 \<le> t2"
  shows "\<exists>b c slice c' suffix c'' k.
    seek T D U t1 bias1 (cursor_new D U tree) = Some (b, c) \<and> cursor_slice T D U t2 bias2 c = Some (slice, c') \<and>
    cursor_suffix T D U c' = Some (suffix, c'') \<and> wf_node T slice \<and> wf_node T suffix \<and>
    tree_items tree = take k (tree_items tree) @ tree_items slice @ tree_items suffix \<and>
    cursor_start c = advance U T (dim_default U) (take k (tree_items tree))"
proof -
  let ?ys = "skipped D T bias1 t1 (dim_default D) (tree_items tree)"
  let ?rest = "drop (length ?ys) (tree_items tree)"
  have split: "tree_items tree = ?ys @ ?rest"
    using skipped_prefix [of "tree_items tree" D T bias1 t1 "dim_default D"] by (metis append_eq_conv_conj)
  obtain b c where c: "seek T D U t1 bias1 (cursor_new D U tree) = Some (b, c)" "cursor_at T D U c ?ys ?rest"
    using seek_at [OF assms(1-6)] by blast
  have pos: "cu_seek c = advance D T (dim_default D) ?ys" using c(2) by (simp add: cursor_at_def)
  have climb: "climbs D T (cu_seek c) ?rest" using assms(5) climbs_append split pos by metis
  have le: "cu_seek c \<le> t2" using skipped_below [OF assms(6)] assms(7) pos by (metis order_trans)
  obtain t c' where s: "cursor_slice T D U t2 bias2 c = Some (t, c')" "wf_node T t"
    "tree_items t = skipped D T bias2 t2 (cu_seek c) ?rest"
    "cursor_at T D U c' (?ys @ tree_items t) (drop (length (tree_items t)) ?rest)"
    using slice_at [OF assms(1,2) c(2) climb le] by blast
  have split': "?rest = tree_items t @ drop (length (tree_items t)) ?rest"
    using s(3) skipped_prefix [of ?rest D T bias2 t2 "cu_seek c"] by (metis append_eq_conv_conj)
  have pos': "cu_seek c' = advance D T (cu_seek c) (tree_items t)" using s(4) pos by (simp add: cursor_at_def)
  have "climbs D T (cu_seek c') (drop (length (tree_items t)) ?rest)" using climb climbs_append split' pos' by metis
  from suffix_at [OF assms(1,2) s(4) this] obtain u c'' where
    "cursor_suffix T D U c' = Some (u, c'')" "wf_node T u" "tree_items u = drop (length (tree_items t)) ?rest" by blast
  moreover have "take (length ?ys) (tree_items tree) = ?ys" using skipped_take by metis
  ultimately show ?thesis
    using c s split split' by (intro exI [of _ b] exI [of _ c] exI [of _ t] exI [of _ c'] exI [of _ u] exI [of _ c'']
        exI [of _ "length ?ys"]) (simp add: cursor_at_def cursor_start_def)
qed

theorem slice_and_suffix_partition_witness:
  "\<exists>b c slice c' suffix c'' k.
    seek count_ops count_dim count_dim 1 SeekRight (cursor_new count_dim count_dim sample_tree) = Some (b, c) \<and>
    cursor_slice count_ops count_dim count_dim 6 SeekRight c = Some (slice, c') \<and>
    cursor_suffix count_ops count_dim count_dim c' = Some (suffix, c'') \<and> wf_node count_ops slice \<and> wf_node count_ops suffix \<and>
    tree_items sample_tree = take k (tree_items sample_tree) @ tree_items slice @ tree_items suffix \<and>
    cursor_start c = advance count_dim count_ops (dim_default count_dim) (take k (tree_items sample_tree))"
  by (rule slice_and_suffix_partition [OF count_dim.dimension_laws_axioms count_dim.dimension_laws_axioms sample_tree_ok(1,2,4)])
     (simp_all add: count_dim_def)

text \<open>iterating over a tree from a fresh cursor ends and yields exactly its items, in order.\<close>

theorem iteration_yields_items:
  assumes "wf_node T tree" "node_height tree < 16" "length (tree_items tree) < n"
  shows "drain D U n (cursor_new D U tree) = Some (tree_items tree)"
proof -
  obtain m where n: "n = Suc m" using assms(3) by (cases n) simp_all
  let ?c = "cursor_new D U tree"
  show ?thesis
  proof (cases "tree_items tree = []")
    case True
    have "node_child_summaries tree = []"
      using True assms(1) concat_items_nonempty [of T] by (cases tree) auto
    then show ?thesis
      using True by (simp add: n iter_next_def cursor_new_def descend_to_first_item_def descend_to_first.simps cursor_item_def)
  next
    case False
    obtain st where st: "descend_to_first D U (\<lambda>_. True) tree [] (dim_default D) (dim_default U) = Some (st, dim_default D, dim_default U)"
      "stack_ok T st" "items_from st = tree_items tree"
      using descend_first_position [OF assms(1) False, of "[]" D U "dim_default D" "dim_default U"] assms(2) by auto
    let ?c' = "?c\<lparr>cu_did_seek := True, cu_stack := st\<rparr>"
    have "cursor_at T D U ?c' [] (tree_items tree)"
      using st assms(1) False by (simp add: cursor_at_def cursor_new_def)
    moreover have "iter_next D U ?c = iter_next D U ?c'"
      using st(1) by (simp add: iter_next_def cursor_new_def descend_to_first_item_def)
    ultimately show ?thesis using drain_at [of T D U ?c' "[]" _ n] assms(3) by (simp add: n)
  qed
qed

theorem iteration_yields_items_witness:
  "drain count_dim count_dim 5 (cursor_new count_dim count_dim sample_tree) = Some (tree_items sample_tree)"
  by (rule iteration_yields_items [OF sample_tree_ok(1,2)]) (simp add: sample_tree_ok(3))

end
