(* ===== verification/Editor_Summary.thy ===== *)
theory Editor_Summary
  imports Editor_Text Sum_Cursor_Correct
begin

text \<open>
  The summaries of the runs of a text form a monoid on the summaries that occur, and the
  offsets and points a text is sought by are dimensions over it, so that the laws of the
  sum tree and of its cursor hold for the trees of runs.
\<close>

section \<open>The summaries form a monoid\<close>

text \<open>What holds of the summary of any text: the rightmost point is the first longest line.\<close>

definition summary_ok :: "text_summary \<Rightarrow> bool" where
  "summary_ok s \<longleftrightarrow>
     ts_first_line_len s \<le> column (ts_rightmost_point s) \<and> column (ts_lines s) \<le> column (ts_rightmost_point s) \<and>
     (row (ts_lines s) = 0 \<longrightarrow> ts_first_line_len s = column (ts_lines s) \<and> ts_rightmost_point s = ts_lines s) \<and>
     (row (ts_rightmost_point s) = 0 \<longleftrightarrow> column (ts_rightmost_point s) = ts_first_line_len s)"

lemma point_add_simps [simp]:
  "point_add (Point 0 0) p = p" "point_add p (Point 0 0) = p"
  "row (point_add p q) = row p + row q"
  "column (point_add p q) = (if row q = 0 then column p + column q else column q)"
  by (cases p; simp add: point_add_def)+

lemma point_add_assoc: "point_add (point_add p q) r = point_add p (point_add q r)"
  by (simp add: point_add_def)

lemma summary_ok_item: "summary_ok (run_summary r)"
  by (cases r) (simp_all add: summary_ok_def)

lemma text_summary_add_fields [simp]:
  "ts_chars (text_summary_add a b) = ts_chars a + ts_chars b"
  "ts_bytes (text_summary_add a b) = ts_bytes a + ts_bytes b"
  "ts_lines (text_summary_add a b) = point_add (ts_lines a) (ts_lines b)"
  "ts_first_line_len (text_summary_add a b) =
     (if row (ts_lines a) = 0 then ts_first_line_len a + ts_first_line_len b else ts_first_line_len a)"
  by (simp_all add: text_summary_add_def Let_def)

text \<open>The rightmost point of a sum is the first longest of three lines.\<close>

lemma rightmost_add:
  assumes "summary_ok a" "summary_ok b"
  defines "ma \<equiv> column (ts_rightmost_point a)" and "mb \<equiv> column (ts_rightmost_point b)"
    and "joined \<equiv> column (ts_lines a) + ts_first_line_len b"
  shows "ts_rightmost_point (text_summary_add a b) =
    (if joined \<le> ma \<and> mb \<le> ma then ts_rightmost_point a
     else if mb \<le> joined then Point (row (ts_lines a)) joined
     else Point (row (ts_lines a) + row (ts_rightmost_point b)) mb)"
  using assms by (auto simp: text_summary_add_def Let_def summary_ok_def point_add_def)

lemma summary_ok_add:
  assumes "summary_ok a" "summary_ok b" shows "summary_ok (text_summary_add a b)"
proof -
  obtain ra ca rb cb where "ts_lines a = Point ra ca" "ts_lines b = Point rb cb"
    by (meson text_point.exhaust)
  then show ?thesis
    using assms unfolding summary_ok_def rightmost_add [OF assms]
    by (cases "ra = 0"; cases "rb = 0") (auto simp: point_add_def split: if_split)
qed

lemma text_summary_add_assoc:
  assumes ok: "summary_ok a" "summary_ok b" "summary_ok c"
  shows "text_summary_add (text_summary_add a b) c = text_summary_add a (text_summary_add b c)"
proof (rule text_summary.equality)
  show "ts_rightmost_point (text_summary_add (text_summary_add a b) c) =
      ts_rightmost_point (text_summary_add a (text_summary_add b c))"
    unfolding rightmost_add [OF summary_ok_add [OF ok(1,2)] ok(3)] rightmost_add [OF ok(1) summary_ok_add [OF ok(2,3)]]
      rightmost_add [OF ok(1,2)] rightmost_add [OF ok(2,3)]
    using ok unfolding summary_ok_def
    by (cases "row (ts_lines b) = 0") (simp_all split: if_split, linarith+)
qed (simp_all add: point_add_assoc)

text \<open>The laws of the sum tree and of its dimensions, for the trees of runs.\<close>

lemma summary_ok_default: "summary_ok text_summary_default"
  by (simp add: summary_ok_def text_summary_default_def)

lemma text_summary_add_default:
  assumes "summary_ok a"
  shows "text_summary_add text_summary_default a = a" "text_summary_add a text_summary_default = a"
  using assms
  by (cases a; cases "ts_rightmost_point a"; cases "ts_lines a";
      auto simp: text_summary_add_def text_summary_default_def Let_def summary_ok_def point_add_def)+

interpretation run_laws: summary_laws run_ops summary_ok
  by unfold_locales
    (simp_all add: run_ops_def summary_ok_default summary_ok_item summary_ok_add text_summary_add_assoc text_summary_add_default)

interpretation by_summary: dimension_laws run_ops summary_ok summary_dim summary_ok
  by unfold_locales
    (simp_all add: run_ops_def summary_dim_def summary_ok_default summary_ok_add text_summary_add_assoc text_summary_add_default)

interpretation by_point: dimension_laws run_ops summary_ok point_dim "\<lambda>_. True"
  by unfold_locales (simp_all add: run_ops_def point_dim_def point_add_assoc text_summary_default_def)

interpretation by_bytes: dimension_laws run_ops summary_ok bytes_dim "\<lambda>_. True"
  by unfold_locales (simp_all add: run_ops_def bytes_dim_def text_summary_default_def)

interpretation by_chars: dimension_laws run_ops summary_ok chars_dim "\<lambda>_. True"
  by unfold_locales (simp_all add: run_ops_def chars_dim_def text_summary_default_def)

end
