(* ===== verification/Editor_Text_Correct.thy ===== *)
theory Editor_Text_Correct
  imports Editor_Summary
begin

text \<open>
  The conversions between offsets, points and bytes agree with counting in the string.
  A tree of runs covers a string piece by piece; a seek by characters, by points or by
  bytes stops at the same piece, because each of them measures prefixes of the string in
  a strictly increasing way.
\<close>

section \<open>Measuring strings\<close>

text \<open>The point after the last character of a string.\<close>

definition text_end :: "rust_str \<Rightarrow> text_point" where
  "text_end cs = foldl (\<lambda>p c. if c = 10 then Point (row p + 1) 0 else Point (row p) (column p + 1)) (Point 0 0) cs"

lemma text_end_simps [simp]:
  "text_end [] = Point 0 0"
  "text_end (cs @ [c]) = (if c = 10 then Point (row (text_end cs) + 1) 0 else Point (row (text_end cs)) (column (text_end cs) + 1))"
  by (simp_all add: text_end_def)

lemma text_end_append: "text_end (xs @ ys) = point_add (text_end xs) (text_end ys)"
proof (induction ys rule: rev_induct)
  case (snoc y ys)
  then show ?case by (simp add: point_add_def flip: append_assoc)
qed simp

lemma text_end_single [simp]: "text_end [c] = (if c = 10 then Point 1 0 else Point 0 1)"
  using text_end_simps(2) [of "[]" c] by simp

lemma text_end_Cons: "text_end (c # cs) = point_add (if c = 10 then Point 1 0 else Point 0 1) (text_end cs)"
  using text_end_append [of "[c]" cs] by simp

lemma text_end_no_newline: "10 \<notin> set cs \<Longrightarrow> text_end cs = Point 0 (length cs)"
  by (induction cs) (auto simp: text_end_Cons point_add_def)

lemma text_end_not_zero: "cs \<noteq> [] \<Longrightarrow> text_end cs \<noteq> Point 0 0"
  by (cases cs rule: rev_cases) simp_all

lemma point_add_greater: "p \<le> point_add p q" "q \<noteq> Point 0 0 \<Longrightarrow> p < point_add p q"
  by (cases p; cases q; auto simp: less_eq_text_point_def less_text_point_def point_add_def)+

lemma point_sub_add: "point_sub (point_add p q) p = Some q"
  using point_add_greater(1) [of p q]
  by (cases p; cases q) (auto simp: point_sub_def point_add_def checked_sub_def)

section \<open>Runs that cover a string\<close>

fun covers1 :: "run \<Rightarrow> rust_str \<Rightarrow> bool" where
  "covers1 Newline cs \<longleftrightarrow> cs = [10]"
| "covers1 (Chars len char_size) cs \<longleftrightarrow>
     0 < len \<and> length cs = len \<and> 10 \<notin> set cs \<and> list_all (\<lambda>c. len_utf8 c = char_size) cs"

definition covers :: "run list \<Rightarrow> rust_str list \<Rightarrow> bool" where
  "covers rs ps \<longleftrightarrow> list_all2 covers1 rs ps"

lemma covers1_nonempty: "covers1 r p \<Longrightarrow> p \<noteq> []"
  by (cases r) auto

lemma str_len_equal_width: "list_all (\<lambda>c. len_utf8 c = n) cs \<Longrightarrow> str_len cs = length cs * n"
  by (induction cs) (simp_all add: str_len_def)

lemma str_len_newline [simp]: "str_len [10] = 1" "len_utf8 10 = 1"
  by (simp_all add: str_len_def len_utf8_def)

lemma covers1_summary:
  assumes "covers1 r p" "length p < 2 ^ 32"
  shows "ts_chars (run_summary r) = length p" "ts_bytes (run_summary r) = str_len p" "ts_lines (run_summary r) = text_end p"
proof -
  have "ts_chars (run_summary r) = length p \<and> ts_bytes (run_summary r) = str_len p \<and> ts_lines (run_summary r) = text_end p"
  proof (cases r)
    case (Chars n sz)
    then have p: "length p = n" "10 \<notin> set p" "list_all (\<lambda>c. len_utf8 c = sz) p" "as_u32 n = n"
      using assms by (simp_all add: as_u32_def)
    show ?thesis using Chars p(1,4) text_end_no_newline [OF p(2)] str_len_equal_width [OF p(3)] by simp
  qed (use assms in simp)
  then show "ts_chars (run_summary r) = length p" "ts_bytes (run_summary r) = str_len p"
    "ts_lines (run_summary r) = text_end p" by simp_all
qed

lemma covers1_take:
  assumes "covers1 r p" "k < length p"
  shows "text_end (take k p) = Point 0 k" "str_len (take k p) = k * run_char_size r"
proof -
  have "text_end (take k p) = Point 0 k \<and> str_len (take k p) = k * run_char_size r"
  proof (cases r)
    case (Chars n sz)
    then have p: "10 \<notin> set (take k p)" "list_all (\<lambda>c. len_utf8 c = sz) (take k p)"
      using assms set_take_subset [of k p] by (auto simp: list_all_iff)
    show ?thesis using Chars assms(2) text_end_no_newline [OF p(1)] str_len_equal_width [OF p(2)] by simp
  qed (use assms in \<open>simp add: str_len_def\<close>)
  then show "text_end (take k p) = Point 0 k" "str_len (take k p) = k * run_char_size r" by simp_all
qed

lemma text_runs_cover:
  assumes "length q = n" "n = 0 \<or> covers1 (Chars n sz) q"
  shows "\<exists>ps. covers (text_runs n sz cs) ps \<and> concat ps = q @ cs"
  using assms
proof (induction cs arbitrary: n sz q)
  case Nil
  then show ?case by (cases "n = 0") (auto simp: covers_def intro: exI [of _ "[q]"])
next
  case (Cons c cs)
  define flush where "flush = (n \<noteq> 0 \<and> (c = 10 \<or> sz \<noteq> len_utf8 c))"
  define q' where "q' = (if flush then [] else q)"
  define rest where "rest = (if c = 10 then Newline # text_runs (length q') (len_utf8 c) cs
      else text_runs (length q' + 1) (len_utf8 c) cs)"
  have runs: "text_runs n sz (c # cs) = (if flush then [Chars n sz] else []) @ rest"
    using Cons.prems(1) by (simp add: flush_def q'_def rest_def Let_def)
  have "\<exists>ps. covers rest ps \<and> concat ps = q' @ c # cs"
  proof (cases "c = 10")
    case True
    then have "q' = []" using Cons.prems by (auto simp: q'_def flush_def)
    moreover obtain ps where "covers (text_runs 0 (len_utf8 c) cs) ps" "concat ps = cs"
      using Cons.IH [of "[]" 0] by auto
    ultimately show ?thesis
      using True by (intro exI [of _ "[10] # ps"]) (simp add: rest_def covers_def)
  next
    case False
    then have "covers1 (Chars (length q' + 1) (len_utf8 c)) (q' @ [c])"
      using Cons.prems by (auto simp: q'_def flush_def)
    then show ?thesis using Cons.IH [of "q' @ [c]"] False by (simp add: rest_def)
  qed
  then obtain ps where "covers rest ps" "concat ps = q' @ c # cs" by blast
  then show ?case
    using Cons.prems unfolding runs
    by (intro exI [of _ "(if flush then [q] else []) @ ps"]) (auto simp: q'_def covers_def flush_def)
qed

lemma covers_simps [simp]:
  "covers [] ps \<longleftrightarrow> ps = []" "covers rs [] \<longleftrightarrow> rs = []"
  "covers (r # rs) (p # ps) \<longleftrightarrow> covers1 r p \<and> covers rs ps"
  by (simp_all add: covers_def)

section \<open>Measures of prefixes\<close>

text \<open>What a seek in a tree of runs relies on: the dimension measures the prefix passed, and
  longer prefixes measure more.\<close>

locale text_measure = dimension_laws run_ops summary_ok D "\<lambda>_. True"
  for D :: "('d::linorder, text_summary) dimension" +
  fixes f :: "rust_str \<Rightarrow> 'd"
  assumes measure_Nil: "f [] = dim_default D"
    and measure_run: "covers1 r p \<Longrightarrow> length p < 2 ^ 32 \<Longrightarrow> dim_add D (f xs) (run_summary r) = f (xs @ p)"
    and measure_grows: "p \<noteq> [] \<Longrightarrow> f xs < f (xs @ p)"
begin

lemma measure_le: "f xs \<le> f (xs @ ys)"
  using measure_grows [of ys xs] by (cases "ys = []") auto

lemma measure_take_less:
  assumes "i < j" "j \<le> length cs" shows "f (take i cs) < f (take j cs)"
proof -
  have "take j cs = take i cs @ take (j - i) (drop i cs)"
    using assms(1) by (metis le_add_diff_inverse less_imp_le take_add)
  then show ?thesis using measure_grows [of "take (j - i) (drop i cs)" "take i cs"] assms by simp
qed

lemma measure_take_le_iff:
  assumes "i \<le> length cs" "j \<le> length cs" shows "f (take i cs) \<le> f (take j cs) \<longleftrightarrow> i \<le> j"
  using measure_take_less [of i j cs] measure_take_less [of j i cs] assms
  by (cases i j rule: linorder_cases) auto

lemma advance_measure:
  assumes "covers rs ps" "length (concat ps) < 2 ^ 32"
  shows "advance D run_ops (f xs) rs = f (xs @ concat ps)"
  using assms unfolding covers_def
proof (induction arbitrary: xs rule: list_all2_induct)
  case (Cons r rs p ps)
  then show ?case using measure_run [of r p xs] Cons.IH [of "xs @ p"] by (simp add: run_ops_def)
qed simp

lemma climbs_measure:
  assumes "covers rs ps" "length (concat ps) < 2 ^ 32"
  shows "climbs D run_ops (f xs) rs"
  using assms unfolding covers_def
proof (induction arbitrary: xs rule: list_all2_induct)
  case (Cons r rs p ps)
  then show ?case using measure_run [of r p xs] Cons.IH [of "xs @ p"] measure_le by (simp add: run_ops_def)
qed simp

lemma skipped_measure:
  assumes "covers rs ps" "length (concat ps) < 2 ^ 32" "cs = xs @ concat ps" "length xs \<le> k" "k \<le> length cs"
  shows "\<exists>rs1 rs2 ps1 ps2. rs = rs1 @ rs2 \<and> ps = ps1 @ ps2 \<and> covers rs1 ps1 \<and> covers rs2 ps2 \<and>
    skipped D run_ops SeekRight (f (take k cs)) (f xs) rs = rs1 \<and> length (xs @ concat ps1) \<le> k \<and>
    (case ps2 of [] \<Rightarrow> True | p # _ \<Rightarrow> k < length (xs @ concat ps1 @ p))"
  using assms unfolding covers_def
proof (induction arbitrary: xs rule: list_all2_induct)
  case Nil
  then show ?case by simp
next
  case (Cons r rs p ps)
  have add: "dim_add D (f xs) (it_summary run_ops r) = f (xs @ p)"
    using measure_run [of r p xs] Cons by (simp add: run_ops_def)
  have "f (xs @ p) \<le> f (take k cs) \<longleftrightarrow> length (xs @ p) \<le> k"
    using measure_take_le_iff [of "length (xs @ p)" cs k] Cons.prems by simp
  then have bey: "beyond SeekRight (f (take k cs)) (f (xs @ p)) \<longleftrightarrow> length (xs @ p) \<le> k"
    by (auto simp: beyond_def)
  show ?case
  proof (cases "length (xs @ p) \<le> k")
    case True
    obtain rs1 rs2 ps1 ps2 where IH: "rs = rs1 @ rs2" "ps = ps1 @ ps2" "list_all2 covers1 rs1 ps1" "list_all2 covers1 rs2 ps2"
      "skipped D run_ops SeekRight (f (take k cs)) (f (xs @ p)) rs = rs1" "length ((xs @ p) @ concat ps1) \<le> k"
      "case ps2 of [] \<Rightarrow> True | q # _ \<Rightarrow> k < length ((xs @ p) @ concat ps1 @ q)"
      using Cons.IH [of "xs @ p"] Cons.prems True by auto
    then show ?thesis
      using True bey add Cons.hyps(1)
      by (intro exI [of _ "r # rs1"] exI [of _ rs2] exI [of _ "p # ps1"] exI [of _ ps2]) (auto split: list.splits)
  next
    case False
    then show ?thesis
      using bey add Cons by (intro exI [of _ "[]"] exI [of _ "r # rs"] exI [of _ "[]"] exI [of _ "p # ps"]) auto
  qed
qed

end

interpretation chars_measure: text_measure chars_dim length
  by unfold_locales (simp_all add: chars_dim_def covers1_summary)

interpretation bytes_measure: text_measure bytes_dim str_len
proof unfold_locales
  have pos: "0 < len_utf8 c" for c by (simp add: len_utf8_def)
  show "p \<noteq> [] \<Longrightarrow> str_len xs < str_len (xs @ p)" for xs p
    using pos by (cases p) (simp_all add: str_len_def)
qed (simp_all add: bytes_dim_def covers1_summary str_len_def)

interpretation point_measure: text_measure point_dim text_end
  by unfold_locales
    (simp_all add: point_dim_def covers1_summary text_end_append point_add_greater(2) text_end_not_zero)

section \<open>Texts that cover their string\<close>

definition text_ok :: "buffer_text \<Rightarrow> bool" where
  "text_ok t \<longleftrightarrow> wf_node run_ops (tx_runs t) \<and> node_height (tx_runs t) < 16 \<and>
     (\<exists>ps. covers (tree_items (tx_runs t)) ps \<and> concat ps = tx_text t) \<and>
     length (tx_text t) < 2 ^ 32 \<and> tx_start t \<le> tx_end t \<and> tx_end t \<le> length (tx_text t)"

text \<open>The characters a text stands for.\<close>

definition text_content :: "buffer_text \<Rightarrow> rust_str" where
  "text_content t = drop (tx_start t) (take (tx_end t) (tx_text t))"

text \<open>Where a seek to the offset \<open>k\<close> stops: the runs passed cover at most \<open>k\<close> characters, and the
  next run covers the character at \<open>k\<close>.\<close>

definition splits_at :: "buffer_text \<Rightarrow> nat \<Rightarrow> run list \<Rightarrow> run list \<Rightarrow> rust_str \<Rightarrow> rust_str list \<Rightarrow> bool" where
  "splits_at t k rs1 rs2 pre ps2 \<longleftrightarrow>
     (\<exists>ps1. covers rs1 ps1 \<and> concat ps1 = pre) \<and> covers rs2 ps2 \<and> tree_items (tx_runs t) = rs1 @ rs2 \<and>
     tx_text t = pre @ concat ps2 \<and> length pre \<le> k \<and> (case ps2 of [] \<Rightarrow> True | p # _ \<Rightarrow> k < length pre + length p)"

context text_measure
begin

lemma seek_text:
  assumes "dimension_laws run_ops summary_ok U uok" "text_ok t" "k \<le> length (tx_text t)"
  shows "\<exists>b c rs1 rs2 pre ps2.
    seek run_ops D U (f (take k (tx_text t))) SeekRight (cursor_new D U (tx_runs t)) = Some (b, c) \<and>
    cursor_at run_ops D U c rs1 rs2 \<and> splits_at t k rs1 rs2 pre ps2"
proof -
  let ?rs = "tree_items (tx_runs t)" and ?cs = "tx_text t"
  obtain ps where ps: "covers ?rs ps" "concat ps = ?cs" "length (concat ps) < 2 ^ 32"
    and wf: "wf_node run_ops (tx_runs t)" "node_height (tx_runs t) < 16"
    using assms(2) by (auto simp: text_ok_def)
  obtain rs1 rs2 ps1 ps2 where s: "?rs = rs1 @ rs2" "ps = ps1 @ ps2" "covers rs1 ps1" "covers rs2 ps2"
    "skipped D run_ops SeekRight (f (take k ?cs)) (f []) ?rs = rs1" "length (concat ps1) \<le> k"
    "case ps2 of [] \<Rightarrow> True | p # _ \<Rightarrow> k < length (concat ps1 @ p)"
    using skipped_measure [OF ps(1,3), of ?cs "[]" k, unfolded append_Nil list.size(3) ps(2), OF refl le0 assms(3)] by blast
  have "climbs D run_ops (dim_default D) ?rs" "dim_default D \<le> f (take k ?cs)"
    using climbs_measure [OF ps(1,3), of "[]"] measure_le [of "[]"] by (simp_all add: measure_Nil)
  then obtain b c where "seek run_ops D U (f (take k ?cs)) SeekRight (cursor_new D U (tx_runs t)) = Some (b, c)"
    "cursor_at run_ops D U c rs1 rs2"
    using seek_at [OF dimension_laws_axioms assms(1) wf, of "f (take k ?cs)" SeekRight] s(1,5) by (auto simp: measure_Nil)
  then show ?thesis
    using s ps(2) unfolding splits_at_def
    by (intro exI [of _ b] exI [of _ c] exI [of _ rs1] exI [of _ rs2] exI [of _ "concat ps1"] exI [of _ ps2])
       (auto split: list.splits)
qed

lemma advance_splits:
  assumes "splits_at t k rs1 rs2 pre ps2" "text_ok t"
  shows "advance D run_ops (dim_default D) rs1 = f pre"
proof -
  obtain ps1 where "covers rs1 ps1" "concat ps1 = pre" using assms(1) by (auto simp: splits_at_def)
  moreover have "length pre < 2 ^ 32" using assms by (simp add: splits_at_def text_ok_def)
  ultimately show ?thesis using advance_measure [of rs1 ps1 "[]"] by (simp add: measure_Nil)
qed

end

lemma dim_defaults:
  "ts_chars (dim_default summary_dim) = dim_default chars_dim" "ts_bytes (dim_default summary_dim) = dim_default bytes_dim"
  "ts_lines (dim_default summary_dim) = dim_default point_dim"
  by (simp_all add: summary_dim_def chars_dim_def bytes_dim_def point_dim_def text_summary_default_def)

lemma advance_summary:
  "ts_chars (advance summary_dim run_ops s rs) = advance chars_dim run_ops (ts_chars s) rs"
  "ts_bytes (advance summary_dim run_ops s rs) = advance bytes_dim run_ops (ts_bytes s) rs"
  "ts_lines (advance summary_dim run_ops s rs) = advance point_dim run_ops (ts_lines s) rs"
  by (induction rs arbitrary: s) (simp_all add: summary_dim_def chars_dim_def bytes_dim_def point_dim_def)

text \<open>What the cursor knows there, and how the offset is measured from it.\<close>

lemma splits_at_start:
  assumes "cursor_at run_ops D summary_dim c rs1 rs2" "splits_at t k rs1 rs2 pre ps2" "text_ok t"
  shows "ts_chars (cursor_start c) = length pre" "ts_bytes (cursor_start c) = str_len pre" "ts_lines (cursor_start c) = text_end pre"
  using assms(1) chars_measure.advance_splits [OF assms(2,3)] bytes_measure.advance_splits [OF assms(2,3)]
    point_measure.advance_splits [OF assms(2,3)]
  by (simp_all add: cursor_at_def cursor_start_def advance_summary dim_defaults)

lemma splits_at_overshoot:
  assumes "splits_at t k rs1 rs2 pre ps2" "text_ok t" "k \<le> length (tx_text t)"
  shows "as_u32 (k - length pre) = k - length pre"
    "text_end (take k (tx_text t)) = point_add (text_end pre) (Point 0 (k - length pre))"
    "str_len (take k (tx_text t)) =
       str_len pre + (k - length pre) * (case rs2 of [] \<Rightarrow> 0 | r # _ \<Rightarrow> run_char_size r)"
    "rs2 = [] \<Longrightarrow> k = length pre" "length pre \<le> k"
proof -
  have cs: "tx_text t = pre @ concat ps2" "length pre \<le> k" "covers rs2 ps2"
    "case ps2 of [] \<Rightarrow> True | p # _ \<Rightarrow> k < length pre + length p"
    using assms(1) by (simp_all add: splits_at_def)
  show "length pre \<le> k" by (fact cs(2))
  show "rs2 = [] \<Longrightarrow> k = length pre" using cs assms(3) by simp
  show "as_u32 (k - length pre) = k - length pre"
  proof -
    have "k < 2 ^ 32" using assms(2,3) by (simp add: text_ok_def)
    then show ?thesis by (simp add: as_u32_def)
  qed
  have "text_end (take k (tx_text t)) = point_add (text_end pre) (Point 0 (k - length pre)) \<and>
    str_len (take k (tx_text t)) = str_len pre + (k - length pre) * (case rs2 of [] \<Rightarrow> 0 | r # _ \<Rightarrow> run_char_size r)"
  proof (cases ps2)
    case Nil
    then show ?thesis using cs assms(3) by simp
  next
    case (Cons p ps)
    then obtain r rs where r: "rs2 = r # rs" "covers1 r p" using cs(3) by (cases rs2) auto
    have take: "take k (tx_text t) = pre @ take (k - length pre) p" "k - length pre < length p"
      using cs Cons by auto
    show ?thesis using r take covers1_take [OF r(2) take(2)] by (simp add: text_end_append str_len_def)
  qed
  then show "text_end (take k (tx_text t)) = point_add (text_end pre) (Point 0 (k - length pre))"
    "str_len (take k (tx_text t)) =
       str_len pre + (k - length pre) * (case rs2 of [] \<Rightarrow> 0 | r # _ \<Rightarrow> run_char_size r)" by simp_all
qed

section \<open>The conversions count in the string\<close>

lemma seek_offset:
  assumes "text_ok t" "k \<le> length (tx_text t)"
  obtains b c rs1 rs2 pre ps2 where
    "seek run_ops chars_dim summary_dim k SeekRight (text_cursor chars_dim t) = Some (b, c)"
    "cursor_at run_ops chars_dim summary_dim c rs1 rs2" "splits_at t k rs1 rs2 pre ps2"
  using chars_measure.seek_text [OF by_summary.dimension_laws_axioms assms] assms(2) by (auto simp: min_absorb2)

lemma abs_point_for_offset_eq:
  assumes "text_ok t" "k \<le> length (tx_text t)"
  shows "abs_point_for_offset t k = Some (text_end (take k (tx_text t)))"
proof -
  obtain b c rs1 rs2 pre ps2 where
    s: "seek run_ops chars_dim summary_dim k SeekRight (text_cursor chars_dim t) = Some (b, c)"
    "cursor_at run_ops chars_dim summary_dim c rs1 rs2" "splits_at t k rs1 rs2 pre ps2"
    by (rule seek_offset [OF assms])
  note splits_at_start [OF s(2,3) assms(1)] splits_at_overshoot [OF s(3) assms]
  then show ?thesis using s(1) by (simp add: abs_point_for_offset_def checked_sub_def)
qed

lemma abs_byte_offset_eq:
  assumes "text_ok t" "k \<le> length (tx_text t)"
  shows "abs_byte_offset_for_offset t k = Some (str_len (take k (tx_text t)))"
proof -
  obtain b c rs1 rs2 pre ps2 where
    s: "seek run_ops chars_dim summary_dim k SeekRight (text_cursor chars_dim t) = Some (b, c)"
    "cursor_at run_ops chars_dim summary_dim c rs1 rs2" "splits_at t k rs1 rs2 pre ps2"
    by (rule seek_offset [OF assms])
  note splits_at_start [OF s(2,3) assms(1)] splits_at_overshoot [OF s(3) assms] cursor_at_item [OF s(2)]
  then show ?thesis
    using s(1) by (cases rs2) (simp_all add: abs_byte_offset_for_offset_def checked_sub_def)
qed

lemma text_content_take:
  assumes "text_ok t" "k \<le> length (text_content t)"
  shows "take (tx_start t + k) (tx_text t) = take (tx_start t) (tx_text t) @ take k (text_content t)"
    "tx_start t + k \<le> tx_end t" "tx_start t + k \<le> length (tx_text t)"
proof -
  show "tx_start t + k \<le> tx_end t" "tx_start t + k \<le> length (tx_text t)"
    using assms by (auto simp: text_ok_def text_content_def)
  then show "take (tx_start t + k) (tx_text t) = take (tx_start t) (tx_text t) @ take k (text_content t)"
    by (simp add: text_content_def take_add drop_take min_def)
qed

lemma length_text_content: "text_ok t \<Longrightarrow> length (text_content t) = tx_end t - tx_start t"
  by (simp add: text_ok_def text_content_def)

lemma text_ok_start: "text_ok t \<Longrightarrow> tx_start t \<le> length (tx_text t)" "text_ok t \<Longrightarrow> tx_end t \<le> length (tx_text t)"
  by (simp_all add: text_ok_def)

lemma str_len_append [simp]: "str_len (xs @ ys) = str_len xs + str_len ys"
  by (simp add: str_len_def)

lemma point_for_offset_eq:
  assumes "text_ok t" "k \<le> length (text_content t)"
  shows "point_for_offset t k = Some (text_end (take k (text_content t)))"
  using abs_point_for_offset_eq [OF assms(1)] text_content_take [OF assms] text_ok_start [OF assms(1)]
  by (simp add: point_for_offset_def text_end_append point_sub_add)

lemma offset_for_point_eq:
  assumes "text_ok t" "k \<le> length (text_content t)"
  shows "offset_for_point t (text_end (take k (text_content t))) = Some k"
proof -
  let ?k = "tx_start t + k"
  note take = text_content_take [OF assms]
  have p: "point_add (text_end (take (tx_start t) (tx_text t))) (text_end (take k (text_content t))) = text_end (take ?k (tx_text t))"
    using take(1) by (simp add: text_end_append)
  obtain b c rs1 rs2 pre ps2 where
    s: "seek run_ops point_dim summary_dim (text_end (take ?k (tx_text t))) SeekRight (text_cursor point_dim t) = Some (b, c)"
    "cursor_at run_ops point_dim summary_dim c rs1 rs2" "splits_at t ?k rs1 rs2 pre ps2"
    using point_measure.seek_text [OF by_summary.dimension_laws_axioms assms(1) take(3)] by blast
  have "point_sub (text_end (take ?k (tx_text t))) (ts_lines (cursor_start c)) = Some (Point 0 (?k - length pre))"
    using splits_at_start [OF s(2,3) assms(1)] splits_at_overshoot(2) [OF s(3) assms(1) take(3)] by (simp add: point_sub_add)
  moreover have "ts_chars (cursor_start c) + (?k - length pre) = ?k"
    using splits_at_start [OF s(2,3) assms(1)] splits_at_overshoot(5) [OF s(3) assms(1) take(3)] by simp
  ultimately show ?thesis
    using s(1) p abs_point_for_offset_eq [OF assms(1) text_ok_start(1) [OF assms(1)]]
    by (simp add: offset_for_point_def checked_sub_def)
qed

lemma char_offset_eq:
  assumes "text_ok t" "k \<le> length (text_content t)"
  shows "char_offset_for_byte_offset t (str_len (take k (text_content t))) = Some k"
proof -
  let ?k = "tx_start t + k"
  note take = text_content_take [OF assms]
  obtain b c rs1 rs2 pre ps2 where
    s: "seek run_ops bytes_dim summary_dim (str_len (take ?k (tx_text t))) SeekRight (text_cursor bytes_dim t) = Some (b, c)"
    "cursor_at run_ops bytes_dim summary_dim c rs1 rs2" "splits_at t ?k rs1 rs2 pre ps2"
    using bytes_measure.seek_text [OF by_summary.dimension_laws_axioms assms(1) take(3)] by blast
  note start = splits_at_start [OF s(2,3) assms(1)] and over = splits_at_overshoot [OF s(3) assms(1) take(3)]
  have size: "0 < run_char_size r" if "rs2 = r # rs" for r rs
    using s(3) that len_utf8_def by (cases ps2; cases r) (auto simp: splits_at_def list_all_iff neq_Nil_conv)
  have "cursor_item c = Some (case rs2 of [] \<Rightarrow> None | x # _ \<Rightarrow> Some x)" by (rule cursor_at_item [OF s(2)])
  then show ?thesis
    using s(1) start over take(1) size abs_byte_offset_eq [OF assms(1) text_ok_start(1) [OF assms(1)]]
    by (cases rs2) (simp_all add: char_offset_for_byte_offset_def checked_sub_def)
qed

lemma len_utf8_pos: "0 < len_utf8 c"
  by (simp add: len_utf8_def)

lemma char_at_byte_take: "k \<le> length cs \<Longrightarrow> char_at_byte cs (str_len (take k cs)) = Some k"
proof (induction cs arbitrary: k)
  case (Cons c cs)
  show ?case
  proof (cases k)
    case (Suc m)
    obtain n where n: "len_utf8 c + str_len (take m cs) = Suc n"
      using len_utf8_pos [of c] by (metis add_is_0 not0_implies_Suc not_gr0)
    then have "Suc n - len_utf8 c = str_len (take m cs)" "len_utf8 c \<le> Suc n" by linarith+
    then show ?thesis using Cons.IH [of m] Cons.prems Suc n by (simp add: str_len_def)
  qed (simp add: str_len_def)
qed (simp add: str_len_def)

lemma str_slice_eq:
  assumes "i \<le> j" "j \<le> length cs"
  shows "str_slice cs (str_len (take i cs)) (str_len (take j cs)) = Some (drop i (take j cs))"
proof -
  have "str_len (take i cs) \<le> str_len (take j cs)"
    using bytes_measure.measure_take_le_iff [of i cs j] assms by simp
  then show ?thesis using assms by (simp add: str_slice_def char_at_byte_take)
qed

lemma as_str_eq: "text_ok t \<Longrightarrow> as_str t = Some (text_content t)"
  using text_ok_start [of t] str_slice_eq [of "tx_start t" "tx_end t" "tx_text t"]
  by (simp add: as_str_def abs_byte_offset_eq text_content_def) (simp add: text_ok_def)

lemma text_index_eq:
  assumes "text_ok t" "i \<le> j"
  shows "text_index t i j = Some (take (j - i) (drop i (text_content t)))"
proof -
  let ?i = "min (tx_start t + i) (tx_end t)" and ?j = "min (tx_start t + j) (tx_end t)"
  have le: "?i \<le> ?j" "?j \<le> length (tx_text t)" "?i \<le> length (tx_text t)"
    using assms text_ok_start [OF assms(1)] by (auto simp: min_le_iff_disj min_def)
  have "drop ?i (take ?j (tx_text t)) = take (j - i) (drop i (text_content t))"
    using assms text_ok_start [OF assms(1)] by (auto simp: text_content_def drop_take min_def add.commute text_ok_def)
  then show ?thesis
    using str_slice_eq [OF le(1,2)] abs_byte_offset_eq [OF assms(1) le(2)] abs_byte_offset_eq [OF assms(1) le(3)]
    by (simp add: text_index_def)
qed

lemma text_slice_ok:
  assumes "text_ok t" "i \<le> j"
  shows "text_ok (text_slice i j t)" "text_content (text_slice i j t) = take (j - i) (drop i (text_content t))"
proof -
  show "text_ok (text_slice i j t)" using assms by (auto simp: text_ok_def text_slice_def)
  show "text_content (text_slice i j t) = take (j - i) (drop i (text_content t))"
    using assms by (auto simp: text_content_def text_slice_def drop_take min_def add.commute text_ok_def)
qed

lemma six_power_bound: "(6::nat) ^ h < 2 ^ 32 \<Longrightarrow> h < 16"
proof (rule ccontr)
  assume "(6::nat) ^ h < 2 ^ 32" "\<not> h < 16"
  then have "(6::nat) ^ 16 \<le> 6 ^ h" by (intro power_increasing) simp_all
  then show False using \<open>6 ^ h < 2 ^ 32\<close> by simp
qed

lemma covers_length: "covers rs ps \<Longrightarrow> length rs \<le> length (concat ps)"
  unfolding covers_def
proof (induction rule: list_all2_induct)
  case (Cons r rs p ps)
  then show ?case using covers1_nonempty [of r p] by (cases p) auto
qed simp

lemma text_from_ok:
  assumes "length s < 2 ^ 32"
  shows "\<exists>t. text_from s = Some t \<and> text_ok t \<and> text_content t = s \<and> tx_start t = 0"
proof -
  obtain ps where ps: "covers (text_runs 0 0 s) ps" "concat ps = s" using text_runs_cover [of "[]" 0 0 s] by auto
  obtain tree where tree: "tree_extend run_ops (text_runs 0 0 s) (tree_new run_ops) = Some tree" "wf_node run_ops tree"
    "tree_items tree = text_runs 0 0 s" "root_filled tree"
    using run_laws.extend_appends [OF new_tree(1), of "text_runs 0 0 s"] new_tree(2,3) [of run_ops] by auto
  have "node_height tree < 16"
  proof (cases "node_height tree = 0")
    case False
    then have "2 * 6 ^ node_height tree \<le> length s"
      using root_filled_items [OF tree(2,4)] covers_length [OF ps(1)] ps(2) tree(3) by (simp add: TREE_BASE_def)
    then show ?thesis using assms six_power_bound [of "node_height tree"] by linarith
  qed simp
  then show ?thesis
    using assms ps tree by (auto simp: text_from_def text_ok_def text_content_def)
qed

section \<open>Lines\<close>

text \<open>The \<open>r\<close>-th line of a string, without its newline.\<close>

fun line_at :: "nat \<Rightarrow> rust_str \<Rightarrow> rust_str" where
  "line_at 0 cs = takeWhile (\<lambda>c. c \<noteq> 10) cs"
| "line_at (Suc r) cs = line_at r (drop 1 (dropWhile (\<lambda>c. c \<noteq> 10) cs))"

definition line_tail :: "rust_str \<Rightarrow> bool" where
  "line_tail z \<longleftrightarrow> z = [] \<or> hd z = 10"

lemma line_at_split:
  assumes "r \<le> row (text_end cs)"
  shows "\<exists>a l z. cs = a @ l @ z \<and> text_end a = Point r 0 \<and> 10 \<notin> set l \<and> line_tail z \<and> line_at r cs = l"
  using assms
proof (induction r cs rule: line_at.induct)
  case (1 cs)
  have "cs = takeWhile (\<lambda>c. c \<noteq> 10) cs @ dropWhile (\<lambda>c. c \<noteq> 10) cs" by simp
  moreover have "line_tail (dropWhile (\<lambda>c. c \<noteq> 10) cs)"
    using hd_dropWhile [of "\<lambda>c. c \<noteq> 10" cs] by (auto simp: line_tail_def)
  moreover have "10 \<notin> set (takeWhile (\<lambda>c. c \<noteq> 10) cs)" by (auto dest: set_takeWhileD)
  ultimately show ?case
    by (intro exI [of _ "[]"] exI [of _ "takeWhile (\<lambda>c. c \<noteq> 10) cs"] exI [of _ "dropWhile (\<lambda>c. c \<noteq> 10) cs"]) simp
next
  case (2 r cs)
  let ?w = "takeWhile (\<lambda>c. c \<noteq> 10) cs" and ?d = "dropWhile (\<lambda>c. c \<noteq> 10) cs"
  have w: "text_end ?w = Point 0 (length ?w)" by (rule text_end_no_newline) (auto dest: set_takeWhileD)
  have "?d \<noteq> []"
  proof
    assume "?d = []"
    then have "cs = ?w" by (metis append_Nil2 takeWhile_dropWhile_id)
    then have "row (text_end cs) = 0" using w by (metis text_point.sel(1))
    then show False using 2(2) by simp
  qed
  then have d: "?d = 10 # drop 1 ?d" using hd_dropWhile [of "\<lambda>c. c \<noteq> 10" cs] by (cases ?d) auto
  have cs: "cs = (?w @ [10]) @ drop 1 ?d" using d by (metis append.assoc append_Cons append_Nil takeWhile_dropWhile_id)
  then have "row (text_end cs) = 1 + row (text_end (drop 1 ?d))"
    using text_end_append [of "?w @ [10]" "drop 1 ?d"] w by simp
  then obtain a l z where "drop 1 ?d = a @ l @ z" "text_end a = Point r 0" "10 \<notin> set l" "line_tail z"
    "line_at r (drop 1 ?d) = l" using 2 by auto
  then show ?case
    using cs w text_end_append [of "?w @ [10]" a]
    by (intro exI [of _ "(?w @ [10]) @ a"] exI [of _ l] exI [of _ z]) (simp add: point_add_def)
qed

text \<open>The runs up to the end of the line are those before the start of the next row.\<close>

lemma skipped_line:
  assumes "covers rs ps" "length (concat ps) < 2 ^ 32" "concat ps = l @ z" "10 \<notin> set l" "line_tail z"
  shows "\<exists>rs1 ps1. skipped point_dim run_ops SeekLeft (Point (row (text_end xs) + 1) 0) (text_end xs) rs = rs1 \<and>
    covers rs1 ps1 \<and> concat ps1 = l"
  using assms unfolding covers_def
proof (induction arbitrary: xs l rule: list_all2_induct)
  case Nil
  then show ?case by auto
next
  case (Cons r rs p ps)
  have add: "dim_add point_dim (text_end xs) (it_summary run_ops r) = text_end (xs @ p)"
    using point_measure.measure_run [of r p xs] Cons by (simp add: run_ops_def)
  show ?case
  proof (cases r)
    case Newline
    then have "l = []" using Cons by (cases l) auto
    then show ?thesis
      using Newline Cons add by (auto simp: beyond_def text_end_append point_add_def)
  next
    case (Chars n sz)
    then have p: "10 \<notin> set p" "p \<noteq> []" "text_end p = Point 0 (length p)"
      using Cons.hyps(1) text_end_no_newline [of p] by auto
    have "\<exists>l'. l = p @ l' \<and> concat ps = l' @ z"
    proof -
      obtain us where "p = l @ us \<and> us @ concat ps = z \<or> p @ us = l \<and> concat ps = us @ z"
        using Cons.prems(2) by (auto simp: append_eq_append_conv2)
      then show ?thesis using p(1) Cons.prems(4) by (cases us) (auto simp: line_tail_def)
    qed
    then obtain l' where l: "l = p @ l'" "concat ps = l' @ z" by blast
    have "row (text_end (xs @ p)) = row (text_end xs)" using p(3) by (simp add: text_end_append)
    moreover from this have "beyond SeekLeft (Point (row (text_end xs) + 1) 0) (text_end (xs @ p))"
      by (simp add: beyond_def less_text_point_def)
    moreover obtain rs1 ps1 where
      "skipped point_dim run_ops SeekLeft (Point (row (text_end (xs @ p)) + 1) 0) (text_end (xs @ p)) rs = rs1"
      "list_all2 covers1 rs1 ps1" "concat ps1 = l'"
      using Cons.IH [of l' "xs @ p"] Cons.prems l by auto
    ultimately show ?thesis
      using add l Cons.hyps(1) by (intro exI [of _ "r # rs1"] exI [of _ "p # ps1"]) (simp add: Let_def)
  qed
qed

lemma takeWhile_line: "10 \<notin> set l \<Longrightarrow> line_tail z \<Longrightarrow> takeWhile (\<lambda>c. c \<noteq> 10) (l @ z) = l"
  by (induction l) (cases z; auto simp: line_tail_def)+

lemma drop_cut:
  assumes "length a \<le> q" shows "drop q (take e (a @ w)) = drop (q - length a) (take (e - length a) w)"
proof -
  have "e - length a - (q - length a) = e - q" using assms by linarith
  then show ?thesis using assms by (simp add: drop_take del: take_append)
qed

lemma line_tail_take: "line_tail z \<Longrightarrow> line_tail (take n z)"
  by (cases z; cases n) (auto simp: line_tail_def)

lemma takeWhile_cut:
  assumes "10 \<notin> set l" "line_tail z" "i \<le> length l"
  shows "takeWhile (\<lambda>c. c \<noteq> 10) (drop i (take j (l @ z))) = drop i (take j l)"
proof -
  have "drop i (take j (l @ z)) = drop i (take j l) @ take (j - length l) z"
    using assms(3) by (cases "j \<le> length l") (simp_all add: drop_take)
  moreover have "10 \<notin> set (drop i (take j l))" using assms(1) by (meson in_set_dropD in_set_takeD)
  ultimately show ?thesis using takeWhile_line line_tail_take [OF assms(2)] by metis
qed

text \<open>Where a line of a slice lies in the whole string.\<close>

lemma line_position:
  assumes cs: "cs = a @ l @ z" "text_end a = Point (row (text_end x) + r) 0" "line_tail z"
    and x: "cs = x @ a' @ y" "text_end a' = Point r 0"
  shows "length a \<le> length (x @ a')" "length (x @ a') \<le> length (a @ l)" "length (x @ a') - length a = length x - length a"
proof -
  have xa: "text_end (x @ a') = (if r = 0 then text_end x else Point (row (text_end x) + r) 0)"
    using x(2) by (simp add: text_end_append point_add_def)
  have le_iff: "text_end (take i cs) \<le> text_end (take j cs) \<longleftrightarrow> i \<le> j" if "i \<le> length cs" "j \<le> length cs" for i j
    using point_measure.measure_take_le_iff that .
  have takes: "take (length a) cs = a" "take (length (x @ a')) cs = x @ a'" using cs(1) x(1) by (simp, metis append.assoc append_eq_conv_conj)
  have len: "length (x @ a') \<le> length cs" "length a \<le> length cs" by (subst x(1), simp, subst cs(1), simp)
  have rows: "row (text_end (x @ a')) = row (text_end a)" using xa cs(2) by simp
  show "length a \<le> length (x @ a')"
    using le_iff [OF len(2,1)] takes rows cs(2) by (simp add: less_eq_text_point_def)
  show "length (x @ a') \<le> length (a @ l)"
  proof (rule ccontr)
    assume gt: "\<not> ?thesis"
    then have z: "z = 10 # tl z" using len cs(1,3) by (cases z) (auto simp: line_tail_def)
    have "take (Suc (length (a @ l))) cs = (a @ l) @ [10]"
      by (subst cs(1), subst z) simp
    moreover have "text_end (take (Suc (length (a @ l))) cs) \<le> text_end (take (length (x @ a')) cs)"
      using le_iff [of "Suc (length (a @ l))" "length (x @ a')"] len gt by linarith
    ultimately have "row (text_end (a @ l)) + 1 \<le> row (text_end a)"
      using rows takes by (simp add: less_eq_text_point_def flip: append_assoc) linarith
    then show False by (simp add: text_end_append)
  qed
  show "length (x @ a') - length a = length x - length a"
  proof (cases "r = 0")
    case True
    then have "a' = []" using x(2) text_end_not_zero by metis
    then show ?thesis by simp
  next
    case False
    then have "text_end (x @ a') = text_end a" using xa cs(2) by simp
    then have "length (x @ a') = length a" using le_iff [OF len] le_iff [OF len(2,1)] takes by (metis order_antisym order_refl)
    then show ?thesis by simp
  qed
qed

lemma clipped_length:
  fixes a :: nat assumes "a \<le> q" "q \<le> a + n" "q \<le> e"
  shows "min (e - a) n - (q - a) = n - (q - a) - (a + n - e)"
  using assms by (cases "e - a \<le> n") simp_all

lemma slice_line_length:
  assumes cs: "cs = a @ l @ z" "text_end a = Point (row (text_end (take s cs)) + r) 0" "10 \<notin> set l" "line_tail z"
    and range: "s \<le> e" "e \<le> length cs" "r \<le> row (text_end (drop s (take e cs)))"
  shows "length (line_at r (drop s (take e cs))) = length l - (s - length a) - (length a + length l - e)"
proof -
  obtain a' l' z' where c: "drop s (take e cs) = a' @ l' @ z'" "text_end a' = Point r 0" "10 \<notin> set l'" "line_tail z'"
    "line_at r (drop s (take e cs)) = l'" using line_at_split [OF range(3)] by blast
  have x: "cs = take s cs @ a' @ (l' @ z' @ drop e cs)"
  proof -
    have "take e cs = take s cs @ drop s (take e cs)" using range(1) append_take_drop_id [of s "take e cs"] by (simp add: min_absorb1)
    then show ?thesis using c(1) append_take_drop_id [of e cs] by simp
  qed
  let ?q = "length (take s cs @ a')"
  note pos = line_position [OF cs(1,2,4) x c(2)]
  have q: "?q = s + length a'" using range by simp
  have qe: "?q \<le> e" using arg_cong [OF c(1), of length] q range by simp
  have "drop ?q (take e cs) = drop (length a') (drop s (take e cs))" using q by (simp only: drop_drop add.commute)
  then have "l' @ z' = drop ?q (take e cs)" unfolding c(1) by simp
  also have "\<dots> = drop (?q - length a) (take (e - length a) (l @ z))"
    using drop_cut [OF pos(1), of e "l @ z"] cs(1) by simp
  finally have eq: "l' @ z' = drop (?q - length a) (take (e - length a) (l @ z))" .
  have "?q - length a \<le> length l" using pos(2) by simp
  from takeWhile_cut [OF cs(3,4) this, of "e - length a"] have "l' = drop (?q - length a) (take (e - length a) l)"
    using takeWhile_line [OF c(3,4)] unfolding eq by simp
  then have "length (line_at r (drop s (take e cs))) = min (e - length a) (length l) - (?q - length a)"
    using c(5) by (simp add: min.commute)
  moreover have "?q - length a = s - length a" using pos(3) range by simp
  moreover have "?q \<le> length a + length l" using pos(2) by (simp only: length_append)
  ultimately show ?thesis using clipped_length [OF pos(1) _ qe] by metis
qed

lemma summary_at:
  assumes laws: "seek_laws T ok D dok U uok A aok"
    and at: "cursor_at T D U c pre post" and climb: "climbs D T (cu_seek c) post" and le: "cu_seek c \<le> target"
  shows "\<exists>c'. cursor_summary T D U A target bias c =
      Some (advance A T (dim_default A) (skipped D T bias target (cu_seek c) post), c') \<and>
    cursor_start c' = advance U T (cursor_start c) (skipped D T bias target (cu_seek c) post)"
proof -
  have "dimension_laws T ok A aok" using laws by (simp add: seek_laws_def)
  then have "agg_wf T aok (AggSummary (dim_default A) :: ('a, 'b, 'e) seek_aggregate)"
    using dimension_laws.dok_default by auto
  from seek_laws.seek_internal_at [OF laws at climb le this, of bias]
  show ?thesis using at by (auto simp: cursor_summary_def cursor_at_def cursor_start_def)
qed

lemma row_at_offset:
  assumes "text_ok t" "k \<le> length (tx_text t)"
  shows "\<exists>b c. seek run_ops chars_dim point_dim k SeekRight (cursor_new chars_dim point_dim (tx_runs t)) = Some (b, c) \<and>
    row (cursor_start c) = row (text_end (take k (tx_text t)))"
proof -
  obtain b c rs1 rs2 pre ps2 where
    s: "seek run_ops chars_dim point_dim k SeekRight (cursor_new chars_dim point_dim (tx_runs t)) = Some (b, c)"
    "cursor_at run_ops chars_dim point_dim c rs1 rs2" "splits_at t k rs1 rs2 pre ps2"
    using chars_measure.seek_text [OF by_point.dimension_laws_axioms assms] assms(2) by (auto simp: min_absorb2)
  have "cursor_start c = text_end pre"
    using s(2) point_measure.advance_splits [OF s(3) assms(1)] by (simp add: cursor_at_def cursor_start_def)
  then show ?thesis using s(1) splits_at_overshoot(2) [OF s(3) assms] by auto
qed

text \<open>At the start of a line the seek stops exactly there.\<close>

lemma seek_line_start:
  assumes "text_ok t" "tx_text t = a @ y" "text_end a = Point r 0"
  shows "\<exists>b c rs1 rs2 ps2. seek run_ops point_dim chars_dim (Point r 0) SeekRight (cursor_new point_dim chars_dim (tx_runs t)) = Some (b, c) \<and>
    cursor_at run_ops point_dim chars_dim c rs1 rs2 \<and> cu_seek c = Point r 0 \<and> cursor_start c = length a \<and>
    covers rs2 ps2 \<and> concat ps2 = y"
proof -
  have a: "take (length a) (tx_text t) = a" "length a \<le> length (tx_text t)" using assms(2) by simp_all
  obtain b c rs1 rs2 pre ps2 where
    s: "seek run_ops point_dim chars_dim (text_end a) SeekRight (cursor_new point_dim chars_dim (tx_runs t)) = Some (b, c)"
    "cursor_at run_ops point_dim chars_dim c rs1 rs2" "splits_at t (length a) rs1 rs2 pre ps2"
    using point_measure.seek_text [OF by_chars.dimension_laws_axioms assms(1) a(2)] a(1) by auto
  note over = splits_at_overshoot [OF s(3) assms(1) a(2)]
  have "length a - length pre = 0"
    using over(2) a(1) assms(3) by (cases "text_end pre") (simp add: point_add_def)
  then have "pre = a \<and> concat ps2 = y" using s(3) over(5) assms(2) by (simp add: splits_at_def)
  moreover have "cursor_start c = length pre" "cu_seek c = text_end pre"
    using s(2) chars_measure.advance_splits [OF s(3) assms(1)] point_measure.advance_splits [OF s(3) assms(1)]
    by (simp_all add: cursor_at_def cursor_start_def)
  ultimately show ?thesis using s assms(3) by (auto simp: splits_at_def)
qed

lemma by_line: "seek_laws run_ops summary_ok point_dim (\<lambda>_. True) chars_dim (\<lambda>_. True) chars_dim (\<lambda>_. True)"
  by (simp add: seek_laws_def by_point.dimension_laws_axioms by_chars.dimension_laws_axioms)

lemma line_len_eq:
  assumes ok: "text_ok t" and r: "r \<le> row (text_end (text_content t))"
  shows "line_len t r = Some (length (line_at r (text_content t)))"
proof -
  let ?cs = "tx_text t" and ?s = "tx_start t" and ?e = "tx_end t"
  let ?row = "row (text_end (take ?s ?cs)) + r"
  have "take ?e ?cs = take ?s ?cs @ text_content t"
    using ok take_add [of ?s "?e - ?s" ?cs] by (simp add: text_content_def text_ok_def drop_take)
  then have "?cs = (take ?s ?cs @ text_content t) @ drop ?e ?cs" by (metis append_take_drop_id)
  from arg_cong [OF this, of "\<lambda>cs. row (text_end cs)"] have "?row \<le> row (text_end ?cs)"
    using r by (simp add: text_end_append)
  then obtain a l z where line: "?cs = a @ l @ z" "text_end a = Point ?row 0" "10 \<notin> set l" "line_tail z"
    using line_at_split by blast
  obtain b c rs1 rs2 ps2 where s:
    "seek run_ops point_dim chars_dim (Point ?row 0) SeekRight (cursor_new point_dim chars_dim (tx_runs t)) = Some (b, c)"
    "cursor_at run_ops point_dim chars_dim c rs1 rs2" "cu_seek c = text_end a" "cursor_start c = length a"
    "covers rs2 ps2" "concat ps2 = l @ z"
    using seek_line_start [OF ok line(1,2)] line(2) by auto
  have short: "length (concat ps2) < 2 ^ 32" "length l < 2 ^ 32" using ok s(6) line(1) by (auto simp: text_ok_def)
  let ?ys = "skipped point_dim run_ops SeekLeft (Point (?row + 1) 0) (text_end a) rs2"
  obtain ps1 where ys: "covers ?ys ps1" "concat ps1 = l"
    using skipped_line [OF s(5) short(1) s(6) line(3,4), of a] line(2) by auto
  have chars: "advance chars_dim run_ops (length xs) ?ys = length (xs @ l)" for xs
    using chars_measure.advance_measure [OF ys(1)] ys(2) short(2) by simp
  have "text_end a \<le> Point (?row + 1) 0" using line(2) by (simp add: less_eq_text_point_def)
  from summary_at [OF by_line s(2) _ this [folded s(3)], of SeekLeft, unfolded s(3), OF point_measure.climbs_measure [OF s(5) short(1)]]
  obtain c' where c': "cursor_summary run_ops point_dim chars_dim chars_dim (Point (?row + 1) 0) SeekLeft c = Some (length l, c')"
    "cursor_start c' = length a + length l"
    using chars [of "[]"] chars [of a] s(4) by (auto simp: chars_measure.measure_Nil [symmetric])
  obtain b0 c0 where "seek run_ops chars_dim point_dim ?s SeekRight (cursor_new chars_dim point_dim (tx_runs t)) = Some (b0, c0)"
    "row (cursor_start c0) = row (text_end (take ?s ?cs))"
    using row_at_offset [OF ok text_ok_start(1) [OF ok]] by blast
  moreover have "length (line_at r (text_content t)) = length l - (?s - length a) - (length a + length l - ?e)"
    using slice_line_length [OF line, of ?e] r ok by (simp add: text_content_def text_ok_def)
  moreover from this have "as_u32 (length (line_at r (text_content t))) = length (line_at r (text_content t))"
    using short(2) by (simp only: as_u32_def mod_less)
  ultimately show ?thesis
    using s(1,4) c' by (simp add: line_len_def)
qed

section \<open>What a text guarantees\<close>

text \<open>C39: every string shorter than \<open>2 ^ 32\<close> characters has a text, whose content is the string;
  a slice of a text has the characters of the range, clamped to the text, as its content;
  and reading a text or a range of it as a string yields exactly those characters, never
  cutting a character in two.\<close>

theorem text_strings_correct:
  assumes "length s < 2 ^ 32" "i \<le> j" "m \<le> n"
  shows "\<exists>t. text_from s = Some t \<and> as_str t = Some s \<and>
    as_str (text_slice i j t) = Some (take (j - i) (drop i s)) \<and>
    text_index (text_slice i j t) m n = Some (take (n - m) (drop m (take (j - i) (drop i s))))"
proof -
  obtain t where t: "text_from s = Some t" "text_ok t" "text_content t = s"
    using text_from_ok [OF assms(1)] by blast
  note slice = text_slice_ok [OF t(2) assms(2)]
  show ?thesis using t slice as_str_eq [OF t(2)] as_str_eq [OF slice(1)] text_index_eq [OF slice(1) assms(3)] by simp
qed

theorem text_strings_correct_witness:
  "\<exists>t. text_from [97, 955, 10, 98] = Some t \<and> as_str t = Some [97, 955, 10, 98] \<and>
    as_str (text_slice 1 4 t) = Some (take (4 - 1) (drop 1 [97, 955, 10, 98])) \<and>
    text_index (text_slice 1 4 t) 0 1 = Some (take (1 - 0) (drop 0 (take (4 - 1) (drop 1 [97, 955, 10, 98]))))"
  by (rule text_strings_correct) simp_all

text \<open>C38: in a slice of a text, the point of an offset is the row and column reached by counting
  the newlines and characters before it in the slice, and the offset of that point is the
  offset again.\<close>

theorem offset_point_roundtrip:
  assumes "length s < 2 ^ 32" "i \<le> j" "k \<le> length (take (j - i) (drop i s))"
  shows "\<exists>t. map_option (text_slice i j) (text_from s) = Some t \<and>
    point_for_offset t k = Some (text_end (take k (take (j - i) (drop i s)))) \<and>
    Option.bind (point_for_offset t k) (offset_for_point t) = Some k"
proof -
  obtain t where t: "text_from s = Some t" "text_ok t" "text_content t = s"
    using text_from_ok [OF assms(1)] by blast
  note slice = text_slice_ok [OF t(2) assms(2)]
  show ?thesis
    using t(1,3) slice(2) assms(3) point_for_offset_eq [OF slice(1), of k] offset_for_point_eq [OF slice(1), of k] by simp
qed

theorem offset_point_roundtrip_witness:
  "\<exists>t. map_option (text_slice 1 4) (text_from [97, 955, 10, 98]) = Some t \<and>
    point_for_offset t 3 = Some (text_end (take 3 (take (4 - 1) (drop 1 [97, 955, 10, 98])))) \<and>
    Option.bind (point_for_offset t 3) (offset_for_point t) = Some 3"
  by (rule offset_point_roundtrip) simp_all

text \<open>in a slice of a text, the byte offset of a point is the length in UTF-8 of the
  characters before it, and the character offset of that byte offset is the number of those
  characters.\<close>

theorem byte_offset_roundtrip:
  assumes "length s < 2 ^ 32" "i \<le> j" "k \<le> length (take (j - i) (drop i s))"
  shows "\<exists>t. map_option (text_slice i j) (text_from s) = Some t \<and>
    Option.bind (point_for_offset t k) (byte_offset_for_point t) = Some (str_len (take k (take (j - i) (drop i s)))) \<and>
    char_offset_for_byte_offset t (str_len (take k (take (j - i) (drop i s)))) = Some k"
proof -
  obtain t where t: "text_from s = Some t" "text_ok t" "text_content t = s"
    using text_from_ok [OF assms(1)] by blast
  note slice = text_slice_ok [OF t(2) assms(2)]
  let ?t = "text_slice i j t"
  have k: "k \<le> length (text_content ?t)" using assms(3) slice(2) t(3) by simp
  note take = text_content_take [OF slice(1) k]
  have "byte_offset_for_point ?t (text_end (take k (text_content ?t))) = Some (str_len (take k (text_content ?t)))"
    using offset_for_point_eq [OF slice(1) k] abs_byte_offset_eq [OF slice(1) take(3)] take(1)
      abs_byte_offset_eq [OF slice(1) text_ok_start(1) [OF slice(1)]]
    by (simp add: byte_offset_for_point_def checked_sub_def add.commute)
  then show ?thesis
    using t(1,3) slice(2) k point_for_offset_eq [OF slice(1) k] char_offset_eq [OF slice(1) k] by simp
qed

theorem byte_offset_roundtrip_witness:
  "\<exists>t. map_option (text_slice 1 4) (text_from [97, 955, 10, 98]) = Some t \<and>
    Option.bind (point_for_offset t 2) (byte_offset_for_point t) = Some (str_len (take 2 (take (4 - 1) (drop 1 [97, 955, 10, 98])))) \<and>
    char_offset_for_byte_offset t (str_len (take 2 (take (4 - 1) (drop 1 [97, 955, 10, 98])))) = Some 2"
  by (rule byte_offset_roundtrip) simp_all

text \<open>the length reported for a row of a slice of a text is the number of characters of that
  line of the slice, also when the slice begins or ends inside the line.\<close>

theorem line_len_correct:
  assumes "length s < 2 ^ 32" "i \<le> j" "r \<le> row (text_end (take (j - i) (drop i s)))"
  shows "\<exists>t. map_option (text_slice i j) (text_from s) = Some t \<and>
    line_len t r = Some (length (line_at r (take (j - i) (drop i s))))"
proof -
  obtain t where t: "text_from s = Some t" "text_ok t" "text_content t = s"
    using text_from_ok [OF assms(1)] by blast
  note slice = text_slice_ok [OF t(2) assms(2)]
  show ?thesis using t(1,3) slice(2) assms(3) line_len_eq [OF slice(1), of r] by simp
qed

theorem line_len_correct_witness:
  "\<exists>t. map_option (text_slice 1 4) (text_from [97, 955, 10, 98]) = Some t \<and>
    line_len t 1 = Some (length (line_at 1 (take (4 - 1) (drop 1 [97, 955, 10, 98]))))"
  by (rule line_len_correct) (simp_all add: text_end_Cons point_add_def)

end
