(* ===== verification/Pane_Tree.thy ===== *)
theory Pane_Tree
  imports Rust_Prelude
begin

text \<open>
  The tree of split panes, \<open>app/src/pane_group/tree.rs\<close>.  A branch lays out two or more nodes along
  an axis, with a divider between neighbours; a leaf is a pane.  Beside the tree a list
  records which panes are hidden and why.

  The mutating methods return a boolean and change the tree only when it is true.  Here they
  return \<open>None\<close> for false and the new tree otherwise; a possible panic is an option inside.
  Fresh divider identifiers are arguments.  The \<open>f32\<close> arithmetic on flex factors and pane sizes
  is the record \<open>float_ops\<close>, and the positions of rendered panes are a function \<open>rects\<close>: both
  belong to the platform.
\<close>

section \<open>Loops\<close>

text \<open>\<open>for (idx, x) in xs.iter().enumerate()\<close> with an early return.\<close>

primrec find_loop :: "(nat \<Rightarrow> 'a \<Rightarrow> 'b option) \<Rightarrow> nat \<Rightarrow> 'a list \<Rightarrow> 'b option" where
  "find_loop f i [] = None"
| "find_loop f i (x # xs) = (case f i x of None \<Rightarrow> find_loop f (Suc i) xs | Some y \<Rightarrow> Some y)"

lemma find_loop_cong [fundef_cong]:
  "xs = ys \<Longrightarrow> i = j \<Longrightarrow> (\<And>k x. x \<in> set ys \<Longrightarrow> f k x = g k x) \<Longrightarrow> find_loop f i xs = find_loop g j ys"
proof (induction xs arbitrary: ys i j)
  case (Cons x xs)
  then show ?case by (auto split: option.splits)
qed simp

text \<open>A loop over mutable elements that ends at the first for which the body says so.\<close>

primrec scan_loop :: "('a \<Rightarrow> (bool \<times> 'a) option) \<Rightarrow> nat \<Rightarrow> 'a list \<Rightarrow> (nat option \<times> 'a list) option" where
  "scan_loop f i [] = Some (None, [])"
| "scan_loop f i (x # xs) =
     do { (hit, x) \<leftarrow> f x;
          if hit then Some (Some i, x # xs)
          else do { (r, xs) \<leftarrow> scan_loop f (Suc i) xs; Some (r, x # xs) } }"

lemma scan_loop_cong [fundef_cong]:
  "xs = ys \<Longrightarrow> i = j \<Longrightarrow> (\<And>x. x \<in> set ys \<Longrightarrow> f x = g x) \<Longrightarrow> scan_loop f i xs = scan_loop g j ys"
proof (induction xs arbitrary: ys i j)
  case (Cons x xs)
  then have "f x = g x" "scan_loop f (Suc i) xs = scan_loop g (Suc j) xs" by auto
  then show ?case using Cons.prems(1,2) by (cases "g x") auto
qed simp

definition position :: "('a \<Rightarrow> bool) \<Rightarrow> 'a list \<Rightarrow> nat option" where
  "position P xs = find_loop (\<lambda>i x. if P x then Some i else None) 0 xs"

definition vec_insert :: "nat \<Rightarrow> 'a \<Rightarrow> 'a list \<Rightarrow> 'a list option" where
  "vec_insert i x xs = (if i \<le> length xs then Some (take i xs @ x # drop i xs) else None)"

definition vec_remove :: "nat \<Rightarrow> 'a list \<Rightarrow> 'a list" where
  "vec_remove i xs = take i xs @ drop (Suc i) xs"

section \<open>Panes\<close>

type_synonym pane_id = nat
type_synonym entity_id = nat

datatype split_direction = Horizontal | Vertical

datatype direction = DLeft | DRight | DUp | DDown

fun dir_axis :: "direction \<Rightarrow> split_direction" where
  "dir_axis DLeft = Horizontal"
| "dir_axis DRight = Horizontal"
| "dir_axis DUp = Vertical"
| "dir_axis DDown = Vertical"

text \<open>\<open>Direction::Left | Direction::Up\<close>\<close>

fun backward :: "direction \<Rightarrow> bool" where
  "backward DLeft = True"
| "backward DUp = True"
| "backward DRight = False"
| "backward DDown = False"

record 'f float_ops =
  fl_zero :: 'f
  fl_one :: 'f
  fl_epsilon :: 'f
  fl_add :: "'f \<Rightarrow> 'f \<Rightarrow> 'f"
  fl_sub :: "'f \<Rightarrow> 'f \<Rightarrow> 'f"
  fl_mul :: "'f \<Rightarrow> 'f \<Rightarrow> 'f"
  fl_div :: "'f \<Rightarrow> 'f \<Rightarrow> 'f"
  fl_max :: "'f \<Rightarrow> 'f \<Rightarrow> 'f"
  fl_min :: "'f \<Rightarrow> 'f \<Rightarrow> 'f"
  fl_abs :: "'f \<Rightarrow> 'f"
  fl_lt :: "'f \<Rightarrow> 'f \<Rightarrow> bool"
  fl_le :: "'f \<Rightarrow> 'f \<Rightarrow> bool"

definition DEFAULT_FLEX_VALUE :: "'f float_ops \<Rightarrow> 'f" where
  "DEFAULT_FLEX_VALUE F = fl_one F"

datatype 'f pane_node =
  Branch split_direction "('f \<times> 'f pane_node) list" "entity_id list"
| Leaf pane_id

lemma pane_child_size [termination_simp]:
  "x \<in> set ns \<Longrightarrow> size (snd x) < Suc (size_list (size_prod (\<lambda>_. 0) size) ns + n)"
  by (induction ns) (auto simp: size_prod_def split: prod.splits)

section \<open>Splitting\<close>

definition branch_new :: "'f float_ops \<Rightarrow> entity_id \<Rightarrow> 'f pane_node \<Rightarrow> 'f pane_node \<Rightarrow> direction \<Rightarrow> 'f pane_node" where
  "branch_new F divider old_pane new_pane direction =
     Branch (dir_axis direction)
       (if backward direction then [(DEFAULT_FLEX_VALUE F, new_pane), (DEFAULT_FLEX_VALUE F, old_pane)]
        else [(DEFAULT_FLEX_VALUE F, old_pane), (DEFAULT_FLEX_VALUE F, new_pane)])
       [divider]"

definition for_leaves :: "'f float_ops \<Rightarrow> entity_id \<Rightarrow> pane_id \<Rightarrow> pane_id \<Rightarrow> direction \<Rightarrow> 'f pane_node" where
  "for_leaves F divider old_leaf new_leaf direction = branch_new F divider (Leaf old_leaf) (Leaf new_leaf) direction"

text \<open>The body of the loop of \<open>PaneBranch::split\<close> at a leaf that is the pane to split.\<close>

definition split_leaf ::
    "'f float_ops \<Rightarrow> entity_id \<Rightarrow> pane_id \<Rightarrow> pane_id \<Rightarrow> direction \<Rightarrow> split_direction \<Rightarrow> ('f \<times> 'f pane_node) list
       \<Rightarrow> entity_id list \<Rightarrow> nat \<Rightarrow> 'f \<Rightarrow> 'f pane_node option" where
  "split_leaf F divider old_pane new_pane direction ax ns ds idx fl =
     (if dir_axis direction = ax
      then do { ns \<leftarrow> vec_insert (if backward direction then idx else idx + 1) (DEFAULT_FLEX_VALUE F, Leaf new_pane) ns;
                ds \<leftarrow> vec_insert idx divider ds;
                Some (Branch ax ns ds) }
      else Some (Branch ax (ns[idx := (fl, for_leaves F divider old_pane new_pane direction)]) ds))"

fun node_split ::
    "'f float_ops \<Rightarrow> entity_id \<Rightarrow> pane_id \<Rightarrow> pane_id \<Rightarrow> direction \<Rightarrow> 'f pane_node \<Rightarrow> 'f pane_node option option" where
  "node_split F divider old_pane new_pane direction (Leaf pane) =
     (if pane = old_pane then Some (Some (for_leaves F divider old_pane new_pane direction)) else None)"
| "node_split F divider old_pane new_pane direction (Branch ax ns ds) =
     find_loop (\<lambda>idx x. case snd x of
         Branch _ _ _ \<Rightarrow>
           map_option (map_option (\<lambda>n. Branch ax (ns[idx := (fst x, n)]) ds))
             (node_split F divider old_pane new_pane direction (snd x))
       | Leaf pane \<Rightarrow>
           if pane = old_pane then Some (split_leaf F divider old_pane new_pane direction ax ns ds idx (fst x)) else None)
       0 ns"

fun node_insert :: "'f float_ops \<Rightarrow> entity_id \<Rightarrow> pane_id \<Rightarrow> direction \<Rightarrow> 'f pane_node \<Rightarrow> 'f pane_node" where
  "node_insert F divider new_pane direction (Leaf old_pane) = for_leaves F divider old_pane new_pane direction"
| "node_insert F divider new_pane direction (Branch ax ns ds) =
     (if dir_axis direction = ax
      then (if backward direction then Branch ax ((DEFAULT_FLEX_VALUE F, Leaf new_pane) # ns) (divider # ds)
            else Branch ax (ns @ [(DEFAULT_FLEX_VALUE F, Leaf new_pane)]) (ds @ [divider]))
      else branch_new F divider (Branch ax ns ds) (Leaf new_pane) direction)"

section \<open>Removing\<close>

text \<open>\<open>PaneNode::remove\<close> with \<open>PaneBranch::remove\<close>: a branch left with one node is replaced by it.\<close>

definition remove_leaf :: "split_direction \<Rightarrow> ('f \<times> 'f pane_node) list \<Rightarrow> entity_id list \<Rightarrow> nat \<Rightarrow> 'f pane_node" where
  "remove_leaf ax ns ds idx =
     (let ns = vec_remove idx ns;
          ds = (if ds = [] then ds else vec_remove (min idx (length ds - 1)) ds)
      in if length ns = 1 then snd (last ns) else Branch ax ns ds)"

fun node_remove :: "pane_id \<Rightarrow> 'f pane_node \<Rightarrow> 'f pane_node option" where
  "node_remove pane_id (Leaf pane) = None"
| "node_remove pane_id (Branch ax ns ds) =
     find_loop (\<lambda>idx x. case snd x of
         Branch _ _ _ \<Rightarrow> map_option (\<lambda>n. Branch ax (ns[idx := (fst x, n)]) ds) (node_remove pane_id (snd x))
       | Leaf pane \<Rightarrow> if pane = pane_id then Some (remove_leaf ax ns ds idx) else None)
       0 ns"

section \<open>Looking up and replacing\<close>

fun node_pane_ids :: "'f pane_node \<Rightarrow> pane_id list" where
  "node_pane_ids (Leaf pane) = [pane]"
| "node_pane_ids (Branch ax ns ds) = concat (map (\<lambda>x. node_pane_ids (snd x)) ns)"

fun contains_pane :: "pane_id \<Rightarrow> 'f pane_node \<Rightarrow> bool" where
  "contains_pane pane_id (Leaf pane) \<longleftrightarrow> pane = pane_id"
| "contains_pane pane_id (Branch ax ns ds) \<longleftrightarrow> list_ex (\<lambda>x. contains_pane pane_id (snd x)) ns"

fun node_replace :: "pane_id \<Rightarrow> pane_id \<Rightarrow> 'f pane_node \<Rightarrow> 'f pane_node option" where
  "node_replace old_pane new_pane (Leaf pane) = (if pane = old_pane then Some (Leaf new_pane) else None)"
| "node_replace old_pane new_pane (Branch ax ns ds) =
     find_loop (\<lambda>idx x. map_option (\<lambda>n. Branch ax (ns[idx := (fst x, n)]) ds) (node_replace old_pane new_pane (snd x))) 0 ns"

fun num_splits_in_direction :: "split_direction \<Rightarrow> 'f pane_node \<Rightarrow> nat" where
  "num_splits_in_direction axis (Branch ax ns ds) = (if ax = axis then length ns else 1)"
| "num_splits_in_direction axis (Leaf pane) = 1"

fun pane_flex_sum_along_axis :: "'f float_ops \<Rightarrow> split_direction \<Rightarrow> 'f pane_node \<Rightarrow> 'f" where
  "pane_flex_sum_along_axis F axis (Branch ax ns ds) =
     (if ax = axis then foldl (\<lambda>s x. fl_add F s (fst x)) (fl_zero F) ns else DEFAULT_FLEX_VALUE F)"
| "pane_flex_sum_along_axis F axis (Leaf pane) = DEFAULT_FLEX_VALUE F"

section \<open>Neighbours\<close>

fun leaf_at :: "('f \<times> 'f pane_node) list \<Rightarrow> nat \<Rightarrow> pane_id option" where
  "leaf_at ns i = (case vec_get ns i of Some (_, Leaf pane) \<Rightarrow> Some pane | _ \<Rightarrow> None)"

text \<open>The loop stops at the pane itself even if it has no sibling: then the result is \<open>Some None\<close>.\<close>

fun sibling_search :: "pane_id \<Rightarrow> direction \<Rightarrow> 'f pane_node \<Rightarrow> pane_id option option" where
  "sibling_search pane_id direction (Leaf pane) = None"
| "sibling_search pane_id direction (Branch ax ns ds) =
     find_loop (\<lambda>idx x. case snd x of
         Branch _ _ _ \<Rightarrow>
           (case sibling_search pane_id direction (snd x) of Some (Some pane) \<Rightarrow> Some (Some pane) | _ \<Rightarrow> None)
       | Leaf pane \<Rightarrow>
           if dir_axis direction = ax \<and> pane = pane_id
           then Some (if backward direction then if idx = 0 then None else leaf_at ns (idx - 1)
                      else if idx = length ns - 1 then None else leaf_at ns (idx + 1))
           else None)
       0 ns"

definition node_sibling_by_direction :: "pane_id \<Rightarrow> direction \<Rightarrow> 'f pane_node \<Rightarrow> pane_id option" where
  "node_sibling_by_direction pane_id direction n = Option.bind (sibling_search pane_id direction n) id"

fun first_panes_in_direction :: "direction \<Rightarrow> 'f pane_node \<Rightarrow> pane_id set option" where
  "first_panes_in_direction direction (Leaf pane) = Some {pane}"
| "first_panes_in_direction direction (Branch ax ns ds) =
     (let found = map (\<lambda>x. first_panes_in_direction direction (snd x)) ns
      in if ax = dir_axis direction
         then if ns = [] then None else if backward direction then last found else hd found
         else map_option (\<lambda>ss. \<Union> (set ss)) (those found))"

datatype find_result = Located | NotFound | Found "pane_id set"

text \<open>The found set may be missing because \<open>first_panes_in_direction\<close> panicked.\<close>

fun node_panes_by_direction :: "pane_id \<Rightarrow> direction \<Rightarrow> 'f pane_node \<Rightarrow> find_result option" where
  "node_panes_by_direction pane_id direction (Leaf pane) = Some (if pane = pane_id then Located else NotFound)"
| "node_panes_by_direction pane_id direction (Branch ax ns ds) =
     (case find_loop (\<lambda>idx x. case node_panes_by_direction pane_id direction (snd x) of
         None \<Rightarrow> Some None
       | Some NotFound \<Rightarrow> None
       | Some (Found ids) \<Rightarrow> Some (Some (Found ids))
       | Some Located \<Rightarrow>
           if dir_axis direction \<noteq> ax \<or> (if backward direction then idx = 0 else idx = length ns - 1)
           then Some (Some Located)
           else Some (do { x \<leftarrow> vec_get ns (if backward direction then idx - 1 else idx + 1);
                           ids \<leftarrow> first_panes_in_direction direction (snd x);
                           Some (Found ids) }))
       0 ns of None \<Rightarrow> Some NotFound | Some r \<Rightarrow> r)"

section \<open>Sizes\<close>

text \<open>What the platform reports of a rendered pane.\<close>

record 'f rect =
  rc_min_x :: 'f
  rc_max_x :: 'f
  rc_min_y :: 'f
  rc_max_y :: 'f
  rc_size_x :: 'f
  rc_size_y :: 'f

fun pane_size :: "'f float_ops \<Rightarrow> (pane_id \<Rightarrow> 'f rect option) \<Rightarrow> 'f pane_node \<Rightarrow> ('f \<times> 'f) option" where
  "pane_size F rects (Leaf pane) =
     Some (case rects pane of None \<Rightarrow> (fl_zero F, fl_zero F) | Some r \<Rightarrow> (rc_size_x r, rc_size_y r))"
| "pane_size F rects (Branch ax ns ds) =
     do { sizes \<leftarrow> those (map (\<lambda>x. pane_size F rects (snd x)) ns);
          first \<leftarrow> vec_get sizes 0;
          Some (if ax = Horizontal then (foldl (\<lambda>x s. fl_add F x (fst s)) (fl_zero F) sizes, snd first)
                else (fst first, foldl (\<lambda>y s. fl_add F y (snd s)) (fl_zero F) sizes)) }"

text \<open>Redistributing the flex factors of the two nodes beside a divider.\<close>

definition adjust_at ::
    "'f float_ops \<Rightarrow> (pane_id \<Rightarrow> 'f rect option) \<Rightarrow> 'f \<Rightarrow> 'f \<Rightarrow> split_direction \<Rightarrow> ('f \<times> 'f pane_node) list
       \<Rightarrow> entity_id list \<Rightarrow> nat \<Rightarrow> 'f pane_node option" where
  "adjust_at F rects minimum_pane_size delta ax ns ds idx =
     do { (flex_1, node_1) \<leftarrow> vec_get ns idx;
          (flex_2, node_2) \<leftarrow> vec_get ns (idx + 1);
          pane_size_1 \<leftarrow> pane_size F rects node_1;
          pane_size_2 \<leftarrow> pane_size F rects node_2;
          let total_flex = fl_add F flex_1 flex_2;
          let size_1 = (if ax = Horizontal then fst pane_size_1 else snd pane_size_1);
          let size_2 = (if ax = Horizontal then fst pane_size_2 else snd pane_size_2);
          if fl_lt F (fl_add F size_1 delta) minimum_pane_size \<or> fl_lt F (fl_sub F size_2 delta) minimum_pane_size
             \<or> fl_lt F (fl_abs F delta) (fl_epsilon F)
          then Some (Branch ax ns ds)
          else (let new_flex = fl_min F (fl_max F (fl_mul F (fl_div F (fl_add F size_1 delta) (fl_add F size_1 size_2)) total_flex)
                                  (fl_zero F)) total_flex
                in Some (Branch ax (ns[idx := (new_flex, node_1), idx + 1 := (fl_sub F total_flex new_flex, node_2)]) ds)) }"

fun node_adjust ::
    "'f float_ops \<Rightarrow> (pane_id \<Rightarrow> 'f rect option) \<Rightarrow> 'f \<Rightarrow> entity_id \<Rightarrow> 'f \<Rightarrow> 'f pane_node \<Rightarrow> 'f pane_node option option" where
  "node_adjust F rects minimum_pane_size border_id delta (Leaf pane) = None"
| "node_adjust F rects minimum_pane_size border_id delta (Branch ax ns ds) =
     (case position (\<lambda>d. d = border_id) ds of
        Some idx \<Rightarrow> Some (adjust_at F rects minimum_pane_size delta ax ns ds idx)
      | None \<Rightarrow> find_loop (\<lambda>idx x. map_option (map_option (\<lambda>n. Branch ax (ns[idx := (fst x, n)]) ds))
                  (node_adjust F rects minimum_pane_size border_id delta (snd x))) 0 ns)"

fun node_reset_sizes :: "'f float_ops \<Rightarrow> entity_id \<Rightarrow> 'f pane_node \<Rightarrow> 'f pane_node option" where
  "node_reset_sizes F border_id (Leaf pane) = None"
| "node_reset_sizes F border_id (Branch ax ns ds) =
     (if border_id \<in> set ds then Some (Branch ax (map (\<lambda>x. (DEFAULT_FLEX_VALUE F, snd x)) ns) ds)
      else find_loop (\<lambda>idx x. map_option (\<lambda>n. Branch ax (ns[idx := (fst x, n)]) ds) (node_reset_sizes F border_id (snd x))) 0 ns)"

text \<open>Here the boolean says whether a parent branch has to handle the resize; a node may change
  while it is false.\<close>

fun node_adjust_by_id ::
    "'f float_ops \<Rightarrow> (pane_id \<Rightarrow> 'f rect option) \<Rightarrow> 'f \<Rightarrow> pane_id \<Rightarrow> split_direction \<Rightarrow> 'f \<Rightarrow> 'f pane_node
       \<Rightarrow> (bool \<times> 'f pane_node) option" where
  "node_adjust_by_id F rects minimum_pane_size pane_id direction delta (Leaf pane) = Some (pane = pane_id, Leaf pane)"
| "node_adjust_by_id F rects minimum_pane_size pane_id direction delta (Branch ax ns ds) =
     do { (hit, ns) \<leftarrow> scan_loop (\<lambda>x. map_option (\<lambda>(b, n). (b, (fst x, n)))
                       (node_adjust_by_id F rects minimum_pane_size pane_id direction delta (snd x))) 0 ns;
          case hit of
            None \<Rightarrow> Some (False, Branch ax ns ds)
          | Some idx \<Rightarrow>
              if direction \<noteq> ax then Some (True, Branch ax ns ds)
              else do { last_divider \<leftarrow> checked_sub (length ds) 1;
                        divider_id \<leftarrow> vec_get ds (min idx last_divider);
                        n \<leftarrow> (case node_adjust F rects minimum_pane_size divider_id delta (Branch ax ns ds) of
                               None \<Rightarrow> Some (Branch ax ns ds) | Some r \<Rightarrow> r);
                        Some (False, n) } }"

section \<open>Hidden panes\<close>

datatype hidden_pane_reason = FromMove | FromJob | TemporaryReplacement pane_id | Closed | ChildAgent

record hidden_pane =
  hp_pane_id :: pane_id
  hp_reason :: hidden_pane_reason

definition hidden :: "pane_id \<Rightarrow> hidden_pane_reason \<Rightarrow> hidden_pane" where
  "hidden pane reason = \<lparr>hp_pane_id = pane, hp_reason = reason\<rparr>"

definition hidden_for :: "hidden_pane_reason \<Rightarrow> hidden_pane list \<Rightarrow> pane_id \<Rightarrow> bool" where
  "hidden_for reason hs pane \<longleftrightarrow> list_ex (\<lambda>h. hp_reason h = reason \<and> hp_pane_id h = pane) hs"

fun has_visible_children :: "hidden_pane list \<Rightarrow> 'f pane_node \<Rightarrow> bool" where
  "has_visible_children hs (Leaf pane) \<longleftrightarrow>
     \<not> hidden_for FromJob hs pane \<and> \<not> hidden_for Closed hs pane \<and> \<not> hidden_for FromMove hs pane
     \<and> \<not> hidden_for ChildAgent hs pane"
| "has_visible_children hs (Branch ax ns ds) \<longleftrightarrow> list_ex (\<lambda>x. has_visible_children hs (snd x)) ns"

fun has_children_hidden_for_move :: "hidden_pane list \<Rightarrow> 'f pane_node \<Rightarrow> bool" where
  "has_children_hidden_for_move hs (Leaf pane) \<longleftrightarrow> hidden_for FromMove hs pane"
| "has_children_hidden_for_move hs (Branch ax ns ds) \<longleftrightarrow> list_ex (\<lambda>x. has_children_hidden_for_move hs (snd x)) ns"

fun node_has_horizontal_split :: "hidden_pane list \<Rightarrow> 'f pane_node \<Rightarrow> bool" where
  "node_has_horizontal_split hs (Leaf pane) \<longleftrightarrow> False"
| "node_has_horizontal_split hs (Branch ax ns ds) \<longleftrightarrow>
     (let shown = (\<lambda>x. has_visible_children hs (snd x) \<or> has_children_hidden_for_move hs (snd x))
      in ax = Horizontal \<and> length (filter shown ns) > 1
         \<or> list_ex (\<lambda>x. shown x \<and> node_has_horizontal_split hs (snd x)) ns)"

section \<open>The pane data\<close>

record 'f pane_data =
  pt_root :: "'f pane_node"
  pt_len :: nat
  pt_hidden :: "hidden_pane list"

definition pane_data_new :: "pane_id \<Rightarrow> 'f pane_data" where
  "pane_data_new pane = \<lparr>pt_root = Leaf pane, pt_len = 1, pt_hidden = []\<rparr>"

definition new_branch :: "split_direction \<Rightarrow> ('f \<times> 'f pane_node) list \<Rightarrow> nat \<Rightarrow> entity_id list \<Rightarrow> 'f pane_data option" where
  "new_branch ax ns len dividers =
     do { root \<leftarrow> (if length ns = 1 then Some (snd (last ns))
                   else do { n \<leftarrow> checked_sub (length ns) 1; Some (Branch ax ns (take n dividers)) });
          Some \<lparr>pt_root = root, pt_len = len, pt_hidden = []\<rparr> }"

definition pane_ids :: "'f pane_data \<Rightarrow> pane_id list" where
  "pane_ids t = node_pane_ids (pt_root t)"

definition is_pane_hidden :: "pane_id \<Rightarrow> 'f pane_data \<Rightarrow> bool" where
  "is_pane_hidden pane t \<longleftrightarrow> list_ex (\<lambda>h. hp_pane_id h = pane) (pt_hidden t)"

definition is_hidden_closed_pane :: "pane_id \<Rightarrow> 'f pane_data \<Rightarrow> bool" where
  "is_hidden_closed_pane pane t \<longleftrightarrow> list_ex (\<lambda>h. hp_pane_id h = pane) (pt_hidden t)"

definition visible_pane_ids :: "'f pane_data \<Rightarrow> pane_id list" where
  "visible_pane_ids t = filter (\<lambda>p. \<not> is_pane_hidden p t) (node_pane_ids (pt_root t))"

definition visible_pane_count :: "'f pane_data \<Rightarrow> nat" where
  "visible_pane_count t = length (visible_pane_ids t)"

definition has_horizontal_split :: "'f pane_data \<Rightarrow> bool" where
  "has_horizontal_split t = node_has_horizontal_split (pt_hidden t) (pt_root t)"

definition num_hidden_panes :: "'f pane_data \<Rightarrow> nat" where
  "num_hidden_panes t = length (pt_hidden t)"

definition is_pane_in_tree :: "pane_id \<Rightarrow> 'f pane_data \<Rightarrow> bool" where
  "is_pane_in_tree pane t = contains_pane pane (pt_root t)"

definition pane_data_is_empty :: "'f pane_data \<Rightarrow> bool" where
  "pane_data_is_empty t \<longleftrightarrow> pt_len t = 0"

definition pane_split ::
    "'f float_ops \<Rightarrow> entity_id \<Rightarrow> pane_id \<Rightarrow> pane_id \<Rightarrow> direction \<Rightarrow> 'f pane_data \<Rightarrow> (bool \<times> 'f pane_data) option" where
  "pane_split F divider old_id new_id direction t =
     (case node_split F divider old_id new_id direction (pt_root t) of
        None \<Rightarrow> Some (False, t)
      | Some r \<Rightarrow> do { n \<leftarrow> r; Some (True, t\<lparr>pt_root := n, pt_len := pt_len t + 1\<rparr>) })"

definition split_root :: "'f float_ops \<Rightarrow> entity_id \<Rightarrow> pane_id \<Rightarrow> direction \<Rightarrow> 'f pane_data \<Rightarrow> 'f pane_data" where
  "split_root F divider new_id direction t =
     t\<lparr>pt_root := node_insert F divider new_id direction (pt_root t), pt_len := pt_len t + 1\<rparr>"

definition pane_remove :: "pane_id \<Rightarrow> 'f pane_data \<Rightarrow> bool \<times> 'f pane_data" where
  "pane_remove pane t =
     (case node_remove pane (pt_root t) of
        None \<Rightarrow> (False, t)
      | Some n \<Rightarrow> (True, t\<lparr>pt_root := n, pt_len := pt_len t - 1\<rparr>))"

definition move_pane ::
    "'f float_ops \<Rightarrow> entity_id \<Rightarrow> pane_id \<Rightarrow> pane_id \<Rightarrow> direction \<Rightarrow> 'f pane_data \<Rightarrow> (bool \<times> 'f pane_data) option" where
  "move_pane F divider pane target direction t =
     (if pane = target then Some (False, t)
      else if node_sibling_by_direction target direction (pt_root t) = Some pane then Some (False, t)
      else (let (removed, t') = pane_remove pane t
            in if \<not> removed then Some (False, t') else pane_split F divider target pane direction t'))"

definition hide_pane :: "hidden_pane_reason \<Rightarrow> pane_id \<Rightarrow> 'f pane_data \<Rightarrow> 'f pane_data" where
  "hide_pane reason pane t = t\<lparr>pt_hidden := pt_hidden t @ [hidden pane reason]\<rparr>"

definition hide_pane_for_move :: "pane_id \<Rightarrow> 'f pane_data \<Rightarrow> 'f pane_data" where
  "hide_pane_for_move = hide_pane FromMove"

definition clear_hidden_panes_from_move :: "'f pane_data \<Rightarrow> 'f pane_data" where
  "clear_hidden_panes_from_move t = t\<lparr>pt_hidden := filter (\<lambda>h. hp_reason h \<noteq> FromMove) (pt_hidden t)\<rparr>"

definition remove_hidden_pane :: "pane_id \<Rightarrow> 'f pane_data \<Rightarrow> 'f pane_data" where
  "remove_hidden_pane pane t = t\<lparr>pt_hidden := filter (\<lambda>h. hp_pane_id h \<noteq> pane) (pt_hidden t)\<rparr>"

text \<open>Removing the first entry that matches.\<close>

definition unhide_where :: "(hidden_pane \<Rightarrow> bool) \<Rightarrow> 'f pane_data \<Rightarrow> bool \<times> 'f pane_data" where
  "unhide_where P t =
     (case position P (pt_hidden t) of
        None \<Rightarrow> (False, t)
      | Some i \<Rightarrow> (True, t\<lparr>pt_hidden := vec_remove i (pt_hidden t)\<rparr>))"

definition hide_pane_for_job :: "pane_id \<Rightarrow> 'f pane_data \<Rightarrow> 'f pane_data" where
  "hide_pane_for_job = hide_pane FromJob"

definition show_pane_for_job :: "pane_id \<Rightarrow> 'f pane_data \<Rightarrow> 'f pane_data" where
  "show_pane_for_job pane t = snd (unhide_where (\<lambda>h. hp_pane_id h = pane \<and> hp_reason h = FromJob) t)"

definition toggle_pane_visibility_for_job :: "pane_id \<Rightarrow> 'f pane_data \<Rightarrow> bool \<times> 'f pane_data" where
  "toggle_pane_visibility_for_job pane t =
     (if hidden_for FromJob (pt_hidden t) pane then (True, show_pane_for_job pane t)
      else (False, hide_pane_for_job pane t))"

definition hide_pane_for_child_agent :: "pane_id \<Rightarrow> 'f pane_data \<Rightarrow> 'f pane_data" where
  "hide_pane_for_child_agent pane t = (if is_pane_hidden pane t then t else hide_pane ChildAgent pane t)"

definition show_pane_for_child_agent :: "pane_id \<Rightarrow> 'f pane_data \<Rightarrow> 'f pane_data" where
  "show_pane_for_child_agent pane t = snd (unhide_where (\<lambda>h. hp_pane_id h = pane \<and> hp_reason h = ChildAgent) t)"

definition is_pane_hidden_for_child_agent :: "pane_id \<Rightarrow> 'f pane_data \<Rightarrow> bool" where
  "is_pane_hidden_for_child_agent pane t = hidden_for ChildAgent (pt_hidden t) pane"

definition hide_closed_pane :: "pane_id \<Rightarrow> 'f pane_data \<Rightarrow> 'f pane_data" where
  "hide_closed_pane = hide_pane Closed"

definition unhide_closed_pane :: "pane_id \<Rightarrow> 'f pane_data \<Rightarrow> bool \<times> 'f pane_data" where
  "unhide_closed_pane pane t = unhide_where (\<lambda>h. hp_pane_id h = pane) t"

definition get_closed_pane_ids :: "'f pane_data \<Rightarrow> pane_id list" where
  "get_closed_pane_ids t = map hp_pane_id (filter (\<lambda>h. hp_reason h = Closed) (pt_hidden t))"

definition clear_hidden_closed_panes :: "'f pane_data \<Rightarrow> 'f pane_data" where
  "clear_hidden_closed_panes t = t\<lparr>pt_hidden := filter (\<lambda>h. hp_reason h \<noteq> Closed) (pt_hidden t)\<rparr>"

definition original_pane_for_replacement :: "pane_id \<Rightarrow> 'f pane_data \<Rightarrow> pane_id option" where
  "original_pane_for_replacement replacement t =
     find_loop (\<lambda>_ h. if hp_reason h = TemporaryReplacement replacement then Some (hp_pane_id h) else None) 0 (pt_hidden t)"

definition is_temporary_replacement :: "pane_id \<Rightarrow> 'f pane_data \<Rightarrow> bool" where
  "is_temporary_replacement replacement t \<longleftrightarrow> original_pane_for_replacement replacement t \<noteq> None"

definition replacement_pane_for_original :: "pane_id \<Rightarrow> 'f pane_data \<Rightarrow> pane_id option" where
  "replacement_pane_for_original original t =
     find_loop (\<lambda>_ h. if hp_pane_id h \<noteq> original then None
       else case hp_reason h of TemporaryReplacement replacement \<Rightarrow> Some replacement | _ \<Rightarrow> None) 0 (pt_hidden t)"

definition replace_pane :: "pane_id \<Rightarrow> pane_id \<Rightarrow> bool \<Rightarrow> 'f pane_data \<Rightarrow> bool \<times> 'f pane_data" where
  "replace_pane original replacement is_temporary t =
     (if \<not> contains_pane original (pt_root t) then (False, t)
      else (let t1 = (if is_temporary then hide_pane (TemporaryReplacement replacement) original t else t)
            in case node_replace original replacement (pt_root t1) of
                 Some n \<Rightarrow> (True, t1\<lparr>pt_root := n\<rparr>)
               | None \<Rightarrow> (False, if is_temporary then t1\<lparr>pt_hidden := butlast (pt_hidden t1)\<rparr> else t1)))"

definition revert_temporary_replacement :: "pane_id \<Rightarrow> 'f pane_data \<Rightarrow> pane_id option \<times> 'f pane_data" where
  "revert_temporary_replacement replacement t =
     (case position (\<lambda>h. hp_reason h = TemporaryReplacement replacement) (pt_hidden t) of
        None \<Rightarrow> (None, t)
      | Some i \<Rightarrow>
          (let original = hp_pane_id (pt_hidden t ! i); t1 = t\<lparr>pt_hidden := vec_remove i (pt_hidden t)\<rparr>
           in case node_replace replacement original (pt_root t1) of
                Some n \<Rightarrow> (Some original, t1\<lparr>pt_root := n\<rparr>)
              | None \<Rightarrow> (None, t)))"

definition pane_adjust_size ::
    "'f float_ops \<Rightarrow> (pane_id \<Rightarrow> 'f rect option) \<Rightarrow> 'f \<Rightarrow> entity_id \<Rightarrow> 'f \<Rightarrow> 'f pane_data \<Rightarrow> 'f pane_data option" where
  "pane_adjust_size F rects minimum_pane_size border_id delta t =
     (case node_adjust F rects minimum_pane_size border_id delta (pt_root t) of
        None \<Rightarrow> Some t | Some r \<Rightarrow> do { n \<leftarrow> r; Some (t\<lparr>pt_root := n\<rparr>) })"

definition pane_reset_sizes :: "'f float_ops \<Rightarrow> entity_id \<Rightarrow> 'f pane_data \<Rightarrow> bool \<times> 'f pane_data" where
  "pane_reset_sizes F border_id t =
     (case node_reset_sizes F border_id (pt_root t) of None \<Rightarrow> (False, t) | Some n \<Rightarrow> (True, t\<lparr>pt_root := n\<rparr>))"

definition pane_adjust_size_by_id ::
    "'f float_ops \<Rightarrow> (pane_id \<Rightarrow> 'f rect option) \<Rightarrow> 'f \<Rightarrow> pane_id \<Rightarrow> split_direction \<Rightarrow> 'f \<Rightarrow> 'f pane_data \<Rightarrow> 'f pane_data option" where
  "pane_adjust_size_by_id F rects minimum_pane_size pane direction delta t =
     do { (_, n) \<leftarrow> node_adjust_by_id F rects minimum_pane_size pane direction delta (pt_root t);
          Some (t\<lparr>pt_root := n\<rparr>) }"

definition are_rects_overlapping :: "'f float_ops \<Rightarrow> 'f rect \<Rightarrow> 'f rect \<Rightarrow> split_direction \<Rightarrow> bool" where
  "are_rects_overlapping F r1 r2 axis \<longleftrightarrow>
     (if axis = Horizontal then \<not> (fl_le F (rc_max_y r1) (rc_min_y r2) \<or> fl_le F (rc_max_y r2) (rc_min_y r1))
      else \<not> (fl_le F (rc_max_x r1) (rc_min_x r2) \<or> fl_le F (rc_max_x r2) (rc_min_x r1)))"

definition panes_by_direction ::
    "'f float_ops \<Rightarrow> (pane_id \<Rightarrow> 'f rect option) \<Rightarrow> pane_id \<Rightarrow> direction \<Rightarrow> 'f pane_data \<Rightarrow> pane_id set option" where
  "panes_by_direction F rects pane direction t =
     do { r \<leftarrow> node_panes_by_direction pane direction (pt_root t);
          Some (case r of
              Found ids \<Rightarrow>
                (case rects pane of
                   None \<Rightarrow> ids
                 | Some current \<Rightarrow>
                     Set.filter (\<lambda>q. case rects q of None \<Rightarrow> True
                       | Some candidate \<Rightarrow> are_rects_overlapping F current candidate (dir_axis direction)) ids)
            | _ \<Rightarrow> {}) }"

end
