(* ===== verification/Pane_Tree_Correct.thy ===== *)
theory Pane_Tree_Correct
  imports Pane_Tree
begin

text \<open>
  What the pane tree guarantees: its shape and its pane count are invariants of every sequence
  of operations, splitting and removing act on the panes in reading order as insertion and
  deletion, and the neighbour relation behind focus movement is symmetric.
\<close>

section \<open>Loops with an early return\<close>

lemma find_loop_None: "find_loop f i xs = None \<longleftrightarrow> (\<forall>k<length xs. f (i + k) (xs ! k) = None)"
proof (induction xs arbitrary: i)
  case (Cons x xs)
  then show ?case by (auto simp: less_Suc_eq_0_disj split: option.splits)
qed simp

lemma find_loop_none: "(\<And>k x. x \<in> set xs \<Longrightarrow> f k x = None) \<Longrightarrow> find_loop f i xs = None"
  by (simp add: find_loop_None)

lemma find_loop_append:
  "find_loop f i (xs @ ys) = (case find_loop f i xs of None \<Rightarrow> find_loop f (i + length xs) ys | Some y \<Rightarrow> Some y)"
  by (induction xs arbitrary: i) (auto split: option.splits)

lemma find_loop_SomeE:
  assumes "find_loop f i xs = Some y"
  obtains pre x post where "xs = pre @ x # post" "f (i + length pre) x = Some y" "find_loop f i pre = None"
proof -
  have "\<exists>pre x post. xs = pre @ x # post \<and> f (i + length pre) x = Some y \<and> find_loop f i pre = None"
    using assms
  proof (induction xs arbitrary: i)
    case (Cons z zs)
    show ?case
    proof (cases "f i z")
      case None
      then obtain pre x post where "zs = pre @ x # post" "f (Suc i + length pre) x = Some y" "find_loop f (Suc i) pre = None"
        using Cons.IH [of "Suc i"] Cons.prems by auto
      then show ?thesis using None by (intro exI [of _ "z # pre"] exI [of _ x] exI [of _ post]) auto
    next
      case (Some w)
      then show ?thesis using Cons.prems by (intro exI [of _ "[]"] exI [of _ z] exI [of _ zs]) auto
    qed
  qed simp
  then show thesis using that by blast
qed

lemma find_loop_at:
  assumes "\<And>k. k < length pre \<Longrightarrow> f k (pre ! k) = None"
  shows "find_loop f 0 (pre @ x # post) =
    (case f (length pre) x of None \<Rightarrow> find_loop f (Suc (length pre)) post | Some y \<Rightarrow> Some y)"
proof -
  have "find_loop f 0 pre = None" using assms by (simp add: find_loop_None)
  then show ?thesis by (simp add: find_loop_append)
qed

text \<open>When whether the body returns depends on the element alone.\<close>

lemma find_loop_None_iff:
  assumes "\<And>k x. x \<in> set xs \<Longrightarrow> f k x = None \<longleftrightarrow> Q x"
  shows "find_loop f i xs = None \<longleftrightarrow> (\<forall>x\<in>set xs. Q x)"
  using assms
proof (induction xs arbitrary: i)
  case (Cons x xs)
  then have "f i x = None \<longleftrightarrow> Q x" "find_loop f (Suc i) xs = None \<longleftrightarrow> (\<forall>x\<in>set xs. Q x)" by simp_all
  then show ?case by (auto split: option.splits)
qed simp

section \<open>The shape of the tree\<close>

fun tree_ok :: "'f pane_node \<Rightarrow> bool" where
  "tree_ok (Leaf pane) \<longleftrightarrow> True"
| "tree_ok (Branch ax ns ds) \<longleftrightarrow>
     2 \<le> length ns \<and> Suc (length ds) = length ns \<and> list_all (\<lambda>x. tree_ok (snd x)) ns"

abbreviation nodes_ids :: "('f \<times> 'f pane_node) list \<Rightarrow> pane_id list" where
  "nodes_ids ns \<equiv> concat (map (\<lambda>x. node_pane_ids (snd x)) ns)"

lemma pane_node_induct [case_names Leaf Branch]:
  assumes "\<And>pane. P (Leaf pane)" "\<And>ax ns ds. (\<And>x. x \<in> set ns \<Longrightarrow> P (snd x)) \<Longrightarrow> P (Branch ax ns ds)"
  shows "P n"
  using assms
proof (induction n rule: node_pane_ids.induct)
  case (2 ax ns ds)
  then show ?case by blast
qed blast

lemma contains_pane_iff: "contains_pane pane n \<longleftrightarrow> pane \<in> set (node_pane_ids n)"
  by (induction n rule: pane_node_induct) (auto simp: list_ex_iff)

lemma node_ids_nonempty: "tree_ok n \<Longrightarrow> node_pane_ids n \<noteq> []"
proof (induction n rule: pane_node_induct)
  case (Branch ax ns ds)
  then show ?case by (cases ns) auto
qed simp

declare node_split.simps(2) [simp del] node_remove.simps(2) [simp del] node_replace.simps(2) [simp del]

lemma nodes_ids_notin: "pane \<notin> set (nodes_ids ns) \<longleftrightarrow> (\<forall>x\<in>set ns. pane \<notin> set (node_pane_ids (snd x)))"
  by auto

lemma node_split_None: "node_split F d old new dir n = None \<longleftrightarrow> old \<notin> set (node_pane_ids n)"
proof (induction n rule: pane_node_induct)
  case (Branch ax ns ds)
  show ?case
    unfolding node_split.simps node_pane_ids.simps nodes_ids_notin
  proof (rule find_loop_None_iff, goal_cases)
    case (1 k x)
    then show ?case using Branch [of x] by (cases "snd x") simp_all
  qed
qed simp

lemma node_remove_None: "node_remove pane n = None \<longleftrightarrow> pane \<notin> set (node_pane_ids n) \<or> n = Leaf pane"
proof (induction n rule: pane_node_induct)
  case (Branch ax ns ds)
  have "node_remove pane (Branch ax ns ds) = None \<longleftrightarrow> (\<forall>x\<in>set ns. pane \<notin> set (node_pane_ids (snd x)))"
    unfolding node_remove.simps
  proof (rule find_loop_None_iff, goal_cases)
    case (1 k x)
    then show ?case using Branch [of x] by (cases "snd x") simp_all
  qed
  then show ?case by auto
qed auto

lemma node_replace_None: "node_replace old new n = None \<longleftrightarrow> old \<notin> set (node_pane_ids n)"
proof (induction n rule: pane_node_induct)
  case (Branch ax ns ds)
  show ?case
    unfolding node_replace.simps node_pane_ids.simps nodes_ids_notin
    by (rule find_loop_None_iff) (use Branch in auto)
qed simp

section \<open>What splitting, removing and replacing do\<close>

lemma find_loop_child:
  assumes "find_loop f 0 ns = Some y" "\<And>k x. x \<in> set ns \<Longrightarrow> f k x = None \<longleftrightarrow> pane \<notin> set (node_pane_ids (snd x))"
  obtains pre fl n post where "ns = pre @ (fl, n) # post" "f (length pre) (fl, n) = Some y" "pane \<notin> set (nodes_ids pre)"
    "pane \<in> set (node_pane_ids n)"
proof -
  obtain pre x post where x: "ns = pre @ x # post" "f (length pre) x = Some y" "find_loop f 0 pre = None"
    by (rule find_loop_SomeE [OF assms(1)]) simp
  have "\<forall>x\<in>set pre. pane \<notin> set (node_pane_ids (snd x))"
    using x(1,3) assms(2) find_loop_None_iff [of pre f "\<lambda>x. pane \<notin> set (node_pane_ids (snd x))" 0] by simp
  moreover have "pane \<in> set (node_pane_ids (snd x))" using x(1,2) assms(2) [of x "length pre"] by simp
  ultimately show thesis using that [of pre "fst x" "snd x" post] x by simp
qed

text \<open>The operations replace the first occurrence of a pane by a list of panes.\<close>

fun subst_first :: "'a \<Rightarrow> 'a list \<Rightarrow> 'a list \<Rightarrow> 'a list" where
  "subst_first x ys [] = []"
| "subst_first x ys (z # zs) = (if z = x then ys @ zs else z # subst_first x ys zs)"

lemma subst_first_append:
  "subst_first x ys (as @ bs) = (if x \<in> set as then subst_first x ys as @ bs else as @ subst_first x ys bs)"
  by (induction as) auto

lemma subst_first_split: "x \<notin> set as \<Longrightarrow> subst_first x ys (as @ x # bs) = as @ ys @ bs"
  by (simp add: subst_first_append)

definition beside :: "direction \<Rightarrow> pane_id \<Rightarrow> pane_id \<Rightarrow> pane_id list" where
  "beside dir old new = (if backward dir then [new, old] else [old, new])"

lemma for_leaves_ok: "tree_ok (for_leaves F d old new dir)" "node_pane_ids (for_leaves F d old new dir) = beside dir old new"
  by (simp_all add: for_leaves_def branch_new_def beside_def)

lemma split_leaf_ok:
  assumes "tree_ok (Branch ax (pre @ (fl, Leaf old) # post) ds)"
  shows "\<exists>n. split_leaf F d old new dir ax (pre @ (fl, Leaf old) # post) ds (length pre) fl = Some n \<and> tree_ok n \<and>
    node_pane_ids n = nodes_ids pre @ beside dir old new @ nodes_ids post"
  using assms for_leaves_ok [of F d old new dir]
  by (auto simp: split_leaf_def vec_insert_def beside_def)

lemma nodes_ids_subst:
  assumes "pane \<notin> set (nodes_ids pre)" "pane \<in> set (node_pane_ids n)"
  shows "subst_first pane ys (nodes_ids (pre @ (fl, n) # post)) =
    nodes_ids pre @ subst_first pane ys (node_pane_ids n) @ nodes_ids post"
proof -
  have "nodes_ids (pre @ (fl, n) # post) = nodes_ids pre @ node_pane_ids n @ nodes_ids post" by simp
  then show ?thesis using assms by (simp only: subst_first_append if_False if_True)
qed

lemma node_split_child:
  assumes "node_split F d old new dir (Branch ax ns ds) = Some r"
  shows "\<exists>pre fl n post. ns = pre @ (fl, n) # post \<and> old \<notin> set (nodes_ids pre) \<and> old \<in> set (node_pane_ids n) \<and>
    (n = Leaf old \<and> r = split_leaf F d old new dir ax ns ds (length pre) fl \<or>
     (\<exists>r'. node_split F d old new dir n = Some r' \<and> r = map_option (\<lambda>m. Branch ax (pre @ (fl, m) # post) ds) r' \<and>
        (\<forall>p. n \<noteq> Leaf p)))"
proof -
  let ?f = "\<lambda>idx x. case snd x of
      Branch _ _ _ \<Rightarrow> map_option (map_option (\<lambda>n. Branch ax (ns[idx := (fst x, n)]) ds)) (node_split F d old new dir (snd x))
    | Leaf p \<Rightarrow> if p = old then Some (split_leaf F d old new dir ax ns ds idx (fst x)) else None"
  have "?f k x = None \<longleftrightarrow> old \<notin> set (node_pane_ids (snd x))" for k x
    using node_split_None [of F d old new dir "snd x"] by (cases "snd x") simp_all
  then obtain pre fl n post where "ns = pre @ (fl, n) # post" "?f (length pre) (fl, n) = Some r"
    "old \<notin> set (nodes_ids pre)" "old \<in> set (node_pane_ids n)"
    by (rule find_loop_child [OF assms [unfolded node_split.simps]])
  then show ?thesis
    by (intro exI [of _ pre] exI [of _ fl] exI [of _ n] exI [of _ post]) (cases n, auto)
qed

lemma node_split_ok:
  assumes "tree_ok n" "node_split F d old new dir n = Some r"
  shows "\<exists>n'. r = Some n' \<and> tree_ok n' \<and> node_pane_ids n' = subst_first old (beside dir old new) (node_pane_ids n)"
  using assms
proof (induction n arbitrary: r rule: pane_node_induct)
  case (Leaf pane)
  then show ?case using for_leaves_ok [of F d old new dir] by (auto split: if_splits)
next
  case (Branch ax ns ds)
  obtain pre fl n post where n: "ns = pre @ (fl, n) # post" "old \<notin> set (nodes_ids pre)" "old \<in> set (node_pane_ids n)"
    and cases: "n = Leaf old \<and> r = split_leaf F d old new dir ax ns ds (length pre) fl \<or>
     (\<exists>r'. node_split F d old new dir n = Some r' \<and> r = map_option (\<lambda>m. Branch ax (pre @ (fl, m) # post) ds) r' \<and>
        (\<forall>p. n \<noteq> Leaf p))"
    using node_split_child [OF Branch.prems(2)] by blast
  note ids = nodes_ids_subst [OF n(2,3), of "beside dir old new" fl post]
  from cases show ?case
  proof (elim disjE conjE exE)
    assume "n = Leaf old" "r = split_leaf F d old new dir ax ns ds (length pre) fl"
    then show ?thesis
      using split_leaf_ok [of ax pre fl old post ds F d new dir] Branch.prems(1) n(1) ids by auto
  next
    fix r' assume r': "node_split F d old new dir n = Some r'" "r = map_option (\<lambda>m. Branch ax (pre @ (fl, m) # post) ds) r'"
    then obtain m where "r' = Some m" "tree_ok m" "node_pane_ids m = subst_first old (beside dir old new) (node_pane_ids n)"
      using Branch.IH [of "(fl, n)" r'] Branch.prems(1) n(1) by auto
    then show ?thesis using r'(2) Branch.prems(1) n(1) ids by simp
  qed
qed

lemma vec_remove_length: "vec_remove (length pre) (pre @ x # post) = pre @ post"
  by (simp add: vec_remove_def)

lemma length_vec_remove: "i < length xs \<Longrightarrow> Suc (length (vec_remove i xs)) = length xs"
  by (simp add: vec_remove_def)

lemma remove_leaf_ok:
  assumes "tree_ok (Branch ax (pre @ (fl, Leaf pane) # post) ds)"
  shows "tree_ok (remove_leaf ax (pre @ (fl, Leaf pane) # post) ds (length pre))"
    "node_pane_ids (remove_leaf ax (pre @ (fl, Leaf pane) # post) ds (length pre)) = nodes_ids pre @ nodes_ids post"
proof -
  have "ds \<noteq> []" using assms by auto
  then have "min (length pre) (length ds - 1) < length ds" by (cases ds) auto
  note ds = \<open>ds \<noteq> []\<close> length_vec_remove [OF this]
  have rest: "list_all (\<lambda>x. tree_ok (snd x)) (pre @ post)" "length (pre @ post) = length ds" using assms by simp_all
  have ids: "nodes_ids pre @ nodes_ids post = nodes_ids (pre @ post)" by simp
  have eq: "remove_leaf ax (pre @ (fl, Leaf pane) # post) ds (length pre) =
    (if length (pre @ post) = 1 then snd (last (pre @ post))
     else Branch ax (pre @ post) (vec_remove (min (length pre) (length ds - 1)) ds))"
    using ds(1) by (simp add: remove_leaf_def Let_def vec_remove_length)
  show "tree_ok (remove_leaf ax (pre @ (fl, Leaf pane) # post) ds (length pre))"
    "node_pane_ids (remove_leaf ax (pre @ (fl, Leaf pane) # post) ds (length pre)) = nodes_ids pre @ nodes_ids post"
    unfolding eq ids using rest ds by (cases "pre @ post"; auto)+
qed

lemma node_remove_child:
  assumes "node_remove pane (Branch ax ns ds) = Some n'"
  shows "\<exists>pre fl n post. ns = pre @ (fl, n) # post \<and> pane \<notin> set (nodes_ids pre) \<and> pane \<in> set (node_pane_ids n) \<and>
    (n = Leaf pane \<and> n' = remove_leaf ax ns ds (length pre) \<or>
     (\<exists>m. node_remove pane n = Some m \<and> n' = Branch ax (pre @ (fl, m) # post) ds))"
proof -
  let ?f = "\<lambda>idx x. case snd x of
      Branch _ _ _ \<Rightarrow> map_option (\<lambda>n. Branch ax (ns[idx := (fst x, n)]) ds) (node_remove pane (snd x))
    | Leaf p \<Rightarrow> if p = pane then Some (remove_leaf ax ns ds idx) else None"
  have "?f k x = None \<longleftrightarrow> pane \<notin> set (node_pane_ids (snd x))" for k x
    using node_remove_None [of pane "snd x"] by (cases "snd x") simp_all
  then obtain pre fl n post where "ns = pre @ (fl, n) # post" "?f (length pre) (fl, n) = Some n'"
    "pane \<notin> set (nodes_ids pre)" "pane \<in> set (node_pane_ids n)"
    by (rule find_loop_child [OF assms [unfolded node_remove.simps]])
  then show ?thesis
    by (intro exI [of _ pre] exI [of _ fl] exI [of _ n] exI [of _ post]) (cases n, auto)
qed

lemma node_remove_ok:
  assumes "tree_ok n" "node_remove pane n = Some n'"
  shows "tree_ok n' \<and> node_pane_ids n' = subst_first pane [] (node_pane_ids n)"
  using assms
proof (induction n arbitrary: n' rule: pane_node_induct)
  case (Branch ax ns ds)
  obtain pre fl n post where n: "ns = pre @ (fl, n) # post" "pane \<notin> set (nodes_ids pre)" "pane \<in> set (node_pane_ids n)"
    and cases: "n = Leaf pane \<and> n' = remove_leaf ax ns ds (length pre) \<or>
     (\<exists>m. node_remove pane n = Some m \<and> n' = Branch ax (pre @ (fl, m) # post) ds)"
    using node_remove_child [OF Branch.prems(2)] by blast
  note ids = nodes_ids_subst [OF n(2,3), of "[]" fl post]
  from cases show ?case
  proof (elim disjE conjE exE)
    assume "n = Leaf pane" "n' = remove_leaf ax ns ds (length pre)"
    then show ?thesis
      using remove_leaf_ok [of ax pre fl pane post ds] Branch.prems(1) n(1) ids by simp
  next
    fix m assume m: "node_remove pane n = Some m" "n' = Branch ax (pre @ (fl, m) # post) ds"
    have "tree_ok m \<and> node_pane_ids m = subst_first pane [] (node_pane_ids n)"
      using Branch.IH [of "(fl, n)" m] Branch.prems(1) m(1) n(1) by simp
    then show ?thesis using Branch.prems(1) m(2) n(1) ids by simp
  qed
qed simp

lemma node_replace_child:
  assumes "node_replace old new (Branch ax ns ds) = Some n'"
  shows "\<exists>pre fl n m post. ns = pre @ (fl, n) # post \<and> old \<notin> set (nodes_ids pre) \<and> old \<in> set (node_pane_ids n) \<and>
    node_replace old new n = Some m \<and> n' = Branch ax (pre @ (fl, m) # post) ds"
proof -
  let ?f = "\<lambda>idx x. map_option (\<lambda>n. Branch ax (ns[idx := (fst x, n)]) ds) (node_replace old new (snd x))"
  have "?f k x = None \<longleftrightarrow> old \<notin> set (node_pane_ids (snd x))" for k x
    using node_replace_None [of old new "snd x"] by simp
  then obtain pre fl n post where "ns = pre @ (fl, n) # post" "?f (length pre) (fl, n) = Some n'"
    "old \<notin> set (nodes_ids pre)" "old \<in> set (node_pane_ids n)"
    by (rule find_loop_child [OF assms [unfolded node_replace.simps]])
  then show ?thesis by (intro exI [of _ pre] exI [of _ fl] exI [of _ n] exI [of _ "the (node_replace old new n)"] exI [of _ post]) auto
qed

lemma node_replace_ok:
  assumes "tree_ok n" "node_replace old new n = Some n'"
  shows "tree_ok n' \<and> node_pane_ids n' = subst_first old [new] (node_pane_ids n)"
  using assms
proof (induction n arbitrary: n' rule: pane_node_induct)
  case (Leaf pane)
  then show ?case by (auto split: if_splits)
next
  case (Branch ax ns ds)
  obtain pre fl n m post where n: "ns = pre @ (fl, n) # post" "old \<notin> set (nodes_ids pre)" "old \<in> set (node_pane_ids n)"
    "node_replace old new n = Some m" "n' = Branch ax (pre @ (fl, m) # post) ds"
    using node_replace_child [OF Branch.prems(2)] by blast
  have "tree_ok m \<and> node_pane_ids m = subst_first old [new] (node_pane_ids n)"
    using Branch.IH [of "(fl, n)" m] Branch.prems(1) n by simp
  then show ?case using Branch.prems(1) n(1,5) nodes_ids_subst [OF n(2,3), of "[new]" fl post] by simp
qed

lemma node_insert_ok:
  assumes "tree_ok n"
  shows "tree_ok (node_insert F d new dir n)"
    "node_pane_ids (node_insert F d new dir n) = (if backward dir then new # node_pane_ids n else node_pane_ids n @ [new])"
  using assms for_leaves_ok [of F d _ new dir]
  by (cases n; auto simp: branch_new_def beside_def)+

section \<open>Undoing a split and a replacement\<close>

lemma node_remove_at:
  assumes "pane \<notin> set (nodes_ids pre)" "pane \<in> set (node_pane_ids m)"
  shows "node_remove pane (Branch ax (pre @ (fl, m) # post) ds) =
    (case m of Leaf _ \<Rightarrow> Some (remove_leaf ax (pre @ (fl, m) # post) ds (length pre))
     | Branch _ _ _ \<Rightarrow> map_option (\<lambda>n. Branch ax (pre @ (fl, n) # post) ds) (node_remove pane m))"
proof -
  let ?ns = "pre @ (fl, m) # post"
  let ?f = "\<lambda>idx x. case snd x of
      Branch _ _ _ \<Rightarrow> map_option (\<lambda>n. Branch ax (?ns[idx := (fst x, n)]) ds) (node_remove pane (snd x))
    | Leaf p \<Rightarrow> if p = pane then Some (remove_leaf ax ?ns ds idx) else None"
  have none: "?f k x = None \<longleftrightarrow> pane \<notin> set (node_pane_ids (snd x))" for k x
    using node_remove_None [of pane "snd x"] by (cases "snd x") simp_all
  then have "?f k (pre ! k) = None" if "k < length pre" for k using assms(1) that by simp
  moreover have "?f (length pre) (fl, m) \<noteq> None" using none [of "length pre" "(fl, m)"] assms(2) by simp
  ultimately have "find_loop ?f 0 ?ns = ?f (length pre) (fl, m)"
    using find_loop_at [of pre ?f "(fl, m)" post] by (auto split: option.splits)
  then have "node_remove pane (Branch ax ?ns ds) = ?f (length pre) (fl, m)" by (simp only: node_remove.simps)
  then show ?thesis using assms(2) by (cases m) simp_all
qed

lemma node_replace_at:
  assumes "old \<notin> set (nodes_ids pre)" "old \<in> set (node_pane_ids m)"
  shows "node_replace old new (Branch ax (pre @ (fl, m) # post) ds) =
    map_option (\<lambda>n. Branch ax (pre @ (fl, n) # post) ds) (node_replace old new m)"
proof -
  let ?ns = "pre @ (fl, m) # post"
  let ?f = "\<lambda>idx x. map_option (\<lambda>n. Branch ax (?ns[idx := (fst x, n)]) ds) (node_replace old new (snd x))"
  have none: "?f k x = None \<longleftrightarrow> old \<notin> set (node_pane_ids (snd x))" for k x
    using node_replace_None [of old new "snd x"] by simp
  then have "?f k (pre ! k) = None" if "k < length pre" for k using assms(1) that by simp
  moreover have "?f (length pre) (fl, m) \<noteq> None" using none [of "length pre" "(fl, m)"] assms(2) by simp
  ultimately have "find_loop ?f 0 ?ns = ?f (length pre) (fl, m)"
    using find_loop_at [of pre ?f "(fl, m)" post] by (auto split: option.splits)
  then show ?thesis by (simp add: node_replace.simps)
qed

lemma set_subst_first: "x \<in> set xs \<Longrightarrow> set ys \<subseteq> set (subst_first x ys xs)"
  by (induction xs) auto

lemma node_replace_back:
  assumes "tree_ok n" "new \<notin> set (node_pane_ids n)" "node_replace old new n = Some n'"
  shows "node_replace new old n' = Some n"
  using assms
proof (induction n arbitrary: n' rule: pane_node_induct)
  case (Leaf pane)
  then show ?case by (auto split: if_splits)
next
  case (Branch ax ns ds)
  obtain pre fl n m post where n: "ns = pre @ (fl, n) # post" "old \<notin> set (nodes_ids pre)" "old \<in> set (node_pane_ids n)"
    "node_replace old new n = Some m" "n' = Branch ax (pre @ (fl, m) # post) ds"
    using node_replace_child [OF Branch.prems(3)] by blast
  have ok: "tree_ok n" "new \<notin> set (node_pane_ids n)" "new \<notin> set (nodes_ids pre)" using Branch.prems(1,2) n(1) by auto
  have "node_replace new old m = Some n" using Branch.IH [of "(fl, n)" m] n(1,4) ok by simp
  moreover have "new \<in> set (node_pane_ids m)"
    using node_replace_ok [OF ok(1) n(4)] set_subst_first [OF n(3), of "[new]"] by simp
  ultimately show ?case using node_replace_at [OF ok(3), of m old ax fl post ds] n(1,5) by simp
qed

text \<open>The tree without its dividers, whose identifiers only serve to drag a border.\<close>

fun shape :: "'f pane_node \<Rightarrow> 'f pane_node" where
  "shape (Leaf pane) = Leaf pane"
| "shape (Branch ax ns ds) = Branch ax (map (\<lambda>x. (fst x, shape (snd x))) ns) []"

lemma remove_for_leaves: "old \<noteq> new \<Longrightarrow> node_remove new (for_leaves F d old new dir) = Some (Leaf old)"
  by (simp add: for_leaves_def branch_new_def node_remove.simps remove_leaf_def vec_remove_def)

lemma for_leaves_Branch: "\<exists>ax ns ds. for_leaves F d old new dir = Branch ax ns ds"
  by (simp add: for_leaves_def branch_new_def)

lemma split_leaf_back:
  assumes ok: "tree_ok (Branch ax (pre @ (fl, Leaf old) # post) ds)" and new: "new \<noteq> old" "new \<notin> set (nodes_ids pre)"
    and split: "split_leaf F d old new dir ax (pre @ (fl, Leaf old) # post) ds (length pre) fl = Some n'"
  shows "\<exists>n''. node_remove new n' = Some n'' \<and> shape n'' = shape (Branch ax (pre @ (fl, Leaf old) # post) ds)"
proof (cases "dir_axis dir = ax")
  case False
  then have "n' = Branch ax (pre @ (fl, for_leaves F d old new dir) # post) ds" using split by (simp add: split_leaf_def)
  moreover have "new \<in> set (node_pane_ids (for_leaves F d old new dir))" using for_leaves_ok(2) [of F d old new dir]
    by (simp add: beside_def)
  moreover obtain ax' ns' ds' where b: "for_leaves F d old new dir = Branch ax' ns' ds'" using for_leaves_Branch by blast
  moreover have "node_remove new (Branch ax' ns' ds') = Some (Leaf old)"
    using remove_for_leaves [of old new F d dir] new(1) b by simp
  ultimately show ?thesis
    using node_remove_at [OF new(2), of "for_leaves F d old new dir" ax fl post ds] by simp
next
  case True
  let ?fl = "DEFAULT_FLEX_VALUE F"
  define pre' post' where "pre' = (if backward dir then pre else pre @ [(fl, Leaf old)])"
    and "post' = (if backward dir then (fl, Leaf old) # post else post)"
  obtain ds' where n': "n' = Branch ax (pre' @ (?fl, Leaf new) # post') ds'"
    using True split ok by (auto simp: split_leaf_def vec_insert_def pre'_def post'_def split: if_splits)
  have "new \<notin> set (nodes_ids pre')" using new by (simp add: pre'_def)
  then have "node_remove new n' = Some (remove_leaf ax (pre' @ (?fl, Leaf new) # post') ds' (length pre'))"
    using node_remove_at [of new pre' "Leaf new" ax ?fl post' ds'] n' by simp
  moreover have "pre' @ post' = pre @ (fl, Leaf old) # post" "length (pre @ (fl, Leaf old) # post) \<noteq> 1"
    using ok by (auto simp: pre'_def post'_def)
  ultimately show ?thesis by (auto simp: remove_leaf_def Let_def vec_remove_length)
qed

lemma split_leaf_Branch: "split_leaf F d old new dir ax ns ds i fl = Some n' \<Longrightarrow> \<exists>ns ds. n' = Branch ax ns ds"
  by (auto simp: split_leaf_def vec_insert_def split: if_splits)

lemma node_split_Branch: "node_split F d old new dir n = Some (Some n') \<Longrightarrow> \<exists>ax ns ds. n' = Branch ax ns ds"
proof (cases n)
  case (Branch ax ns ds)
  assume "node_split F d old new dir n = Some (Some n')"
  from node_split_child [OF this [unfolded Branch]] show ?thesis using split_leaf_Branch by (metis map_option_eq_Some)
qed (auto simp: for_leaves_def branch_new_def split: if_splits)

lemma node_split_back:
  assumes "tree_ok n" "new \<notin> set (node_pane_ids n)" "node_split F d old new dir n = Some (Some n')"
  shows "\<exists>n''. node_remove new n' = Some n'' \<and> shape n'' = shape n"
  using assms
proof (induction n arbitrary: n' rule: pane_node_induct)
  case (Leaf pane)
  then show ?case by (auto simp: remove_for_leaves split: if_splits)
next
  case (Branch ax ns ds)
  obtain pre fl n post where n: "ns = pre @ (fl, n) # post" "old \<notin> set (nodes_ids pre)" "old \<in> set (node_pane_ids n)"
    and cases: "n = Leaf old \<and> Some n' = split_leaf F d old new dir ax ns ds (length pre) fl \<or>
     (\<exists>r'. node_split F d old new dir n = Some r' \<and> Some n' = map_option (\<lambda>m. Branch ax (pre @ (fl, m) # post) ds) r' \<and>
        (\<forall>p. n \<noteq> Leaf p))"
    using node_split_child [OF Branch.prems(3)] by blast
  have ok: "tree_ok n" "new \<notin> set (node_pane_ids n)" "new \<notin> set (nodes_ids pre)" "new \<noteq> old"
    using Branch.prems(1,2) n(1,3) by auto
  from cases show ?case
  proof (elim disjE conjE exE)
    assume "n = Leaf old" "Some n' = split_leaf F d old new dir ax ns ds (length pre) fl"
    then show ?thesis using split_leaf_back [of ax pre fl old post ds new F d dir n'] Branch.prems(1) n(1) ok by simp
  next
    fix r' assume "node_split F d old new dir n = Some r'" "Some n' = map_option (\<lambda>m. Branch ax (pre @ (fl, m) # post) ds) r'"
    then obtain m where m: "node_split F d old new dir n = Some (Some m)" "n' = Branch ax (pre @ (fl, m) # post) ds"
      by (cases r') auto
    obtain n'' where n'': "node_remove new m = Some n''" "shape n'' = shape n"
      using Branch.IH [of "(fl, n)" m] m(1) n(1) ok by auto
    have "new \<in> set (node_pane_ids m)" using n''(1) node_remove_None [of new m] by auto
    then show ?thesis
      using node_remove_at [OF ok(3), of m ax fl post ds] node_split_Branch [OF m(1)] n'' m(2) n(1) by auto
  qed
qed

section \<open>Neighbours\<close>

fun opposite :: "direction \<Rightarrow> direction" where
  "opposite DLeft = DRight"
| "opposite DRight = DLeft"
| "opposite DUp = DDown"
| "opposite DDown = DUp"

lemma opposite_simps [simp]:
  "opposite (opposite dir) = dir" "dir_axis (opposite dir) = dir_axis dir" "backward (opposite dir) \<longleftrightarrow> \<not> backward dir"
  by (cases dir; simp)+

text \<open>The panes that touch the edge of a node from which a movement in the direction enters it.\<close>

fun edge_panes :: "direction \<Rightarrow> 'f pane_node \<Rightarrow> pane_id set" where
  "edge_panes dir (Leaf pane) = {pane}"
| "edge_panes dir (Branch ax ns ds) =
     (let found = map (\<lambda>x. edge_panes dir (snd x)) ns
      in if ax = dir_axis dir then if backward dir then last found else hd found else \<Union> (set found))"

lemma those_Some: "(\<And>x. x \<in> set xs \<Longrightarrow> f x = Some (g x)) \<Longrightarrow> those (map f xs) = Some (map g xs)"
  by (induction xs) simp_all

lemma first_panes_edge: "tree_ok n \<Longrightarrow> first_panes_in_direction dir n = Some (edge_panes dir n)"
proof (induction n rule: pane_node_induct)
  case (Branch ax ns ds)
  then have eq: "first_panes_in_direction dir (snd x) = Some (edge_panes dir (snd x))" if "x \<in> set ns" for x
    using that by (simp add: list_all_iff)
  have "ns \<noteq> []" using Branch.prems by auto
  then show ?case
    using those_Some [of ns "\<lambda>x. first_panes_in_direction dir (snd x)" "\<lambda>x. edge_panes dir (snd x)"] eq
    by (simp add: Let_def last_map hd_map)
qed simp

lemma edge_panes_ids: "tree_ok n \<Longrightarrow> edge_panes dir n \<subseteq> set (node_pane_ids n)"
proof (induction n rule: pane_node_induct)
  case (Branch ax ns ds)
  then have sub: "edge_panes dir (snd x) \<subseteq> set (node_pane_ids (snd x))" if "x \<in> set ns" for x
    using that by (simp add: list_all_iff)
  have "last ns \<in> set ns" "hd ns \<in> set ns" "ns \<noteq> []" using Branch.prems by (cases ns; auto)+
  then show ?case using sub by (auto simp: Let_def last_map hd_map; blast)
qed simp

text \<open>The answer at a branch, given the child that holds the pane.\<close>

lemma panes_by_direction_at:
  assumes ok: "tree_ok (Branch ax ns ds)" and ns: "ns = pre @ (fl, n) # post"
    and pre: "\<And>x. x \<in> set pre \<Longrightarrow> node_panes_by_direction pane dir (snd x) = Some NotFound"
    and found: "node_panes_by_direction pane dir n = Some r" "r \<noteq> NotFound"
  shows "node_panes_by_direction pane dir (Branch ax ns ds) = Some (case r of
      Located \<Rightarrow> if dir_axis dir \<noteq> ax then Located
        else if backward dir then if pre = [] then Located else Found (edge_panes dir (snd (last pre)))
        else if post = [] then Located else Found (edge_panes dir (snd (hd post)))
    | _ \<Rightarrow> r)"
proof -
  let ?f = "\<lambda>idx x. case node_panes_by_direction pane dir (snd x) of
         None \<Rightarrow> Some None
       | Some NotFound \<Rightarrow> None
       | Some (Found ids) \<Rightarrow> Some (Some (Found ids))
       | Some Located \<Rightarrow>
           if dir_axis dir \<noteq> ax \<or> (if backward dir then idx = 0 else idx = length ns - 1)
           then Some (Some Located)
           else Some (do { x \<leftarrow> vec_get ns (if backward dir then idx - 1 else idx + 1);
                           ids \<leftarrow> first_panes_in_direction dir (snd x);
                           Some (Found ids) })"
  have oks: "tree_ok (snd x)" if "x \<in> set ns" for x using ok that by (simp add: list_all_iff)
  have prev: "vec_get ns (length pre - Suc 0) = Some (last pre)" "first_panes_in_direction dir (snd (last pre)) = Some (edge_panes dir (snd (last pre)))"
    if "pre \<noteq> []"
    using that first_panes_edge [OF oks, of "last pre"] ns by (simp_all add: vec_get_def nth_append last_conv_nth)
  have nxt: "vec_get ns (Suc (length pre)) = Some (hd post)" "first_panes_in_direction dir (snd (hd post)) = Some (edge_panes dir (snd (hd post)))"
    if "post \<noteq> []"
    using that first_panes_edge [OF oks, of "hd post"] ns by (simp_all add: vec_get_def nth_append hd_conv_nth)
  have "?f k (pre ! k) = None" if "k < length pre" for k using pre [of "pre ! k"] that by simp
  then have "find_loop ?f 0 ns = (case ?f (length pre) (fl, n) of None \<Rightarrow> find_loop ?f (Suc (length pre)) post | Some y \<Rightarrow> Some y)"
    unfolding ns by (rule find_loop_at)
  moreover have "node_panes_by_direction pane dir (Branch ax ns ds) = (case find_loop ?f 0 ns of None \<Rightarrow> Some NotFound | Some r \<Rightarrow> r)"
    by (simp only: node_panes_by_direction.simps)
  moreover have "length pre = length ns - 1 \<longleftrightarrow> post = []" "length pre = 0 \<longleftrightarrow> pre = []" using ns by auto
  ultimately show ?thesis
    using found prev nxt by (cases r) simp_all
qed

lemma panes_by_direction_absent:
  assumes "tree_ok n" "pane \<notin> set (node_pane_ids n)"
  shows "node_panes_by_direction pane dir n = Some NotFound"
  using assms
proof (induction n rule: pane_node_induct)
  case (Branch ax ns ds)
  then have "node_panes_by_direction pane dir (snd x) = Some NotFound" if "x \<in> set ns" for x
    using that by (auto simp: list_all_iff)
  then show ?case by (simp add: find_loop_none)
qed simp

lemma child_with_pane:
  assumes "pane \<in> set (nodes_ids ns)" "distinct (nodes_ids ns)"
  obtains pre fl n post where "ns = pre @ (fl, n) # post" "pane \<in> set (node_pane_ids n)"
    "pane \<notin> set (nodes_ids pre)" "pane \<notin> set (nodes_ids post)"
proof -
  obtain fl n where n: "(fl, n) \<in> set ns" "pane \<in> set (node_pane_ids n)" using assms(1) by auto
  obtain pre post where ns: "ns = pre @ (fl, n) # post" using split_list [OF n(1)] by blast
  have "nodes_ids ns = nodes_ids pre @ node_pane_ids n @ nodes_ids post" using ns by simp
  then have "pane \<notin> set (nodes_ids pre)" "pane \<notin> set (nodes_ids post)" using assms(2) n(2) by auto
  then show thesis using that ns n(2) by blast
qed

lemma edge_of_child:
  assumes ok: "tree_ok (Branch ax (pre @ (fl, n) # post) ds)" and pane: "pane \<notin> set (nodes_ids pre)" "pane \<notin> set (nodes_ids post)"
  shows "pane \<in> edge_panes dir (Branch ax (pre @ (fl, n) # post) ds) \<longleftrightarrow>
    pane \<in> edge_panes dir n \<and> (ax = dir_axis dir \<longrightarrow> (if backward dir then post = [] else pre = []))"
proof -
  have out: "pane \<notin> edge_panes dir (snd x)" if "x \<in> set pre \<union> set post" for x
    using edge_panes_ids [of "snd x" dir] pane ok that by (auto simp: list_all_iff)
  show ?thesis
  proof (cases "ax = dir_axis dir")
    case True
    then show ?thesis
      using out by (cases pre; cases post rule: rev_cases) (auto simp: Let_def)
  qed (use out in \<open>auto simp: Let_def\<close>)
qed

lemma direction_result:
  assumes "tree_ok n" "distinct (node_pane_ids n)" "pane \<in> set (node_pane_ids n)"
  shows "if pane \<in> edge_panes (opposite dir) n then node_panes_by_direction pane dir n = Some Located
    else \<exists>S. node_panes_by_direction pane dir n = Some (Found S) \<and> S \<subseteq> set (node_pane_ids n) \<and> pane \<notin> S"
  using assms
proof (induction n rule: pane_node_induct)
  case (Branch ax ns ds)
  obtain pre fl n post where n: "ns = pre @ (fl, n) # post" "pane \<in> set (node_pane_ids n)"
    "pane \<notin> set (nodes_ids pre)" "pane \<notin> set (nodes_ids post)"
    using child_with_pane Branch.prems(2,3) by (metis node_pane_ids.simps(2))
  have ok: "tree_ok n" "distinct (node_pane_ids n)" and oks: "list_all (\<lambda>x. tree_ok (snd x)) (pre @ post)"
    using Branch.prems n(1) by simp_all
  have absent: "node_panes_by_direction pane dir (snd x) = Some NotFound" if "x \<in> set pre" for x
    using panes_by_direction_absent [of "snd x" pane dir] oks n(3) that by (auto simp: list_all_iff)
  have IH: "if pane \<in> edge_panes (opposite dir) n then node_panes_by_direction pane dir n = Some Located
    else \<exists>S. node_panes_by_direction pane dir n = Some (Found S) \<and> S \<subseteq> set (node_pane_ids n) \<and> pane \<notin> S"
    using Branch.IH [of "(fl, n)", unfolded prod.sel] n(1,2) ok by (simp split del: if_split)
  have sub: "edge_panes dir (snd x) \<subseteq> set (nodes_ids ns) - {pane}" if "x \<in> set pre \<union> set post" for x
    using edge_panes_ids [of "snd x" dir] oks n(1,3,4) that by (fastforce simp: list_all_iff)
  have edge: "pane \<in> edge_panes (opposite dir) (Branch ax ns ds) \<longleftrightarrow> pane \<in> edge_panes (opposite dir) n \<and>
    (ax = dir_axis dir \<longrightarrow> (if backward dir then pre = [] else post = []))"
    using edge_of_child [of ax pre fl n post ds pane "opposite dir"] Branch.prems(1) n by auto
  show ?case
  proof (cases "pane \<in> edge_panes (opposite dir) n")
    case True
    then have "node_panes_by_direction pane dir n = Some Located" using IH by simp
    from panes_by_direction_at [OF Branch.prems(1) n(1) absent this] edge True
    show ?thesis using sub [of "last pre"] sub [of "hd post"] by auto
  next
    case False
    then obtain S where "node_panes_by_direction pane dir n = Some (Found S)" "S \<subseteq> set (node_pane_ids n)" "pane \<notin> S"
      using IH by auto
    with panes_by_direction_at [OF Branch.prems(1) n(1) absent this(1)] edge False n(1) show ?thesis by auto
  qed
qed simp

lemma located_at_edge:
  assumes "tree_ok n" "distinct (node_pane_ids n)" "pane \<in> set (node_pane_ids n)"
  shows "node_panes_by_direction pane dir n = Some Located \<longleftrightarrow> pane \<in> edge_panes (opposite dir) n"
  using direction_result [OF assms, of dir] by (auto split: if_splits)

text \<open>One step at a branch: from the last node before a child, moving back finds the child's edge.\<close>

lemma neighbour_step:
  assumes ok: "tree_ok (Branch ax ns ds)" and dist: "distinct (nodes_ids ns)" and ax: "ax = dir_axis dir"
    and ns: "ns = pre @ (f1, m) # (f2, n) # post"
    and q: "q \<in> edge_panes dir (if backward dir then m else n)"
  shows "node_panes_by_direction q (opposite dir) (Branch ax ns ds) =
    Some (Found (edge_panes (opposite dir) (if backward dir then n else m)))"
proof -
  have oks: "tree_ok (snd x)" if "x \<in> set ns" for x using ok that by (simp add: list_all_iff)
  have mn: "tree_ok m" "tree_ok n" using oks [of "(f1, m)"] oks [of "(f2, n)"] ns by simp_all
  have parts: "nodes_ids ns = nodes_ids pre @ node_pane_ids m @ node_pane_ids n @ nodes_ids post" using ns by simp
  show ?thesis
  proof (cases "backward dir")
    case True
    have qm: "q \<in> set (node_pane_ids m)" using q True edge_panes_ids [OF mn(1), of dir] by auto
    then have "node_panes_by_direction q (opposite dir) (snd x) = Some NotFound" if "x \<in> set pre" for x
      using that dist parts oks [of x] ns by (intro panes_by_direction_absent) auto
    moreover have "node_panes_by_direction q (opposite dir) m = Some Located"
      using located_at_edge [OF mn(1) _ qm, of "opposite dir"] q True dist parts by simp
    ultimately show ?thesis using panes_by_direction_at [OF ok ns, of q "opposite dir" Located] ax True by simp
  next
    case False
    have qn: "q \<in> set (node_pane_ids n)" using q False edge_panes_ids [OF mn(2), of dir] by auto
    then have "node_panes_by_direction q (opposite dir) (snd x) = Some NotFound" if "x \<in> set (pre @ [(f1, m)])" for x
      using that dist parts oks [of x] ns by (intro panes_by_direction_absent) auto
    moreover have "node_panes_by_direction q (opposite dir) n = Some Located"
      using located_at_edge [OF mn(2) _ qn, of "opposite dir"] q False dist parts by simp
    ultimately show ?thesis
      using panes_by_direction_at [OF ok, of "pre @ [(f1, m)]" f2 n post q "opposite dir" Located] ns ax False by simp
  qed
qed

lemma neighbours_symmetric_node:
  assumes "tree_ok n" "distinct (node_pane_ids n)" "node_panes_by_direction p dir n = Some (Found S)" "q \<in> S"
  shows "\<exists>T. node_panes_by_direction q (opposite dir) n = Some (Found T) \<and> p \<in> T"
  using assms
proof (induction n rule: pane_node_induct)
  case (Branch ax ns ds)
  note ok = Branch.prems(1)
  have p: "p \<in> set (nodes_ids ns)"
    using panes_by_direction_absent [OF ok, of p dir] Branch.prems(3) by (cases "p \<in> set (nodes_ids ns)") auto
  have dist: "distinct (nodes_ids ns)" using Branch.prems(2) by simp
  obtain pre fl n post where n: "ns = pre @ (fl, n) # post" "p \<in> set (node_pane_ids n)"
    "p \<notin> set (nodes_ids pre)" "p \<notin> set (nodes_ids post)" by (rule child_with_pane [OF p dist])
  have okn: "tree_ok n" "distinct (node_pane_ids n)" and oks: "\<And>x. x \<in> set ns \<Longrightarrow> tree_ok (snd x)"
    using ok dist n(1) by (auto simp: list_all_iff)
  have absent: "node_panes_by_direction p dir (snd x) = Some NotFound" if "x \<in> set pre" for x
    using panes_by_direction_absent [OF oks, of x p dir] n(1,3) that by auto
  show ?case
  proof (cases "p \<in> edge_panes (opposite dir) n")
    case True
    then have "node_panes_by_direction p dir n = Some Located" using located_at_edge [OF okn n(2)] by simp
    from panes_by_direction_at [OF ok n(1) absent this] Branch.prems(3)
    have ax: "ax = dir_axis dir" and S: "S = edge_panes dir (snd (if backward dir then last pre else hd post))"
      and ne: "if backward dir then pre \<noteq> [] else post \<noteq> []" by (auto split: if_splits)
    show ?thesis
    proof (cases "backward dir")
      case bw: True
      then have "ns = butlast pre @ (fst (last pre), snd (last pre)) # (fl, n) # post" using ne n(1) by simp
      then show ?thesis using neighbour_step [OF ok dist ax, of "butlast pre" "fst (last pre)" "snd (last pre)" fl n post q]
          bw S Branch.prems(4) True by auto
    next
      case fw: False
      then have "ns = pre @ (fl, n) # (fst (hd post), snd (hd post)) # tl post" using ne n(1) by simp
      then show ?thesis using neighbour_step [OF ok dist ax, of pre fl n "fst (hd post)" "snd (hd post)" "tl post" q]
          fw S Branch.prems(4) True by auto
    qed
  next
    case False
    then obtain S' where S': "node_panes_by_direction p dir n = Some (Found S')" "S' \<subseteq> set (node_pane_ids n)"
      using direction_result [OF okn n(2), of dir] by auto
    have "S' = S" using panes_by_direction_at [OF ok n(1) absent S'(1)] Branch.prems(3) by simp
    then obtain T where T: "node_panes_by_direction q (opposite dir) n = Some (Found T)" "p \<in> T"
      using Branch.IH [of "(fl, n)"] n(1) okn S'(1) Branch.prems(4) by auto
    have "q \<in> set (node_pane_ids n)" using S'(2) \<open>S' = S\<close> Branch.prems(4) by auto
    then have "node_panes_by_direction q (opposite dir) (snd x) = Some NotFound" if "x \<in> set pre" for x
      using that dist n(1) oks [of x] by (intro panes_by_direction_absent) auto
    from panes_by_direction_at [OF ok n(1) this T(1)] show ?thesis using T(2) by auto
  qed
qed (simp split: if_splits)

section \<open>Siblings\<close>

lemma leaf_at_Some: "leaf_at ns i = Some p \<Longrightarrow> \<exists>fl. i < length ns \<and> ns ! i = (fl, Leaf p)"
  by (auto simp: vec_get_def split: if_splits prod.splits pane_node.splits)

lemma sibling_adjacent_node:
  assumes "sibling_search target dir n = Some (Some p)"
  shows "\<exists>as bs. node_pane_ids n = as @ beside dir target p @ bs"
  using assms
proof (induction n rule: pane_node_induct)
  case (Branch ax ns ds)
  obtain pre x post where x: "ns = pre @ x # post" and body: "(case snd x of
         Branch _ _ _ \<Rightarrow>
           (case sibling_search target dir (snd x) of Some (Some pane) \<Rightarrow> Some (Some pane) | _ \<Rightarrow> None)
       | Leaf pane \<Rightarrow>
           if dir_axis dir = ax \<and> pane = target
           then Some (if backward dir then if length pre = 0 then None else leaf_at ns (length pre - 1)
                      else if length pre = length ns - 1 then None else leaf_at ns (length pre + 1))
           else None) = Some (Some p)"
    by (rule find_loop_SomeE [OF Branch.prems [unfolded sibling_search.simps]]) (simp only: add_0)
  show ?case
  proof (cases "snd x")
    case (Branch ax' ns' ds')
    then have "sibling_search target dir (snd x) = Some (Some p)" using body by (simp split: option.splits)
    then obtain as bs where "node_pane_ids (snd x) = as @ beside dir target p @ bs" using Branch.IH [of x] x by auto
    then show ?thesis
      using x by (intro exI [of _ "nodes_ids pre @ as"] exI [of _ "bs @ nodes_ids post"]) simp
  next
    case (Leaf pane)
    then have pane: "pane = target" using body by (simp split: if_splits)
    show ?thesis
    proof (cases "backward dir")
      case True
      then obtain fl where "pre \<noteq> []" "ns ! (length pre - 1) = (fl, Leaf p)"
        using body Leaf leaf_at_Some [of ns "length pre - 1" p] by (auto split: if_splits simp del: leaf_at.simps)
      then have "pre = butlast pre @ [(fl, Leaf p)]" using x append_butlast_last_id [of pre] by (simp add: nth_append last_conv_nth)
      from arg_cong [OF this, of nodes_ids] have "nodes_ids pre = nodes_ids (butlast pre) @ [p]" by simp
      then show ?thesis
        using x pane True Leaf by (intro exI [of _ "nodes_ids (butlast pre)"] exI [of _ "nodes_ids post"]) (simp add: beside_def)
    next
      case False
      then obtain fl where "ns ! (length pre + 1) = (fl, Leaf p)" "length pre + 1 < length ns"
        using body Leaf leaf_at_Some [of ns "length pre + 1" p] by (auto split: if_splits simp del: leaf_at.simps)
      then have "post = (fl, Leaf p) # tl post" using x by (cases post) (simp_all add: nth_append)
      from arg_cong [OF this, of nodes_ids] have "nodes_ids post = p # nodes_ids (tl post)" by simp
      then show ?thesis
        using x pane False Leaf by (intro exI [of _ "nodes_ids pre"] exI [of _ "nodes_ids (tl post)"]) (simp add: beside_def)
    qed
  qed
qed simp

lemma sibling_adjacent:
  "node_sibling_by_direction target dir n = Some p \<Longrightarrow> \<exists>as bs. node_pane_ids n = as @ beside dir target p @ bs"
  using sibling_adjacent_node [of target dir n p]
  by (cases "sibling_search target dir n") (auto simp: node_sibling_by_direction_def)

section \<open>Resizing keeps the panes\<close>

text \<open>What a resize may change: flex factors only.\<close>

definition same_panes :: "'f pane_node \<Rightarrow> 'f pane_node \<Rightarrow> bool" where
  "same_panes n n' \<longleftrightarrow> (tree_ok n \<longrightarrow> tree_ok n') \<and> node_pane_ids n' = node_pane_ids n"

lemma same_panes_refl [simp]: "same_panes n n"
  by (simp add: same_panes_def)

lemma same_panes_update:
  assumes "i < length ns" "same_panes (snd (ns ! i)) n"
  shows "same_panes (Branch ax ns ds) (Branch ax (ns[i := (fl, n)]) ds)"
proof -
  have split: "ns = take i ns @ ns ! i # drop (Suc i) ns" using assms(1) by (rule id_take_nth_drop)
  have "ns[i := (fl, n)] = take i ns @ (fl, n) # drop (Suc i) ns" using assms(1) by (rule upd_conv_take_nth_drop)
  moreover have "nodes_ids ns = nodes_ids (take i ns) @ node_pane_ids (snd (ns ! i)) @ nodes_ids (drop (Suc i) ns)"
    by (subst split) simp
  ultimately have "nodes_ids (ns[i := (fl, n)]) = nodes_ids ns" using assms(2) by (simp add: same_panes_def)
  moreover have "list_all (\<lambda>x. tree_ok (snd x)) (ns[i := (fl, n)])" if "list_all (\<lambda>x. tree_ok (snd x)) ns"
    using that assms by (auto simp: list_all_length nth_list_update same_panes_def)
  ultimately show ?thesis by (simp add: same_panes_def)
qed

lemma find_loop_nth:
  assumes "find_loop f 0 xs = Some y"
  obtains i where "i < length xs" "f i (xs ! i) = Some y"
proof -
  obtain pre x post where "xs = pre @ x # post" "f (length pre) x = Some y"
    by (rule find_loop_SomeE [OF assms]) simp
  then show thesis using that [of "length pre"] by simp
qed

lemma position_Some:
  assumes "position P xs = Some i"
  obtains pre x post where "xs = pre @ x # post" "i = length pre" "P x" "\<forall>y\<in>set pre. \<not> P y"
proof -
  obtain pre x post where x: "xs = pre @ x # post" "(if P x then Some (0 + length pre) else None) = Some i"
    "find_loop (\<lambda>i x. if P x then Some i else None) 0 pre = None"
    by (rule find_loop_SomeE [OF assms [unfolded position_def]])
  have "\<forall>y\<in>set pre. \<not> P y" using x(3) by (auto simp: find_loop_None in_set_conv_nth split: if_splits)
  then show thesis using that [of pre x post] x by (simp split: if_splits)
qed

lemma position_None: "position P xs = None \<longleftrightarrow> (\<forall>x\<in>set xs. \<not> P x)"
  unfolding position_def by (rule find_loop_None_iff) simp

lemma pane_size_Some: "tree_ok n \<Longrightarrow> \<exists>s. pane_size F rects n = Some s"
proof (induction n rule: pane_node_induct)
  case (Branch ax ns ds)
  then have "\<exists>s. pane_size F rects (snd x) = Some s" if "x \<in> set ns" for x using that by (simp add: list_all_iff)
  then have "pane_size F rects (snd x) = Some (the (pane_size F rects (snd x)))" if "x \<in> set ns" for x
    using that by fastforce
  then have "those (map (\<lambda>x. pane_size F rects (snd x)) ns) = Some (map (\<lambda>x. the (pane_size F rects (snd x))) ns)"
    by (rule those_Some)
  moreover have "ns \<noteq> []" using Branch.prems by auto
  ultimately show ?case by (simp add: vec_get_def)
qed simp

lemma adjust_at_ok:
  assumes "tree_ok (Branch ax ns ds)" "idx < length ds"
  shows "\<exists>n. adjust_at F rects m delta ax ns ds idx = Some n \<and> same_panes (Branch ax ns ds) n"
proof -
  have len: "idx < length ns" "idx + 1 < length ns" using assms by simp_all
  obtain f1 n1 f2 n2 where ns: "ns ! idx = (f1, n1)" "ns ! (idx + 1) = (f2, n2)" by fastforce
  have "tree_ok (snd (ns ! idx))" "tree_ok (snd (ns ! (idx + 1)))" using assms(1) len by (simp_all add: list_all_length)
  then obtain s1 s2 where sizes: "pane_size F rects n1 = Some s1" "pane_size F rects n2 = Some s2"
    using pane_size_Some ns by (metis snd_conv)
  have upd: "same_panes (Branch ax ns ds) (Branch ax (ns[idx := (g1, n1), idx + 1 := (g2, n2)]) ds)" for g1 g2
  proof -
    have "same_panes (Branch ax ns ds) (Branch ax (ns[idx := (g1, n1)]) ds)"
      by (rule same_panes_update [OF len(1)]) (simp add: ns)
    moreover have "same_panes (Branch ax (ns[idx := (g1, n1)]) ds) (Branch ax (ns[idx := (g1, n1), idx + 1 := (g2, n2)]) ds)"
      by (rule same_panes_update) (use len ns in simp_all)
    ultimately show ?thesis by (simp add: same_panes_def)
  qed
  show ?thesis using len ns sizes upd by (simp add: adjust_at_def vec_get_def Let_def)
qed

lemma node_adjust_ok:
  assumes "tree_ok n" "node_adjust F rects m border delta n = Some r"
  shows "\<exists>n'. r = Some n' \<and> same_panes n n'"
  using assms
proof (induction n arbitrary: r rule: pane_node_induct)
  case (Branch ax ns ds)
  show ?case
  proof (cases "position (\<lambda>d. d = border) ds")
    case None
    then obtain i where i: "i < length ns" "map_option (map_option (\<lambda>n. Branch ax (ns[i := (fst (ns ! i), n)]) ds))
        (node_adjust F rects m border delta (snd (ns ! i))) = Some r"
      using Branch.prems(2) by (auto elim!: find_loop_nth)
    then obtain r' where r': "node_adjust F rects m border delta (snd (ns ! i)) = Some r'"
      "r = map_option (\<lambda>n. Branch ax (ns[i := (fst (ns ! i), n)]) ds) r'" by auto
    moreover have "tree_ok (snd (ns ! i))" using Branch.prems(1) i(1) by (simp add: list_all_length)
    ultimately obtain n' where "r' = Some n'" "same_panes (snd (ns ! i)) n'"
      using Branch.IH [of "ns ! i" r'] i(1) by auto
    then show ?thesis using r'(2) same_panes_update [OF i(1)] by auto
  next
    case (Some idx)
    then have "idx < length ds" by (auto elim: position_Some)
    then show ?thesis using adjust_at_ok [OF Branch.prems(1)] Some Branch.prems(2) by auto
  qed
qed simp

lemma node_reset_ok:
  assumes "node_reset_sizes F border n = Some n'"
  shows "same_panes n n'"
  using assms
proof (induction n arbitrary: n' rule: pane_node_induct)
  case (Branch ax ns ds)
  show ?case
  proof (cases "border \<in> set ds")
    case True
    then show ?thesis using Branch.prems by (auto simp: same_panes_def list_all_iff o_def)
  next
    case False
    then obtain i where i: "i < length ns" "map_option (\<lambda>n. Branch ax (ns[i := (fst (ns ! i), n)]) ds)
        (node_reset_sizes F border (snd (ns ! i))) = Some n'"
      using Branch.prems by (auto elim!: find_loop_nth)
    then show ?thesis using Branch.IH [of "ns ! i"] same_panes_update [OF i(1)] by auto
  qed
qed simp

lemma same_panes_all2:
  assumes "list_all2 (\<lambda>x y. same_panes (snd x) (snd y)) ns ns'"
  shows "same_panes (Branch ax ns ds) (Branch ax ns' ds)"
proof -
  have "nodes_ids ns' = nodes_ids ns" using assms by (induction rule: list_all2_induct) (simp_all add: same_panes_def)
  moreover have "list_all (\<lambda>x. tree_ok (snd x)) ns'" if "list_all (\<lambda>x. tree_ok (snd x)) ns"
    using assms that by (induction rule: list_all2_induct) (simp_all add: same_panes_def)
  ultimately show ?thesis using list_all2_lengthD [OF assms] by (simp add: same_panes_def)
qed

lemma scan_loop_same:
  assumes "\<And>x. x \<in> set ns \<Longrightarrow> \<exists>b n. f x = Some (b, (fst x, n)) \<and> same_panes (snd x) n"
  shows "\<exists>hit ns'. scan_loop f i ns = Some (hit, ns') \<and> list_all2 (\<lambda>x y. same_panes (snd x) (snd y)) ns ns'"
  using assms
proof (induction ns arbitrary: i)
  case (Cons x ns)
  obtain b n where x: "f x = Some (b, (fst x, n))" "same_panes (snd x) n" using Cons.prems [of x] by auto
  obtain hit ns' where "scan_loop f (Suc i) ns = Some (hit, ns')" "list_all2 (\<lambda>x y. same_panes (snd x) (snd y)) ns ns'"
    using Cons.IH [of "Suc i"] Cons.prems by auto
  then show ?case using x by (cases b) (auto simp: list_all2_refl)
qed simp

lemma same_panes_trans: "same_panes a b \<Longrightarrow> same_panes b c \<Longrightarrow> same_panes a c"
  by (simp add: same_panes_def)

lemma node_adjust_by_id_ok:
  assumes "tree_ok n"
  shows "\<exists>b n'. node_adjust_by_id F rects m pane direction delta n = Some (b, n') \<and> same_panes n n'"
  using assms
proof (induction n rule: pane_node_induct)
  case (Branch ax ns ds)
  let ?f = "\<lambda>x. map_option (\<lambda>(b, n). (b, (fst x, n))) (node_adjust_by_id F rects m pane direction delta (snd x))"
  have "\<exists>b n. ?f x = Some (b, (fst x, n)) \<and> same_panes (snd x) n" if "x \<in> set ns" for x
    using Branch.IH [OF that] Branch.prems that by (fastforce simp: list_all_iff)
  from scan_loop_same [OF this, of ns 0] obtain hit ns' where scan: "scan_loop ?f 0 ns = Some (hit, ns')"
    "same_panes (Branch ax ns ds) (Branch ax ns' ds)"
    using same_panes_all2 [of ns _ ax ds] by blast
  show ?case
  proof (cases "hit = None \<or> direction \<noteq> ax")
    case True
    then show ?thesis using scan by (cases hit) auto
  next
    case False
    then obtain idx where idx: "hit = Some idx" "direction = ax" by auto
    have ok: "tree_ok (Branch ax ns' ds)" using scan(2) Branch.prems by (simp add: same_panes_def)
    have "ds \<noteq> []" using Branch.prems by auto
    then have "min idx (length ds - 1) < length ds" "1 \<le> length ds" by (cases ds; auto)+
    then have "checked_sub (length ds) 1 = Some (length ds - 1)"
      "vec_get ds (min idx (length ds - 1)) = Some (ds ! min idx (length ds - 1))" by (simp_all add: checked_sub_def vec_get_def)
    moreover obtain n' where "(case node_adjust F rects m (ds ! min idx (length ds - 1)) delta (Branch ax ns' ds) of
        None \<Rightarrow> Some (Branch ax ns' ds) | Some r \<Rightarrow> r) = Some n'" "same_panes (Branch ax ns' ds) n'"
      using node_adjust_ok [OF ok, of F rects m "ds ! min idx (length ds - 1)" delta]
      by (cases "node_adjust F rects m (ds ! min idx (length ds - 1)) delta (Branch ax ns' ds)") (auto simp del: node_adjust.simps)
    ultimately show ?thesis
      using scan idx same_panes_trans [OF scan(2)] by (auto simp del: node_adjust.simps)
  qed
qed simp

end
