(* ===== verification/Pane_Properties.thy ===== *)
theory Pane_Properties
  imports Pane_Tree_Correct
begin

text \<open>
  The operations of the pane data as the steps of a state machine, its invariant, and what
  single operations guarantee.
\<close>

section \<open>The invariant\<close>

text \<open>Panes that were swapped out and wait for their replacement to be reverted.\<close>

fun is_replacement :: "hidden_pane_reason \<Rightarrow> bool" where
  "is_replacement (TemporaryReplacement p) = True"
| "is_replacement _ = False"

definition originals :: "'f pane_data \<Rightarrow> pane_id list" where
  "originals t = map hp_pane_id (filter (\<lambda>h. is_replacement (hp_reason h)) (pt_hidden t))"

definition pane_data_ok :: "'f pane_data \<Rightarrow> bool" where
  "pane_data_ok t \<longleftrightarrow> tree_ok (pt_root t) \<and> distinct (pane_ids t) \<and> pt_len t = length (pane_ids t) \<and>
     distinct (originals t) \<and> set (originals t) \<inter> set (pane_ids t) = {}"

section \<open>The steps\<close>

datatype 'f pane_op =
  OpSplit entity_id pane_id pane_id direction
| OpSplitRoot entity_id pane_id direction
| OpRemove pane_id
| OpMove entity_id pane_id pane_id direction
| OpReplace pane_id pane_id bool
| OpRevert pane_id
| OpHideForMove pane_id
| OpClearMoved
| OpToggleJob pane_id
| OpHideChildAgent pane_id
| OpShowChildAgent pane_id
| OpHideClosed pane_id
| OpUnhideClosed pane_id
| OpClearClosed
| OpRemoveHidden pane_id
| OpResize entity_id 'f
| OpResizeById pane_id split_direction 'f
| OpResetSizes entity_id

fun pane_step ::
    "'f float_ops \<Rightarrow> (pane_id \<Rightarrow> 'f rect option) \<Rightarrow> 'f \<Rightarrow> 'f pane_op \<Rightarrow> 'f pane_data \<Rightarrow> 'f pane_data option" where
  "pane_step F rects m (OpSplit d old new dir) t = map_option snd (pane_split F d old new dir t)"
| "pane_step F rects m (OpSplitRoot d new dir) t = Some (split_root F d new dir t)"
| "pane_step F rects m (OpRemove p) t = Some (snd (pane_remove p t))"
| "pane_step F rects m (OpMove d p target dir) t = map_option snd (move_pane F d p target dir t)"
| "pane_step F rects m (OpReplace old new temporary) t = Some (snd (replace_pane old new temporary t))"
| "pane_step F rects m (OpRevert p) t = Some (snd (revert_temporary_replacement p t))"
| "pane_step F rects m (OpHideForMove p) t = Some (hide_pane_for_move p t)"
| "pane_step F rects m OpClearMoved t = Some (clear_hidden_panes_from_move t)"
| "pane_step F rects m (OpToggleJob p) t = Some (snd (toggle_pane_visibility_for_job p t))"
| "pane_step F rects m (OpHideChildAgent p) t = Some (hide_pane_for_child_agent p t)"
| "pane_step F rects m (OpShowChildAgent p) t = Some (show_pane_for_child_agent p t)"
| "pane_step F rects m (OpHideClosed p) t = Some (hide_closed_pane p t)"
| "pane_step F rects m (OpUnhideClosed p) t = Some (snd (unhide_closed_pane p t))"
| "pane_step F rects m OpClearClosed t = Some (clear_hidden_closed_panes t)"
| "pane_step F rects m (OpRemoveHidden p) t = Some (remove_hidden_pane p t)"
| "pane_step F rects m (OpResize border delta) t = pane_adjust_size F rects m border delta t"
| "pane_step F rects m (OpResizeById p axis delta) t = pane_adjust_size_by_id F rects m p axis delta t"
| "pane_step F rects m (OpResetSizes border) t = Some (snd (pane_reset_sizes F border t))"

text \<open>A pane that enters the tree is neither in it nor swapped out of it.\<close>

definition fresh_pane :: "pane_id \<Rightarrow> 'f pane_data \<Rightarrow> bool" where
  "fresh_pane p t \<longleftrightarrow> p \<notin> set (pane_ids t) \<and> p \<notin> set (originals t)"

fun op_enters :: "'f pane_op \<Rightarrow> pane_id option" where
  "op_enters (OpSplit d old new dir) = Some new"
| "op_enters (OpSplitRoot d new dir) = Some new"
| "op_enters (OpReplace old new temporary) = Some new"
| "op_enters _ = None"

definition op_ok :: "'f pane_op \<Rightarrow> 'f pane_data \<Rightarrow> bool" where
  "op_ok op t \<longleftrightarrow> (case op_enters op of None \<Rightarrow> True | Some p \<Rightarrow> fresh_pane p t)"

fun pane_run ::
    "'f float_ops \<Rightarrow> (pane_id \<Rightarrow> 'f rect option) \<Rightarrow> 'f \<Rightarrow> 'f pane_op list \<Rightarrow> 'f pane_data \<Rightarrow> 'f pane_data option" where
  "pane_run F rects m [] t = Some t"
| "pane_run F rects m (op # ops) t = do { t' \<leftarrow> pane_step F rects m op t; pane_run F rects m ops t' }"

fun ops_ok :: "'f float_ops \<Rightarrow> (pane_id \<Rightarrow> 'f rect option) \<Rightarrow> 'f \<Rightarrow> 'f pane_op list \<Rightarrow> 'f pane_data \<Rightarrow> bool" where
  "ops_ok F rects m [] t \<longleftrightarrow> True"
| "ops_ok F rects m (op # ops) t \<longleftrightarrow>
     op_ok op t \<and> (case pane_step F rects m op t of None \<Rightarrow> True | Some t' \<Rightarrow> ops_ok F rects m ops t')"

section \<open>Panes as a list\<close>

lemma subst_first_absent: "x \<notin> set xs \<Longrightarrow> subst_first x ys xs = xs"
  by (induction xs) auto

lemma subst_first_mem:
  assumes "x \<in> set xs"
  obtains as bs where "xs = as @ x # bs" "x \<notin> set as" "subst_first x ys xs = as @ ys @ bs"
  using split_list_first [OF assms] subst_first_split that by metis

lemma beside_set [simp]: "set (beside dir old new) = {old, new}" "length (beside dir old new) = 2"
  "distinct (beside dir old new) \<longleftrightarrow> old \<noteq> new"
  by (auto simp: beside_def)

lemma distinct_subst:
  assumes "distinct xs" "distinct ys" "set ys \<inter> (set xs - {x}) = {}"
  shows "distinct (subst_first x ys xs)"
proof (cases "x \<in> set xs")
  case True
  then obtain as bs where "xs = as @ x # bs" "subst_first x ys xs = as @ ys @ bs" by (rule subst_first_mem)
  then show ?thesis using assms by auto
qed (simp add: subst_first_absent assms(1))

lemma set_subst:
  assumes "distinct xs" "x \<in> set xs" shows "set (subst_first x ys xs) = set ys \<union> (set xs - {x})"
    "length (subst_first x ys xs) + 1 = length xs + length ys"
proof -
  obtain as bs where "xs = as @ x # bs" "subst_first x ys xs = as @ ys @ bs" by (rule subst_first_mem [OF assms(2)])
  then show "set (subst_first x ys xs) = set ys \<union> (set xs - {x})" "length (subst_first x ys xs) + 1 = length xs + length ys"
    using assms(1) by auto
qed

section \<open>Every step keeps the invariant\<close>

lemma pane_data_okI:
  assumes "tree_ok (pt_root t)" "distinct (pane_ids t)" "pt_len t = length (pane_ids t)" "distinct (originals t)"
    "set (originals t) \<inter> set (pane_ids t) = {}"
  shows "pane_data_ok t"
  using assms by (simp add: pane_data_ok_def)

lemma originals_update [simp]:
  "originals (t\<lparr>pt_root := n\<rparr>) = originals t" "originals (t\<lparr>pt_len := k\<rparr>) = originals t"
  "pane_ids (t\<lparr>pt_root := n\<rparr>) = node_pane_ids n" "pane_ids (t\<lparr>pt_len := k\<rparr>) = pane_ids t"
  "pane_ids (t\<lparr>pt_hidden := hs\<rparr>) = pane_ids t"
  by (simp_all add: originals_def pane_ids_def)

lemma pane_split_ok:
  assumes "pane_data_ok t" "fresh_pane new t"
  shows "\<exists>t'. pane_split F d old new dir t = Some (old \<in> set (pane_ids t), t') \<and> pane_data_ok t' \<and>
    pt_hidden t' = pt_hidden t \<and> pane_ids t' = subst_first old (beside dir old new) (pane_ids t)"
proof (cases "old \<in> set (pane_ids t)")
  case False
  then have "node_split F d old new dir (pt_root t) = None" by (simp add: node_split_None pane_ids_def)
  then show ?thesis using assms False by (simp add: pane_split_def subst_first_absent)
next
  case True
  then obtain r where r: "node_split F d old new dir (pt_root t) = Some r"
    using node_split_None [of F d old new dir "pt_root t"] by (auto simp: pane_ids_def)
  moreover have ok: "tree_ok (pt_root t)" "distinct (pane_ids t)" using assms(1) by (simp_all add: pane_data_ok_def)
  ultimately obtain n' where n': "r = Some n'" "tree_ok n'" "node_pane_ids n' = subst_first old (beside dir old new) (pane_ids t)"
    using node_split_ok [OF ok(1) r] by (auto simp: pane_ids_def)
  have new: "new \<notin> set (pane_ids t)" "new \<notin> set (originals t)" using assms(2) by (simp_all add: fresh_pane_def)
  have "distinct (node_pane_ids n')" unfolding n'(3) using new True ok(2) by (intro distinct_subst) auto
  moreover note set_subst [OF ok(2) True, of "beside dir old new"]
  ultimately have "pane_data_ok (t\<lparr>pt_root := n', pt_len := pt_len t + 1\<rparr>)"
    using assms(1) n' new True by (intro pane_data_okI) (auto simp: pane_data_ok_def)
  then show ?thesis using r n' True by (simp add: pane_split_def)
qed

lemma pane_remove_ok:
  assumes "pane_data_ok t"
  shows "pane_data_ok (snd (pane_remove p t))" "pt_hidden (snd (pane_remove p t)) = pt_hidden t"
    "fst (pane_remove p t) \<longleftrightarrow> p \<in> set (pane_ids t) \<and> pt_root t \<noteq> Leaf p"
    "pane_ids (snd (pane_remove p t)) = (if fst (pane_remove p t) then subst_first p [] (pane_ids t) else pane_ids t)"
proof -
  have ok: "tree_ok (pt_root t)" "distinct (pane_ids t)" using assms by (simp_all add: pane_data_ok_def)
  have "pane_data_ok (snd (pane_remove p t)) \<and> pt_hidden (snd (pane_remove p t)) = pt_hidden t \<and>
    (fst (pane_remove p t) \<longleftrightarrow> p \<in> set (pane_ids t) \<and> pt_root t \<noteq> Leaf p) \<and>
    pane_ids (snd (pane_remove p t)) = (if fst (pane_remove p t) then subst_first p [] (pane_ids t) else pane_ids t)"
  proof (cases "node_remove p (pt_root t)")
    case None
    then show ?thesis using assms node_remove_None [of p "pt_root t"] by (auto simp: pane_remove_def pane_ids_def)
  next
    case (Some n)
    then have p: "p \<in> set (pane_ids t)" "pt_root t \<noteq> Leaf p" using node_remove_None [of p "pt_root t"] by (auto simp: pane_ids_def)
    have n: "tree_ok n" "node_pane_ids n = subst_first p [] (pane_ids t)"
      using node_remove_ok [OF ok(1) Some] by (simp_all add: pane_ids_def)
    have "distinct (node_pane_ids n)" unfolding n(2) using ok(2) by (intro distinct_subst) auto
    then have "pane_data_ok (t\<lparr>pt_root := n, pt_len := pt_len t - 1\<rparr>)"
      using assms n set_subst [OF ok(2) p(1), of "[]"] by (intro pane_data_okI) (auto simp: pane_data_ok_def)
    then show ?thesis using Some p n by (simp add: pane_remove_def)
  qed
  then show "pane_data_ok (snd (pane_remove p t))" "pt_hidden (snd (pane_remove p t)) = pt_hidden t"
    "fst (pane_remove p t) \<longleftrightarrow> p \<in> set (pane_ids t) \<and> pt_root t \<noteq> Leaf p"
    "pane_ids (snd (pane_remove p t)) = (if fst (pane_remove p t) then subst_first p [] (pane_ids t) else pane_ids t)" by blast+
qed

lemma split_root_ok:
  assumes "pane_data_ok t" "fresh_pane new t"
  shows "pane_data_ok (split_root F d new dir t)"
proof -
  have ok: "tree_ok (pt_root t)" using assms(1) by (simp add: pane_data_ok_def)
  show ?thesis
    using assms node_insert_ok [OF ok, of F d new dir]
    by (intro pane_data_okI) (auto simp: split_root_def pane_data_ok_def fresh_pane_def pane_ids_def originals_def)
qed

lemma move_pane_ok:
  assumes "pane_data_ok t"
  shows "\<exists>b t'. move_pane F d p target dir t = Some (b, t') \<and> pane_data_ok t' \<and> pt_hidden t' = pt_hidden t"
proof (cases "p = target \<or> node_sibling_by_direction target dir (pt_root t) = Some p \<or> \<not> fst (pane_remove p t)")
  case True
  then show ?thesis using assms pane_remove_ok [OF assms, of p] by (auto simp: move_pane_def split: prod.splits)
next
  case False
  obtain t' where t': "pane_remove p t = (True, t')" using False by (cases "pane_remove p t") auto
  note rem = pane_remove_ok [OF assms, of p, unfolded t' fst_conv snd_conv]
  have dist: "distinct (pane_ids t)" "p \<notin> set (originals t)" and p: "p \<in> set (pane_ids t)"
    using assms rem(3) by (auto simp: pane_data_ok_def)
  have "fresh_pane p t'"
    using rem(2,4) dist set_subst [OF dist(1) p, of "[]"] by (simp add: fresh_pane_def originals_def)
  from pane_split_ok [OF rem(1) this, of F d target dir] show ?thesis
    using False t' rem(2) by (auto simp: move_pane_def)
qed

text \<open>Changes of the hidden panes alone.\<close>

lemma pane_data_ok_hidden:
  assumes "pane_data_ok t" "distinct (originals (t\<lparr>pt_hidden := hs\<rparr>))" "set (originals (t\<lparr>pt_hidden := hs\<rparr>)) \<subseteq> set (originals t)"
  shows "pane_data_ok (t\<lparr>pt_hidden := hs\<rparr>)"
  using assms by (auto simp: pane_data_ok_def pane_ids_def)

lemma pane_data_ok_filter:
  assumes "pane_data_ok t" shows "pane_data_ok (t\<lparr>pt_hidden := filter P (pt_hidden t)\<rparr>)"
proof (rule pane_data_ok_hidden [OF assms])
  let ?Q = "\<lambda>h. is_replacement (hp_reason h)"
  have eq: "originals (t\<lparr>pt_hidden := filter P (pt_hidden t)\<rparr>) = map hp_pane_id (filter P (filter ?Q (pt_hidden t)))"
    by (simp add: originals_def conj_commute)
  have "distinct (map hp_pane_id (filter ?Q (pt_hidden t)))" using assms by (simp add: pane_data_ok_def originals_def)
  then show "distinct (originals (t\<lparr>pt_hidden := filter P (pt_hidden t)\<rparr>))" unfolding eq by (rule distinct_map_filter)
  show "set (originals (t\<lparr>pt_hidden := filter P (pt_hidden t)\<rparr>)) \<subseteq> set (originals t)" by (auto simp: originals_def)
qed

lemma originals_hide [simp]:
  "originals (hide_pane reason p t) = originals t @ (if is_replacement reason then [p] else [])"
  "pane_ids (hide_pane reason p t) = pane_ids t" "pt_len (hide_pane reason p t) = pt_len t"
  by (simp_all add: originals_def hide_pane_def hidden_def pane_ids_def)

lemma pane_data_ok_hide: "pane_data_ok t \<Longrightarrow> \<not> is_replacement reason \<Longrightarrow> pane_data_ok (hide_pane reason p t)"
  unfolding hide_pane_def by (rule pane_data_ok_hidden) (auto simp: pane_data_ok_def originals_def hidden_def)

lemma originals_remove:
  assumes "pt_hidden t = pre @ h # post"
  shows "vec_remove (length pre) (pt_hidden t) = pre @ post"
    "originals t = originals (t\<lparr>pt_hidden := pre\<rparr>) @ (if is_replacement (hp_reason h) then [hp_pane_id h] else []) @ originals (t\<lparr>pt_hidden := post\<rparr>)"
    "originals (t\<lparr>pt_hidden := pre @ post\<rparr>) = originals (t\<lparr>pt_hidden := pre\<rparr>) @ originals (t\<lparr>pt_hidden := post\<rparr>)"
  using assms by (simp_all add: vec_remove_length originals_def)

lemma unhide_where_ok: "pane_data_ok t \<Longrightarrow> pane_data_ok (snd (unhide_where P t))"
proof (cases "position P (pt_hidden t)")
  case (Some i)
  assume ok: "pane_data_ok t"
  obtain pre h post where h: "pt_hidden t = pre @ h # post" "i = length pre" using position_Some [OF Some] by metis
  have "pane_data_ok (t\<lparr>pt_hidden := pre @ post\<rparr>)"
    using ok originals_remove [OF h(1)] by (intro pane_data_ok_hidden) (auto simp: pane_data_ok_def split: if_splits)
  then show ?thesis using Some h originals_remove(1) [OF h(1)] by (simp add: unhide_where_def)
qed (simp add: unhide_where_def)

lemma replace_pane_ok:
  assumes "pane_data_ok t" "fresh_pane new t"
  shows "pane_data_ok (snd (replace_pane old new temporary t))"
proof (cases "old \<in> set (pane_ids t)")
  case False
  then show ?thesis using assms by (simp add: replace_pane_def contains_pane_iff pane_ids_def)
next
  case True
  have ok: "tree_ok (pt_root t)" "distinct (pane_ids t)" using assms(1) by (simp_all add: pane_data_ok_def)
  obtain n where n: "node_replace old new (pt_root t) = Some n"
    using True node_replace_None [of old new "pt_root t"] by (auto simp: pane_ids_def)
  have n': "tree_ok n" "node_pane_ids n = subst_first old [new] (pane_ids t)"
    using node_replace_ok [OF ok(1) n] by (simp_all add: pane_ids_def)
  have new: "new \<notin> set (pane_ids t)" "new \<notin> set (originals t)" using assms(2) by (simp_all add: fresh_pane_def)
  have dist: "distinct (node_pane_ids n)" unfolding n'(2) using new ok(2) by (intro distinct_subst) auto
  note ids = set_subst [OF ok(2) True, of "[new]"]
  have "pane_data_ok (t1\<lparr>pt_root := n\<rparr>)" if "t1 = t \<or> t1 = hide_pane (TemporaryReplacement new) old t" for t1
    using that assms(1) n' new dist ids True
    by (intro pane_data_okI) (auto simp: pane_data_ok_def)
  then show ?thesis using True n by (auto simp: replace_pane_def contains_pane_iff pane_ids_def hide_pane_def)
qed

lemma revert_ok:
  assumes "pane_data_ok t"
  shows "pane_data_ok (snd (revert_temporary_replacement p t))"
proof (cases "position (\<lambda>h. hp_reason h = TemporaryReplacement p) (pt_hidden t)")
  case (Some i)
  obtain pre h post where h: "pt_hidden t = pre @ h # post" "i = length pre" "hp_reason h = TemporaryReplacement p"
    using position_Some [OF Some] by metis
  let ?o = "hp_pane_id h"
  have ok: "tree_ok (pt_root t)" "distinct (pane_ids t)" using assms by (simp_all add: pane_data_ok_def)
  show ?thesis
  proof (cases "node_replace p ?o (pt_root t)")
    case None
    then show ?thesis using assms Some h by (simp add: revert_temporary_replacement_def Let_def)
  next
    case n: (Some n)
    have p: "p \<in> set (pane_ids t)" using n node_replace_None [of p ?o "pt_root t"] by (auto simp: pane_ids_def)
    have n': "tree_ok n" "node_pane_ids n = subst_first p [?o] (pane_ids t)"
      using node_replace_ok [OF ok(1) n] by (simp_all add: pane_ids_def)
    have o: "?o \<notin> set (pane_ids t)" using assms originals_remove(2) [OF h(1)] h(3) by (auto simp: pane_data_ok_def)
    have "distinct (node_pane_ids n)" unfolding n'(2) using o ok(2) by (intro distinct_subst) auto
    moreover note set_subst [OF ok(2) p, of "[?o]"]
    ultimately have "pane_data_ok (t\<lparr>pt_hidden := pre @ post\<rparr>\<lparr>pt_root := n\<rparr>)"
      using assms n' originals_remove [OF h(1)] h(3)
      by (intro pane_data_okI) (auto simp: pane_data_ok_def)
    then show ?thesis
      using Some n h originals_remove(1) [OF h(1)] by (simp add: revert_temporary_replacement_def Let_def)
  qed
qed (simp add: revert_temporary_replacement_def assms)

lemma same_panes_keep: "pane_data_ok t \<Longrightarrow> same_panes (pt_root t) n \<Longrightarrow> pane_data_ok (t\<lparr>pt_root := n\<rparr>)"
  by (auto simp: pane_data_ok_def same_panes_def pane_ids_def)

lemma resize_ok:
  assumes "pane_data_ok t"
  shows "\<exists>t'. pane_adjust_size F rects m border delta t = Some t' \<and> pane_data_ok t'"
    "\<exists>t'. pane_adjust_size_by_id F rects m p axis delta t = Some t' \<and> pane_data_ok t'"
    "pane_data_ok (snd (pane_reset_sizes F border t))"
proof -
  have ok: "tree_ok (pt_root t)" using assms by (simp add: pane_data_ok_def)
  show "\<exists>t'. pane_adjust_size F rects m border delta t = Some t' \<and> pane_data_ok t'"
    using node_adjust_ok [OF ok, of F rects m border delta] same_panes_keep [OF assms] assms
    by (cases "node_adjust F rects m border delta (pt_root t)") (auto simp: pane_adjust_size_def)
  show "\<exists>t'. pane_adjust_size_by_id F rects m p axis delta t = Some t' \<and> pane_data_ok t'"
    using node_adjust_by_id_ok [OF ok, of F rects m p axis delta] same_panes_keep [OF assms]
    by (auto simp: pane_adjust_size_by_id_def)
  show "pane_data_ok (snd (pane_reset_sizes F border t))"
    using node_reset_ok [of F border "pt_root t"] same_panes_keep [OF assms] assms
    by (cases "node_reset_sizes F border (pt_root t)") (auto simp: pane_reset_sizes_def)
qed

lemmas hidden_defs = hide_pane_for_move_def clear_hidden_panes_from_move_def toggle_pane_visibility_for_job_def
  show_pane_for_job_def hide_pane_for_job_def hide_pane_for_child_agent_def show_pane_for_child_agent_def
  hide_closed_pane_def unhide_closed_pane_def clear_hidden_closed_panes_def remove_hidden_pane_def

lemma pane_step_ok:
  assumes "pane_data_ok t" "op_ok op t"
  shows "\<exists>t'. pane_step F rects m op t = Some t' \<and> pane_data_ok t'"
proof (cases op)
  case (OpSplit d old new dir)
  then show ?thesis using pane_split_ok [OF assms(1), of new F d old dir] assms(2) by (auto simp: op_ok_def)
next
  case (OpMove d p target dir)
  then show ?thesis using move_pane_ok [OF assms(1), of F d p target dir] by auto
qed (use assms in \<open>simp_all add: op_ok_def hidden_defs pane_remove_ok(1) split_root_ok replace_pane_ok revert_ok resize_ok
        pane_data_ok_filter pane_data_ok_hide unhide_where_ok\<close>)

text \<open>C20: the panes of a tab under any sequence of splits, removals, moves, replacements, hidings and
  resizes, in which panes that enter the tree are new to it: no operation panics, every branch
  has two or more nodes and one divider fewer than nodes, no pane occurs twice, the cached
  length is the number of panes, and no pane is in the tree while it waits to be swapped
  back in.\<close>

theorem pane_tree_invariant:
  assumes "ops_ok F rects m ops (pane_data_new p)"
  shows "\<exists>t. pane_run F rects m ops (pane_data_new p) = Some t \<and> tree_ok (pt_root t) \<and> distinct (pane_ids t) \<and>
    pt_len t = length (pane_ids t) \<and> distinct (originals t) \<and> set (originals t) \<inter> set (pane_ids t) = {}"
proof -
  have "\<exists>t'. pane_run F rects m ops t = Some t' \<and> pane_data_ok t'" if "ops_ok F rects m ops t" "pane_data_ok t" for t
    using that
  proof (induction ops arbitrary: t)
    case (Cons op ops)
    then obtain t' where "pane_step F rects m op t = Some t'" "pane_data_ok t'"
      using pane_step_ok [of t op F rects m] by auto
    then show ?case using Cons.IH [of t'] Cons.prems(1) by simp
  qed simp
  moreover have "pane_data_ok (pane_data_new p)" by (simp add: pane_data_ok_def pane_data_new_def pane_ids_def originals_def)
  ultimately show ?thesis using assms by (auto simp: pane_data_ok_def)
qed

text \<open>A platform with whole numbers for sizes, for the witnesses.\<close>

definition int_floats :: "int float_ops" where
  "int_floats = \<lparr>fl_zero = 0, fl_one = 1, fl_epsilon = 1, fl_add = (+), fl_sub = (-), fl_mul = (*), fl_div = (div),
     fl_max = max, fl_min = min, fl_abs = abs, fl_lt = (<), fl_le = (\<le>)\<rparr>"

definition no_rects :: "pane_id \<Rightarrow> int rect option" where
  "no_rects p = None"

definition sample_ops :: "int pane_op list" where
  "sample_ops = [OpSplit 100 1 2 DRight, OpSplit 101 2 3 DDown, OpReplace 2 4 True, OpMove 102 3 1 DUp, OpRevert 4, OpRemove 1]"

theorem pane_tree_invariant_witness:
  "\<exists>t. pane_run int_floats no_rects 0 sample_ops (pane_data_new 1) = Some t \<and> tree_ok (pt_root t) \<and> distinct (pane_ids t) \<and>
    pt_len t = length (pane_ids t) \<and> distinct (originals t) \<and> set (originals t) \<inter> set (pane_ids t) = {}"
  by (rule pane_tree_invariant) (simp add: sample_ops_def op_ok_def fresh_pane_def, code_simp)

lemma root_leaf_iff:
  assumes "tree_ok (pt_root t)" shows "pt_root t = Leaf p \<longleftrightarrow> pane_ids t = [p]"
proof (cases "pt_root t")
  case (Branch ax ns ds)
  then have "2 \<le> length ns" using assms by simp
  then obtain x y zs where ns: "ns = x # y # zs" by (cases ns; cases "tl ns") auto
  have "tree_ok (snd x)" "tree_ok (snd y)" using Branch assms ns by simp_all
  from this [THEN node_ids_nonempty] have "pane_ids t \<noteq> [p]"
    using Branch ns by (auto simp: pane_ids_def append_eq_Cons_conv Cons_eq_append_conv)
  then show ?thesis using Branch by simp
qed (simp add: pane_ids_def)

text \<open>C21: splitting a pane puts the new pane directly before it (left, up) or after it (right, down) in
  reading order and changes nothing else; removing a pane deletes it from that order, unless it
  is the only one; splitting the root puts the pane first or last.\<close>

theorem split_and_remove_correct:
  assumes "pane_data_ok t" "fresh_pane new t" "old \<in> set (pane_ids t)"
  shows "(\<exists>t'. pane_split F d old new dir t = Some (True, t') \<and>
      pane_ids t' = subst_first old (if backward dir then [new, old] else [old, new]) (pane_ids t)) \<and>
    pane_ids (split_root F d new dir t) = (if backward dir then new # pane_ids t else pane_ids t @ [new]) \<and>
    pane_ids (snd (pane_remove old t)) = (if pane_ids t = [old] then [old] else remove1 old (pane_ids t))"
proof (intro conjI)
  have ok: "tree_ok (pt_root t)" using assms(1) by (simp add: pane_data_ok_def)
  show "\<exists>t'. pane_split F d old new dir t = Some (True, t') \<and>
      pane_ids t' = subst_first old (if backward dir then [new, old] else [old, new]) (pane_ids t)"
    using pane_split_ok [OF assms(1,2), of F d old dir] assms(3) by (auto simp: beside_def)
  show "pane_ids (split_root F d new dir t) = (if backward dir then new # pane_ids t else pane_ids t @ [new])"
    using node_insert_ok(2) [OF ok, of F d new dir] by (simp add: split_root_def pane_ids_def)
  have "subst_first old [] xs = remove1 old xs" for xs :: "pane_id list" by (induction xs) auto
  then show "pane_ids (snd (pane_remove old t)) = (if pane_ids t = [old] then [old] else remove1 old (pane_ids t))"
    using pane_remove_ok(3,4) [OF assms(1), of old] assms(3) root_leaf_iff [OF ok, of old] by simp
qed

definition sample_panes :: "int pane_data" where
  "sample_panes = \<lparr>pt_root = Branch Horizontal [(1, Leaf 1), (1, Branch Vertical [(1, Leaf 2), (1, Leaf 3)] [51])] [50],
     pt_len = 3, pt_hidden = []\<rparr>"

lemma sample_panes_ok: "pane_data_ok sample_panes" "pane_ids sample_panes = [1, 2, 3]" "originals sample_panes = []"
  by (simp_all add: sample_panes_def pane_data_ok_def pane_ids_def originals_def)

theorem split_and_remove_correct_witness:
  "(\<exists>t'. pane_split int_floats 52 2 4 DRight sample_panes = Some (True, t') \<and>
      pane_ids t' = subst_first 2 (if backward DRight then [4, 2] else [2, 4]) (pane_ids sample_panes)) \<and>
    pane_ids (split_root int_floats 52 4 DRight sample_panes) =
      (if backward DRight then 4 # pane_ids sample_panes else pane_ids sample_panes @ [4]) \<and>
    pane_ids (snd (pane_remove 2 sample_panes)) =
      (if pane_ids sample_panes = [2] then [2] else remove1 2 (pane_ids sample_panes))"
  by (rule split_and_remove_correct) (simp_all add: sample_panes_ok fresh_pane_def)

text \<open>C22: removing a pane right after a split created it restores the tree, with all flex factors, up
  to the identifiers of dividers.\<close>

theorem split_remove_roundtrip:
  assumes "pane_data_ok t" "fresh_pane new t" "old \<in> set (pane_ids t)"
  shows "\<exists>t' t''. pane_split F d old new dir t = Some (True, t') \<and> pane_remove new t' = (True, t'') \<and>
    shape (pt_root t'') = shape (pt_root t) \<and> pt_len t'' = pt_len t \<and> pt_hidden t'' = pt_hidden t"
proof -
  have ok: "tree_ok (pt_root t)" "new \<notin> set (node_pane_ids (pt_root t))"
    using assms(1,2) by (simp_all add: pane_data_ok_def fresh_pane_def pane_ids_def)
  obtain t' where t': "pane_split F d old new dir t = Some (True, t')"
    using pane_split_ok [OF assms(1,2), of F d old dir] assms(3) by auto
  then obtain n' where n': "node_split F d old new dir (pt_root t) = Some (Some n')"
    "t' = t\<lparr>pt_root := n', pt_len := pt_len t + 1\<rparr>"
    by (auto simp: pane_split_def split: option.splits bind_splits)
  obtain n'' where "node_remove new n' = Some n''" "shape n'' = shape (pt_root t)"
    using node_split_back [OF ok n'(1)] by blast
  then show ?thesis using t' n'(2) by (auto simp: pane_remove_def)
qed

theorem split_remove_roundtrip_witness:
  "\<exists>t' t''. pane_split int_floats 52 2 4 DUp sample_panes = Some (True, t') \<and> pane_remove 4 t' = (True, t'') \<and>
    shape (pt_root t'') = shape (pt_root sample_panes) \<and> pt_len t'' = pt_len sample_panes \<and> pt_hidden t'' = pt_hidden sample_panes"
  by (rule split_remove_roundtrip) (simp_all add: sample_panes_ok fresh_pane_def)

text \<open>reverting a temporary replacement restores the pane data exactly.\<close>

theorem temporary_replacement_roundtrip:
  assumes "pane_data_ok t" "fresh_pane new t" "old \<in> set (pane_ids t)" "\<not> is_temporary_replacement new t"
  shows "\<exists>t'. replace_pane old new True t = (True, t') \<and> is_temporary_replacement new t' \<and>
    revert_temporary_replacement new t' = (Some old, t)"
proof -
  let ?h = "hidden old (TemporaryReplacement new)"
  have ok: "tree_ok (pt_root t)" "new \<notin> set (node_pane_ids (pt_root t))"
    using assms(1,2) by (simp_all add: pane_data_ok_def fresh_pane_def pane_ids_def)
  obtain n where n: "node_replace old new (pt_root t) = Some n"
    using assms(3) node_replace_None [of old new "pt_root t"] by (auto simp: pane_ids_def)
  let ?t' = "t\<lparr>pt_root := n, pt_hidden := pt_hidden t @ [?h]\<rparr>"
  let ?P = "\<lambda>h. hp_reason h = TemporaryReplacement new"
  have none: "\<forall>h\<in>set (pt_hidden t). \<not> ?P h"
    using assms(4) find_loop_None_iff [of "pt_hidden t" "\<lambda>_ h. if ?P h then Some (hp_pane_id h) else None" "\<lambda>h. \<not> ?P h" 0]
    by (simp add: is_temporary_replacement_def original_pane_for_replacement_def)
  have "replace_pane old new True t = (True, ?t')"
    using n assms(3) by (simp add: replace_pane_def contains_pane_iff pane_ids_def hide_pane_def)
  moreover have "position ?P (pt_hidden ?t') = Some (length (pt_hidden t))"
  proof -
    have "find_loop (\<lambda>i h. if ?P h then Some i else None) 0 (pt_hidden t) = None" using none by (auto simp: find_loop_None)
    then show ?thesis by (simp add: position_def find_loop_append hidden_def)
  qed
  moreover have "is_temporary_replacement new ?t'"
    by (auto simp: is_temporary_replacement_def original_pane_for_replacement_def find_loop_append hidden_def split: option.splits)
  moreover have "node_replace new old n = Some (pt_root t)" by (rule node_replace_back [OF ok n])
  ultimately show ?thesis
    by (simp add: revert_temporary_replacement_def Let_def vec_remove_def hidden_def)
qed

theorem temporary_replacement_roundtrip_witness:
  "\<exists>t'. replace_pane 3 4 True sample_panes = (True, t') \<and> is_temporary_replacement 4 t' \<and>
    revert_temporary_replacement 4 t' = (Some 3, sample_panes)"
  by (rule temporary_replacement_roundtrip)
     (simp_all add: sample_panes_ok fresh_pane_def, simp add: sample_panes_def is_temporary_replacement_def original_pane_for_replacement_def)

text \<open>C23: the panes reached by moving the focus are neighbours in both directions: if \<open>q\<close> is among the
  panes found from \<open>p\<close> in a direction, \<open>p\<close> is among those found from \<open>q\<close> in the opposite one,
  whatever positions are known of the rendered panes.\<close>

theorem focus_neighbours_symmetric:
  assumes "pane_data_ok t" "panes_by_direction F rects p dir t = Some S" "q \<in> S"
  shows "\<exists>T. panes_by_direction F rects q (opposite dir) t = Some T \<and> p \<in> T"
proof -
  have ok: "tree_ok (pt_root t)" "distinct (node_pane_ids (pt_root t))"
    using assms(1) by (simp_all add: pane_data_ok_def pane_ids_def)
  obtain r where r: "node_panes_by_direction p dir (pt_root t) = Some r"
    using assms(2) by (auto simp: panes_by_direction_def split: bind_splits)
  obtain ids where ids: "r = Found ids" "q \<in> ids"
    using assms(2,3) r by (cases r) (auto simp: panes_by_direction_def split: option.splits)
  then obtain T where T: "node_panes_by_direction q (opposite dir) (pt_root t) = Some (Found T)" "p \<in> T"
    using neighbours_symmetric_node [OF ok, of p dir ids q] r by auto
  have sym: "are_rects_overlapping F a b ax \<longleftrightarrow> are_rects_overlapping F b a ax" for a b ax
    by (auto simp: are_rects_overlapping_def)
  show ?thesis
    using T assms(2,3) r ids by (auto simp: panes_by_direction_def sym split: option.splits)
qed

theorem focus_neighbours_symmetric_witness:
  "\<exists>T. panes_by_direction int_floats no_rects 3 DLeft sample_panes = Some T \<and> 1 \<in> T"
proof -
  have "panes_by_direction int_floats no_rects 1 DRight sample_panes = Some {2, 3}"
    by (auto simp: panes_by_direction_def sample_panes_def vec_get_def no_rects_def)
  from focus_neighbours_symmetric [OF sample_panes_ok(1) this, of 3] show ?thesis by simp
qed

text \<open>C24: moving a pane next to another one that is in the tree leaves it directly before or after
  that one in reading order, also when the move is recognised as superfluous; with a target that
  is not in the tree the pane is taken out all the same and the move reports failure.\<close>

theorem move_pane_correct:
  assumes "pane_data_ok t" "p \<in> set (pane_ids t)" "p \<noteq> target" "pane_ids t \<noteq> [p]"
  shows "\<exists>b t'. move_pane F d p target dir t = Some (b, t') \<and>
    pane_ids t' = subst_first target (if backward dir then [p, target] else [target, p]) (remove1 p (pane_ids t)) \<and>
    (target \<notin> set (pane_ids t) \<longrightarrow> \<not> b \<and> \<not> is_pane_in_tree p t')"
proof -
  have ok: "tree_ok (pt_root t)" "distinct (pane_ids t)" "p \<notin> set (originals t)"
    using assms(1,2) by (auto simp: pane_data_ok_def)
  have rm: "subst_first p [] xs = remove1 p xs" for xs by (induction xs) auto
  show ?thesis
  proof (cases "node_sibling_by_direction target dir (pt_root t) = Some p")
    case True
    then obtain as bs where ids: "pane_ids t = as @ beside dir target p @ bs"
      using sibling_adjacent [OF True] by (auto simp: pane_ids_def)
    then have "subst_first target (beside dir target p) (remove1 p (pane_ids t)) = pane_ids t"
      using ok(2) assms(3) by (auto simp: beside_def remove1_append subst_first_append split: if_splits)
    moreover have "target \<in> set (pane_ids t)" using ids by (auto simp: beside_def)
    ultimately show ?thesis using True assms(3) by (intro exI [of _ False]) (simp add: move_pane_def beside_def)
  next
    case False
    have "fst (pane_remove p t)"
      using pane_remove_ok(3) [OF assms(1), of p] assms(2,4) root_leaf_iff [OF ok(1), of p] by simp
    then obtain t' where t': "pane_remove p t = (True, t')" by (cases "pane_remove p t") auto
    note rem = pane_remove_ok [OF assms(1), of p, unfolded t' fst_conv snd_conv]
    have ids: "pane_ids t' = remove1 p (pane_ids t)" using rem(4) rm by simp
    have "fresh_pane p t'" using rem(2) ids ok(2,3) by (simp add: fresh_pane_def originals_def)
    from pane_split_ok [OF rem(1) this, of F d target dir] obtain t'' where
      "pane_split F d target p dir t' = Some (target \<in> set (pane_ids t'), t'')"
      "pane_ids t'' = subst_first target (beside dir target p) (pane_ids t')" by blast
    moreover have "target \<in> set (pane_ids t') \<longleftrightarrow> target \<in> set (pane_ids t)"
      using ids ok(2) assms(3) by (simp add: set_remove1_eq)
    ultimately show ?thesis
      using False t' assms(3) ids ok(2)
      by (auto simp: move_pane_def beside_def is_pane_in_tree_def contains_pane_iff pane_ids_def subst_first_absent)
  qed
qed

theorem move_pane_correct_witness:
  "\<exists>b t'. move_pane int_floats 52 3 9 DUp sample_panes = Some (b, t') \<and>
    pane_ids t' = subst_first 9 (if backward DUp then [3, 9] else [9, 3]) (remove1 3 (pane_ids sample_panes)) \<and>
    (9 \<notin> set (pane_ids sample_panes) \<longrightarrow> \<not> b \<and> \<not> is_pane_in_tree 3 t')"
  by (rule move_pane_correct) (simp_all add: sample_panes_ok)

end
