(* ===== verification/Delivery_Journal.thy ===== *)
theory Delivery_Journal
  imports Rust_Std
begin

text \<open>
  The durable journal of agent messages: \<open>app/src/local_control/delivery/journal.rs\<close> and the
  parameters of \<open>crates/local_control/src/agents.rs\<close>.  The table \<open>messages\<close> is a list of rows,
  the counter of its \<open>AUTOINCREMENT\<close> key a field beside it.  Every SQL statement may fail:
  \<open>faults\<close> says of the statements to come which ones do, and a failed statement changes
  nothing.  The states a message goes through are literals in the code and a datatype here;
  the JSON in the column \<open>body\<close> is the message it encodes.  Times are seconds, as integers.
\<close>

section \<open>Errors\<close>

datatype error_code =
  LocalControlDisabled | UnauthorizedLocalClient | InsufficientPermissions
  | ProtocolVersionUnsupported | InvalidRequest | InvalidSelector | InvalidParams | NoInstance
  | AmbiguousInstance | AmbiguousTarget | StaleTarget | TargetStateConflict | MissingTarget
  | TransportUnavailable | BridgeUnavailable | AppBusy | UnsupportedAction | NotAllowlisted
  | Internal

record control_error =
  ce_code :: error_code
  ce_message :: string
  ce_details :: "string option"

definition control_error_new :: "error_code \<Rightarrow> string \<Rightarrow> control_error" where
  "control_error_new c m = \<lparr>ce_code = c, ce_message = m, ce_details = None\<rparr>"

definition en_dash :: string where
  "en_dash = [CHR 0xE2, CHR 0x80, CHR 0x93]"

text \<open>Fallible code over a state: the result and the state it leaves behind.  \<open>try_bind\<close> is the
  operator \<open>?\<close> followed by the rest of the function.\<close>

type_synonym ('s, 'a) fallible = "'s \<Rightarrow> ('a, control_error) result \<times> 's"

definition try_return :: "'a \<Rightarrow> ('s, 'a) fallible" where
  "try_return x s = (Inr x, s)"

definition try_throw :: "control_error \<Rightarrow> ('s, 'a) fallible" where
  "try_throw e s = (Inl e, s)"

definition try_bind ::
  "('s, 'a) fallible \<Rightarrow> ('a \<Rightarrow> ('s, 'b) fallible) \<Rightarrow> ('s, 'b) fallible" where
  "try_bind f g s = (case f s of (Inl e, s') \<Rightarrow> (Inl e, s') | (Inr x, s') \<Rightarrow> g x s')"

lemmas try_defs = try_return_def try_throw_def try_bind_def

section \<open>Messages\<close>

record send_params =
  sp_agent_id :: string
  sp_text :: rust_str
  sp_expected_revision :: string
  sp_request_id :: string
  sp_queue :: bool
  sp_expires_in :: u32
  sp_sender_id :: "string option"

record list_params =
  lp_agent_id :: "string option"
  lp_before :: "int option"
  lp_limit :: u32

definition default_expiry :: u32 where
  "default_expiry = 1800"

datatype delivery_state =
  Queued | Dispatching | Submitted | Delivery_Unknown | Cancelled | Expired | Failed

definition is_pending :: "delivery_state \<Rightarrow> bool" where
  "is_pending s = (s \<in> {Queued, Dispatching})"

record message =
  msg_sequence :: int
  msg_params :: send_params
  msg_instance_id :: string
  msg_owner_pid :: u32
  msg_owner_start_time :: "u64 option"
  msg_guard :: string
  msg_state :: delivery_state
  msg_reason :: "string option"
  msg_created_at :: int
  msg_updated_at :: int
  msg_expires_at :: int

text \<open>The table of running processes is what \<open>sysinfo\<close> reports: the start time of a pid.\<close>

type_synonym processes = "u32 \<Rightarrow> u64 option"

definition process_start_time :: "processes \<Rightarrow> u32 \<Rightarrow> u64 option" where
  "process_start_time procs pid =
     (case procs pid of Some time \<Rightarrow> if time \<noteq> 0 then Some time else None | None \<Rightarrow> None)"

definition owner_is_alive :: "processes \<Rightarrow> u32 \<Rightarrow> u64 option \<Rightarrow> bool" where
  "owner_is_alive procs pid start_time \<longleftrightarrow>
     start_time \<noteq> None \<and> process_start_time procs pid = start_time"

definition message_new ::
  "processes \<Rightarrow> u32 \<Rightarrow> send_params \<Rightarrow> string \<Rightarrow> string \<Rightarrow> int \<Rightarrow> message" where
  "message_new procs pid params instance_id guard now =
     \<lparr>msg_sequence = 0, msg_params = params, msg_instance_id = instance_id,
      msg_owner_pid = pid, msg_owner_start_time = process_start_time procs pid,
      msg_guard = guard, msg_state = Queued, msg_reason = None,
      msg_created_at = now, msg_updated_at = now,
      msg_expires_at = now + uint (sp_expires_in params)\<rparr>"

record receipt =
  rc_action :: string
  rc_request_id :: string
  rc_agent_id :: string
  rc_instance_id :: string
  rc_sender_id :: "string option"
  rc_sequence :: int
  rc_state :: delivery_state
  rc_reason :: "string option"
  rc_created_at :: int
  rc_updated_at :: int
  rc_expires_at :: int
  rc_text_bytes :: usize
  rc_idempotency_scope :: string
  rc_durable :: bool
  rc_provider_acceptance :: string
  rc_text :: "rust_str option"

definition message_receipt :: "message \<Rightarrow> bool \<Rightarrow> receipt" where
  "message_receipt m include_prompt =
     \<lparr>rc_action = ''agent.send'', rc_request_id = sp_request_id (msg_params m),
      rc_agent_id = sp_agent_id (msg_params m), rc_instance_id = msg_instance_id m,
      rc_sender_id = sp_sender_id (msg_params m), rc_sequence = msg_sequence m,
      rc_state = msg_state m, rc_reason = msg_reason m, rc_created_at = msg_created_at m,
      rc_updated_at = msg_updated_at m, rc_expires_at = msg_expires_at m,
      rc_text_bytes = str_len (sp_text (msg_params m)),
      rc_idempotency_scope = ''seven_day_journal'', rc_durable = True,
      rc_provider_acceptance = ''unconfirmed'',
      rc_text = (if include_prompt then Some (sp_text (msg_params m)) else None)\<rparr>"

section \<open>The table\<close>

record db_row =
  row_sequence :: int
  row_request_id :: string
  row_instance_id :: string
  row_state :: delivery_state
  row_updated_at :: int
  row_body :: message

definition row_message :: "db_row \<Rightarrow> message" where
  "row_message r = (row_body r)\<lparr>msg_sequence := row_sequence r\<rparr>"

record journal =
  table :: "db_row list"
  last_sequence :: int
  faults :: "bool list"

definition journal_empty :: "bool list \<Rightarrow> journal" where
  "journal_empty fs = \<lparr>table = [], last_sequence = 0, faults = fs\<rparr>"

definition storage_error :: control_error where
  "storage_error = control_error_new Internal
     ''delivery journal is unavailable; no unjournaled message will be sent''"

text \<open>One statement: whether it is executed, and the journal with that outcome used up.\<close>

definition db_exec :: "(journal, unit) fallible" where
  "db_exec j = (case faults j of
       [] \<Rightarrow> (Inr (), j)
     | b # bs \<Rightarrow> ((if b then Inl storage_error else Inr ()), j\<lparr>faults := bs\<rparr>))"

definition db_query :: "(db_row list \<Rightarrow> 'a) \<Rightarrow> (journal, 'a) fallible" where
  "db_query q = try_bind db_exec (\<lambda>_ j. (Inr (q (table j)), j))"

definition RETENTION_SECONDS :: int where
  "RETENTION_SECONDS = 7 * 24 * 60 * 60"

definition MAX_PENDING :: nat where
  "MAX_PENDING = 100"

definition MAX_PER_TARGET :: nat where
  "MAX_PER_TARGET = 10"

definition MAX_RECEIPTS :: nat where
  "MAX_RECEIPTS = 10000"

section \<open>Operations\<close>

definition journal_get :: "string \<Rightarrow> (journal, message option) fallible" where
  "journal_get request_id = db_query (\<lambda>rows. map_option row_message
     (find (\<lambda>r. row_request_id r = request_id) rows))"

definition pending_rows :: "db_row list \<Rightarrow> message list" where
  "pending_rows rows =
     map row_message (sort_key row_sequence (filter (\<lambda>r. is_pending (row_state r)) rows))"

definition journal_pending :: "(journal, message list) fallible" where
  "journal_pending = db_query pending_rows"

definition journal_existing :: "send_params \<Rightarrow> (journal, message option) fallible" where
  "journal_existing params =
     try_bind (journal_get (sp_request_id params)) (\<lambda>found.
       if (case found of Some m \<Rightarrow> msg_params m \<noteq> params | None \<Rightarrow> False)
       then try_throw (control_error_new InvalidParams
              ''request ID already belongs to different content, target, or queue options'')
       else try_return found)"

definition db_row_new :: "int \<Rightarrow> message \<Rightarrow> db_row" where
  "db_row_new seq m =
     \<lparr>row_sequence = seq, row_request_id = sp_request_id (msg_params m),
      row_instance_id = msg_instance_id m, row_state = msg_state m,
      row_updated_at = msg_updated_at m, row_body = m\<rparr>"

text \<open>The \<open>INSERT\<close> fails as well when the request id is taken: the column is \<open>UNIQUE\<close>.\<close>

definition db_insert :: "message \<Rightarrow> (journal, unit) fallible" where
  "db_insert m = try_bind db_exec (\<lambda>_ j.
     if sp_request_id (msg_params m) \<in> set (map row_request_id (table j))
     then (Inl storage_error, j)
     else (Inr (), j\<lparr>table := table j @ [db_row_new (last_sequence j + 1) m],
                     last_sequence := last_sequence j + 1\<rparr>))"

definition insert_inner :: "message \<Rightarrow> (journal, message) fallible" where
  "insert_inner m = try_bind (journal_existing (msg_params m)) (\<lambda>existing.
     case existing of Some old \<Rightarrow> try_return old | None \<Rightarrow>
     try_bind journal_pending (\<lambda>pending.
     let own = filter (\<lambda>p. msg_instance_id p = msg_instance_id m) pending;
         target = filter (\<lambda>p. sp_agent_id (msg_params p) = sp_agent_id (msg_params m)) own in
     if MAX_PENDING \<le> length own \<or> MAX_PER_TARGET \<le> length target
     then try_throw (control_error_new InvalidRequest
            ''message queue is full (100 pending per app instance, 10 per target)'')
     else if \<exists>p \<in> set target. sp_sender_id (msg_params p) \<noteq> sp_sender_id (msg_params m)
     then try_throw (control_error_new InvalidRequest
            ''another sender owns this target's pending queue; inspect or cancel it first'')
     else if \<not> sp_queue (msg_params m) \<and> target \<noteq> []
     then try_throw (control_error_new InvalidRequest
            ''target has pending messages; use --queue with the same sender to preserve order'')
     else try_bind (db_query length) (\<lambda>count.
     if MAX_RECEIPTS \<le> count
     then try_throw (control_error_new InvalidRequest
            ''delivery journal has reached its 10000-receipt retention limit'')
     else try_bind (db_insert m) (\<lambda>_.
     try_bind (journal_get (sp_request_id (msg_params m))) (\<lambda>found.
     case found of Some x \<Rightarrow> try_return x | None \<Rightarrow> try_throw storage_error)))))"

text \<open>\<open>ROLLBACK\<close> brings back the table and the key counter of the start of the transaction.\<close>

definition db_rollback :: "journal \<Rightarrow> journal \<Rightarrow> journal" where
  "db_rollback j0 j = (snd (db_exec j))\<lparr>table := table j0, last_sequence := last_sequence j0\<rparr>"

definition journal_insert :: "message \<Rightarrow> (journal, message) fallible" where
  "journal_insert m = try_bind db_exec (\<lambda>_ j0.
     case insert_inner m j0 of
       (Inr x, j) \<Rightarrow> (case db_exec j of
           (Inr _, j') \<Rightarrow> (Inr x, j')
         | (Inl e, j') \<Rightarrow> (Inl e, db_rollback j0 j'))
     | (Inl e, j) \<Rightarrow> (Inl e, db_rollback j0 j))"

definition row_hit :: "message \<Rightarrow> db_row \<Rightarrow> bool" where
  "row_hit m r \<longleftrightarrow> row_request_id r = sp_request_id (msg_params m) \<and> row_state r = msg_state m"

definition message_next :: "message \<Rightarrow> delivery_state \<Rightarrow> string option \<Rightarrow> int \<Rightarrow> message" where
  "message_next m s reason now = m\<lparr>msg_state := s, msg_reason := reason, msg_updated_at := now\<rparr>"

definition update_rows ::
  "message \<Rightarrow> delivery_state \<Rightarrow> string option \<Rightarrow> int \<Rightarrow> db_row list \<Rightarrow> db_row list" where
  "update_rows m s reason now rows = map (\<lambda>r. if row_hit m r
     then r\<lparr>row_state := s, row_updated_at := now, row_body := message_next m s reason now\<rparr>
     else r) rows"

definition journal_transition ::
  "message \<Rightarrow> delivery_state \<Rightarrow> string option \<Rightarrow> int \<Rightarrow> (journal, message option) fallible" where
  "journal_transition m s reason now = try_bind db_exec (\<lambda>_ j.
     (Inr (if length (filter (row_hit m) (table j)) = 1
           then Some (message_next m s reason now) else None),
      j\<lparr>table := update_rows m s reason now (table j)\<rparr>))"

definition maintain_change :: "bool \<Rightarrow> int \<Rightarrow> message \<Rightarrow> (delivery_state \<times> string) option" where
  "maintain_change alive now m =
     (if \<not> alive then
        (if msg_state m = Dispatching
         then Some (Delivery_Unknown,
           ''app exited during dispatch; inspect the transcript before a new send'')
         else Some (Cancelled,
           ''app exited; rediscover the target before creating a new message''))
      else if msg_state m = Queued \<and> msg_expires_at m \<le> now
      then Some (Expired, ''queue expiry reached'')
      else None)"

text \<open>The loop keeps what it learnt about an owner: \<open>alive\<close> is asked once per owner.\<close>

primrec maintain_loop ::
  "(u32 \<Rightarrow> u64 option \<Rightarrow> bool) \<Rightarrow> int \<Rightarrow> message list
     \<Rightarrow> (u32 \<times> u64 option \<rightharpoonup> bool) \<Rightarrow> (journal, unit) fallible" where
  "maintain_loop alive now [] liveness = try_return ()"
| "maintain_loop alive now (m # ms) liveness =
     (let key = (msg_owner_pid m, msg_owner_start_time m);
          a = (case liveness key of Some b \<Rightarrow> b | None \<Rightarrow> alive (fst key) (snd key));
          rest = maintain_loop alive now ms (liveness(key \<mapsto> a)) in
      case maintain_change a now m of
        Some (s, reason) \<Rightarrow> try_bind (journal_transition m s (Some reason) now) (\<lambda>_. rest)
      | None \<Rightarrow> rest)"

definition retained :: "int \<Rightarrow> db_row \<Rightarrow> bool" where
  "retained now r \<longleftrightarrow> is_pending (row_state r) \<or> now - RETENTION_SECONDS \<le> row_updated_at r"

definition journal_maintain ::
  "int \<Rightarrow> (u32 \<Rightarrow> u64 option \<Rightarrow> bool) \<Rightarrow> (journal, unit) fallible" where
  "journal_maintain now alive = try_bind journal_pending (\<lambda>ms.
     try_bind (maintain_loop alive now ms Map.empty) (\<lambda>_.
     try_bind db_exec (\<lambda>_ j. (Inr (), j\<lparr>table := filter (retained now) (table j)\<rparr>))))"

section \<open>Listing\<close>

record message_list =
  ml_messages :: "receipt list"
  ml_next_before :: "int option"
  ml_has_more :: bool
  ml_retention_seconds :: int

definition i64_max :: int where
  "i64_max = 2 ^ 63 - 1"

definition list_rows :: "int \<Rightarrow> string \<Rightarrow> nat \<Rightarrow> db_row list \<Rightarrow> message list" where
  "list_rows before agent_id limit rows =
     take limit (map row_message (rev (sort_key row_sequence (filter (\<lambda>r. row_sequence r < before
       \<and> (agent_id = '''' \<or> sp_agent_id (msg_params (row_body r)) = agent_id)) rows))))"

definition journal_list :: "list_params \<Rightarrow> (journal, message_list) fallible" where
  "journal_list p =
     (if \<not> (1 \<le> lp_limit p \<and> lp_limit p \<le> 100)
         \<or> (case lp_before p of Some n \<Rightarrow> n \<le> 0 | None \<Rightarrow> False)
      then try_throw (control_error_new InvalidParams
        (''limit must be 1'' @ en_dash @ ''100 and before must be a positive receipt sequence''))
      else try_bind (db_query (list_rows
          (case lp_before p of Some n \<Rightarrow> n | None \<Rightarrow> i64_max)
          (case lp_agent_id p of Some a \<Rightarrow> a | None \<Rightarrow> '''') (unat (lp_limit p) + 1))) (\<lambda>messages.
        let more = unat (lp_limit p) < length messages;
            page = take (unat (lp_limit p)) messages in
        try_return
          \<lparr>ml_messages = map (\<lambda>m. message_receipt m False) page,
           ml_next_before = (if more then (if page = [] then None else Some (msg_sequence (last page)))
                             else None),
           ml_has_more = more, ml_retention_seconds = RETENTION_SECONDS\<rparr>))"

end
