(* ===== verification/Delivery_Worker.thy ===== *)
theory Delivery_Worker
  imports Delivery_Journal
begin

text \<open>
  The worker that owns the journal: \<open>app/src/local_control/delivery/mod.rs\<close>, with
  \<open>agent_unavailable\<close> of \<open>agents.rs\<close>.  The record \<open>ui\<close> is what the worker sees of the rest of
  the application: the clock, the process table, and the main thread with its terminals.
  Its functions read and change a world of any type.  A task sent to the main thread runs
  in the world of that moment, unless the bridge is gone by then.  The state of the worker
  is the journal, the world, and the list of the texts it has handed to a terminal.
\<close>

section \<open>The application around the worker\<close>

type_synonym terminal = nat

record 'w ui =
  ui_now :: "'w \<Rightarrow> int \<times> 'w"
  ui_processes :: "'w \<Rightarrow> processes"
  ui_process_id :: u32
  ui_spawn :: "'w \<Rightarrow> bool \<times> 'w"
  ui_instance_id :: "'w \<Rightarrow> string option"
  ui_ensure_feature_enabled :: "'w \<Rightarrow> (unit, control_error) result"
  ui_ensure_action_allowed :: "'w \<Rightarrow> (unit, control_error) result"
  ui_resolve :: "'w \<Rightarrow> string \<Rightarrow> string \<Rightarrow> (terminal, control_error) result"
  ui_agent_readiness :: "'w \<Rightarrow> terminal \<Rightarrow> string \<times> string option"
  ui_draft_source :: "'w \<Rightarrow> terminal \<Rightarrow> string option"
  ui_queue_guard :: "'w \<Rightarrow> terminal \<Rightarrow> string"
  ui_start_deferred_agent :: "terminal \<Rightarrow> 'w \<Rightarrow> 'w"
  ui_send_agent_text :: "terminal \<Rightarrow> rust_str \<Rightarrow> string \<Rightarrow> 'w \<Rightarrow> bool \<times> 'w"

record sent =
  sent_message :: message
  sent_terminal :: terminal
  sent_revision :: string

record 'w worker =
  wk_journal :: journal
  wk_world :: 'w
  wk_sent :: "sent list"

definition on_journal :: "(journal, 'a) fallible \<Rightarrow> ('w worker, 'a) fallible" where
  "on_journal f st = (case f (wk_journal st) of (r, j) \<Rightarrow> (r, st\<lparr>wk_journal := j\<rparr>))"

definition on_world :: "('w, 'a) fallible \<Rightarrow> ('w worker, 'a) fallible" where
  "on_world f st = (case f (wk_world st) of (r, w) \<Rightarrow> (r, st\<lparr>wk_world := w\<rparr>))"

definition wk_now :: "'w ui \<Rightarrow> ('w worker, int) fallible" where
  "wk_now ui = on_world (\<lambda>w. case ui_now ui w of (t, w') \<Rightarrow> (Inr t, w'))"

text \<open>\<open>block_on(spawner.spawn(...))\<close>: \<^const>\<open>None\<close> when the bridge is gone, and the task has not run.\<close>

definition spawn_ui :: "'w ui \<Rightarrow> ('w worker \<Rightarrow> 'r \<times> 'w worker) \<Rightarrow> 'w worker \<Rightarrow> 'r option \<times> 'w worker" where
  "spawn_ui ui task st = (case ui_spawn ui (wk_world st) of
       (False, w) \<Rightarrow> (None, st\<lparr>wk_world := w\<rparr>)
     | (True, w) \<Rightarrow> (case task (st\<lparr>wk_world := w\<rparr>) of (r, st') \<Rightarrow> (Some r, st')))"

definition unavailable :: control_error where
  "unavailable = control_error_new BridgeUnavailable ''agent delivery worker is unavailable''"

definition LAZY_NOT_STARTED :: string where
  "LAZY_NOT_STARTED = ''not_started''"

definition LAZY_STARTING :: string where
  "LAZY_STARTING = ''starting''"

definition LAZY_START_GUARD :: string where
  "LAZY_START_GUARD = ''lazy-start''"

definition check_bridge :: "'w ui \<Rightarrow> string \<Rightarrow> 'w \<Rightarrow> (unit, control_error) result" where
  "check_bridge ui inst w =
     (if ui_instance_id ui w \<noteq> Some inst then Inl unavailable
      else and_then (ui_ensure_feature_enabled ui w) (\<lambda>_. ui_ensure_action_allowed ui w))"

section \<open>Requests\<close>

datatype operation =
  Op_Send send_params | Op_Inspect string | Op_Cancel string | Op_List list_params

text \<open>An action with the outcome of decoding its parameters.\<close>

datatype action =
  AgentSend "(send_params, control_error) result"
  | AgentMessageInspect "(string, control_error) result"
  | AgentMessageCancel "(string, control_error) result"
  | AgentMessageList "(list_params, control_error) result"
  | OtherAction

definition AGENT_MAX_PROMPT_BYTES :: nat where
  "AGENT_MAX_PROMPT_BYTES = 64 * 1024"

definition is_whitespace :: "rust_char \<Rightarrow> bool" where
  "is_whitespace c \<longleftrightarrow> 0x9 \<le> c \<and> c \<le> 0xD \<or> 0x2000 \<le> c \<and> c \<le> 0x200A
     \<or> c \<in> {0x20, 0x85, 0xA0, 0x1680, 0x2028, 0x2029, 0x202F, 0x205F, 0x3000}"

definition str_trim :: "rust_str \<Rightarrow> rust_str" where
  "str_trim s = rev (dropWhile is_whitespace (rev (dropWhile is_whitespace s)))"

text \<open>\<open>parse\<close> is \<open>Uuid::parse_str\<close> followed by \<open>to_string\<close>.\<close>

definition parse_uuid :: "(string \<Rightarrow> string option) \<Rightarrow> string \<Rightarrow> (string, control_error) result" where
  "parse_uuid parse v = ok_or (parse v)
     (control_error_new InvalidParams ''message and sender IDs must be UUIDs'')"

definition send_params_bad :: "send_params \<Rightarrow> bool" where
  "send_params_bad p \<longleftrightarrow>
     str_trim (sp_text p) = []
     \<or> AGENT_MAX_PROMPT_BYTES < str_len (sp_text p)
     \<or> (\<exists>c \<in> set (sp_text p). is_control c \<and> c \<noteq> 10 \<and> c \<noteq> 9)
     \<or> \<not> (1 \<le> sp_expires_in p \<and> sp_expires_in p \<le> 86400)
     \<or> (sp_queue p \<and> sp_sender_id p = None)"

definition request_operation ::
  "(string \<Rightarrow> string option) \<Rightarrow> action \<Rightarrow> (operation, control_error) result" where
  "request_operation parse a = (case a of
       AgentSend r \<Rightarrow> and_then r (\<lambda>p. and_then (parse_uuid parse (sp_request_id p)) (\<lambda>rid.
         and_then (case sp_sender_id p of None \<Rightarrow> Inr None
                   | Some s \<Rightarrow> and_then (parse_uuid parse s) (\<lambda>s'. Inr (Some s'))) (\<lambda>sender.
         let p' = p\<lparr>sp_request_id := rid, sp_sender_id := sender\<rparr> in
         if send_params_bad p'
         then Inl (control_error_new InvalidParams (''send requires nonempty text up to 64 KiB''
           @ '' without terminal controls, expiry 1'' @ en_dash
           @ ''86400 seconds, and a sender UUID for --queue''))
         else Inr (Op_Send p'))))
     | AgentMessageInspect r \<Rightarrow> and_then r (\<lambda>v. and_then (parse_uuid parse v) (\<lambda>i. Inr (Op_Inspect i)))
     | AgentMessageCancel r \<Rightarrow> and_then r (\<lambda>v. and_then (parse_uuid parse v) (\<lambda>i. Inr (Op_Cancel i)))
     | AgentMessageList r \<Rightarrow> and_then r (\<lambda>p. Inr (Op_List p))
     | OtherAction \<Rightarrow> Inl (control_error_new UnsupportedAction ''not a delivery action''))"

section \<open>Dispatch\<close>

datatype readiness = Ready string | Wait | Cancel string

definition waiting_reasons :: "string list" where
  "waiting_reasons = [''working'', LAZY_NOT_STARTED, LAZY_STARTING, ''human_input_or_draft'',
     ''status_unavailable'', ''submission_pending'', ''interactive_attention_required'',
     ''rate_limited'']"

definition start_if_lazy :: "'w ui \<Rightarrow> terminal \<Rightarrow> 'w \<Rightarrow> 'w" where
  "start_if_lazy ui t w =
     (if snd (ui_agent_readiness ui w t) = Some LAZY_NOT_STARTED
      then ui_start_deferred_agent ui t w else w)"

definition probe :: "'w ui \<Rightarrow> message \<Rightarrow> string \<Rightarrow> ('w, readiness) fallible" where
  "probe ui m inst =
     try_bind (\<lambda>w. (check_bridge ui inst w, w)) (\<lambda>_.
     try_bind (\<lambda>w. (ui_resolve ui w inst (sp_agent_id (msg_params m)), w)) (\<lambda>t w0.
     let w = start_if_lazy ui t w0 in
     (Inr (if msg_guard m \<noteq> LAZY_START_GUARD \<and> ui_queue_guard ui w t \<noteq> msg_guard m
           then Cancel ''user input or foreground process changed''
           else (case ui_agent_readiness ui w t of
               (revision, Some reason) \<Rightarrow>
                 if sp_queue (msg_params m) \<and> reason \<in> set waiting_reasons
                 then Wait else Cancel reason
             | (revision, None) \<Rightarrow> Ready revision)), w)))"

text \<open>The task that hands the text of a claimed message to its terminal.\<close>

definition send_claimed ::
  "'w ui \<Rightarrow> string \<Rightarrow> message \<Rightarrow> string \<Rightarrow> 'w worker \<Rightarrow> bool \<times> 'w worker" where
  "send_claimed ui inst m revision st = (case on_world (probe ui m inst) st of
       (Inr (Ready current), st1) \<Rightarrow>
         if current = revision
         then (case ui_resolve ui (wk_world st1) inst (sp_agent_id (msg_params m)) of
             Inl _ \<Rightarrow> (False, st1)
           | Inr t \<Rightarrow>
             (case ui_send_agent_text ui t (sp_text (msg_params m)) revision (wk_world st1) of
               (ok, w) \<Rightarrow> (ok, st1\<lparr>wk_world := w, wk_sent := wk_sent st1 @
                 [\<lparr>sent_message = m, sent_terminal = t, sent_revision = revision\<rparr>]\<rparr>)))
         else (False, st1)
     | (_, st1) \<Rightarrow> (False, st1))"

definition wk_transition ::
  "'w ui \<Rightarrow> message \<Rightarrow> delivery_state \<Rightarrow> string option \<Rightarrow> ('w worker, message option) fallible" where
  "wk_transition ui m s reason =
     try_bind (wk_now ui) (\<lambda>now. on_journal (journal_transition m s reason now))"

definition dispatch_claim ::
  "'w ui \<Rightarrow> string \<Rightarrow> message \<Rightarrow> string \<Rightarrow> ('w worker, unit) fallible" where
  "dispatch_claim ui inst m revision =
     try_bind (wk_transition ui m Dispatching None) (\<lambda>claimed st.
     case claimed of None \<Rightarrow> (Inr (), st) | Some c \<Rightarrow>
     (case spawn_ui ui (send_claimed ui inst c revision) st of (dispatched, st1) \<Rightarrow>
        if dispatched = Some True then (Inr (), st1)
        else try_bind (on_journal (journal_get (sp_request_id (msg_params m)))) (\<lambda>found.
          case found of None \<Rightarrow> try_throw unavailable | Some current \<Rightarrow>
          try_bind (wk_transition ui current
            (if dispatched = None then Delivery_Unknown else Failed)
            (Some ''target changed before insertion'')) (\<lambda>_. try_return ())) st1))"

definition dispatch_one :: "'w ui \<Rightarrow> string \<Rightarrow> message \<Rightarrow> ('w worker, unit) fallible" where
  "dispatch_one ui inst m = try_bind (wk_now ui) (\<lambda>now.
     if msg_expires_at m \<le> now
     then try_bind (wk_transition ui m Expired (Some ''queue expiry reached'')) (\<lambda>_. try_return ())
     else (\<lambda>st. case spawn_ui ui (on_world (probe ui m inst)) st of (ready, st1) \<Rightarrow>
       (case (case ready of None \<Rightarrow> Inl unavailable | Some r \<Rightarrow> r) of
          Inr (Ready revision) \<Rightarrow> dispatch_claim ui inst m revision st1
        | Inr Wait \<Rightarrow> (Inr (), st1)
        | Inr (Cancel reason) \<Rightarrow>
            try_bind (wk_transition ui m Cancelled (Some reason)) (\<lambda>_. try_return ()) st1
        | Inl _ \<Rightarrow> try_bind (wk_transition ui m Cancelled
            (Some ''target or local control is no longer available'')) (\<lambda>_. try_return ()) st1)))"

primrec dispatch_loop ::
  "'w ui \<Rightarrow> string \<Rightarrow> message list \<Rightarrow> string set \<Rightarrow> ('w worker, unit) fallible" where
  "dispatch_loop ui inst [] seen = try_return ()"
| "dispatch_loop ui inst (m # ms) seen =
     (let agent = sp_agent_id (msg_params m);
          rest = dispatch_loop ui inst ms (insert agent seen) in
      if agent \<in> seen \<or> msg_state m \<noteq> Queued then rest
      else try_bind (dispatch_one ui inst m) (\<lambda>_. rest))"

definition dispatch_pending :: "'w ui \<Rightarrow> string \<Rightarrow> ('w worker, unit) fallible" where
  "dispatch_pending ui inst = try_bind (on_journal journal_pending) (\<lambda>pending.
     dispatch_loop ui inst (filter (\<lambda>m. msg_instance_id m = inst) pending) {})"

section \<open>Handling an operation\<close>

datatype reply_value = Receipt receipt | Messages message_list

definition agent_unavailable ::
  "string option \<Rightarrow> string option \<Rightarrow> string \<Rightarrow> control_error" where
  "agent_unavailable reason draft_source requirement =
     (let state = (case (reason, draft_source) of
          (None, _) \<Rightarrow> ''the agent is idle and ready''
        | (Some r, Some source) \<Rightarrow>
            if r = ''human_input_or_draft''
            then ''unavailable_reason is '' @ r @ '' (draft_source '' @ source @ '')''
            else ''unavailable_reason is '' @ r
        | (Some r, None) \<Rightarrow> ''unavailable_reason is '' @ r) in
      control_error_new TargetStateConflict
        (requirement @ '', but '' @ state @ ''; inspect it again''))"

text \<open>The task that checks a new send on the main thread and returns the guard of its queue.\<close>

definition send_guard :: "'w ui \<Rightarrow> string \<Rightarrow> send_params \<Rightarrow> ('w, string) fallible" where
  "send_guard ui inst p =
     try_bind (\<lambda>w. (check_bridge ui inst w, w)) (\<lambda>_.
     try_bind (\<lambda>w. (ui_resolve ui w inst (sp_agent_id p), w)) (\<lambda>t w0.
     case ui_agent_readiness ui w0 t of (revision, reason) \<Rightarrow>
     let lazy = reason \<in> {Some LAZY_NOT_STARTED, Some LAZY_STARTING};
         w = (if reason = Some LAZY_NOT_STARTED then ui_start_deferred_agent ui t w0 else w0);
         can_wait = (lazy \<or> reason \<in> {Some ''working'', Some ''status_unavailable''}) in
     (if lazy \<and> \<not> sp_queue p
      then Inl (control_error_new TargetStateConflict
        (''this restored tab's agent had not started yet (Clinch starts restored agents when ''
         @ ''their tab is first shown); it is starting now. Retry in a few seconds, or send with ''
         @ ''--queue to deliver it once the agent is ready''))
      else if \<not> (reason = None \<or> sp_queue p \<and> can_wait)
      then Inl (agent_unavailable reason (ui_draft_source ui w t)
        ''send requires a ready agent, or a working one with --queue'')
      else if revision \<noteq> sp_expected_revision p
      then Inl (control_error_new StaleTarget ''input revision changed; inspect it again'')
      else Inr (if lazy then LAZY_START_GUARD else ui_queue_guard ui w t), w)))"

definition handle_send :: "'w ui \<Rightarrow> string \<Rightarrow> send_params \<Rightarrow> ('w worker, reply_value) fallible" where
  "handle_send ui inst p =
     try_bind (on_journal (journal_existing p)) (\<lambda>existing.
     case existing of Some m \<Rightarrow> try_return (Receipt (message_receipt m False)) | None \<Rightarrow>
     try_bind (\<lambda>st. case spawn_ui ui (on_world (send_guard ui inst p)) st of
         (None, st1) \<Rightarrow> (Inl unavailable, st1) | (Some r, st1) \<Rightarrow> (r, st1)) (\<lambda>guard.
     try_bind (wk_now ui) (\<lambda>now.
     try_bind (\<lambda>st. on_journal (journal_insert
         (message_new (ui_processes ui (wk_world st)) (ui_process_id ui) p inst guard now)) st) (\<lambda>m.
     try_bind (dispatch_pending ui inst) (\<lambda>_.
     try_bind (on_journal (journal_get (sp_request_id (msg_params m)))) (\<lambda>found.
     case found of Some x \<Rightarrow> try_return (Receipt (message_receipt x False))
                 | None \<Rightarrow> try_throw unavailable))))))"

definition handle_inspect :: "string \<Rightarrow> ('w worker, reply_value) fallible" where
  "handle_inspect rid = try_bind (on_journal (journal_get rid)) (\<lambda>found.
     case found of Some m \<Rightarrow> try_return (Receipt (message_receipt m True))
     | None \<Rightarrow> try_throw (control_error_new StaleTarget
         ''message receipt not found or past seven-day retention''))"

definition handle_cancel :: "'w ui \<Rightarrow> string \<Rightarrow> ('w worker, reply_value) fallible" where
  "handle_cancel ui rid = try_bind (on_journal (journal_get rid)) (\<lambda>found.
     case found of
       None \<Rightarrow> try_throw (control_error_new StaleTarget ''message receipt not found'')
     | Some m \<Rightarrow>
       if msg_state m = Cancelled then try_return (Receipt (message_receipt m False))
       else if msg_state m \<noteq> Queued
       then try_throw (control_error_new InvalidRequest
         ''only queued messages can be cancelled; dispatched messages cannot be retracted'')
       else try_bind (wk_transition ui m Cancelled (Some ''cancelled by caller'')) (\<lambda>changed.
         case changed of Some x \<Rightarrow> try_return (Receipt (message_receipt x False))
         | None \<Rightarrow> try_throw (control_error_new StaleTarget
             ''message changed before cancellation; inspect it again'')))"

definition handle_operation :: "'w ui \<Rightarrow> string \<Rightarrow> operation \<Rightarrow> ('w worker, reply_value) fallible" where
  "handle_operation ui inst op = (case op of
       Op_Send p \<Rightarrow> handle_send ui inst p
     | Op_Inspect rid \<Rightarrow> handle_inspect rid
     | Op_Cancel rid \<Rightarrow> handle_cancel ui rid
     | Op_List p \<Rightarrow> try_bind (on_journal (journal_list p)) (\<lambda>l. try_return (Messages l)))"

section \<open>The loop of the worker\<close>

datatype command = Request operation | Finished string bool | Tick | Shutdown

definition handle_finished :: "'w ui \<Rightarrow> string \<Rightarrow> bool \<Rightarrow> ('w worker, unit) fallible" where
  "handle_finished ui rid submitted = try_bind (on_journal (journal_get rid)) (\<lambda>found.
     case found of None \<Rightarrow> try_return ()
     | Some m \<Rightarrow>
       if msg_state m = Dispatching
       then try_bind (wk_transition ui m (if submitted then Submitted else Delivery_Unknown)
           (if submitted then None else Some (''submission could not be confirmed; inspect ''
              @ ''the transcript before sending again''))) (\<lambda>_. try_return ())
       else try_return ())"

definition wk_maintain :: "'w ui \<Rightarrow> ('w worker, unit) fallible" where
  "wk_maintain ui = try_bind (wk_now ui) (\<lambda>now st.
     on_journal (journal_maintain now (owner_is_alive (ui_processes ui (wk_world st)))) st)"

text \<open>One turn of the loop with a journal that opened: the reply, if the command asked for one.\<close>

definition worker_command ::
  "'w ui \<Rightarrow> string \<Rightarrow> command \<Rightarrow> 'w worker
     \<Rightarrow> (reply_value, control_error) result option \<times> 'w worker" where
  "worker_command ui inst cmd st = (case wk_maintain ui st of (maintenance, st1) \<Rightarrow>
     (case (case cmd of
          Request op \<Rightarrow> (case maintenance of
              Inl e \<Rightarrow> (Some (Inl e), st1)
            | Inr _ \<Rightarrow> (case handle_operation ui inst op st1 of (r, st2) \<Rightarrow> (Some r, st2)))
        | Finished rid submitted \<Rightarrow> (None, snd (handle_finished ui rid submitted st1))
        | _ \<Rightarrow> (None, st1)) of (reply, st2) \<Rightarrow>
        (reply, if is_ok maintenance then snd (dispatch_pending ui inst st2) else st2)))"

definition shutdown_state :: "message \<Rightarrow> delivery_state" where
  "shutdown_state m = (if msg_state m = Dispatching then Delivery_Unknown else Cancelled)"

primrec shutdown_loop :: "'w ui \<Rightarrow> message list \<Rightarrow> 'w worker \<Rightarrow> 'w worker" where
  "shutdown_loop ui [] st = st"
| "shutdown_loop ui (m # ms) st = shutdown_loop ui ms
     (snd (wk_transition ui m (shutdown_state m) (Some ''local-control instance ended'') st))"

definition worker_shutdown :: "'w ui \<Rightarrow> string \<Rightarrow> 'w worker \<Rightarrow> 'w worker" where
  "worker_shutdown ui inst st = (case on_journal journal_pending st of
       (Inr pending, st1) \<Rightarrow>
         shutdown_loop ui (filter (\<lambda>m. msg_instance_id m = inst) pending) st1
     | (Inl _, st1) \<Rightarrow> st1)"

text \<open>The whole worker over the commands it receives, until the first \<open>Shutdown\<close> or the end of
  the channel.  When the journal did not open, every request gets that error.\<close>

primrec worker_loop ::
  "'w ui \<Rightarrow> string \<Rightarrow> (unit, control_error) result \<Rightarrow> command list \<Rightarrow> 'w worker
     \<Rightarrow> (reply_value, control_error) result list \<times> 'w worker" where
  "worker_loop ui inst opened [] st =
     ([], if is_ok opened then worker_shutdown ui inst st else st)"
| "worker_loop ui inst opened (cmd # cmds) st =
     (if cmd = Shutdown then ([], if is_ok opened then worker_shutdown ui inst st else st)
      else (case (case opened of
          Inr _ \<Rightarrow> worker_command ui inst cmd st
        | Inl e \<Rightarrow> (case cmd of Request _ \<Rightarrow> (Some (Inl e), st) | _ \<Rightarrow> (None, st))) of (r, st1) \<Rightarrow>
        (case worker_loop ui inst opened cmds st1 of (rs, st2) \<Rightarrow>
          ((case r of Some x \<Rightarrow> x # rs | None \<Rightarrow> rs), st2))))"

end
