(* ===== verification/Delivery_Invariant.thy ===== *)
theory Delivery_Invariant
  imports Delivery_Worker
begin

text \<open>
  What holds of the table of messages and of the list of texts sent, and how the two
  evolve: the part of the correctness argument that is about rows only.
\<close>

section \<open>States move forward\<close>

text \<open>A pending message may become final or, from the queue, be claimed for dispatch; a message
  that was claimed is no longer cancelled and does not expire; final states are kept.\<close>

definition state_advance :: "delivery_state \<Rightarrow> delivery_state \<Rightarrow> bool" where
  "state_advance s s' \<longleftrightarrow> s = s'
     \<or> s = Queued \<and> s' \<noteq> Queued
     \<or> s = Dispatching \<and> s' \<in> {Submitted, Delivery_Unknown, Failed}"

lemma advance_refl [simp]: "state_advance s s"
  by (simp add: state_advance_def)

lemma advance_trans: "state_advance s s' \<Longrightarrow> state_advance s' s'' \<Longrightarrow> state_advance s s''"
  by (auto simp: state_advance_def)

lemma advance_Queued [simp]: "state_advance s Queued \<longleftrightarrow> s = Queued"
  by (auto simp: state_advance_def)

lemma advance_pending: "state_advance s s' \<Longrightarrow> is_pending s' \<Longrightarrow> is_pending s"
  by (auto simp: state_advance_def is_pending_def)

text \<open>What never changes in a message, and a message that stands in the table.\<close>

definition msg_static :: "message \<Rightarrow> message" where
  "msg_static m = m\<lparr>msg_state := Queued, msg_reason := None, msg_updated_at := 0\<rparr>"

lemma msg_static_eqD:
  assumes "msg_static m = msg_static m'"
  shows "msg_sequence m = msg_sequence m'" "msg_params m = msg_params m'"
    "msg_instance_id m = msg_instance_id m'" "msg_expires_at m = msg_expires_at m'"
    "msg_owner_pid m = msg_owner_pid m'" "msg_owner_start_time m = msg_owner_start_time m'"
  using assms by (auto simp: msg_static_def
    dest: arg_cong[where f = msg_sequence] arg_cong[where f = msg_params]
      arg_cong[where f = msg_instance_id] arg_cong[where f = msg_expires_at]
      arg_cong[where f = msg_owner_pid] arg_cong[where f = msg_owner_start_time])

lemma msg_static_next [simp]: "msg_static (message_next m s reason now) = msg_static m"
  by (simp add: msg_static_def message_next_def)

definition db_row_ok :: "db_row \<Rightarrow> bool" where
  "db_row_ok r \<longleftrightarrow> row_request_id r = sp_request_id (msg_params (row_body r))
     \<and> row_instance_id r = msg_instance_id (row_body r)
     \<and> row_state r = msg_state (row_body r) \<and> row_updated_at r = msg_updated_at (row_body r)"

definition table_ok :: "db_row list \<Rightarrow> bool" where
  "table_ok rows \<longleftrightarrow> sorted_wrt (<) (map row_sequence rows)
     \<and> distinct (map row_request_id rows) \<and> (\<forall>r \<in> set rows. db_row_ok r)"

definition known :: "db_row list \<Rightarrow> message \<Rightarrow> bool" where
  "known rows m \<longleftrightarrow> (\<exists>r \<in> set rows. msg_static (row_message r) = msg_static m)"

definition moved :: "db_row \<Rightarrow> db_row \<Rightarrow> bool" where
  "moved r r' \<longleftrightarrow> msg_static (row_message r) = msg_static (row_message r')
     \<and> state_advance (row_state r) (row_state r')
     \<and> (row_state r = row_state r' \<longrightarrow> r = r')"

definition advances :: "db_row list \<Rightarrow> db_row list \<Rightarrow> bool" where
  "advances rows rows' \<longleftrightarrow> list_all2 moved rows rows'"

definition evolves :: "db_row list \<Rightarrow> db_row list \<Rightarrow> bool" where
  "evolves rows rows' \<longleftrightarrow> (\<forall>r \<in> set rows. \<exists>r' \<in> set rows'. moved r r')"

lemma row_message_simps [simp]:
  "msg_sequence (row_message r) = row_sequence r"
  "msg_params (row_message r) = msg_params (row_body r)"
  "msg_instance_id (row_message r) = msg_instance_id (row_body r)"
  "msg_state (row_message r) = msg_state (row_body r)"
  "msg_updated_at (row_message r) = msg_updated_at (row_body r)"
  "msg_expires_at (row_message r) = msg_expires_at (row_body r)"
  "msg_owner_pid (row_message r) = msg_owner_pid (row_body r)"
  "msg_owner_start_time (row_message r) = msg_owner_start_time (row_body r)"
  by (simp_all add: row_message_def)

lemma moved_refl [simp]: "moved r r"
  by (simp add: moved_def)

lemma moved_trans: "moved r r' \<Longrightarrow> moved r' r'' \<Longrightarrow> moved r r''"
  unfolding moved_def using advance_trans by (auto simp: state_advance_def)

lemma moved_fields:
  assumes "moved r r'"
  shows "row_sequence r' = row_sequence r" "msg_params (row_body r') = msg_params (row_body r)"
    "msg_instance_id (row_body r') = msg_instance_id (row_body r)"
    "msg_expires_at (row_body r') = msg_expires_at (row_body r)"
    "msg_owner_pid (row_body r') = msg_owner_pid (row_body r)"
    "msg_owner_start_time (row_body r') = msg_owner_start_time (row_body r)"
  using assms msg_static_eqD[of "row_message r" "row_message r'"] by (simp_all add: moved_def)

lemma moved_pending: "moved r r' \<Longrightarrow> is_pending (row_state r') \<Longrightarrow> is_pending (row_state r)"
  by (auto simp: moved_def intro: advance_pending)

lemma advances_refl [simp]: "advances rows rows"
  by (simp add: advances_def list_all2_refl)

lemma advances_trans: "advances a b \<Longrightarrow> advances b c \<Longrightarrow> advances a c"
  unfolding advances_def by (rule list_all2_trans[where ?P1.0 = moved and ?P2.0 = moved])
    (auto intro: moved_trans)

lemma evolves_refl [simp]: "evolves rows rows"
  by (auto simp: evolves_def intro: moved_refl)

lemma evolves_trans: "evolves a b \<Longrightarrow> evolves b c \<Longrightarrow> evolves a c"
  unfolding evolves_def by (meson moved_trans)

lemma advances_forward: "advances rows rows' \<Longrightarrow> r \<in> set rows \<Longrightarrow> \<exists>r' \<in> set rows'. moved r r'"
  unfolding advances_def by (metis in_set_conv_nth list_all2_conv_all_nth)

lemma advances_backward: "advances rows rows' \<Longrightarrow> r' \<in> set rows' \<Longrightarrow> \<exists>r \<in> set rows. moved r r'"
  unfolding advances_def by (metis in_set_conv_nth list_all2_conv_all_nth)

lemma advances_evolves: "advances rows rows' \<Longrightarrow> evolves rows rows'"
  by (auto simp: evolves_def dest: advances_forward)

lemma known_evolves: "known rows m \<Longrightarrow> evolves rows rows' \<Longrightarrow> known rows' m"
  unfolding known_def evolves_def moved_def by metis

section \<open>A transition of a known message\<close>

lemma table_ok_hit:
  assumes "table_ok rows" "known rows m" "r \<in> set rows"
    "row_request_id r = sp_request_id (msg_params m)"
  shows "msg_static (row_message r) = msg_static m"
proof -
  obtain r0 where r0: "r0 \<in> set rows" "msg_static (row_message r0) = msg_static m"
    using assms(2) by (auto simp: known_def)
  have "row_request_id r0 = row_request_id r"
    using assms r0 msg_static_eqD(2)[OF r0(2)] by (auto simp: table_ok_def db_row_ok_def)
  moreover have "inj_on row_request_id (set rows)"
    using assms(1) by (simp add: table_ok_def distinct_map)
  ultimately have "r0 = r" using r0(1) assms(3) by (simp add: inj_on_def)
  then show ?thesis using r0 by simp
qed

lemma row_update_moved:
  assumes "db_row_ok r" "msg_static (row_message r) = msg_static m" "row_state r = msg_state m"
    "state_advance (msg_state m) s" "msg_state m \<noteq> s"
    and r'_def: "r' = r\<lparr>row_state := s, row_updated_at := now, row_body := message_next m s reason now\<rparr>"
  shows "moved r r'" "db_row_ok r'" "row_message r' = message_next m s reason now"
proof -
  note eqs = msg_static_eqD[OF assms(2)]
  show msg: "row_message r' = message_next m s reason now"
    using eqs(1) by (simp add: r'_def row_message_def message_next_def)
  show "moved r r'"
    using assms(2-5) msg by (simp add: moved_def) (simp add: r'_def)
  show "db_row_ok r'"
    using assms(1) eqs by (simp add: r'_def db_row_ok_def message_next_def)
qed

lemma update_rows_advances:
  assumes "table_ok rows" "known rows m" "state_advance (msg_state m) s" "msg_state m \<noteq> s"
  shows "advances rows (update_rows m s reason now rows)"
    and "table_ok (update_rows m s reason now rows)"
proof -
  let ?f = "\<lambda>r. if row_hit m r
     then r\<lparr>row_state := s, row_updated_at := now, row_body := message_next m s reason now\<rparr> else r"
  have one: "moved r (?f r) \<and> db_row_ok (?f r)" if "r \<in> set rows" for r
  proof (cases "row_hit m r")
    case True
    then show ?thesis
      using row_update_moved[OF _ _ _ _ _ refl, of r m s reason now] table_ok_hit[OF assms(1,2) that] assms that
      by (auto simp: row_hit_def table_ok_def)
  next
    case False
    then show ?thesis using assms(1) that by (auto simp: table_ok_def)
  qed
  show "advances rows (update_rows m s reason now rows)"
    unfolding advances_def update_rows_def list_all2_map2 list_all2_same using one by blast
  have "map row_sequence (map ?f rows) = map row_sequence rows"
    "map row_request_id (map ?f rows) = map row_request_id rows"
    by auto
  moreover have "\<forall>r \<in> set (map ?f rows). db_row_ok r"
    using one by (simp only: set_map ball_simps) blast
  ultimately show "table_ok (update_rows m s reason now rows)"
    using assms(1) unfolding table_ok_def update_rows_def by (simp only:)
qed

lemma row_hit_unique:
  assumes "table_ok rows" "length (filter (row_hit m) rows) = 1"
  obtains r where "r \<in> set rows" "row_hit m r"
  using assms(2) by (metis filter_empty_conv length_0_conv zero_neq_one)

lemma find_request:
  assumes "table_ok rows" "r \<in> set rows"
  shows "find (\<lambda>x. row_request_id x = row_request_id r) rows = Some r"
proof -
  have "find (\<lambda>x. row_request_id x = row_request_id r) rows \<noteq> None"
    using assms(2) by (auto simp: find_None_iff)
  then obtain y where y: "find (\<lambda>x. row_request_id x = row_request_id r) rows = Some y" by blast
  then have "y \<in> set rows" "row_request_id y = row_request_id r"
    by (auto simp: find_Some_iff)
  moreover have "inj_on row_request_id (set rows)"
    using assms(1) by (simp add: table_ok_def distinct_map)
  ultimately have "y = r" using assms(2) by (simp add: inj_on_def)
  then show ?thesis using y by simp
qed

lemma find_request_message:
  assumes "table_ok rows" "find (\<lambda>x. row_request_id x = rid) rows = Some r"
  shows "r \<in> set rows" "row_request_id r = rid" "known rows (row_message r)"
  using assms(2) by (auto simp: find_Some_iff known_def)

lemma table_ok_sequence:
  assumes "table_ok rows" "r \<in> set rows" "r' \<in> set rows" "row_sequence r = row_sequence r'"
  shows "r = r'"
proof -
  have "inj_on row_sequence (set rows)"
    using assms(1) by (simp add: table_ok_def strict_sorted_iff distinct_map)
  then show ?thesis using assms(2-4) by (simp add: inj_on_def)
qed

lemma table_ok_sorted: "table_ok rows \<Longrightarrow> sort_key row_sequence rows = rows"
  by (intro sort_key_id_if_sorted)
    (auto simp: table_ok_def strict_sorted_iff intro: strict_sorted_imp_sorted)

lemma table_ok_filter: "table_ok rows \<Longrightarrow> table_ok (filter P rows)"
  by (auto simp: table_ok_def sorted_wrt_map sorted_wrt_filter distinct_map_filter)

lemma pending_rows_ok:
  assumes "table_ok rows"
  shows "pending_rows rows = map row_message (filter (\<lambda>r. is_pending (row_state r)) rows)"
  using table_ok_sorted[OF table_ok_filter[OF assms]] by (simp add: pending_rows_def)

section \<open>The invariant\<close>

definition pending_of :: "string \<Rightarrow> db_row list \<Rightarrow> db_row list" where
  "pending_of i rows =
     filter (\<lambda>r. is_pending (row_state r) \<and> msg_instance_id (row_body r) = i) rows"

definition target_of :: "string \<Rightarrow> string \<Rightarrow> db_row list \<Rightarrow> db_row list" where
  "target_of i a rows = filter (\<lambda>r. sp_agent_id (msg_params (row_body r)) = a) (pending_of i rows)"

definition row_sender :: "db_row \<Rightarrow> string option" where
  "row_sender r = sp_sender_id (msg_params (row_body r))"

definition limits_ok :: "db_row list \<Rightarrow> bool" where
  "limits_ok rows \<longleftrightarrow> length rows \<le> MAX_RECEIPTS
     \<and> (\<forall>i. length (pending_of i rows) \<le> MAX_PENDING)
     \<and> (\<forall>i a. length (target_of i a rows) \<le> MAX_PER_TARGET)
     \<and> (\<forall>i a. \<forall>r \<in> set (target_of i a rows). \<forall>r' \<in> set (target_of i a rows).
          row_sender r = row_sender r')"

definition seqs_ok :: "db_row list \<Rightarrow> int \<Rightarrow> bool" where
  "seqs_ok rows l \<longleftrightarrow> 0 \<le> l \<and> (\<forall>r \<in> set rows. 0 < row_sequence r \<and> row_sequence r \<le> l)"

text \<open>The target of a message: the application instance and the agent in it.\<close>

definition msg_target :: "message \<Rightarrow> string \<times> string" where
  "msg_target m = (msg_instance_id m, sp_agent_id (msg_params m))"

definition sent_seqs :: "sent list \<Rightarrow> int list" where
  "sent_seqs log = map (msg_sequence \<circ> sent_message) log"

definition sent_to :: "string \<times> string \<Rightarrow> sent list \<Rightarrow> sent list" where
  "sent_to tgt log = filter (\<lambda>x. msg_target (sent_message x) = tgt) log"

text \<open>Nothing that was sent is still queued, and what is queued for a target comes after
  everything that was sent to it.\<close>

definition sent_ok :: "db_row list \<Rightarrow> int \<Rightarrow> sent list \<Rightarrow> bool" where
  "sent_ok rows l log \<longleftrightarrow> (\<forall>s \<in> set (sent_seqs log). s \<le> l)
     \<and> distinct (sent_seqs log) \<and> (\<forall>tgt. sorted_wrt (<) (sent_seqs (sent_to tgt log)))
     \<and> (\<forall>r \<in> set rows. row_state r = Queued \<longrightarrow> row_sequence r \<notin> set (sent_seqs log)
          \<and> (\<forall>s \<in> set (sent_seqs (sent_to (msg_target (row_message r)) log)). s < row_sequence r))"

definition delivery_inv :: "db_row list \<Rightarrow> int \<Rightarrow> sent list \<Rightarrow> bool" where
  "delivery_inv rows l log \<longleftrightarrow>
     table_ok rows \<and> seqs_ok rows l \<and> limits_ok rows \<and> sent_ok rows l log"

lemma length_filter_list_all2:
  "list_all2 R xs ys \<Longrightarrow> (\<And>x y. R x y \<Longrightarrow> P y \<Longrightarrow> P x)
     \<Longrightarrow> length (filter P ys) \<le> length (filter P xs)"
  by (induction rule: list_all2_induct) auto

lemma limits_okD:
  assumes "limits_ok rows"
  shows "length rows \<le> MAX_RECEIPTS" "length (pending_of i rows) \<le> MAX_PENDING"
    "length (target_of i a rows) \<le> MAX_PER_TARGET"
    "r \<in> set (target_of i a rows) \<Longrightarrow> r' \<in> set (target_of i a rows) \<Longrightarrow> row_sender r = row_sender r'"
  using assms unfolding limits_ok_def by blast+

lemma limits_okI:
  assumes "length rows \<le> MAX_RECEIPTS" "\<And>i. length (pending_of i rows) \<le> MAX_PENDING"
    "\<And>i a. length (target_of i a rows) \<le> MAX_PER_TARGET"
    "\<And>i a r r'. r \<in> set (target_of i a rows) \<Longrightarrow> r' \<in> set (target_of i a rows)
       \<Longrightarrow> row_sender r = row_sender r'"
  shows "limits_ok rows"
  using assms unfolding limits_ok_def by blast

lemma limits_advances:
  assumes "limits_ok rows" "advances rows rows'"
  shows "limits_ok rows'"
proof -
  have pend: "length (pending_of i rows') \<le> length (pending_of i rows)" for i
    using assms(2) unfolding pending_of_def advances_def
    by (rule length_filter_list_all2) (auto simp: moved_fields intro: moved_pending)
  have targ: "length (target_of i a rows') \<le> length (target_of i a rows)" for i a
    using assms(2) unfolding target_of_def pending_of_def advances_def filter_filter
    by (rule length_filter_list_all2) (auto simp: moved_fields intro: moved_pending)
  have send: "\<exists>r0 \<in> set (target_of i a rows). row_sender r = row_sender r0"
    if "r \<in> set (target_of i a rows')" for r i a
  proof -
    have "r \<in> set rows'" using that by (simp add: target_of_def pending_of_def)
    then obtain r0 where r0: "r0 \<in> set rows" "moved r0 r" using advances_backward assms(2) by blast
    then have "r0 \<in> set (target_of i a rows)"
      using that moved_fields[OF r0(2)] r0(2)
      by (auto simp: target_of_def pending_of_def moved_def intro: advance_pending)
    moreover have "row_sender r = row_sender r0"
      using moved_fields[OF r0(2)] by (simp add: row_sender_def)
    ultimately show ?thesis by blast
  qed
  have len: "length rows' = length rows"
    using assms(2) by (simp add: advances_def list_all2_lengthD)
  show ?thesis
  proof (rule limits_okI)
    fix i a r r' assume "r \<in> set (target_of i a rows')" "r' \<in> set (target_of i a rows')"
    then obtain q q' where q: "q \<in> set (target_of i a rows)" "row_sender r = row_sender q"
      "q' \<in> set (target_of i a rows)" "row_sender r' = row_sender q'" using send by meson
    show "row_sender r = row_sender r'" using limits_okD(4)[OF assms(1) q(1,3)] q by simp
  next
    show "length rows' \<le> MAX_RECEIPTS" using limits_okD(1)[OF assms(1)] len by simp
    show "length (pending_of i rows') \<le> MAX_PENDING" for i
      using pend limits_okD(2)[OF assms(1)] by (rule le_trans)
    show "length (target_of i a rows') \<le> MAX_PER_TARGET" for i a
      using targ limits_okD(3)[OF assms(1)] by (rule le_trans)
  qed
qed

lemma inv_advances:
  assumes "delivery_inv rows l log" "advances rows rows'" "table_ok rows'"
  shows "delivery_inv rows' l log"
proof -
  have orig: "\<exists>r0 \<in> set rows. row_sequence r0 = row_sequence r
      \<and> (row_state r = Queued \<longrightarrow> r = r0)" if r: "r \<in> set rows'" for r
  proof -
    obtain r0 where r0: "r0 \<in> set rows" "moved r0 r" using advances_backward[OF assms(2) r] by blast
    have "row_state r = Queued \<longrightarrow> r = r0"
      using r0(2) by (auto simp: moved_def)
    then show ?thesis
      by (intro bexI[OF _ r0(1)] conjI moved_fields(1)[OF r0(2), symmetric])
  qed
  have "seqs_ok rows' l"
    using assms(1) orig unfolding delivery_inv_def seqs_ok_def by fastforce
  moreover have queued: "r \<in> set rows" if "r \<in> set rows'" "row_state r = Queued" for r
    using orig[OF that(1)] that(2) by auto
  then have "sent_ok rows' l log"
    using assms(1) unfolding delivery_inv_def sent_ok_def by blast
  ultimately show ?thesis
    using assms limits_advances[OF _ assms(2)] by (simp add: delivery_inv_def)
qed

lemma pending_of_filter: "pending_of i (filter P rows) = filter P (pending_of i rows)"
  by (simp add: pending_of_def conj_commute)

lemma target_of_filter: "target_of i a (filter P rows) = filter P (target_of i a rows)"
  by (simp add: target_of_def pending_of_filter conj_commute)

lemma inv_filter:
  assumes "delivery_inv rows l log"
  shows "delivery_inv (filter P rows) l log"
proof -
  have "limits_ok rows" using assms by (simp add: delivery_inv_def)
  then have "limits_ok (filter P rows)"
    unfolding limits_ok_def pending_of_filter target_of_filter
    by (meson filter_is_subset length_filter_le le_trans subsetD)
  then show ?thesis
    using assms by (auto simp: delivery_inv_def table_ok_filter seqs_ok_def sent_ok_def)
qed

lemma pending_of_append: "pending_of i (rows @ rows') = pending_of i rows @ pending_of i rows'"
  by (simp add: pending_of_def)

lemma target_of_append: "target_of i a (rows @ rows') = target_of i a rows @ target_of i a rows'"
  by (simp add: target_of_def pending_of_append)

lemma db_row_new_simps [simp]:
  "row_sequence (db_row_new s m) = s" "row_state (db_row_new s m) = msg_state m"
  "row_body (db_row_new s m) = m" "row_request_id (db_row_new s m) = sp_request_id (msg_params m)"
  "db_row_ok (db_row_new s m)"
  by (simp_all add: db_row_new_def db_row_ok_def)

lemma limits_insert:
  assumes lim: "limits_ok rows" and "length rows < MAX_RECEIPTS"
    and own: "length (pending_of (msg_instance_id m) rows) < MAX_PENDING"
    and tgt: "length (target_of (msg_instance_id m) (sp_agent_id (msg_params m)) rows) < MAX_PER_TARGET"
    and send: "\<forall>r \<in> set (target_of (msg_instance_id m) (sp_agent_id (msg_params m)) rows).
      row_sender r = sp_sender_id (msg_params m)"
  shows "limits_ok (rows @ [db_row_new s m])"
proof (rule limits_okI)
  let ?new = "db_row_new s m"
  show "length (rows @ [?new]) \<le> MAX_RECEIPTS" using assms(2) by simp
  have pend: "pending_of i [?new] = (if is_pending (msg_state m) \<and> msg_instance_id m = i then [?new] else [])"
    for i by (simp add: pending_of_def)
  have targ: "target_of i a [?new] = (if is_pending (msg_state m) \<and> msg_instance_id m = i
      \<and> sp_agent_id (msg_params m) = a then [?new] else [])" for i a
    by (simp add: target_of_def pend)
  show "length (pending_of i (rows @ [?new])) \<le> MAX_PENDING" for i
    using own limits_okD(2)[OF lim, of i] by (auto simp: pending_of_append pend)
  show "length (target_of i a (rows @ [?new])) \<le> MAX_PER_TARGET" for i a
    using tgt limits_okD(3)[OF lim, of i a] by (auto simp: target_of_append targ)
  show "row_sender r = row_sender r'"
    if "r \<in> set (target_of i a (rows @ [?new]))" "r' \<in> set (target_of i a (rows @ [?new]))" for i a r r'
    using that send limits_okD(4)[OF lim, of r i a r']
    by (auto simp: target_of_append targ row_sender_def split: if_splits)
qed

lemma inv_insert:
  assumes inv: "delivery_inv rows l log" and lim: "limits_ok (rows @ [db_row_new (l + 1) m])"
    and fresh: "sp_request_id (msg_params m) \<notin> set (map row_request_id rows)"
  shows "delivery_inv (rows @ [db_row_new (l + 1) m]) (l + 1) log"
proof -
  let ?new = "db_row_new (l + 1) m"
  have seqs: "seqs_ok rows l" and tab: "table_ok rows" and sent: "sent_ok rows l log"
    using inv by (simp_all add: delivery_inv_def)
  have "table_ok (rows @ [?new])"
    using tab seqs fresh unfolding table_ok_def seqs_ok_def
    by (fastforce simp: sorted_wrt_append)
  moreover have "seqs_ok (rows @ [?new]) (l + 1)"
    using seqs by (fastforce simp: seqs_ok_def)
  moreover have old: "s < l + 1" if "s \<in> set (sent_seqs log)" for s
    using sent that by (auto simp: sent_ok_def)
  have sub: "set (sent_seqs (sent_to t log)) \<subseteq> set (sent_seqs log)" for t
    by (auto simp: sent_seqs_def sent_to_def)
  have "sent_ok (rows @ [?new]) (l + 1) log"
    unfolding sent_ok_def
  proof (intro conjI ballI impI)
    show "row_sequence r \<notin> set (sent_seqs log)"
      if "r \<in> set (rows @ [?new])" "row_state r = Queued" for r
      using that sent old[of "row_sequence r"] by (auto simp: sent_ok_def)
    show "s < row_sequence r"
      if "r \<in> set (rows @ [?new])" "row_state r = Queued"
        "s \<in> set (sent_seqs (sent_to (msg_target (row_message r)) log))" for r s
      using that sent old[of s] subsetD[OF sub that(3)] by (auto simp: sent_ok_def)
  qed (use sent old in \<open>auto simp: sent_ok_def intro: less_imp_le\<close>)
  ultimately show ?thesis using lim by (simp add: delivery_inv_def)
qed

text \<open>Sending a message that has just been claimed from the head of the queue of its target.\<close>

lemma sent_seqs_snoc: "sent_seqs (log @ [x]) = sent_seqs log @ [msg_sequence (sent_message x)]"
  by (simp add: sent_seqs_def)

lemma sent_to_snoc: "sent_to t (log @ [x]) =
  sent_to t log @ (if msg_target (sent_message x) = t then [x] else [])"
  by (simp add: sent_to_def)

lemma sent_ok_snoc:
  assumes before: "sent_ok rows l log" and row: "r \<in> set rows" "row_state r = Queued" "row_sequence r \<le> l"
    and x: "msg_sequence (sent_message x) = row_sequence r" "msg_target (sent_message x) = msg_target (row_message r)"
    and sub: "\<forall>q \<in> set rows'. row_state q = Queued \<longrightarrow> q \<in> set rows \<and> row_sequence q \<noteq> row_sequence r"
    and first: "\<forall>q \<in> set rows. row_state q = Queued \<longrightarrow> msg_target (row_message q) = msg_target (row_message r)
      \<longrightarrow> row_sequence r \<le> row_sequence q"
  shows "sent_ok rows' l (log @ [x])"
proof -
  have new: "row_sequence r \<notin> set (sent_seqs log)"
    and old: "\<forall>s \<in> set (sent_seqs (sent_to (msg_target (row_message r)) log)). s < row_sequence r"
    using before row by (auto simp: sent_ok_def)
  have "sorted_wrt (<) (sent_seqs (sent_to t (log @ [x])))" for t
  proof -
    have "sorted_wrt (<) (sent_seqs (sent_to t log))"
      using before unfolding sent_ok_def by blast
    then show ?thesis
      using old x by (auto simp: sent_to_snoc sent_seqs_snoc sorted_wrt_append)
  qed
  moreover have "row_sequence q \<notin> set (sent_seqs (log @ [x]))
      \<and> (\<forall>s \<in> set (sent_seqs (sent_to (msg_target (row_message q)) (log @ [x]))). s < row_sequence q)"
    if "q \<in> set rows'" "row_state q = Queued" for q
  proof -
    have q: "q \<in> set rows" "row_sequence q \<noteq> row_sequence r" using sub that by auto
    then have "row_sequence r < row_sequence q" if "msg_target (row_message q) = msg_target (row_message r)"
      using first that \<open>row_state q = Queued\<close> by force
    then show ?thesis
      using before q x that by (auto simp: sent_ok_def sent_seqs_snoc sent_to_snoc)
  qed
  ultimately show ?thesis
    using before new x row by (auto simp: sent_ok_def sent_seqs_snoc)
qed

end
