(* ===== verification/Delivery_Correct.thy ===== *)
theory Delivery_Correct
  imports Delivery_Invariant
begin

text \<open>
  Every operation of the journal and of the worker keeps the invariant and only moves
  messages forward, whichever statements fail on the way.  The argument is a small logic
  of pre- and postconditions for fallible code; its predicates speak of the table, the key
  counter and the list of texts sent, so that faults and the world drop out.
\<close>

section \<open>Pre- and postconditions\<close>

definition triple ::
  "('s \<Rightarrow> bool) \<Rightarrow> ('s, 'a) fallible \<Rightarrow> ('a \<Rightarrow> 's \<Rightarrow> bool) \<Rightarrow> ('s \<Rightarrow> bool) \<Rightarrow> bool" where
  "triple P f Q E \<longleftrightarrow>
     (\<forall>s. P s \<longrightarrow> (case f s of (Inr x, s') \<Rightarrow> Q x s' | (Inl e, s') \<Rightarrow> E s'))"

lemma triple_bind:
  assumes "triple P f R E" "\<And>x. triple (R x) (g x) Q E"
  shows "triple P (try_bind f g) Q E"
  unfolding triple_def try_bind_def
proof (intro allI impI)
  fix s assume "P s"
  then have "case f s of (Inr x, s') \<Rightarrow> R x s' | (Inl e, s') \<Rightarrow> E s'"
    using assms(1) by (simp add: triple_def)
  then show "case (case f s of (Inl e, s') \<Rightarrow> (Inl e, s') | (Inr x, s') \<Rightarrow> g x s') of
      (Inr x, s') \<Rightarrow> Q x s' | (Inl e, s') \<Rightarrow> E s'"
  proof (cases "f s")
    case (Pair r s')
    then show ?thesis
      using \<open>case f s of (Inr x, s') \<Rightarrow> R x s' | (Inl e, s') \<Rightarrow> E s'\<close> assms(2)
      by (cases r) (simp_all add: triple_def)
  qed
qed

lemma triple_return [intro]: "(\<And>s. P s \<Longrightarrow> Q x s) \<Longrightarrow> triple P (try_return x) Q E"
  by (simp add: triple_def try_return_def)

lemma triple_throw [intro]: "(\<And>s. P s \<Longrightarrow> E s) \<Longrightarrow> triple P (try_throw e) Q E"
  by (simp add: triple_def try_throw_def)

lemma triple_conseq:
  assumes "triple P f Q E" "\<And>s. P' s \<Longrightarrow> P s" "\<And>x s. Q x s \<Longrightarrow> Q' x s" "\<And>s. E s \<Longrightarrow> E' s"
  shows "triple P' f Q' E'"
  unfolding triple_def
proof (intro allI impI)
  fix s assume "P' s"
  then have "case f s of (Inr x, s') \<Rightarrow> Q x s' | (Inl e, s') \<Rightarrow> E s'"
    using assms(1,2) by (simp add: triple_def)
  then show "case f s of (Inr x, s') \<Rightarrow> Q' x s' | (Inl e, s') \<Rightarrow> E' s'"
    using assms(3,4) by (auto split: prod.splits sum.splits)
qed

lemma triple_assume: "(\<And>s. P s \<Longrightarrow> triple (\<lambda>s'. s' = s) f Q E) \<Longrightarrow> triple P f Q E"
  by (simp add: triple_def)

lemma tripleD: "triple P f Q E \<Longrightarrow> P s \<Longrightarrow> f s = (Inr x, s') \<Longrightarrow> Q x s'"
  by (fastforce simp: triple_def)

lemma triple_snd: "triple P f (\<lambda>_. Q) Q \<Longrightarrow> P s \<Longrightarrow> Q (snd (f s))"
  unfolding triple_def by (cases "f s"; cases "fst (f s)") (metis (no_types, lifting) case_prod_conv
      fst_conv old.sum.simps(5,6) snd_conv)+

lemma triple_if:
  "(b \<Longrightarrow> triple P f Q E) \<Longrightarrow> (\<not> b \<Longrightarrow> triple P g Q E) \<Longrightarrow> triple P (if b then f else g) Q E"
  by simp

lemma triple_option:
  "(x = None \<Longrightarrow> triple P f Q E) \<Longrightarrow> (\<And>y. x = Some y \<Longrightarrow> triple P (g y) Q E)
     \<Longrightarrow> triple P (case x of None \<Rightarrow> f | Some y \<Rightarrow> g y) Q E"
  by (cases x) auto

lemma triple_bind_eq:
  "triple P f (\<lambda>x s. x = v \<and> P s) E \<Longrightarrow> triple P (g v) Q E \<Longrightarrow> triple P (try_bind f g) Q E"
  by (rule triple_bind) (auto simp: triple_def)

lemma triple_discard:
  "triple P f (\<lambda>_. Q) E \<Longrightarrow> triple P (try_bind f (\<lambda>_. try_return ())) (\<lambda>_. Q) E"
  by (erule triple_bind) (rule triple_return)

text \<open>Predicates on the table and the key counter.\<close>

definition tbl :: "(db_row list \<Rightarrow> int \<Rightarrow> bool) \<Rightarrow> journal \<Rightarrow> bool" where
  "tbl p j = p (table j) (last_sequence j)"

lemma triple_db_exec: "triple (tbl p) db_exec (\<lambda>_. tbl p) (tbl p)"
  by (auto simp: triple_def db_exec_def tbl_def split: list.splits)

lemma triple_db_query:
  "triple (tbl p) (db_query q) (\<lambda>x. tbl (\<lambda>rows l. p rows l \<and> x = q rows)) (tbl p)"
  unfolding db_query_def
  by (rule triple_bind[OF triple_db_exec]) (simp add: triple_def tbl_def)

lemma triple_get:
  "triple (tbl p) (journal_get rid) (\<lambda>x. tbl (\<lambda>rows l. p rows l
     \<and> x = map_option row_message (find (\<lambda>r. row_request_id r = rid) rows))) (tbl p)"
  unfolding journal_get_def by (rule triple_db_query)

lemma triple_pending:
  "triple (tbl p) journal_pending (\<lambda>x. tbl (\<lambda>rows l. p rows l \<and> x = pending_rows rows)) (tbl p)"
  unfolding journal_pending_def by (rule triple_db_query)

definition transition_result ::
  "message \<Rightarrow> delivery_state \<Rightarrow> string option \<Rightarrow> int \<Rightarrow> db_row list \<Rightarrow> message option" where
  "transition_result m s reason now rows = (if length (filter (row_hit m) rows) = 1
     then Some (message_next m s reason now) else None)"

lemma triple_transition:
  "triple (tbl p) (journal_transition m s reason now)
     (\<lambda>x. tbl (\<lambda>rows' l. \<exists>rows. p rows l \<and> rows' = update_rows m s reason now rows
        \<and> x = transition_result m s reason now rows)) (tbl p)"
  unfolding journal_transition_def
  by (rule triple_bind[OF triple_db_exec]) (auto simp: triple_def tbl_def transition_result_def)

lemma triple_existing:
  "triple (tbl p) (journal_existing params) (\<lambda>x. tbl (\<lambda>rows l. p rows l
     \<and> x = map_option row_message (find (\<lambda>r. row_request_id r = sp_request_id params) rows))) (tbl p)"
  unfolding journal_existing_def
  by (rule triple_bind[OF triple_get]) (auto simp: triple_def tbl_def try_defs split: option.splits)

section \<open>Insertion\<close>

text \<open>What an insertion does to the table: nothing, or it adds one row within the limits.\<close>

definition inserts :: "message \<Rightarrow> db_row list \<Rightarrow> int \<Rightarrow> db_row list \<Rightarrow> int \<Rightarrow> bool" where
  "inserts m rows l rows' l' \<longleftrightarrow> rows' = rows \<and> l' = l
     \<or> rows' = rows @ [db_row_new (l + 1) m] \<and> l' = l + 1
       \<and> sp_request_id (msg_params m) \<notin> set (map row_request_id rows)
       \<and> (limits_ok rows \<longrightarrow> table_ok rows \<longrightarrow> limits_ok rows')"

lemma inserts_refl [simp]: "inserts m rows l rows l"
  by (simp add: inserts_def)

lemma pending_own:
  assumes "table_ok rows"
  shows "filter (\<lambda>p. msg_instance_id p = i) (pending_rows rows) = map row_message (pending_of i rows)"
    and "filter (\<lambda>p. sp_agent_id (msg_params p) = a) (map row_message (pending_of i rows))
      = map row_message (target_of i a rows)"
  by (simp_all add: pending_rows_ok[OF assms] pending_of_def target_of_def filter_map o_def conj_commute)

lemma triple_insert_inner:
  "triple (tbl (\<lambda>rows l. rows = rows0 \<and> l = l0)) (insert_inner m)
     (\<lambda>_. tbl (inserts m rows0 l0)) (tbl (inserts m rows0 l0))"
proof -
  let ?P = "\<lambda>rows l. rows = rows0 \<and> l = l0" and ?E = "tbl (inserts m rows0 l0)"
  let ?own = "filter (\<lambda>p. msg_instance_id p = msg_instance_id m) (pending_rows rows0)"
  let ?target = "filter (\<lambda>p. sp_agent_id (msg_params p) = sp_agent_id (msg_params m)) ?own"
  have weaken: "triple (tbl ?P) f Q (tbl ?P) \<Longrightarrow> triple (tbl ?P) f Q ?E" for f :: "(journal, 'a) fallible" and Q
    by (erule triple_conseq) (auto simp: tbl_def)
  have limits: "limits_ok (rows0 @ [db_row_new (l0 + 1) m])"
    if "\<not> (MAX_PENDING \<le> length ?own \<or> MAX_PER_TARGET \<le> length ?target)"
      "\<not> (\<exists>p \<in> set ?target. sp_sender_id (msg_params p) \<noteq> sp_sender_id (msg_params m))"
      "\<not> MAX_RECEIPTS \<le> length rows0" "limits_ok rows0" "table_ok rows0"
    using that by (intro limits_insert) (auto simp: pending_own row_sender_def)
  have ins: "triple (tbl ?P) (db_insert m) (\<lambda>_. ?E) ?E"
    if "limits_ok rows0 \<Longrightarrow> table_ok rows0 \<Longrightarrow> limits_ok (rows0 @ [db_row_new (l0 + 1) m])"
    unfolding db_insert_def using that
    by (intro triple_bind[OF triple_db_exec[THEN weaken]]) (auto simp: triple_def tbl_def inserts_def)
  have get: "triple ?E (journal_get rid) (\<lambda>_. ?E) ?E" for rid
    by (rule triple_conseq[OF triple_get]) (auto simp: tbl_def)
  have query: "triple (tbl ?P) (db_query q) (\<lambda>x s. x = q rows0 \<and> tbl ?P s) ?E" for q :: "db_row list \<Rightarrow> 'b"
    by (rule triple_conseq[OF triple_db_query[where p = ?P]]) (auto simp: tbl_def)
  have existing: "triple (tbl ?P) (journal_existing p) (\<lambda>x s. x = map_option row_message
      (find (\<lambda>r. row_request_id r = sp_request_id p) rows0) \<and> tbl ?P s) ?E" for p
    by (rule triple_conseq[OF triple_existing[where p = ?P]]) (auto simp: tbl_def)
  have quit: "triple (tbl ?P) (try_throw e) Q ?E" "triple (tbl ?P) (try_return x) (\<lambda>_. ?E) ?E" for e Q x
    by (auto simp: tbl_def)
  show ?thesis
    unfolding insert_inner_def Let_def journal_pending_def
    by (intro triple_bind_eq[OF existing] triple_option triple_bind_eq[OF query] triple_if quit
        triple_bind[OF ins] triple_bind[OF get] limits) auto
qed

lemma triple_insert:
  "triple (tbl p) (journal_insert m)
     (\<lambda>_. tbl (\<lambda>rows' l'. \<exists>rows l. p rows l \<and> inserts m rows l rows' l')) (tbl p)"
  unfolding journal_insert_def
proof (rule triple_bind[OF triple_db_exec], unfold triple_def, intro allI impI)
  fix j0 assume p: "tbl p j0"
  have inner: "case insert_inner m j0 of
      (Inr x, j) \<Rightarrow> tbl (inserts m (table j0) (last_sequence j0)) j
    | (Inl e, j) \<Rightarrow> tbl (inserts m (table j0) (last_sequence j0)) j"
    using triple_insert_inner[of "table j0" "last_sequence j0" m] by (simp add: triple_def tbl_def)
  have exec: "table j' = table j \<and> last_sequence j' = last_sequence j" if "db_exec j = (r, j')" for r j j'
    using that by (auto simp: db_exec_def split: list.splits if_splits)
  show "case (case insert_inner m j0 of
       (Inr x, j) \<Rightarrow> (case db_exec j of (Inr _, j') \<Rightarrow> (Inr x, j') | (Inl e, j') \<Rightarrow> (Inl e, db_rollback j0 j'))
     | (Inl e, j) \<Rightarrow> (Inl e, db_rollback j0 j)) of
     (Inr x, s') \<Rightarrow> tbl (\<lambda>rows' l'. \<exists>rows l. p rows l \<and> inserts m rows l rows' l') s'
   | (Inl e, s') \<Rightarrow> tbl p s'"
    using p inner by (auto simp: db_rollback_def tbl_def split: prod.splits sum.splits dest!: exec)
      blast
qed

lemma inserts_inv:
  "inserts m rows l rows' l' \<Longrightarrow> delivery_inv rows l log \<Longrightarrow> delivery_inv rows' l' log"
  using inv_insert[of rows l log m] unfolding inserts_def delivery_inv_def by auto

lemma inserts_evolves: "inserts m rows l rows' l' \<Longrightarrow> evolves rows rows'"
  unfolding inserts_def evolves_def using moved_refl by (metis Un_iff set_append)

section \<open>Maintenance\<close>

text \<open>What a change of the table by transitions alone keeps.\<close>

lemma inv_update:
  assumes "delivery_inv rows l log" "known rows m" "state_advance (msg_state m) s" "msg_state m \<noteq> s"
  shows "delivery_inv (update_rows m s reason now rows) l log"
    "advances rows (update_rows m s reason now rows)"
proof -
  have "table_ok rows" using assms(1) by (simp add: delivery_inv_def)
  note upd = update_rows_advances[OF this assms(2-4), of reason now]
  show "delivery_inv (update_rows m s reason now rows) l log"
    by (rule inv_advances[OF assms(1) upd])
  show "advances rows (update_rows m s reason now rows)" by (rule upd(1))
qed

lemma maintain_change_advance:
  assumes "maintain_change a now m = Some (s, reason)" "is_pending (msg_state m)"
  shows "state_advance (msg_state m) s" "msg_state m \<noteq> s" "\<not> is_pending s"
  using assms by (auto simp: maintain_change_def state_advance_def is_pending_def split: if_splits)

definition settled :: "(u32 \<Rightarrow> u64 option \<Rightarrow> bool) \<Rightarrow> int \<Rightarrow> db_row \<Rightarrow> bool" where
  "settled alive now r \<longleftrightarrow> (is_pending (row_state r) \<longrightarrow>
     alive (msg_owner_pid (row_body r)) (msg_owner_start_time (row_body r))
     \<and> (row_state r = Queued \<longrightarrow> now < msg_expires_at (row_body r)))"

text \<open>The state of the loop with the messages still to visit.\<close>

definition maintaining ::
  "(u32 \<Rightarrow> u64 option \<Rightarrow> bool) \<Rightarrow> int \<Rightarrow> sent list \<Rightarrow> db_row list \<Rightarrow> message list
     \<Rightarrow> db_row list \<Rightarrow> int \<Rightarrow> bool" where
  "maintaining alive now log rows0 ms rows l \<longleftrightarrow> delivery_inv rows l log \<and> advances rows0 rows
     \<and> (\<forall>m \<in> set ms. known rows m \<and> is_pending (msg_state m))
     \<and> (\<forall>r \<in> set rows. r \<in> set rows0 \<or> row_updated_at r = now)
     \<and> (\<forall>r \<in> set rows. settled alive now r \<or> row_message r \<in> set ms)"

lemma maintaining_skip:
  assumes "maintaining alive now log rows0 (m # ms) rows l"
    "maintain_change (alive (msg_owner_pid m) (msg_owner_start_time m)) now m = None"
  shows "maintaining alive now log rows0 ms rows l"
proof -
  have "settled alive now r" if "r \<in> set rows" "row_message r = m" for r
    using assms that by (auto simp: settled_def maintain_change_def maintaining_def delivery_inv_def
        table_ok_def db_row_ok_def split: if_splits)
  then show ?thesis using assms(1) unfolding maintaining_def by auto
qed

lemma maintaining_change:
  assumes "maintaining alive now log rows0 (m # ms) rows l"
    "maintain_change (alive (msg_owner_pid m) (msg_owner_start_time m)) now m = Some (s, reason)"
  shows "maintaining alive now log rows0 ms (update_rows m s r now rows) l"
proof -
  let ?rows = "update_rows m s r now rows"
  have m: "delivery_inv rows l log" "known rows m" "is_pending (msg_state m)"
    using assms(1) by (auto simp: maintaining_def)
  note change = maintain_change_advance[OF assms(2) m(3)]
  note upd = inv_update[OF m(1,2) change(1,2), of r now]
  have hit: "row_hit m q" if "q \<in> set rows" "row_message q = m" for q
    using that m(1) by (auto simp: row_hit_def delivery_inv_def table_ok_def db_row_ok_def)
  have rows: "q' \<in> set ?rows \<Longrightarrow> (q' \<in> set rows \<and> \<not> row_hit m q')
      \<or> (\<not> is_pending (row_state q') \<and> row_updated_at q' = now)" for q'
    using change(3) by (auto simp: update_rows_def)
  have "known ?rows x" if "known rows x" for x
    using that known_evolves advances_evolves[OF upd(2)] by blast
  moreover have "advances rows0 ?rows"
    using assms(1) upd(2) advances_trans by (auto simp: maintaining_def)
  moreover have "settled alive now q \<or> row_message q \<in> set ms" if "q \<in> set ?rows" for q
    using rows[OF that] hit assms(1) by (fastforce simp: maintaining_def settled_def)
  moreover have "q \<in> set rows0 \<or> row_updated_at q = now" if "q \<in> set ?rows" for q
    using rows[OF that] assms(1) by (auto simp: maintaining_def)
  ultimately show ?thesis
    using assms(1) upd(1) unfolding maintaining_def by auto
qed

lemma triple_maintain_loop:
  assumes "\<And>k b. liveness k = Some b \<Longrightarrow> b = alive (fst k) (snd k)"
  shows "triple (tbl (maintaining alive now log rows0 ms)) (maintain_loop alive now ms liveness)
     (\<lambda>_. tbl (maintaining alive now log rows0 []))
     (tbl (\<lambda>rows l. delivery_inv rows l log \<and> advances rows0 rows))"
  using assms
proof (induction ms arbitrary: liveness)
  case Nil
  then show ?case by (auto simp: tbl_def)
next
  case (Cons m ms)
  let ?key = "(msg_owner_pid m, msg_owner_start_time m)"
  let ?a = "case liveness ?key of Some b \<Rightarrow> b | None \<Rightarrow> alive (fst ?key) (snd ?key)"
  let ?E = "tbl (\<lambda>rows l. delivery_inv rows l log \<and> advances rows0 rows)"
  have a: "?a = alive (msg_owner_pid m) (msg_owner_start_time m)"
    using Cons.prems[of ?key] by (cases "liveness ?key") auto
  have rest: "triple (tbl (maintaining alive now log rows0 ms))
      (maintain_loop alive now ms (liveness(?key \<mapsto> ?a)))
      (\<lambda>_. tbl (maintaining alive now log rows0 [])) ?E"
    using Cons.prems a by (intro Cons.IH) (auto split: if_splits)
  show ?case
  proof (cases "maintain_change ?a now m")
    case None
    then show ?thesis
      using triple_conseq[OF rest] a maintaining_skip by (simp add: tbl_def)
  next
    case (Some sr)
    obtain s reason where sr: "sr = (s, reason)" by (cases sr)
    have step: "triple (tbl (maintaining alive now log rows0 (m # ms)))
        (journal_transition m s (Some reason) now) (\<lambda>_. tbl (maintaining alive now log rows0 ms)) ?E"
      by (rule triple_conseq[OF triple_transition[where p = "maintaining alive now log rows0 (m # ms)"]])
        (use Some sr a maintaining_change in \<open>auto simp: tbl_def\<close>, auto simp: maintaining_def)
    show ?thesis
      unfolding maintain_loop.simps Let_def Some sr option.case prod.case
      by (rule triple_bind[OF step rest])
  qed
qed

text \<open>Deletion takes only receipts of finished messages that have not changed for seven days.\<close>

definition retires :: "int \<Rightarrow> db_row list \<Rightarrow> db_row list \<Rightarrow> bool" where
  "retires now rows rows' \<longleftrightarrow> (\<forall>r \<in> set rows. (\<exists>r' \<in> set rows'. moved r r')
     \<or> \<not> is_pending (row_state r) \<and> row_updated_at r < now - RETENTION_SECONDS)"

lemma maintaining_start:
  assumes "delivery_inv rows l log"
  shows "maintaining alive now log rows (pending_rows rows) rows l"
proof -
  have tab: "table_ok rows" using assms by (simp add: delivery_inv_def)
  have "known rows m \<and> is_pending (msg_state m)" if "m \<in> set (pending_rows rows)" for m
    using that tab by (auto simp: pending_rows_ok[OF tab] known_def table_ok_def db_row_ok_def)
  moreover have "settled alive now r \<or> row_message r \<in> set (pending_rows rows)" if "r \<in> set rows" for r
    using that by (auto simp: pending_rows_ok[OF tab] settled_def)
  ultimately show ?thesis using assms by (simp add: maintaining_def)
qed

lemma maintaining_end:
  assumes "maintaining alive now log rows0 [] rows l" and tab: "table_ok rows0"
  shows "delivery_inv (filter (retained now) rows) l log" "retires now rows0 (filter (retained now) rows)"
    "\<forall>r \<in> set (filter (retained now) rows). settled alive now r"
proof -
  show "delivery_inv (filter (retained now) rows) l log"
    using assms by (simp add: maintaining_def inv_filter)
  show "\<forall>r \<in> set (filter (retained now) rows). settled alive now r"
    using assms by (simp add: maintaining_def)
  show "retires now rows0 (filter (retained now) rows)"
    unfolding retires_def
  proof
    fix r assume "r \<in> set rows0"
    then obtain r' where r': "r' \<in> set rows" "moved r r'"
      using assms(1) advances_forward by (meson maintaining_def)
    show "(\<exists>r' \<in> set (filter (retained now) rows). moved r r')
        \<or> \<not> is_pending (row_state r) \<and> row_updated_at r < now - RETENTION_SECONDS"
    proof (cases "retained now r'")
      case True
      then show ?thesis using r' by auto
    next
      case False
      then have "\<not> is_pending (row_state r')" "row_updated_at r' < now - RETENTION_SECONDS"
        by (auto simp: retained_def)
      moreover have "r' \<in> set rows0"
        using assms(1) r'(1) calculation(2) by (auto simp: maintaining_def RETENTION_SECONDS_def)
      then have "r' = r"
        using table_ok_sequence[OF tab _ \<open>r \<in> set rows0\<close>] moved_fields(1)[OF r'(2)] by simp
      ultimately show ?thesis by simp
    qed
  qed
qed

lemma triple_maintain:
  "triple (tbl (\<lambda>rows l. rows = rows0 \<and> delivery_inv rows l log)) (journal_maintain now alive)
     (\<lambda>_. tbl (\<lambda>rows l. delivery_inv rows l log \<and> retires now rows0 rows
        \<and> (\<forall>r \<in> set rows. settled alive now r)))
     (tbl (\<lambda>rows l. delivery_inv rows l log \<and> advances rows0 rows))"
proof (cases "table_ok rows0")
  case True
  let ?E = "tbl (\<lambda>rows l. delivery_inv rows l log \<and> advances rows0 rows)"
  have pend: "triple (tbl (\<lambda>rows l. rows = rows0 \<and> delivery_inv rows l log)) journal_pending
      (\<lambda>ms. tbl (maintaining alive now log rows0 ms)) ?E"
    by (rule triple_conseq[OF triple_pending[where p = "\<lambda>rows l. rows = rows0 \<and> delivery_inv rows l log"]])
      (auto simp: tbl_def maintaining_start)
  have loop: "triple (tbl (maintaining alive now log rows0 ms)) (maintain_loop alive now ms Map.empty)
      (\<lambda>_. tbl (maintaining alive now log rows0 [])) ?E" for ms
    by (rule triple_maintain_loop) simp
  have exec: "triple (tbl (maintaining alive now log rows0 [])) db_exec
      (\<lambda>_. tbl (maintaining alive now log rows0 [])) ?E"
    by (rule triple_conseq[OF triple_db_exec[where p = "maintaining alive now log rows0 []"]])
      (auto simp: tbl_def maintaining_def)
  show ?thesis
    unfolding journal_maintain_def
    by (intro triple_bind[OF pend] triple_bind[OF loop] triple_bind[OF exec])
      (auto simp: triple_def tbl_def dest: maintaining_end[OF _ True])
next
  case False
  then have "\<not> tbl (\<lambda>rows l. rows = rows0 \<and> delivery_inv rows l log) j" for j
    by (auto simp: tbl_def delivery_inv_def)
  then show ?thesis by (simp add: triple_def)
qed

section \<open>Dispatch\<close>

text \<open>Predicates on the state of the worker.\<close>

definition wkp :: "(db_row list \<Rightarrow> int \<Rightarrow> sent list \<Rightarrow> bool) \<Rightarrow> 'w worker \<Rightarrow> bool" where
  "wkp p st = p (table (wk_journal st)) (last_sequence (wk_journal st)) (wk_sent st)"

lemma triple_on_journal:
  assumes "\<And>log. triple (tbl (\<lambda>rows l. p rows l log)) f
    (\<lambda>x. tbl (\<lambda>rows l. q x rows l log)) (tbl (\<lambda>rows l. e rows l log))"
  shows "triple (wkp p) (on_journal f) (\<lambda>x. wkp (q x)) (wkp e)"
  unfolding triple_def
proof (intro allI impI)
  fix st assume "wkp p st"
  then have "tbl (\<lambda>rows l. p rows l (wk_sent st)) (wk_journal st)" by (simp add: wkp_def tbl_def)
  then show "case on_journal f st of (Inr x, s') \<Rightarrow> wkp (q x) s' | (Inl _, s') \<Rightarrow> wkp e s'"
    using assms[of "wk_sent st"]
    by (cases "f (wk_journal st)"; cases "fst (f (wk_journal st))")
      (auto simp: triple_def on_journal_def wkp_def tbl_def)
qed

lemma triple_on_world: "triple (wkp p) (on_world f) (\<lambda>_. wkp p) (wkp p)"
  by (auto simp: triple_def on_world_def wkp_def split: prod.splits sum.splits)

lemma triple_now: "triple (wkp p) (wk_now ui) (\<lambda>_. wkp p) (wkp e)"
  by (auto simp: triple_def wk_now_def on_world_def wkp_def split: prod.splits sum.splits)

lemma wkp_world [simp]: "wkp p (st\<lparr>wk_world := w\<rparr>) = wkp p st"
  by (simp add: wkp_def)

lemma spawn_keeps:
  assumes "\<And>st. wkp p st \<Longrightarrow> wkp q (snd (task st))" "\<And>rows l log. p rows l log \<Longrightarrow> q rows l log" "wkp p st"
  shows "wkp q (snd (spawn_ui ui task st))"
proof (cases "ui_spawn ui (wk_world st)")
  case (Pair b w)
  then show ?thesis
    using assms(1)[of "st\<lparr>wk_world := w\<rparr>"] assms(2,3)
    by (cases b) (auto simp: spawn_ui_def wkp_def split: prod.splits)
qed

lemma spawn_world: "wkp p st \<Longrightarrow> wkp p (snd (spawn_ui ui (on_world f) st))"
  by (auto simp: spawn_ui_def on_world_def split: prod.splits bool.splits)

lemma triple_wk_transition:
  "triple (wkp p) (wk_transition ui m s reason)
     (\<lambda>x. wkp (\<lambda>rows' l log. \<exists>rows now. p rows l log \<and> rows' = update_rows m s reason now rows
        \<and> x = transition_result m s reason now rows)) (wkp p)"
  unfolding wk_transition_def
  by (rule triple_bind[OF triple_now], rule triple_on_journal, rule triple_conseq[OF triple_transition])
    (auto simp: tbl_def)

text \<open>The state in which messages are dispatched: the invariant holds and the table has only
  advanced from what was read.\<close>

definition dispatching :: "db_row list \<Rightarrow> db_row list \<Rightarrow> int \<Rightarrow> sent list \<Rightarrow> bool" where
  "dispatching rows0 rows l log \<longleftrightarrow> delivery_inv rows l log \<and> advances rows0 rows"

definition claimable :: "message \<Rightarrow> db_row list \<Rightarrow> bool" where
  "claimable m rows \<longleftrightarrow> known rows m \<and> msg_state m = Queued
     \<and> (\<forall>r \<in> set rows. row_state r = Queued \<longrightarrow> msg_target (row_message r) = msg_target m
          \<longrightarrow> msg_sequence m \<le> row_sequence r)"

definition claimed :: "message \<Rightarrow> db_row list \<Rightarrow> bool" where
  "claimed c rows \<longleftrightarrow> (\<exists>r \<in> set rows. row_message r = c) \<and> msg_state c = Dispatching"

definition sendable :: "message \<Rightarrow> db_row list \<Rightarrow> int \<Rightarrow> sent list \<Rightarrow> bool" where
  "sendable c rows l log \<longleftrightarrow> (\<forall>x. sent_message x = c \<longrightarrow> delivery_inv rows l (log @ [x]))"

lemma dispatching_update:
  assumes "dispatching rows0 rows l log" "known rows m" "state_advance (msg_state m) s" "msg_state m \<noteq> s"
  shows "dispatching rows0 (update_rows m s reason now rows) l log"
  using inv_update[of rows l log m s reason now] assms advances_trans by (auto simp: dispatching_def)

lemma triple_dispatch_transition:
  assumes "state_advance Queued s" "s \<noteq> Queued"
  shows "triple (wkp (\<lambda>rows l log. dispatching rows0 rows l log \<and> claimable m rows))
    (try_bind (wk_transition ui m s reason) (\<lambda>_. try_return ()))
    (\<lambda>_. wkp (dispatching rows0)) (wkp (dispatching rows0))"
proof -
  show ?thesis
    by (rule triple_discard, rule triple_conseq[OF triple_wk_transition[where
            p = "\<lambda>rows l log. dispatching rows0 rows l log \<and> claimable m rows"]])
      (use assms dispatching_update in \<open>auto simp: wkp_def claimable_def\<close>)
qed

lemma claim_ok:
  assumes disp: "dispatching rows0 rows l log" and m: "claimable m rows"
    and one: "length (filter (row_hit m) rows) = 1"
    and rows'_def: "rows' = update_rows m Dispatching None now rows"
    and c_def: "c = message_next m Dispatching None now"
  shows "dispatching rows0 rows' l log" "claimed c rows'" "sendable c rows' l log"
proof -
  have inv: "delivery_inv rows l log" and tab: "table_ok rows"
    using disp by (auto simp: dispatching_def delivery_inv_def)
  have known: "known rows m" and st: "msg_state m = Queued" using m by (auto simp: claimable_def)
  obtain r where r: "r \<in> set rows" "row_hit m r" using row_hit_unique[OF tab one] by blast
  have static: "msg_static (row_message r) = msg_static m"
    using table_ok_hit[OF tab known r(1)] r(2) by (simp add: row_hit_def)
  let ?r' = "r\<lparr>row_state := Dispatching, row_updated_at := now, row_body := c\<rparr>"
  have r': "?r' \<in> set rows'" using r by (auto simp: rows'_def update_rows_def c_def)
  have msg: "row_message ?r' = c"
    using row_update_moved(3)[OF _ static _ _ _ refl, of Dispatching None now] r tab st
    by (auto simp: c_def row_hit_def table_ok_def state_advance_def)
  show disp': "dispatching rows0 rows' l log"
    unfolding rows'_def using disp known st by (intro dispatching_update) (auto simp: state_advance_def)
  show "claimed c rows'"
    using r' msg by (auto simp: claimed_def c_def message_next_def)
  have tgt: "msg_target c = msg_target (row_message r)" "msg_sequence c = row_sequence r"
    using msg_static_eqD[OF static] by (auto simp: msg_target_def c_def message_next_def)
  have sub: "q \<in> set rows \<and> row_sequence q \<noteq> row_sequence r" if "q \<in> set rows'" "row_state q = Queued" for q
  proof -
    have q: "q \<in> set rows" "\<not> row_hit m q"
      using that by (auto simp: rows'_def update_rows_def split: if_splits)
    then show ?thesis using table_ok_sequence[OF tab q(1) r(1)] r(2) by blast
  qed
  have first: "\<forall>q \<in> set rows. row_state q = Queued \<longrightarrow>
      msg_target (row_message q) = msg_target (row_message r) \<longrightarrow> row_sequence r \<le> row_sequence q"
    using m tgt by (auto simp: claimable_def c_def message_next_def msg_target_def)
  show "sendable c rows' l log"
    unfolding sendable_def
  proof (intro allI impI)
    fix x :: sent assume x: "sent_message x = c"
    have "sent_ok rows' l (log @ [x])"
    proof (rule sent_ok_snoc[OF _ r(1)])
      show "sent_ok rows l log" "row_sequence r \<le> l" "row_state r = Queued"
        using inv r st by (auto simp: delivery_inv_def seqs_ok_def row_hit_def)
      show "msg_sequence (sent_message x) = row_sequence r"
        "msg_target (sent_message x) = msg_target (row_message r)" using tgt x by simp_all
    qed (use sub first in blast)+
    then show "delivery_inv rows' l (log @ [x])"
      using disp' by (simp add: dispatching_def delivery_inv_def)
  qed
qed

text \<open>The task on the main thread sends at most the claimed message.\<close>

lemma send_claimed_keeps:
  assumes "wkp (\<lambda>rows l log. dispatching rows0 rows l log \<and> claimed c rows \<and> sendable c rows l log) st"
  shows "wkp (\<lambda>rows l log. dispatching rows0 rows l log \<and> claimed c rows) (snd (send_claimed ui inst c revision st))"
  using assms
  by (auto simp: send_claimed_def on_world_def wkp_def dispatching_def sendable_def
      split: prod.splits sum.splits readiness.splits)

lemma claimed_transition:
  assumes "dispatching rows0 rows l log" "claimed c rows"
    "find (\<lambda>r. row_request_id r = sp_request_id (msg_params c)) rows = Some r"
    "s \<in> {Submitted, Delivery_Unknown, Failed}"
  shows "dispatching rows0 (update_rows (row_message r) s reason now rows) l log"
proof -
  have tab: "table_ok rows" using assms(1) by (simp add: dispatching_def delivery_inv_def)
  obtain q where q: "q \<in> set rows" "row_message q = c" "msg_state c = Dispatching"
    using assms(2) by (auto simp: claimed_def)
  then have "row_request_id q = sp_request_id (msg_params c)"
    using tab by (auto simp: table_ok_def db_row_ok_def)
  then have "r = q" using find_request[OF tab q(1)] assms(3) by simp
  then show ?thesis
    using q assms(1,4) by (intro dispatching_update) (auto simp: known_def state_advance_def)
qed

lemma triple_unclaim:
  assumes "s \<in> {Submitted, Delivery_Unknown, Failed}"
  shows "triple (wkp (\<lambda>rows l log. dispatching rows0 rows l log \<and> claimed c rows))
    (try_bind (on_journal (journal_get (sp_request_id (msg_params c)))) (\<lambda>found.
       case found of None \<Rightarrow> try_throw unavailable | Some current \<Rightarrow>
       try_bind (wk_transition ui current s reason) (\<lambda>_. try_return ())))
    (\<lambda>_. wkp (dispatching rows0)) (wkp (dispatching rows0))"
proof -
  let ?P = "\<lambda>rows l log. dispatching rows0 rows l log \<and> claimed c rows"
  let ?found = "\<lambda>rows. map_option row_message
    (find (\<lambda>r. row_request_id r = sp_request_id (msg_params c)) rows)"
  have get: "triple (wkp ?P) (on_journal (journal_get (sp_request_id (msg_params c))))
      (\<lambda>x. wkp (\<lambda>rows l log. ?P rows l log \<and> x = ?found rows)) (wkp (dispatching rows0))"
    by (rule triple_on_journal, rule triple_conseq[OF triple_get[where p = "\<lambda>rows l. ?P rows l log" for log]])
      (auto simp: tbl_def)
  have trans: "triple (wkp (\<lambda>rows l log. ?P rows l log \<and> ?found rows = Some m))
      (try_bind (wk_transition ui m s reason) (\<lambda>_. try_return ()))
      (\<lambda>_. wkp (dispatching rows0)) (wkp (dispatching rows0))" for m
    by (rule triple_discard, rule triple_conseq[OF triple_wk_transition[where
            p = "\<lambda>rows l log. ?P rows l log \<and> ?found rows = Some m"]])
      (use claimed_transition[OF _ _ _ assms] in \<open>auto simp: wkp_def\<close>)
  show ?thesis
    by (rule triple_bind[OF get], rule triple_option)
      (auto simp: wkp_def intro: triple_conseq[OF trans])
qed

lemma triple_dispatch_claim:
  fixes ui :: "'w ui"
  shows "triple (wkp (\<lambda>rows l log. dispatching rows0 rows l log \<and> claimable m rows))
    (dispatch_claim ui inst m revision) (\<lambda>_. wkp (dispatching rows0)) (wkp (dispatching rows0))"
proof -
  let ?C = "\<lambda>c rows l log. dispatching rows0 rows l log \<and> claimed c rows \<and> sendable c rows l log
    \<and> msg_params c = msg_params m"
  let ?D = "\<lambda>c rows l log. dispatching rows0 rows l log \<and> claimed c rows"
  let ?R = "\<lambda>x. case x of None \<Rightarrow> wkp (dispatching rows0) | Some c \<Rightarrow> wkp (?C c)"
  have claim: "triple (wkp (\<lambda>rows l log. dispatching rows0 rows l log \<and> claimable m rows))
      (wk_transition ui m Dispatching None) ?R (wkp (dispatching rows0))"
  proof (rule triple_conseq[OF triple_wk_transition[where
        p = "\<lambda>rows l log. dispatching rows0 rows l log \<and> claimable m rows"]])
    fix x st assume "wkp (\<lambda>rows' l log. \<exists>rows now. (dispatching rows0 rows l log \<and> claimable m rows)
      \<and> rows' = update_rows m Dispatching None now rows \<and> x = transition_result m Dispatching None now rows) st"
    then show "?R x st"
      using claim_ok[OF _ _ _ refl refl] dispatching_update[of rows0 _ _ _ m Dispatching None]
      by (fastforce simp: wkp_def transition_result_def claimable_def state_advance_def message_next_def
          split: if_splits)
  qed (auto simp: wkp_def)
  have send: "wkp (?D c) (snd (spawn_ui ui (send_claimed ui inst c revision) st))" if "wkp (?C c) st" for c st
    using that by (intro spawn_keeps[where p = "?C c" and q = "?D c"] send_claimed_keeps) (auto simp: wkp_def)
  show ?thesis
    unfolding dispatch_claim_def
  proof (rule triple_bind[OF claim], unfold triple_def, intro allI impI)
    fix x and st :: "'w worker" assume x: "?R x st"
    let ?Q = "\<lambda>y. case y of (Inr _, s') \<Rightarrow> wkp (dispatching rows0) s' | (Inl _, s') \<Rightarrow> wkp (dispatching rows0) s'"
    show "?Q (case x of None \<Rightarrow> (Inr (), st) | Some c \<Rightarrow>
       (case spawn_ui ui (send_claimed ui inst c revision) st of (dispatched, st1) \<Rightarrow>
        if dispatched = Some True then (Inr (), st1)
        else try_bind (on_journal (journal_get (sp_request_id (msg_params m)))) (\<lambda>found.
          case found of None \<Rightarrow> try_throw unavailable | Some current \<Rightarrow>
          try_bind (wk_transition ui current
            (if dispatched = None then Delivery_Unknown else Failed)
            (Some ''target changed before insertion'')) (\<lambda>_. try_return ())) st1))"
    proof (cases x)
      case (Some c)
      obtain d st1 where d: "spawn_ui ui (send_claimed ui inst c revision) st = (d, st1)" by fastforce
      have st1: "wkp (?D c) st1" and params: "msg_params c = msg_params m"
        using send[of c st] x Some d by (auto simp: wkp_def)
      have "wkp (dispatching rows0) st1" using st1 by (simp add: wkp_def)
      moreover note triple_unclaim[of "if d = None then Delivery_Unknown else Failed" rows0 c ui
          "Some ''target changed before insertion''"]
      ultimately show ?thesis
        using st1 unfolding Some option.case d prod.case params triple_def by simp
    qed (use x in simp)
  qed
qed

lemma triple_pure: "(b \<Longrightarrow> triple P f Q E) \<Longrightarrow> triple (\<lambda>s. b \<and> P s) f Q E"
  by (simp add: triple_def)

lemma triple_after:
  fixes f :: "'a worker \<Rightarrow> 'b \<times> 'a worker"
  assumes "\<And>st. wkp p st \<Longrightarrow> wkp p (snd (f st))"
    "\<And>x. triple (wkp p) (g x) Q E"
  shows "triple (wkp p) (\<lambda>st. case f st of (x, st1) \<Rightarrow> g x st1) Q E"
  unfolding triple_def
proof (intro allI impI)
  fix st :: "'a worker" assume "wkp p st"
  then have "wkp p (snd (f st))" by (rule assms(1))
  then show "case (case f st of (x, st1) \<Rightarrow> g x st1) of (Inr x, s') \<Rightarrow> Q x s' | (Inl e, s') \<Rightarrow> E s'"
    using assms(2) by (cases "f st") (simp add: triple_def)
qed

lemma triple_stop: "(\<And>s. P s \<Longrightarrow> Q x s) \<Longrightarrow> triple P (\<lambda>st. (Inr x, st)) Q E"
  by (simp add: triple_def)

lemma triple_dispatch_one:
  "triple (wkp (\<lambda>rows l log. dispatching rows0 rows l log \<and> claimable m rows))
    (dispatch_one ui inst m) (\<lambda>_. wkp (dispatching rows0)) (wkp (dispatching rows0))"
proof -
  let ?P = "\<lambda>rows l log. dispatching rows0 rows l log \<and> claimable m rows"
  have cont: "triple (wkp ?P)
     (case (case ready of None \<Rightarrow> Inl unavailable | Some r \<Rightarrow> r) of
          Inr (Ready revision) \<Rightarrow> dispatch_claim ui inst m revision
        | Inr Wait \<Rightarrow> (\<lambda>st1. (Inr (), st1))
        | Inr (Cancel reason) \<Rightarrow>
            try_bind (wk_transition ui m Cancelled (Some reason)) (\<lambda>_. try_return ())
        | Inl _ \<Rightarrow> try_bind (wk_transition ui m Cancelled
            (Some ''target or local control is no longer available'')) (\<lambda>_. try_return ()))
     (\<lambda>_. wkp (dispatching rows0)) (wkp (dispatching rows0))" for ready :: "(control_error + readiness) option"
    by (auto split: option.splits sum.splits readiness.splits
        intro!: triple_dispatch_claim triple_dispatch_transition triple_stop simp: wkp_def state_advance_def)
  have eq: "(\<lambda>st. case spawn_ui ui (on_world (probe ui m inst)) st of (ready, st1) \<Rightarrow>
       (case (case ready of None \<Rightarrow> Inl unavailable | Some r \<Rightarrow> r) of
          Inr (Ready revision) \<Rightarrow> dispatch_claim ui inst m revision st1
        | Inr Wait \<Rightarrow> (Inr (), st1)
        | Inr (Cancel reason) \<Rightarrow>
            try_bind (wk_transition ui m Cancelled (Some reason)) (\<lambda>_. try_return ()) st1
        | Inl _ \<Rightarrow> try_bind (wk_transition ui m Cancelled
            (Some ''target or local control is no longer available'')) (\<lambda>_. try_return ()) st1)) =
     (\<lambda>st. case spawn_ui ui (on_world (probe ui m inst)) st of (ready, st1) \<Rightarrow>
       (case (case ready of None \<Rightarrow> Inl unavailable | Some r \<Rightarrow> r) of
          Inr (Ready revision) \<Rightarrow> dispatch_claim ui inst m revision
        | Inr Wait \<Rightarrow> (\<lambda>st1. (Inr (), st1))
        | Inr (Cancel reason) \<Rightarrow>
            try_bind (wk_transition ui m Cancelled (Some reason)) (\<lambda>_. try_return ())
        | Inl _ \<Rightarrow> try_bind (wk_transition ui m Cancelled
            (Some ''target or local control is no longer available'')) (\<lambda>_. try_return ())) st1)"
    by (rule ext) (simp split: prod.split option.split sum.split readiness.split)
  show ?thesis
    unfolding dispatch_one_def eq
    by (intro triple_bind[OF triple_now] triple_if triple_dispatch_transition
        triple_after[where p = ?P] cont spawn_world) (auto simp: state_advance_def)
qed

text \<open>The messages still to visit are known, in order, and cover what is queued for the agents
  not seen yet.\<close>

definition queue_covers :: "string \<Rightarrow> db_row list \<Rightarrow> message list \<Rightarrow> string set \<Rightarrow> bool" where
  "queue_covers inst rows0 ms seen \<longleftrightarrow> sorted_wrt (<) (map msg_sequence ms)
     \<and> (\<forall>m \<in> set ms. known rows0 m \<and> msg_instance_id m = inst)
     \<and> (\<forall>r \<in> set rows0. row_state r = Queued \<longrightarrow> msg_instance_id (row_body r) = inst
          \<longrightarrow> sp_agent_id (msg_params (row_body r)) \<in> seen
            \<or> (\<exists>m \<in> set ms. msg_sequence m = row_sequence r))"

lemma covers_tail:
  assumes "table_ok rows0" "queue_covers inst rows0 (m # ms) seen"
  shows "queue_covers inst rows0 ms (insert (sp_agent_id (msg_params m)) seen)"
proof -
  obtain q where q: "q \<in> set rows0" "msg_static (row_message q) = msg_static m"
    using assms(2) by (auto simp: queue_covers_def known_def)
  have "sp_agent_id (msg_params (row_body r)) = sp_agent_id (msg_params m)"
    if "r \<in> set rows0" "msg_sequence m = row_sequence r" for r
    using table_ok_sequence[OF assms(1) q(1) that(1)] msg_static_eqD[OF q(2)] that by simp
  then show ?thesis using assms(2) unfolding queue_covers_def by auto
qed

lemma covers_claimable:
  assumes "queue_covers inst rows0 (m # ms) seen" "advances rows0 rows"
    "sp_agent_id (msg_params m) \<notin> seen" "msg_state m = Queued"
  shows "claimable m rows"
proof -
  have "msg_sequence m \<le> row_sequence r"
    if r: "r \<in> set rows" "row_state r = Queued" "msg_target (row_message r) = msg_target m" for r
  proof -
    obtain r0 where r0: "r0 \<in> set rows0" "moved r0 r" using advances_backward[OF assms(2) r(1)] by blast
    have "row_state r0 = Queued" using r0(2) r(2) by (simp add: moved_def)
    then have "\<exists>x \<in> set (m # ms). msg_sequence x = row_sequence r"
      using assms(1,3) r0(1) r(3) moved_fields[OF r0(2)]
      unfolding queue_covers_def by (auto simp: msg_target_def)
    then show ?thesis using assms(1) by (auto simp: queue_covers_def)
  qed
  moreover have "known rows m"
    using assms(1,2) known_evolves advances_evolves unfolding queue_covers_def by force
  ultimately show ?thesis using assms(4) by (simp add: claimable_def)
qed

lemma triple_dispatch_loop:
  assumes "table_ok rows0" "queue_covers inst rows0 ms seen"
  shows "triple (wkp (dispatching rows0)) (dispatch_loop ui inst ms seen)
    (\<lambda>_. wkp (dispatching rows0)) (wkp (dispatching rows0))"
  using assms(2)
proof (induction ms arbitrary: seen)
  case (Cons m ms)
  have rest: "triple (wkp (dispatching rows0))
      (dispatch_loop ui inst ms (insert (sp_agent_id (msg_params m)) seen))
      (\<lambda>_. wkp (dispatching rows0)) (wkp (dispatching rows0))"
    using Cons.IH covers_tail[OF assms(1) Cons.prems] by blast
  have one: "triple (wkp (dispatching rows0)) (dispatch_one ui inst m)
      (\<lambda>_. wkp (dispatching rows0)) (wkp (dispatching rows0))"
    if "sp_agent_id (msg_params m) \<notin> seen" "msg_state m = Queued"
    by (rule triple_conseq[OF triple_dispatch_one])
      (use covers_claimable[OF Cons.prems _ that] in \<open>auto simp: wkp_def dispatching_def\<close>)
  show ?case
    unfolding dispatch_loop.simps Let_def
    by (intro triple_if rest triple_bind[OF one rest]) auto
qed auto

lemma covers_start:
  assumes "table_ok rows"
  shows "queue_covers inst rows (filter (\<lambda>m. msg_instance_id m = inst) (pending_rows rows)) {}"
proof -
  let ?rows = "pending_of inst rows"
  have ms: "filter (\<lambda>m. msg_instance_id m = inst) (pending_rows rows) = map row_message ?rows"
    by (rule pending_own(1)[OF assms])
  have "sorted_wrt (<) (map msg_sequence (map row_message ?rows))"
    using assms by (simp add: table_ok_def pending_of_def o_def sorted_wrt_map sorted_wrt_filter)
  then show ?thesis
    unfolding queue_covers_def ms by (auto simp: pending_of_def known_def is_pending_def)
qed

lemma triple_dispatch_pending:
  "triple (wkp (\<lambda>rows l log. delivery_inv rows l log \<and> rows = rows0)) (dispatch_pending ui inst)
    (\<lambda>_. wkp (dispatching rows0)) (wkp (dispatching rows0))"
proof (cases "table_ok rows0")
  case True
  let ?P = "\<lambda>rows l log. delivery_inv rows l log \<and> rows = rows0"
  have pend: "triple (wkp ?P) (on_journal journal_pending)
      (\<lambda>ms s. ms = pending_rows rows0 \<and> wkp (dispatching rows0) s) (wkp (dispatching rows0))"
    by (rule triple_conseq[OF triple_on_journal[where p = ?P and e = ?P and
          q = "\<lambda>x rows l log. ?P rows l log \<and> x = pending_rows rows", OF triple_pending]])
      (auto simp: wkp_def dispatching_def)
  show ?thesis
    unfolding dispatch_pending_def
    by (intro triple_bind[OF pend] triple_pure) (simp add: triple_dispatch_loop[OF True covers_start[OF True]])
next
  case False
  then have "\<not> wkp (\<lambda>rows l log. delivery_inv rows l log \<and> rows = rows0) st" for st :: "'a worker"
    by (auto simp: wkp_def delivery_inv_def)
  then show ?thesis by (simp add: triple_def)
qed

section \<open>Operations and commands\<close>

definition serving :: "db_row list \<Rightarrow> db_row list \<Rightarrow> int \<Rightarrow> sent list \<Rightarrow> bool" where
  "serving rows0 rows l log \<longleftrightarrow> delivery_inv rows l log \<and> evolves rows0 rows"

lemma triple_serving:
  assumes "\<And>rows1. evolves rows0 rows1 \<Longrightarrow>
    triple (wkp (\<lambda>rows l log. delivery_inv rows l log \<and> rows = rows1)) f Q E"
  shows "triple (wkp (serving rows0)) f Q E"
  unfolding triple_def
proof (intro allI impI)
  fix st :: "'a worker" assume st: "wkp (serving rows0) st"
  then show "case f st of (Inr x, s') \<Rightarrow> Q x s' | (Inl e, s') \<Rightarrow> E s'"
    using assms[of "table (wk_journal st)"] by (simp add: triple_def wkp_def serving_def)
qed

lemma triple_serve_dispatch:
  "triple (wkp (serving rows0)) (dispatch_pending ui inst) (\<lambda>_. wkp (serving rows0)) (wkp (serving rows0))"
  by (rule triple_serving, rule triple_conseq[OF triple_dispatch_pending])
    (auto simp: wkp_def serving_def dispatching_def intro: evolves_trans advances_evolves)

lemma triple_serve_insert:
  "triple (wkp (serving rows0)) (on_journal (journal_insert m)) (\<lambda>_. wkp (serving rows0)) (wkp (serving rows0))"
  by (rule triple_on_journal, rule triple_conseq[OF triple_insert[where p = "\<lambda>rows l. serving rows0 rows l log" for log]])
    (auto simp: tbl_def serving_def intro: inserts_inv evolves_trans inserts_evolves)

lemma triple_serve_read:
  assumes "\<And>p. triple (tbl p) f (\<lambda>x. tbl (\<lambda>rows l. p rows l \<and> q x rows)) (tbl p)"
  shows "triple (wkp (serving rows0)) (on_journal f)
    (\<lambda>x. wkp (\<lambda>rows l log. serving rows0 rows l log \<and> q x rows)) (wkp (serving rows0))"
  by (rule triple_on_journal) (rule assms)

lemma triple_serve_get:
  "triple (wkp (serving rows0)) (on_journal (journal_get rid))
    (\<lambda>found. wkp (\<lambda>rows l log. serving rows0 rows l log \<and> (\<forall>m. found = Some m \<longrightarrow> known rows m)))
    (wkp (serving rows0))"
  by (rule triple_conseq[OF triple_serve_read[where q = "\<lambda>x rows. x = map_option row_message
        (find (\<lambda>r. row_request_id r = rid) rows)", OF triple_get]])
    (auto simp: wkp_def known_def find_Some_iff)

lemma triple_serve_transition:
  assumes "state_advance (msg_state m) s" "msg_state m \<noteq> s"
  shows "triple (wkp (\<lambda>rows l log. serving rows0 rows l log \<and> known rows m)) (wk_transition ui m s reason)
    (\<lambda>_. wkp (serving rows0)) (wkp (serving rows0))"
proof (rule triple_conseq[OF triple_wk_transition[where
        p = "\<lambda>rows l log. serving rows0 rows l log \<and> known rows m"]])
  have "serving rows0 (update_rows m s reason now rows) l log"
    if "serving rows0 rows l log" "known rows m" for rows l log now
    using inv_update[OF _ that(2) assms] that(1) unfolding serving_def
    by (meson advances_evolves evolves_trans)
  then show "wkp (\<lambda>rows' l log. \<exists>rows now. (serving rows0 rows l log \<and> known rows m)
      \<and> rows' = update_rows m s reason now rows \<and> x = transition_result m s reason now rows) st
      \<Longrightarrow> wkp (serving rows0) st" for x and st :: "'a worker"
    by (auto simp: wkp_def)
qed (auto simp: wkp_def)

lemma triple_weaken:
  "triple (wkp (serving rows0)) f Q E \<Longrightarrow> triple (wkp (\<lambda>rows l log. serving rows0 rows l log \<and> q rows)) f Q E"
  by (erule triple_conseq) (auto simp: wkp_def)

lemmas triple_serve_rules = triple_return triple_throw triple_option triple_if triple_discard

lemma triple_handle_cancel:
  "triple (wkp (serving rows0)) (handle_cancel ui rid) (\<lambda>_. wkp (serving rows0)) (wkp (serving rows0))"
  unfolding handle_cancel_def
proof (rule triple_bind[OF triple_serve_get], rule triple_option)
  fix found and m :: message assume found: "found = Some m"
  let ?P = "wkp (\<lambda>rows l log. serving rows0 rows l log \<and> (\<forall>m. found = Some m \<longrightarrow> known rows m))"
  have tr: "triple ?P (wk_transition ui m Cancelled reason) (\<lambda>_. wkp (serving rows0)) (wkp (serving rows0))"
    if "msg_state m = Queued" for reason
    by (rule triple_conseq[OF triple_serve_transition[of m Cancelled]])
      (use that found in \<open>auto simp: state_advance_def wkp_def\<close>)
  show "triple ?P (if msg_state m = Cancelled then try_return (Receipt (message_receipt m False))
       else if msg_state m \<noteq> Queued
       then try_throw (control_error_new InvalidRequest
         ''only queued messages can be cancelled; dispatched messages cannot be retracted'')
       else try_bind (wk_transition ui m Cancelled (Some ''cancelled by caller'')) (\<lambda>changed.
         case changed of Some x \<Rightarrow> try_return (Receipt (message_receipt x False))
         | None \<Rightarrow> try_throw (control_error_new StaleTarget
             ''message changed before cancellation; inspect it again'')))
     (\<lambda>_. wkp (serving rows0)) (wkp (serving rows0))"
    by (intro triple_if triple_return triple_throw triple_bind[OF tr] triple_option) (auto simp: wkp_def)
qed (auto simp: wkp_def)

lemma triple_handle_finished:
  "triple (wkp (serving rows0)) (handle_finished ui rid submitted)
    (\<lambda>_. wkp (serving rows0)) (wkp (serving rows0))"
  unfolding handle_finished_def
proof (rule triple_bind[OF triple_serve_get], rule triple_option)
  fix found and m :: message assume found: "found = Some m"
  let ?P = "wkp (\<lambda>rows l log. serving rows0 rows l log \<and> (\<forall>m. found = Some m \<longrightarrow> known rows m))"
  have "triple ?P (wk_transition ui m s reason) (\<lambda>_. wkp (serving rows0)) (wkp (serving rows0))"
    if "msg_state m = Dispatching" "s \<in> {Submitted, Delivery_Unknown}" for s reason
    by (rule triple_conseq[OF triple_serve_transition[of m s]])
      (use that found in \<open>auto simp: state_advance_def wkp_def\<close>)
  then show "triple ?P (if msg_state m = Dispatching
       then try_bind (wk_transition ui m (if submitted then Submitted else Delivery_Unknown)
           (if submitted then None else Some (''submission could not be confirmed; inspect ''
              @ ''the transcript before sending again''))) (\<lambda>_. try_return ())
       else try_return ()) (\<lambda>_. wkp (serving rows0)) (wkp (serving rows0))"
    by (intro triple_if triple_return triple_discard) (auto simp: wkp_def)
qed (auto simp: wkp_def)

lemma triple_handle_send:
  fixes ui :: "'w ui"
  shows "triple (wkp (serving rows0)) (handle_send ui inst p) (\<lambda>_. wkp (serving rows0)) (wkp (serving rows0))"
proof -
  let ?S = "wkp (serving rows0) :: 'w worker \<Rightarrow> bool"
  have existing: "triple ?S (on_journal (journal_existing p)) (\<lambda>_. ?S) ?S"
    by (rule triple_conseq[OF triple_serve_read[where q = "\<lambda>_ _. True"]])
      (auto simp: wkp_def intro: triple_conseq[OF triple_existing] simp: tbl_def)
  have get: "triple ?S (on_journal (journal_get rid)) (\<lambda>_. ?S) ?S" for rid
    by (rule triple_conseq[OF triple_serve_get]) (auto simp: wkp_def)
  have guard: "triple ?S (\<lambda>st. case spawn_ui ui (on_world (send_guard ui inst p)) st of
         (None, st1) \<Rightarrow> (Inl unavailable, st1) | (Some r, st1) \<Rightarrow> (r, st1)) (\<lambda>_. ?S) ?S"
    using spawn_world[where p = "serving rows0" and f = "send_guard ui inst p" and ui = ui]
    by (fastforce simp: triple_def split: prod.splits option.splits sum.splits)
  have ins: "triple ?S (\<lambda>st. on_journal (journal_insert
         (message_new (ui_processes ui (wk_world st)) (ui_process_id ui) p inst g now)) st) (\<lambda>_. ?S) ?S"
    for g now unfolding triple_def
    using triple_serve_insert[where ?'a = 'w, of rows0] by (simp add: triple_def)
  show ?thesis
    unfolding handle_send_def
    by (intro triple_bind[OF existing] triple_option triple_return triple_throw triple_bind[OF guard]
        triple_bind[OF triple_now] triple_bind[OF ins] triple_bind[OF triple_serve_dispatch]
        triple_bind[OF get])
qed

lemma triple_handle:
  fixes ui :: "'w ui"
  shows "triple (wkp (serving rows0)) (handle_operation ui inst op) (\<lambda>_. wkp (serving rows0)) (wkp (serving rows0))"
proof -
  let ?S = "wkp (serving rows0) :: 'w worker \<Rightarrow> bool"
  have get: "triple ?S (on_journal (journal_get rid)) (\<lambda>_. ?S) ?S" for rid
    by (rule triple_conseq[OF triple_serve_get]) (auto simp: wkp_def)
  have query: "triple (tbl p) (db_query q) (\<lambda>_. tbl p) (tbl p)" for p and q :: "db_row list \<Rightarrow> message list"
    by (rule triple_conseq[OF triple_db_query[where p = p]]) (auto simp: tbl_def)
  have list: "triple (tbl p) (journal_list lp) (\<lambda>_. tbl p) (tbl p)" for p lp
    unfolding journal_list_def Let_def
    by (intro triple_if triple_throw triple_return triple_bind[OF query])
  have list': "triple ?S (on_journal (journal_list lp)) (\<lambda>_. ?S) ?S" for lp
    by (rule triple_on_journal) (rule list)
  show ?thesis
    unfolding handle_operation_def handle_inspect_def
    by (cases op; simp only: operation.case)
      (intro triple_handle_send triple_handle_cancel triple_bind[OF get] triple_option
        triple_return triple_throw triple_bind[OF list']; assumption)+
qed

lemma wk_maintain_eq:
  "ui_now ui (wk_world st) = (t, w) \<Longrightarrow> wk_maintain ui st =
     on_journal (journal_maintain t (owner_is_alive (ui_processes ui w))) (st\<lparr>wk_world := w\<rparr>)"
  by (simp add: wk_maintain_def try_bind_def wk_now_def on_world_def)

lemma settled_moved: "settled alive t r \<Longrightarrow> moved r r' \<Longrightarrow> settled alive t r'"
  using moved_fields[of r r'] moved_pending[of r r'] by (auto simp: settled_def moved_def)

lemma retires_evolves: "retires t rows0 rows \<Longrightarrow> evolves rows rows' \<Longrightarrow> retires t rows0 rows'"
  unfolding retires_def evolves_def by (meson moved_trans)

lemma advances_retires: "advances rows rows' \<Longrightarrow> retires t rows rows'"
  unfolding retires_def using advances_forward by blast

text \<open>A message that was in the table before maintenance is settled in every later table.\<close>

lemma settled_after:
  assumes "retires t rows0 rows1" "\<forall>r \<in> set rows1. settled alive t r" "evolves rows1 rows2" "table_ok rows2"
    "r \<in> set rows0" "r2 \<in> set rows2" "row_sequence r2 = row_sequence r" "moved r r2"
  shows "settled alive t r2"
proof (cases "\<exists>r1 \<in> set rows1. moved r r1")
  case True
  then obtain r1 where r1: "r1 \<in> set rows1" "moved r r1" by blast
  then obtain q where q: "q \<in> set rows2" "moved r1 q" using assms(3) by (auto simp: evolves_def)
  then have "row_sequence q = row_sequence r2"
    using moved_fields(1)[OF r1(2)] moved_fields(1)[OF q(2)] assms(7) by simp
  then have "q = r2" using table_ok_sequence[OF assms(4) q(1) assms(6)] by simp
  then show ?thesis using settled_moved q(2) r1(1) assms(2) by blast
next
  case False
  then have "\<not> is_pending (row_state r)" using assms(1,5) by (auto simp: retires_def)
  then show ?thesis using assms(8) moved_pending by (auto simp: settled_def)
qed

text \<open>What one command does to the messages that were in the table when it arrived.\<close>

lemma worker_command_effect:
  fixes ui :: "'w ui"
  assumes inv: "wkp delivery_inv st" and now: "ui_now ui (wk_world st) = (t, w)"
    and cmd: "worker_command ui inst cmd st = (reply, st')"
  shows "wkp delivery_inv st'" "retires t (table (wk_journal st)) (table (wk_journal st'))"
    "is_ok (fst (wk_maintain ui st)) \<Longrightarrow> \<exists>rows1. retires t (table (wk_journal st)) rows1
       \<and> (\<forall>r \<in> set rows1. settled (owner_is_alive (ui_processes ui w)) t r)
       \<and> evolves rows1 (table (wk_journal st'))"
proof -
  let ?rows0 = "table (wk_journal st)" and ?alive = "owner_is_alive (ui_processes ui w)"
  obtain mt st1 where m: "wk_maintain ui st = (mt, st1)" by fastforce
  let ?rows1 = "table (wk_journal st1)"
  have maint: "triple (wkp (\<lambda>rows l log. rows = ?rows0 \<and> delivery_inv rows l log))
     (on_journal (journal_maintain t ?alive))
     (\<lambda>_. wkp (\<lambda>rows l log. delivery_inv rows l log \<and> retires t ?rows0 rows \<and> (\<forall>r \<in> set rows. settled ?alive t r)))
     (wkp (\<lambda>rows l log. delivery_inv rows l log \<and> advances ?rows0 rows) :: 'w worker \<Rightarrow> bool)"
    by (rule triple_on_journal) (rule triple_maintain)
  have pre: "wkp (\<lambda>rows l log. rows = ?rows0 \<and> delivery_inv rows l log) (st\<lparr>wk_world := w\<rparr>)"
    using inv by (simp add: wkp_def)
  have inv1: "wkp delivery_inv st1" and ret1: "retires t ?rows0 ?rows1"
    and set1: "is_ok mt \<Longrightarrow> \<forall>r \<in> set ?rows1. settled ?alive t r"
    using maint[unfolded triple_def, rule_format, OF pre] m wk_maintain_eq[OF now]
    by (auto simp: wkp_def is_ok_def intro: advances_retires split: sum.splits)
  have serve1: "wkp (serving ?rows1) st1" using inv1 by (simp add: wkp_def serving_def)
  have dispatch: "wkp (serving ?rows1) (snd (dispatch_pending ui inst s))" if "wkp (serving ?rows1) s" for s
    using triple_snd[OF triple_serve_dispatch that] .
  have hand: "wkp (serving ?rows1) (snd (handle_operation ui inst op st1))" for op
    using triple_snd[OF triple_handle serve1] .
  have fin: "wkp (serving ?rows1) (snd (handle_finished ui rid b st1))" for rid b
    using triple_snd[OF triple_handle_finished serve1] .
  have serve: "wkp (serving ?rows1) st'"
    using cmd m serve1 hand fin dispatch unfolding worker_command_def
    by (auto split: command.splits sum.splits prod.splits if_splits simp: is_ok_def) (metis snd_conv)+
  then have ev: "evolves ?rows1 (table (wk_journal st'))" by (simp add: wkp_def serving_def)
  show "wkp delivery_inv st'" using serve by (simp add: wkp_def serving_def)
  show "retires t ?rows0 (table (wk_journal st'))" using retires_evolves[OF ret1 ev] .
  show "\<exists>rows1. retires t ?rows0 rows1 \<and> (\<forall>r \<in> set rows1. settled ?alive t r)
       \<and> evolves rows1 (table (wk_journal st'))" if "is_ok (fst (wk_maintain ui st))"
    using ret1 set1 ev that m by auto
qed

section \<open>Without storage faults\<close>

lemma db_exec_ok [simp]: "faults j = [] \<Longrightarrow> db_exec j = (Inr (), j)"
  by (simp add: db_exec_def)

lemma db_query_ok [simp]: "faults j = [] \<Longrightarrow> db_query q j = (Inr (q (table j)), j)"
  by (simp add: db_query_def try_bind_def)

lemma journal_transition_ok:
  "faults j = [] \<Longrightarrow> journal_transition m s reason now j =
     (Inr (transition_result m s reason now (table j)), j\<lparr>table := update_rows m s reason now (table j)\<rparr>)"
  by (simp add: journal_transition_def try_bind_def transition_result_def)

lemma maintain_loop_ok:
  "faults j = [] \<Longrightarrow> \<exists>j'. maintain_loop alive now ms liveness j = (Inr (), j') \<and> faults j' = []"
  by (induction ms arbitrary: liveness j)
    (auto simp: try_return_def try_bind_def Let_def journal_transition_ok split: option.splits prod.splits)

lemma journal_maintain_ok: "faults j = [] \<Longrightarrow> is_ok (fst (journal_maintain now alive j))"
  using maintain_loop_ok[of j alive now "pending_rows (table j)" Map.empty]
  by (auto simp: journal_maintain_def journal_pending_def try_bind_def is_ok_def)

lemma wk_maintain_ok: "faults (wk_journal st) = [] \<Longrightarrow> is_ok (fst (wk_maintain ui st))"
  by (cases "ui_now ui (wk_world st)")
    (simp add: wk_maintain_eq on_journal_def journal_maintain_ok case_prod_unfold)

section \<open>Shutdown\<close>

definition closing :: "string \<Rightarrow> db_row list \<Rightarrow> message list \<Rightarrow> db_row list \<Rightarrow> int \<Rightarrow> sent list \<Rightarrow> bool" where
  "closing inst rows0 ms rows l log \<longleftrightarrow> dispatching rows0 rows l log
     \<and> (\<forall>m \<in> set ms. known rows m \<and> is_pending (msg_state m))"

lemma shutdown_advance:
  "is_pending (msg_state m) \<Longrightarrow> state_advance (msg_state m) (shutdown_state m) \<and> msg_state m \<noteq> shutdown_state m
     \<and> \<not> is_pending (shutdown_state m)"
  by (auto simp: shutdown_state_def is_pending_def state_advance_def)

lemma closing_update:
  assumes "closing inst rows0 (m # ms) rows l log"
  shows "closing inst rows0 ms (update_rows m (shutdown_state m) reason now rows) l log"
proof -
  have m: "known rows m" "is_pending (msg_state m)" and disp: "dispatching rows0 rows l log"
    using assms by (auto simp: closing_def)
  have "advances rows (update_rows m (shutdown_state m) reason now rows)"
    using inv_update(2)[OF _ m(1)] shutdown_advance[OF m(2)] disp by (auto simp: dispatching_def)
  then have "known (update_rows m (shutdown_state m) reason now rows) x" if "known rows x" for x
    using that known_evolves advances_evolves by blast
  then show ?thesis
    using assms dispatching_update[OF disp m(1)] shutdown_advance[OF m(2)] by (auto simp: closing_def)
qed

lemma shutdown_loop_keeps:
  "wkp (closing inst rows0 ms) st \<Longrightarrow> wkp (dispatching rows0) (shutdown_loop ui ms st)"
proof (induction ms arbitrary: st)
  case (Cons m ms)
  have "triple (wkp (closing inst rows0 (m # ms))) (wk_transition ui m (shutdown_state m) reason)
      (\<lambda>_. wkp (closing inst rows0 ms)) (wkp (closing inst rows0 ms))" for reason
    by (rule triple_conseq[OF triple_wk_transition[where p = "closing inst rows0 (m # ms)"]])
      (use closing_update in \<open>auto simp: wkp_def\<close>, auto simp: closing_def)
  from triple_snd[OF this Cons.prems] Cons.IH show ?case by simp
qed (simp add: wkp_def closing_def)

lemma worker_shutdown_keeps:
  assumes "wkp delivery_inv st"
  shows "wkp (dispatching (table (wk_journal st))) (worker_shutdown ui inst st)"
proof -
  let ?rows = "table (wk_journal st)"
  have tab: "table_ok ?rows" and inv: "wkp (dispatching ?rows) st"
    using assms by (simp_all add: wkp_def delivery_inv_def dispatching_def)
  obtain r j where j: "journal_pending (wk_journal st) = (r, j)" by fastforce
  have core: "table j = ?rows" "last_sequence j = last_sequence (wk_journal st)"
    and r: "\<And>ms. r = Inr ms \<Longrightarrow> ms = pending_rows ?rows"
    using j by (auto simp: journal_pending_def db_query_def try_bind_def db_exec_def
        split: list.splits sum.splits prod.splits if_splits)
  have "closing inst ?rows (filter (\<lambda>m. msg_instance_id m = inst) (pending_rows ?rows)) ?rows l log"
    if "dispatching ?rows ?rows l log" for l log
    using that tab by (auto simp: closing_def pending_rows_ok[OF tab] known_def table_ok_def db_row_ok_def)
  then have "wkp (closing inst ?rows (filter (\<lambda>m. msg_instance_id m = inst) (pending_rows ?rows)))
      (st\<lparr>wk_journal := j\<rparr>)"
    using inv core by (simp add: wkp_def)
  from shutdown_loop_keeps[OF this] show ?thesis
    using j r inv core by (auto simp: worker_shutdown_def on_journal_def wkp_def split: sum.splits)
qed

text \<open>Without faults nothing of the instance stays pending.\<close>

lemma shutdown_loop_ends:
  assumes "faults (wk_journal st) = []" "wkp (closing inst rows0 ms) st"
    "\<forall>r \<in> set (pending_of inst (table (wk_journal st))). row_message r \<in> set ms"
  shows "pending_of inst (table (wk_journal (shutdown_loop ui ms st))) = []"
  using assms
proof (induction ms arbitrary: st)
  case Nil
  then show ?case by (auto simp: wkp_def closing_def)
next
  case (Cons m ms)
  obtain t w where now: "ui_now ui (wk_world st) = (t, w)" by fastforce
  let ?reason = "Some ''local-control instance ended''"
  let ?rows = "table (wk_journal st)" and ?rows' = "update_rows m (shutdown_state m) ?reason t (table (wk_journal st))"
  let ?st = "snd (wk_transition ui m (shutdown_state m) ?reason st)"
  have st: "wk_journal ?st = (wk_journal st)\<lparr>table := ?rows'\<rparr>" "wk_sent ?st = wk_sent st"
    using Cons.prems(1) now
    by (simp_all add: wk_transition_def try_bind_def wk_now_def on_world_def on_journal_def journal_transition_ok)
  have tab: "table_ok ?rows" and pend: "is_pending (msg_state m)"
    using Cons.prems(2) by (auto simp: wkp_def closing_def dispatching_def delivery_inv_def)
  have "row_message r \<in> set ms" if r: "r \<in> set (pending_of inst ?rows')" for r
  proof -
    have "r \<in> set ?rows'" "is_pending (row_state r)" using r by (simp_all add: pending_of_def)
    then have "r \<in> set ?rows" "\<not> row_hit m r"
      using shutdown_advance[OF pend] by (auto simp: update_rows_def split: if_splits)
    moreover have "row_hit m r" if "row_message r = m"
      using that tab \<open>r \<in> set ?rows\<close> by (auto simp: row_hit_def table_ok_def db_row_ok_def)
    ultimately show ?thesis using Cons.prems(3) r by (auto simp: pending_of_def)
  qed
  moreover have "wkp (closing inst rows0 ms) ?st"
    using Cons.prems(2) closing_update st by (simp add: wkp_def)
  ultimately show ?case using Cons.IH[of ?st] Cons.prems(1) st by simp
qed

lemma worker_shutdown_ends:
  assumes "wkp delivery_inv st" "faults (wk_journal st) = []"
  shows "pending_of inst (table (wk_journal (worker_shutdown ui inst st))) = []"
proof -
  let ?rows = "table (wk_journal st)"
  have tab: "table_ok ?rows" using assms(1) by (simp add: wkp_def delivery_inv_def)
  have "worker_shutdown ui inst st =
      shutdown_loop ui (filter (\<lambda>m. msg_instance_id m = inst) (pending_rows ?rows)) st"
    using assms(2) by (simp add: worker_shutdown_def on_journal_def journal_pending_def)
  moreover have "wkp (closing inst ?rows (filter (\<lambda>m. msg_instance_id m = inst) (pending_rows ?rows))) st"
    using assms(1) tab by (auto simp: wkp_def closing_def dispatching_def pending_rows_ok[OF tab]
        known_def table_ok_def db_row_ok_def)
  ultimately show ?thesis
    by (simp add: shutdown_loop_ends[OF assms(2)] pending_own(1)[OF tab, of inst])
qed

end
