(* ===== verification/Delivery_Properties.thy ===== *)
theory Delivery_Properties
  imports Delivery_Correct
begin

text \<open>
  The properties of agent delivery.  Several application instances share one journal; each
  runs a worker.  The states they can reach together are those of \<open>delivery_reach\<close>: any
  worker takes any command or shuts down, and between two such steps the world and the
  faults to come are anything at all.
\<close>

section \<open>Reachable states\<close>

inductive delivery_reach :: "'w worker \<Rightarrow> bool" where
  start: "delivery_reach \<lparr>wk_journal = journal_empty fs, wk_world = w, wk_sent = []\<rparr>"
| environment: "delivery_reach st \<Longrightarrow>
    delivery_reach (st\<lparr>wk_journal := (wk_journal st)\<lparr>faults := fs\<rparr>, wk_world := w\<rparr>)"
| command: "delivery_reach st \<Longrightarrow> worker_command ui inst cmd st = (reply, st') \<Longrightarrow> delivery_reach st'"
| shutdown: "delivery_reach st \<Longrightarrow> delivery_reach (worker_shutdown ui inst st)"

lemma delivery_reach_inv: "delivery_reach st \<Longrightarrow> wkp delivery_inv st"
proof (induction rule: delivery_reach.induct)
  case (start fs w)
  show ?case
    by (simp add: wkp_def journal_empty_def delivery_inv_def table_ok_def seqs_ok_def limits_ok_def
        pending_of_def target_of_def sent_ok_def sent_seqs_def sent_to_def)
next
  case (environment st fs w)
  then show ?case by (simp add: wkp_def)
next
  case (command st ui inst cmd reply st')
  then show ?case using worker_command_effect(1) by (metis prod.exhaust)
next
  case (shutdown st ui inst)
  then show ?case using worker_shutdown_keeps[OF shutdown.IH, of ui inst]
    by (simp add: wkp_def dispatching_def)
qed

lemma delivery_reach_parts:
  assumes "delivery_reach st"
  shows "table_ok (table (wk_journal st))" "limits_ok (table (wk_journal st))"
    "seqs_ok (table (wk_journal st)) (last_sequence (wk_journal st))"
    "sent_ok (table (wk_journal st)) (last_sequence (wk_journal st)) (wk_sent st)"
  using delivery_reach_inv[OF assms] by (simp_all add: wkp_def delivery_inv_def)

section \<open>A small application\<close>

text \<open>An application with one agent whose terminal is ready; the world counts the seconds.\<close>

definition demo_ui :: "int ui" where
  "demo_ui = \<lparr>ui_now = (\<lambda>w. (w, w + 1)), ui_processes = (\<lambda>w pid. if pid = 7 then Some 5 else None),
     ui_process_id = 7, ui_spawn = (\<lambda>w. (True, w)), ui_instance_id = (\<lambda>w. Some ''app''),
     ui_ensure_feature_enabled = (\<lambda>w. Inr ()), ui_ensure_action_allowed = (\<lambda>w. Inr ()),
     ui_resolve = (\<lambda>w i a. if a = ''agent'' then Inr 3 else Inl unavailable),
     ui_agent_readiness = (\<lambda>w t. (''rev'', if w < 1000 then None else Some ''working'')),
     ui_draft_source = (\<lambda>w t. None), ui_queue_guard = (\<lambda>w t. ''guard''),
     ui_start_deferred_agent = (\<lambda>t w. w), ui_send_agent_text = (\<lambda>t text rev w. (True, w))\<rparr>"

definition demo_params :: "string \<Rightarrow> send_params" where
  "demo_params rid = \<lparr>sp_agent_id = ''agent'', sp_text = [72, 105], sp_expected_revision = ''rev'',
     sp_request_id = rid, sp_queue = True, sp_expires_in = 60, sp_sender_id = Some ''me''\<rparr>"

definition demo_start :: "int \<Rightarrow> int worker" where
  "demo_start w = \<lparr>wk_journal = journal_empty [], wk_world = w, wk_sent = []\<rparr>"

definition demo_sent :: "int worker" where
  "demo_sent = snd (worker_command demo_ui ''app'' (Request (Op_Send (demo_params ''r1''))) (demo_start 100))"

definition demo_queued :: "int worker" where
  "demo_queued = snd (worker_command demo_ui ''app'' (Request (Op_Send (demo_params ''r1''))) (demo_start 2000))"

lemma demo_reach: "delivery_reach demo_sent" "delivery_reach demo_queued"
  unfolding demo_sent_def demo_queued_def
  using delivery_reach.command[OF delivery_reach.start[of "[]"]] unfolding demo_start_def
  by (metis prod.collapse)+


section \<open>Limits and uniqueness\<close>

text \<open>C11: In every reachable state of the journal the request ids are distinct, at most 10000 receipts
  are kept, an application instance has at most 100 messages pending, a target at most 10, and all
  messages pending for one target come from one sender.  (\<open>insert_inner\<close>, whose checks and insertion are
  one transaction.)\<close>

theorem delivery_limits:
  assumes "delivery_reach st"
  defines "rows \<equiv> table (wk_journal st)"
  defines "own \<equiv> \<lambda>i. filter (\<lambda>m. msg_instance_id m = i) (pending_rows rows)"
  defines "target \<equiv> \<lambda>i a. filter (\<lambda>m. sp_agent_id (msg_params m) = a) (own i)"
  shows "distinct (map row_request_id rows) \<and> length rows \<le> 10000
    \<and> (\<forall>i. length (own i) \<le> 100) \<and> (\<forall>i a. length (target i a) \<le> 10)
    \<and> (\<forall>i a. \<forall>m \<in> set (target i a). \<forall>m' \<in> set (target i a).
         sp_sender_id (msg_params m) = sp_sender_id (msg_params m'))"
proof -
  note parts = delivery_reach_parts[OF assms(1), folded rows_def]
  have eq: "own i = map row_message (pending_of i rows)"
    "target i a = map row_message (target_of i a rows)" for i a
    unfolding own_def target_def by (simp_all add: pending_own[OF parts(1)])
  have "sp_sender_id (msg_params m) = sp_sender_id (msg_params m')"
    if m: "m \<in> set (target i a)" "m' \<in> set (target i a)" for i a m m'
  proof -
    obtain r r' where r: "r \<in> set (target_of i a rows)" "r' \<in> set (target_of i a rows)"
      "m = row_message r" "m' = row_message r'" using m unfolding eq set_map by blast
    show ?thesis using limits_okD(4)[OF parts(2) r(1,2)] by (simp add: r(3,4) row_sender_def)
  qed
  moreover have "distinct (map row_request_id rows)" using parts(1) by (simp add: table_ok_def)
  moreover have "length rows \<le> 10000" using limits_okD(1)[OF parts(2)] by (simp add: MAX_RECEIPTS_def)
  moreover have "length (own i) \<le> 100" for i
    using limits_okD(2)[OF parts(2), of i] by (simp add: eq MAX_PENDING_def)
  moreover have "length (target i a) \<le> 10" for i a
    using limits_okD(3)[OF parts(2), of i a] by (simp add: eq MAX_PER_TARGET_def)
  ultimately show ?thesis by blast
qed

theorem delivery_limits_witness:
  "delivery_reach demo_queued \<and> length (pending_rows (table (wk_journal demo_queued))) = 1
   \<and> length (filter (\<lambda>m. msg_instance_id m = ''app'') (pending_rows (table (wk_journal demo_queued)))) \<le> 100"
proof -
  have "length (pending_rows (table (wk_journal demo_queued))) = 1" by code_simp
  then show ?thesis using delivery_limits[OF demo_reach(2)] demo_reach(2) by blast
qed

section \<open>At most once, in order\<close>

text \<open>C10: Whatever the workers do, in whatever order, with storage failing at any statement: no
  journaled message is handed to a terminal twice; the messages of one target are handed over in
  the order of their sequence numbers; and a message that was handed over is not queued any more, so that
  it was claimed in the journal before.  (\<open>dispatch_pending\<close>: the claim, then the write.)\<close>

theorem delivery_once_in_order:
  assumes "delivery_reach st"
  shows "distinct (sent_seqs (wk_sent st))
    \<and> (\<forall>tgt. sorted_wrt (<) (sent_seqs (sent_to tgt (wk_sent st))))
    \<and> (\<forall>m \<in> set (pending_rows (table (wk_journal st))).
         msg_sequence m \<in> set (sent_seqs (wk_sent st)) \<longrightarrow> msg_state m = Dispatching)"
proof -
  note parts = delivery_reach_parts[OF assms]
  have "msg_state m = Dispatching" if "m \<in> set (pending_rows (table (wk_journal st)))"
    "msg_sequence m \<in> set (sent_seqs (wk_sent st))" for m
    using that parts(1,4)
    by (auto simp: pending_rows_ok[OF parts(1)] sent_ok_def table_ok_def db_row_ok_def is_pending_def)
  then show ?thesis using parts(4) unfolding sent_ok_def by blast
qed

theorem delivery_once_in_order_witness:
  "delivery_reach demo_sent \<and> sent_seqs (wk_sent demo_sent) = [1] \<and> distinct (sent_seqs (wk_sent demo_sent))
   \<and> map msg_state (pending_rows (table (wk_journal demo_sent))) = [Dispatching]"
proof -
  have 1: "sent_seqs (wk_sent demo_sent) = [1]" by code_simp
  have 2: "map msg_sequence (pending_rows (table (wk_journal demo_sent))) = [1]" by code_simp
  obtain m where m: "pending_rows (table (wk_journal demo_sent)) = [m]" "msg_sequence m = 1"
    using 2 by (auto simp: map_eq_Cons_conv)
  have "msg_state m = Dispatching" "distinct (sent_seqs (wk_sent demo_sent))"
    using delivery_once_in_order[OF demo_reach(1)] m 1 by auto
  then show ?thesis using m(1) 1 demo_reach(1) by simp
qed

section \<open>Progress of a message\<close>

text \<open>C12: A command never loses or alters a message.  Every receipt in the table is there afterwards
  with the same content, owner and times, in the same state or a later one (a claimed message is
  not cancelled and does not expire, a finished one does not change); only the receipt of a finished message
  that has not changed for seven days is deleted.\<close>

theorem delivery_states_advance:
  assumes "delivery_reach st" "ui_now ui (wk_world st) = (t, w)"
    "worker_command ui inst cmd st = (reply, st')" "r \<in> set (table (wk_journal st))"
  shows "(\<exists>r' \<in> set (table (wk_journal st')). msg_static (row_message r') = msg_static (row_message r)
      \<and> state_advance (row_state r) (row_state r') \<and> (row_state r' = row_state r \<longrightarrow> r' = r))
    \<or> \<not> is_pending (row_state r) \<and> row_updated_at r < t - RETENTION_SECONDS"
  using worker_command_effect(2)[OF delivery_reach_inv[OF assms(1)] assms(2,3)] assms(4)
  unfolding retires_def moved_def by metis

theorem delivery_states_advance_witness:
  "\<exists>r \<in> set (table (wk_journal demo_queued)). is_pending (row_state r)
     \<and> (\<exists>r' \<in> set (table (wk_journal (snd (worker_command demo_ui ''app'' Tick demo_queued)))).
          msg_static (row_message r') = msg_static (row_message r))"
proof -
  let ?r = "hd (table (wk_journal demo_queued))"
  have "?r \<in> set (table (wk_journal demo_queued)) \<and> is_pending (row_state ?r)"
    by (rule conjI; code_simp)
  then show ?thesis
    using delivery_states_advance[OF demo_reach(2) prod.collapse[symmetric] prod.collapse[symmetric]] by blast
qed

section \<open>No message waits for ever\<close>

text \<open>C13: When storage does not fail, a command leaves no message waiting past its time: after it, a message
  that had expired at the time of the command is not queued, and a message whose owning process is gone
  is not pending at all.  The worker processes a command at least every 250 ms.  (\<open>maintain\<close>.)\<close>

theorem delivery_expiry_and_recovery:
  assumes "delivery_reach st" "faults (wk_journal st) = []" "ui_now ui (wk_world st) = (t, w)"
    "worker_command ui inst cmd st = (reply, st')" "r \<in> set (table (wk_journal st))" "is_pending (row_state r)"
  shows "\<exists>r' \<in> set (table (wk_journal st')). row_sequence r' = row_sequence r
    \<and> (msg_expires_at (row_body r) \<le> t \<longrightarrow> row_state r' \<noteq> Queued)
    \<and> (\<not> owner_is_alive (ui_processes ui w) (msg_owner_pid (row_body r)) (msg_owner_start_time (row_body r))
       \<longrightarrow> \<not> is_pending (row_state r'))"
proof -
  note effect = worker_command_effect[OF delivery_reach_inv[OF assms(1)] assms(3,4)]
  obtain r' where r': "r' \<in> set (table (wk_journal st'))" "moved r r'"
    using effect(2) assms(5,6) by (auto simp: retires_def)
  obtain rows1 where rows1: "retires t (table (wk_journal st)) rows1"
    "\<forall>r \<in> set rows1. settled (owner_is_alive (ui_processes ui w)) t r" "evolves rows1 (table (wk_journal st'))"
    using effect(3) wk_maintain_ok[OF assms(2)] by blast
  have "table_ok (table (wk_journal st'))" using effect(1) by (simp add: wkp_def delivery_inv_def)
  then have "settled (owner_is_alive (ui_processes ui w)) t r'"
    using settled_after[OF rows1 _ assms(5) r'(1) moved_fields(1)[OF r'(2)] r'(2)] by blast
  then show ?thesis
    using r' moved_fields[OF r'(2)] by (intro bexI[OF _ r'(1)]) (auto simp: settled_def is_pending_def)
qed

theorem delivery_expiry_and_recovery_witness:
  "\<exists>r' \<in> set (table (wk_journal (snd (worker_command demo_ui ''app'' Tick (demo_queued\<lparr>wk_world := 3000\<rparr>))))).
     row_sequence r' = 1 \<and> row_state r' \<noteq> Queued"
proof -
  let ?st = "demo_queued\<lparr>wk_journal := (wk_journal demo_queued)\<lparr>faults := []\<rparr>, wk_world := 3000\<rparr>"
  let ?r = "hd (table (wk_journal ?st))"
  have st: "?st = demo_queued\<lparr>wk_world := 3000\<rparr>" "faults (wk_journal ?st) = []" by code_simp+
  have r: "?r \<in> set (table (wk_journal ?st))" "is_pending (row_state ?r)" "row_sequence ?r = 1"
    "msg_expires_at (row_body ?r) \<le> 3000" by code_simp+
  have now: "ui_now demo_ui (wk_world ?st) = (3000, 3001)" by (simp add: demo_ui_def)
  show ?thesis
    using delivery_expiry_and_recovery[OF delivery_reach.environment[OF demo_reach(2)] st(2) now
        prod.collapse[symmetric] r(1,2)] r(3,4) unfolding st(1) by fastforce
qed

text \<open>C14: A worker that shuts down, with storage working, leaves nothing of its instance pending, and every
  message of the journal is still there, as it was or in a later state.  (\<open>run_worker\<close>, after its loop.)\<close>

theorem shutdown_leaves_nothing_pending:
  assumes "delivery_reach st" "faults (wk_journal st) = []"
  shows "filter (\<lambda>m. msg_instance_id m = inst)
      (pending_rows (table (wk_journal (worker_shutdown ui inst st)))) = []
    \<and> advances (table (wk_journal st)) (table (wk_journal (worker_shutdown ui inst st)))"
proof -
  let ?rows = "table (wk_journal (worker_shutdown ui inst st))"
  have inv: "wkp delivery_inv st" by (rule delivery_reach_inv[OF assms(1)])
  have "table_ok ?rows" "advances (table (wk_journal st)) ?rows"
    using worker_shutdown_keeps[OF inv, of ui inst] by (auto simp: wkp_def dispatching_def delivery_inv_def)
  then show ?thesis
    using worker_shutdown_ends[OF inv assms(2), of inst ui] by (simp add: pending_own(1))
qed

theorem shutdown_leaves_nothing_pending_witness:
  "pending_rows (table (wk_journal demo_queued)) \<noteq> []
   \<and> filter (\<lambda>m. msg_instance_id m = ''app'')
       (pending_rows (table (wk_journal (worker_shutdown demo_ui ''app'' demo_queued)))) = []"
proof -
  have "faults (wk_journal demo_queued) = []" by code_simp
  moreover have "pending_rows (table (wk_journal demo_queued)) \<noteq> []" by code_simp
  ultimately show ?thesis using shutdown_leaves_nothing_pending[OF demo_reach(2)] by blast
qed

section \<open>Insertion, cancellation and listing\<close>

text \<open>The branches of an insertion, in the order of the code.\<close>

definition insert_outcome :: "message \<Rightarrow> journal \<Rightarrow> (message, control_error) result \<times> journal" where
  "insert_outcome m j =
    (let own = pending_of (msg_instance_id m) (table j);
         target = target_of (msg_instance_id m) (sp_agent_id (msg_params m)) (table j);
         invalid = (\<lambda>text. (Inl (control_error_new InvalidRequest text), j)) in
     case find (\<lambda>r. row_request_id r = sp_request_id (msg_params m)) (table j) of
       Some r \<Rightarrow> if msg_params (row_body r) = msg_params m then (Inr (row_message r), j)
         else (Inl (control_error_new InvalidParams
                ''request ID already belongs to different content, target, or queue options''), j)
     | None \<Rightarrow>
       if 100 \<le> length own \<or> 10 \<le> length target
       then invalid ''message queue is full (100 pending per app instance, 10 per target)''
       else if \<exists>r \<in> set target. row_sender r \<noteq> sp_sender_id (msg_params m)
       then invalid ''another sender owns this target's pending queue; inspect or cancel it first''
       else if \<not> sp_queue (msg_params m) \<and> target \<noteq> []
       then invalid ''target has pending messages; use --queue with the same sender to preserve order''
       else if 10000 \<le> length (table j)
       then invalid ''delivery journal has reached its 10000-receipt retention limit''
       else (Inr (m\<lparr>msg_sequence := last_sequence j + 1\<rparr>),
         j\<lparr>table := table j @ [db_row_new (last_sequence j + 1) m], last_sequence := last_sequence j + 1\<rparr>))"

lemma find_append_new:
  "find (\<lambda>r. row_request_id r = sp_request_id (msg_params m)) rows = None \<Longrightarrow>
   find (\<lambda>r. row_request_id r = sp_request_id (msg_params m)) (rows @ [db_row_new s m]) = Some (db_row_new s m)"
  by (induction rows) (auto split: if_splits)

lemma journal_insert_outcome:
  assumes "faults j = []" "table_ok (table j)"
  shows "journal_insert m j = insert_outcome m j"
proof (cases "find (\<lambda>r. row_request_id r = sp_request_id (msg_params m)) (table j)")
  case (Some r)
  then show ?thesis
    using assms(1) by (simp add: journal_insert_def insert_inner_def journal_existing_def journal_get_def
        try_defs insert_outcome_def db_rollback_def Let_def)
next
  case None
  then have fresh: "sp_request_id (msg_params m) \<notin> set (map row_request_id (table j))"
    by (auto simp: find_None_iff)
  let ?i = "msg_instance_id m" and ?a = "sp_agent_id (msg_params m)"
  have own: "filter (\<lambda>p. msg_instance_id p = ?i) (pending_rows (table j)) = map row_message (pending_of ?i (table j))"
    and target: "filter (\<lambda>p. sp_agent_id (msg_params p) = ?a) (map row_message (pending_of ?i (table j)))
      = map row_message (target_of ?i ?a (table j))"
    by (rule pending_own[OF assms(2)])+
  have row: "row_message (db_row_new (last_sequence j + 1) m) = m\<lparr>msg_sequence := last_sequence j + 1\<rparr>"
    by (simp add: row_message_def)
  show ?thesis
    unfolding journal_insert_def insert_inner_def journal_existing_def journal_get_def journal_pending_def
      db_insert_def try_defs insert_outcome_def db_rollback_def Let_def
    using assms(1) None fresh find_append_new[OF None, of "last_sequence j + 1"]
    by (simp add: own target row row_sender_def MAX_PENDING_def MAX_PER_TARGET_def MAX_RECEIPTS_def)
qed



text \<open>Sending is idempotent: once an insertion has succeeded, an insertion with the same parameters, whatever
  its guard, owner and time, returns the same receipt and changes nothing; one with the same request id and other
  parameters is refused and changes nothing.\<close>

theorem insert_retry:
  assumes "delivery_reach st" "faults (wk_journal st) = []"
    "journal_insert m (wk_journal st) = (Inr x, j)" "sp_request_id (msg_params m') = sp_request_id (msg_params m)"
  shows "journal_insert m' j = (if msg_params m' = msg_params m then (Inr x, j)
    else (Inl (control_error_new InvalidParams
      ''request ID already belongs to different content, target, or queue options''), j))"
proof -
  let ?j = "wk_journal st" and ?rid = "sp_request_id (msg_params m)"
  note parts = delivery_reach_parts[OF assms(1)]
  have out: "insert_outcome m ?j = (Inr x, j)"
    using journal_insert_outcome[OF assms(2) parts(1)] assms(3) by simp
  have "triple (tbl (\<lambda>rows l. rows = table ?j \<and> l = last_sequence ?j)) (journal_insert m)
      (\<lambda>_. tbl (\<lambda>rows l. delivery_inv rows l (wk_sent st))) (\<lambda>_. True)"
    using delivery_reach_inv[OF assms(1)]
    by (intro triple_conseq[OF triple_insert[where p = "\<lambda>rows l. rows = table ?j \<and> l = last_sequence ?j"]])
      (auto simp: tbl_def wkp_def intro: inserts_inv)
  from tripleD[OF this _ assms(3)] have tab: "table_ok (table j)"
    by (simp add: tbl_def delivery_inv_def)
  obtain r where r: "find (\<lambda>r. row_request_id r = ?rid) (table j) = Some r" "row_message r = x"
      "msg_params (row_body r) = msg_params m" and faults: "faults j = []"
    using out assms(2) find_append_new[of m "table ?j"]
    by (auto simp: insert_outcome_def Let_def row_message_def split: option.splits if_splits)
  show ?thesis
    using journal_insert_outcome[OF faults tab] r assms(4)
    by (simp add: insert_outcome_def Let_def eq_commute[of "msg_params m"])
qed

theorem insert_retry_witness:
  "fst (journal_insert (message_new (\<lambda>_. None) 9 (demo_params ''r1'') ''other'' ''g'' 5) (wk_journal demo_queued))
     = Inr (row_message (hd (table (wk_journal demo_queued))))"
proof -
  let ?m = "message_new (\<lambda>_. None) 7 (demo_params ''r1'') ''app'' ''guard'' 2002"
  let ?x = "row_message (hd (table (wk_journal demo_queued)))"
  have 1: "faults (wk_journal demo_queued) = []" by code_simp
  have 2: "journal_insert ?m (wk_journal demo_queued) = (Inr ?x, wk_journal demo_queued)"
    by code_simp
  have "msg_params (message_new p i q s g n) = q" for p i q s g n by (simp add: message_new_def)
  then show ?thesis using insert_retry[OF demo_reach(2) 1 2] by simp
qed

text \<open>Cancelling answers with the state of the journal: an unknown id is an error; a message already cancelled is
  confirmed; one in any other state but the queue is refused; a queued one becomes cancelled, and the
  reply is its receipt.  Only in the last case does the journal change, and there only in that row.\<close>

theorem cancel_correct:
  assumes "delivery_reach st" "faults (wk_journal st) = []" "ui_now ui (wk_world st) = (t, w)"
  shows "handle_cancel ui rid st =
    (case find (\<lambda>r. row_request_id r = rid) (table (wk_journal st)) of
       None \<Rightarrow> (Inl (control_error_new StaleTarget ''message receipt not found''), st)
     | Some r \<Rightarrow>
       if row_state r = Cancelled then (Inr (Receipt (message_receipt (row_message r) False)), st)
       else if row_state r \<noteq> Queued
       then (Inl (control_error_new InvalidRequest
         ''only queued messages can be cancelled; dispatched messages cannot be retracted''), st)
       else (let m = message_next (row_message r) Cancelled (Some ''cancelled by caller'') t in
         (Inr (Receipt (message_receipt m False)),
          st\<lparr>wk_world := w, wk_journal := (wk_journal st)\<lparr>table :=
            map (\<lambda>q. if q = r then r\<lparr>row_state := Cancelled, row_updated_at := t, row_body := m\<rparr> else q)
              (table (wk_journal st))\<rparr>\<rparr>)))"
proof (cases "find (\<lambda>r. row_request_id r = rid) (table (wk_journal st))")
  case None
  then show ?thesis
    using assms(2) by (simp add: handle_cancel_def try_defs on_journal_def journal_get_def)
next
  case (Some r)
  let ?rows = "table (wk_journal st)"
  have tab: "table_ok ?rows" by (rule delivery_reach_parts(1)[OF assms(1)])
  note r = find_request_message[OF tab Some]
  have state: "msg_state (row_body r) = row_state r" "sp_request_id (msg_params (row_body r)) = row_request_id r"
  proof -
    have "db_row_ok r" using tab r(1) by (simp add: table_ok_def)
    then show "msg_state (row_body r) = row_state r" "sp_request_id (msg_params (row_body r)) = row_request_id r"
      by (simp_all add: db_row_ok_def)
  qed
  have hit: "row_hit (row_message r) q \<longleftrightarrow> q = r" if "q \<in> set ?rows" for q
  proof -
    have "inj_on row_request_id (set ?rows)" using tab by (simp add: table_ok_def distinct_map)
    then have "q = r" if "row_request_id q = row_request_id r"
      using that \<open>q \<in> set ?rows\<close> r(1) by (rule inj_onD)
    then show ?thesis using state by (auto simp: row_hit_def)
  qed
  have "distinct ?rows" using tab by (simp add: table_ok_def distinct_map)
  then have "length (filter (\<lambda>q. q = r) ?rows) = card (set (filter (\<lambda>q. q = r) ?rows))"
    by (simp only: distinct_card distinct_filter)
  also have "set (filter (\<lambda>q. q = r) ?rows) = {r}" using r(1) by auto
  finally have one: "length (filter (row_hit (row_message r)) ?rows) = 1"
    using filter_cong[OF refl hit, of ?rows] by simp
  have upd: "update_rows (row_message r) Cancelled reason t ?rows = map (\<lambda>q. if q = r then r\<lparr>row_state := Cancelled,
      row_updated_at := t, row_body := message_next (row_message r) Cancelled reason t\<rparr> else q) ?rows" for reason
    unfolding update_rows_def using hit by (intro map_cong) auto
  show ?thesis
    using assms(2,3) Some one by (simp add: handle_cancel_def try_defs on_journal_def journal_get_def state
        wk_transition_def wk_now_def on_world_def journal_transition_ok transition_result_def upd Let_def)
qed

theorem cancel_correct_witness:
  "\<exists>r x. row_state (hd (table (wk_journal demo_queued))) = Queued
     \<and> handle_cancel demo_ui ''r1'' demo_queued = (Inr (Receipt r), x)
     \<and> rc_state r = Cancelled"
proof -
  have 1: "faults (wk_journal demo_queued) = []" by code_simp
  have 2: "ui_now demo_ui (wk_world demo_queued) = (wk_world demo_queued, wk_world demo_queued + 1)"
    by (simp add: demo_ui_def)
  have 3: "find (\<lambda>r. row_request_id r = ''r1'') (table (wk_journal demo_queued)) = Some (hd (table (wk_journal demo_queued)))"
    "row_state (hd (table (wk_journal demo_queued))) = Queued" by code_simp+
  show ?thesis
    using cancel_correct[OF demo_reach(2) 1 2, of "''r1''"] 3
    by (simp add: Let_def message_receipt_def message_next_def)
qed

text \<open>The pages of a listing, each starting where the one before ended.\<close>

primrec list_pages ::
  "nat \<Rightarrow> string option \<Rightarrow> int option \<Rightarrow> u32 \<Rightarrow> journal \<Rightarrow> receipt list option" where
  "list_pages 0 agent before limit j = None"
| "list_pages (Suc n) agent before limit j =
     (case journal_list \<lparr>lp_agent_id = agent, lp_before = before, lp_limit = limit\<rparr> j of
        (Inl _, _) \<Rightarrow> None
      | (Inr l, j') \<Rightarrow> (case ml_next_before l of
            None \<Rightarrow> Some (ml_messages l)
          | Some b \<Rightarrow> map_option ((@) (ml_messages l)) (list_pages n agent (Some b) limit j')))"

definition listed :: "string option \<Rightarrow> db_row \<Rightarrow> bool" where
  "listed agent r \<longleftrightarrow> (case agent of None \<Rightarrow> True
     | Some a \<Rightarrow> a = '''' \<or> sp_agent_id (msg_params (row_body r)) = a)"

definition newest_first :: "string option \<Rightarrow> db_row list \<Rightarrow> db_row list" where
  "newest_first agent rows = rev (filter (listed agent) rows)"

definition older :: "int \<Rightarrow> db_row list \<Rightarrow> db_row list" where
  "older b rows = filter (\<lambda>r. row_sequence r < b) rows"

lemma list_rows_ok:
  assumes "table_ok rows"
  shows "list_rows b (case agent of Some a \<Rightarrow> a | None \<Rightarrow> '''') n rows =
    take n (map row_message (older b (newest_first agent rows)))"
proof -
  have "filter (\<lambda>r. row_sequence r < b \<and> ((case agent of Some a \<Rightarrow> a | None \<Rightarrow> '''') = ''''
      \<or> sp_agent_id (msg_params (row_body r)) = (case agent of Some a \<Rightarrow> a | None \<Rightarrow> ''''))) rows
    = filter (\<lambda>r. row_sequence r < b) (filter (listed agent) rows)"
    unfolding filter_filter by (rule filter_cong[OF refl]) (auto simp: listed_def split: option.splits)
  then show ?thesis
    unfolding list_rows_def newest_first_def older_def
    using table_ok_sorted[OF table_ok_filter[OF table_ok_filter[OF assms]]] by (simp add: rev_filter)
qed

lemma journal_list_ok:
  assumes "faults j = []" "table_ok (table j)" "1 \<le> limit" "limit \<le> 100"
    "case before of Some n \<Rightarrow> 0 < n | None \<Rightarrow> True"
    and rows_def: "rows = older (case before of Some n \<Rightarrow> n | None \<Rightarrow> i64_max) (newest_first agent (table j))"
  shows "\<exists>l. journal_list \<lparr>lp_agent_id = agent, lp_before = before, lp_limit = limit\<rparr> j = (Inr l, j)
    \<and> ml_messages l = map (\<lambda>r. message_receipt (row_message r) False) (take (unat limit) rows)
    \<and> ml_next_before l = (if unat limit < length rows then Some (row_sequence (last (take (unat limit) rows))) else None)"
proof -
  have pos: "0 < unat limit" using assms(3) by (simp add: word_le_nat_alt)
  have guard: "\<not> (\<not> (1 \<le> limit \<and> limit \<le> 100) \<or> (case before of Some n \<Rightarrow> n \<le> 0 | None \<Rightarrow> False))"
    using assms(3-5) by (auto split: option.splits)
  show ?thesis
    using assms(1) pos guard
    by (simp add: journal_list_def list_rows_ok[OF assms(2)] rows_def[symmetric] try_defs Let_def take_map
        min_def last_map o_def)
qed

lemma older_drop:
  assumes "sorted_wrt (>) (map row_sequence rows)" "0 < k" "k < length rows"
  shows "older (row_sequence (last (take k rows))) rows = drop k rows"
proof -
  let ?b = "row_sequence (last (take k rows))"
  have split: "sorted_wrt (>) (map row_sequence (take k rows) @ map row_sequence (drop k rows))"
    using assms(1) by (simp flip: map_append)
  have last: "last (take k rows) = rows ! (k - 1)" "rows ! (k - 1) \<in> set (take k rows)"
  proof -
    have ne: "take k rows \<noteq> []" and len: "length (take k rows) = k" using assms(2,3) by auto
    show "last (take k rows) = rows ! (k - 1)" using last_conv_nth[OF ne] len assms(2) by simp
    then show "rows ! (k - 1) \<in> set (take k rows)" using last_in_set[OF ne] by simp
  qed
  have "\<not> row_sequence r < ?b" if r: "r \<in> set (take k rows)" for r
  proof -
    obtain i where i: "i < k" "r = rows ! i" using r assms(3) by (auto simp: in_set_conv_nth)
    then show ?thesis
    proof (cases "i = k - 1")
      case False
      then have "i < k - 1" "k - 1 < length rows" using i(1) assms(3) by simp_all
      then show ?thesis
        using sorted_wrt_nth_less[OF assms(1), of i "k - 1"] assms(3) last(1) i(2) by simp
    qed (use i last(1) in simp)
  qed
  moreover have "row_sequence r < ?b" if "r \<in> set (drop k rows)" for r
    using split that last by (auto simp: sorted_wrt_append)
  ultimately have "filter (\<lambda>r. row_sequence r < ?b) (take k rows @ drop k rows) = drop k rows"
    unfolding filter_append by (simp add: filter_empty_conv)
  then show ?thesis by (simp add: older_def)
qed

lemma older_older: "b' \<le> b \<Longrightarrow> older b' (older b rows) = older b' rows"
  unfolding older_def filter_filter by (rule filter_cong) auto

lemma newest_first_sorted:
  "table_ok rows \<Longrightarrow> sorted_wrt (>) (map row_sequence (older b (newest_first agent rows)))"
  by (simp add: table_ok_def newest_first_def older_def sorted_wrt_map sorted_wrt_filter sorted_wrt_rev rev_filter)

lemma list_pages_older:
  assumes "faults j = []" "table_ok (table j)" "seqs_ok (table j) l" "1 \<le> limit" "limit \<le> 100"
    "case before of Some n \<Rightarrow> 0 < n | None \<Rightarrow> True"
    "length (older (case before of Some n \<Rightarrow> n | None \<Rightarrow> i64_max) (newest_first agent (table j))) < n"
  shows "list_pages n agent before limit j = Some (map (\<lambda>r. message_receipt (row_message r) False)
    (older (case before of Some n \<Rightarrow> n | None \<Rightarrow> i64_max) (newest_first agent (table j))))"
  using assms(6,7)
proof (induction n arbitrary: before)
  case (Suc n)
  let ?b = "case before of Some n \<Rightarrow> n | None \<Rightarrow> i64_max" and ?k = "unat limit"
  let ?all = "newest_first agent (table j)"
  let ?rows = "older ?b ?all"
  obtain ml where ml: "journal_list \<lparr>lp_agent_id = agent, lp_before = before, lp_limit = limit\<rparr> j = (Inr ml, j)"
    "ml_messages ml = map (\<lambda>r. message_receipt (row_message r) False) (take ?k ?rows)"
    "ml_next_before ml = (if ?k < length ?rows then Some (row_sequence (last (take ?k ?rows))) else None)"
    using journal_list_ok[OF assms(1,2,4,5) Suc.prems(1) refl] by blast
  show ?case
  proof (cases "?k < length ?rows")
    case True
    have k: "0 < ?k" using assms(4) by (simp add: word_le_nat_alt)
    let ?b' = "row_sequence (last (take ?k ?rows))"
    have "last (take ?k ?rows) \<in> set ?rows"
    proof -
      have "take ?k ?rows \<noteq> []" using k True by auto
      then show ?thesis using last_in_set in_set_takeD by fast
    qed
    then have b': "?b' < ?b" "0 < ?b'"
      using assms(3) by (auto simp: older_def newest_first_def seqs_ok_def)
    have drop: "older ?b' ?all = drop ?k ?rows"
      using older_drop[OF newest_first_sorted[OF assms(2)] k True] b'(1) older_older[of ?b' ?b ?all] by simp
    have "list_pages n agent (Some ?b') limit j = Some (map (\<lambda>r. message_receipt (row_message r) False) (drop ?k ?rows))"
      using Suc.IH[of "Some ?b'"] b' drop k Suc.prems(2) True by simp
    then show ?thesis
      using ml True by (simp flip: map_append)
  qed (use ml in simp)
qed simp

text \<open>C17: Listing by pages is complete: a client that asks for pages of any permitted size, passing \<open>next_before\<close>
  back, ends after at most as many pages as there are receipts, and has then seen every receipt of the
  agent (or of all agents) exactly once, newest first.\<close>

theorem list_pages_complete:
  assumes "delivery_reach st" "faults (wk_journal st) = []" "last_sequence (wk_journal st) < i64_max"
    "1 \<le> limit" "limit \<le> 100" "length (table (wk_journal st)) < n"
  shows "list_pages n agent None limit (wk_journal st) =
    Some (map (\<lambda>r. message_receipt (row_message r) False)
      (rev (filter (listed agent) (table (wk_journal st)))))"
proof -
  let ?rows = "table (wk_journal st)"
  note parts = delivery_reach_parts[OF assms(1)]
  have all: "older i64_max (newest_first agent ?rows) = newest_first agent ?rows"
    using parts(3) assms(3) unfolding older_def by (intro filter_True) (auto simp: newest_first_def seqs_ok_def)
  have "length (newest_first agent ?rows) < n"
    using assms(6) by (simp add: newest_first_def) (meson le_less_trans length_filter_le)
  then show ?thesis
    using list_pages_older[OF assms(2) parts(1,3) assms(4,5), of None agent n] all
    by (simp add: newest_first_def)
qed

theorem list_pages_complete_witness:
  "\<exists>rs. list_pages 5 (Some ''agent'') None 1 (wk_journal demo_queued) = Some rs \<and> map rc_sequence rs = [1]"
proof -
  have 1: "faults (wk_journal demo_queued) = []" "last_sequence (wk_journal demo_queued) < i64_max"
    "length (table (wk_journal demo_queued)) < 5"
    "map row_sequence (rev (filter (listed (Some ''agent'')) (table (wk_journal demo_queued)))) = [1]"
    by code_simp+
  show ?thesis
    using list_pages_complete[OF demo_reach(2) 1(1,2) _ _ 1(3), of 1 "Some ''agent''"] 1(4)
    by (simp add: message_receipt_def o_def)
qed

section \<open>Requests and readiness\<close>

text \<open>C18: A send that is accepted carries the normalised ids, a text that is not blank, of at most 64 KiB,
  without control characters other than newline and tab, and names its sender if it is queued; the
  message made of it expires after it was created and within a day.  (\<open>request\<close>, \<open>Message::new\<close>.)\<close>

theorem accepted_send_wellformed:
  assumes "request_operation parse a = Inr (Op_Send p)"
  shows "(\<exists>q. a = AgentSend (Inr q) \<and> parse (sp_request_id q) = Some (sp_request_id p)
      \<and> (\<forall>s. sp_sender_id q = Some s \<longrightarrow> sp_sender_id p = parse s) \<and> sp_text p = sp_text q)
    \<and> (\<exists>c \<in> set (sp_text p). \<not> is_whitespace c) \<and> str_len (sp_text p) \<le> 65536
    \<and> (\<forall>c \<in> set (sp_text p). is_control c \<longrightarrow> c = 10 \<or> c = 9)
    \<and> (sp_queue p \<longrightarrow> sp_sender_id p \<noteq> None)
    \<and> (let m = message_new procs pid p inst g now in
         msg_created_at m < msg_expires_at m \<and> msg_expires_at m \<le> msg_created_at m + 86400)"
proof -
  obtain q sender where q: "a = AgentSend (Inr q)" "parse (sp_request_id q) = Some (sp_request_id p)"
    "p = q\<lparr>sp_request_id := sp_request_id p, sp_sender_id := sender\<rparr>" "\<not> send_params_bad p"
    "sender = (case sp_sender_id q of None \<Rightarrow> None | Some s \<Rightarrow> parse s)"
    "sp_sender_id q \<noteq> None \<longrightarrow> sender \<noteq> None"
    using assms
    by (auto simp: request_operation_def and_then_def parse_uuid_def ok_or_def Let_def
        split: action.splits sum.splits option.splits if_splits)
  have nonblank: "\<exists>c \<in> set (sp_text p). \<not> is_whitespace c"
  proof (rule ccontr)
    assume "\<not> ?thesis"
    then have d: "dropWhile is_whitespace (sp_text p) = []" by (simp add: dropWhile_eq_Nil_conv)
    have "str_trim (sp_text p) = []" by (simp only: str_trim_def d rev.simps dropWhile.simps)
    then show False using q(4) by (simp add: send_params_bad_def)
  qed
  have "sp_sender_id p = sender" "sp_text p = sp_text q"
    using arg_cong[OF q(3), of sp_sender_id] arg_cong[OF q(3), of sp_text] by simp_all
  then have origin: "\<exists>q. a = AgentSend (Inr q) \<and> parse (sp_request_id q) = Some (sp_request_id p)
      \<and> (\<forall>s. sp_sender_id q = Some s \<longrightarrow> sp_sender_id p = parse s) \<and> sp_text p = sp_text q"
    using q(1,2,5) by (intro exI[of _ q]) simp
  have "0 < uint (sp_expires_in p)" "uint (sp_expires_in p) \<le> 86400"
    using q(4) by (simp_all add: send_params_bad_def word_le_def)
  then have expiry: "let m = message_new procs pid p inst g now in
      msg_created_at m < msg_expires_at m \<and> msg_expires_at m \<le> msg_created_at m + 86400"
    by (simp add: message_new_def)
  have bounds: "str_len (sp_text p) \<le> 65536" "sp_queue p \<longrightarrow> sp_sender_id p \<noteq> None"
    "\<forall>c \<in> set (sp_text p). is_control c \<longrightarrow> c = 10 \<or> c = 9"
    using q(4) unfolding send_params_bad_def AGENT_MAX_PROMPT_BYTES_def by simp_all blast?
  show ?thesis by (intro conjI origin nonblank bounds expiry)
qed

theorem accepted_send_wellformed_witness:
  "request_operation Some (AgentSend (Inr (demo_params ''r1''))) = Inr (Op_Send (demo_params ''r1''))
   \<and> str_len (sp_text (demo_params ''r1'')) \<le> 65536"
proof -
  have 1: "request_operation Some (AgentSend (Inr (demo_params ''r1''))) = Inr (Op_Send (demo_params ''r1''))"
    by (simp add: request_operation_def and_then_def parse_uuid_def ok_or_def send_params_bad_def demo_params_def
        str_trim_def is_whitespace_def is_control_def AGENT_MAX_PROMPT_BYTES_def str_len_def len_utf8_def)
  show ?thesis
    by (rule conjI[OF 1 accepted_send_wellformed[OF 1, THEN conjunct2, THEN conjunct2, THEN conjunct1]])
qed





end
