(* ===== verification/Undo_Close.thy ===== *)
theory Undo_Close
  imports Rust_Std
begin

text \<open>
  The stack of closed windows, tabs and panes: \<open>app/src/undo_close/stack.rs\<close>.  The record \<open>app\<close> is
  what the stack reads of the application in a world of any type; what it does to the
  application is an \<open>effect\<close>, which changes the world and is written to a list.  A weak
  handle is the identifier of its view; whether it can be upgraded depends on the world.
\<close>

type_synonym window_id = nat
type_synonym entity_id = nat
type_synonym closed_pane_id = nat

definition usize_max :: nat where
  "usize_max = 2 ^ 64 - 1"

definition saturating_add :: "nat \<Rightarrow> nat \<Rightarrow> nat" where
  "saturating_add a b = min (a + b) usize_max"

section \<open>Closed items\<close>

record closed_window =
  cw_window_id :: window_id
  cw_pane_groups :: "entity_id list"

record tab_data =
  td_pane_group :: entity_id

record closed_pane =
  pd_pane_id :: closed_pane_id
  pd_pane_group :: entity_id

datatype closed_item =
  Closed_Window closed_window
  | Closed_Tab entity_id nat tab_data
  | Closed_Pane closed_pane

datatype undo_item_type = Undo_Window | Undo_Tab | Undo_Pane

datatype effect =
  Remove_Focused_State window_id
  | Mark_Historical entity_id
  | Clean_Up_Panes entity_id
  | Discard_Pane closed_pane_id
  | Telemetry_Undo_Close undo_item_type
  | Reopen_Closed_Window closed_window
  | Project_Window_Reopen window_id
  | Workspace_Reopen entity_id
  | Restore_Closed_Tab entity_id nat tab_data
  | Restore_Closed_Pane entity_id closed_pane_id
  | Show_Window window_id
  | Navigate_To_Pane window_id entity_id entity_id closed_pane_id
  | Save_App

record 'w app =
  app_enabled :: "'w \<Rightarrow> bool"
  app_byte_budget :: "'w \<Rightarrow> nat"
  app_compact :: "entity_id \<Rightarrow> closed_pane_id option \<Rightarrow> 'w \<Rightarrow> nat"
  app_workspace_alive :: "'w \<Rightarrow> entity_id \<Rightarrow> bool"
  app_pane_group_alive :: "'w \<Rightarrow> entity_id \<Rightarrow> bool"
  app_registered_workspaces :: "'w \<Rightarrow> window_id \<Rightarrow> entity_id list"
  app_workspace_views :: "'w \<Rightarrow> window_id \<Rightarrow> entity_id list option"
  app_tab_views :: "'w \<Rightarrow> entity_id \<Rightarrow> entity_id list"
  app_view_window :: "'w \<Rightarrow> entity_id \<Rightarrow> window_id"
  app_view_exists :: "'w \<Rightarrow> window_id \<Rightarrow> entity_id \<Rightarrow> bool"
  app_window_open :: "'w \<Rightarrow> window_id \<Rightarrow> bool"
  app_terminal_views :: "'w \<Rightarrow> entity_id \<Rightarrow> entity_id list"
  app_focused_pane :: "'w \<Rightarrow> entity_id \<Rightarrow> closed_pane_id"
  app_project_window :: "'w \<Rightarrow> window_id \<Rightarrow> bool"
  app_root_view :: "'w \<Rightarrow> window_id \<Rightarrow> entity_id option"
  app_pane_restored :: "'w \<Rightarrow> entity_id \<Rightarrow> closed_pane_id \<Rightarrow> bool"
  app_perform :: "effect \<Rightarrow> 'w \<Rightarrow> 'w"

record retained_item =
  ri_item :: closed_item
  ri_terminal_bytes :: nat

record 'w undo_stack =
  us_stack :: "retained_item list"
  us_retained_terminal_bytes :: nat
  us_world :: 'w
  us_effects :: "effect list"

definition perform :: "'w app \<Rightarrow> effect \<Rightarrow> 'w undo_stack \<Rightarrow> 'w undo_stack" where
  "perform app e us = us\<lparr>us_world := app_perform app e (us_world us), us_effects := us_effects us @ [e]\<rparr>"

section \<open>Discarding an item\<close>

definition window_workspaces :: "'w app \<Rightarrow> window_id \<Rightarrow> 'w \<Rightarrow> entity_id list" where
  "window_workspaces app win w =
     (let registered = app_registered_workspaces app w win in
      if registered = [] then (case app_workspace_views app w win of Some vs \<Rightarrow> vs | None \<Rightarrow> [])
      else registered)"

definition mark_conversations_historical_for_pane_group ::
  "'w app \<Rightarrow> entity_id \<Rightarrow> 'w undo_stack \<Rightarrow> 'w undo_stack" where
  "mark_conversations_historical_for_pane_group app pg us =
     (if app_view_exists app (us_world us) (app_view_window app (us_world us) pg) pg
      then fold (\<lambda>v. perform app (Mark_Historical v)) (app_terminal_views app (us_world us) pg) us
      else us)"

definition clean_up_pane_group :: "'w app \<Rightarrow> entity_id \<Rightarrow> 'w undo_stack \<Rightarrow> 'w undo_stack" where
  "clean_up_pane_group app pg us =
     (if app_window_open app (us_world us) (app_view_window app (us_world us) pg)
      then perform app (Clean_Up_Panes pg) us else us)"

definition discard_pane_group :: "'w app \<Rightarrow> entity_id \<Rightarrow> 'w undo_stack \<Rightarrow> 'w undo_stack" where
  "discard_pane_group app pg us =
     clean_up_pane_group app pg (mark_conversations_historical_for_pane_group app pg us)"

definition discard :: "'w app \<Rightarrow> closed_item \<Rightarrow> 'w undo_stack \<Rightarrow> 'w undo_stack" where
  "discard app item us = (case item of
       Closed_Window data \<Rightarrow>
         (let us1 = perform app (Remove_Focused_State (cw_window_id data)) us in
          fold (\<lambda>ws us. fold (discard_pane_group app) (app_tab_views app (us_world us) ws) us)
            (window_workspaces app (cw_window_id data) (us_world us1)) us1)
     | Closed_Tab _ _ data \<Rightarrow> discard_pane_group app (td_pane_group data) us
     | Closed_Pane data \<Rightarrow> perform app (Discard_Pane (pd_pane_id data)) us)"

definition compact_terminal_memory_for_retention :: "'w app \<Rightarrow> closed_item \<Rightarrow> 'w \<Rightarrow> nat" where
  "compact_terminal_memory_for_retention app item w = (case item of
       Closed_Window data \<Rightarrow>
         fold (\<lambda>pg total. saturating_add total (app_compact app pg None w)) (cw_pane_groups data) 0
     | Closed_Tab _ _ data \<Rightarrow> app_compact app (td_pane_group data) None w
     | Closed_Pane data \<Rightarrow>
         (if app_pane_group_alive app w (pd_pane_group data)
          then app_compact app (pd_pane_group data) (Some (pd_pane_id data)) w else 0))"

section \<open>The stack\<close>

definition MAX_RETAINED_CLOSED_ITEMS :: nat where
  "MAX_RETAINED_CLOSED_ITEMS = 25"

definition exceeds_retention_limits :: "nat \<Rightarrow> nat \<Rightarrow> nat \<Rightarrow> bool" where
  "exceeds_retention_limits item_count retained_terminal_bytes byte_budget \<longleftrightarrow>
     MAX_RETAINED_CLOSED_ITEMS < item_count
     \<or> (0 < byte_budget \<and> byte_budget < retained_terminal_bytes)"

definition undo_new :: "'w \<Rightarrow> 'w undo_stack" where
  "undo_new w = \<lparr>us_stack = [], us_retained_terminal_bytes = 0, us_world = w, us_effects = []\<rparr>"

definition undo_is_empty :: "'w undo_stack \<Rightarrow> bool" where
  "undo_is_empty us \<longleftrightarrow> us_stack us = []"

definition is_pane_group_tab_in_stack :: "entity_id \<Rightarrow> 'w undo_stack \<Rightarrow> bool" where
  "is_pane_group_tab_in_stack pg us \<longleftrightarrow> (\<exists>r \<in> set (us_stack us).
     case ri_item r of Closed_Tab _ _ data \<Rightarrow> td_pane_group data = pg | _ \<Rightarrow> False)"

text \<open>\<open>Vec::remove\<close> at an index inside the stack, followed by \<open>discard\<close>.\<close>

definition remove_and_discard :: "'w app \<Rightarrow> nat \<Rightarrow> 'w undo_stack \<Rightarrow> 'w undo_stack" where
  "remove_and_discard app i us =
     (let retained = us_stack us ! i in
      discard app (ri_item retained)
        (us\<lparr>us_stack := take i (us_stack us) @ drop (Suc i) (us_stack us),
            us_retained_terminal_bytes := us_retained_terminal_bytes us - ri_terminal_bytes retained\<rparr>))"

primrec position_from :: "nat \<Rightarrow> ('a \<Rightarrow> bool) \<Rightarrow> 'a list \<Rightarrow> nat option" where
  "position_from n p [] = None"
| "position_from n p (x # xs) = (if p x then Some n else position_from (Suc n) p xs)"

definition item_in_pane_group :: "entity_id \<Rightarrow> retained_item \<Rightarrow> bool" where
  "item_in_pane_group pg r = (case ri_item r of
       Closed_Tab _ _ data \<Rightarrow> td_pane_group data = pg
     | Closed_Pane data \<Rightarrow> pd_pane_group data = pg
     | Closed_Window _ \<Rightarrow> False)"

definition discard_pane_group_parent :: "'w app \<Rightarrow> entity_id \<Rightarrow> 'w undo_stack \<Rightarrow> 'w undo_stack" where
  "discard_pane_group_parent app pg us =
     (case position_from 0 (item_in_pane_group pg) (us_stack us) of
        Some pos \<Rightarrow> remove_and_discard app pos us | None \<Rightarrow> us)"

definition pop_item :: "'w undo_stack \<Rightarrow> (closed_item \<times> 'w undo_stack) option" where
  "pop_item us = (if us_stack us = [] then None else
     let retained = last (us_stack us) in
     Some (ri_item retained, us\<lparr>us_stack := butlast (us_stack us),
       us_retained_terminal_bytes := us_retained_terminal_bytes us - ri_terminal_bytes retained\<rparr>))"

text \<open>Discarding touches the world only.\<close>

lemma perform_stack [simp]:
  "us_stack (perform app e us) = us_stack us"
  "us_retained_terminal_bytes (perform app e us) = us_retained_terminal_bytes us"
  by (simp_all add: perform_def)

lemma fold_stack:
  assumes "\<And>x us. us_stack (f x us) = us_stack us"
    "\<And>x us. us_retained_terminal_bytes (f x us) = us_retained_terminal_bytes us"
  shows "us_stack (fold f xs us) = us_stack us"
    "us_retained_terminal_bytes (fold f xs us) = us_retained_terminal_bytes us"
  by (induction xs arbitrary: us) (simp_all add: assms)

lemma discard_pane_group_stack [simp]:
  "us_stack (discard_pane_group app pg us) = us_stack us"
  "us_retained_terminal_bytes (discard_pane_group app pg us) = us_retained_terminal_bytes us"
  by (simp_all add: discard_pane_group_def clean_up_pane_group_def fold_stack
      mark_conversations_historical_for_pane_group_def)

lemma discard_stack [simp]:
  "us_stack (discard app item us) = us_stack us"
  "us_retained_terminal_bytes (discard app item us) = us_retained_terminal_bytes us"
  by (simp_all add: discard_def Let_def fold_stack split: closed_item.split)

lemma remove_and_discard_zero:
  "us_stack us \<noteq> [] \<Longrightarrow> us_stack (remove_and_discard app 0 us) = tl (us_stack us)"
  by (cases "us_stack us") (simp_all add: remove_and_discard_def Let_def)

text \<open>The loop that drops the oldest items while the stack is too full, with the two conditions
  it has in the code.  The settings are read once, before the loop.\<close>

function drop_oldest :: "'w app \<Rightarrow> (nat \<Rightarrow> nat \<Rightarrow> bool) \<Rightarrow> 'w undo_stack \<Rightarrow> 'w undo_stack" where
  "drop_oldest app exceeds us =
     (if us_stack us \<noteq> [] \<and> exceeds (length (us_stack us)) (us_retained_terminal_bytes us)
      then drop_oldest app exceeds (remove_and_discard app 0 us) else us)"
  by pat_completeness auto
termination
  by (relation "measure (\<lambda>(app, exceeds, us). length (us_stack us))")
    (simp_all add: remove_and_discard_zero)

declare drop_oldest.simps [simp del]

definition too_full_to_push :: "nat \<Rightarrow> nat \<Rightarrow> nat \<Rightarrow> nat \<Rightarrow> bool" where
  "too_full_to_push terminal_bytes byte_budget len retained =
     exceeds_retention_limits (saturating_add len 1) (saturating_add retained terminal_bytes) byte_budget"

definition too_full :: "nat \<Rightarrow> nat \<Rightarrow> nat \<Rightarrow> bool" where
  "too_full byte_budget len retained = exceeds_retention_limits len retained byte_budget"

definition trim_to_limits :: "'w app \<Rightarrow> 'w undo_stack \<Rightarrow> 'w undo_stack" where
  "trim_to_limits app us = drop_oldest app (too_full (app_byte_budget app (us_world us))) us"

definition push_item ::
  "'w app \<Rightarrow> closed_item \<Rightarrow> nat option \<Rightarrow> 'w undo_stack \<Rightarrow> 'w undo_stack" where
  "push_item app item precomputed us =
     (let byte_budget = app_byte_budget app (us_world us) in
      if \<not> app_enabled app (us_world us) then discard app item us
      else let terminal_bytes = (case precomputed of Some b \<Rightarrow> b
             | None \<Rightarrow> compact_terminal_memory_for_retention app item (us_world us)) in
        if 0 < byte_budget \<and> byte_budget < terminal_bytes then discard app item us
        else let us1 = drop_oldest app (too_full_to_push terminal_bytes byte_budget) us in
          us1\<lparr>us_retained_terminal_bytes := saturating_add (us_retained_terminal_bytes us1) terminal_bytes,
              us_stack := us_stack us1 @ [\<lparr>ri_item = item, ri_terminal_bytes = terminal_bytes\<rparr>]\<rparr>)"

definition handle_window_closed :: "'w app \<Rightarrow> closed_window \<Rightarrow> 'w undo_stack \<Rightarrow> 'w undo_stack" where
  "handle_window_closed app data = push_item app (Closed_Window data) None"

definition handle_tab_closed ::
  "'w app \<Rightarrow> entity_id \<Rightarrow> nat \<Rightarrow> tab_data \<Rightarrow> 'w undo_stack \<Rightarrow> 'w undo_stack" where
  "handle_tab_closed app workspace tab_index data =
     push_item app (Closed_Tab workspace tab_index data) None"

definition handle_pane_closed_by_id ::
  "'w app \<Rightarrow> entity_id \<Rightarrow> closed_pane_id \<Rightarrow> nat \<Rightarrow> 'w undo_stack \<Rightarrow> 'w undo_stack" where
  "handle_pane_closed_by_id app pane_group pane_id terminal_bytes =
     push_item app (Closed_Pane \<lparr>pd_pane_id = pane_id, pd_pane_group = pane_group\<rparr>) (Some terminal_bytes)"

section \<open>Undoing a close\<close>

definition focus_pane_in_project ::
  "'w app \<Rightarrow> window_id \<Rightarrow> entity_id \<Rightarrow> closed_pane_id \<Rightarrow> 'w undo_stack \<Rightarrow> 'w undo_stack" where
  "focus_pane_in_project app win pg pane us =
     (let us1 = perform app (Show_Window win) us in
      case app_root_view app (us_world us1) win of
        Some root \<Rightarrow> perform app (Navigate_To_Pane win root pg pane) us1
      | None \<Rightarrow> us1)"

definition reopen_window :: "'w app \<Rightarrow> closed_window \<Rightarrow> 'w undo_stack \<Rightarrow> 'w undo_stack" where
  "reopen_window app data us =
     (let win = cw_window_id data;
          us1 = perform app (Reopen_Closed_Window data) (perform app (Telemetry_Undo_Close Undo_Window) us);
          us2 = (if app_project_window app (us_world us1) win
                 then perform app (Project_Window_Reopen win) us1
                 else fold (\<lambda>ws. perform app (Workspace_Reopen ws))
                        (window_workspaces app win (us_world us1)) us1) in
      perform app Save_App us2)"

definition reopen_tab ::
  "'w app \<Rightarrow> entity_id \<Rightarrow> nat \<Rightarrow> tab_data \<Rightarrow> 'w undo_stack \<Rightarrow> 'w undo_stack" where
  "reopen_tab app workspace tab_index data us =
     (let win = app_view_window app (us_world us) workspace;
          pg = td_pane_group data;
          pane = app_focused_pane app (us_world us) pg;
          us1 = perform app (Restore_Closed_Tab workspace tab_index data)
                  (perform app (Telemetry_Undo_Close Undo_Tab) us) in
      perform app Save_App (focus_pane_in_project app win pg pane us1))"

definition finish_pane ::
  "'w app \<Rightarrow> window_id \<Rightarrow> closed_pane \<Rightarrow> 'w undo_stack \<Rightarrow> 'w undo_stack" where
  "finish_pane app win data us = perform app Save_App
     (focus_pane_in_project app win (pd_pane_group data) (pd_pane_id data)
       (perform app (Show_Window win) (perform app (Telemetry_Undo_Close Undo_Pane) us)))"

text \<open>One turn of the loop with the item popped: whether it was restored.\<close>

definition restore_item :: "'w app \<Rightarrow> closed_item \<Rightarrow> 'w undo_stack \<Rightarrow> bool \<times> 'w undo_stack" where
  "restore_item app item us = (case item of
       Closed_Window data \<Rightarrow> (True, reopen_window app data us)
     | Closed_Tab workspace tab_index data \<Rightarrow>
         (if \<not> app_workspace_alive app (us_world us) workspace then (False, discard app item us)
          else (True, reopen_tab app workspace tab_index data us))
     | Closed_Pane data \<Rightarrow>
         (if \<not> app_pane_group_alive app (us_world us) (pd_pane_group data) then (False, discard app item us)
          else let pg = pd_pane_group data;
                   win = app_view_window app (us_world us) pg;
                   restored = app_pane_restored app (us_world us) pg (pd_pane_id data);
                   us1 = perform app (Restore_Closed_Pane pg (pd_pane_id data)) us in
            if \<not> restored then (False, discard app item us1)
            else (True, finish_pane app win data us1)))"

lemma focus_stack [simp]:
  "us_stack (focus_pane_in_project app win pg pane us) = us_stack us"
  "us_retained_terminal_bytes (focus_pane_in_project app win pg pane us) = us_retained_terminal_bytes us"
  by (simp_all add: focus_pane_in_project_def Let_def split: option.split)

lemma restore_item_stack [simp]:
  "us_stack (snd (restore_item app item us)) = us_stack us"
  "us_retained_terminal_bytes (snd (restore_item app item us)) = us_retained_terminal_bytes us"
  by (simp_all add: restore_item_def reopen_window_def reopen_tab_def finish_pane_def Let_def fold_stack
      split: closed_item.split)

lemma pop_item_Some:
  "pop_item us = Some (item, us') \<Longrightarrow> us_stack us \<noteq> [] \<and> us_stack us' = butlast (us_stack us)
     \<and> item = ri_item (last (us_stack us))
     \<and> us_retained_terminal_bytes us' = us_retained_terminal_bytes us - ri_terminal_bytes (last (us_stack us))"
  by (auto simp: pop_item_def Let_def split: if_splits)

function undo_close :: "'w app \<Rightarrow> 'w undo_stack \<Rightarrow> 'w undo_stack" where
  "undo_close app us = (case pop_item us of None \<Rightarrow> us
     | Some (item, us1) \<Rightarrow> (case restore_item app item us1 of (restored, us2) \<Rightarrow>
         if restored then us2 else undo_close app us2))"
  by pat_completeness auto
termination
  by (relation "measure (\<lambda>(app, us). length (us_stack us))")
    (auto dest!: pop_item_Some simp: restore_item_stack(1)[of app item us1 for app item us1, THEN sym]
      dest: arg_cong[where f = "\<lambda>x. us_stack (snd x)"])

declare undo_close.simps [simp del]

section \<open>Settings\<close>

datatype settings_event = Undo_Close_Enabled | Undo_Close_Grace_Period | Undo_Close_Maximum_Bytes

definition handle_settings_event :: "'w app \<Rightarrow> settings_event \<Rightarrow> 'w undo_stack \<Rightarrow> 'w undo_stack" where
  "handle_settings_event app event us = (case event of
       Undo_Close_Enabled \<Rightarrow>
         (if \<not> app_enabled app (us_world us)
          then fold (\<lambda>r. discard app (ri_item r)) (us_stack us)
                 (us\<lparr>us_retained_terminal_bytes := 0, us_stack := []\<rparr>)
          else us)
     | Undo_Close_Grace_Period \<Rightarrow> us
     | Undo_Close_Maximum_Bytes \<Rightarrow> trim_to_limits app us)"

end
