(* ===== verification/Undo_Properties.thy ===== *)
theory Undo_Properties
  imports Undo_Close
begin

text \<open>
  What the stack of closed items guarantees: it holds at most 25 items, its byte count is the
  sum over them, a push drops as few of the oldest items as the limits ask for, and undoing
  restores the newest item that can still be restored.
\<close>

section \<open>Discarding and restoring do not depend on the stack\<close>

definition with_stack :: "retained_item list \<Rightarrow> nat \<Rightarrow> 'w undo_stack \<Rightarrow> 'w undo_stack" where
  "with_stack s b us = us\<lparr>us_stack := s, us_retained_terminal_bytes := b\<rparr>"

lemma with_stack_simps [simp]:
  "us_stack (with_stack s b us) = s" "us_retained_terminal_bytes (with_stack s b us) = b"
  "us_world (with_stack s b us) = us_world us" "us_effects (with_stack s b us) = us_effects us"
  "with_stack s b (with_stack s' b' us) = with_stack s b us"
  by (simp_all add: with_stack_def)

lemma with_stack_id: "with_stack (us_stack us) (us_retained_terminal_bytes us) us = us"
  by (simp add: with_stack_def)

lemma perform_with_stack [simp]: "perform app e (with_stack s b us) = with_stack s b (perform app e us)"
  by (simp add: perform_def with_stack_def)

lemma fold_with_stack:
  "(\<And>x us. f x (with_stack s b us) = with_stack s b (f x us))
     \<Longrightarrow> fold f xs (with_stack s b us) = with_stack s b (fold f xs us)"
  by (induction xs arbitrary: us) simp_all

lemma discard_pane_group_with_stack [simp]:
  "discard_pane_group app pg (with_stack s b us) = with_stack s b (discard_pane_group app pg us)"
  by (simp add: discard_pane_group_def clean_up_pane_group_def fold_with_stack
      mark_conversations_historical_for_pane_group_def)

lemma discard_with_stack [simp]:
  "discard app item (with_stack s b us) = with_stack s b (discard app item us)"
  by (simp add: discard_def Let_def fold_with_stack split: closed_item.split)

lemma focus_with_stack [simp]:
  "focus_pane_in_project app win pg pane (with_stack s b us) =
     with_stack s b (focus_pane_in_project app win pg pane us)"
  by (simp add: focus_pane_in_project_def Let_def split: option.split)

lemma restore_with_stack [simp]:
  "restore_item app item (with_stack s b us) =
     (fst (restore_item app item us), with_stack s b (snd (restore_item app item us)))"
  by (simp add: restore_item_def reopen_window_def reopen_tab_def finish_pane_def Let_def fold_with_stack
      split: closed_item.split)

text \<open>Items discarded one after the other, oldest first.\<close>

definition discard_all :: "'w app \<Rightarrow> retained_item list \<Rightarrow> 'w undo_stack \<Rightarrow> 'w undo_stack" where
  "discard_all app rs us = fold (\<lambda>r. discard app (ri_item r)) rs us"

lemma discard_all_simps [simp]:
  "discard_all app [] us = us"
  "discard_all app (r # rs) us = discard_all app rs (discard app (ri_item r) us)"
  "discard_all app rs (with_stack s b us) = with_stack s b (discard_all app rs us)"
  by (simp_all add: discard_all_def fold_with_stack)

section \<open>The invariant\<close>

definition bytes :: "retained_item list \<Rightarrow> nat" where
  "bytes rs = sum_list (map ri_terminal_bytes rs)"

lemma bytes_simps [simp]:
  "bytes [] = 0" "bytes (r # rs) = ri_terminal_bytes r + bytes rs" "bytes (rs @ rs') = bytes rs + bytes rs'"
  by (simp_all add: bytes_def)

lemma bytes_butlast: "rs \<noteq> [] \<Longrightarrow> bytes (butlast rs) = bytes rs - ri_terminal_bytes (last rs)"
  by (induction rs rule: rev_induct) auto

text \<open>The sizes of terminals are such that 25 of them do not overflow a \<open>usize\<close>.\<close>

definition sizes_ok :: "retained_item list \<Rightarrow> bool" where
  "sizes_ok rs \<longleftrightarrow> (\<forall>r \<in> set rs. ri_terminal_bytes r \<le> usize_max div 25)"

lemma bytes_bound: "sizes_ok rs \<Longrightarrow> bytes rs \<le> length rs * (usize_max div 25)"
  by (induction rs) (auto simp: sizes_ok_def)

lemma bytes_no_overflow:
  assumes "sizes_ok rs" "length rs \<le> 25"
  shows "bytes rs \<le> usize_max"
proof -
  have "bytes rs \<le> length rs * (usize_max div 25)" by (rule bytes_bound[OF assms(1)])
  also have "\<dots> \<le> 25 * (usize_max div 25)" by (rule mult_le_mono1[OF assms(2)])
  also have "\<dots> \<le> usize_max" by simp
  finally show ?thesis .
qed

definition undo_inv :: "'w undo_stack \<Rightarrow> bool" where
  "undo_inv us \<longleftrightarrow> length (us_stack us) \<le> 25 \<and> us_retained_terminal_bytes us = bytes (us_stack us)"

lemma remove_oldest:
  assumes "us_stack us = r # rs"
  shows "remove_and_discard app 0 us =
    with_stack rs (us_retained_terminal_bytes us - ri_terminal_bytes r) (discard app (ri_item r) us)"
  using assms discard_with_stack[of app "ri_item r" rs "us_retained_terminal_bytes us - ri_terminal_bytes r" us]
  by (simp add: remove_and_discard_def Let_def with_stack_def)

text \<open>A loop that drops items from the bottom while a condition on the rest asks for it.\<close>

definition dropped ::
  "'w app \<Rightarrow> (nat \<Rightarrow> nat \<Rightarrow> bool) \<Rightarrow> 'w undo_stack \<Rightarrow> nat \<Rightarrow> 'w undo_stack \<Rightarrow> bool" where
  "dropped app exceeds us k us' \<longleftrightarrow>
     (let full = (\<lambda>rs. exceeds (length rs) (bytes rs)); s = us_stack us in
      k \<le> length s \<and> us' = with_stack (drop k s) (bytes (drop k s)) (discard_all app (take k s) us)
      \<and> (\<forall>i < k. full (drop i s)) \<and> (drop k s = [] \<or> \<not> full (drop k s)))"

lemma dropped_step:
  assumes "us_stack us = r # rs" "exceeds (length (r # rs)) (bytes (r # rs))"
    "us_retained_terminal_bytes us = bytes (r # rs)"
    "dropped app exceeds (remove_and_discard app 0 us) k us'"
  shows "dropped app exceeds us (Suc k) us'"
  using assms by (auto simp: dropped_def remove_oldest less_Suc_eq_0_disj Let_def)

lemma drop_oldest_dropped:
  assumes "us_retained_terminal_bytes us = bytes (us_stack us)"
  shows "\<exists>k. dropped app exceeds us k (drop_oldest app exceeds us)"
  using assms
proof (induction app exceeds us rule: drop_oldest.induct)
  case (1 app exceeds us)
  show ?case
  proof (cases "us_stack us \<noteq> [] \<and> exceeds (length (us_stack us)) (bytes (us_stack us))")
    case True
    then obtain r rs where rs: "us_stack us = r # rs" by (cases "us_stack us") auto
    let ?us = "remove_and_discard app 0 us"
    have "us_retained_terminal_bytes ?us = bytes (us_stack ?us)"
      using 1(2) rs by (simp add: remove_oldest[OF rs])
    then obtain k where "dropped app exceeds ?us k (drop_oldest app exceeds ?us)"
      using 1(1) True 1(2) by auto
    then have "dropped app exceeds us (Suc k) (drop_oldest app exceeds ?us)"
      using dropped_step[OF rs] True rs 1(2) by auto
    then show ?thesis using True 1(2) by (subst drop_oldest.simps) auto
  next
    case False
    then have "drop_oldest app exceeds us = us" using 1(2) by (subst drop_oldest.simps) auto
    moreover have "dropped app exceeds us 0 us"
      using False 1(2) with_stack_id[of us] by (auto simp: dropped_def)
    ultimately show ?thesis by auto
  qed
qed

lemma dropped_fields:
  assumes "dropped app exceeds us k us'"
  shows "us_stack us' = drop k (us_stack us)" "us_retained_terminal_bytes us' = bytes (us_stack us')"
  using assms by (simp_all add: dropped_def Let_def)

section \<open>Operations\<close>

datatype undo_op =
  Op_Window_Closed closed_window
  | Op_Tab_Closed entity_id nat tab_data
  | Op_Pane_Closed entity_id closed_pane_id nat
  | Op_Undo
  | Op_Discard_Parent entity_id
  | Op_Settings settings_event

definition undo_step :: "'w app \<Rightarrow> undo_op \<Rightarrow> 'w undo_stack \<Rightarrow> 'w undo_stack" where
  "undo_step app op us = (case op of
       Op_Window_Closed data \<Rightarrow> handle_window_closed app data us
     | Op_Tab_Closed ws i data \<Rightarrow> handle_tab_closed app ws i data us
     | Op_Pane_Closed pg pane b \<Rightarrow> handle_pane_closed_by_id app pg pane b us
     | Op_Undo \<Rightarrow> undo_close app us
     | Op_Discard_Parent pg \<Rightarrow> discard_pane_group_parent app pg us
     | Op_Settings event \<Rightarrow> handle_settings_event app event us)"

text \<open>Operations on one stack, the world changing at will between them.\<close>

inductive undo_reach :: "'w app \<Rightarrow> 'w undo_stack \<Rightarrow> bool" for app where
  start: "undo_reach app (undo_new w)"
| world: "undo_reach app us \<Longrightarrow> undo_reach app (us\<lparr>us_world := w\<rparr>)"
| step: "undo_reach app us \<Longrightarrow> sizes_ok (us_stack (undo_step app op us))
    \<Longrightarrow> undo_reach app (undo_step app op us)"

lemma bytes_take_drop: "bytes (take k s) + bytes (drop k s) = bytes s"
  using bytes_simps(3)[of "take k s" "drop k s"] by (simp del: bytes_simps)

definition closed_bytes :: "'w app \<Rightarrow> closed_item \<Rightarrow> nat option \<Rightarrow> 'w undo_stack \<Rightarrow> nat" where
  "closed_bytes app item precomputed us = (case precomputed of Some b \<Rightarrow> b
     | None \<Rightarrow> compact_terminal_memory_for_retention app item (us_world us))"

definition accepts :: "'w app \<Rightarrow> closed_item \<Rightarrow> nat option \<Rightarrow> 'w undo_stack \<Rightarrow> bool" where
  "accepts app item precomputed us \<longleftrightarrow> app_enabled app (us_world us)
     \<and> (app_byte_budget app (us_world us) = 0
        \<or> closed_bytes app item precomputed us \<le> app_byte_budget app (us_world us))"

text \<open>The state after a push that drops the \<open>k\<close> oldest items.\<close>

definition pushed ::
  "'w app \<Rightarrow> closed_item \<Rightarrow> nat \<Rightarrow> nat \<Rightarrow> 'w undo_stack \<Rightarrow> 'w undo_stack" where
  "pushed app item b k us =
     with_stack (drop k (us_stack us) @ [\<lparr>ri_item = item, ri_terminal_bytes = b\<rparr>])
       (saturating_add (bytes (drop k (us_stack us))) b) (discard_all app (take k (us_stack us)) us)"

lemma push_item_cases:
  assumes "undo_inv us"
  obtains "\<not> accepts app item pre us" "push_item app item pre us = discard app item us"
  | k where "accepts app item pre us"
    "push_item app item pre us = pushed app item (closed_bytes app item pre us) k us"
    "dropped app (too_full_to_push (closed_bytes app item pre us) (app_byte_budget app (us_world us))) us k
       (drop_oldest app (too_full_to_push (closed_bytes app item pre us) (app_byte_budget app (us_world us))) us)"
proof (cases "accepts app item pre us")
  case False
  then show ?thesis
    using that(1) by (auto simp: push_item_def accepts_def closed_bytes_def Let_def)
next
  case True
  let ?b = "closed_bytes app item pre us" and ?budget = "app_byte_budget app (us_world us)"
  let ?us1 = "drop_oldest app (too_full_to_push ?b ?budget) us"
  obtain k where k: "dropped app (too_full_to_push ?b ?budget) us k ?us1"
    using drop_oldest_dropped[of us app] assms by (auto simp: undo_inv_def)
  have "push_item app item pre us = ?us1\<lparr>us_retained_terminal_bytes := saturating_add (us_retained_terminal_bytes ?us1) ?b,
      us_stack := us_stack ?us1 @ [\<lparr>ri_item = item, ri_terminal_bytes = ?b\<rparr>]\<rparr>"
    using True by (auto simp: push_item_def accepts_def closed_bytes_def Let_def)
  also have "\<dots> = pushed app item ?b k us"
    using k by (auto simp: dropped_def Let_def pushed_def with_stack_def)
  finally show ?thesis using that(2) True k by blast
qed

lemma push_item_inv:
  assumes "undo_inv us" "sizes_ok (us_stack (push_item app item pre us))"
  shows "undo_inv (push_item app item pre us)"
  using assms(1)
proof (cases rule: push_item_cases[where app = app and item = item and pre = pre])
  case 1
  then show ?thesis using assms(1) by (simp add: undo_inv_def)
next
  case (2 k)
  let ?b = "closed_bytes app item pre us"
  let ?s = "drop k (us_stack us) @ [\<lparr>ri_item = item, ri_terminal_bytes = ?b\<rparr>]"
  have s: "us_stack (push_item app item pre us) = ?s" using 2(2) by (simp add: pushed_def)
  have len: "length ?s \<le> 25"
    using 2(3) by (auto simp: dropped_def Let_def too_full_to_push_def exceeds_retention_limits_def
        MAX_RETAINED_CLOSED_ITEMS_def saturating_add_def usize_max_def)
  have "bytes ?s \<le> usize_max" using bytes_no_overflow len assms(2) s by metis
  then show ?thesis
    using len by (simp add: undo_inv_def 2(2) pushed_def saturating_add_def)
qed

lemma pop_item_inv: "undo_inv us \<Longrightarrow> pop_item us = Some (item, us') \<Longrightarrow> undo_inv us'"
  using pop_item_Some[of us item us'] bytes_butlast[of "us_stack us"] by (auto simp: undo_inv_def)

lemma undo_close_inv: "undo_inv us \<Longrightarrow> undo_inv (undo_close app us)"
proof (induction app us rule: undo_close.induct)
  case (1 app us)
  show ?case
  proof (cases "pop_item us")
    case None
    then show ?thesis using 1(2) by (subst undo_close.simps) simp
  next
    case (Some p)
    obtain item us1 where p: "p = (item, us1)" by fastforce
    obtain ok us2 where r: "restore_item app item us1 = (ok, us2)" by fastforce
    have "undo_inv us2"
      using pop_item_inv[OF 1(2)] Some p restore_item_stack[of app item us1] r by (simp add: undo_inv_def)
    then show ?thesis
      using 1(1)[OF Some p[symmetric] r[symmetric]] Some p r by (subst undo_close.simps) auto
  qed
qed

lemma position_from_Some: "position_from n p xs = Some m \<Longrightarrow> n \<le> m \<and> m - n < length xs \<and> p (xs ! (m - n))"
proof (induction xs arbitrary: n)
  case (Cons x xs)
  then show ?case
    by (fastforce split: if_splits simp: nth_Cons' Suc_diff_le dest: Cons.IH)
qed simp

lemma remove_and_discard_inv:
  assumes "undo_inv us" "i < length (us_stack us)"
  shows "undo_inv (remove_and_discard app i us)"
proof -
  have "bytes (us_stack us) = bytes (take i (us_stack us)) + (ri_terminal_bytes (us_stack us ! i) + bytes (drop (Suc i) (us_stack us)))"
    using bytes_simps(2,3) id_take_nth_drop[OF assms(2)] by metis
  then show ?thesis using assms by (auto simp: undo_inv_def remove_and_discard_def Let_def)
qed

lemma settings_inv:
  assumes "undo_inv us"
  shows "undo_inv (handle_settings_event app event us)"
proof -
  obtain k where k: "dropped app (too_full (app_byte_budget app (us_world us))) us k (trim_to_limits app us)"
    using drop_oldest_dropped[of us app] assms by (auto simp: undo_inv_def trim_to_limits_def)
  have "length (drop k (us_stack us)) \<le> 25" using assms by (simp add: undo_inv_def le_diff_conv)
  then have "undo_inv (trim_to_limits app us)"
    using dropped_fields[OF k] by (simp only: undo_inv_def)
  then show ?thesis
    using assms by (auto simp: handle_settings_event_def undo_inv_def fold_stack split: settings_event.split)
qed

lemma undo_reach_inv: "undo_reach app us \<Longrightarrow> undo_inv us"
proof (induction rule: undo_reach.induct)
  case (start w)
  then show ?case by (simp add: undo_new_def undo_inv_def)
next
  case (step us op)
  have discard_parent: "undo_inv (discard_pane_group_parent app pg us)" for pg
    using step.IH position_from_Some[of 0 "item_in_pane_group pg" "us_stack us"]
    by (auto simp: discard_pane_group_parent_def intro: remove_and_discard_inv split: option.split)
  show ?case
    using step.IH step.hyps(2) discard_parent
    by (cases op) (auto simp: undo_step_def handle_window_closed_def handle_tab_closed_def
        handle_pane_closed_by_id_def intro: push_item_inv undo_close_inv settings_inv)
qed (simp add: undo_inv_def)

section \<open>Properties\<close>

text \<open>An application in which windows and panes can be restored; its world is the byte budget.\<close>

definition demo_app :: "nat app" where
  "demo_app = \<lparr>app_enabled = (\<lambda>w. True), app_byte_budget = (\<lambda>w. w), app_compact = (\<lambda>pg p w. 10),
     app_workspace_alive = (\<lambda>w ws. ws = 1), app_pane_group_alive = (\<lambda>w pg. pg = 2),
     app_registered_workspaces = (\<lambda>w win. [1]), app_workspace_views = (\<lambda>w win. None),
     app_tab_views = (\<lambda>w ws. [2]), app_view_window = (\<lambda>w v. 0), app_view_exists = (\<lambda>w win v. True),
     app_window_open = (\<lambda>w win. True), app_terminal_views = (\<lambda>w pg. [3]), app_focused_pane = (\<lambda>w pg. 4),
     app_project_window = (\<lambda>w win. False), app_root_view = (\<lambda>w win. Some 5),
     app_pane_restored = (\<lambda>w pg p. True), app_perform = (\<lambda>e w. w)\<rparr>"

definition demo_closed :: "nat undo_stack" where
  "demo_closed = undo_step demo_app (Op_Pane_Closed 2 9 8)
     (undo_step demo_app (Op_Tab_Closed 7 0 \<lparr>td_pane_group = 2\<rparr>)
       (undo_step demo_app (Op_Tab_Closed 1 0 \<lparr>td_pane_group = 2\<rparr>) (undo_new 20)))"

lemmas undo_eval = undo_step_def handle_tab_closed_def handle_pane_closed_by_id_def push_item_def demo_app_def
  undo_new_def compact_terminal_memory_for_retention_def drop_oldest.simps too_full_to_push_def
  exceeds_retention_limits_def saturating_add_def usize_max_def MAX_RETAINED_CLOSED_ITEMS_def
  remove_and_discard_def discard_def discard_pane_group_def clean_up_pane_group_def perform_def
  mark_conversations_historical_for_pane_group_def

lemma demo_closed_eval:
  "us_stack demo_closed = [\<lparr>ri_item = Closed_Tab 7 0 \<lparr>td_pane_group = 2\<rparr>, ri_terminal_bytes = 10\<rparr>,
     \<lparr>ri_item = Closed_Pane \<lparr>pd_pane_id = 9, pd_pane_group = 2\<rparr>, ri_terminal_bytes = 8\<rparr>]"
  "us_world demo_closed = 20" "us_effects demo_closed = [Mark_Historical 3, Clean_Up_Panes 2]"
  by (simp_all add: demo_closed_def undo_eval Let_def)

lemma demo_closed_reach: "undo_reach demo_app demo_closed"
proof -
  let ?s0 = "undo_new 20 :: nat undo_stack"
  let ?s1 = "undo_step demo_app (Op_Tab_Closed 1 0 \<lparr>td_pane_group = 2\<rparr>) ?s0"
  let ?s2 = "undo_step demo_app (Op_Tab_Closed 7 0 \<lparr>td_pane_group = 2\<rparr>) ?s1"
  have 1: "sizes_ok (us_stack ?s1)" "sizes_ok (us_stack ?s2)"
    by (simp_all add: sizes_ok_def undo_eval Let_def)
  have 2: "sizes_ok (us_stack demo_closed)" by (simp add: demo_closed_eval sizes_ok_def usize_max_def)
  show ?thesis
    using undo_reach.step[OF undo_reach.step[OF undo_reach.step[OF undo_reach.start 1(1)] 1(2)]] 2
    unfolding demo_closed_def by blast
qed

text \<open>In every reachable state the stack of closed items holds at most 25 of them, and the byte count is exactly the
  sum over the items, for terminals of which 25 do not overflow a \<open>usize\<close>.\<close>

theorem undo_stack_invariant:
  assumes "undo_reach app us"
  shows "length (us_stack us) \<le> MAX_RETAINED_CLOSED_ITEMS
    \<and> us_retained_terminal_bytes us = sum_list (map ri_terminal_bytes (us_stack us))"
  using undo_reach_inv[OF assms] by (simp add: undo_inv_def bytes_def MAX_RETAINED_CLOSED_ITEMS_def)

theorem undo_stack_invariant_witness:
  "us_retained_terminal_bytes demo_closed = sum_list (map ri_terminal_bytes (us_stack demo_closed))
   \<and> map ri_terminal_bytes (us_stack demo_closed) = [10, 8]"
proof -
  have "map ri_terminal_bytes (us_stack demo_closed) = [10, 8]" by (simp add: demo_closed_eval)
  then show ?thesis using undo_stack_invariant[OF demo_closed_reach] by blast
qed

text \<open>C34: Closing something puts it on top of the stack and drops as few of the oldest items as the limits ask for, in order,
  each of them discarded; with undo switched off, or if the item alone is over the budget, it is discarded itself and
  the stack is left as it is.  After a push the stack is within both limits.\<close>

theorem push_item_correct:
  assumes "undo_reach app us" "sizes_ok (us_stack (push_item app item pre us))"
  defines "b \<equiv> closed_bytes app item pre us" and "budget \<equiv> app_byte_budget app (us_world us)"
    and "s \<equiv> us_stack us"
  shows "if app_enabled app (us_world us) \<and> (budget = 0 \<or> b \<le> budget)
    then \<exists>k \<le> length s.
        push_item app item pre us = with_stack (drop k s @ [\<lparr>ri_item = item, ri_terminal_bytes = b\<rparr>])
          (bytes (drop k s) + b) (discard_all app (take k s) us)
      \<and> length s - k < 25 \<and> (0 < budget \<longrightarrow> bytes (drop k s) + b \<le> budget)
      \<and> (\<forall>i < k. 25 \<le> length s - i \<or> (0 < budget \<and> budget < saturating_add (bytes (drop i s)) b))
    else push_item app item pre us = discard app item us"
  using undo_reach_inv[OF assms(1)]
proof (cases rule: push_item_cases[where app = app and item = item and pre = pre])
  case 1
  then show ?thesis by (auto simp: accepts_def b_def budget_def)
next
  case (2 k)
  let ?s = "drop k s @ [\<lparr>ri_item = item, ri_terminal_bytes = b\<rparr>]"
  have stack: "us_stack (push_item app item pre us) = ?s" using 2(2) by (simp add: pushed_def s_def b_def)
  have full: "too_full_to_push b budget n r \<longleftrightarrow> 25 \<le> n \<or> (0 < budget \<and> budget < saturating_add r b)"
    if "n \<le> 25" for n r
    using that by (auto simp: too_full_to_push_def exceeds_retention_limits_def MAX_RETAINED_CLOSED_ITEMS_def
        saturating_add_def usize_max_def)
  have len: "length s \<le> 25" using undo_reach_inv[OF assms(1)] by (simp add: undo_inv_def s_def)
  have k: "k \<le> length s" "drop k s = [] \<or> \<not> too_full_to_push b budget (length s - k) (bytes (drop k s))"
    "\<And>i. i < k \<Longrightarrow> too_full_to_push b budget (length s - i) (bytes (drop i s))"
    using 2(3) by (simp_all add: dropped_def Let_def s_def b_def budget_def)
  have short: "length s - k < 25" using k(2) full[of "length s - k"] len by auto
  have "bytes ?s \<le> usize_max"
    using bytes_no_overflow[of ?s] assms(2) stack short by simp
  then have sum: "saturating_add (bytes (drop k s)) b = bytes (drop k s) + b" by (simp add: saturating_add_def)
  have within: "bytes (drop k s) + b \<le> budget" if "0 < budget"
    using k(2) full[of "length s - k" "bytes (drop k s)"] len that 2(1) sum
    by (auto simp: accepts_def b_def budget_def)
  have least: "25 \<le> length s - i \<or> (0 < budget \<and> budget < saturating_add (bytes (drop i s)) b)" if "i < k" for i
    using k(3)[OF that] full[of "length s - i"] len by simp
  have eq: "push_item app item pre us = with_stack ?s (bytes (drop k s) + b) (discard_all app (take k s) us)"
    using 2(2) sum by (simp add: pushed_def s_def b_def)
  have "app_enabled app (us_world us) \<and> (budget = 0 \<or> b \<le> budget)"
    using 2(1) by (simp add: accepts_def b_def budget_def)
  then show ?thesis using k(1) eq short within least by auto
qed

theorem push_item_correct_witness:
  "undo_reach demo_app demo_closed \<and> (\<exists>k. us_stack (push_item demo_app (Closed_Window \<lparr>cw_window_id = 0, cw_pane_groups = [2]\<rparr>) None demo_closed)
     = drop k (us_stack demo_closed) @ [\<lparr>ri_item = Closed_Window \<lparr>cw_window_id = 0, cw_pane_groups = [2]\<rparr>, ri_terminal_bytes = 10\<rparr>])"
proof -
  let ?item = "Closed_Window \<lparr>cw_window_id = 0, cw_pane_groups = [2]\<rparr>"
  have stack: "us_stack (push_item demo_app ?item None demo_closed) =
      [\<lparr>ri_item = Closed_Pane \<lparr>pd_pane_id = 9, pd_pane_group = 2\<rparr>, ri_terminal_bytes = 8\<rparr>,
       \<lparr>ri_item = ?item, ri_terminal_bytes = 10\<rparr>]"
    by (simp add: demo_closed_def undo_eval Let_def)
  then have "sizes_ok (us_stack (push_item demo_app ?item None demo_closed))"
    by (simp add: sizes_ok_def usize_max_def)
  from push_item_correct[OF demo_closed_reach this]
  have "\<exists>k. push_item demo_app ?item None demo_closed = with_stack
      (drop k (us_stack demo_closed) @ [\<lparr>ri_item = ?item, ri_terminal_bytes = 10\<rparr>])
      (bytes (drop k (us_stack demo_closed)) + 10) (discard_all demo_app (take k (us_stack demo_closed)) demo_closed)"
    by (auto simp: closed_bytes_def demo_app_def compact_terminal_memory_for_retention_def saturating_add_def
        usize_max_def demo_closed_eval split: if_splits)
  then show ?thesis using demo_closed_reach by (metis with_stack_simps(1))
qed

text \<open>What remains of the application after trying to restore items, one after the other.\<close>

definition tried :: "'w app \<Rightarrow> retained_item list \<Rightarrow> 'w undo_stack \<Rightarrow> 'w undo_stack" where
  "tried app rs us = fold (\<lambda>r us. snd (restore_item app (ri_item r) us)) rs us"

lemma tried_simps [simp]:
  "tried app [] us = us"
  "tried app (r # rs) us = tried app rs (snd (restore_item app (ri_item r) us))"
  "tried app rs (with_stack s b us) = with_stack s b (tried app rs us)"
  by (simp_all add: tried_def fold_with_stack)

definition restorable :: "'w app \<Rightarrow> retained_item \<Rightarrow> 'w undo_stack \<Rightarrow> bool" where
  "restorable app r us = fst (restore_item app (ri_item r) us)"

lemma restorable_with_stack [simp]: "restorable app r (with_stack s b us) = restorable app r us"
  by (simp add: restorable_def)

lemma undo_close_stack:
  assumes "undo_inv us" "us_stack us = rest @ [r]"
  shows "undo_close app us =
    (let us' = with_stack rest (bytes rest) (snd (restore_item app (ri_item r) us)) in
     if restorable app r us then us' else undo_close app us')"
proof -
  have "pop_item us = Some (ri_item r, with_stack rest (bytes rest) us)"
    using assms by (auto simp: pop_item_def Let_def with_stack_def undo_inv_def)
  then show ?thesis
    by (subst undo_close.simps) (simp add: restorable_def Let_def case_prod_unfold)
qed

text \<open>C33: Undo restores the newest closed item that can still be restored.  It tries the items from the top; those whose
  owner is gone, or whose pane group refuses, are discarded; the first that succeeds ends it, and the items below
  it stay.  If none succeeds the stack is empty.  It always ends, after at most one attempt per item.\<close>

theorem undo_close_correct:
  assumes "undo_reach app us"
  shows "\<exists>n \<le> length (us_stack us). let items = rev (us_stack us); rest = rev (drop (Suc n) items) in
    (\<forall>i < n. \<not> restorable app (items ! i) (tried app (take i items) us))
    \<and> (n < length items \<longrightarrow> restorable app (items ! n) (tried app (take n items) us))
    \<and> undo_close app us = with_stack rest (bytes rest) (tried app (take (Suc n) items) us)"
  using undo_reach_inv[OF assms]
proof (induction "length (us_stack us)" arbitrary: us)
  case 0
  then show ?case
    using with_stack_id[of us] by (subst undo_close.simps) (simp add: pop_item_def undo_inv_def)
next
  case (Suc l)
  then obtain rest r where s: "us_stack us = rest @ [r]" by (cases "us_stack us" rule: rev_cases) auto
  let ?us = "with_stack rest (bytes rest) (snd (restore_item app (ri_item r) us))"
  note eq = undo_close_stack[OF Suc.prems s, of app, unfolded Let_def]
  show ?case
  proof (cases "restorable app r us")
    case True
    then show ?thesis using eq s by (intro exI[of _ 0]) (simp add: Let_def)
  next
    case False
    have inv: "undo_inv ?us" using Suc.prems s by (simp add: undo_inv_def)
    obtain n where n: "n \<le> length rest"
      "\<forall>i < n. \<not> restorable app (rev rest ! i) (tried app (take i (rev rest)) ?us)"
      "n < length rest \<longrightarrow> restorable app (rev rest ! n) (tried app (take n (rev rest)) ?us)"
      "undo_close app ?us = with_stack (rev (drop (Suc n) (rev rest))) (bytes (rev (drop (Suc n) (rev rest))))
         (tried app (take (Suc n) (rev rest)) ?us)"
      using Suc.hyps(1)[OF _ inv] Suc.hyps(2) s by (auto simp: Let_def)
    have "\<forall>i < Suc n. \<not> restorable app ((r # rev rest) ! i) (tried app (take i (r # rev rest)) us)"
      using False n(2) by (auto simp: less_Suc_eq_0_disj)
    then show ?thesis
      using n False eq s by (intro exI[of _ "Suc n"]) (simp add: Let_def)
  qed
qed

theorem undo_close_correct_witness:
  "us_stack (undo_close demo_app demo_closed) = [\<lparr>ri_item = Closed_Tab 7 0 \<lparr>td_pane_group = 2\<rparr>, ri_terminal_bytes = 10\<rparr>]"
proof -
  have ok: "restorable demo_app (rev (us_stack demo_closed) ! 0) demo_closed"
    by (simp add: demo_closed_eval restorable_def restore_item_def demo_app_def)
  obtain n where n: "\<forall>i < n. \<not> restorable demo_app (rev (us_stack demo_closed) ! i)
      (tried demo_app (take i (rev (us_stack demo_closed))) demo_closed)"
    "us_stack (undo_close demo_app demo_closed) = rev (drop (Suc n) (rev (us_stack demo_closed)))"
    using undo_close_correct[OF demo_closed_reach] by (auto simp: Let_def)
  then have "n = 0" using ok by (cases n) force+
  then show ?thesis using n(2) by (simp add: demo_closed_eval)
qed

text \<open>Close and undo are inverse: if an item is put on the stack without displacing another and can be restored,
  undoing right away leaves the stack and its byte count as they were, and all that has happened to the application is
  the restoration.\<close>

theorem close_then_undo:
  assumes "undo_reach app us" "sizes_ok (us_stack (push_item app item pre us))"
    "us_stack (push_item app item pre us) = us_stack us @ [\<lparr>ri_item = item, ri_terminal_bytes = b\<rparr>]"
    "us_world (push_item app item pre us) = us_world us" "us_effects (push_item app item pre us) = us_effects us"
    "restorable app \<lparr>ri_item = item, ri_terminal_bytes = b\<rparr> us"
  shows "undo_close app (push_item app item pre us) = snd (restore_item app item us)
    \<and> us_stack (undo_close app (push_item app item pre us)) = us_stack us
    \<and> us_retained_terminal_bytes (undo_close app (push_item app item pre us)) = us_retained_terminal_bytes us"
proof -
  have inv: "undo_inv us" by (rule undo_reach_inv[OF assms(1)])
  let ?us = "push_item app item pre us" and ?s = "us_stack us @ [\<lparr>ri_item = item, ri_terminal_bytes = b\<rparr>]"
  have us: "?us = with_stack ?s (us_retained_terminal_bytes ?us) us"
    using assms(3-5) by (simp add: with_stack_def)
  have inv': "undo_inv ?us" by (rule push_item_inv[OF inv assms(2)])
  have "restorable app \<lparr>ri_item = item, ri_terminal_bytes = b\<rparr> ?us"
    using assms(6) by (subst us) simp
  then have "undo_close app ?us = with_stack (us_stack us) (bytes (us_stack us)) (snd (restore_item app item ?us))"
    by (simp add: undo_close_stack[OF inv' assms(3)] Let_def)
  also have "\<dots> = with_stack (us_stack us) (bytes (us_stack us)) (snd (restore_item app item us))"
    by (subst us) simp
  also have "\<dots> = snd (restore_item app item us)"
    using inv with_stack_id[of "snd (restore_item app item us)"] by (simp add: undo_inv_def)
  finally show ?thesis by simp
qed

theorem close_then_undo_witness:
  "let item = Closed_Tab 1 0 \<lparr>td_pane_group = 2\<rparr>; us = undo_new 20 in
   us_stack (push_item demo_app item None us) \<noteq> [] \<and> us_stack (undo_close demo_app (push_item demo_app item None us)) = []"
proof -
  let ?item = "Closed_Tab 1 0 \<lparr>td_pane_group = 2\<rparr>"
  let ?us = "undo_new 20 :: nat undo_stack"
  have eval: "us_stack (push_item demo_app ?item None ?us) = us_stack ?us @ [\<lparr>ri_item = ?item, ri_terminal_bytes = 10\<rparr>]"
    "us_world (push_item demo_app ?item None ?us) = us_world ?us"
    "us_effects (push_item demo_app ?item None ?us) = us_effects ?us"
    by (simp_all add: undo_eval Let_def)
  have sizes: "sizes_ok (us_stack (push_item demo_app ?item None ?us))"
    unfolding eval(1) by (simp add: sizes_ok_def undo_new_def usize_max_def)
  have ok: "restorable demo_app \<lparr>ri_item = ?item, ri_terminal_bytes = 10\<rparr> ?us"
    by (simp add: restorable_def restore_item_def demo_app_def)
  show ?thesis
    using close_then_undo[OF undo_reach.start sizes eval ok] eval(1) by (simp add: Let_def undo_new_def)
qed

end
