(* ===== verification/Grid_Resize.thy ===== *)
theory Grid_Resize
  imports Grid_Storage
begin

text \<open>
  Resizing a grid (\<^verbatim>\<open>app/src/terminal/model/grid/grid_storage/resize.rs\<close>):
  \<open>g_resize\<close> grows or shrinks the columns, with or without reflow, and then the lines.
  None is a panic; for \<open>g_shrink_cols\<close> it is also the endless loop, which
  \<open>shrink_body_decreases\<close> excludes for two columns or more.  The flag
  \<open>resize_fix_ff_enabled\<close> of the grid is the argument \<open>ff\<close>.
\<close>

section \<open>Points and rows\<close>

definition visible_wrapping_sub :: "nat \<Rightarrow> nat \<Rightarrow> nat \<times> nat \<Rightarrow> nat \<times> nat" where
  "visible_wrapping_sub num_cols distance p =
     (let line_changes = (distance + num_cols - 1 - snd p) div num_cols
      in if fst p \<ge> line_changes
         then (fst p - line_changes, (num_cols + snd p - distance mod num_cols) mod num_cols)
         else (0, 0))"

definition visible_wrapping_add :: "nat \<Rightarrow> nat \<Rightarrow> nat \<times> nat \<Rightarrow> nat \<times> nat" where
  "visible_wrapping_add num_cols distance p =
     (fst p + (distance + snd p) div num_cols, (snd p + distance) mod num_cols)"

definition visible_wrap :: "nat \<Rightarrow> nat \<times> nat \<Rightarrow> (nat \<times> nat) option" where
  "visible_wrap num_cols p = (if num_cols = 0 then None else Some (visible_wrapping_add num_cols 0 p))"

definition flag_on :: "u16 \<Rightarrow> cell \<Rightarrow> cell" where
  "flag_on f c = c\<lparr>c_flags := bf_insert (c_flags c) f\<rparr>"

definition flag_off :: "u16 \<Rightarrow> cell \<Rightarrow> cell" where
  "flag_off f c = c\<lparr>c_flags := bf_remove (c_flags c) f\<rparr>"

definition leading_spacer :: cell where
  "leading_spacer = flag_on LEADING_WIDE_CHAR_SPACER cell_default"

text \<open>\<open>Row::last_mut\<close> with the update made through the reference; it marks the whole
  row dirty.\<close>

definition row_last_mut :: "(cell \<Rightarrow> cell) \<Rightarrow> row \<Rightarrow> row" where
  "row_last_mut f r =
     \<lparr>row_inner = (if row_inner r = [] then [] else butlast (row_inner r) @ [f (last (row_inner r))]),
      row_occ = row_len r\<rparr>"

definition row_from_vec :: "cell list \<Rightarrow> nat \<Rightarrow> row" where
  "row_from_vec v occ = \<lparr>row_inner = v, row_occ = occ\<rparr>"

section \<open>Lines\<close>

definition g_grow_lines :: "nat \<Rightarrow> grid \<Rightarrow> grid option" where
  "g_grow_lines new_line_count g = do {
     lines_added \<leftarrow> checked_sub new_line_count (g_rows g);
     raw \<leftarrow> sto_grow_visible_lines new_line_count (g_raw g);
     let g = g\<lparr>g_raw := raw, g_rows := new_line_count\<rparr>;
     history_size \<leftarrow> g_history_size g;
     let from_history = min history_size lines_added;
     g \<leftarrow> (if from_history \<noteq> lines_added
          then g_scroll_up 0 new_line_count (lines_added - from_history) g else Some g);
     let g = g\<lparr>g_saved_cursor := (g_saved_cursor g)\<lparr>cur_row := cur_row (g_saved_cursor g) + from_history\<rparr>,
              g_cursor := (g_cursor g)\<lparr>cur_row := cur_row (g_cursor g) + from_history\<rparr>,
              g_max_cursor_row := g_max_cursor_row g + from_history\<rparr>;
     g_decrease_scroll_limit lines_added g
   }"

definition g_shrink_lines :: "nat \<Rightarrow> grid \<Rightarrow> grid option" where
  "g_shrink_lines target g = do {
     let required_scrolling = cur_row (g_cursor g) + 1 - target;
     last_row \<leftarrow> checked_sub target 1;
     g \<leftarrow> (if required_scrolling > 0
          then do { g \<leftarrow> g_scroll_up 0 (g_rows g) required_scrolling g;
                    Some (g\<lparr>g_cursor := (g_cursor g)\<lparr>cur_row := min (cur_row (g_cursor g)) last_row\<rparr>\<rparr>) }
          else Some g);
     let g = g\<lparr>g_saved_cursor := (g_saved_cursor g)\<lparr>cur_row := min (cur_row (g_saved_cursor g)) last_row\<rparr>,
              g_max_cursor_row := min (g_max_cursor_row g) last_row\<rparr>;
     surplus \<leftarrow> checked_sub (g_rows g) target;
     raw \<leftarrow> sto_rotate (int surplus) (g_raw g);
     raw \<leftarrow> sto_shrink_visible_lines target raw;
     Some (g\<lparr>g_raw := raw, g_rows := target\<rparr>)
   }"

section \<open>More columns\<close>

text \<open>The start of both routines: the new width, and with reflow a cursor that waits to
  wrap is moved out of the grid.\<close>

definition start_cols :: "bool \<Rightarrow> nat \<Rightarrow> grid \<Rightarrow> grid" where
  "start_cols reflow columns g =
     (if cur_input_needs_wrap (g_cursor g) \<and> reflow
      then g\<lparr>g_columns := columns,
             g_cursor := (g_cursor g)\<lparr>cur_input_needs_wrap := False, cur_col := cur_col (g_cursor g) + 1\<rparr>\<rparr>
      else g\<lparr>g_columns := columns\<rparr>)"

definition should_reflow :: "bool \<Rightarrow> nat \<Rightarrow> row \<Rightarrow> bool" where
  "should_reflow reflow columns r \<longleftrightarrow>
     reflow \<and> 0 < row_len r \<and> row_len r < columns \<and>
     bf_contains (c_flags (last (row_inner r))) WRAPLINE"

text \<open>The cells that the last row of the new buffer pulls from the front of the next
  row: the last row without its wrap flag and leading spacer, the rest of the next row,
  the cells, and the distance the cursor moves.\<close>

definition pull_cells :: "nat \<Rightarrow> row \<Rightarrow> row \<Rightarrow> (row \<times> row \<times> nat) option" where
  "pull_cells columns last_row row = do {
     let last_row = row_last_mut (flag_off WRAPLINE) last_row;
     let last_row = (if row_len last_row \<ge> 1 \<and>
                        bf_contains (c_flags (last (row_inner last_row))) LEADING_WIDE_CHAR_SPACER
                     then fst (row_shrink (row_len last_row - 1) last_row) else last_row);
     num_wrapped \<leftarrow> checked_sub columns (row_len last_row);
     let len = min (row_len row) num_wrapped;
     k \<leftarrow> checked_sub len 1;
     c \<leftarrow> row_get k row;
     if bf_contains (c_flags c) WIDE_CHAR
     then do { p \<leftarrow> row_front_split_off k row;
               n \<leftarrow> checked_sub num_wrapped 1;
               Some (row_append (snd p @ [leading_spacer]) last_row, fst p, n) }
     else do { p \<leftarrow> row_front_split_off len row;
               Some (row_append (snd p) last_row, fst p, num_wrapped) }
   }"

definition reflow_max_cursor :: "bool \<Rightarrow> nat \<Rightarrow> nat \<Rightarrow> bool \<Rightarrow> nat \<Rightarrow> grid \<Rightarrow> grid option" where
  "reflow_max_cursor reflow columns num_wrapped gone i g = do {
     max_cursor_line \<leftarrow> checked_sub (g_rows g) (g_max_cursor_row g + 1);
     Some (if i = max_cursor_line \<and> reflow
           then g\<lparr>g_max_cursor_col :=
                  snd (visible_wrapping_sub columns num_wrapped (g_max_cursor_row g, g_max_cursor_col g))\<rparr>
           else if gone \<and> i < max_cursor_line
           then g\<lparr>g_max_cursor_row := g_max_cursor_row g + 1\<rparr> else g)
   }"

text \<open>The cursor on the row being pulled up; the result tells whether the row is kept,
  and by how many lines the cursor has moved.\<close>

definition reflow_cursor ::
    "bool \<Rightarrow> nat \<Rightarrow> nat \<Rightarrow> nat \<Rightarrow> bool \<Rightarrow> grid \<Rightarrow> (grid \<times> nat option) option" where
  "reflow_cursor ff columns num_rows num_wrapped gone g = do {
     let c = g_cursor g;
     let p = (cur_row c, cur_col c);
     adjust \<leftarrow> (if ff \<and> gone \<and> visible_wrapping_sub columns num_wrapped p = (0, 0) \<and>
                  visible_wrapping_sub columns (num_wrapped + 1) p = (0, 0)
               then do { history \<leftarrow> checked_sub num_rows (g_rows g); Some (history \<ge> 1) }
               else Some False);
     let c = (if adjust then c\<lparr>cur_row := cur_row c + 1\<rparr> else c);
     let target = visible_wrapping_sub columns num_wrapped (cur_row c, cur_col c);
     let clamp = (snd target = 0 \<and> gone);
     let target' = (if clamp then visible_wrapping_sub columns 1 target else target);
     let c = (if clamp then c\<lparr>cur_input_needs_wrap := True\<rparr> else c)\<lparr>cur_col := snd target'\<rparr>;
     line_delta \<leftarrow> checked_sub (cur_row c) (fst target');
     if line_delta \<noteq> 0 \<and> gone
     then do {
       r \<leftarrow> (if ff \<and> adjust then checked_sub (cur_row c) line_delta else Some (cur_row c));
       Some (g\<lparr>g_cursor := c\<lparr>cur_row := r\<rparr>\<rparr>, None)
     }
     else Some (g\<lparr>g_cursor := c\<rparr>, Some line_delta)
   }"

type_synonym grow_state = "row list \<times> grid \<times> nat"

definition grow_cols_row ::
    "bool \<Rightarrow> bool \<Rightarrow> nat \<Rightarrow> nat \<Rightarrow> nat \<times> row \<Rightarrow> grow_state \<Rightarrow> grow_state option" where
  "grow_cols_row ff reflow columns num_rows ir st =
     (case st of (reversed, g, delta) \<Rightarrow>
      if reversed = [] \<or> \<not> should_reflow reflow columns (last reversed)
      then Some (reversed @ [snd ir], g, delta)
      else do {
        (last_row, row, num_wrapped) \<leftarrow> pull_cells columns (last reversed) (snd ir);
        let gone = (row_is_clear row \<and> has_no_end_of_prompt_marker row);
        g \<leftarrow> reflow_max_cursor reflow columns num_wrapped gone (fst ir) g;
        cursor_buffer_line \<leftarrow> checked_sub (g_rows g) (cur_row (g_cursor g) + 1);
        (g, kept) \<leftarrow>
          (if fst ir = cursor_buffer_line \<and> reflow
           then reflow_cursor ff columns num_rows num_wrapped gone g
           else Some (if gone
                      then (if fst ir < cursor_buffer_line
                            then g\<lparr>g_cursor := (g_cursor g)\<lparr>cur_row := cur_row (g_cursor g) + 1\<rparr>\<rparr>
                            else g, None)
                      else (g, Some 0)));
        Some (case kept of
                None \<Rightarrow> (butlast reversed @ [last_row], g, delta)
              | Some line_delta \<Rightarrow>
                  (butlast reversed @ [row_last_mut (flag_on WRAPLINE) last_row, row], g, delta + line_delta))
      })"

definition cursors_up :: "nat \<Rightarrow> grid \<Rightarrow> grid" where
  "cursors_up n g =
     g\<lparr>g_cursor := (g_cursor g)\<lparr>cur_row := cur_row (g_cursor g) - n\<rparr>,
       g_max_cursor_row := g_max_cursor_row g - n\<rparr>"

definition g_grow_cols :: "bool \<Rightarrow> bool \<Rightarrow> nat \<Rightarrow> grid \<Rightarrow> grid option" where
  "g_grow_cols ff reflow columns g = do {
     let g = start_cols reflow columns g;
     let taken = sto_take_all (g_raw g);
     (reversed, g, delta) \<leftarrow>
       fold_m (grow_cols_row ff reflow columns (length (snd taken))) (rev (enumerate 0 (snd taken)))
         ([], g\<lparr>g_raw := fst taken\<rparr>, 0);
     let missing = g_rows g - length reversed;
     let g = cursors_up missing g;
     let reversed = reversed @ replicate missing (row_new columns);
     (reversed, g) \<leftarrow>
       (if delta \<noteq> 0 then do {
          cursor_buffer_line \<leftarrow> checked_sub (g_rows g) (cur_row (g_cursor g) + 1);
          history \<leftarrow> checked_sub (length reversed) (g_rows g);
          let overflow = delta - min cursor_buffer_line history;
          n \<leftarrow> checked_sub (length reversed + overflow) delta;
          Some (take n reversed, cursors_up overflow g)
        } else Some (reversed, g));
     let new_raw = rev (map (row_grow columns) reversed);
     let g = g\<lparr>g_raw := sto_replace_inner new_raw (g_raw g)\<rparr>;
     last_row \<leftarrow> checked_sub (g_rows g) 1;
     if cur_row (g_cursor g) \<le> last_row then Some g else None
   }"

section \<open>Fewer columns\<close>

text \<open>One round of the inner loop: either the row is finished, with the cells buffered
  for the next one, or its overflow is the next row to look at.\<close>

datatype shrink_step = Pushed "row list" "cell list option" grid | Again row "row list" grid

definition cursor_after_wrap :: "nat \<Rightarrow> nat \<Rightarrow> grid \<Rightarrow> grid option" where
  "cursor_after_wrap columns i g = do {
     cursor_buffer_line \<leftarrow> checked_sub (g_rows g) (cur_row (g_cursor g) + 1);
     let c = g_cursor g;
     let c1 = (if (i = cursor_buffer_line \<and> cur_col c < columns) \<or> i < cursor_buffer_line
               then c\<lparr>cur_row := cur_row c - 1\<rparr> else c);
     let c2 = (if i = cursor_buffer_line \<and> cur_col c1 \<ge> columns
               then c1\<lparr>cur_col := cur_col c1 - columns\<rparr> else c1);
     Some (g\<lparr>g_cursor := c2\<rparr>)
   }"

definition max_cursor_after_wrap :: "nat \<Rightarrow> nat \<Rightarrow> grid \<Rightarrow> grid option" where
  "max_cursor_after_wrap columns i g = do {
     max_cursor_line \<leftarrow> checked_sub (g_rows g) (g_max_cursor_row g + 1);
     let g1 = (if (i = max_cursor_line \<and> g_max_cursor_col g < columns) \<or> i < max_cursor_line
               then g\<lparr>g_max_cursor_row := g_max_cursor_row g - 1\<rparr> else g);
     Some (if i = max_cursor_line \<and> g_max_cursor_col g1 \<ge> columns
           then g1\<lparr>g_max_cursor_col := g_max_cursor_col g1 - columns\<rparr> else g1)
   }"

text \<open>The cells to wrap, if the row is wrapped at all: an empty overflow still wraps a
  row whose cursor lies beyond the new width.\<close>

definition overflow_cells :: "bool \<Rightarrow> nat \<Rightarrow> nat \<Rightarrow> cell list option \<Rightarrow> grid \<Rightarrow> cell list option" where
  "overflow_cells reflow columns i removed g =
     (if reflow \<and> removed \<noteq> None then removed
      else if reflow \<and>
              ((i = g_rows g - (cur_row (g_cursor g) + 1) \<and> cur_col (g_cursor g) \<ge> columns) \<or>
               (i = g_rows g - (g_max_cursor_row g + 1) \<and> g_max_cursor_col g \<ge> columns))
      then Some [] else None)"

text \<open>A wide character in the last column moves to the wrapped cells.\<close>

definition move_wide_char :: "nat \<Rightarrow> row \<Rightarrow> cell list \<Rightarrow> (row \<times> cell list) option" where
  "move_wide_char columns row wrapped =
     (if row_len row \<ge> columns
      then do { k \<leftarrow> checked_sub columns 1;
                c \<leftarrow> row_get k row;
                if bf_contains (c_flags c) WIDE_CHAR
                then do { row \<leftarrow> row_mut_at k (\<lambda>_. leading_spacer) row; Some (row, c # wrapped) }
                else Some (row, wrapped) }
      else Some (row, wrapped))"

definition shrink_body ::
    "bool \<Rightarrow> nat \<Rightarrow> nat \<Rightarrow> row \<Rightarrow> row list \<Rightarrow> grid \<Rightarrow> shrink_step option" where
  "shrink_body reflow columns i row new_raw g =
     (let shrunk = row_shrink columns row
      in case overflow_cells reflow columns i (snd shrunk) g of
           None \<Rightarrow> Some (Pushed (new_raw @ [fst shrunk]) None g)
         | Some wrapped \<Rightarrow> do {
             (row, wrapped) \<leftarrow> move_wide_char columns (fst shrunk) wrapped;
             let spacer = (wrapped \<noteq> [] \<and>
                           bf_contains (c_flags (last wrapped)) LEADING_WIDE_CHAR_SPACER);
             if spacer \<and> length wrapped = 1
             then do { k \<leftarrow> checked_sub columns 1;
                       row \<leftarrow> row_mut_at k (flag_on WRAPLINE) row;
                       Some (Pushed (new_raw @ [row]) None g) }
             else do {
               let wrapped = (if spacer
                              then butlast (butlast wrapped) @ [flag_on WRAPLINE (last (butlast wrapped))]
                              else wrapped);
               let new_raw = new_raw @ [row_last_mut (flag_on WRAPLINE) row];
               if wrapped \<noteq> [] \<and> bf_contains (c_flags (last wrapped)) WRAPLINE \<and> i \<ge> 1 \<and>
                  length wrapped < columns
               then Some (Pushed new_raw (Some (butlast wrapped @ [flag_off WRAPLINE (last wrapped)])) g)
               else do {
                 g \<leftarrow> cursor_after_wrap columns i g;
                 g \<leftarrow> max_cursor_after_wrap columns i g;
                 let occ = length wrapped;
                 Some (Again (row_from_vec (wrapped @ replicate (columns - occ) cell_default) occ) new_raw g)
               }
             }
           })"

fun shrink_loop ::
    "nat \<Rightarrow> bool \<Rightarrow> nat \<Rightarrow> nat \<Rightarrow> row \<Rightarrow> row list \<Rightarrow> grid \<Rightarrow>
     (row list \<times> cell list option \<times> grid) option" where
  "shrink_loop 0 reflow columns i row new_raw g = None"
| "shrink_loop (Suc fuel) reflow columns i row new_raw g = do {
     s \<leftarrow> shrink_body reflow columns i row new_raw g;
     case s of
       Pushed new_raw buffered g \<Rightarrow> Some (new_raw, buffered, g)
     | Again row new_raw g \<Rightarrow> shrink_loop fuel reflow columns i row new_raw g
   }"

text \<open>What every round of the loop decreases.\<close>

definition shrink_measure :: "nat \<Rightarrow> row \<Rightarrow> grid \<Rightarrow> nat" where
  "shrink_measure columns row g =
     (row_len row - columns) + cur_col (g_cursor g) + g_max_cursor_col g"

definition shrink_cols_row ::
    "bool \<Rightarrow> nat \<Rightarrow> nat \<times> row \<Rightarrow> row list \<times> cell list option \<times> grid \<Rightarrow>
     (row list \<times> cell list option \<times> grid) option" where
  "shrink_cols_row reflow columns ir st =
     (case st of (new_raw, buffered, g) \<Rightarrow> do {
        (row, g) \<leftarrow> (case buffered of
            None \<Rightarrow> Some (snd ir, g)
          | Some b \<Rightarrow> do {
              cursor_buffer_line \<leftarrow> checked_sub (g_rows g) (cur_row (g_cursor g) + 1);
              let g = (if fst ir = cursor_buffer_line
                       then g\<lparr>g_cursor := (g_cursor g)\<lparr>cur_col := cur_col (g_cursor g) + length b\<rparr>\<rparr>
                       else g);
              max_cursor_line \<leftarrow> checked_sub (g_rows g) (g_max_cursor_row g + 1);
              let g = (if fst ir = max_cursor_line
                       then g\<lparr>g_max_cursor_col := g_max_cursor_col g + length b\<rparr> else g);
              Some (row_append_front b (snd ir), g)
            });
        shrink_loop (Suc (shrink_measure columns row g)) reflow columns (fst ir) row new_raw g
      })"

text \<open>The cursors of the reflowed grid are wrapped to its width.\<close>

definition wrap_cursors :: "nat \<Rightarrow> grid \<Rightarrow> grid option" where
  "wrap_cursors columns g = do {
     let c = g_cursor g;
     ends \<leftarrow> (if cur_col c = columns
             then do { h \<leftarrow> g_history_size g;
                       r \<leftarrow> sto_get (h + cur_row c) (g_raw g);
                       k \<leftarrow> checked_sub columns 1;
                       cell \<leftarrow> row_get k r;
                       Some (\<not> bf_contains (c_flags cell) WRAPLINE) }
             else Some False);
     c \<leftarrow> (if ends then do { k \<leftarrow> checked_sub (cur_col c) 1;
                              Some (c\<lparr>cur_input_needs_wrap := True, cur_col := k\<rparr>) }
           else do { p \<leftarrow> visible_wrap columns (cur_row c, cur_col c);
                     Some (c\<lparr>cur_row := fst p, cur_col := snd p\<rparr>) });
     m \<leftarrow> visible_wrap columns (g_max_cursor_row g, g_max_cursor_col g);
     Some (g\<lparr>g_cursor := c, g_max_cursor_row := fst m, g_max_cursor_col := snd m\<rparr>)
   }"

definition g_shrink_cols :: "bool \<Rightarrow> nat \<Rightarrow> grid \<Rightarrow> grid option" where
  "g_shrink_cols reflow columns g = do {
     let g = start_cols reflow columns g;
     let taken = sto_take_all (g_raw g);
     (new_raw, buffered, g) \<leftarrow>
       fold_m (shrink_cols_row reflow columns) (rev (enumerate 0 (snd taken)))
         ([], None, g\<lparr>g_raw := fst taken\<rparr>);
     let reversed = take (g_max_scroll_limit g + g_rows g) (rev new_raw);
     let g = g\<lparr>g_raw := sto_replace_inner reversed (g_raw g)\<rparr>;
     g \<leftarrow> (if \<not> reflow
          then do { k \<leftarrow> checked_sub columns 1;
                    Some (g\<lparr>g_cursor := (g_cursor g)\<lparr>cur_col := min (cur_col (g_cursor g)) k\<rparr>,
                            g_max_cursor_col := min (g_max_cursor_col g) k\<rparr>) }
          else wrap_cursors columns g);
     k \<leftarrow> checked_sub columns 1;
     Some (g\<lparr>g_saved_cursor := (g_saved_cursor g)\<lparr>cur_col := min (cur_col (g_saved_cursor g)) k\<rparr>\<rparr>)
   }"

section \<open>Resize\<close>

definition g_resize :: "bool \<Rightarrow> bool \<Rightarrow> nat \<Rightarrow> nat \<Rightarrow> bool \<Rightarrow> grid \<Rightarrow> grid option" where
  "g_resize ff reflow lines cols finished g =
     (if lines = 0 then Some g
      else do {
        let template = cur_template (g_cursor g);
        let g = g\<lparr>g_cursor := (g_cursor g)\<lparr>cur_template := cell_default\<rparr>\<rparr>;
        g \<leftarrow> (if g_columns g < cols then g_grow_cols ff reflow cols g
             else if g_columns g > cols then g_shrink_cols reflow cols g else Some g);
        let lines = (if finished then min lines (cur_row (g_cursor g) + 1) else lines);
        g \<leftarrow> (if g_rows g < lines then g_grow_lines lines g
             else if g_rows g > lines then g_shrink_lines lines g else Some g);
        Some (g\<lparr>g_cursor := (g_cursor g)\<lparr>cur_template := template\<rparr>\<rparr>)
      })"

section \<open>Growing and shrinking the ring\<close>

lemma sto_initialize_eq:
  assumes "sto_inv cols l l sq s" "0 < cols"
  shows "sto_inv cols (l + n) l sq (sto_initialize n cols s)"
    "i < l \<Longrightarrow> storage_rows (sto_initialize n cols s) ! (if sq then i else i + n) = storage_rows s ! i"
proof -
  note z = sto_rezero_eq [OF assms(1)]
  let ?t = "sto_initialize n cols s"
  have t: "?t = (if l + n > length (sto_inner s)
       then (sto_rezero s)\<lparr>sto_inner := sto_inner (sto_rezero s) @
              replicate (max n (sto_max_cache_size (sto_rezero s))) (row_new cols), sto_len := l + n\<rparr>
       else s\<lparr>sto_len := l + n\<rparr>)"
    using assms(1) z(1) by (auto simp: sto_initialize_def Let_def sto_inv_def)
  show "sto_inv cols (l + n) l sq ?t"
    using assms z(1,2,4) by (auto simp: t sto_inv_def list_all_iff row_ok_new)
  assume i: "i < l"
  have len: "sto_len s = l" "sto_len (sto_rezero s) = l" using assms(1) z(1) by (simp_all add: sto_inv_def)
  have sq: "sto_is_sequential s = sq" "sto_is_sequential (sto_rezero s) = sq"
    using assms(1) z(1) by (simp_all add: sto_inv_def)
  have ln: "l \<le> length (sto_inner s)" using assms(1) by (simp add: sto_inv_def)
  have "storage_rows (sto_rezero s) ! i = storage_rows s ! i" by (simp add: z(3))
  then show "storage_rows ?t ! (if sq then i else i + n) = storage_rows s ! i"
    using i len sq ln z(2,4)
    by (auto simp: t nth_storage_rows sto_idx_def Let_def nth_append split: if_splits)
qed

lemma sto_inv_row_len: "sto_inv cols l v sq s \<Longrightarrow> 0 < l \<Longrightarrow> row_len (storage_rows s ! 0) = cols"
  using sto_inv_row_ok [of cols l v sq s 0] by (simp add: row_ok_def)

lemma sto_grow_visible_lines_eq:
  assumes "sto_inv cols l l sq s" "0 < cols" "0 < l"
  shows "\<exists>s'. sto_grow_visible_lines (l + n) s = Some s' \<and> sto_inv cols (l + n) (l + n) sq s' \<and>
     (\<forall>i<l. storage_rows s' ! (if sq then i else i + n) = storage_rows s ! i)"
proof -
  let ?s = "(sto_initialize n cols s)\<lparr>sto_visible_lines := l + n\<rparr>"
  note i = sto_initialize_eq [where n = n, OF assms(1,2)]
  have "sto_grow_visible_lines (l + n) s = Some ?s"
    using assms sto_get_eq [OF assms(1,3)] sto_inv_row_len [OF assms(1,3)]
    by (simp add: sto_grow_visible_lines_def checked_sub_def sto_inv_def)
  moreover have "sto_inv cols (l + n) (l + n) sq ?s" using i(1) by (simp add: sto_inv_def)
  moreover have "storage_rows ?s = storage_rows (sto_initialize n cols s)"
    by (simp add: storage_rows_def sto_idx_def Let_def)
  ultimately show ?thesis using i(2) by auto
qed

lemma sto_shrink_lines_visible:
  "sto_shrink_lines n (s\<lparr>sto_visible_lines := v\<rparr>) =
     map_option (\<lambda>s'. s'\<lparr>sto_visible_lines := v\<rparr>) (sto_shrink_lines n s)"
  by (cases s) (simp add: sto_shrink_lines_def checked_sub_def sto_truncate_unused_rows_def
      sto_rezero_def Let_def)

lemma sto_shrink_visible_lines_eq:
  assumes "sto_inv cols l l sq s" "0 < t" "t \<le> l"
  shows "\<exists>s' s''. sto_rotate (int (l - t)) s = Some s' \<and> sto_shrink_visible_lines t s' = Some s'' \<and>
     sto_inv cols t t sq s'' \<and>
     storage_rows s'' = (if sq then drop (l - t) (storage_rows s) else take t (storage_rows s))"
proof -
  have le: "l - t \<le> l" by simp
  obtain s' where s': "sto_rotate (int (l - t)) s = Some s'" "sto_inv cols l l sq s'"
      "\<And>i. i < t \<Longrightarrow> storage_rows s' ! (if sq then i else i + (l - t)) =
                        storage_rows s ! (if sq then i + (l - t) else i)"
  proof (cases sq)
    case True
    then have seq: "sto_is_sequential s" using assms(1) by (simp add: sto_inv_def)
    show thesis
      using sto_extend_eq [OF assms(1) le] that seq True assms(3) by (auto simp: sto_extend_def)
  next
    case False
    then have seq: "\<not> sto_is_sequential s" using assms(1) by (simp add: sto_inv_def)
    show thesis
      using sto_retract_eq [OF assms(1) le] that seq False assms(3) by (auto simp: sto_retract_def)
  qed
  let ?u = "s'\<lparr>sto_visible_lines := t\<rparr>"
  have u: "sto_inv cols l t sq ?u" using s'(2) assms(3) by (simp add: sto_inv_def)
  have lt: "l - t < l" "t \<le> l - (l - t)" "l - (l - t) = t" using assms(2,3) by auto
  obtain w where w: "sto_shrink_lines (l - t) ?u = Some w" "sto_inv cols t t sq w"
      "storage_rows w = (if sq then take t (storage_rows ?u) else drop (l - t) (storage_rows ?u))"
    using sto_shrink_lines_eq [OF u lt(1,2)] lt(3) by auto
  have vis: "sto_shrink_visible_lines t s' = Some w"
    using w(1) sto_shrink_lines_visible [of "l - t" t s'] s'(2) assms(3)
    by (cases "sto_shrink_lines (l - t) s'")
      (auto simp: sto_shrink_visible_lines_def checked_sub_def sto_inv_def)
  have ru: "storage_rows ?u = storage_rows s'" by (simp add: storage_rows_def sto_idx_def Let_def)
  have len: "sto_len s' = l" "sto_len s = l" "sto_len w = t" using s'(2) assms(1) w(2) by (simp_all add: sto_inv_def)
  have "storage_rows w = (if sq then drop (l - t) (storage_rows s) else take t (storage_rows s))"
  proof (intro nth_equalityI)
    show "length (storage_rows w) =
        length (if sq then drop (l - t) (storage_rows s) else take t (storage_rows s))"
      using len assms(3) by auto
    fix i assume "i < length (storage_rows w)"
    then have i: "i < t" using len by simp
    show "storage_rows w ! i = (if sq then drop (l - t) (storage_rows s) else take t (storage_rows s)) ! i"
      using i s'(3) [OF i] len assms(3) by (auto simp: w(3) ru add.commute)
  qed
  then show ?thesis using s'(1) vis w(2) by blast
qed

section \<open>Growing and shrinking the lines of a grid without scrollback\<close>

text \<open>No operation of the ring changes its direction.\<close>

lemma seq_mut: "sto_mut i f s = Some s' \<Longrightarrow> sto_is_sequential s' = sto_is_sequential s"
  by (auto simp: sto_mut_def bind_eq_Some_conv)

lemma seq_swap: "sto_swap a b s = Some s' \<Longrightarrow> sto_is_sequential s' = sto_is_sequential s"
  by (auto simp: sto_swap_def bind_eq_Some_conv)

lemma seq_rotate: "sto_rotate n s = Some s' \<Longrightarrow> sto_is_sequential s' = sto_is_sequential s"
  by (auto simp: sto_rotate_def Let_def split: if_splits)

lemma seq_extend: "sto_extend n s = Some s' \<Longrightarrow> sto_is_sequential s' = sto_is_sequential s"
  by (auto simp: sto_extend_def dest: seq_rotate)

lemma seq_initialize: "sto_is_sequential (sto_initialize n cols s) = sto_is_sequential s"
  by (simp add: sto_initialize_def sto_rezero_def Let_def)

lemma seq_fold:
  assumes "\<And>x s s'. f x s = Some s' \<Longrightarrow> sto_is_sequential s' = sto_is_sequential s"
  shows "fold_m f xs s = Some s' \<Longrightarrow> sto_is_sequential s' = sto_is_sequential s"
  by (induction xs arbitrary: s) (auto simp: bind_eq_Some_conv dest: assms)

lemma seq_reset_visible:
  "reset_visible_rows ls g = Some g' \<Longrightarrow> sto_is_sequential (g_raw g') = sto_is_sequential (g_raw g)"
  by (auto simp: reset_visible_rows_def bind_eq_Some_conv sto_mut_visible_def
      dest!: seq_fold [rotated] dest: seq_mut)

lemma bind_SomeE:
  "Option.bind m f = Some y \<Longrightarrow> (\<And>x. m = Some x \<Longrightarrow> f x = Some y \<Longrightarrow> Q) \<Longrightarrow> Q"
  by (cases m) auto

lemma seq_scroll_up:
  assumes "g_scroll_up a b n g = Some g'"
  shows "sto_is_sequential (g_raw g') = sto_is_sequential (g_raw g)"
proof -
  have size: "checked_sub b a = Some (b - a)"
    using assms by (simp add: g_scroll_up_def checked_sub_def split: if_splits)
  show ?thesis
  proof (cases "n \<ge> b - a \<and> a \<noteq> 0")
    case True
    then show ?thesis
      using assms unfolding g_scroll_up_def size bind.bind_lunit Let_def if_P [OF True]
      by (rule_tac seq_reset_visible)
  next
    case False
    obtain g1 r1 r2 m r3 k r4 where s: "g_increase_scroll_limit n g = Some g1"
        "fold_m (\<lambda>i. sto_swap i (i + n)) (rev [0..<a]) (g_raw g1) = Some r1"
        "sto_extend (int n) r1 = Some r2"
        "fold_m (\<lambda>i. sto_mut i (row_reset (cur_template (g_cursor g)))) [m..<sto_len r2] r2 = Some r3"
        "fold_m (\<lambda>i s. do { q \<leftarrow> checked_sub (g_rows g1 - i - 1) n; sto_swap (g_rows g1 - i - 1) q s })
           [0..<k] r3 = Some r4"
        "g_raw g' = r4"
      using assms unfolding g_scroll_up_def size bind.bind_lunit Let_def if_not_P [OF False]
      by (elim bind_SomeE)
         (rule that, assumption, assumption, assumption, assumption, assumption, auto split: if_splits)
    have "sto_is_sequential (g_raw g1) = sto_is_sequential (g_raw g)"
      using s(1) by (auto simp: g_increase_scroll_limit_def bind_eq_Some_conv seq_initialize Let_def
          split: if_splits)
    moreover have "sto_is_sequential r1 = sto_is_sequential (g_raw g1)"
      by (rule seq_fold [OF seq_swap s(2)])
    moreover have "sto_is_sequential r3 = sto_is_sequential r2" by (rule seq_fold [OF seq_mut s(4)])
    moreover have "sto_is_sequential r4 = sto_is_sequential r3"
      by (rule seq_fold [OF _ s(5)]) (auto simp: bind_eq_Some_conv dest: seq_swap)
    ultimately show ?thesis using seq_extend [OF s(3)] s(6) by simp
  qed
qed

text \<open>Everything of a grid but its buffer and its number of lines and columns.\<close>

definition same_cursors :: "grid \<Rightarrow> grid \<Rightarrow> bool" where
  "same_cursors g g' \<longleftrightarrow>
     g_cursor g' = g_cursor g \<and> g_saved_cursor g' = g_saved_cursor g \<and>
     g_max_cursor_row g' = g_max_cursor_row g \<and> g_max_cursor_col g' = g_max_cursor_col g \<and>
     sto_is_sequential (g_raw g') = sto_is_sequential (g_raw g)"

lemma decrease_no_history: "g_history_size g = Some 0 \<Longrightarrow> g_decrease_scroll_limit n g = Some g"
  by (simp add: g_decrease_scroll_limit_def)

lemma cursor_row_id [simp]: "(c::cursor)\<lparr>cur_row := cur_row c\<rparr> = c"
  by (cases c) simp

lemma cursors_id [simp]:
  "g\<lparr>g_saved_cursor := g_saved_cursor g, g_cursor := g_cursor g, g_max_cursor_row := g_max_cursor_row g\<rparr> =
   (g::grid)"
  by (cases g) simp

lemma g_grow_lines_eq:
  assumes "buf_ok g" "g_rows g < n"
  shows "\<exists>g'. g_grow_lines n g = Some g' \<and> buf_ok g' \<and> g_rows g' = n \<and>
     g_columns g' = g_columns g \<and> same_cursors g g' \<and>
     (\<not> sto_is_sequential (g_raw g) \<longrightarrow>
        grid_rows g' = grid_rows g @ replicate (n - g_rows g)
          (row_blank (g_columns g) (c_bg (cur_template (g_cursor g))))) \<and>
     (sto_is_sequential (g_raw g) \<longrightarrow>
        (\<forall>i. i + (n - g_rows g) < g_rows g \<longrightarrow> grid_rows g' ! i = grid_rows g ! (i + (n - g_rows g))))"
proof -
  note G = buf_ok_simps [OF assms(1)]
  define R d sq where "R = g_rows g" and "d = n - g_rows g" and "sq = sto_is_sequential (g_raw g)"
  have n: "n = R + d" "0 < d" using assms(2) by (simp_all add: R_def d_def)
  let ?B = "row_blank (g_columns g) (c_bg (cur_template (g_cursor g)))"
  have inv: "sto_inv (g_columns g) R R sq (g_raw g)"
    using buf_ok_sto [OF assms(1)] by (simp add: R_def sq_def)
  have pos: "0 < R" using G(1) by (simp add: R_def)
  obtain raw where raw: "sto_grow_visible_lines (R + d) (g_raw g) = Some raw"
      "sto_inv (g_columns g) (R + d) (R + d) sq raw"
      "\<And>i. i < R \<Longrightarrow> storage_rows raw ! (if sq then i else i + d) = grid_rows g ! i"
    using sto_grow_visible_lines_eq [OF inv G(2) pos, of d] by (auto simp: grid_rows_def)
  let ?h = "g\<lparr>g_raw := raw, g_rows := n\<rparr>"
  have sqr: "sto_is_sequential raw = sq" using raw(2) by (simp add: sto_inv_def)
  have h: "buf_ok ?h" using raw(2) G(2,3) n pos by (simp add: buf_ok_def sqr)
  obtain g' where g': "g_scroll_up 0 n d ?h = Some g'" "buf_ok g'" "same_frame ?h g'"
      "grid_rows g' = scroll_up_rows 0 n d ?B (grid_rows ?h)"
    using g_scroll_up_eq [OF h, of 0 n d] n by auto
  have seq: "sto_is_sequential (g_raw g') = sq" using seq_scroll_up [OF g'(1)] sqr by simp
  have fr: "g_rows g' = n" "g_columns g' = g_columns g" "g_cursor g' = g_cursor g"
      "g_saved_cursor g' = g_saved_cursor g" "g_max_cursor_row g' = g_max_cursor_row g"
      "g_max_cursor_col g' = g_max_cursor_col g"
    using g'(3) by (simp_all add: same_frame_def)
  have len: "length (grid_rows ?h) = n" "length (grid_rows g) = R"
    using buf_ok_simps(7) [OF h] G(7) by (simp_all add: R_def)
  have sub: "checked_sub n (g_rows g) = Some d" using n by (simp add: checked_sub_def R_def)
  have raw': "sto_grow_visible_lines n (g_raw g) = Some raw" using raw(1) n by simp
  have eq: "g_grow_lines n g = Some g'"
    using raw' sub g'(1) n(2) buf_ok_simps(6) [OF h] buf_ok_simps(6) [OF g'(2)]
    by (simp add: g_grow_lines_def decrease_no_history)
  have rows: "grid_rows g' ! i = (if i < R then storage_rows raw ! (i + d) else ?B)" if "i < n" for i
    using that len n by (simp add: g'(4) scroll_up_rows_nth) (simp add: grid_rows_def)
  have "grid_rows g' = grid_rows g @ replicate d ?B" if "\<not> sq"
    using that raw(3) buf_ok_simps(7) [OF g'(2)] fr(1) len n
    by (intro nth_equalityI) (auto simp: rows nth_append)
  moreover have "grid_rows g' ! i = grid_rows g ! (i + d)" if "sq" "i + d < R" for i
    using that raw(3) [of "i + d"] rows [of i] n by auto
  ultimately show ?thesis
    using eq g'(2) fr seq by (auto simp: same_cursors_def sq_def d_def R_def)
qed

lemma g_shrink_lines_eq:
  assumes "buf_ok g" "0 < t" "t < g_rows g" "cur_row (g_cursor g) < g_rows g"
  shows "\<exists>g'. g_shrink_lines t g = Some g' \<and> buf_ok g' \<and> g_rows g' = t \<and>
     g_columns g' = g_columns g \<and>
     g_cursor g' = (g_cursor g)\<lparr>cur_row := min (cur_row (g_cursor g)) (t - 1)\<rparr> \<and>
     g_saved_cursor g' = (g_saved_cursor g)\<lparr>cur_row := min (cur_row (g_saved_cursor g)) (t - 1)\<rparr> \<and>
     g_max_cursor_row g' = min (g_max_cursor_row g) (t - 1) \<and> g_max_cursor_col g' = g_max_cursor_col g \<and>
     sto_is_sequential (g_raw g') = sto_is_sequential (g_raw g) \<and>
     (\<not> sto_is_sequential (g_raw g) \<longrightarrow>
        grid_rows g' = take t (drop (cur_row (g_cursor g) + 1 - t) (grid_rows g)))"
proof -
  note G = buf_ok_simps [OF assms(1)]
  define k where "k = cur_row (g_cursor g) + 1 - t"
  let ?B = "row_blank (g_columns g) (c_bg (cur_template (g_cursor g)))"
  have last: "checked_sub t 1 = Some (t - 1)" using assms(2) by (simp add: checked_sub_def)
  obtain g1 where g1: "buf_ok g1" "same_frame g g1" "sto_is_sequential (g_raw g1) = sto_is_sequential (g_raw g)"
      "take t (grid_rows g1) = take t (drop k (grid_rows g))"
      "(if k > 0 then do { g \<leftarrow> g_scroll_up 0 (g_rows g) k g;
          Some (g\<lparr>g_cursor := (g_cursor g)\<lparr>cur_row := min (cur_row (g_cursor g)) (t - 1)\<rparr>\<rparr>) }
        else Some g) =
       Some (g1\<lparr>g_cursor := (g_cursor g1)\<lparr>cur_row := min (cur_row (g_cursor g1)) (t - 1)\<rparr>\<rparr>)"
  proof (cases "k > 0")
    case True
    have k: "k \<le> g_rows g" "t \<le> g_rows g - k" using assms(2-4) by (auto simp: k_def)
    obtain g1 where s: "g_scroll_up 0 (g_rows g) k g = Some g1" "buf_ok g1" "same_frame g g1"
        "grid_rows g1 = scroll_up_rows 0 (g_rows g) k ?B (grid_rows g)"
      using g_scroll_up_eq [OF assms(1), of 0 "g_rows g" k] k by auto
    have "take t (grid_rows g1) = take t (drop k (grid_rows g))"
      using k G(7) by (simp add: s(4) scroll_up_rows_def)
    then show thesis using that s seq_scroll_up [OF s(1)] True by simp
  next
    case False
    then have "min (cur_row (g_cursor g)) (t - 1) = cur_row (g_cursor g)" "k = 0"
      using assms(2) by (auto simp: k_def)
    then show thesis using that [of g] assms(1) by simp
  qed
  have fr: "g_rows g1 = g_rows g" "g_columns g1 = g_columns g" "g_cursor g1 = g_cursor g"
      "g_saved_cursor g1 = g_saved_cursor g" "g_max_cursor_row g1 = g_max_cursor_row g"
      "g_max_cursor_col g1 = g_max_cursor_col g" "g_max_scroll_limit g1 = g_max_scroll_limit g"
    using g1(2) by (simp_all add: same_frame_def)
  obtain r1 r2 where r: "sto_rotate (int (g_rows g - t)) (g_raw g1) = Some r1"
      "sto_shrink_visible_lines t r1 = Some r2"
      "sto_inv (g_columns g) t t (sto_is_sequential (g_raw g)) r2"
      "storage_rows r2 = (if sto_is_sequential (g_raw g) then drop (g_rows g - t) (grid_rows g1)
                          else take t (grid_rows g1))"
    using sto_shrink_visible_lines_eq [OF buf_ok_sto [OF g1(1)] assms(2)] assms(3) fr g1(3)
    by (auto simp: grid_rows_def)
  let ?c = "(g_cursor g)\<lparr>cur_row := min (cur_row (g_cursor g)) (t - 1)\<rparr>"
  let ?s = "(g_saved_cursor g)\<lparr>cur_row := min (cur_row (g_saved_cursor g)) (t - 1)\<rparr>"
  let ?g = "g1\<lparr>g_cursor := ?c, g_saved_cursor := ?s, g_max_cursor_row := min (g_max_cursor_row g) (t - 1),
              g_raw := r2, g_rows := t\<rparr>"
  have "g_shrink_lines t g = Some ?g"
    unfolding g_shrink_lines_def Let_def last bind.bind_lunit k_def [symmetric] g1(5)
    using r(1,2) fr assms(3) by (simp add: checked_sub_def)
  moreover have "buf_ok ?g"
    using r(3) G(2,3) fr assms(2) by (simp add: buf_ok_def sto_inv_def)
  moreover have "sto_is_sequential r2 = sto_is_sequential (g_raw g)" using r(3) by (simp add: sto_inv_def)
  ultimately show ?thesis
    using fr r(4) g1(4) by (auto simp: grid_rows_def k_def)
qed

section \<open>Changing the columns without reflow\<close>

text \<open>A row cut or padded to the new width.\<close>

definition fit_row :: "nat \<Rightarrow> row \<Rightarrow> row" where
  "fit_row columns r = fst (row_shrink columns (row_grow columns r))"

text \<open>Rows whose clean cells have the background that \<open>grow\<close> appends.\<close>

definition grow_safe :: "row \<Rightarrow> bool" where
  "grow_safe r \<longleftrightarrow> row_occ r = row_len r \<or> c_bg (last (row_inner r)) = Named Background"

lemma row_ok_grow:
  assumes "row_ok c r" "c < c'" "grow_safe r"
  shows "row_ok c' (row_grow c' r)"
proof -
  have r: "length (row_inner r) = c" "row_occ r \<le> c" "row_inner r \<noteq> []"
      "list_all (\<lambda>x. x = cell_from (c_bg (last (row_inner r)))) (drop (row_occ r) (row_inner r))"
    using assms(1) by (simp_all add: row_ok_def row_clean_def row_len_def)
  have g: "row_grow c' r = r\<lparr>row_inner := row_inner r @ replicate (c' - c) cell_default\<rparr>"
    using r(1) assms(2) by (simp add: row_grow_def row_len_def)
  have "list_all (\<lambda>x. x = cell_default) (drop (row_occ r) (row_inner r))"
    using assms(3) r by (auto simp: grow_safe_def row_len_def cell_default_eq)
  then show ?thesis
    using r assms(2) by (simp add: g row_ok_def row_clean_def row_len_def cell_default_eq
        last_replicate list_all_iff)
qed

lemma row_ok_shrink:
  assumes "row_ok c r" "0 < c'" "c' < c"
  shows "row_ok c' (fst (row_shrink c' r))"
proof -
  have r: "length (row_inner r) = c" "row_occ r \<le> c" and cl: "row_clean r"
    using assms(1) by (simp_all add: row_ok_def row_clean_def row_len_def)
  have blank: "row_inner r ! i = cell_from (c_bg (row_inner r ! (c - 1)))"
    if "row_occ r \<le> i" "i < c" for i
    using cl [unfolded row_clean_nth row_len_def r(1)] that by blast
  let ?r = "\<lparr>row_inner = take c' (row_inner r), row_occ = min (row_occ r) c'\<rparr>"
  have s: "fst (row_shrink c' r) = ?r"
    using r(1) assms(3) by (simp add: row_shrink_def row_len_def Let_def)
  have len: "row_len ?r = c'" "row_inner ?r \<noteq> []" using r(1) assms(2,3) by (auto simp: row_len_def)
  have "row_clean ?r"
    unfolding row_clean_nth len(1)
  proof (intro conjI allI impI len(2))
    show "row_occ ?r \<le> c'" by simp
    fix i assume "row_occ ?r \<le> i" "i < c'"
    then have le: "row_occ r \<le> i" "row_occ r \<le> c' - 1" "i < c" "c' - 1 < c" "i < c'" "c' - 1 < c'"
      using assms(2,3) by auto
    show "row_inner ?r ! i = cell_from (c_bg (row_inner ?r ! (c' - 1)))"
      using blank [OF le(1,3)] blank [OF le(2,4)] le(5,6) by simp
  qed
  then show ?thesis unfolding s row_ok_def using len(1) by simp
qed

lemma fit_row_grow: "row_len r < c \<Longrightarrow> fit_row c r = row_grow c r"
  by (simp add: fit_row_def row_shrink_def row_grow_def row_len_def)

lemma fit_row_shrink: "c \<le> row_len r \<Longrightarrow> fit_row c r = fst (row_shrink c r)"
  by (simp add: fit_row_def row_grow_def)

lemma fit_row_same: "row_len r = c \<Longrightarrow> fit_row c r = r"
  by (simp add: fit_row_shrink row_shrink_def)

lemma sto_take_all_eq:
  assumes "sto_inv cols l l sq s" "0 < l"
  shows "snd (sto_take_all s) = (if sq then storage_rows s else rev (storage_rows s))"
proof -
  note t = sto_truncate_unused_eq [OF assms]
  have "sto_len (sto_truncate_unused_rows s) = l" "sto_is_sequential (sto_truncate_unused_rows s) = sq"
    using t(1) by (simp_all add: sto_inv_def)
  then have "storage_rows s = (if sq then sto_inner (sto_truncate_unused_rows s)
                               else rev (sto_inner (sto_truncate_unused_rows s)))"
    using zeroed_rows [of "sto_truncate_unused_rows s"] t(2-4) by simp
  then show ?thesis by (simp add: sto_take_all_def Let_def)
qed

lemma sto_replace_inner_eq:
  assumes "sto_inv cols l l sq s" "0 < l" "list_all (row_ok c) v" "length v = l"
  shows "sto_inv c l l sq (sto_replace_inner v (fst (sto_take_all s)))"
    "storage_rows (sto_replace_inner v (fst (sto_take_all s))) = (if sq then v else rev v)"
proof -
  let ?z = "sto_replace_inner v (fst (sto_take_all s))"
  note t = sto_truncate_unused_eq [OF assms(1,2)]
  have z: "sto_inner ?z = v" "sto_bottom_row ?z = 0" "sto_len ?z = l" "sto_visible_lines ?z = l"
      "sto_is_sequential ?z = sq"
    using t(1) assms(4) by (simp_all add: sto_replace_inner_def sto_take_all_def Let_def sto_inv_def)
  show "sto_inv c l l sq ?z" using z assms(2-4) by (simp add: sto_inv_def)
  show "storage_rows ?z = (if sq then v else rev v)"
    using zeroed_rows [of ?z] z assms(4) by simp
qed

lemma map_snd_enumerate: "map (\<lambda>ir. f (snd ir)) (enumerate n xs) = map f xs"
  by (induction xs arbitrary: n) auto

lemma grow_fold:
  "fold_m (grow_cols_row ff False cols t) irs (rv, g, 0) = Some (rv @ map snd irs, g, 0)"
  by (induction irs arbitrary: rv) (simp_all add: grow_cols_row_def should_reflow_def)

lemma shrink_fold:
  "fold_m (shrink_cols_row False cols) irs (rv, None, g) =
     Some (rv @ map (\<lambda>ir. fst (row_shrink cols (snd ir))) irs, None, g)"
  by (induction irs arbitrary: rv)
     (simp_all add: shrink_cols_row_def shrink_body_def overflow_cells_def Let_def)

text \<open>Both routines, on a grid without scrollback: every row is fitted, the columns of
  the cursors are clamped.\<close>

definition clamp_col :: "nat \<Rightarrow> cursor \<Rightarrow> cursor" where
  "clamp_col columns c = c\<lparr>cur_col := min (cur_col c) (columns - 1)\<rparr>"

lemma cursor_col_id: "cur_col c < n \<Longrightarrow> clamp_col n c = c"
  by (cases c) (simp add: clamp_col_def)

lemma map_rev_if: "(if b then map f xs else rev (map f (rev xs))) = map f xs"
  by (simp add: rev_map)

lemma g_grow_cols_eq:
  assumes "buf_ok g" "g_columns g < c" "\<forall>r\<in>set (grid_rows g). grow_safe r"
    "cur_row (g_cursor g) < g_rows g"
  shows "\<exists>g'. g_grow_cols ff False c g = Some g' \<and> buf_ok g' \<and> g_rows g' = g_rows g \<and>
     g_columns g' = c \<and> same_cursors g g' \<and> grid_rows g' = map (fit_row c) (grid_rows g)"
proof -
  note G = buf_ok_simps [OF assms(1)]
  note inv = buf_ok_sto [OF assms(1)]
  define sq where "sq = sto_is_sequential (g_raw g)"
  let ?xs = "snd (sto_take_all (g_raw g))" and ?f = "row_grow c"
  have xs: "?xs = (if sq then grid_rows g else rev (grid_rows g))"
    using sto_take_all_eq [OF inv G(1)] by (simp add: sq_def grid_rows_def)
  have lx: "length ?xs = g_rows g" using G(7) by (simp add: xs)
  have ok: "row_ok (g_columns g) r" if "r \<in> set (grid_rows g)" for r
    using that grid_row_ok [OF assms(1)] G(7) by (auto simp: in_set_conv_nth)
  have okf: "list_all (row_ok c) (map ?f ?xs)"
    using ok assms(2,3) by (auto simp: list_all_iff xs intro!: row_ok_grow)
  have fit: "?f r = fit_row c r" if "r \<in> set (grid_rows g)" for r
    using ok [OF that] assms(2) by (simp add: fit_row_grow row_ok_def)
  note rep = sto_replace_inner_eq [OF inv G(1) okf]
  let ?raw = "sto_replace_inner (map ?f ?xs) (fst (sto_take_all (g_raw g)))"
  let ?g = "g\<lparr>g_columns := c, g_raw := ?raw\<rparr>"
  have lr: "length (map ?f ?xs) = g_rows g" using lx by simp
  have cur: "cur_row (g_cursor g) \<le> g_rows g - 1" "Suc 0 \<le> g_rows g" using assms(4) by auto
  have up: "cursors_up 0 h = h" for h by (cases h) (simp add: cursors_up_def)
  have "g_grow_cols ff False c g = Some ?g"
    using lx cur G(1) by (simp add: g_grow_cols_def start_cols_def grow_fold rev_map [symmetric] Let_def checked_sub_def up)
  moreover have "sto_is_sequential ?raw = sq" using rep(1) [OF lr] by (simp add: sto_inv_def sq_def)
  moreover have "buf_ok ?g"
    using rep(1) [OF lr] G(1,2,3) assms(2) calculation(2) by (simp add: buf_ok_def sq_def)
  moreover have "grid_rows ?g = map (fit_row c) (grid_rows g)"
    using rep(2) [OF lr] fit by (auto simp: grid_rows_def sq_def xs [unfolded grid_rows_def] rev_map)
  ultimately show ?thesis by (auto simp: same_cursors_def sq_def)
qed

lemma g_shrink_cols_eq:
  assumes "buf_ok g" "c < g_columns g" "0 < c"
  shows "\<exists>g'. g_shrink_cols False c g = Some g' \<and> buf_ok g' \<and> g_rows g' = g_rows g \<and>
     g_columns g' = c \<and> g_cursor g' = clamp_col c (g_cursor g) \<and>
     g_saved_cursor g' = clamp_col c (g_saved_cursor g) \<and>
     g_max_cursor_row g' = g_max_cursor_row g \<and> g_max_cursor_col g' = min (g_max_cursor_col g) (c - 1) \<and>
     sto_is_sequential (g_raw g') = sto_is_sequential (g_raw g) \<and>
     grid_rows g' = map (fit_row c) (grid_rows g)"
proof -
  note G = buf_ok_simps [OF assms(1)]
  note inv = buf_ok_sto [OF assms(1)]
  define sq where "sq = sto_is_sequential (g_raw g)"
  let ?xs = "snd (sto_take_all (g_raw g))" and ?f = "\<lambda>r. fst (row_shrink c r)"
  have xs: "?xs = (if sq then grid_rows g else rev (grid_rows g))"
    using sto_take_all_eq [OF inv G(1)] by (simp add: sq_def grid_rows_def)
  have lx: "length ?xs = g_rows g" using G(7) by (simp add: xs)
  have ok: "row_ok (g_columns g) r" if "r \<in> set (grid_rows g)" for r
    using that grid_row_ok [OF assms(1)] G(7) by (auto simp: in_set_conv_nth)
  have okf: "list_all (row_ok c) (map ?f ?xs)"
    using ok row_ok_shrink [OF _ assms(3,2)] by (auto simp: list_all_iff xs)
  have fit: "?f r = fit_row c r" if "r \<in> set (grid_rows g)" for r
    using ok [OF that] assms(2) by (simp add: fit_row_shrink row_ok_def)
  have lr: "length (map ?f ?xs) = g_rows g" using lx by simp
  note rep = sto_replace_inner_eq [OF inv G(1) okf lr]
  let ?raw = "sto_replace_inner (map ?f ?xs) (fst (sto_take_all (g_raw g)))"
  have fold: "fold_m (shrink_cols_row False c) (rev (enumerate 0 ?xs)) ([], None, h) =
      Some (rev (map ?f ?xs), None, h)" for h
    using shrink_fold [of c "rev (enumerate 0 ?xs)" "[]" h]
    by (simp add: rev_map [symmetric] map_snd_enumerate [of ?f])
  let ?g = "g\<lparr>g_columns := c, g_raw := ?raw, g_cursor := clamp_col c (g_cursor g),
              g_max_cursor_col := min (g_max_cursor_col g) (c - 1),
              g_saved_cursor := clamp_col c (g_saved_cursor g)\<rparr>"
  have "g_shrink_cols False c g = Some ?g"
    using lx G(3) assms(3) by (simp add: g_shrink_cols_def start_cols_def fold Let_def checked_sub_def clamp_col_def)
  moreover have "sto_is_sequential ?raw = sq" using rep(1) by (simp add: sto_inv_def sq_def)
  moreover have "buf_ok ?g"
    using rep(1) G(1,2,3) assms(3) calculation(2) by (simp add: buf_ok_def sq_def)
  moreover have "grid_rows ?g = map (fit_row c) (grid_rows g)"
    using rep(2) fit by (auto simp: grid_rows_def sq_def xs [unfolded grid_rows_def] rev_map)
  ultimately show ?thesis by (auto simp: sq_def)
qed

section \<open>Resizing without reflow\<close>

text \<open>What a resize shows: the rows fitted to the width; more lines are blank lines at
  the bottom, fewer lines are those that keep the cursor on the screen.\<close>

definition resized_rows :: "nat \<Rightarrow> nat \<Rightarrow> nat \<Rightarrow> row list \<Rightarrow> row list" where
  "resized_rows cursor_row lines columns rows =
     (if length rows \<le> lines
      then map (fit_row columns) rows @ replicate (lines - length rows) (row_new columns)
      else take lines (drop (cursor_row + 1 - lines) (map (fit_row columns) rows)))"

definition clamp_cursor :: "nat \<Rightarrow> nat \<Rightarrow> cursor \<Rightarrow> cursor" where
  "clamp_cursor lines columns c =
     c\<lparr>cur_row := min (cur_row c) (lines - 1), cur_col := min (cur_col c) (columns - 1)\<rparr>"

definition resized :: "nat \<Rightarrow> nat \<Rightarrow> grid \<Rightarrow> grid \<Rightarrow> bool" where
  "resized lines columns g g' \<longleftrightarrow>
     g_rows g' = lines \<and> g_columns g' = columns \<and>
     g_cursor g' = clamp_cursor lines columns (g_cursor g) \<and>
     g_saved_cursor g' = clamp_cursor lines columns (g_saved_cursor g) \<and>
     g_max_cursor_row g' = min (g_max_cursor_row g) (lines - 1) \<and>
     g_max_cursor_col g' = min (g_max_cursor_col g) (columns - 1) \<and>
     grid_rows g' = resized_rows (cur_row (g_cursor g)) lines columns (grid_rows g)"

end
