(* ===== verification/Flat_Attributes.thy ===== *)
theory Flat_Attributes
  imports Row
begin

text \<open>
  The attribute maps of the flat scrollback storage
  (\<^verbatim>\<open>crates/warp_terminal/src/model/grid/flat_storage/attribute_map.rs\<close> and
  \<^verbatim>\<open>style.rs\<close>).  A map gives every byte of the content a value by the ranges on which it
  is constant; \<open>am_value\<close> is that value.  \<open>BTreeMap\<close> is its list of entries in the order of
  the keys; the locale \<open>ordered_map\<close> states what its users rely on.
\<close>

section \<open>Ordered maps\<close>

type_synonym 'v btree = "(nat \<times> 'v) list"

definition btree_sorted :: "'v btree \<Rightarrow> bool" where
  "btree_sorted m \<longleftrightarrow> sorted_wrt (<) (map fst m)"

fun btree_insert :: "nat \<Rightarrow> 'v \<Rightarrow> 'v btree \<Rightarrow> 'v btree" where
  "btree_insert k v [] = [(k, v)]"
| "btree_insert k v ((k', v') # m) =
     (if k < k' then (k, v) # (k', v') # m else if k = k' then (k, v) # m
      else (k', v') # btree_insert k v m)"

text \<open>\<open>split_off(&k)\<close>: what stays and what is returned.\<close>

definition btree_below :: "nat \<Rightarrow> 'v btree \<Rightarrow> 'v btree" where
  "btree_below k m = filter (\<lambda>e. fst e < k) m"

definition btree_from :: "nat \<Rightarrow> 'v btree \<Rightarrow> 'v btree" where
  "btree_from k m = filter (\<lambda>e. k \<le> fst e) m"

definition btree_get :: "nat \<Rightarrow> 'v btree \<Rightarrow> 'v option" where
  "btree_get k m = map_of m k"

lemma btree_insert_set: "btree_sorted m \<Longrightarrow>
  set (btree_insert k v m) = insert (k, v) {e \<in> set m. fst e \<noteq> k}"
  by (induction k v m rule: btree_insert.induct) (auto simp: btree_sorted_def)

lemma btree_sorted_insert: "btree_sorted m \<Longrightarrow> btree_sorted (btree_insert k v m)"
proof (induction k v m rule: btree_insert.induct)
  case (2 k v k' v' m)
  then have m: "btree_sorted m" "\<forall>e\<in>set m. k' < fst e" by (auto simp: btree_sorted_def)
  then show ?case
    using 2 btree_insert_set [OF m(1), of k v] by (auto simp: btree_sorted_def)
qed (simp add: btree_sorted_def)

lemma btree_sorted_sub [simp]:
  "btree_sorted m \<Longrightarrow> btree_sorted (btree_below k m)" "btree_sorted m \<Longrightarrow> btree_sorted (btree_from k m)"
  "btree_sorted []"
  by (simp_all add: btree_sorted_def btree_below_def btree_from_def sorted_wrt_map sorted_wrt_filter)

lemma btree_insert_last:
  "\<forall>e\<in>set m. fst e < k \<Longrightarrow> btree_insert k v m = m @ [(k, v)]"
  by (induction k v m rule: btree_insert.induct) auto

lemma btree_get_insert: "btree_sorted m \<Longrightarrow> btree_get j (btree_insert k v m) =
    (if j = k then Some v else btree_get j m)"
  by (induction k v m rule: btree_insert.induct) (auto simp: btree_get_def btree_sorted_def)

lemma btree_get_below: "btree_get j (btree_below k m) = (if j < k then btree_get j m else None)"
  by (induction m) (auto simp: btree_get_def btree_below_def)

lemma btree_get_from: "btree_get j (btree_from k m) = (if k \<le> j then btree_get j m else None)"
  by (induction m) (auto simp: btree_get_def btree_from_def)

text \<open>What the users of an ordered map rely on.\<close>

locale ordered_map =
  fixes lookup :: "nat \<Rightarrow> 'm \<Rightarrow> 'v option"
    and put :: "nat \<Rightarrow> 'v \<Rightarrow> 'm \<Rightarrow> 'm"
    and below above :: "nat \<Rightarrow> 'm \<Rightarrow> 'm"
    and invar :: "'m \<Rightarrow> bool"
  assumes lookup_put: "invar m \<Longrightarrow> lookup j (put k v m) = (if j = k then Some v else lookup j m)"
    and lookup_below: "invar m \<Longrightarrow> lookup j (below k m) = (if j < k then lookup j m else None)"
    and lookup_above: "invar m \<Longrightarrow> lookup j (above k m) = (if k \<le> j then lookup j m else None)"
    and invar_put: "invar m \<Longrightarrow> invar (put k v m)"
    and invar_below: "invar m \<Longrightarrow> invar (below k m)"
    and invar_above: "invar m \<Longrightarrow> invar (above k m)"
begin

text \<open>An entry beyond the point of a split does not show below it; the entries of a window
  stay.\<close>

lemma below_put: "invar m \<Longrightarrow> n \<le> k \<Longrightarrow> lookup j (below n (put k v m)) = lookup j (below n m)"
  by (simp add: lookup_below lookup_put invar_put)

lemma lookup_put_other: "invar m \<Longrightarrow> j < k \<Longrightarrow> lookup j (put k v m) = lookup j m"
  by (simp add: lookup_put)

lemma lookup_window:
  "invar m \<Longrightarrow> a \<le> j \<Longrightarrow> j < b \<Longrightarrow> lookup j (below b (above a m)) = lookup j m"
  by (simp add: lookup_below lookup_above invar_above)

end

interpretation om: ordered_map btree_get btree_insert btree_below btree_from btree_sorted
  by unfold_locales (simp_all add: btree_get_insert btree_get_below btree_get_from btree_sorted_insert)

section \<open>Attribute maps\<close>

record 'a attribute_map =
  am_map :: "'a btree"
  am_tail :: 'a

definition am_new :: "'a \<Rightarrow> 'a attribute_map" where
  "am_new starting_value = \<lparr>am_map = [], am_tail = starting_value\<rparr>"

definition am_truncate :: "nat \<Rightarrow> 'a attribute_map \<Rightarrow> 'a attribute_map" where
  "am_truncate new_len m =
     (case btree_from new_len (am_map m) of
        [] \<Rightarrow> m\<lparr>am_map := btree_below new_len (am_map m)\<rparr>
      | e # _ \<Rightarrow> m\<lparr>am_map := btree_below new_len (am_map m), am_tail := snd e\<rparr>)"

definition am_truncate_front :: "nat \<Rightarrow> 'a attribute_map \<Rightarrow> 'a attribute_map" where
  "am_truncate_front new_start_offset m = m\<lparr>am_map := btree_from new_start_offset (am_map m)\<rparr>"

definition last_end_offset :: "'a attribute_map \<Rightarrow> nat" where
  "last_end_offset m = (if am_map m = [] then 0 else fst (last (am_map m)))"

text \<open>The value changes at \<open>start\<close>; None is a failed debug assertion.\<close>

definition push_attribute_change :: "nat \<Rightarrow> 'a \<Rightarrow> 'a attribute_map \<Rightarrow> 'a attribute_map option" where
  "push_attribute_change start v m =
     (if v = am_tail m then Some m
      else if start = 0 then (if am_map m = [] then Some (m\<lparr>am_tail := v\<rparr>) else None)
      else if start > last_end_offset m
      then Some (m\<lparr>am_map := btree_insert (start - 1) (am_tail m) (am_map m), am_tail := v\<rparr>)
      else None)"

section \<open>Reading the values in order\<close>

definition USIZE_MAX :: nat where "USIZE_MAX = 2 ^ 64 - 1"

record 'a attribute_iter =
  it_cur_offset :: nat
  it_cur_range :: "nat \<times> 'a"
  it_inner :: "'a btree"
  it_tail :: 'a

definition it_next_range :: "'a btree \<Rightarrow> 'a \<Rightarrow> (nat \<times> 'a) \<times> 'a btree" where
  "it_next_range inner v = (case inner of [] \<Rightarrow> ((USIZE_MAX, v), []) | e # es \<Rightarrow> (e, es))"

definition am_iter_from :: "nat \<Rightarrow> 'a attribute_map \<Rightarrow> 'a attribute_iter" where
  "am_iter_from start_offset m =
     (let r = it_next_range (btree_from start_offset (am_map m)) (am_tail m)
      in \<lparr>it_cur_offset = start_offset, it_cur_range = fst r, it_inner = snd r, it_tail = am_tail m\<rparr>)"

text \<open>The loop of \<open>nth\<close>; the range without a bound ends at \<open>usize::MAX\<close>, which no offset
  exceeds.\<close>

fun it_seek :: "nat \<Rightarrow> nat \<times> 'a \<Rightarrow> 'a btree \<Rightarrow> 'a \<Rightarrow> (nat \<times> 'a) \<times> 'a btree" where
  "it_seek off r [] v = (if off > fst r then ((USIZE_MAX, v), []) else (r, []))"
| "it_seek off r (e # es) v = (if off > fst r then it_seek off e es v else (r, e # es))"

definition it_nth :: "nat \<Rightarrow> 'a attribute_iter \<Rightarrow> 'a \<times> 'a attribute_iter" where
  "it_nth n it =
     (let off = it_cur_offset it + n;
          r = it_seek off (it_cur_range it) (it_inner it) (it_tail it)
      in (snd (fst r), it\<lparr>it_cur_offset := off + 1, it_cur_range := fst r, it_inner := snd r\<rparr>))"

section \<open>The value of a byte\<close>

fun range_value :: "nat \<Rightarrow> 'a btree \<Rightarrow> 'a \<Rightarrow> 'a" where
  "range_value off [] v = v"
| "range_value off (e # es) v = (if off \<le> fst e then snd e else range_value off es v)"

definition am_value :: "'a attribute_map \<Rightarrow> nat \<Rightarrow> 'a" where
  "am_value m off = range_value off (am_map m) (am_tail m)"

text \<open>A map for content that ends before \<open>n\<close>: its ranges are in order and end before \<open>n\<close>.\<close>

definition am_ok :: "nat \<Rightarrow> 'a attribute_map \<Rightarrow> bool" where
  "am_ok n m \<longleftrightarrow> btree_sorted (am_map m) \<and> (\<forall>e\<in>set (am_map m). fst e < n)"

lemma am_ok_mono: "am_ok n m \<Longrightarrow> n \<le> k \<Longrightarrow> am_ok k m"
  by (auto simp: am_ok_def)

lemma range_value_append:
  "\<forall>e\<in>set xs. fst e < off \<Longrightarrow> range_value off (xs @ ys) v = range_value off ys v"
  by (induction xs) auto

lemma range_value_before:
  "\<exists>e\<in>set xs. off \<le> fst e \<Longrightarrow> range_value off (xs @ ys) v = range_value off xs w"
  by (induction xs) auto

lemma range_value_tail: "\<forall>e\<in>set xs. fst e < off \<Longrightarrow> range_value off xs v = v"
  by (induction xs) auto

text \<open>Reading: the iterator started at an offset gives the values of the bytes.\<close>

lemma it_seek_value:
  assumes "btree_sorted (r # inner)"
  shows "snd (fst (it_seek off r inner v)) = range_value off (r # inner) v"
  using assms by (induction off r inner v rule: it_seek.induct) (auto simp: btree_sorted_def)

text \<open>An iterator at an offset of a map.\<close>

definition iter_at :: "'a attribute_map \<Rightarrow> nat \<Rightarrow> 'a attribute_iter \<Rightarrow> bool" where
  "iter_at m off it \<longleftrightarrow>
     it_cur_offset it = off \<and> it_tail it = am_tail m \<and> btree_sorted (it_cur_range it # it_inner it) \<and>
     (\<forall>k\<ge>off. range_value k (it_cur_range it # it_inner it) (am_tail m) = am_value m k)"

lemma range_value_from: "off \<le> k \<Longrightarrow> range_value k (btree_from off m) v = range_value k m v"
  by (induction m) (auto simp: btree_from_def)

lemma next_range_value:
  assumes "btree_sorted inner"
  shows "btree_sorted (fst (it_next_range inner v) # snd (it_next_range inner v))"
    "range_value k (fst (it_next_range inner v) # snd (it_next_range inner v)) v = range_value k inner v"
  using assms by (force simp: it_next_range_def btree_sorted_def split: list.splits)+

lemma iter_from_at:
  assumes "btree_sorted (am_map m)"
  shows "iter_at m off (am_iter_from off m)"
  using next_range_value [OF btree_sorted_sub(2) [OF assms], where v = "am_tail m"]
  by (simp add: iter_at_def am_iter_from_def Let_def am_value_def range_value_from)

lemma it_seek_sorted:
  assumes "btree_sorted (r # inner)"
  shows "btree_sorted (fst (it_seek off r inner v) # snd (it_seek off r inner v))"
    "off \<le> k \<Longrightarrow> range_value k (fst (it_seek off r inner v) # snd (it_seek off r inner v)) v =
       range_value k (r # inner) v"
  using assms by (induction off r inner v rule: it_seek.induct) (auto simp: btree_sorted_def)

lemma it_nth_at:
  assumes "iter_at m off it"
  shows "fst (it_nth n it) = am_value m (off + n)" "iter_at m (off + n + 1) (snd (it_nth n it))"
proof -
  have s: "btree_sorted (it_cur_range it # it_inner it)" using assms by (simp add: iter_at_def)
  show "fst (it_nth n it) = am_value m (off + n)"
    using assms it_seek_value [OF s, of "off + n" "am_tail m"] by (simp add: iter_at_def it_nth_def Let_def)
  show "iter_at m (off + n + 1) (snd (it_nth n it))"
    using assms it_seek_sorted [OF s] by (simp add: iter_at_def it_nth_def Let_def)
qed

text \<open>Writing: a change beyond the last range but one byte sets the value from there on.\<close>

lemma push_attribute_change_ok:
  assumes "am_ok (start - 1) m"
  shows "\<exists>m'. push_attribute_change start v m = Some m' \<and> am_ok start m' \<and> am_tail m' = v \<and>
     (\<forall>k. am_value m' k = (if k < start then am_value m k else v))"
proof -
  have keys: "\<forall>e\<in>set (am_map m). fst e < start - 1" and srt: "btree_sorted (am_map m)"
    using assms by (simp_all add: am_ok_def)
  consider "v = am_tail m" | "v \<noteq> am_tail m" "start = 0" | "v \<noteq> am_tail m" "0 < start" by blast
  then show ?thesis
  proof cases
    case 1
    have "am_value m k = v" if "start \<le> k" for k
    proof -
      have "\<forall>e\<in>set (am_map m). fst e < k" using keys that by (meson diff_le_self less_le_trans)
      then show ?thesis using 1 by (simp add: am_value_def range_value_tail)
    qed
    moreover have "am_ok start m" using am_ok_mono [OF assms] by simp
    ultimately show ?thesis using 1 by (auto simp: push_attribute_change_def)
  next
    case 2
    then have "am_map m = []" using keys by (cases "am_map m") auto
    then show ?thesis using 2 by (simp add: push_attribute_change_def am_ok_def am_value_def)
  next
    case 3
    let ?m = "m\<lparr>am_map := am_map m @ [(start - 1, am_tail m)], am_tail := v\<rparr>"
    have last: "last_end_offset m < start"
      using keys 3 last_in_set [of "am_map m"] by (fastforce simp: last_end_offset_def)
    have eq: "push_attribute_change start v m = Some ?m"
      using 3 last btree_insert_last [OF keys] by (simp add: push_attribute_change_def)
    have "am_value ?m k = (if k < start then am_value m k else v)" for k
    proof (cases "k < start")
      case True
      show ?thesis
      proof (cases "\<exists>e\<in>set (am_map m). k \<le> fst e")
        case T: True
        then have "range_value k (am_map m @ ys) w = range_value k (am_map m) (am_tail m)" for ys w
          by (rule range_value_before)
        then show ?thesis using True by (simp add: am_value_def)
      next
        case F: False
        then have below: "\<forall>e\<in>set (am_map m). fst e < k" by auto
        have "k \<le> start - 1" using True by simp
        then show ?thesis
          using True range_value_append [OF below] range_value_tail [OF below] by (simp add: am_value_def)
      qed
    next
      case False
      then have "\<forall>e\<in>set (am_map m @ [(start - 1, am_tail m)]). fst e < k" using keys 3(2) by auto
      then show ?thesis using False by (simp add: am_value_def range_value_tail)
    qed
    moreover have "am_ok start ?m"
      using keys srt 3(2) by (auto simp: am_ok_def btree_sorted_def sorted_wrt_append)
    ultimately show ?thesis using eq by auto
  qed
qed

text \<open>Truncating at either end keeps the values of the bytes that stay.\<close>

lemma range_value_below:
  assumes "btree_sorted m" "off < n"
  shows "range_value off (btree_below n m) (case btree_from n m of [] \<Rightarrow> v | e # _ \<Rightarrow> snd e) =
         range_value off m v"
  using assms
proof (induction m)
  case (Cons e m)
  have s: "btree_sorted m" and lt: "\<forall>x\<in>set m. fst e < fst x" using Cons.prems(1) by (auto simp: btree_sorted_def)
  show ?case
  proof (cases "fst e < n")
    case True
    then show ?thesis using Cons.IH [OF s Cons.prems(2)] by (simp add: btree_below_def btree_from_def)
  next
    case False
    then have "btree_below n m = []" using lt by (auto simp: btree_below_def filter_empty_conv)
    then show ?thesis using False Cons.prems(2) by (simp add: btree_below_def btree_from_def)
  qed
qed (simp add: btree_below_def btree_from_def)

lemma am_truncate_ok:
  assumes "btree_sorted (am_map m)"
  shows "am_ok n (am_truncate n m)" "off < n \<Longrightarrow> am_value (am_truncate n m) off = am_value m off"
proof -
  have eq: "am_map (am_truncate n m) = btree_below n (am_map m)"
      "am_tail (am_truncate n m) = (case btree_from n (am_map m) of [] \<Rightarrow> am_tail m | e # _ \<Rightarrow> snd e)"
    by (auto simp: am_truncate_def split: list.splits)
  show "am_ok n (am_truncate n m)"
    using assms btree_sorted_sub(1) [OF assms, of n] by (auto simp: am_ok_def eq btree_below_def)
  show "am_value (am_truncate n m) off = am_value m off" if "off < n"
    using range_value_below [OF assms that] by (simp add: am_value_def eq)
qed

lemma am_truncate_front_ok:
  assumes "am_ok k m"
  shows "am_ok k (am_truncate_front n m)" "n \<le> off \<Longrightarrow> am_value (am_truncate_front n m) off = am_value m off"
proof -
  show "am_ok k (am_truncate_front n m)"
    using assms by (auto simp: am_ok_def am_truncate_front_def btree_from_def
        btree_sorted_def sorted_wrt_map sorted_wrt_filter)
  show "am_value (am_truncate_front n m) off = am_value m off" if "n \<le> off"
    using that by (simp add: am_truncate_front_def am_value_def range_value_from)
qed

text \<open>After a truncation the last range may end right before the new end of the content.
  The next change is then written over that range: the bytes before it take the value
  that the removed content had.\<close>

lemma btree_insert_at_last:
  "\<forall>e\<in>set xs. fst e < k \<Longrightarrow> btree_insert k v (xs @ [(k, a)]) = xs @ [(k, v)]"
  by (induction xs) auto

lemma push_after_truncate_overwrites:
  assumes "btree_sorted (am_map m)" "am_map m = ranges @ [(n - 1, a)]" "0 < n" "v \<noteq> am_tail m"
  shows "\<exists>m'. push_attribute_change n v (am_truncate n m) = Some m' \<and>
     am_value m (n - 1) = a \<and> am_value m' (n - 1) = am_tail m"
proof -
  have keys: "\<forall>e\<in>set ranges. fst e < n - 1"
    using assms(1,2) by (auto simp: btree_sorted_def sorted_wrt_append)
  have "btree_from n (am_map m) = []" "btree_below n (am_map m) = am_map m"
    using keys assms(2,3) by (auto simp: btree_from_def btree_below_def filter_empty_conv intro!: filter_True)
  then have t: "am_truncate n m = m" by (simp add: am_truncate_def)
  have "push_attribute_change n v m = Some (m\<lparr>am_map := ranges @ [(n - 1, am_tail m)], am_tail := v\<rparr>)"
    using assms(2-4) btree_insert_at_last [OF keys] by (simp add: push_attribute_change_def last_end_offset_def)
  then show ?thesis
    using range_value_append [OF keys] assms(2) by (simp add: t am_value_def)
qed

end
