(* ===== verification/Flat_Content.thy ===== *)
theory Flat_Content
  imports Flat_Attributes Rust_Std
begin

text \<open>
  The text of the flat scrollback storage in chunks of 1024 bytes
  (\<^verbatim>\<open>crates/warp_terminal/src/model/grid/flat_storage/content.rs\<close>) and the
  graphemes that are pushed into it (\<^verbatim>\<open>grapheme.rs\<close>).  No grapheme straddles two chunks;
  \<open>stored\<close> says that a string can be read back at an offset, and every operation is
  described by what it keeps stored.
\<close>

section \<open>Graphemes\<close>

record grapheme_info =
  gi_cell_width :: nat
  gi_utf8_bytes :: nat

record grapheme =
  gr_info :: grapheme_info
  gr_content :: rust_str

definition EMPTY_CELL :: grapheme where
  "EMPTY_CELL = \<lparr>gr_info = \<lparr>gi_cell_width = 1, gi_utf8_bytes = 1\<rparr>, gr_content = [DEFAULT_CHAR]\<rparr>"

definition NEWLINE :: grapheme where
  "NEWLINE = \<lparr>gr_info = \<lparr>gi_cell_width = 0, gi_utf8_bytes = 1\<rparr>, gr_content = [0x0A]\<rparr>"

definition grapheme_from_cell :: "cell \<Rightarrow> grapheme option" where
  "grapheme_from_cell c =
     (let s = raw_content c; n = str_len s
      in if n = 0 \<or> n \<ge> 2 ^ 16 then None
         else Some \<lparr>gr_info = \<lparr>gi_cell_width = (if bf_contains (c_flags c) WIDE_CHAR then 2 else 1),
                               gi_utf8_bytes = n\<rparr>, gr_content = s\<rparr>)"

definition grapheme_len :: "grapheme \<Rightarrow> nat" where
  "grapheme_len g = gi_utf8_bytes (gr_info g)"

definition starts_new_row :: "grapheme \<Rightarrow> bool" where
  "starts_new_row g \<longleftrightarrow> gr_content g = [0x0A]"

section \<open>Reading UTF-8\<close>

text \<open>\<open>from_utf8_unchecked\<close>: the characters of well-formed bytes.\<close>

fun utf8_decode :: "nat list \<Rightarrow> rust_str" where
  "utf8_decode [] = []"
| "utf8_decode (b # bs) =
     (if b < 0x80 then b # utf8_decode bs
      else if b < 0xE0 then ((b - 0xC0) * 0x40 + (bs ! 0 - 0x80)) # utf8_decode (drop 1 bs)
      else if b < 0xF0
      then ((b - 0xE0) * 0x1000 + (bs ! 0 - 0x80) * 0x40 + (bs ! 1 - 0x80)) # utf8_decode (drop 2 bs)
      else ((b - 0xF0) * 0x40000 + (bs ! 0 - 0x80) * 0x1000 + (bs ! 1 - 0x80) * 0x40 + (bs ! 2 - 0x80))
           # utf8_decode (drop 3 bs))"

definition is_scalar :: "rust_char \<Rightarrow> bool" where
  "is_scalar c \<longleftrightarrow> c < 0x110000"

lemma utf8_decode_char:
  assumes "is_scalar c"
  shows "utf8_decode (utf8_char c @ bs) = c # utf8_decode bs"
proof -
  have d: "c div 64 * 64 + c mod 64 = c" "c div 4096 * 4096 + c div 64 mod 64 * 64 + c mod 64 = c"
      "c div 262144 * 262144 + c div 4096 mod 64 * 4096 + c div 64 mod 64 * 64 + c mod 64 = c"
  proof -
    have e: "c div 4096 = c div 64 div 64" "c div 262144 = c div 64 div 64 div 64"
      by (simp_all add: div_mult2_eq [symmetric])
    have pos: "(x * 64 + y) * 64 + r = n \<Longrightarrow> x * 4096 + y * 64 + r = n" for x y r n :: nat by simp
    have pos3: "((x * 64 + z) * 64 + y) * 64 + r = n \<Longrightarrow> x * 262144 + z * 4096 + y * 64 + r = n"
      for x y z r n :: nat by simp
    have m: "n div 64 * 64 + n mod 64 = n" for n :: nat by simp
    show "c div 64 * 64 + c mod 64 = c" by simp
    have a: "(c div 64 div 64 * 64 + c div 64 mod 64) * 64 + c mod 64 = c" by (simp add: m)
    then show "c div 4096 * 4096 + c div 64 mod 64 * 64 + c mod 64 = c"
      unfolding e by (rule pos)
    have "((c div 64 div 64 div 64 * 64 + c div 64 div 64 mod 64) * 64 + c div 64 mod 64) * 64 + c mod 64 = c"
      using a by (simp only: m)
    then show "c div 262144 * 262144 + c div 4096 mod 64 * 4096 + c div 64 mod 64 * 64 + c mod 64 = c"
      unfolding e by (rule pos3)
  qed
  consider "c < 0x80" | "0x80 \<le> c" "c < 0x800" | "0x800 \<le> c" "c < 0x10000" | "0x10000 \<le> c" by linarith
  then show ?thesis
  proof cases
    case 4
    have "c div 262144 < 8" using assms by (simp add: is_scalar_def)
    then show ?thesis using 4 d(3) by (simp add: utf8_char_def numeral_2_eq_2 numeral_3_eq_3)
  qed (use d in \<open>auto simp: utf8_char_def numeral_2_eq_2\<close>)
qed

lemma utf8_decode_bytes: "list_all is_scalar s \<Longrightarrow> utf8_decode (str_bytes s) = s"
  by (induction s) (simp_all add: str_bytes_def utf8_decode_char)

section \<open>Chunks\<close>

definition CHUNK_SIZE :: nat where "CHUNK_SIZE = 1024"

record chunk =
  ch_len :: nat
  ch_content :: "nat list"
  ch_start_offset :: nat

definition chunk_new :: "nat \<Rightarrow> chunk" where
  "chunk_new start = \<lparr>ch_len = 0, ch_content = replicate CHUNK_SIZE 0, ch_start_offset = start\<rparr>"

definition chunk_push :: "rust_str \<Rightarrow> chunk \<Rightarrow> chunk option" where
  "chunk_push s c =
     (let bs = str_bytes s; e = ch_len c + length bs
      in if e \<le> length (ch_content c)
         then Some (c\<lparr>ch_len := e,
                      ch_content := take (ch_len c) (ch_content c) @ bs @ drop e (ch_content c)\<rparr>)
         else None)"

definition chunk_truncate :: "nat \<Rightarrow> chunk \<Rightarrow> chunk option" where
  "chunk_truncate offset c = do { n \<leftarrow> checked_sub offset (ch_start_offset c); Some (c\<lparr>ch_len := n\<rparr>) }"

definition chunk_end :: "chunk \<Rightarrow> nat" where
  "chunk_end c = ch_start_offset c + ch_len c"

definition chunk_index :: "nat \<Rightarrow> nat \<Rightarrow> chunk \<Rightarrow> rust_str option" where
  "chunk_index s e c =
     (if s \<le> e \<and> e \<le> length (ch_content c) then Some (utf8_decode (take (e - s) (drop s (ch_content c))))
      else None)"

section \<open>Content\<close>

record content =
  co_filled :: "chunk btree"
  co_active :: chunk

definition content_new :: content where
  "content_new = \<lparr>co_filled = [], co_active = chunk_new 0\<rparr>"

definition content_push :: "grapheme \<Rightarrow> content \<Rightarrow> content option" where
  "content_push g c =
     (if grapheme_len g < CHUNK_SIZE
      then do {
        c \<leftarrow> (if ch_len (co_active c) + grapheme_len g > CHUNK_SIZE
             then do {
               last_byte \<leftarrow> checked_sub (chunk_end (co_active c)) 1;
               Some (c\<lparr>co_filled := btree_insert last_byte (co_active c) (co_filled c),
                       co_active := chunk_new (chunk_end (co_active c))\<rparr>)
             } else Some c);
        a \<leftarrow> chunk_push (gr_content g) (co_active c);
        Some (c\<lparr>co_active := a\<rparr>)
      } else None)"

definition content_end :: "content \<Rightarrow> nat" where
  "content_end c = chunk_end (co_active c)"

definition content_truncate :: "nat \<Rightarrow> content \<Rightarrow> content option" where
  "content_truncate new_len c = do {
     let a = (case btree_from new_len (co_filled c) of [] \<Rightarrow> co_active c | e # _ \<Rightarrow> snd e);
     a \<leftarrow> chunk_truncate new_len a;
     Some \<lparr>co_filled = btree_below new_len (co_filled c), co_active = a\<rparr>
   }"

text \<open>The loop removes the first chunks as long as they end before the new start.\<close>

definition content_truncate_front :: "nat \<Rightarrow> content \<Rightarrow> content" where
  "content_truncate_front new_start c =
     c\<lparr>co_filled := dropWhile (\<lambda>e. fst e < new_start) (co_filled c)\<rparr>"

definition content_index :: "nat \<Rightarrow> nat \<Rightarrow> content \<Rightarrow> rust_str option" where
  "content_index s e c =
     (let ch = (case btree_from s (co_filled c) of [] \<Rightarrow> co_active c | x # _ \<Rightarrow> snd x)
      in if s \<ge> ch_start_offset ch \<and> e \<le> chunk_end ch
         then do { a \<leftarrow> checked_sub s (ch_start_offset ch);
                   b \<leftarrow> checked_sub e (ch_start_offset ch);
                   chunk_index a b ch }
         else None)"

section \<open>What is stored\<close>

text \<open>The chunks follow one another; each key is the offset of the last byte of its
  chunk.\<close>

definition chunk_ok :: "chunk \<Rightarrow> bool" where
  "chunk_ok c \<longleftrightarrow> length (ch_content c) = CHUNK_SIZE \<and> ch_len c \<le> CHUNK_SIZE"

fun chain_ok :: "nat \<Rightarrow> chunk btree \<Rightarrow> nat \<Rightarrow> bool" where
  "chain_ok start [] end_offset \<longleftrightarrow> start = end_offset"
| "chain_ok start (e # es) end_offset \<longleftrightarrow>
     ch_start_offset (snd e) = start \<and> 0 < ch_len (snd e) \<and> fst e + 1 = chunk_end (snd e) \<and>
     chunk_ok (snd e) \<and> chain_ok (chunk_end (snd e)) es end_offset"

definition content_ok :: "nat \<Rightarrow> content \<Rightarrow> bool" where
  "content_ok start c \<longleftrightarrow>
     chain_ok start (co_filled c) (ch_start_offset (co_active c)) \<and> chunk_ok (co_active c)"

definition in_chunk :: "nat \<Rightarrow> nat list \<Rightarrow> chunk \<Rightarrow> bool" where
  "in_chunk off bs c \<longleftrightarrow>
     ch_start_offset c \<le> off \<and> off + length bs \<le> chunk_end c \<and>
     take (length bs) (drop (off - ch_start_offset c) (ch_content c)) = bs"

definition stored :: "content \<Rightarrow> nat \<Rightarrow> rust_str \<Rightarrow> bool" where
  "stored c off s \<longleftrightarrow>
     s \<noteq> [] \<and> list_all is_scalar s \<and>
     (\<exists>ch\<in>insert (co_active c) (snd ` set (co_filled c)). in_chunk off (str_bytes s) ch)"

lemma chain_ok_bounds:
  assumes "chain_ok a m b"
  shows "a \<le> b" "e \<in> set m \<Longrightarrow> a \<le> ch_start_offset (snd e) \<and> fst e < b \<and> ch_start_offset (snd e) \<le> fst e \<and>
     fst e + 1 = chunk_end (snd e) \<and> chunk_ok (snd e)"
  using assms
proof (induction a m b rule: chain_ok.induct)
  case (2 start e' es b)
  {
    case 1
    then show ?case using 2 by (auto simp: chunk_end_def)
  next
    case 2
    then show ?case using "2.IH" by (auto simp: chunk_end_def)
  }
qed auto

lemma chain_ok_append:
  "chain_ok a (m @ [e]) b \<longleftrightarrow>
     chain_ok a m (ch_start_offset (snd e)) \<and> 0 < ch_len (snd e) \<and> fst e + 1 = chunk_end (snd e) \<and>
     chunk_ok (snd e) \<and> chunk_end (snd e) = b"
  by (induction m arbitrary: a) auto

text \<open>A grapheme as it is pushed: its length is that of its text and below the size of a
  chunk.\<close>

definition well_sized :: "grapheme \<Rightarrow> bool" where
  "well_sized g \<longleftrightarrow>
     grapheme_len g = str_len (gr_content g) \<and> gr_content g \<noteq> [] \<and> list_all is_scalar (gr_content g) \<and>
     grapheme_len g < CHUNK_SIZE"

lemma chunk_push_ok:
  assumes "chunk_ok c" "ch_len c + str_len s \<le> CHUNK_SIZE"
  shows "\<exists>c'. chunk_push s c = Some c' \<and> chunk_ok c' \<and> ch_start_offset c' = ch_start_offset c \<and>
     ch_len c' = ch_len c + str_len s \<and> in_chunk (chunk_end c) (str_bytes s) c' \<and>
     (\<forall>off bs. in_chunk off bs c \<longrightarrow> in_chunk off bs c')"
proof -
  let ?e = "ch_len c + length (str_bytes s)"
  let ?bs = "take (ch_len c) (ch_content c) @ str_bytes s @ drop ?e (ch_content c)"
  let ?c = "c\<lparr>ch_len := ?e, ch_content := ?bs\<rparr>"
  have len: "length (ch_content c) = CHUNK_SIZE" "ch_len c \<le> CHUNK_SIZE" "?e \<le> CHUNK_SIZE"
    using assms by (simp_all add: chunk_ok_def)
  have eq: "chunk_push s c = Some ?c" using len by (simp add: chunk_push_def Let_def)
  have "chunk_ok ?c" using len by (simp add: chunk_ok_def)
  moreover have "in_chunk (chunk_end c) (str_bytes s) ?c"
    using len by (simp add: in_chunk_def chunk_end_def)
  moreover have "in_chunk off bs ?c" if i: "in_chunk off bs c" for off bs
  proof -
    have le: "ch_start_offset c \<le> off" "off - ch_start_offset c + length bs \<le> ch_len c"
      using i by (auto simp: in_chunk_def chunk_end_def)
    have "take (length bs) (drop (off - ch_start_offset c) ?bs) =
        take (length bs) (drop (off - ch_start_offset c) (ch_content c))"
      using le(2) len by (simp add: take_drop)
    then show ?thesis using i by (simp add: in_chunk_def chunk_end_def)
  qed
  ultimately show ?thesis using eq by auto
qed

lemma content_push_ok:
  assumes "content_ok st c" "well_sized g"
  shows "\<exists>c'. content_push g c = Some c' \<and> content_ok st c' \<and>
     content_end c' = content_end c + grapheme_len g \<and> stored c' (content_end c) (gr_content g) \<and>
     (\<forall>off s. stored c off s \<longrightarrow> stored c' off s)"
proof -
  let ?a = "co_active c" and ?n = "grapheme_len g"
  have g: "?n = str_len (gr_content g)" "gr_content g \<noteq> []" "list_all is_scalar (gr_content g)" "?n < CHUNK_SIZE"
    using assms(2) by (simp_all add: well_sized_def)
  have a: "chunk_ok ?a" "chain_ok st (co_filled c) (ch_start_offset ?a)"
    using assms(1) by (simp_all add: content_ok_def)
  obtain c1 where c1: "(if ch_len ?a + ?n > CHUNK_SIZE
        then do { last_byte \<leftarrow> checked_sub (chunk_end ?a) 1;
                  Some (c\<lparr>co_filled := btree_insert last_byte ?a (co_filled c),
                          co_active := chunk_new (chunk_end ?a)\<rparr>) }
        else Some c) = Some c1"
      "content_ok st c1" "content_end c1 = content_end c" "ch_len (co_active c1) + ?n \<le> CHUNK_SIZE"
      "\<And>off s. stored c off s \<Longrightarrow> stored c1 off s"
  proof (cases "ch_len ?a + ?n > CHUNK_SIZE")
    case True
    then have pos: "0 < ch_len ?a" using g(4) by simp
    have keys: "\<forall>e\<in>set (co_filled c). fst e < chunk_end ?a - 1"
      using chain_ok_bounds(2) [OF a(2)] pos by (fastforce simp: chunk_end_def)
    let ?c1 = "c\<lparr>co_filled := co_filled c @ [(chunk_end ?a - 1, ?a)], co_active := chunk_new (chunk_end ?a)\<rparr>"
    have "checked_sub (chunk_end ?a) 1 = Some (chunk_end ?a - 1)"
      using pos by (simp add: checked_sub_def chunk_end_def)
    moreover have "content_ok st ?c1"
      using a pos by (simp add: content_ok_def chain_ok_append chunk_new_def chunk_ok_def chunk_end_def)
    moreover have "stored ?c1 off s" if "stored c off s" for off s
      using that by (auto simp: stored_def)
    ultimately show thesis
      using that [of ?c1] True btree_insert_last [OF keys] g(4)
      by (simp add: content_end_def chunk_end_def chunk_new_def)
  next
    case False
    then show thesis using that [of c] assms(1) by simp
  qed
  have ok1: "chunk_ok (co_active c1)" using c1(2) by (simp add: content_ok_def)
  obtain a' where a': "chunk_push (gr_content g) (co_active c1) = Some a'" "chunk_ok a'"
      "ch_start_offset a' = ch_start_offset (co_active c1)" "ch_len a' = ch_len (co_active c1) + ?n"
      "in_chunk (chunk_end (co_active c1)) (str_bytes (gr_content g)) a'"
      "\<And>off bs. in_chunk off bs (co_active c1) \<Longrightarrow> in_chunk off bs a'"
    using chunk_push_ok [OF ok1, of "gr_content g"] c1(4) g(1) by auto
  let ?c = "c1\<lparr>co_active := a'\<rparr>"
  have "content_push g c = Some ?c" using g(4) c1(1) a'(1) by (simp add: content_push_def)
  moreover have "content_ok st ?c" using c1(2) a'(2,3) by (simp add: content_ok_def)
  moreover have "content_end ?c = content_end c + ?n"
    using a'(3,4) c1(3) by (simp add: content_end_def chunk_end_def)
  moreover have "stored ?c (content_end c) (gr_content g)"
    using a'(5) g(2,3) c1(3) by (simp add: stored_def content_end_def)
  moreover have "stored ?c off s" if "stored c off s" for off s
    using c1(5) [OF that] a'(6) by (auto simp: stored_def)
  ultimately show ?thesis by blast
qed

lemma str_bytes_nonempty: "s \<noteq> [] \<Longrightarrow> 0 < str_len s"
  by (cases s) (auto simp: str_len_def len_utf8_def)

text \<open>The search for the chunk of an offset finds the one that contains it.\<close>

lemma btree_from_chunk:
  assumes "chain_ok a m b" "e \<in> set m" "ch_start_offset (snd e) \<le> off" "off < chunk_end (snd e)"
  shows "\<exists>es. btree_from off m = e # es"
  using assms
proof (induction a m b rule: chain_ok.induct)
  case (2 start e' es b)
  show ?case
  proof (cases "e = e'")
    case True
    then show ?thesis using 2 by (auto simp: btree_from_def)
  next
    case False
    then have e: "e \<in> set es" using 2 by simp
    have "chunk_end (snd e') \<le> ch_start_offset (snd e)"
      using chain_ok_bounds(2) [of "chunk_end (snd e')" es b e] 2 e by auto
    then have "fst e' < off" using 2 by auto
    then show ?thesis using 2 e by (auto simp: btree_from_def)
  qed
qed simp

lemma content_index_ok:
  assumes "content_ok st c" "stored c off s"
  shows "content_index off (off + str_len s) c = Some s"
proof -
  obtain ch where ch: "ch \<in> insert (co_active c) (snd ` set (co_filled c))" "in_chunk off (str_bytes s) ch"
      and s: "s \<noteq> []" "list_all is_scalar s"
    using assms(2) by (auto simp: stored_def)
  have chain: "chain_ok st (co_filled c) (ch_start_offset (co_active c))" using assms(1) by (simp add: content_ok_def)
  have i: "ch_start_offset ch \<le> off" "off + str_len s \<le> chunk_end ch"
      "take (str_len s) (drop (off - ch_start_offset ch) (ch_content ch)) = str_bytes s"
    using ch(2) by (simp_all add: in_chunk_def)
  have pos: "off < chunk_end ch" using i(2) str_bytes_nonempty [OF s(1)] by simp
  have ok: "chunk_ok ch" using ch(1) assms(1) chain_ok_bounds(2) [OF chain] by (auto simp: content_ok_def)
  have found: "(case btree_from off (co_filled c) of [] \<Rightarrow> co_active c | x # _ \<Rightarrow> snd x) = ch"
  proof (cases "ch \<in> snd ` set (co_filled c)")
    case True
    then obtain e where "e \<in> set (co_filled c)" "snd e = ch" by auto
    then show ?thesis using btree_from_chunk [OF chain, of e off] i(1) pos by auto
  next
    case False
    then have "ch = co_active c" using ch(1) by simp
    moreover have "btree_from off (co_filled c) = []"
      using chain_ok_bounds(2) [OF chain] i(1) calculation by (fastforce simp: btree_from_def filter_empty_conv)
    ultimately show ?thesis by simp
  qed
  have len: "off - ch_start_offset ch + str_len s \<le> CHUNK_SIZE"
    using i ok by (auto simp: chunk_end_def chunk_ok_def)
  show ?thesis
    using i found len ok utf8_decode_bytes [OF s(2)]
    by (simp add: content_index_def checked_sub_def chunk_index_def chunk_ok_def)
qed

text \<open>Truncating: the chunk that contains the new end becomes the active one.\<close>

lemma chain_truncate:
  assumes "chain_ok a m b" "a \<le> n"
  shows "case btree_from n m of
           [] \<Rightarrow> chain_ok a (btree_below n m) b \<and> b \<le> n
         | e # _ \<Rightarrow> chain_ok a (btree_below n m) (ch_start_offset (snd e)) \<and> ch_start_offset (snd e) \<le> n \<and>
             e \<in> set m \<and> n \<le> fst e \<and>
             (\<forall>e'\<in>set m. e' \<noteq> e \<longrightarrow> e' \<in> set (btree_below n m) \<or> n < ch_start_offset (snd e'))"
  using assms
proof (induction a m b rule: chain_ok.induct)
  case (2 start e' es b)
  have e': "fst e' + 1 = chunk_end (snd e')" and es: "chain_ok (chunk_end (snd e')) es b" using 2 by auto
  note bd = chain_ok_bounds(2) [OF es]
  show ?case
  proof (cases "fst e' < n")
    case True
    then have "case btree_from n es of
           [] \<Rightarrow> chain_ok (chunk_end (snd e')) (btree_below n es) b \<and> b \<le> n
         | e # _ \<Rightarrow> chain_ok (chunk_end (snd e')) (btree_below n es) (ch_start_offset (snd e)) \<and>
             ch_start_offset (snd e) \<le> n \<and> e \<in> set es \<and> n \<le> fst e \<and>
             (\<forall>e'\<in>set es. e' \<noteq> e \<longrightarrow> e' \<in> set (btree_below n es) \<or> n < ch_start_offset (snd e'))"
      using "2.IH" es e' by simp
    then show ?thesis
      using True 2 by (auto simp: btree_from_def btree_below_def split: list.splits)
  next
    case False
    have "n < ch_start_offset (snd x)" if "x \<in> set es" for x
      using bd [OF that] False e' by simp
    moreover have "\<not> fst x < n" if "x \<in> set es" for x using bd [OF that] False e' by simp
    then have "btree_below n es = []" by (auto simp: btree_below_def filter_empty_conv)
    ultimately show ?thesis
      using False 2 by (auto simp: btree_from_def btree_below_def)
  qed
qed (simp add: btree_from_def btree_below_def)

lemma in_chunk_cut:
  assumes "in_chunk off bs c" "off + length bs \<le> n"
  shows "in_chunk off bs (c\<lparr>ch_len := n - ch_start_offset c\<rparr>)"
  using assms by (auto simp: in_chunk_def chunk_end_def)

lemma content_truncate_ok:
  assumes "content_ok st c" "st \<le> n" "n \<le> content_end c"
  shows "\<exists>c'. content_truncate n c = Some c' \<and> content_ok st c' \<and> content_end c' = n \<and>
     (\<forall>off s. stored c off s \<longrightarrow> off + str_len s \<le> n \<longrightarrow> stored c' off s)"
proof -
  have chain: "chain_ok st (co_filled c) (ch_start_offset (co_active c))" and a: "chunk_ok (co_active c)"
    using assms(1) by (simp_all add: content_ok_def)
  note t = chain_truncate [OF chain assms(2)]
  define ch where "ch = (case btree_from n (co_filled c) of [] \<Rightarrow> co_active c | e # _ \<Rightarrow> snd e)"
  let ?ch = "ch\<lparr>ch_len := n - ch_start_offset ch\<rparr>"
  let ?c = "\<lparr>co_filled = btree_below n (co_filled c), co_active = ?ch\<rparr>"
  have ch: "ch_start_offset ch \<le> n" "chunk_ok ch" "n \<le> chunk_end ch"
      "chain_ok st (btree_below n (co_filled c)) (ch_start_offset ch)"
    using t a assms(3) chain_ok_bounds(2) [OF chain]
    by (auto simp: ch_def content_end_def split: list.splits) (use chain_ok_bounds(2) [OF chain] in fastforce)+
  have eq: "content_truncate n c = Some ?c"
    using ch(1) by (simp add: content_truncate_def chunk_truncate_def checked_sub_def ch_def [symmetric])
  have ok: "content_ok st ?c" "content_end ?c = n"
    using ch by (auto simp: content_ok_def content_end_def chunk_end_def chunk_ok_def)
  have "stored ?c off s" if st: "stored c off s" and le: "off + str_len s \<le> n" for off s
  proof -
    obtain x where x: "x \<in> insert (co_active c) (snd ` set (co_filled c))" "in_chunk off (str_bytes s) x"
        and s: "s \<noteq> []" "list_all is_scalar s"
      using st by (auto simp: stored_def)
    have off: "ch_start_offset x \<le> off" "off < n"
      using x(2) le str_bytes_nonempty [OF s(1)] by (auto simp: in_chunk_def)
    have "x = ch \<or> x \<in> snd ` set (btree_below n (co_filled c))"
    proof (cases "x \<in> snd ` set (co_filled c)")
      case True
      then obtain e where e: "e \<in> set (co_filled c)" "snd e = x" by auto
      show ?thesis
      proof (cases "btree_from n (co_filled c)")
        case Nil
        then have "e \<in> set (btree_below n (co_filled c))"
          using e(1) by (auto simp: btree_from_def btree_below_def filter_empty_conv)
        then show ?thesis using e(2) by blast
      next
        case (Cons f fs)
        then show ?thesis using t e off by (force simp: ch_def)
      qed
    next
      case False
      then have xa: "x = co_active c" using x(1) by simp
      show ?thesis
      proof (cases "btree_from n (co_filled c)")
        case (Cons f fs)
        then have "n < ch_start_offset (co_active c)"
          using t chain_ok_bounds(2) [OF chain, of f] by auto
        then show ?thesis using off xa by simp
      qed (simp add: ch_def xa)
    qed
    then show ?thesis
      using x(2) in_chunk_cut [of off "str_bytes s" ch n] le s by (auto simp: stored_def)
  qed
  then show ?thesis using eq ok by blast
qed

text \<open>Dropping the chunks that end before a new start.\<close>

lemma chain_drop:
  assumes "chain_ok a m b" "a \<le> n"
  shows "\<exists>a'. a \<le> a' \<and> a' \<le> max a n \<and> chain_ok a' (dropWhile (\<lambda>e. fst e < n) m) b \<and>
     (\<forall>e\<in>set m. e \<in> set (dropWhile (\<lambda>e. fst e < n) m) \<or> chunk_end (snd e) \<le> n)"
  using assms
proof (induction a m b rule: chain_ok.induct)
  case (2 start e' es b)
  show ?case
  proof (cases "fst e' < n")
    case True
    have e': "fst e' + 1 = chunk_end (snd e')" "chain_ok (chunk_end (snd e')) es b"
        "start \<le> chunk_end (snd e')"
      using 2 by (auto simp: chunk_end_def)
    obtain a' where "chunk_end (snd e') \<le> a'" "a' \<le> max (chunk_end (snd e')) n"
        "chain_ok a' (dropWhile (\<lambda>e. fst e < n) es) b"
        "\<forall>e\<in>set es. e \<in> set (dropWhile (\<lambda>e. fst e < n) es) \<or> chunk_end (snd e) \<le> n"
      using "2.IH" e' True 2(3-) by auto
    then show ?thesis using True e' by (intro exI [of _ a']) auto
  next
    case False
    then show ?thesis using 2 by (intro exI [of _ start]) auto
  qed
qed auto

lemma content_truncate_front_ok:
  assumes "content_ok st c" "st \<le> n"
  shows "\<exists>st'. st' \<le> n \<and> content_ok st' (content_truncate_front n c) \<and>
     content_end (content_truncate_front n c) = content_end c \<and>
     (\<forall>off s. stored c off s \<longrightarrow> n \<le> off \<longrightarrow> stored (content_truncate_front n c) off s)"
proof -
  have chain: "chain_ok st (co_filled c) (ch_start_offset (co_active c))" and a: "chunk_ok (co_active c)"
    using assms(1) by (simp_all add: content_ok_def)
  obtain st' where d: "st \<le> st'" "st' \<le> max st n"
      "chain_ok st' (dropWhile (\<lambda>e. fst e < n) (co_filled c)) (ch_start_offset (co_active c))"
      "\<forall>e\<in>set (co_filled c). e \<in> set (dropWhile (\<lambda>e. fst e < n) (co_filled c)) \<or> chunk_end (snd e) \<le> n"
    using chain_drop [OF chain assms(2)] by auto
  have "stored (content_truncate_front n c) off s" if st: "stored c off s" and n: "n \<le> off" for off s
  proof -
    obtain x where x: "x \<in> insert (co_active c) (snd ` set (co_filled c))" "in_chunk off (str_bytes s) x"
        and s: "s \<noteq> []" "list_all is_scalar s"
      using st by (auto simp: stored_def)
    have "off < chunk_end x"
      using x(2) str_bytes_nonempty [OF s(1)] by (auto simp: in_chunk_def)
    then have "x \<in> insert (co_active c) (snd ` set (dropWhile (\<lambda>e. fst e < n) (co_filled c)))"
      using x(1) d(4) n by force
    then show ?thesis using x(2) s by (auto simp: stored_def content_truncate_front_def)
  qed
  then show ?thesis
    using d(2,3) a assms(2)
    by (intro exI [of _ st']) (auto simp: content_truncate_front_def content_ok_def content_end_def)
qed

end
