(* ===== verification/Flat_Index.thy ===== *)
theory Flat_Index
  imports Flat_Content
begin

text \<open>
  The index of the flat scrollback storage
  (\<^verbatim>\<open>crates/warp_terminal/src/model/grid/flat_storage/index.rs\<close>): for every row the
  offset of its content and the sizes of its graphemes, run-length encoded.  The lines
  an index stands for are in \<open>Flat_Index_Correct\<close>.  The accounting of heap bytes is left out.  None is a panic.
\<close>

section \<open>Entries\<close>

record grapheme_run =
  run_count :: nat
  run_info :: grapheme_info

datatype grapheme_sizing = Uniform grapheme_run | NonUniform | EmptyRow

record entry =
  en_content_offset :: nat
  en_grapheme_sizing :: grapheme_sizing
  en_has_trailing_newline :: bool
  en_ends_with_spacer :: bool

record flat_index =
  ix_rows :: "entry list"
  ix_columns :: nat
  ix_content_len :: nat
  ix_grapheme_sizing :: "grapheme_run list btree"

definition index_new :: "nat \<Rightarrow> flat_index" where
  "index_new columns =
     \<lparr>ix_rows = [], ix_columns = columns, ix_content_len = 0, ix_grapheme_sizing = []\<rparr>"

definition run_cols :: "grapheme_run \<Rightarrow> nat" where
  "run_cols r = run_count r * gi_cell_width (run_info r)"

section \<open>Building an entry\<close>

record entry_builder =
  eb_num_cells :: nat
  eb_incr :: nat
  eb_has_trailing_newline :: bool
  eb_ends_with_spacer :: bool
  eb_runs :: "grapheme_run list"

definition eb_new :: entry_builder where
  "eb_new = \<lparr>eb_num_cells = 0, eb_incr = 0, eb_has_trailing_newline = False,
             eb_ends_with_spacer = False, eb_runs = []\<rparr>"

definition push_run :: "grapheme_info \<Rightarrow> grapheme_run list \<Rightarrow> grapheme_run list option" where
  "push_run info runs =
     (if runs \<noteq> [] \<and> run_info (last runs) = info
      then if run_count (last runs) + 1 < 2 ^ 16
           then Some (butlast runs @ [(last runs)\<lparr>run_count := run_count (last runs) + 1\<rparr>])
           else None
      else Some (runs @ [\<lparr>run_count = 1, run_info = info\<rparr>]))"

definition process_unchecked :: "grapheme_info \<Rightarrow> entry_builder \<Rightarrow> entry_builder option" where
  "process_unchecked info b = do {
     runs \<leftarrow> push_run info (eb_runs b);
     Some (b\<lparr>eb_incr := eb_incr b + gi_utf8_bytes info, eb_runs := runs\<rparr>)
   }"

definition add_trailing_newline :: "entry_builder \<Rightarrow> entry_builder" where
  "add_trailing_newline b = b\<lparr>eb_incr := eb_incr b + 1, eb_has_trailing_newline := True\<rparr>"

definition add_leading_spacer :: "entry_builder \<Rightarrow> entry_builder" where
  "add_leading_spacer b = b\<lparr>eb_ends_with_spacer := True\<rparr>"

definition append_to_index :: "entry_builder \<Rightarrow> flat_index \<Rightarrow> flat_index" where
  "append_to_index b ix =
     (let off = ix_content_len ix;
          sizing = (case eb_runs b of [] \<Rightarrow> EmptyRow | [r] \<Rightarrow> Uniform r | _ \<Rightarrow> NonUniform)
      in ix\<lparr>ix_grapheme_sizing :=
              (if sizing = NonUniform then btree_insert off (eb_runs b) (ix_grapheme_sizing ix)
               else ix_grapheme_sizing ix),
            ix_content_len := off + eb_incr b,
            ix_rows := ix_rows ix @
              [\<lparr>en_content_offset = off, en_grapheme_sizing = sizing,
                en_has_trailing_newline = eb_has_trailing_newline b,
                en_ends_with_spacer = eb_ends_with_spacer b\<rparr>]\<rparr>)"

definition eb_is_empty :: "entry_builder \<Rightarrow> bool" where
  "eb_is_empty b \<longleftrightarrow>
     eb_incr b = 0 \<and> \<not> eb_has_trailing_newline b \<and> \<not> eb_ends_with_spacer b \<and> eb_runs b = []"

definition append_to_index_if_nonempty :: "entry_builder \<Rightarrow> flat_index \<Rightarrow> flat_index" where
  "append_to_index_if_nonempty b ix = (if eb_is_empty b then ix else append_to_index b ix)"

text \<open>The next grapheme of the content; a row without room for it ends here.\<close>

definition process_grapheme_info ::
    "grapheme_info \<Rightarrow> entry_builder \<times> flat_index \<Rightarrow> (entry_builder \<times> flat_index) option" where
  "process_grapheme_info info st =
     (case st of (b, ix) \<Rightarrow>
      if gi_cell_width info = 0 then Some (b, ix)
      else if gi_cell_width info > 2 then None
      else let (b, ix) =
             (if eb_num_cells b + gi_cell_width info > ix_columns ix
              then (eb_new,
                    append_to_index (if gi_cell_width info > 1 \<and> eb_num_cells b \<noteq> ix_columns ix
                                     then add_leading_spacer b else b) ix)
              else (b, ix))
           in do { b \<leftarrow> process_unchecked info (b\<lparr>eb_num_cells := eb_num_cells b + gi_cell_width info\<rparr>);
                   Some (b, ix) })"

definition process_grapheme ::
    "grapheme \<Rightarrow> entry_builder \<times> flat_index \<Rightarrow> (entry_builder \<times> flat_index) option" where
  "process_grapheme g st =
     (if starts_new_row g
      then Some (eb_new, append_to_index (add_trailing_newline (fst st)) (snd st))
      else process_grapheme_info (gr_info g) st)"

section \<open>Reading\<close>

definition index_len :: "flat_index \<Rightarrow> nat" where
  "index_len ix = length (ix_rows ix)"

definition get_entry :: "nat \<Rightarrow> flat_index \<Rightarrow> entry option" where
  "get_entry row ix = (if row < length (ix_rows ix) then Some (ix_rows ix ! row) else None)"

definition content_offset_for_row :: "nat \<Rightarrow> flat_index \<Rightarrow> nat option" where
  "content_offset_for_row row ix = map_option en_content_offset (get_entry row ix)"

definition content_range_for_row :: "nat \<Rightarrow> flat_index \<Rightarrow> (nat \<times> nat) option" where
  "content_range_for_row row ix = do {
     s \<leftarrow> content_offset_for_row row ix;
     Some (s, case content_offset_for_row (row + 1) ix of Some e \<Rightarrow> e | None \<Rightarrow> ix_content_len ix)
   }"

definition entry_runs :: "flat_index \<Rightarrow> entry \<Rightarrow> grapheme_run list option" where
  "entry_runs ix e =
     (case en_grapheme_sizing e of
        Uniform r \<Rightarrow> Some [r]
      | NonUniform \<Rightarrow> btree_get (en_content_offset e) (ix_grapheme_sizing ix)
      | EmptyRow \<Rightarrow> Some [])"

definition grapheme_runs_for_row :: "nat \<Rightarrow> flat_index \<Rightarrow> grapheme_run list option" where
  "grapheme_runs_for_row row ix = do { e \<leftarrow> get_entry row ix; entry_runs ix e }"

definition run_infos :: "grapheme_run list \<Rightarrow> grapheme_info list" where
  "run_infos runs = concat (map (\<lambda>r. replicate (run_count r) (run_info r)) runs)"

definition grapheme_infos_for_row :: "nat \<Rightarrow> flat_index \<Rightarrow> grapheme_info list option" where
  "grapheme_infos_for_row row ix = map_option run_infos (grapheme_runs_for_row row ix)"

section \<open>Rebuilding, truncating\<close>

definition rebuild_row ::
    "flat_index \<Rightarrow> nat \<Rightarrow> entry_builder \<times> flat_index \<Rightarrow> (entry_builder \<times> flat_index) option" where
  "rebuild_row old row st = do {
     st \<leftarrow> (case grapheme_infos_for_row row old of
             Some infos \<Rightarrow> fold_m process_grapheme_info infos st
           | None \<Rightarrow> Some st);
     e \<leftarrow> get_entry row old;
     if en_has_trailing_newline e then process_grapheme NEWLINE st else Some st
   }"

definition index_rebuild :: "flat_index \<Rightarrow> nat \<Rightarrow> flat_index option" where
  "index_rebuild old columns = do {
     let base = (case ix_rows old of [] \<Rightarrow> ix_content_len old | e # _ \<Rightarrow> en_content_offset e);
     (b, ix) \<leftarrow> fold_m (rebuild_row old) [0..<index_len old]
                  (eb_new, (index_new columns)\<lparr>ix_content_len := base\<rparr>);
     Some (append_to_index_if_nonempty b ix)
   }"

definition index_truncate :: "nat \<Rightarrow> flat_index \<Rightarrow> nat \<times> flat_index" where
  "index_truncate new_len ix =
     (case content_offset_for_row new_len ix of
        None \<Rightarrow> (ix_content_len ix, ix)
      | Some n \<Rightarrow> (n, ix\<lparr>ix_rows := take new_len (ix_rows ix),
                       ix_grapheme_sizing := btree_below n (ix_grapheme_sizing ix),
                       ix_content_len := n\<rparr>))"

definition index_truncate_front :: "nat \<Rightarrow> flat_index \<Rightarrow> nat \<times> flat_index" where
  "index_truncate_front count ix =
     (let n = (case content_offset_for_row count ix of Some n \<Rightarrow> n | None \<Rightarrow> ix_content_len ix)
      in (n, ix\<lparr>ix_rows := drop count (ix_rows ix),
                ix_grapheme_sizing := btree_from n (ix_grapheme_sizing ix)\<rparr>))"

section \<open>Points and offsets\<close>

datatype content_offset_error =
    RowOutOfBounds nat nat
  | MissingGraphemeSizing nat
  | NonZeroColumnInEmptyRow nat nat
  | ColumnExceedsContent nat nat

datatype point_error =
    OffsetBeforeFirstRow nat nat
  | PointRowOutOfBounds nat
  | PointMissingSizing nat
  | OffsetDoesNotMapToCellInRow nat nat

fun offset_in_runs :: "grapheme_run list \<Rightarrow> nat \<Rightarrow> nat \<Rightarrow> (nat \<times> nat) option" where
  "offset_in_runs [] off cols = Some (off, cols)"
| "offset_in_runs (r # rs) off cols =
     (if cols = 0 then Some (off, cols)
      else if gi_cell_width (run_info r) = 0 then None
      else let c = min (run_cols r) cols
           in offset_in_runs rs (off + c div gi_cell_width (run_info r) * gi_utf8_bytes (run_info r))
                (cols - c))"

definition content_offset_at_point ::
    "nat \<times> nat \<Rightarrow> flat_index \<Rightarrow> (content_offset_error + nat) option" where
  "content_offset_at_point p ix =
     (case get_entry (fst p) ix of
        None \<Rightarrow> Some (Inl (RowOutOfBounds (fst p) (length (ix_rows ix) - 1)))
      | Some e \<Rightarrow>
          if en_grapheme_sizing e = EmptyRow
          then Some (if snd p = 0 then Inr (en_content_offset e)
                     else Inl (NonZeroColumnInEmptyRow (fst p) (snd p)))
          else (case entry_runs ix e of
                  None \<Rightarrow> Some (Inl (MissingGraphemeSizing (en_content_offset e)))
                | Some runs \<Rightarrow> do {
                    (off, cols) \<leftarrow> offset_in_runs runs (en_content_offset e) (snd p);
                    Some (if cols = 0 then Inr off else Inl (ColumnExceedsContent (fst p) (snd p)))
                  }))"

fun column_in_runs :: "grapheme_run list \<Rightarrow> nat \<Rightarrow> nat \<Rightarrow> nat option option" where
  "column_in_runs [] column remaining = Some None"
| "column_in_runs (r # rs) column remaining =
     (if gi_cell_width (run_info r) = 0 \<or> gi_utf8_bytes (run_info r) = 0 then None
      else let graphemes_in_run = run_cols r div gi_cell_width (run_info r);
               content_in_run = graphemes_in_run * gi_utf8_bytes (run_info r);
               taken = min remaining content_in_run;
               column' = column + taken div gi_utf8_bytes (run_info r) * gi_cell_width (run_info r)
           in if remaining - taken = 0 then Some (Some column')
              else column_in_runs rs column' (remaining - taken))"

text \<open>\<open>partition_point\<close> of rows in the order of their offsets.\<close>

definition rows_up_to :: "nat \<Rightarrow> flat_index \<Rightarrow> nat" where
  "rows_up_to off ix = length (takeWhile (\<lambda>e. en_content_offset e \<le> off) (ix_rows ix))"

definition content_offset_to_point ::
    "nat \<Rightarrow> flat_index \<Rightarrow> (point_error + nat \<times> nat) option" where
  "content_offset_to_point off ix =
     (case checked_sub (rows_up_to off ix) 1 of
        None \<Rightarrow> Some (Inl (OffsetBeforeFirstRow off
                             (case ix_rows ix of [] \<Rightarrow> 0 | e # _ \<Rightarrow> en_content_offset e)))
      | Some row \<Rightarrow>
          (case get_entry row ix of
             None \<Rightarrow> Some (Inl (PointRowOutOfBounds row))
           | Some e \<Rightarrow>
               if en_grapheme_sizing e = EmptyRow
               then if off = en_content_offset e then Some (Inr (row, 0)) else None
               else (case entry_runs ix e of
                       None \<Rightarrow> Some (Inl (PointMissingSizing (en_content_offset e)))
                     | Some runs \<Rightarrow> do {
                         remaining \<leftarrow> checked_sub off (en_content_offset e);
                         c \<leftarrow> column_in_runs runs 0 remaining;
                         Some (case c of Some column \<Rightarrow> Inr (row, column)
                                 | None \<Rightarrow> Inl (OffsetDoesNotMapToCellInRow row off))
                       })))"

section \<open>Types of cells\<close>

datatype cell_type = RegularChar | WideChar | WideCharSpacer | LeadingWideCharSpacer

definition cell_type_at_offset :: "nat \<Rightarrow> grapheme_run \<Rightarrow> cell_type option" where
  "cell_type_at_offset off r =
     (if gi_cell_width (run_info r) = 1 then Some RegularChar
      else if off < run_cols r then Some (if even off then WideChar else WideCharSpacer) else None)"

fun cell_type_in_runs :: "grapheme_run list \<Rightarrow> nat \<Rightarrow> nat \<Rightarrow> cell_type option" where
  "cell_type_in_runs [] start_col col = Some RegularChar"
| "cell_type_in_runs (r # rs) start_col col =
     (if start_col + run_cols r > col then cell_type_at_offset (col - start_col) r
      else cell_type_in_runs rs (start_col + run_cols r) col)"

definition index_cell_type :: "nat \<Rightarrow> nat \<Rightarrow> flat_index \<Rightarrow> cell_type option option" where
  "index_cell_type row col ix =
     (case get_entry row ix of
        None \<Rightarrow> Some None
      | Some e \<Rightarrow> do {
          spacer \<leftarrow> (if en_ends_with_spacer e
                    then do { last_col \<leftarrow> checked_sub (ix_columns ix) 1; Some (col = last_col) }
                    else Some False);
          if spacer then Some (Some LeadingWideCharSpacer)
          else case en_grapheme_sizing e of
                 Uniform r \<Rightarrow>
                   if col \<ge> run_cols r then Some (Some RegularChar)
                   else map_option Some (cell_type_at_offset col r)
               | EmptyRow \<Rightarrow> Some (Some RegularChar)
               | NonUniform \<Rightarrow>
                   (case entry_runs ix e of
                      None \<Rightarrow> Some None
                    | Some runs \<Rightarrow> map_option Some (cell_type_in_runs runs 0 col))
        })"

end
