(* ===== verification/Flat_Index_Correct.thy ===== *)
theory Flat_Index_Correct
  imports Flat_Index
begin

text \<open>
  What an index stands for.  A line is its grapheme sizes, whether a newline ends it, and
  whether it ends with the spacer of a wide character; \<open>index_rep\<close> relates an index to
  its lines.  Rebuilding an index at another width is greedy wrapping of the stream of
  graphemes and newlines; points and offsets are inverse to each other.
\<close>

section \<open>Run-length encoding\<close>

definition rle_push :: "grapheme_info \<Rightarrow> grapheme_run list \<Rightarrow> grapheme_run list" where
  "rle_push info runs =
     (if runs \<noteq> [] \<and> run_info (last runs) = info
      then butlast runs @ [(last runs)\<lparr>run_count := run_count (last runs) + 1\<rparr>]
      else runs @ [\<lparr>run_count = 1, run_info = info\<rparr>])"

definition rle :: "grapheme_info list \<Rightarrow> grapheme_run list" where
  "rle infos = fold rle_push infos []"

lemma rle_snoc: "rle (infos @ [i]) = rle_push i (rle infos)"
  by (simp add: rle_def)

lemma run_infos_append [simp]: "run_infos (xs @ ys) = run_infos xs @ run_infos ys"
  by (simp add: run_infos_def)

lemma run_infos_rle: "run_infos (rle infos) = infos"
proof (induction infos rule: rev_induct)
  case (snoc i infos)
  show ?case
  proof (cases "rle infos \<noteq> [] \<and> run_info (last (rle infos)) = i")
    case True
    let ?r = "last (rle infos)"
    have "run_infos (rle (infos @ [i])) =
        run_infos (butlast (rle infos)) @ replicate (run_count ?r + 1) (run_info ?r)"
      using True by (simp add: rle_snoc rle_push_def run_infos_def)
    also have "\<dots> = (run_infos (butlast (rle infos)) @ run_infos [?r]) @ [i]"
      using True by (simp add: run_infos_def replicate_append_same [symmetric])
    also have "run_infos (butlast (rle infos)) @ run_infos [?r] = run_infos (rle infos)"
      using True by (metis append_butlast_last_id run_infos_append)
    finally show ?thesis using snoc by simp
  next
    case False
    then have "rle (infos @ [i]) = rle infos @ [\<lparr>run_count = 1, run_info = i\<rparr>]"
      by (auto simp: rle_snoc rle_push_def)
    then show ?thesis using snoc by (simp add: run_infos_def)
  qed
qed (simp add: rle_def run_infos_def)

lemma rle_counts: "r \<in> set (rle infos) \<Longrightarrow> 1 \<le> run_count r \<and> run_count r \<le> length infos \<and> run_info r \<in> set infos"
proof (induction infos arbitrary: r rule: rev_induct)
  case (snoc i infos)
  show ?case
  proof (cases "rle infos \<noteq> [] \<and> run_info (last (rle infos)) = i")
    case True
    then have "r \<in> set (rle infos) \<or> r = (last (rle infos))\<lparr>run_count := run_count (last (rle infos)) + 1\<rparr>"
      using snoc.prems by (auto simp: rle_snoc rle_push_def dest: in_set_butlastD)
    then show ?thesis
      using snoc.IH [of r] snoc.IH [of "last (rle infos)"] True by auto
  next
    case False
    then have "r \<in> set (rle infos) \<or> r = \<lparr>run_count = 1, run_info = i\<rparr>"
      using snoc.prems by (auto simp: rle_snoc rle_push_def split: if_splits)
    then show ?thesis using snoc.IH [of r] by auto
  qed
qed (simp add: rle_def)

lemma push_run_rle:
  assumes "length infos + 1 < 2 ^ 16"
  shows "push_run i (rle infos) = Some (rle (infos @ [i]))"
proof -
  have "run_count (last (rle infos)) \<le> length infos" if "rle infos \<noteq> []"
    using rle_counts [OF last_in_set [OF that]] by simp
  then show ?thesis using assms by (auto simp: push_run_def rle_snoc rle_push_def)
qed

lemma rle_Nil: "rle infos = [] \<longleftrightarrow> infos = []"
  by (induction infos rule: rev_induct) (auto simp: rle_def rle_push_def)

section \<open>Lines\<close>

type_synonym line = "grapheme_info list \<times> bool \<times> bool"

definition info_ok :: "grapheme_info \<Rightarrow> bool" where
  "info_ok i \<longleftrightarrow> (gi_cell_width i = 1 \<or> gi_cell_width i = 2) \<and> 1 \<le> gi_utf8_bytes i"

definition infos_cols :: "grapheme_info list \<Rightarrow> nat" where
  "infos_cols infos = sum_list (map gi_cell_width infos)"

definition infos_bytes :: "grapheme_info list \<Rightarrow> nat" where
  "infos_bytes infos = sum_list (map gi_utf8_bytes infos)"

definition line_bytes :: "line \<Rightarrow> nat" where
  "line_bytes l = infos_bytes (fst l) + (if fst (snd l) then 1 else 0)"

lemma infos_simps [simp]:
  "infos_cols [] = 0" "infos_cols (i # xs) = gi_cell_width i + infos_cols xs"
  "infos_cols (xs @ ys) = infos_cols xs + infos_cols ys"
  "infos_bytes [] = 0" "infos_bytes (i # xs) = gi_utf8_bytes i + infos_bytes xs"
  "infos_bytes (xs @ ys) = infos_bytes xs + infos_bytes ys"
  by (simp_all add: infos_cols_def infos_bytes_def)

lemma infos_length:
  assumes "list_all info_ok infos"
  shows "length infos \<le> infos_cols infos" "length infos \<le> infos_bytes infos"
  using assms by (induction infos) (auto simp: info_ok_def)

definition sizing_of :: "grapheme_run list \<Rightarrow> grapheme_sizing" where
  "sizing_of runs = (case runs of [] \<Rightarrow> EmptyRow | [r] \<Rightarrow> Uniform r | _ \<Rightarrow> NonUniform)"

lemma sizing_of_NonUniform: "sizing_of runs = NonUniform \<longleftrightarrow> 2 \<le> length runs"
  by (auto simp: sizing_of_def split: list.splits)

text \<open>The entries of lines that start at an offset.\<close>

fun entries_ok :: "grapheme_run list btree \<Rightarrow> nat \<Rightarrow> entry list \<Rightarrow> line list \<Rightarrow> nat \<Rightarrow> bool" where
  "entries_ok gs start [] [] end_offset \<longleftrightarrow> start = end_offset"
| "entries_ok gs start (e # es) (l # ls) end_offset \<longleftrightarrow>
     e = \<lparr>en_content_offset = start, en_grapheme_sizing = sizing_of (rle (fst l)),
          en_has_trailing_newline = fst (snd l), en_ends_with_spacer = snd (snd l)\<rparr> \<and>
     list_all info_ok (fst l) \<and>
     (sizing_of (rle (fst l)) = NonUniform \<longrightarrow> btree_get start gs = Some (rle (fst l))) \<and>
     entries_ok gs (start + line_bytes l) es ls end_offset"
| "entries_ok gs start es ls end_offset \<longleftrightarrow> False"

definition index_rep :: "flat_index \<Rightarrow> nat \<Rightarrow> line list \<Rightarrow> bool" where
  "index_rep ix base lines \<longleftrightarrow>
     btree_sorted (ix_grapheme_sizing ix) \<and>
     entries_ok (ix_grapheme_sizing ix) base (ix_rows ix) lines (ix_content_len ix)"

definition bytes_before :: "nat \<Rightarrow> line list \<Rightarrow> nat" where
  "bytes_before i lines = sum_list (map line_bytes (take i lines))"

lemma entries_ok_length: "entries_ok gs a es ls b \<Longrightarrow> length es = length ls"
  by (induction gs a es ls b rule: entries_ok.induct) auto

lemma entries_ok_end: "entries_ok gs a es ls b \<Longrightarrow> b = a + bytes_before (length ls) ls"
  by (induction gs a es ls b rule: entries_ok.induct) (auto simp: bytes_before_def)

lemma entries_ok_nth:
  assumes "entries_ok gs a es ls b" "i < length ls"
  shows "es ! i = \<lparr>en_content_offset = a + bytes_before i ls, en_grapheme_sizing = sizing_of (rle (fst (ls ! i))),
                   en_has_trailing_newline = fst (snd (ls ! i)), en_ends_with_spacer = snd (snd (ls ! i))\<rparr>"
    "list_all info_ok (fst (ls ! i))"
    "sizing_of (rle (fst (ls ! i))) = NonUniform \<Longrightarrow>
       btree_get (a + bytes_before i ls) gs = Some (rle (fst (ls ! i)))"
  using assms
  by (induction gs a es ls b arbitrary: i rule: entries_ok.induct)
     (auto simp: bytes_before_def nth_Cons' take_Cons' add.assoc split: if_splits)

lemma line_bytes_pos:
  assumes "list_all info_ok (fst l)" "fst l \<noteq> []"
  shows "0 < line_bytes l"
  using infos_length(2) [OF assms(1)] assms(2) by (cases "fst l") (auto simp: line_bytes_def)

lemma entries_ok_put:
  assumes "entries_ok gs a es ls b" "btree_sorted gs" "b \<le> k"
  shows "entries_ok (btree_insert k v gs) a es ls b"
  using assms
proof (induction gs a es ls b rule: entries_ok.induct)
  case (2 gs start e es l ls end_offset)
  have rest: "entries_ok gs (start + line_bytes l) es ls end_offset" using 2 by simp
  have "start < k" if "sizing_of (rle (fst l)) = NonUniform"
  proof -
    have "fst l \<noteq> []" using that by (auto simp: sizing_of_def rle_def)
    then have "0 < line_bytes l" using 2 line_bytes_pos by simp
    then show ?thesis using entries_ok_end [OF rest] 2(4) by simp
  qed
  then show ?case using 2 om.lookup_put_other [of gs start k v] by auto
qed auto

lemma entries_ok_snoc:
  assumes "entries_ok gs a es ls b" "btree_get b gs = Some (rle (fst l)) \<or> sizing_of (rle (fst l)) \<noteq> NonUniform"
    "list_all info_ok (fst l)"
    "e = \<lparr>en_content_offset = b, en_grapheme_sizing = sizing_of (rle (fst l)),
          en_has_trailing_newline = fst (snd l), en_ends_with_spacer = snd (snd l)\<rparr>"
  shows "entries_ok gs a (es @ [e]) (ls @ [l]) (b + line_bytes l)"
  using assms by (induction gs a es ls b rule: entries_ok.induct) auto

section \<open>Building\<close>

text \<open>A builder for the graphemes of the current line.\<close>

definition builder_rep :: "entry_builder \<Rightarrow> line \<Rightarrow> bool" where
  "builder_rep b l \<longleftrightarrow>
     eb_incr b = line_bytes l \<and> eb_runs b = rle (fst l) \<and> eb_has_trailing_newline b = fst (snd l) \<and>
     eb_ends_with_spacer b = snd (snd l)"

lemma builder_new: "builder_rep eb_new ([], False, False)"
  by (simp add: builder_rep_def eb_new_def line_bytes_def rle_def)

lemma builder_newline:
  "builder_rep b (infos, False, sp) \<Longrightarrow> builder_rep (add_trailing_newline b) (infos, True, sp)"
  by (simp add: builder_rep_def add_trailing_newline_def line_bytes_def)

lemma builder_spacer: "builder_rep b (infos, nl, sp) \<Longrightarrow> builder_rep (add_leading_spacer b) (infos, nl, True)"
  by (simp add: builder_rep_def add_leading_spacer_def line_bytes_def)

lemma builder_push:
  assumes "builder_rep b (infos, nl, sp)" "length infos + 1 < 2 ^ 16"
  shows "\<exists>b'. process_unchecked i b = Some b' \<and> builder_rep b' (infos @ [i], nl, sp) \<and>
     eb_num_cells b' = eb_num_cells b"
  using assms push_run_rle [OF assms(2)]
  by (auto simp: process_unchecked_def builder_rep_def line_bytes_def)

lemma append_to_index_rep:
  assumes "index_rep ix base lines" "builder_rep b l" "list_all info_ok (fst l)"
  shows "index_rep (append_to_index b ix) base (lines @ [l])"
    "ix_columns (append_to_index b ix) = ix_columns ix"
    "ix_content_len (append_to_index b ix) = ix_content_len ix + line_bytes l"
proof -
  have b: "eb_incr b = line_bytes l" "eb_runs b = rle (fst l)" "eb_has_trailing_newline b = fst (snd l)"
      "eb_ends_with_spacer b = snd (snd l)"
    using assms(2) by (simp_all add: builder_rep_def)
  have s: "(case eb_runs b of [] \<Rightarrow> EmptyRow | [r] \<Rightarrow> Uniform r | _ \<Rightarrow> NonUniform) = sizing_of (rle (fst l))"
    by (simp add: b sizing_of_def)
  have old: "btree_sorted (ix_grapheme_sizing ix)"
      "entries_ok (ix_grapheme_sizing ix) base (ix_rows ix) lines (ix_content_len ix)"
    using assms(1) by (simp_all add: index_rep_def)
  show "index_rep (append_to_index b ix) base (lines @ [l])"
  proof (cases "sizing_of (rle (fst l)) = NonUniform")
    case True
    let ?gs = "btree_insert (ix_content_len ix) (rle (fst l)) (ix_grapheme_sizing ix)"
    have "btree_get (ix_content_len ix) ?gs = Some (rle (fst l))" by (simp add: om.lookup_put old(1))
    then show ?thesis
      using True s b entries_ok_snoc [OF entries_ok_put [OF old(2,1) order_refl] _ assms(3)]
        btree_sorted_insert [OF old(1)]
      by (simp add: append_to_index_def index_rep_def Let_def)
  next
    case False
    then show ?thesis
      using s b entries_ok_snoc [OF old(2) _ assms(3)] old(1)
      by (simp add: append_to_index_def index_rep_def Let_def)
  qed
qed (simp_all add: append_to_index_def Let_def assms(2) [unfolded builder_rep_def])

lemma index_rep_reads:
  assumes "index_rep ix base lines" "i < length lines"
  shows "get_entry i ix = Some \<lparr>en_content_offset = base + bytes_before i lines,
      en_grapheme_sizing = sizing_of (rle (fst (lines ! i))),
      en_has_trailing_newline = fst (snd (lines ! i)), en_ends_with_spacer = snd (snd (lines ! i))\<rparr>"
    "grapheme_runs_for_row i ix = Some (rle (fst (lines ! i)))"
    "grapheme_infos_for_row i ix = Some (fst (lines ! i))"
    "list_all info_ok (fst (lines ! i))"
proof -
  have e: "entries_ok (ix_grapheme_sizing ix) base (ix_rows ix) lines (ix_content_len ix)"
    using assms(1) by (simp add: index_rep_def)
  note n = entries_ok_nth [OF e assms(2)]
  show g: "get_entry i ix = Some \<lparr>en_content_offset = base + bytes_before i lines,
      en_grapheme_sizing = sizing_of (rle (fst (lines ! i))),
      en_has_trailing_newline = fst (snd (lines ! i)), en_ends_with_spacer = snd (snd (lines ! i))\<rparr>"
    using assms(2) entries_ok_length [OF e] n(1) by (simp add: get_entry_def)
  have "entry_runs ix (ix_rows ix ! i) = Some (rle (fst (lines ! i)))"
    using n(1,3) by (auto simp: entry_runs_def sizing_of_def split: grapheme_sizing.splits list.splits)
  then show r: "grapheme_runs_for_row i ix = Some (rle (fst (lines ! i)))"
    using g n(1) by (simp add: grapheme_runs_for_row_def)
  show "grapheme_infos_for_row i ix = Some (fst (lines ! i))"
    by (simp add: grapheme_infos_for_row_def r run_infos_rle)
  show "list_all info_ok (fst (lines ! i))" by (rule n(2))
qed

lemma index_rep_len: "index_rep ix base lines \<Longrightarrow> index_len ix = length lines"
  using entries_ok_length by (auto simp: index_rep_def index_len_def)

lemma index_rep_end: "index_rep ix base lines \<Longrightarrow> ix_content_len ix = base + bytes_before (length lines) lines"
  using entries_ok_end by (auto simp: index_rep_def)

section \<open>Wrapping\<close>

text \<open>The content of lines as a stream of graphemes and newlines (None), and the greedy
  wrapping of a stream.\<close>

definition line_stream :: "line \<Rightarrow> grapheme_info option list" where
  "line_stream l = map Some (fst l) @ (if fst (snd l) then [None] else [])"

definition stream :: "line list \<Rightarrow> grapheme_info option list" where
  "stream lines = concat (map line_stream lines)"

fun wrap_step :: "nat \<Rightarrow> grapheme_info option \<Rightarrow> line list \<times> grapheme_info list \<Rightarrow> line list \<times> grapheme_info list" where
  "wrap_step columns None (done, cur) = (done @ [(cur, True, False)], [])"
| "wrap_step columns (Some i) (done, cur) =
     (if infos_cols cur + gi_cell_width i > columns
      then (done @ [(cur, False, gi_cell_width i > 1 \<and> infos_cols cur \<noteq> columns)], [i])
      else (done, cur @ [i]))"

definition wrap :: "nat \<Rightarrow> grapheme_info option list \<Rightarrow> line list" where
  "wrap columns s =
     (let (done, cur) = fold (wrap_step columns) s ([], [])
      in done @ (if cur = [] then [] else [(cur, False, False)]))"

lemma stream_simps [simp]:
  "stream [] = []" "stream (l # ls) = line_stream l @ stream ls" "stream (xs @ ys) = stream xs @ stream ys"
  by (simp_all add: stream_def)

text \<open>The state of \<open>rebuild\<close> while it wraps.\<close>

definition wrapping :: "nat \<Rightarrow> nat \<Rightarrow> entry_builder \<times> flat_index \<Rightarrow> line list \<times> grapheme_info list \<Rightarrow> bool" where
  "wrapping base columns st w \<longleftrightarrow>
     builder_rep (fst st) (snd w, False, False) \<and> eb_num_cells (fst st) = infos_cols (snd w) \<and>
     index_rep (snd st) base (fst w) \<and> ix_columns (snd st) = columns \<and>
     list_all info_ok (snd w) \<and> infos_cols (snd w) \<le> columns"

lemma wrapping_info:
  assumes "wrapping base columns st w" "info_ok i" "gi_cell_width i \<le> columns" "columns < 2 ^ 16"
  shows "\<exists>st'. process_grapheme_info i st = Some st' \<and> wrapping base columns st' (wrap_step columns (Some i) w)"
proof -
  obtain b ix where st: "st = (b, ix)" by (cases st)
  obtain ls cur where w: "w = (ls, cur)" by (cases w)
  have s: "builder_rep b (cur, False, False)" "eb_num_cells b = infos_cols cur" "index_rep ix base ls"
      "ix_columns ix = columns" "list_all info_ok cur" "infos_cols cur \<le> columns"
    using assms(1) by (simp_all add: wrapping_def st w)
  have i: "gi_cell_width i \<noteq> 0" "\<not> gi_cell_width i > 2" using assms(2) by (auto simp: info_ok_def)
  show ?thesis
  proof (cases "infos_cols cur + gi_cell_width i > columns")
    case True
    let ?sp = "gi_cell_width i > 1 \<and> infos_cols cur \<noteq> columns"
    let ?b = "if ?sp then add_leading_spacer b else b"
    have rb: "builder_rep ?b (cur, False, ?sp)" using s(1) builder_spacer [OF s(1)] by auto
    have nb: "builder_rep (eb_new\<lparr>eb_num_cells := eb_num_cells eb_new + gi_cell_width i\<rparr>) ([], False, False)"
      using builder_new by (simp add: builder_rep_def)
    obtain b' where b': "process_unchecked i (eb_new\<lparr>eb_num_cells := eb_num_cells eb_new + gi_cell_width i\<rparr>) = Some b'"
        "builder_rep b' ([i], False, False)" "eb_num_cells b' = gi_cell_width i"
      using builder_push [OF nb, of i] by (auto simp: eb_new_def)
    note a = append_to_index_rep [OF s(3) rb]
    have "process_grapheme_info i st = Some (b', append_to_index ?b ix)"
      using True i s(2,4) b'(1) by (simp add: process_grapheme_info_def st)
    then show ?thesis
      using a(1,2) s(4,5) b'(2,3) assms(2,3) True by (simp add: wrapping_def w)
  next
    case False
    have "length cur + 1 < 2 ^ 16"
      using infos_length(1) [OF s(5)] False assms(4) i(1) by simp
    moreover have "builder_rep (b\<lparr>eb_num_cells := eb_num_cells b + gi_cell_width i\<rparr>) (cur, False, False)"
      using s(1) by (simp add: builder_rep_def)
    ultimately obtain b' where b': "process_unchecked i (b\<lparr>eb_num_cells := eb_num_cells b + gi_cell_width i\<rparr>) = Some b'"
        "builder_rep b' (cur @ [i], False, False)" "eb_num_cells b' = eb_num_cells b + gi_cell_width i"
      using builder_push [of "b\<lparr>eb_num_cells := eb_num_cells b + gi_cell_width i\<rparr>" cur False False i] by auto
    have "process_grapheme_info i st = Some (b', ix)"
      using False i s(2,4) b'(1) by (simp add: process_grapheme_info_def st)
    then show ?thesis
      using s b'(2,3) assms(2) False by (simp add: wrapping_def w)
  qed
qed

lemma wrapping_infos:
  assumes "wrapping base columns st w" "list_all info_ok infos" "\<forall>i\<in>set infos. gi_cell_width i \<le> columns"
    "columns < 2 ^ 16"
  shows "\<exists>st'. fold_m process_grapheme_info infos st = Some st' \<and>
     wrapping base columns st' (fold (wrap_step columns) (map Some infos) w)"
  using assms
proof (induction infos arbitrary: st w)
  case (Cons i infos)
  obtain st1 where st1: "process_grapheme_info i st = Some st1"
      "wrapping base columns st1 (wrap_step columns (Some i) w)"
    using wrapping_info [OF Cons.prems(1) _ _ Cons.prems(4), of i] Cons.prems(2,3) by auto
  then show ?case using Cons.IH [OF st1(2)] Cons.prems(2-4) by simp
qed simp

lemma wrapping_newline:
  assumes "wrapping base columns st w"
  shows "\<exists>st'. process_grapheme NEWLINE st = Some st' \<and> wrapping base columns st' (wrap_step columns None w)"
proof -
  obtain ls cur where w: "w = (ls, cur)" by (cases w)
  have s: "builder_rep (fst st) (cur, False, False)" "index_rep (snd st) base ls" "ix_columns (snd st) = columns"
      "list_all info_ok cur"
    using assms by (simp_all add: wrapping_def w)
  note a = append_to_index_rep [OF s(2) builder_newline [OF s(1)]]
  show ?thesis
    using a(1,2) s(3,4) builder_new
    by (simp add: process_grapheme_def NEWLINE_def starts_new_row_def wrapping_def w eb_new_def)
qed

lemma wrapping_rows:
  assumes "index_rep old base0 lines" "columns < 2 ^ 16"
    "\<forall>l\<in>set lines. \<forall>i\<in>set (fst l). gi_cell_width i \<le> columns"
    "wrapping base columns st w" "k \<le> length lines"
  shows "\<exists>st'. fold_m (rebuild_row old) [length lines - k..<length lines] st = Some st' \<and>
     wrapping base columns st' (fold (wrap_step columns) (stream (drop (length lines - k) lines)) w)"
  using assms(4,5)
proof (induction k arbitrary: st w)
  case (Suc k)
  let ?i = "length lines - Suc k"
  have i: "?i < length lines" "Suc ?i = length lines - k" using Suc.prems(2) by auto
  have upt: "[?i..<length lines] = ?i # [length lines - k..<length lines]"
    using i by (simp add: upt_conv_Cons)
  have dr: "drop ?i lines = lines ! ?i # drop (length lines - k) lines"
    using i by (metis Cons_nth_drop_Suc)
  note r = index_rep_reads [OF assms(1) i(1)]
  have fit: "\<forall>x\<in>set (fst (lines ! ?i)). gi_cell_width x \<le> columns" using assms(3) i(1) nth_mem by blast
  obtain st1 where st1: "fold_m process_grapheme_info (fst (lines ! ?i)) st = Some st1"
      "wrapping base columns st1 (fold (wrap_step columns) (map Some (fst (lines ! ?i))) w)"
    using wrapping_infos [OF Suc.prems(1) r(4) fit assms(2)] by blast
  obtain st2 where st2: "rebuild_row old ?i st = Some st2"
      "wrapping base columns st2 (fold (wrap_step columns) (line_stream (lines ! ?i)) w)"
  proof (cases "fst (snd (lines ! ?i))")
    case True
    then show thesis
      using wrapping_newline [OF st1(2)] that st1(1) r(1,3) by (auto simp: rebuild_row_def line_stream_def)
  next
    case False
    then show thesis using that [of st1] st1 r(1,3) by (simp add: rebuild_row_def line_stream_def)
  qed
  show ?case using Suc.IH [OF st2(2)] Suc.prems(2) st2(1) by (simp add: upt dr)
qed simp

text \<open>Rebuilding is wrapping.\<close>

lemma index_rebuild_rep:
  assumes "index_rep old base lines" "columns < 2 ^ 16"
    "\<forall>l\<in>set lines. \<forall>i\<in>set (fst l). gi_cell_width i \<le> columns"
  shows "\<exists>ix. index_rebuild old columns = Some ix \<and> ix_columns ix = columns \<and>
     index_rep ix base (wrap columns (stream lines))"
proof -
  have e: "entries_ok (ix_grapheme_sizing old) base (ix_rows old) lines (ix_content_len old)"
    using assms(1) by (simp add: index_rep_def)
  have base: "(case ix_rows old of [] \<Rightarrow> ix_content_len old | e # _ \<Rightarrow> en_content_offset e) = base"
    using e by (cases "ix_rows old"; cases lines) auto
  let ?st = "(eb_new, (index_new columns)\<lparr>ix_content_len := base\<rparr>)"
  have start: "wrapping base columns ?st ([], [])"
    using builder_new by (simp add: wrapping_def index_rep_def index_new_def eb_new_def)
  obtain b ix where st: "fold_m (rebuild_row old) [0..<length lines] ?st = Some (b, ix)"
      "wrapping base columns (b, ix) (fold (wrap_step columns) (stream lines) ([], []))"
    using wrapping_rows [OF assms start order_refl] by auto
  obtain ls cur where w: "fold (wrap_step columns) (stream lines) ([], []) = (ls, cur)" by fastforce
  have s: "builder_rep b (cur, False, False)" "index_rep ix base ls" "ix_columns ix = columns" "list_all info_ok cur"
    using st(2) by (simp_all add: wrapping_def w)
  have empty: "eb_is_empty b \<longleftrightarrow> cur = []"
    using s(1) by (auto simp: eb_is_empty_def builder_rep_def rle_Nil line_bytes_def)
  have "index_rebuild old columns = Some (append_to_index_if_nonempty b ix)"
    using st(1) by (simp add: index_rebuild_def base index_rep_len [OF assms(1)])
  moreover have "index_rep (append_to_index_if_nonempty b ix) base (wrap columns (stream lines))"
      "ix_columns (append_to_index_if_nonempty b ix) = columns"
    using append_to_index_rep [OF s(2,1)] s(2-4) empty w
    by (auto simp: append_to_index_if_nonempty_def wrap_def)
  ultimately show ?thesis by blast
qed

section \<open>What wrapping does\<close>

text \<open>Wrapping keeps the stream.\<close>

lemma wrap_fold_stream:
  "stream (fst (fold (wrap_step columns) s (ls, cur))) @ map Some (snd (fold (wrap_step columns) s (ls, cur))) =
   stream ls @ map Some cur @ s"
proof (induction s arbitrary: ls cur)
  case (Cons x s)
  show ?case by (cases x) (auto simp: Cons line_stream_def)
qed simp

lemma stream_wrap: "stream (wrap columns s) = s"
  using wrap_fold_stream [of columns s "[]" "[]"]
  by (auto simp: wrap_def line_stream_def split: prod.splits)

text \<open>No line is too wide; a line that does not end with a newline is followed by a
  grapheme that has no room on it; the spacer is noted exactly where a wide grapheme
  leaves a cell free.\<close>

definition line_fits :: "nat \<Rightarrow> line \<Rightarrow> bool" where
  "line_fits columns l \<longleftrightarrow> infos_cols (fst l) \<le> columns"

fun full_lines :: "nat \<Rightarrow> line list \<Rightarrow> grapheme_info list \<Rightarrow> bool" where
  "full_lines columns [] rest \<longleftrightarrow> True"
| "full_lines columns (l # ls) rest \<longleftrightarrow>
     (\<not> fst (snd l) \<longrightarrow>
        (let next = (case ls of [] \<Rightarrow> rest | l' # _ \<Rightarrow> fst l')
         in next \<noteq> [] \<and> infos_cols (fst l) + gi_cell_width (hd next) > columns \<and>
            snd (snd l) = (gi_cell_width (hd next) > 1 \<and> infos_cols (fst l) \<noteq> columns))) \<and>
     (fst (snd l) \<longrightarrow> \<not> snd (snd l)) \<and> full_lines columns ls rest"

lemma full_lines_snoc:
  "full_lines columns (ls @ [l]) rest \<longleftrightarrow> full_lines columns ls (fst l) \<and> full_lines columns [l] rest"
proof (induction ls)
  case (Cons a ls)
  then show ?case by (cases ls) auto
qed simp

lemma full_lines_grow:
  "full_lines columns ls cur \<Longrightarrow> cur \<noteq> [] \<Longrightarrow> full_lines columns ls (cur @ xs)"
proof (induction ls)
  case (Cons a ls)
  then show ?case by (cases ls) auto
qed simp

lemma full_lines_newline:
  "full_lines columns ls cur \<Longrightarrow> ls = [] \<or> fst (snd (last ls)) \<Longrightarrow> full_lines columns ls xs"
proof (induction ls)
  case (Cons a ls)
  then show ?case by (cases ls) auto
qed simp

lemma wrap_fold_full:
  assumes "\<forall>i. Some i \<in> set s \<longrightarrow> gi_cell_width i \<le> columns"
    "list_all (line_fits columns) ls" "infos_cols cur \<le> columns" "full_lines columns ls cur"
    "cur = [] \<longrightarrow> ls = [] \<or> fst (snd (last ls))"
  shows "list_all (line_fits columns) (fst (fold (wrap_step columns) s (ls, cur))) \<and>
    infos_cols (snd (fold (wrap_step columns) s (ls, cur))) \<le> columns \<and>
    full_lines columns (fst (fold (wrap_step columns) s (ls, cur))) (snd (fold (wrap_step columns) s (ls, cur))) \<and>
    (snd (fold (wrap_step columns) s (ls, cur)) = [] \<longrightarrow>
       fst (fold (wrap_step columns) s (ls, cur)) = [] \<or>
       fst (snd (last (fst (fold (wrap_step columns) s (ls, cur))))))"
  using assms
proof (induction s arbitrary: ls cur)
  case (Cons x s)
  have s: "\<forall>i. Some i \<in> set s \<longrightarrow> gi_cell_width i \<le> columns" using Cons.prems(1) by simp
  show ?case
  proof (cases x)
    case None
    have "full_lines columns (ls @ [(cur, True, False)]) []"
      using Cons.prems(4) by (simp add: full_lines_snoc)
    then show ?thesis
      using None Cons.IH [OF s, of "ls @ [(cur, True, False)]" "[]"] Cons.prems(2,3)
      by (simp add: line_fits_def)
  next
    case (Some i)
    have wi: "gi_cell_width i \<le> columns" using Cons.prems(1) Some by simp
    show ?thesis
    proof (cases "infos_cols cur + gi_cell_width i > columns")
      case True
      let ?l = "(cur, False, gi_cell_width i > 1 \<and> infos_cols cur \<noteq> columns)"
      have "full_lines columns (ls @ [?l]) [i]" using Cons.prems(4) True by (simp add: full_lines_snoc)
      then show ?thesis
        using Some True Cons.IH [OF s, of "ls @ [?l]" "[i]"] Cons.prems(2,3) wi
        by (simp add: line_fits_def)
    next
      case False
      have "full_lines columns ls (cur @ [i])"
        using full_lines_grow [OF Cons.prems(4)] full_lines_newline [OF Cons.prems(4)] Cons.prems(5)
        by (cases "cur = []") auto
      then show ?thesis
        using Some False Cons.IH [OF s, of ls "cur @ [i]"] Cons.prems(2) by simp
    qed
  qed
qed simp

definition greedy :: "nat \<Rightarrow> line list \<Rightarrow> bool" where
  "greedy columns lines \<longleftrightarrow>
     (\<forall>k. Suc k < length lines \<longrightarrow>
        (if fst (snd (lines ! k)) then \<not> snd (snd (lines ! k))
         else fst (lines ! Suc k) \<noteq> [] \<and>
              infos_cols (fst (lines ! k)) + gi_cell_width (hd (fst (lines ! Suc k))) > columns \<and>
              snd (snd (lines ! k)) =
                (gi_cell_width (hd (fst (lines ! Suc k))) > 1 \<and> infos_cols (fst (lines ! k)) \<noteq> columns)))"

lemma full_lines_nth:
  assumes "full_lines columns ls rest" "k < length ls"
  shows "if fst (snd (ls ! k)) then \<not> snd (snd (ls ! k))
    else (let next = (if Suc k < length ls then fst (ls ! Suc k) else rest)
          in next \<noteq> [] \<and> infos_cols (fst (ls ! k)) + gi_cell_width (hd next) > columns \<and>
             snd (snd (ls ! k)) = (gi_cell_width (hd next) > 1 \<and> infos_cols (fst (ls ! k)) \<noteq> columns))"
  using assms
proof (induction ls arbitrary: k)
  case (Cons l ls)
  show ?case
  proof (cases k)
    case 0
    then show ?thesis using Cons.prems(1) by (cases ls) (auto simp: Let_def)
  next
    case (Suc j)
    then show ?thesis using Cons.IH [of j] Cons.prems by (simp add: Let_def cong: if_cong)
  qed
qed simp

lemma wrap_greedy:
  assumes "\<forall>i. Some i \<in> set s \<longrightarrow> gi_cell_width i \<le> columns"
  shows "list_all (line_fits columns) (wrap columns s)" "greedy columns (wrap columns s)"
proof -
  obtain ls cur where f: "fold (wrap_step columns) s ([], []) = (ls, cur)" by fastforce
  have w: "list_all (line_fits columns) ls" "infos_cols cur \<le> columns" "full_lines columns ls cur"
    using wrap_fold_full [OF assms, of "[]" "[]"] f by auto
  have wr: "wrap columns s = ls @ (if cur = [] then [] else [(cur, False, False)])" using f by (simp add: wrap_def)
  show "list_all (line_fits columns) (wrap columns s)" using w(1,2) by (simp add: wr line_fits_def)
  show "greedy columns (wrap columns s)"
    unfolding greedy_def
  proof (intro allI impI)
    fix k assume k: "Suc k < length (wrap columns s)"
    then have kl: "k < length ls" by (auto simp: wr split: if_splits)
    have n: "fst (wrap columns s ! Suc k) = (if Suc k < length ls then fst (ls ! Suc k) else cur)"
      using k by (auto simp: wr nth_append split: if_splits)
    have "wrap columns s ! k = ls ! k" using kl by (simp add: wr nth_append)
    then show "if fst (snd (wrap columns s ! k)) then \<not> snd (snd (wrap columns s ! k))
         else fst (wrap columns s ! Suc k) \<noteq> [] \<and>
              infos_cols (fst (wrap columns s ! k)) + gi_cell_width (hd (fst (wrap columns s ! Suc k))) > columns \<and>
              snd (snd (wrap columns s ! k)) =
                (gi_cell_width (hd (fst (wrap columns s ! Suc k))) > 1 \<and>
                 infos_cols (fst (wrap columns s ! k)) \<noteq> columns)"
      using full_lines_nth [OF w(3) kl] by (simp add: n Let_def split: if_splits)
  qed
qed

lemma stream_infos: "(\<forall>l\<in>set lines. \<forall>i\<in>set (fst l). P i) \<longleftrightarrow> (\<forall>i. Some i \<in> set (stream lines) \<longrightarrow> P i)"
  by (induction lines) (auto simp: line_stream_def)

definition item_bytes :: "grapheme_info option \<Rightarrow> nat" where
  "item_bytes x = (case x of None \<Rightarrow> 1 | Some i \<Rightarrow> gi_utf8_bytes i)"

lemma stream_bytes: "bytes_before (length lines) lines = sum_list (map item_bytes (stream lines))"
proof (induction lines)
  case (Cons l lines)
  have "line_bytes l = sum_list (map item_bytes (line_stream l))"
    by (simp add: line_bytes_def line_stream_def infos_bytes_def item_bytes_def comp_def)
  then show ?case using Cons by (simp add: bytes_before_def)
qed (simp add: bytes_before_def)

lemma index_rep_stream_len:
  "index_rep ix base lines \<Longrightarrow> ix_content_len ix = base + sum_list (map item_bytes (stream lines))"
  by (simp only: index_rep_end stream_bytes)

text \<open>Two indices of the same lines read the same.\<close>

lemma index_rep_unique:
  assumes "index_rep a base lines" "index_rep b base lines"
  shows "ix_rows a = ix_rows b" "ix_content_len a = ix_content_len b"
    "grapheme_runs_for_row i a = grapheme_runs_for_row i b"
proof -
  have l: "length (ix_rows a) = length lines" "length (ix_rows b) = length lines"
    using index_rep_len [OF assms(1)] index_rep_len [OF assms(2)] by (simp_all add: index_len_def)
  have ea: "entries_ok (ix_grapheme_sizing a) base (ix_rows a) lines (ix_content_len a)"
    and eb: "entries_ok (ix_grapheme_sizing b) base (ix_rows b) lines (ix_content_len b)"
    using assms by (simp_all add: index_rep_def)
  show "ix_rows a = ix_rows b"
    using entries_ok_nth(1) [OF ea] entries_ok_nth(1) [OF eb] l by (intro nth_equalityI) simp_all
  show "ix_content_len a = ix_content_len b" using entries_ok_end [OF ea] entries_ok_end [OF eb] by simp
  show "grapheme_runs_for_row i a = grapheme_runs_for_row i b"
  proof (cases "i < length lines")
    case True
    then show ?thesis using index_rep_reads(2) [OF assms(1)] index_rep_reads(2) [OF assms(2)] by simp
  next
    case False
    then show ?thesis using l by (simp add: grapheme_runs_for_row_def get_entry_def)
  qed
qed

section \<open>Points and offsets\<close>

lemma infos_take_replicate:
  "infos_cols (replicate n i) = n * gi_cell_width i" "infos_bytes (replicate n i) = n * gi_utf8_bytes i"
  by (simp_all add: infos_cols_def infos_bytes_def sum_list_replicate)

lemma run_infos_Cons: "run_infos (r # rs) = replicate (run_count r) (run_info r) @ run_infos rs"
  by (simp add: run_infos_def)

lemma offset_in_runs_zero: "offset_in_runs rs off 0 = Some (off, 0)"
  by (cases rs) simp_all

lemma offset_in_runs_ok:
  assumes "\<forall>r\<in>set rs. 1 \<le> gi_cell_width (run_info r)" "k \<le> length (run_infos rs)"
  shows "offset_in_runs rs off (infos_cols (take k (run_infos rs))) =
           Some (off + infos_bytes (take k (run_infos rs)), 0)"
  using assms
proof (induction rs arbitrary: k off)
  case (Cons r rs)
  let ?n = "run_count r" and ?i = "run_info r"
  have w: "1 \<le> gi_cell_width ?i" using Cons.prems(1) by simp
  show ?case
  proof (cases "k \<le> ?n")
    case True
    then have t: "take k (run_infos (r # rs)) = replicate k ?i" by (simp add: run_infos_Cons min_def)
    have "min (run_cols r) (k * gi_cell_width ?i) = k * gi_cell_width ?i"
      using True by (intro min_absorb2) (simp add: run_cols_def)
    then show ?thesis
      using w by (cases "k = 0") (simp_all add: t infos_take_replicate offset_in_runs_zero Let_def)
  next
    case False
    let ?k = "k - ?n"
    have t: "take k (run_infos (r # rs)) = replicate ?n ?i @ take ?k (run_infos rs)"
      using False by (simp add: run_infos_Cons)
    have k: "?k \<le> length (run_infos rs)" using Cons.prems(2) by (simp add: run_infos_Cons)
    let ?c = "infos_cols (take ?k (run_infos rs))"
    have c: "infos_cols (take k (run_infos (r # rs))) = run_cols r + ?c"
      by (simp add: t infos_take_replicate run_cols_def)
    have b: "infos_bytes (take k (run_infos (r # rs))) =
        ?n * gi_utf8_bytes ?i + infos_bytes (take ?k (run_infos rs))"
      by (simp add: t infos_take_replicate)
    have d: "run_cols r div gi_cell_width ?i = ?n" using w by (simp add: run_cols_def)
    have IH: "offset_in_runs rs (off + ?n * gi_utf8_bytes ?i) ?c =
        Some (off + ?n * gi_utf8_bytes ?i + infos_bytes (take ?k (run_infos rs)), 0)"
      using Cons.IH [OF _ k] Cons.prems(1) by simp
    show ?thesis
    proof (cases "run_cols r + ?c = 0")
      case True
      then have "?n = 0" using w by (auto simp: run_cols_def)
      then show ?thesis
        using IH True by (simp add: c b offset_in_runs_zero)
    next
      case F: False
      then show ?thesis using w d IH by (auto simp: c b Let_def add.assoc)
    qed
  qed
qed (simp add: run_infos_def)

lemma column_in_runs_ok:
  assumes "\<forall>r\<in>set rs. 1 \<le> gi_cell_width (run_info r) \<and> 1 \<le> gi_utf8_bytes (run_info r)"
    "k \<le> length (run_infos rs)" "rs \<noteq> []"
  shows "column_in_runs rs col (infos_bytes (take k (run_infos rs))) =
           Some (Some (col + infos_cols (take k (run_infos rs))))"
  using assms
proof (induction rs arbitrary: k col)
  case (Cons r rs)
  let ?n = "run_count r" and ?i = "run_info r"
  have w: "1 \<le> gi_cell_width ?i" "1 \<le> gi_utf8_bytes ?i" using Cons.prems(1) by simp_all
  have d: "run_cols r div gi_cell_width ?i = ?n" using w by (simp add: run_cols_def)
  show ?case
  proof (cases "k \<le> ?n")
    case True
    then have t: "take k (run_infos (r # rs)) = replicate k ?i" by (simp add: run_infos_Cons min_def)
    have "min (k * gi_utf8_bytes ?i) (?n * gi_utf8_bytes ?i) = k * gi_utf8_bytes ?i"
      using True by (intro min_absorb1) simp
    then show ?thesis using w d True by (simp add: t infos_take_replicate Let_def)
  next
    case False
    let ?k = "k - ?n"
    have t: "take k (run_infos (r # rs)) = replicate ?n ?i @ take ?k (run_infos rs)"
      using False by (simp add: run_infos_Cons)
    have k: "?k \<le> length (run_infos rs)" "0 < ?k" using Cons.prems(2) False by (simp_all add: run_infos_Cons)
    then have ne: "rs \<noteq> []" by (auto simp: run_infos_def)
    have pos: "0 < infos_bytes (take ?k (run_infos rs))"
    proof -
      obtain x xs where x: "take ?k (run_infos rs) = x # xs"
        using k by (cases "take ?k (run_infos rs)") auto
      then have "x \<in> set (run_infos rs)" by (metis in_set_takeD list.set_intros(1))
      then have "1 \<le> gi_utf8_bytes x" using Cons.prems(1) by (auto simp: run_infos_def)
      then show ?thesis by (simp add: x)
    qed
    have IH: "column_in_runs rs (col + ?n * gi_cell_width ?i) (infos_bytes (take ?k (run_infos rs))) =
        Some (Some (col + ?n * gi_cell_width ?i + infos_cols (take ?k (run_infos rs))))"
      using Cons.IH [OF _ k(1) ne] Cons.prems(1) by simp
    show ?thesis using w d IH pos by (simp add: t infos_take_replicate Let_def add.assoc)
  qed
qed simp

lemma bytes_before_mono: "i \<le> j \<Longrightarrow> bytes_before i ls \<le> bytes_before j ls"
  by (metis bytes_before_def le_add1 le_add_diff_inverse map_append sum_list.append take_add)

lemma bytes_before_Suc: "i < length ls \<Longrightarrow> bytes_before (Suc i) ls = bytes_before i ls + line_bytes (ls ! i)"
  by (simp add: bytes_before_def take_Suc_conv_app_nth)

text \<open>The row of an offset.\<close>

lemma rows_up_to_eq:
  assumes "index_rep ix base lines" "i < length lines"
    "base + bytes_before i lines \<le> off" "off < base + bytes_before (Suc i) lines"
  shows "rows_up_to off ix = Suc i"
proof -
  have e: "entries_ok (ix_grapheme_sizing ix) base (ix_rows ix) lines (ix_content_len ix)"
    using assms(1) by (simp add: index_rep_def)
  have len: "length (ix_rows ix) = length lines" by (rule entries_ok_length [OF e])
  have o: "en_content_offset (ix_rows ix ! j) = base + bytes_before j lines" if "j < length lines" for j
    using entries_ok_nth(1) [OF e that] by simp
  let ?P = "\<lambda>e. en_content_offset e \<le> off"
  have first: "\<forall>e\<in>set (take (Suc i) (ix_rows ix)). ?P e"
  proof
    fix e assume "e \<in> set (take (Suc i) (ix_rows ix))"
    then obtain j where j: "j < Suc i" "e = ix_rows ix ! j" "j < length lines"
      using len by (auto simp: in_set_conv_nth)
    then show "?P e" using o [OF j(3)] bytes_before_mono [of j i lines] assms(3) by simp
  qed
  have rest: "drop (Suc i) (ix_rows ix) = [] \<or> \<not> ?P (hd (drop (Suc i) (ix_rows ix)))"
  proof (cases "Suc i < length lines")
    case True
    then show ?thesis using o [OF True] assms(4) len by (simp add: hd_drop_conv_nth)
  qed (use len in simp)
  have "takeWhile ?P (drop (Suc i) (ix_rows ix)) = []"
    using rest by (cases "drop (Suc i) (ix_rows ix)") auto
  then have "takeWhile ?P (take (Suc i) (ix_rows ix) @ drop (Suc i) (ix_rows ix)) = take (Suc i) (ix_rows ix)"
    using first by (subst takeWhile_append2) auto
  then show ?thesis using len assms(2) by (simp add: rows_up_to_def)
qed

end
