(* ===== verification/Flat_Storage.thy ===== *)
theory Flat_Storage
  imports Flat_Index_Correct
begin

text \<open>
  The flat scrollback storage
  (\<^verbatim>\<open>crates/warp_terminal/src/model/grid/flat_storage/mod.rs\<close>, \<^verbatim>\<open>style.rs\<close>
  and \<^verbatim>\<open>row_iterator.rs\<close>): rows that scroll out of the grid are pushed as text, sizes
  and attributes, and read back as rows.  The accounting of heap bytes and of capacity is
  left out.  None is a panic.
\<close>

section \<open>Styles\<close>

definition STYLE_MASK :: u16 where
  "STYLE_MASK = INVERSE OR BOLD OR ITALIC OR UNDERLINE OR DOUBLE_UNDERLINE OR DIM OR HIDDEN OR STRIKEOUT"

record bg_and_style =
  bs_bg :: color
  bs_flags :: u16

definition bg_and_style_default :: bg_and_style where
  "bg_and_style_default = \<lparr>bs_bg = Named Background, bs_flags = 0\<rparr>"

definition bg_and_style_from :: "cell \<Rightarrow> bg_and_style" where
  "bg_and_style_from c = \<lparr>bs_bg = c_bg c, bs_flags = c_flags c AND STYLE_MASK\<rparr>"

definition bg_and_style_eq :: "bg_and_style \<Rightarrow> cell \<Rightarrow> bool" where
  "bg_and_style_eq s c \<longleftrightarrow> bs_bg s = c_bg c \<and> bs_flags s = c_flags c AND STYLE_MASK"

lemma bg_and_style_eq_iff: "bg_and_style_eq s c \<longleftrightarrow> s = bg_and_style_from c"
  by (cases s) (auto simp: bg_and_style_eq_def bg_and_style_from_def)

section \<open>The storage\<close>

record end_of_prompt =
  ep_offset :: nat
  ep_extra_newline :: bool

record flat_storage =
  fl_content :: content
  fl_index :: flat_index
  fl_columns :: nat
  fl_fg :: "color attribute_map"
  fl_style :: "bg_and_style attribute_map"
  fl_prompt :: "end_of_prompt option"
  fl_max_rows :: "nat option"
  fl_num_truncated :: nat

definition DEFAULT_FG_COLOR :: color where "DEFAULT_FG_COLOR = Named Foreground"

definition flat_new :: "nat \<Rightarrow> nat option \<Rightarrow> flat_storage" where
  "flat_new columns max_rows =
     \<lparr>fl_content = content_new, fl_index = index_new columns, fl_columns = columns,
      fl_fg = am_new DEFAULT_FG_COLOR, fl_style = am_new bg_and_style_default,
      fl_prompt = None, fl_max_rows = max_rows, fl_num_truncated = 0\<rparr>"

definition total_rows :: "flat_storage \<Rightarrow> nat" where
  "total_rows fl = index_len (fl_index fl)"

section \<open>Dropping rows\<close>

definition flat_truncate :: "nat \<Rightarrow> flat_storage \<Rightarrow> flat_storage option" where
  "flat_truncate new_len fl =
     (case index_truncate new_len (fl_index fl) of (n, ix) \<Rightarrow> do {
        c \<leftarrow> content_truncate n (fl_content fl);
        Some (fl\<lparr>fl_index := ix, fl_content := c, fl_fg := am_truncate n (fl_fg fl),
                 fl_style := am_truncate n (fl_style fl),
                 fl_prompt := (case fl_prompt fl of
                    Some m \<Rightarrow> if ep_offset m \<ge> n then None else Some m | None \<Rightarrow> None)\<rparr>)
      })"

definition truncate_rows_front :: "nat \<Rightarrow> flat_storage \<Rightarrow> flat_storage" where
  "truncate_rows_front count fl =
     (if count = 0 then fl
      else let count = min count (total_rows fl)
           in case index_truncate_front count (fl_index fl) of (n, ix) \<Rightarrow>
                fl\<lparr>fl_index := ix, fl_content := content_truncate_front n (fl_content fl),
                   fl_fg := am_truncate_front n (fl_fg fl),
                   fl_style := am_truncate_front n (fl_style fl),
                   fl_num_truncated := fl_num_truncated fl + count\<rparr>)"

definition apply_max_rows :: "flat_storage \<Rightarrow> flat_storage" where
  "apply_max_rows fl =
     (case checked_sub (total_rows fl) (case fl_max_rows fl of Some n \<Rightarrow> n | None \<Rightarrow> USIZE_MAX) of
        Some n \<Rightarrow> truncate_rows_front n fl
      | None \<Rightarrow> fl)"

definition flat_clear :: "flat_storage \<Rightarrow> flat_storage option" where
  "flat_clear fl = flat_truncate 0 fl"

definition set_max_rows :: "nat option \<Rightarrow> flat_storage \<Rightarrow> flat_storage" where
  "set_max_rows n fl = apply_max_rows (fl\<lparr>fl_max_rows := n\<rparr>)"

definition flat_set_columns :: "nat \<Rightarrow> flat_storage \<Rightarrow> flat_storage option" where
  "flat_set_columns columns fl =
     (if fl_columns fl = columns then Some fl
      else do { ix \<leftarrow> index_rebuild (fl_index fl) columns;
                Some (fl\<lparr>fl_columns := columns, fl_index := ix\<rparr>) })"

section \<open>Pushing rows\<close>

text \<open>The variables of the loop over the cells of a row.\<close>

record push_state =
  pu_fl :: flat_storage
  pu_fg :: color
  pu_style :: bg_and_style
  pu_builder :: entry_builder
  pu_last_cell :: int
  pu_offset :: nat
  pu_idx :: int

text \<open>The empty cells that were skipped before a cell with content.\<close>

definition push_empty :: "entry_builder \<times> content \<Rightarrow> (entry_builder \<times> content) option" where
  "push_empty st = do {
     b \<leftarrow> process_unchecked (gr_info EMPTY_CELL) (fst st);
     c \<leftarrow> content_push EMPTY_CELL (snd st);
     Some (b, c)
   }"

definition push_cell :: "cell \<Rightarrow> push_state \<Rightarrow> push_state option" where
  "push_cell c st = (let st = st\<lparr>pu_idx := pu_idx st + 1\<rparr> in
     if bf_intersects (c_flags c) (WIDE_CHAR_SPACER OR LEADING_WIDE_CHAR_SPACER)
     then Some (st\<lparr>pu_builder := (if bf_intersects (c_flags c) LEADING_WIDE_CHAR_SPACER
                                 then add_leading_spacer (pu_builder st) else pu_builder st),
                   pu_last_cell := pu_idx st\<rparr>)
     else do {
       let fl = pu_fl st;
       let needs = \<not> cell_is_empty c;
       let fg_change = (c_fg c \<noteq> pu_fg st);
       fg \<leftarrow> (if fg_change then push_attribute_change (pu_offset st) (c_fg c) (fl_fg fl)
             else Some (fl_fg fl));
       let style_change = (\<not> bg_and_style_eq (pu_style st) c);
       style \<leftarrow> (if style_change
                then push_attribute_change (pu_offset st) (bg_and_style_from c) (fl_style fl)
                else Some (fl_style fl));
       let prompt = (case end_of_prompt_marker c of
           Some nl \<Rightarrow> Some \<lparr>ep_offset = pu_offset st, ep_extra_newline = nl\<rparr>
         | None \<Rightarrow> fl_prompt fl);
       let needs = (needs \<or> fg_change \<or> style_change \<or> end_of_prompt_marker c \<noteq> None);
       g \<leftarrow> grapheme_from_cell c;
       (b, co, last_cell) \<leftarrow>
         (if needs then do {
            (b, co) \<leftarrow> fold_m (\<lambda>_. push_empty) [0..<nat (pu_idx st - 1 - pu_last_cell st)]
                        (pu_builder st, fl_content fl);
            b \<leftarrow> process_unchecked (gr_info g) b;
            co \<leftarrow> content_push g co;
            Some (b, co, pu_idx st)
          } else Some (pu_builder st, fl_content fl, pu_last_cell st));
       Some (st\<lparr>pu_fl := fl\<lparr>fl_fg := fg, fl_style := style, fl_prompt := prompt, fl_content := co\<rparr>,
                pu_fg := c_fg c,
                pu_style := (if style_change then bg_and_style_from c else pu_style st),
                pu_builder := b, pu_last_cell := last_cell,
                pu_offset := pu_offset st + grapheme_len g\<rparr>)
     })"

definition row_soft_wraps :: "nat \<Rightarrow> row \<Rightarrow> bool option" where
  "row_soft_wraps columns r =
     (if row_occ r = columns
      then do { i \<leftarrow> checked_sub columns 1;
                c \<leftarrow> row_get i r;
                Some (bf_intersects (c_flags c) WRAPLINE) }
      else Some False)"

definition push_row ::
    "row \<Rightarrow> flat_storage \<times> color \<times> bg_and_style \<Rightarrow> (flat_storage \<times> color \<times> bg_and_style) option" where
  "push_row r v = (case v of (fl, fg, style) \<Rightarrow> do {
     cells \<leftarrow> dirty_cells r;
     st \<leftarrow> fold_m push_cell cells
       \<lparr>pu_fl = fl, pu_fg = fg, pu_style = style, pu_builder = eb_new, pu_last_cell = -1,
        pu_offset = content_end (fl_content fl), pu_idx = -1\<rparr>;
     wraps \<leftarrow> row_soft_wraps (fl_columns (pu_fl st)) r;
     (b, co) \<leftarrow>
       (if wraps then Some (pu_builder st, fl_content (pu_fl st))
        else do { co \<leftarrow> content_push NEWLINE (fl_content (pu_fl st));
                  Some (add_trailing_newline (pu_builder st), co) });
     Some ((pu_fl st)\<lparr>fl_content := co, fl_index := append_to_index b (fl_index (pu_fl st))\<rparr>,
           pu_fg st, pu_style st)
   })"

definition push_rows_internal :: "row list \<Rightarrow> flat_storage \<Rightarrow> flat_storage option" where
  "push_rows_internal rows fl = do {
     (fl, _) \<leftarrow> fold_m push_row rows (fl, am_tail (fl_fg fl), am_tail (fl_style fl));
     Some fl
   }"

definition push_rows_without_truncation :: "row list \<Rightarrow> flat_storage \<Rightarrow> flat_storage option" where
  "push_rows_without_truncation rows fl = push_rows_internal rows fl"

definition push_rows :: "row list \<Rightarrow> flat_storage \<Rightarrow> flat_storage option" where
  "push_rows rows fl = map_option apply_max_rows (push_rows_internal rows fl)"

section \<open>Reading rows\<close>

record row_reader =
  rd_row_index :: nat
  rd_row :: row

definition rows_from :: "nat \<Rightarrow> flat_storage \<Rightarrow> row_reader" where
  "rows_from start_row fl = \<lparr>rd_row_index = start_row, rd_row = row_new (fl_columns fl)\<rparr>"

definition next_attribute :: "nat \<Rightarrow> 'a attribute_iter \<Rightarrow> ('a \<times> 'a attribute_iter) option" where
  "next_attribute len it = do { n \<leftarrow> checked_sub len 1; Some (it_nth n it) }"

definition flags_insert :: "u16 \<Rightarrow> cell \<Rightarrow> cell" where
  "flags_insert f c = c\<lparr>c_flags := bf_insert (c_flags c) f\<rparr>"

definition push_zerowidths :: "rust_str \<Rightarrow> cell \<Rightarrow> cell" where
  "push_zerowidths s c = fold push_zerowidth s c"

definition fill_cell ::
    "rust_str \<Rightarrow> color \<Rightarrow> bg_and_style \<Rightarrow> end_of_prompt option \<Rightarrow> nat \<Rightarrow> cell \<Rightarrow> cell" where
  "fill_cell s fg style prompt offset c =
     (let c = push_zerowidths (tl s) (c\<lparr>c_char := hd s\<rparr>);
          c = c\<lparr>c_fg := fg, c_bg := bs_bg style, c_flags := bs_flags style\<rparr>
      in case prompt of
           Some m \<Rightarrow> if ep_offset m = offset then mark_end_of_prompt (ep_extra_newline m) c else c
         | None \<Rightarrow> c)"

text \<open>The loop over the graphemes of a row; a grapheme that is a newline ends it.\<close>

type_synonym read_state = "row \<times> nat \<times> color attribute_iter \<times> bg_and_style attribute_iter"

fun read_graphemes :: "flat_storage \<Rightarrow> grapheme_info list \<Rightarrow> read_state \<Rightarrow> read_state option" where
  "read_graphemes fl [] st = Some st"
| "read_graphemes fl (i # infos) (r, offset, fgs, styles) = do {
     s \<leftarrow> content_index offset (offset + gi_utf8_bytes i) (fl_content fl);
     if s = [0x0A] then Some (r, offset, fgs, styles)
     else do {
       (fg, fgs) \<leftarrow> next_attribute (gi_utf8_bytes i) fgs;
       (style, styles) \<leftarrow> next_attribute (gi_utf8_bytes i) styles;
       if gi_cell_width i = 0
       then read_graphemes fl infos (r, offset + gi_utf8_bytes i, fgs, styles)
       else do {
         let idx = row_occ r;
         _ \<leftarrow> (if s = [] then None else Some ());
         r \<leftarrow> row_mut_at idx (fill_cell s fg style (fl_prompt fl) offset) r;
         r \<leftarrow> (if gi_cell_width i = 2
              then do { r \<leftarrow> row_mut_at idx (flags_insert WIDE_CHAR) r;
                        row_mut_at (idx + 1) (flags_insert WIDE_CHAR_SPACER) r }
              else Some r);
         read_graphemes fl infos (r, offset + gi_utf8_bytes i, fgs, styles)
       }
     }
   }"

definition last_cell_mut :: "(cell \<Rightarrow> cell) \<Rightarrow> row \<Rightarrow> row option" where
  "last_cell_mut f r =
     (if row_inner r = [] then None
      else Some \<lparr>row_inner = (row_inner r)[row_len r - 1 := f (last (row_inner r))], row_occ = row_len r\<rparr>)"

text \<open>\<open>next\<close>: a panic, no row, or a row and the iterator moved on.\<close>

definition reader_next :: "flat_storage \<Rightarrow> row_reader \<Rightarrow> (row \<times> row_reader) option option" where
  "reader_next fl rd =
     (case content_range_for_row (rd_row_index rd) (fl_index fl) of
        None \<Rightarrow> Some None
      | Some (start, _) \<Rightarrow> do {
          r \<leftarrow> row_reset cell_default (rd_row rd);
          (case grapheme_infos_for_row (rd_row_index rd) (fl_index fl) of
             None \<Rightarrow> Some None
           | Some infos \<Rightarrow> do {
               (r, _) \<leftarrow> read_graphemes fl infos
                 (r, start, am_iter_from start (fl_fg fl), am_iter_from start (fl_style fl));
               e \<leftarrow> get_entry (rd_row_index rd) (fl_index fl);
               r \<leftarrow> (if \<not> en_has_trailing_newline e then last_cell_mut (flags_insert WRAPLINE) r
                    else Some r);
               r \<leftarrow> (if en_ends_with_spacer e
                    then last_cell_mut (flags_insert LEADING_WIDE_CHAR_SPACER) r else Some r);
               Some (Some (r, rd\<lparr>rd_row_index := rd_row_index rd + 1, rd_row := r\<rparr>))
             })
        })"

text \<open>Collecting an iterator; the fuel bounds the rows that are left.\<close>

fun collect_rows :: "nat \<Rightarrow> flat_storage \<Rightarrow> row_reader \<Rightarrow> row list option" where
  "collect_rows 0 fl rd = Some []"
| "collect_rows (Suc fuel) fl rd =
     (case reader_next fl rd of
        None \<Rightarrow> None
      | Some None \<Rightarrow> Some []
      | Some (Some (r, rd)) \<Rightarrow> map_option ((#) r) (collect_rows fuel fl rd))"

definition pop_rows :: "nat \<Rightarrow> flat_storage \<Rightarrow> (row list \<times> flat_storage) option" where
  "pop_rows count fl = do {
     let start_row = total_rows fl - count;
     rows \<leftarrow> collect_rows (total_rows fl) fl (rows_from start_row fl);
     fl \<leftarrow> flat_truncate start_row fl;
     Some (rows, fl)
   }"

section \<open>Lookups\<close>

definition flat_offset_at_point :: "nat \<times> nat \<Rightarrow> flat_storage \<Rightarrow> (content_offset_error + nat) option" where
  "flat_offset_at_point p fl = content_offset_at_point p (fl_index fl)"

definition flat_offset_to_point :: "nat \<Rightarrow> flat_storage \<Rightarrow> (point_error + nat \<times> nat) option" where
  "flat_offset_to_point off fl = content_offset_to_point off (fl_index fl)"

definition flat_cell_type :: "nat \<Rightarrow> nat \<Rightarrow> flat_storage \<Rightarrow> cell_type option option" where
  "flat_cell_type row col fl = index_cell_type row col (fl_index fl)"

definition row_wraps :: "nat \<Rightarrow> flat_storage \<Rightarrow> bool" where
  "row_wraps row fl =
     (case get_entry row (fl_index fl) of Some e \<Rightarrow> \<not> en_has_trailing_newline e | None \<Rightarrow> False)"

end
