(* ===== verification/Flat_Storage_Correct.thy ===== *)
theory Flat_Storage_Correct
  imports Flat_Storage
begin

text \<open>
  What a storage stands for: lines of glyphs, each with its text, its size and its
  attributes (\<open>flat_rep\<close>).  Reading a row lays its glyphs out; pushing a row adds the glyphs
  of its cells up to the last one with content; the operations that drop rows keep the
  others.
\<close>

section \<open>Glyphs\<close>

record glyph =
  gl_info :: grapheme_info
  gl_text :: rust_str
  gl_fg :: color
  gl_style :: bg_and_style

type_synonym flat_line = "glyph list \<times> bool \<times> bool"

definition glyph_at :: "flat_storage \<Rightarrow> nat \<Rightarrow> glyph \<Rightarrow> bool" where
  "glyph_at fl off g \<longleftrightarrow>
     info_ok (gl_info g) \<and> gi_utf8_bytes (gl_info g) = str_len (gl_text g) \<and> gl_text g \<noteq> [0x0A] \<and>
     stored (fl_content fl) off (gl_text g) \<and>
     am_value (fl_fg fl) (off + gi_utf8_bytes (gl_info g) - 1) = gl_fg g \<and>
     am_value (fl_style fl) (off + gi_utf8_bytes (gl_info g) - 1) = gl_style g"

fun glyphs_at :: "flat_storage \<Rightarrow> nat \<Rightarrow> glyph list \<Rightarrow> bool" where
  "glyphs_at fl off [] \<longleftrightarrow> True"
| "glyphs_at fl off (g # gs) \<longleftrightarrow>
     glyph_at fl off g \<and> glyphs_at fl (off + gi_utf8_bytes (gl_info g)) gs"

abbreviation glyphs_cols :: "glyph list \<Rightarrow> nat" where
  "glyphs_cols gs \<equiv> infos_cols (map gl_info gs)"

abbreviation glyphs_bytes :: "glyph list \<Rightarrow> nat" where
  "glyphs_bytes gs \<equiv> infos_bytes (map gl_info gs)"

lemma glyphs_at_append:
  "glyphs_at fl off (xs @ ys) \<longleftrightarrow> glyphs_at fl off xs \<and> glyphs_at fl (off + glyphs_bytes xs) ys"
  by (induction xs arbitrary: off) (auto simp: add.assoc)

lemma glyphs_at_infos: "glyphs_at fl off gs \<Longrightarrow> list_all info_ok (map gl_info gs)"
  by (induction gs arbitrary: off) (auto simp: glyph_at_def)

section \<open>Reading\<close>

definition glyph_cell :: "end_of_prompt option \<Rightarrow> nat \<Rightarrow> glyph \<Rightarrow> cell" where
  "glyph_cell prompt off g =
     (let c = fill_cell (gl_text g) (gl_fg g) (gl_style g) prompt off cell_default
      in if gi_cell_width (gl_info g) = 2 then flags_insert WIDE_CHAR c else c)"

fun glyph_cells :: "end_of_prompt option \<Rightarrow> nat \<Rightarrow> glyph list \<Rightarrow> cell list" where
  "glyph_cells prompt off [] = []"
| "glyph_cells prompt off (g # gs) =
     glyph_cell prompt off g #
     (if gi_cell_width (gl_info g) = 2 then [flags_insert WIDE_CHAR_SPACER cell_default] else []) @
     glyph_cells prompt (off + gi_utf8_bytes (gl_info g)) gs"

lemma length_glyph_cells:
  "list_all info_ok (map gl_info gs) \<Longrightarrow> length (glyph_cells prompt off gs) = glyphs_cols gs"
  by (induction gs arbitrary: off) (auto simp: info_ok_def)

definition map_last :: "('a \<Rightarrow> 'a) \<Rightarrow> 'a list \<Rightarrow> 'a list" where
  "map_last f xs = xs[length xs - 1 := f (last xs)]"

definition line_cells :: "nat \<Rightarrow> end_of_prompt option \<Rightarrow> nat \<Rightarrow> flat_line \<Rightarrow> cell list" where
  "line_cells columns prompt off l =
     (let cs = glyph_cells prompt off (fst l) @ replicate (columns - glyphs_cols (fst l)) cell_default;
          cs = (if \<not> fst (snd l) then map_last (flags_insert WRAPLINE) cs else cs)
      in if snd (snd l) then map_last (flags_insert LEADING_WIDE_CHAR_SPACER) cs else cs)"

lemma row_mut_next:
  "row_mut_at (length pre) f \<lparr>row_inner = pre @ c # cs, row_occ = k\<rparr> =
   Some \<lparr>row_inner = pre @ f c # cs, row_occ = max k (length pre + 1)\<rparr>"
  by (simp add: row_mut_at_def row_len_def)

lemma row_mut_after:
  "row_mut_at (Suc (length pre)) f \<lparr>row_inner = pre @ c # d # cs, row_occ = k\<rparr> =
   Some \<lparr>row_inner = pre @ c # f d # cs, row_occ = max k (length pre + 2)\<rparr>"
  by (simp add: row_mut_at_def row_len_def nth_append list_update_append)

lemma read_graphemes_ok:
  assumes "glyphs_at fl off gs" "content_ok st (fl_content fl)"
    "iter_at (fl_fg fl) off fgs" "iter_at (fl_style fl) off styles" "glyphs_cols gs \<le> n"
  shows "\<exists>st'. read_graphemes fl (map gl_info gs)
       (\<lparr>row_inner = pre @ replicate n cell_default, row_occ = length pre\<rparr>, off, fgs, styles) =
     Some (\<lparr>row_inner = pre @ glyph_cells (fl_prompt fl) off gs @ replicate (n - glyphs_cols gs) cell_default,
            row_occ = length pre + glyphs_cols gs\<rparr>, st')"
  using assms(1,3-5)
proof (induction gs arbitrary: off fgs styles pre n)
  case (Cons g gs)
  let ?b = "gi_utf8_bytes (gl_info g)" and ?w = "gi_cell_width (gl_info g)"
  have g: "info_ok (gl_info g)" "?b = str_len (gl_text g)" "gl_text g \<noteq> [0x0A]"
      "stored (fl_content fl) off (gl_text g)"
      "am_value (fl_fg fl) (off + ?b - 1) = gl_fg g" "am_value (fl_style fl) (off + ?b - 1) = gl_style g"
      "glyphs_at fl (off + ?b) gs"
    using Cons.prems(1) unfolding glyphs_at.simps glyph_at_def by blast+
  have b: "1 \<le> ?b" "off + (?b - 1) = off + ?b - 1" "off + (?b - 1) + 1 = off + ?b"
    using g(1) by (auto simp: info_ok_def)
  have s: "content_index off (off + ?b) (fl_content fl) = Some (gl_text g)" "gl_text g \<noteq> []"
    using content_index_ok [OF assms(2) g(4)] g(2,4) by (simp_all add: stored_def)
  obtain fgs1 where fg: "next_attribute ?b fgs = Some (gl_fg g, fgs1)" "iter_at (fl_fg fl) (off + ?b) fgs1"
    using it_nth_at [OF Cons.prems(2), of "?b - 1"] b g(5)
    by (cases "it_nth (?b - 1) fgs") (simp add: next_attribute_def checked_sub_def)
  obtain styles1 where style: "next_attribute ?b styles = Some (gl_style g, styles1)"
      "iter_at (fl_style fl) (off + ?b) styles1"
    using it_nth_at [OF Cons.prems(3), of "?b - 1"] b g(6)
    by (cases "it_nth (?b - 1) styles") (simp add: next_attribute_def checked_sub_def)
  let ?fill = "fill_cell (gl_text g) (gl_fg g) (gl_style g) (fl_prompt fl) off"
  show ?case
  proof (cases "?w = 2")
    case True
    obtain m where n: "n = Suc (Suc m)" "glyphs_cols gs \<le> m"
      using Cons.prems(4) True by (cases n; cases "n - 1") auto
    let ?pre = "pre @ [flags_insert WIDE_CHAR (?fill cell_default), flags_insert WIDE_CHAR_SPACER cell_default]"
    show ?thesis
      using Cons.IH [OF g(7) fg(2) style(2) n(2), of ?pre] True fg(1) style(1) s g(3)
      by (simp add: n row_mut_next row_mut_after glyph_cell_def Let_def)
  next
    case False
    then have w: "?w = 1" using g(1) by (auto simp: info_ok_def)
    obtain m where n: "n = Suc m" "glyphs_cols gs \<le> m"
      using Cons.prems(4) w by (cases n) auto
    show ?thesis
      using Cons.IH [OF g(7) fg(2) style(2) n(2), of "pre @ [?fill cell_default]"] w fg(1) style(1) s g(3)
      by (simp add: n row_mut_next glyph_cell_def Let_def)
  qed
qed simp

section \<open>What a storage stands for\<close>

definition line_of :: "flat_line \<Rightarrow> line" where
  "line_of l = (map gl_info (fst l), snd l)"

abbreviation line_start :: "nat \<Rightarrow> flat_line list \<Rightarrow> nat \<Rightarrow> nat" where
  "line_start base lines i \<equiv> base + bytes_before i (map line_of lines)"

definition flat_rep :: "flat_storage \<Rightarrow> nat \<Rightarrow> flat_line list \<Rightarrow> bool" where
  "flat_rep fl base lines \<longleftrightarrow>
     index_rep (fl_index fl) base (map line_of lines) \<and> ix_columns (fl_index fl) = fl_columns fl \<and>
     (\<exists>st\<le>base. content_ok st (fl_content fl)) \<and>
     ix_content_len (fl_index fl) = content_end (fl_content fl) \<and>
     am_ok (content_end (fl_content fl)) (fl_fg fl) \<and> am_ok (content_end (fl_content fl)) (fl_style fl) \<and>
     (\<forall>i<length lines. glyphs_at fl (line_start base lines i) (fst (lines ! i)) \<and>
        glyphs_cols (fst (lines ! i)) \<le> fl_columns fl)"

lemma flat_rep_end:
  assumes "flat_rep fl base lines"
  shows "line_start base lines (length lines) = content_end (fl_content fl)"
    "n \<le> length lines \<Longrightarrow> line_start base lines n \<le> content_end (fl_content fl)"
proof -
  have "index_rep (fl_index fl) base (map line_of lines)"
      "ix_content_len (fl_index fl) = content_end (fl_content fl)"
    using assms by (simp_all add: flat_rep_def)
  then show e: "line_start base lines (length lines) = content_end (fl_content fl)"
    using index_rep_end by fastforce
  show "line_start base lines n \<le> content_end (fl_content fl)" if "n \<le> length lines"
    unfolding e [symmetric] using bytes_before_mono [OF that] by simp
qed

lemma row_ok_prefix:
  "0 < columns \<Longrightarrow> length cs = k \<Longrightarrow> k \<le> columns \<Longrightarrow>
   row_ok columns \<lparr>row_inner = cs @ replicate (columns - k) cell_default, row_occ = k\<rparr>"
  by (cases "k = columns")
     (auto simp: row_ok_def row_clean_def row_len_def list_all_iff cell_default_eq)

lemma last_cell_mut_ok:
  assumes "row_ok columns r"
  shows "last_cell_mut f r = Some \<lparr>row_inner = map_last f (row_inner r), row_occ = columns\<rparr>"
    "row_ok columns \<lparr>row_inner = map_last f (row_inner r), row_occ = columns\<rparr>"
  using assms by (auto simp: last_cell_mut_def map_last_def row_ok_def row_clean_def row_len_def)

lemma reader_next_ok:
  assumes "flat_rep fl base lines" "i < length lines" "0 < fl_columns fl"
    "row_ok (fl_columns fl) (rd_row rd)" "rd_row_index rd = i"
  shows "\<exists>r. reader_next fl rd = Some (Some (r, rd\<lparr>rd_row_index := i + 1, rd_row := r\<rparr>)) \<and>
     row_ok (fl_columns fl) r \<and>
     row_inner r = line_cells (fl_columns fl) (fl_prompt fl) (line_start base lines i) (lines ! i)"
proof -
  let ?gs = "fst (lines ! i)" and ?off = "line_start base lines i" and ?cols = "fl_columns fl"
  have rep: "index_rep (fl_index fl) base (map line_of lines)"
    using assms(1) by (simp add: flat_rep_def)
  have il: "i < length (map line_of lines)" using assms(2) by simp
  note rd = index_rep_reads [OF rep il]
  obtain st where st: "content_ok st (fl_content fl)" using assms(1) by (auto simp: flat_rep_def)
  have g: "glyphs_at fl ?off ?gs" "glyphs_cols ?gs \<le> ?cols" using assms(1,2) by (simp_all add: flat_rep_def)
  have srt: "btree_sorted (am_map (fl_fg fl))" "btree_sorted (am_map (fl_style fl))"
    using assms(1) by (simp_all add: flat_rep_def am_ok_def)
  let ?cs = "glyph_cells (fl_prompt fl) ?off ?gs"
  let ?r = "\<lparr>row_inner = ?cs @ replicate (?cols - glyphs_cols ?gs) cell_default, row_occ = glyphs_cols ?gs\<rparr>"
  obtain st' where read: "read_graphemes fl (map gl_info ?gs)
      (\<lparr>row_inner = replicate ?cols cell_default, row_occ = 0\<rparr>, ?off,
       am_iter_from ?off (fl_fg fl), am_iter_from ?off (fl_style fl)) = Some (?r, st')"
    using read_graphemes_ok [OF g(1) st iter_from_at [OF srt(1)] iter_from_at [OF srt(2)] g(2), of "[]"] by auto
  have ok: "row_ok ?cols ?r"
    using row_ok_prefix [OF assms(3) length_glyph_cells [OF glyphs_at_infos [OF g(1)]] g(2)] by simp
  have reset: "row_reset cell_default (rd_row rd) = Some \<lparr>row_inner = replicate ?cols cell_default, row_occ = 0\<rparr>"
    using row_reset_blank [OF assms(4)] by (simp add: row_blank_def cell_default_eq)
  define r1 where "r1 = (if \<not> fst (snd (lines ! i)) then
      \<lparr>row_inner = map_last (flags_insert WRAPLINE) (row_inner ?r), row_occ = ?cols\<rparr> else ?r)"
  have ok1: "row_ok ?cols r1" using last_cell_mut_ok(2) [OF ok] ok by (simp add: r1_def)
  define r2 where "r2 = (if snd (snd (lines ! i)) then
      \<lparr>row_inner = map_last (flags_insert LEADING_WIDE_CHAR_SPACER) (row_inner r1), row_occ = ?cols\<rparr> else r1)"
  have ok2: "row_ok ?cols r2" using last_cell_mut_ok(2) [OF ok1] ok1 by (simp add: r2_def)
  have start: "\<exists>e. content_range_for_row i (fl_index fl) = Some (?off, e)"
    using rd(1) by (simp add: content_range_for_row_def content_offset_for_row_def)
  have m1: "(if \<not> fst (snd (lines ! i)) then last_cell_mut (flags_insert WRAPLINE) ?r else Some ?r) = Some r1"
    using last_cell_mut_ok(1) [OF ok] by (simp add: r1_def)
  have m2: "(if snd (snd (lines ! i)) then last_cell_mut (flags_insert LEADING_WIDE_CHAR_SPACER) r1 else Some r1) = Some r2"
    using last_cell_mut_ok(1) [OF ok1] by (simp add: r2_def)
  have "reader_next fl rd = Some (Some (r2, rd\<lparr>rd_row_index := i + 1, rd_row := r2\<rparr>))"
    using start reset read rd(1,3) il m1 m2 assms(5)
    by (auto simp: reader_next_def line_of_def)
  moreover have "row_inner r2 = line_cells ?cols (fl_prompt fl) ?off (lines ! i)"
    by (simp add: r2_def r1_def line_cells_def Let_def)
  ultimately show ?thesis using ok2 by blast
qed

lemma reader_done:
  assumes "flat_rep fl base lines" "length lines \<le> rd_row_index rd"
  shows "reader_next fl rd = Some None"
proof -
  have rep: "index_rep (fl_index fl) base (map line_of lines)" using assms(1) by (simp add: flat_rep_def)
  have "length (ix_rows (fl_index fl)) \<le> rd_row_index rd"
    using index_rep_len [OF rep] assms(2) by (simp add: index_len_def)
  then show ?thesis
    by (simp add: reader_next_def content_range_for_row_def content_offset_for_row_def get_entry_def)
qed

lemma collect_rows_ok:
  assumes "flat_rep fl base lines" "0 < fl_columns fl" "row_ok (fl_columns fl) (rd_row rd)"
    "length lines \<le> rd_row_index rd + fuel"
  shows "\<exists>rows. collect_rows fuel fl rd = Some rows \<and>
     map row_inner rows =
       map (\<lambda>i. line_cells (fl_columns fl) (fl_prompt fl) (line_start base lines i) (lines ! i))
         [rd_row_index rd..<length lines]"
  using assms(3,4)
proof (induction fuel arbitrary: rd)
  case (Suc fuel)
  show ?case
  proof (cases "rd_row_index rd < length lines")
    case True
    obtain r where r: "reader_next fl rd = Some (Some (r, rd\<lparr>rd_row_index := rd_row_index rd + 1, rd_row := r\<rparr>))"
        "row_ok (fl_columns fl) r"
        "row_inner r = line_cells (fl_columns fl) (fl_prompt fl)
           (line_start base lines (rd_row_index rd)) (lines ! rd_row_index rd)"
      using reader_next_ok [OF assms(1) True assms(2) Suc.prems(1) refl] by blast
    obtain rows where "collect_rows fuel fl (rd\<lparr>rd_row_index := rd_row_index rd + 1, rd_row := r\<rparr>) = Some rows"
        "map row_inner rows =
         map (\<lambda>i. line_cells (fl_columns fl) (fl_prompt fl) (line_start base lines i) (lines ! i))
           [rd_row_index rd + 1..<length lines]"
      using Suc.IH [of "rd\<lparr>rd_row_index := rd_row_index rd + 1, rd_row := r\<rparr>"] r(2) Suc.prems(2) by auto
    then show ?thesis using r(1,3) True by (simp add: upt_conv_Cons)
  next
    case False
    then show ?thesis using reader_done [OF assms(1)] by simp
  qed
qed simp

end
