(* ===== verification/Flat_Storage_Keep.thy ===== *)
theory Flat_Storage_Keep
  imports Flat_Storage_Correct
begin

text \<open>
  The operations of the flat storage that keep lines: dropping rows at either end keeps the
  others, and a change of the width keeps the glyphs and newlines, in order.
\<close>

section \<open>Parts of an index\<close>

lemma entries_ok_cong:
  assumes "entries_ok gs a es ls b" "\<And>j. a \<le> j \<Longrightarrow> j < b \<Longrightarrow> btree_get j gs' = btree_get j gs"
  shows "entries_ok gs' a es ls b"
  using assms
proof (induction gs a es ls b rule: entries_ok.induct)
  case (2 gs start e es l ls end_offset)
  have rest: "entries_ok gs (start + line_bytes l) es ls end_offset" using 2 by simp
  have "entries_ok gs' (start + line_bytes l) es ls end_offset"
    using "2.IH" rest 2(3) by simp
  moreover have "start < end_offset" if "sizing_of (rle (fst l)) = NonUniform"
  proof -
    have "fst l \<noteq> []" using that by (auto simp: sizing_of_def rle_def)
    then have "0 < line_bytes l" using 2 line_bytes_pos by simp
    then show ?thesis using entries_ok_end [OF rest] by simp
  qed
  ultimately show ?case using 2 by auto
qed auto

lemma bytes_before_Cons: "bytes_before (Suc n) (l # ls) = line_bytes l + bytes_before n ls"
  by (simp add: bytes_before_def)

lemma bytes_before_0 [simp]: "bytes_before 0 ls = 0"
  by (simp add: bytes_before_def)

lemma entries_ok_split:
  assumes "entries_ok gs a es ls b" "n \<le> length ls"
  shows "entries_ok gs a (take n es) (take n ls) (a + bytes_before n ls)"
    "entries_ok gs (a + bytes_before n ls) (drop n es) (drop n ls) b"
  using assms
proof (induction gs a es ls b arbitrary: n rule: entries_ok.induct)
  case (2 gs start e es l ls end_offset)
  {
    case 1
    then show ?case using "2.IH"(1) by (cases n) (simp_all add: bytes_before_Cons add.assoc)
  next
    case 2
    then show ?case using "2.IH"(2) by (cases n) (simp_all add: bytes_before_Cons add.assoc)
  }
qed (auto simp: bytes_before_def)

lemma index_truncate_rep:
  assumes "index_rep ix base lines" "n \<le> length lines"
  shows "fst (index_truncate n ix) = base + bytes_before n lines"
    "index_rep (snd (index_truncate n ix)) base (take n lines)"
    "ix_columns (snd (index_truncate n ix)) = ix_columns ix"
    "ix_content_len (snd (index_truncate n ix)) = base + bytes_before n lines"
proof -
  have e: "btree_sorted (ix_grapheme_sizing ix)"
      "entries_ok (ix_grapheme_sizing ix) base (ix_rows ix) lines (ix_content_len ix)"
    using assms(1) by (simp_all add: index_rep_def)
  note s = entries_ok_split [OF e(2) assms(2)]
  have "fst (index_truncate n ix) = base + bytes_before n lines \<and>
    index_rep (snd (index_truncate n ix)) base (take n lines) \<and>
    ix_columns (snd (index_truncate n ix)) = ix_columns ix \<and>
    ix_content_len (snd (index_truncate n ix)) = base + bytes_before n lines"
  proof (cases "n < length lines")
    case True
    have "entries_ok (btree_below (base + bytes_before n lines) (ix_grapheme_sizing ix)) base
        (take n (ix_rows ix)) (take n lines) (base + bytes_before n lines)"
      by (rule entries_ok_cong [OF s(1)]) (simp add: om.lookup_below e(1))
    then show ?thesis
      using index_rep_reads(1) [OF assms(1) True] om.invar_below [OF e(1)]
      by (simp add: index_truncate_def content_offset_for_row_def index_rep_def)
  next
    case False
    then have n: "n = length lines" using assms(2) by simp
    have "content_offset_for_row n ix = None"
      using index_rep_len [OF assms(1)]
      by (simp add: n content_offset_for_row_def get_entry_def index_len_def)
    then show ?thesis
      using index_rep_end [OF assms(1)] assms(1) by (simp add: n index_truncate_def)
  qed
  then show "fst (index_truncate n ix) = base + bytes_before n lines"
    "index_rep (snd (index_truncate n ix)) base (take n lines)"
    "ix_columns (snd (index_truncate n ix)) = ix_columns ix"
    "ix_content_len (snd (index_truncate n ix)) = base + bytes_before n lines" by blast+
qed

lemma index_truncate_front_rep:
  assumes "index_rep ix base lines" "n \<le> length lines"
  shows "fst (index_truncate_front n ix) = base + bytes_before n lines"
    "index_rep (snd (index_truncate_front n ix)) (base + bytes_before n lines) (drop n lines)"
    "ix_columns (snd (index_truncate_front n ix)) = ix_columns ix"
    "ix_content_len (snd (index_truncate_front n ix)) = ix_content_len ix"
proof -
  have e: "btree_sorted (ix_grapheme_sizing ix)"
      "entries_ok (ix_grapheme_sizing ix) base (ix_rows ix) lines (ix_content_len ix)"
    using assms(1) by (simp_all add: index_rep_def)
  note s = entries_ok_split [OF e(2) assms(2)]
  show f: "fst (index_truncate_front n ix) = base + bytes_before n lines"
  proof (cases "n < length lines")
    case True
    then show ?thesis
      using index_rep_reads(1) [OF assms(1) True]
      by (simp add: index_truncate_front_def content_offset_for_row_def Let_def)
  next
    case False
    then have n: "n = length lines" using assms(2) by simp
    have "content_offset_for_row n ix = None"
      using index_rep_len [OF assms(1)]
      by (simp add: n content_offset_for_row_def get_entry_def index_len_def)
    then show ?thesis
      using index_rep_end [OF assms(1)] by (simp add: n index_truncate_front_def Let_def)
  qed
  have "entries_ok (btree_from (base + bytes_before n lines) (ix_grapheme_sizing ix))
      (base + bytes_before n lines) (drop n (ix_rows ix)) (drop n lines) (ix_content_len ix)"
    by (rule entries_ok_cong [OF s(2)]) (simp add: om.lookup_above e(1))
  then show "index_rep (snd (index_truncate_front n ix)) (base + bytes_before n lines) (drop n lines)"
    using f om.invar_above [OF e(1)] by (simp add: index_truncate_front_def index_rep_def Let_def)
qed (simp_all add: index_truncate_front_def Let_def)

section \<open>What is kept\<close>

text \<open>The text and the attributes of the bytes in a range are those of another storage.\<close>

definition keeps_bytes :: "nat \<Rightarrow> nat \<Rightarrow> flat_storage \<Rightarrow> flat_storage \<Rightarrow> bool" where
  "keeps_bytes lo hi fl fl' \<longleftrightarrow>
     (\<forall>off s. stored (fl_content fl) off s \<longrightarrow> lo \<le> off \<longrightarrow> off + str_len s \<le> hi \<longrightarrow>
        stored (fl_content fl') off s) \<and>
     (\<forall>k. lo \<le> k \<longrightarrow> k < hi \<longrightarrow> am_value (fl_fg fl') k = am_value (fl_fg fl) k \<and>
        am_value (fl_style fl') k = am_value (fl_style fl) k)"

lemma keeps_glyphs:
  assumes "keeps_bytes lo hi fl fl'" "glyphs_at fl off gs" "lo \<le> off" "off + glyphs_bytes gs \<le> hi"
  shows "glyphs_at fl' off gs"
  using assms(2-4)
proof (induction gs arbitrary: off)
  case (Cons g gs)
  have g: "info_ok (gl_info g)" "gi_utf8_bytes (gl_info g) = str_len (gl_text g)"
    using Cons.prems(1) by (auto simp: glyph_at_def)
  then have "0 < gi_utf8_bytes (gl_info g)" by (auto simp: info_ok_def)
  then have "glyph_at fl' off g"
    using assms(1) Cons.prems g by (auto simp: glyph_at_def keeps_bytes_def)
  then show ?case using Cons.IH Cons.prems by simp
qed simp

lemma keeps_bytes_trans: "keeps_bytes lo hi a b \<Longrightarrow> keeps_bytes lo hi b c \<Longrightarrow> keeps_bytes lo hi a c"
  by (simp add: keeps_bytes_def)

lemma line_bytes_of: "line_bytes (line_of l) = glyphs_bytes (fst l) + (if fst (snd l) then 1 else 0)"
  by (simp add: line_bytes_def line_of_def)

lemma line_in_range:
  assumes "i < length lines"
  shows "line_start base lines i + glyphs_bytes (fst (lines ! i)) \<le> line_start base lines (Suc i)"
  using bytes_before_Suc [of i "map line_of lines"] assms by (simp add: line_bytes_of)

section \<open>Dropping rows\<close>

lemma bytes_before_take: "i \<le> n \<Longrightarrow> bytes_before i (take n ls) = bytes_before i ls"
  by (simp add: bytes_before_def min_absorb1)

lemma bytes_before_drop: "n + i \<le> length ls \<Longrightarrow> bytes_before n ls + bytes_before i (drop n ls) = bytes_before (n + i) ls"
  by (simp add: bytes_before_def take_add)

lemma flat_truncate_rep:
  assumes "flat_rep fl base lines" "n \<le> length lines"
  shows "\<exists>fl'. flat_truncate n fl = Some fl' \<and> flat_rep fl' base (take n lines) \<and>
     fl_columns fl' = fl_columns fl"
proof -
  have rep: "index_rep (fl_index fl) base (map line_of lines)" using assms(1) by (simp add: flat_rep_def)
  have n: "n \<le> length (map line_of lines)" using assms(2) by simp
  note t = index_truncate_rep [OF rep n]
  let ?n = "line_start base lines n"
  obtain st where st: "st \<le> base" "content_ok st (fl_content fl)" using assms(1) by (auto simp: flat_rep_def)
  have end_le: "?n \<le> content_end (fl_content fl)"
    by (rule flat_rep_end(2) [OF assms])
  obtain c where c: "content_truncate ?n (fl_content fl) = Some c" "content_ok st c" "content_end c = ?n"
      "\<And>off s. stored (fl_content fl) off s \<Longrightarrow> off + str_len s \<le> ?n \<Longrightarrow> stored c off s"
    using content_truncate_ok [OF st(2) _ end_le] st(1) by auto
  obtain ix where ix: "index_truncate n (fl_index fl) = (?n, ix)" "index_rep ix base (take n (map line_of lines))"
      "ix_columns ix = ix_columns (fl_index fl)" "ix_content_len ix = ?n"
    using t by (cases "index_truncate n (fl_index fl)") auto
  let ?fl = "fl\<lparr>fl_index := ix, fl_content := c, fl_fg := am_truncate ?n (fl_fg fl),
                fl_style := am_truncate ?n (fl_style fl),
                fl_prompt := (case fl_prompt fl of
                    Some m \<Rightarrow> if ep_offset m \<ge> ?n then None else Some m | None \<Rightarrow> None)\<rparr>"
  have srt: "btree_sorted (am_map (fl_fg fl))" "btree_sorted (am_map (fl_style fl))"
    using assms(1) by (simp_all add: flat_rep_def am_ok_def)
  have keep: "keeps_bytes base ?n fl ?fl"
    using c(4) am_truncate_ok(2) [OF srt(1)] am_truncate_ok(2) [OF srt(2)] by (simp add: keeps_bytes_def)
  have lines: "glyphs_at ?fl (line_start base (take n lines) i) (fst (take n lines ! i)) \<and>
      glyphs_cols (fst (take n lines ! i)) \<le> fl_columns ?fl" if i: "i < length (take n lines)" for i
  proof -
    have i': "i < length lines" "i < n" using i by auto
    have "line_start base lines i + glyphs_bytes (fst (lines ! i)) \<le> ?n"
      using line_in_range [OF i'(1), of base] bytes_before_mono [of "Suc i" n "map line_of lines"] i'(2) by simp
    then show ?thesis
      using keeps_glyphs [OF keep] assms(1) i' by (simp add: flat_rep_def take_map [symmetric] bytes_before_take)
  qed
  have "flat_rep ?fl base (take n lines)"
    using ix(2-4) c(2,3) st(1) am_truncate_ok(1) [OF srt(1)] am_truncate_ok(1) [OF srt(2)] lines assms(1)
    by (auto simp: flat_rep_def take_map)
  then show ?thesis using ix(1) c(1) by (simp add: flat_truncate_def)
qed

lemma flat_truncate_front_rep:
  assumes "flat_rep fl base lines"
  shows "flat_rep (truncate_rows_front n fl) (line_start base lines (min n (length lines))) (drop n lines)"
    "fl_columns (truncate_rows_front n fl) = fl_columns fl"
    "fl_prompt (truncate_rows_front n fl) = fl_prompt fl"
    "fl_num_truncated (truncate_rows_front n fl) = fl_num_truncated fl + min n (length lines)"
proof -
  have rep: "index_rep (fl_index fl) base (map line_of lines)" using assms by (simp add: flat_rep_def)
  have total: "total_rows fl = length lines" using index_rep_len [OF rep] by (simp add: total_rows_def)
  let ?k = "min n (length lines)"
  have k: "?k \<le> length (map line_of lines)" by simp
  note t = index_truncate_front_rep [OF rep k]
  let ?n = "line_start base lines ?k"
  show "fl_columns (truncate_rows_front n fl) = fl_columns fl" "fl_prompt (truncate_rows_front n fl) = fl_prompt fl"
    "fl_num_truncated (truncate_rows_front n fl) = fl_num_truncated fl + ?k"
    by (auto simp: truncate_rows_front_def total Let_def split: prod.splits)
  show "flat_rep (truncate_rows_front n fl) ?n (drop n lines)"
  proof (cases "n = 0")
    case True
    then show ?thesis using assms by (simp add: truncate_rows_front_def)
  next
    case False
    obtain st where st: "st \<le> base" "content_ok st (fl_content fl)" using assms by (auto simp: flat_rep_def)
    obtain ix where ix: "index_truncate_front ?k (fl_index fl) = (?n, ix)"
        "index_rep ix ?n (drop ?k (map line_of lines))" "ix_columns ix = ix_columns (fl_index fl)"
        "ix_content_len ix = ix_content_len (fl_index fl)"
      using t by (cases "index_truncate_front ?k (fl_index fl)") auto
    let ?fl = "fl\<lparr>fl_index := ix, fl_content := content_truncate_front ?n (fl_content fl),
        fl_fg := am_truncate_front ?n (fl_fg fl), fl_style := am_truncate_front ?n (fl_style fl),
        fl_num_truncated := fl_num_truncated fl + ?k\<rparr>"
    have eq: "truncate_rows_front n fl = ?fl"
      using False ix(1) by (simp add: truncate_rows_front_def total Let_def min.commute)
    obtain st' where c: "st' \<le> ?n" "content_ok st' (fl_content ?fl)"
        "content_end (fl_content ?fl) = content_end (fl_content fl)"
        "\<And>off s. stored (fl_content fl) off s \<Longrightarrow> ?n \<le> off \<Longrightarrow> stored (fl_content ?fl) off s"
      using content_truncate_front_ok [OF st(2), of ?n] st(1) by auto
    have am: "am_ok (content_end (fl_content fl)) (fl_fg fl)" "am_ok (content_end (fl_content fl)) (fl_style fl)"
      using assms unfolding flat_rep_def by blast+
    have parts: "ix_columns (fl_index fl) = fl_columns fl" "ix_content_len (fl_index fl) = content_end (fl_content fl)"
      using assms unfolding flat_rep_def by blast+
    have keep: "keeps_bytes ?n (content_end (fl_content fl)) fl ?fl"
      using c(4) am_truncate_front_ok(2) [OF am(1)] am_truncate_front_ok(2) [OF am(2)] by (simp add: keeps_bytes_def)
    have dk: "drop n lines = drop ?k lines" by (simp add: min_def)
    have lines: "glyphs_at ?fl (line_start ?n (drop ?k lines) i) (fst (drop ?k lines ! i)) \<and>
        glyphs_cols (fst (drop ?k lines ! i)) \<le> fl_columns ?fl" if i: "i < length (drop ?k lines)" for i
    proof -
      have i': "?k + i < length lines" using i by simp
      have s: "line_start ?n (drop ?k lines) i = line_start base lines (?k + i)"
        using bytes_before_drop [of ?k i "map line_of lines"] i' by (simp add: drop_map)
      have "line_start base lines (?k + i) + glyphs_bytes (fst (lines ! (?k + i))) \<le> content_end (fl_content fl)"
        using line_in_range [OF i', of base] flat_rep_end(2) [OF assms Suc_leI [OF i']] by linarith
      moreover have "?n \<le> line_start base lines (?k + i)"
        using bytes_before_mono [of ?k "?k + i" "map line_of lines"] by simp
      moreover have "glyphs_at fl (line_start base lines (?k + i)) (fst (lines ! (?k + i))) \<and>
          glyphs_cols (fst (lines ! (?k + i))) \<le> fl_columns fl"
        using assms i' by (simp add: flat_rep_def)
      ultimately have "glyphs_at ?fl (line_start base lines (?k + i)) (fst (lines ! (?k + i))) \<and>
          glyphs_cols (fst (lines ! (?k + i))) \<le> fl_columns ?fl"
        using keeps_glyphs [OF keep] by simp
      then show ?thesis unfolding s using i' by simp
    qed
    show ?thesis
      unfolding eq dk flat_rep_def
      using ix(2-4) c(1-3) am_truncate_front_ok(1) [OF am(1), of ?n] am_truncate_front_ok(1) [OF am(2), of ?n]
        lines parts by (auto simp: drop_map)
  qed
qed

section \<open>Changing the width\<close>

text \<open>The glyphs and newlines (None) of lines, in order.\<close>

definition flat_stream :: "flat_line list \<Rightarrow> glyph option list" where
  "flat_stream lines = concat (map (\<lambda>l. map Some (fst l) @ (if fst (snd l) then [None] else [])) lines)"

lemma flat_stream_simps [simp]:
  "flat_stream [] = []"
  "flat_stream (l # ls) = map Some (fst l) @ (if fst (snd l) then [None] else []) @ flat_stream ls"
  by (simp_all add: flat_stream_def)

fun stream_at :: "flat_storage \<Rightarrow> nat \<Rightarrow> glyph option list \<Rightarrow> bool" where
  "stream_at fl off [] \<longleftrightarrow> True"
| "stream_at fl off (None # s) \<longleftrightarrow> stream_at fl (off + 1) s"
| "stream_at fl off (Some g # s) \<longleftrightarrow> glyph_at fl off g \<and> stream_at fl (off + gi_utf8_bytes (gl_info g)) s"

lemma stream_at_glyphs:
  "stream_at fl off (map Some gs @ s) \<longleftrightarrow> glyphs_at fl off gs \<and> stream_at fl (off + glyphs_bytes gs) s"
  by (induction gs arbitrary: off) (auto simp: add.assoc)

lemma stream_at_lines:
  "stream_at fl base (flat_stream lines) \<longleftrightarrow>
     (\<forall>i<length lines. glyphs_at fl (line_start base lines i) (fst (lines ! i)))"
proof (induction lines arbitrary: base)
  case (Cons l lines)
  have "(\<forall>i<length (l # lines). glyphs_at fl (line_start base (l # lines) i) (fst ((l # lines) ! i))) \<longleftrightarrow>
      glyphs_at fl base (fst l) \<and>
      (\<forall>i<length lines. glyphs_at fl (line_start (base + line_bytes (line_of l)) lines i) (fst (lines ! i)))"
    by (simp add: All_less_Suc2 bytes_before_Cons add.assoc)
  then show ?case by (auto simp: Cons stream_at_glyphs line_bytes_of)
qed simp

text \<open>Lines of sizes that carry the stream of given glyphs are lines of those glyphs.\<close>

lemma lines_of_stream:
  assumes "map (map_option gl_info) s = stream sizes"
  shows "\<exists>lines. map line_of lines = sizes \<and> flat_stream lines = s"
  using assms
proof (induction sizes arbitrary: s)
  case (Cons l sizes)
  let ?n = "length (fst l)"
  have first: "map (map_option gl_info) (take ?n s) = map Some (fst l)"
    using arg_cong [OF Cons.prems, of "take ?n"] by (simp add: take_map line_stream_def)
  have some: "take ?n s = map Some (map the (take ?n s))"
  proof -
    have "x \<noteq> None" if "x \<in> set (take ?n s)" for x
    proof -
      have "map_option gl_info x \<in> set (map Some (fst l))" using that first by (metis imageI set_map)
      then show ?thesis by auto
    qed
    then show ?thesis by (simp add: map_idI)
  qed
  define gs where "gs = map the (take ?n s)"
  have gs: "map gl_info gs = fst l"
  proof -
    have "map Some (map gl_info gs) = map (map_option gl_info) (map Some gs)" by simp
    also have "\<dots> = map Some (fst l)" using first some unfolding gs_def by simp
    finally have "map Some (map gl_info gs) = map Some (fst l)" .
    then have "map the (map Some (map gl_info gs)) = map the (map Some (fst l))" by (rule arg_cong)
    then show ?thesis by (simp add: comp_def)
  qed
  have rest: "map (map_option gl_info) (drop ?n s) = (if fst (snd l) then [None] else []) @ stream sizes"
    using arg_cong [OF Cons.prems, of "drop ?n"] by (simp add: drop_map line_stream_def)
  have "\<exists>s'. drop ?n s = (if fst (snd l) then [None] else []) @ s' \<and> map (map_option gl_info) s' = stream sizes"
    using rest by (cases "drop ?n s") (auto split: if_splits)
  then obtain s' where s': "drop ?n s = (if fst (snd l) then [None] else []) @ s'"
      "map (map_option gl_info) s' = stream sizes" by blast
  obtain lines where lines: "map line_of lines = sizes" "flat_stream lines = s'"
    using Cons.IH [OF s'(2)] by blast
  have "s = map Some gs @ (if fst (snd l) then [None] else []) @ s'"
    using some s'(1) by (metis append_take_drop_id gs_def)
  then show ?case
    using lines gs by (intro exI [of _ "(gs, snd l) # lines"]) (simp add: line_of_def [of "(gs, snd l)"])
qed simp

lemma stream_of_flat: "map (map_option gl_info) (flat_stream lines) = stream (map line_of lines)"
  by (induction lines) (auto simp: line_stream_def line_of_def comp_def)

lemma flat_set_columns_rep:
  assumes "flat_rep fl base lines" "columns < 2 ^ 16"
    "\<forall>g. Some g \<in> set (flat_stream lines) \<longrightarrow> gi_cell_width (gl_info g) \<le> columns"
  shows "\<exists>fl' lines'. flat_set_columns columns fl = Some fl' \<and> flat_rep fl' base lines' \<and>
     flat_stream lines' = flat_stream lines \<and> fl_columns fl' = columns"
proof (cases "fl_columns fl = columns")
  case True
  then show ?thesis using assms(1) by (auto simp: flat_set_columns_def)
next
  case False
  have rep: "index_rep (fl_index fl) base (map line_of lines)" using assms(1) by (simp add: flat_rep_def)
  have "gi_cell_width i \<le> columns" if "Some i \<in> set (stream (map line_of lines))" for i
  proof -
    obtain x where x: "x \<in> set (flat_stream lines)" "Some i = map_option gl_info x"
      using \<open>Some i \<in> _\<close> by (auto simp: stream_of_flat [symmetric])
    from x(2) obtain g where "x = Some g" "i = gl_info g" by (cases x) simp_all
    then show ?thesis using x(1) assms(3) by blast
  qed
  then have fit: "\<forall>l\<in>set (map line_of lines). \<forall>i\<in>set (fst l). gi_cell_width i \<le> columns"
    by (subst stream_infos) blast
  let ?sizes = "wrap columns (stream (map line_of lines))"
  obtain ix where ix: "index_rebuild (fl_index fl) columns = Some ix" "ix_columns ix = columns"
      "index_rep ix base ?sizes"
    using index_rebuild_rep [OF rep assms(2) fit] by blast
  have "map (map_option gl_info) (flat_stream lines) = stream ?sizes"
    by (simp add: stream_of_flat stream_wrap)
  then obtain lines' where lines': "map line_of lines' = ?sizes" "flat_stream lines' = flat_stream lines"
    using lines_of_stream by blast
  let ?fl = "fl\<lparr>fl_columns := columns, fl_index := ix\<rparr>"
  have "glyphs_at fl (line_start base lines' i) (fst (lines' ! i))" if "i < length lines'" for i
    using assms(1) that stream_at_lines [of fl base lines] stream_at_lines [of fl base lines']
    by (simp add: flat_rep_def lines'(2))
  moreover have same: "glyphs_at ?fl off gs = glyphs_at fl off gs" for off gs
    by (induction gs arbitrary: off) (simp_all add: glyph_at_def)
  moreover have "glyphs_cols (fst (lines' ! i)) \<le> columns" if "i < length lines'" for i
  proof -
    have "list_all (line_fits columns) (map line_of lines')"
      unfolding lines'(1) by (rule wrap_greedy(1)) (rule fit [unfolded stream_infos])
    then show ?thesis using that by (simp add: list_all_length line_fits_def line_of_def)
  qed
  moreover have "ix_content_len ix = ix_content_len (fl_index fl)"
    by (simp add: index_rep_stream_len [OF ix(3)] index_rep_stream_len [OF rep] stream_wrap)
  ultimately have "flat_rep ?fl base lines'"
    using assms(1) ix lines' by (simp add: flat_rep_def)
  then show ?thesis using False ix(1) lines'(2) by (auto simp: flat_set_columns_def)
qed

end
