(* ===== verification/Flat_Storage_Push.thy ===== *)
theory Flat_Storage_Push
  imports Flat_Storage_Keep
begin

text \<open>
  Pushing rows into the flat storage.  The cells of a row up to the last one with content
  are stored, a wide character and its spacer as one glyph; the empty cells after it are
  not.
\<close>

section \<open>Cells and glyphs\<close>

definition is_leading :: "cell \<Rightarrow> bool" where
  "is_leading c \<longleftrightarrow> bf_intersects (c_flags c) LEADING_WIDE_CHAR_SPACER"

definition is_spacer :: "cell \<Rightarrow> bool" where
  "is_spacer c \<longleftrightarrow> bf_intersects (c_flags c) (WIDE_CHAR_SPACER OR LEADING_WIDE_CHAR_SPACER)"

definition is_wide :: "cell \<Rightarrow> bool" where
  "is_wide c \<longleftrightarrow> bf_contains (c_flags c) WIDE_CHAR"

text \<open>A cell whose text can be stored: within the bound of graphemes, not a newline, and
  without zero-width characters on an empty cell.\<close>

definition storable :: "cell \<Rightarrow> bool" where
  "storable c \<longleftrightarrow>
     raw_content c \<noteq> [] \<and> list_all is_scalar (raw_content c) \<and>
     str_len (raw_content c) \<le> MAX_GRAPHEME_BYTES \<and> raw_content c \<noteq> [0x0A] \<and>
     (hd (raw_content c) = DEFAULT_CHAR \<longrightarrow> length (raw_content c) = 1) \<and>
     (cell_is_empty c \<longrightarrow> raw_content c = [DEFAULT_CHAR] \<and> \<not> is_wide c)"

definition glyph_of :: "cell \<Rightarrow> glyph" where
  "glyph_of c = \<lparr>gl_info = \<lparr>gi_cell_width = (if is_wide c then 2 else 1),
                           gi_utf8_bytes = str_len (raw_content c)\<rparr>,
                 gl_text = raw_content c, gl_fg = c_fg c, gl_style = bg_and_style_from c\<rparr>"

text \<open>Cells in which every wide character is followed by its spacer; the spacer at the end
  of a line may only be the last cell of the row.\<close>

fun grouped :: "cell list \<Rightarrow> bool" where
  "grouped [] \<longleftrightarrow> True"
| "grouped (c # cs) \<longleftrightarrow>
     \<not> is_spacer c \<and> storable c \<and>
     (if is_wide c then (case cs of [] \<Rightarrow> False | s # cs' \<Rightarrow> is_spacer s \<and> \<not> is_leading s \<and> grouped cs')
      else grouped cs)"

fun shaped :: "cell list \<Rightarrow> bool" where
  "shaped [] \<longleftrightarrow> True"
| "shaped (c # cs) \<longleftrightarrow>
     (if is_leading c then cs = []
      else \<not> is_spacer c \<and> storable c \<and>
        (if is_wide c then (case cs of [] \<Rightarrow> False | s # cs' \<Rightarrow> is_spacer s \<and> \<not> is_leading s \<and> shaped cs')
         else shaped cs))"

fun glyphs_of :: "cell list \<Rightarrow> glyph list" where
  "glyphs_of [] = []"
| "glyphs_of (c # cs) =
     glyph_of c # (if is_wide c then (case cs of [] \<Rightarrow> [] | s # cs' \<Rightarrow> glyphs_of cs') else glyphs_of cs)"

lemma grouped_append: "grouped xs \<Longrightarrow> grouped (xs @ ys) \<longleftrightarrow> grouped ys"
proof (induction xs rule: grouped.induct)
  case (2 c cs)
  then show ?case by (cases cs) (simp_all split: if_splits)
qed simp

lemma glyphs_of_append: "grouped xs \<Longrightarrow> glyphs_of (xs @ ys) = glyphs_of xs @ glyphs_of ys"
proof (induction xs rule: grouped.induct)
  case (2 c cs)
  then show ?case by (cases cs) (simp_all split: if_splits)
qed simp

lemma glyphs_of_narrow:
  "\<forall>c\<in>set xs. \<not> is_spacer c \<and> storable c \<and> \<not> is_wide c \<Longrightarrow> grouped xs \<and> glyphs_of xs = map glyph_of xs"
  by (induction xs) auto

lemma glyphs_of_cols: "grouped xs \<Longrightarrow> glyphs_cols (glyphs_of xs) = length xs"
proof (induction xs rule: grouped.induct)
  case (2 c cs)
  then show ?case by (cases cs) (simp_all add: glyph_of_def split: if_splits)
qed simp

lemma glyphs_of_length: "grouped xs \<Longrightarrow> length (glyphs_of xs) \<le> length xs"
proof (induction xs rule: grouped.induct)
  case (2 c cs)
  then show ?case by (cases cs) (simp_all split: if_splits)
qed simp

lemma info_ok_glyph_of: "storable c \<Longrightarrow> info_ok (gl_info (glyph_of c))"
  using str_bytes_nonempty [of "raw_content c"] by (simp add: storable_def glyph_of_def info_ok_def Suc_le_eq)

text \<open>The grapheme of a cell.\<close>

lemma grapheme_of_cell:
  assumes "storable c"
  shows "grapheme_from_cell c = Some \<lparr>gr_info = gl_info (glyph_of c), gr_content = gl_text (glyph_of c)\<rparr>"
    "well_sized \<lparr>gr_info = gl_info (glyph_of c), gr_content = gl_text (glyph_of c)\<rparr>"
  using assms str_bytes_nonempty [of "raw_content c"]
  by (simp_all add: storable_def grapheme_from_cell_def glyph_of_def is_wide_def Let_def MAX_GRAPHEME_BYTES_def
      well_sized_def grapheme_len_def CHUNK_SIZE_def)

lemma well_sized_consts: "well_sized EMPTY_CELL" "well_sized NEWLINE"
  by (simp_all add: well_sized_def EMPTY_CELL_def NEWLINE_def grapheme_len_def DEFAULT_CHAR_def is_scalar_def
      str_len_def len_utf8_def CHUNK_SIZE_def)

section \<open>The state of the loop over cells\<close>

text \<open>What has been stored of the row.\<close>

definition pushed :: "flat_storage \<Rightarrow> glyph list \<Rightarrow> bool \<Rightarrow> push_state \<Rightarrow> bool" where
  "pushed fl0 gs sp st \<longleftrightarrow>
     builder_rep (pu_builder st) (map gl_info gs, False, sp) \<and>
     content_end (fl_content (pu_fl st)) = content_end (fl_content fl0) + glyphs_bytes gs \<and>
     glyphs_at (pu_fl st) (content_end (fl_content fl0)) gs \<and>
     keeps_bytes 0 (content_end (fl_content fl0)) fl0 (pu_fl st) \<and>
     am_ok (content_end (fl_content (pu_fl st)) - 1) (fl_fg (pu_fl st)) \<and>
     am_ok (content_end (fl_content (pu_fl st)) - 1) (fl_style (pu_fl st)) \<and>
     am_tail (fl_fg (pu_fl st)) = pu_fg st \<and> am_tail (fl_style (pu_fl st)) = pu_style st \<and>
     fl_index (pu_fl st) = fl_index fl0 \<and> fl_columns (pu_fl st) = fl_columns fl0 \<and>
     fl_max_rows (pu_fl st) = fl_max_rows fl0 \<and> fl_num_truncated (pu_fl st) = fl_num_truncated fl0"

text \<open>A cell that needs no processing.\<close>

definition quiet :: "push_state \<Rightarrow> cell \<Rightarrow> bool" where
  "quiet st c \<longleftrightarrow>
     cell_is_empty c \<and> c_fg c = pu_fg st \<and> bg_and_style_from c = pu_style st \<and> end_of_prompt_marker c = None"

definition pushing :: "flat_storage \<Rightarrow> glyph list \<Rightarrow> cell list \<Rightarrow> push_state \<Rightarrow> bool" where
  "pushing fl0 gs skipped st \<longleftrightarrow>
     pushed fl0 gs False st \<and>
     pu_offset st = content_end (fl_content (pu_fl st)) + length skipped \<and>
     pu_idx st - pu_last_cell st = int (length skipped) \<and>
     (\<forall>c\<in>set skipped. quiet st c \<and> \<not> is_spacer c \<and> storable c \<and> \<not> is_wide c)"

lemma push_quiet:
  assumes "pushing fl0 gs skipped st" "quiet st c" "\<not> is_spacer c" "storable c"
  shows "\<exists>st'. push_cell c st = Some st' \<and> pushing fl0 gs (skipped @ [c]) st'"
proof -
  have c: "cell_is_empty c" "c_fg c = pu_fg st" "bg_and_style_eq (pu_style st) c" "end_of_prompt_marker c = None"
    using assms(2) by (simp_all add: quiet_def bg_and_style_eq_iff)
  have narrow: "raw_content c = [DEFAULT_CHAR]" "\<not> is_wide c" using assms(4) c(1) by (auto simp: storable_def)
  let ?st = "st\<lparr>pu_idx := pu_idx st + 1, pu_offset := pu_offset st + 1\<rparr>"
  have "push_cell c st = Some ?st"
    using assms(3) c grapheme_of_cell(1) [OF assms(4)] narrow
    by (simp add: push_cell_def is_spacer_def Let_def grapheme_len_def glyph_of_def str_len_def len_utf8_def
        DEFAULT_CHAR_def)
  moreover have "pushing fl0 gs (skipped @ [c]) ?st"
    using assms narrow by (auto simp: pushing_def pushed_def quiet_def)
  ultimately show ?thesis by blast
qed

text \<open>The skipped empty cells are added before the next cell with content.\<close>

lemma push_empties:
  assumes "builder_rep b (infos, False, sp)" "length infos + length xs < 2 ^ 16" "content_ok s0 co"
  shows "\<exists>b' co'. fold_m (\<lambda>_. push_empty) xs (b, co) = Some (b', co') \<and>
     builder_rep b' (infos @ replicate (length xs) (gr_info EMPTY_CELL), False, sp) \<and>
     content_ok s0 co' \<and> content_end co' = content_end co + length xs \<and>
     (\<forall>off s. stored co off s \<longrightarrow> stored co' off s) \<and>
     (\<forall>j<length xs. stored co' (content_end co + j) [DEFAULT_CHAR])"
  using assms
proof (induction xs arbitrary: b co infos)
  case (Cons x xs)
  obtain b1 where b1: "process_unchecked (gr_info EMPTY_CELL) b = Some b1"
      "builder_rep b1 (infos @ [gr_info EMPTY_CELL], False, sp)"
    using builder_push [OF Cons.prems(1), of "gr_info EMPTY_CELL"] Cons.prems(2) by auto
  obtain co1 where co1: "content_push EMPTY_CELL co = Some co1" "content_ok s0 co1"
      "content_end co1 = content_end co + 1" "stored co1 (content_end co) [DEFAULT_CHAR]"
      "\<And>off s. stored co off s \<Longrightarrow> stored co1 off s"
    using content_push_ok [OF Cons.prems(3) well_sized_consts(1)]
    by (auto simp: EMPTY_CELL_def grapheme_len_def)
  have len: "length (infos @ [gr_info EMPTY_CELL]) + length xs < 2 ^ 16" using Cons.prems(2) by simp
  obtain b' co' where r: "fold_m (\<lambda>_. push_empty) xs (b1, co1) = Some (b', co')"
      "builder_rep b' ((infos @ [gr_info EMPTY_CELL]) @ replicate (length xs) (gr_info EMPTY_CELL), False, sp)"
      "content_ok s0 co'" "content_end co' = content_end co1 + length xs"
      "\<And>off s. stored co1 off s \<Longrightarrow> stored co' off s"
      "\<And>j. j < length xs \<Longrightarrow> stored co' (content_end co1 + j) [DEFAULT_CHAR]"
    using Cons.IH [OF b1(2) len co1(2)] by blast
  have "stored co' (content_end co + j) [DEFAULT_CHAR]" if "j < length (x # xs)" for j
    using that r(5) [OF co1(4)] r(6) [of "j - 1"] co1(3) by (cases j) simp_all
  moreover have "push_empty (b, co) = Some (b1, co1)" using b1(1) co1(1) by (simp add: push_empty_def)
  ultimately show ?case using co1(3,5) r(1-5) by simp
qed simp

text \<open>A change of an attribute, when there is one.\<close>

lemma attribute_step:
  assumes "am_ok (off - 1) m" "am_tail m = cur"
  shows "\<exists>m'. (if v \<noteq> cur then push_attribute_change off v m else Some m) = Some m' \<and>
     am_ok off m' \<and> am_tail m' = v \<and> (\<forall>k. am_value m' k = (if k < off then am_value m k else v))"
  using push_attribute_change_ok [OF assms(1), of v] assms(2)
  by (cases "v = cur") (auto simp: push_attribute_change_def)

lemma am_value_tail: "am_ok n m \<Longrightarrow> n \<le> k \<Longrightarrow> am_value m k = am_tail m"
  by (auto simp: am_ok_def am_value_def intro!: range_value_tail)

lemma glyphs_at_narrow:
  assumes "\<forall>j<length cs. stored (fl_content fl) (off + j) [DEFAULT_CHAR]"
    "\<forall>c\<in>set cs. raw_content c = [DEFAULT_CHAR] \<and> \<not> is_wide c"
    "\<forall>k. off \<le> k \<and> k < off + length cs \<longrightarrow>
       (\<forall>c\<in>set cs. am_value (fl_fg fl) k = c_fg c \<and> am_value (fl_style fl) k = bg_and_style_from c)"
  shows "glyphs_at fl off (map glyph_of cs)"
  using assms
proof (induction cs arbitrary: off)
  case (Cons c cs)
  have len: "str_len [DEFAULT_CHAR] = 1" by (simp add: str_len_def len_utf8_def DEFAULT_CHAR_def)
  have st: "stored (fl_content fl) (off + 1 + j) [DEFAULT_CHAR]" if "j < length cs" for j
    using Cons.prems(1) that by (auto dest: spec [of _ "Suc j"])
  have s0: "stored (fl_content fl) off [DEFAULT_CHAR]"
    using Cons.prems(1) by (auto dest: spec [of _ 0])
  have "glyphs_at fl (off + 1) (map glyph_of cs)"
    by (rule Cons.IH) (use st Cons.prems(2,3) in auto)
  moreover have "glyph_at fl off (glyph_of c)"
    using s0 Cons.prems(2,3) len by (auto simp: glyph_at_def glyph_of_def info_ok_def DEFAULT_CHAR_def)
  moreover have "gi_utf8_bytes (gl_info (glyph_of c)) = 1"
    using Cons.prems(2) len by (simp add: glyph_of_def)
  ultimately show ?case by simp
qed simp

lemma push_kept:
  assumes "pushing fl0 gs skipped st" "\<not> quiet st c" "\<not> is_spacer c" "storable c"
    "length gs + length skipped + 1 < 2 ^ 16" "content_ok s0 (fl_content (pu_fl st))"
  shows "\<exists>st'. push_cell c st = Some st' \<and> pushing fl0 (gs @ map glyph_of skipped @ [glyph_of c]) [] st' \<and>
     content_ok s0 (fl_content (pu_fl st'))"
proof -
  let ?fl = "pu_fl st" and ?start = "content_end (fl_content fl0)"
  let ?e = "content_end (fl_content ?fl)" and ?p = "length skipped"
  have p: "builder_rep (pu_builder st) (map gl_info gs, False, False)"
      "?e = ?start + glyphs_bytes gs" "glyphs_at ?fl ?start gs" "keeps_bytes 0 ?start fl0 ?fl"
      "am_ok (?e - 1) (fl_fg ?fl)" "am_ok (?e - 1) (fl_style ?fl)"
      "am_tail (fl_fg ?fl) = pu_fg st" "am_tail (fl_style ?fl) = pu_style st"
      "pu_offset st = ?e + ?p" "pu_idx st - pu_last_cell st = int ?p"
    using assms(1) unfolding pushing_def pushed_def by blast+
  have skipped: "\<forall>x\<in>set skipped. cell_is_empty x \<and> c_fg x = pu_fg st \<and> bg_and_style_from x = pu_style st \<and>
      raw_content x = [DEFAULT_CHAR] \<and> \<not> is_wide x"
    using assms(1) by (auto simp: pushing_def quiet_def storable_def)
  have ok: "am_ok (pu_offset st - 1) (fl_fg ?fl)" "am_ok (pu_offset st - 1) (fl_style ?fl)"
    using p(5,6,9) by (auto elim!: am_ok_mono)
  obtain fg where fg: "(if c_fg c \<noteq> pu_fg st then push_attribute_change (pu_offset st) (c_fg c) (fl_fg ?fl)
        else Some (fl_fg ?fl)) = Some fg" "am_ok (pu_offset st) fg" "am_tail fg = c_fg c"
      "\<And>k. am_value fg k = (if k < pu_offset st then am_value (fl_fg ?fl) k else c_fg c)"
    using attribute_step [OF ok(1) p(7), of "c_fg c"] by blast
  have eq: "(\<not> bg_and_style_eq (pu_style st) c) = (bg_and_style_from c \<noteq> pu_style st)"
    by (auto simp: bg_and_style_eq_iff)
  obtain style where style: "(if \<not> bg_and_style_eq (pu_style st) c
        then push_attribute_change (pu_offset st) (bg_and_style_from c) (fl_style ?fl)
        else Some (fl_style ?fl)) = Some style" "am_ok (pu_offset st) style" "am_tail style = bg_and_style_from c"
      "\<And>k. am_value style k = (if k < pu_offset st then am_value (fl_style ?fl) k else bg_and_style_from c)"
    using attribute_step [OF ok(2) p(8), of "bg_and_style_from c"] unfolding eq by blast
  have bl: "length (map gl_info gs) + length [0..<nat (pu_idx st - pu_last_cell st)] < 2 ^ 16"
    using assms(5) p(10) by simp
  obtain b1 co1 where e1: "fold_m (\<lambda>_. push_empty) [0..<nat (pu_idx st - pu_last_cell st)]
        (pu_builder st, fl_content ?fl) = Some (b1, co1)"
      "builder_rep b1 (map gl_info gs @ replicate ?p (gr_info EMPTY_CELL), False, False)"
      "content_ok s0 co1" "content_end co1 = ?e + ?p"
      "\<And>off s. stored (fl_content ?fl) off s \<Longrightarrow> stored co1 off s"
      "\<And>j. j < ?p \<Longrightarrow> stored co1 (?e + j) [DEFAULT_CHAR]"
    using push_empties [OF p(1) bl assms(6)] p(10) by auto
  let ?g = "\<lparr>gr_info = gl_info (glyph_of c), gr_content = gl_text (glyph_of c)\<rparr>"
  obtain co2 where e2: "content_push ?g co1 = Some co2" "content_ok s0 co2"
      "content_end co2 = ?e + ?p + gi_utf8_bytes (gl_info (glyph_of c))"
      "stored co2 (?e + ?p) (gl_text (glyph_of c))" "\<And>off s. stored co1 off s \<Longrightarrow> stored co2 off s"
    using content_push_ok [OF e1(3) grapheme_of_cell(2) [OF assms(4)]] e1(4) by (auto simp: grapheme_len_def)
  have infos: "map gl_info (map glyph_of skipped) = replicate ?p (gr_info EMPTY_CELL)"
  proof -
    have "gl_info (glyph_of x) = gr_info EMPTY_CELL" if "x \<in> set skipped" for x
      using skipped that by (simp add: glyph_of_def EMPTY_CELL_def str_len_def len_utf8_def DEFAULT_CHAR_def)
    then show ?thesis by (induction skipped) simp_all
  qed
  obtain b2 where b2: "process_unchecked (gl_info (glyph_of c)) b1 = Some b2"
      "builder_rep b2 ((map gl_info gs @ replicate ?p (gr_info EMPTY_CELL)) @ [gl_info (glyph_of c)], False, False)"
    using builder_push [OF e1(2), of "gl_info (glyph_of c)"] assms(5) by auto
  define prompt where "prompt = (case end_of_prompt_marker c of
           Some nl \<Rightarrow> Some \<lparr>ep_offset = pu_offset st, ep_extra_newline = nl\<rparr> | None \<Rightarrow> fl_prompt ?fl)"
  let ?fl' = "?fl\<lparr>fl_fg := fg, fl_style := style, fl_prompt := prompt, fl_content := co2\<rparr>"
  let ?st = "st\<lparr>pu_idx := pu_idx st + 1, pu_fl := ?fl', pu_fg := c_fg c, pu_style := bg_and_style_from c,
      pu_builder := b2, pu_last_cell := pu_idx st + 1,
      pu_offset := pu_offset st + gi_utf8_bytes (gl_info (glyph_of c))\<rparr>"
  have needs: "\<not> cell_is_empty c \<or> c_fg c \<noteq> pu_fg st \<or> \<not> bg_and_style_eq (pu_style st) c \<or>
      end_of_prompt_marker c \<noteq> None"
    using assms(2) by (auto simp: quiet_def bg_and_style_eq_iff)
  have step: "push_cell c st = Some ?st"
    using assms(3) needs fg(1) style(1) grapheme_of_cell(1) [OF assms(4)] e1(1) e2(1) b2(1)
    by (cases "end_of_prompt_marker c")
       (auto simp: push_cell_def is_spacer_def Let_def grapheme_len_def prompt_def bg_and_style_eq_iff)
  have keep: "keeps_bytes 0 ?e ?fl ?fl'"
    using e1(5) e2(5) fg(4) style(4) p(9) by (simp add: keeps_bytes_def)
  have g1: "glyphs_at ?fl' ?start gs" using keeps_glyphs [OF keep p(3)] p(2) by simp
  have vals: "am_value fg k = pu_fg st \<and> am_value style k = pu_style st" if "?e \<le> k" "k < ?e + ?p" for k
    using that p(7-9) fg(4) style(4) am_value_tail [OF p(5), of k] am_value_tail [OF p(6), of k] by simp
  have g2: "glyphs_at ?fl' ?e (map glyph_of skipped)"
    by (rule glyphs_at_narrow) (use e1(6) e2(5) skipped vals in simp_all)
  have i: "info_ok (gl_info (glyph_of c))" by (rule info_ok_glyph_of [OF assms(4)])
  then have pos: "1 \<le> gi_utf8_bytes (gl_info (glyph_of c))" by (simp add: info_ok_def)
  then have after: "\<not> ?e + ?p + gi_utf8_bytes (gl_info (glyph_of c)) - 1 < pu_offset st" using p(9) by simp
  have g3: "glyph_at ?fl' (?e + ?p) (glyph_of c)"
    using i e2(4) fg(4) style(4) after assms(4)
    by (auto simp: glyph_at_def glyph_of_def storable_def)
  have bytes: "glyphs_bytes (map glyph_of skipped) = ?p"
    unfolding infos by (simp add: infos_take_replicate EMPTY_CELL_def)
  have "glyphs_at ?fl' ?start (gs @ map glyph_of skipped @ [glyph_of c])"
    using g1 g2 g3 p(2) bytes by (simp add: glyphs_at_append)
  moreover have "keeps_bytes 0 ?start fl0 ?fl'"
  proof -
    have "keeps_bytes 0 ?start ?fl ?fl'" using keep p(2) by (auto simp: keeps_bytes_def)
    then show ?thesis by (rule keeps_bytes_trans [OF p(4)])
  qed
  moreover have "builder_rep b2 (map gl_info (gs @ map glyph_of skipped @ [glyph_of c]), False, False)"
    using b2(2) infos by simp
  moreover have "am_ok (content_end co2 - 1) fg" "am_ok (content_end co2 - 1) style"
    using am_ok_mono [OF fg(2)] am_ok_mono [OF style(2)] e2(3) p(9) pos by simp_all
  moreover have "content_end co2 = ?start + glyphs_bytes (gs @ map glyph_of skipped @ [glyph_of c])"
    using e2(3) p(2) bytes by simp
  moreover have off: "pu_offset st + gi_utf8_bytes (gl_info (glyph_of c)) = content_end co2"
    using e2(3) p(9) by simp
  moreover have same: "fl_index ?fl = fl_index fl0" "fl_columns ?fl = fl_columns fl0"
      "fl_max_rows ?fl = fl_max_rows fl0" "fl_num_truncated ?fl = fl_num_truncated fl0"
    using assms(1) unfolding pushing_def pushed_def by blast+
  ultimately have "pushing fl0 (gs @ map glyph_of skipped @ [glyph_of c]) [] ?st"
    using fg(3) style(3) off same by (simp add: pushing_def pushed_def)
  then show ?thesis using step e2(2) by auto
qed

lemma skipped_not_leading: "\<not> is_spacer c \<Longrightarrow> \<not> is_leading c"
  by (simp add: is_spacer_def is_leading_def bf_intersects_def bit.conj_disj_distrib or_eq_0_iff)

lemma pushed_position [simp]:
  "pushed fl0 gs sp (st\<lparr>pu_idx := i, pu_last_cell := j\<rparr>) \<longleftrightarrow> pushed fl0 gs sp st"
  by (simp add: pushed_def)

lemma pushed_spacer:
  "pushed fl0 gs False st \<Longrightarrow>
   pushed fl0 gs True (st\<lparr>pu_idx := i, pu_builder := add_leading_spacer (pu_builder st), pu_last_cell := j\<rparr>)"
  by (auto simp: pushed_def intro: builder_spacer)

lemma push_wide_spacer:
  assumes "pushing fl0 gs [] st" "is_spacer c" "\<not> is_leading c"
  shows "\<exists>st'. push_cell c st = Some st' \<and> pushing fl0 gs [] st' \<and> pu_fl st' = pu_fl st"
  using assms by (simp add: push_cell_def is_spacer_def is_leading_def Let_def pushing_def)

lemma push_leading_spacer:
  assumes "pushed fl0 gs False st" "is_leading c"
  shows "\<exists>st'. push_cell c st = Some st' \<and> pushed fl0 gs True st' \<and> pu_fl st' = pu_fl st"
proof -
  have sp: "bf_intersects (c_flags c) (WIDE_CHAR_SPACER OR LEADING_WIDE_CHAR_SPACER)"
    using assms(2) skipped_not_leading [of c] by (auto simp: is_spacer_def)
  show ?thesis
    using assms(2) sp pushed_spacer [OF assms(1)] by (simp add: push_cell_def is_leading_def Let_def)
qed

section \<open>The cells of a row\<close>

text \<open>What is stored of cells: a prefix of them, as glyphs; what follows is empty cells and
  the spacer at the end of the line.\<close>

definition stored_as :: "cell list \<Rightarrow> glyph list \<Rightarrow> bool \<Rightarrow> bool" where
  "stored_as cells gs sp \<longleftrightarrow>
     (\<exists>kept rest. cells = kept @ rest \<and> grouped kept \<and> gs = glyphs_of kept \<and>
        (\<forall>c\<in>set rest. is_leading c \<or> cell_is_empty c \<and> \<not> is_spacer c) \<and>
        sp = (\<exists>c\<in>set cells. is_leading c))"

lemma grouped_not_leading:
  assumes "grouped cs" "c \<in> set cs"
  shows "\<not> is_leading c"
  using assms
proof (induction cs rule: grouped.induct)
  case (2 x xs)
  then show ?case using skipped_not_leading by (cases xs) (auto split: if_splits)
qed simp

lemma stored_as_cons:
  assumes "stored_as cells gs sp" "grouped kept"
  shows "stored_as (kept @ cells) (glyphs_of kept @ gs) sp"
proof -
  obtain kept' rest where s: "cells = kept' @ rest" "grouped kept'" "gs = glyphs_of kept'"
      "\<forall>c\<in>set rest. is_leading c \<or> cell_is_empty c \<and> \<not> is_spacer c" "sp = (\<exists>c\<in>set cells. is_leading c)"
    using assms(1) by (auto simp: stored_as_def)
  have "sp = (\<exists>c\<in>set (kept @ cells). is_leading c)"
    using s(5) grouped_not_leading [OF assms(2)] by auto
  then show ?thesis
    unfolding stored_as_def
    using s assms(2)
    by (intro exI [of _ "kept @ kept'"] exI [of _ rest]) (simp add: grouped_append glyphs_of_append)
qed

lemma skipped_grouped:
  "pushing fl0 gs skipped st \<Longrightarrow> grouped skipped \<and> glyphs_of skipped = map glyph_of skipped"
  by (rule glyphs_of_narrow) (simp add: pushing_def)

lemma push_cells:
  assumes "pushing fl0 gs skipped st" "shaped cells" "length gs + length skipped + length cells < 2 ^ 16"
    "content_ok s0 (fl_content (pu_fl st))"
  shows "\<exists>st' gs' sp. fold_m push_cell cells st = Some st' \<and> pushed fl0 (gs @ gs') sp st' \<and>
     stored_as (skipped @ cells) gs' sp \<and> content_ok s0 (fl_content (pu_fl st'))"
  using assms
proof (induction cells arbitrary: gs skipped st rule: shaped.induct)
  case 1
  have "\<forall>c\<in>set skipped. cell_is_empty c \<and> \<not> is_spacer c"
    using "1.prems"(1) by (auto simp: pushing_def quiet_def)
  then have "stored_as (skipped @ []) [] False"
    unfolding stored_as_def using skipped_not_leading
    by (intro exI [of _ "[]"] exI [of _ skipped]) auto
  moreover have "pushed fl0 gs False st" using "1.prems"(1) by (simp add: pushing_def)
  ultimately show ?case using "1.prems"(4) by (auto intro!: exI [of _ "[]"])
next
  case (2 c cs)
  note push = "2.prems"(1) and ok = "2.prems"(4)
  show ?case
  proof (cases "is_leading c")
    case True
    then have cs: "cs = []" using "2.prems"(2) by simp
    have p: "pushed fl0 gs False st" using push by (simp add: pushing_def)
    obtain st' where st': "push_cell c st = Some st'" "pushed fl0 gs True st'" "pu_fl st' = pu_fl st"
      using push_leading_spacer [OF p True] by blast
    have "\<forall>c\<in>set skipped. cell_is_empty c \<and> \<not> is_spacer c"
      using push by (auto simp: pushing_def quiet_def)
    then have "stored_as (skipped @ [c]) [] True"
      unfolding stored_as_def using True
      by (intro exI [of _ "[]"] exI [of _ "skipped @ [c]"]) auto
    then show ?thesis using st' ok cs by (auto intro!: exI [of _ "[]"])
  next
    case False
    have c: "\<not> is_spacer c" "storable c" using "2.prems"(2) False by auto
    have kept: "\<exists>st'. push_cell c st = Some st' \<and>
        pushing fl0 (gs @ map glyph_of skipped @ [glyph_of c]) [] st' \<and> content_ok s0 (fl_content (pu_fl st'))"
      if "\<not> quiet st c"
      using push_kept [OF push that c _ ok] "2.prems"(3) by simp
    show ?thesis
    proof (cases "is_wide c")
      case True
      obtain s cs' where cs: "cs = s # cs'" "is_spacer s" "\<not> is_leading s" "shaped cs'"
        using "2.prems"(2) False True by (auto split: list.splits)
      have "\<not> quiet st c" using True c(2) by (auto simp: quiet_def storable_def)
      then obtain st1 where st1: "push_cell c st = Some st1"
          "pushing fl0 (gs @ map glyph_of skipped @ [glyph_of c]) [] st1" "content_ok s0 (fl_content (pu_fl st1))"
        using kept by blast
      obtain st2 where st2: "push_cell s st1 = Some st2"
          "pushing fl0 (gs @ map glyph_of skipped @ [glyph_of c]) [] st2" "pu_fl st2 = pu_fl st1"
        using push_wide_spacer [OF st1(2) cs(2,3)] by blast
      have len: "length (gs @ map glyph_of skipped @ [glyph_of c]) + length [] + length cs' < 2 ^ 16"
        using "2.prems"(3) cs(1) by simp
      obtain st' gs' sp where r: "fold_m push_cell cs' st2 = Some st'"
          "pushed fl0 ((gs @ map glyph_of skipped @ [glyph_of c]) @ gs') sp st'" "stored_as ([] @ cs') gs' sp"
          "content_ok s0 (fl_content (pu_fl st'))"
        using "2.IH"(1) [OF False True cs(1) st2(2) cs(4) len] st1(3) st2(3) by auto
      have g: "grouped (skipped @ [c, s])" "glyphs_of (skipped @ [c, s]) = map glyph_of skipped @ [glyph_of c]"
        using skipped_grouped [OF push] c True cs(2,3) by (simp_all add: grouped_append glyphs_of_append)
      have "stored_as (skipped @ c # cs) ((map glyph_of skipped @ [glyph_of c]) @ gs') sp"
        using stored_as_cons [OF r(3) g(1)] by (simp add: g(2) cs(1))
      then show ?thesis
        using r(1,2,4) st1(1) st2(1) cs(1)
        by (intro exI [of _ st'] exI [of _ "(map glyph_of skipped @ [glyph_of c]) @ gs'"] exI [of _ sp]) simp
    next
      case narrow: False
      have shaped: "shaped cs" using "2.prems"(2) False narrow by simp
      show ?thesis
      proof (cases "quiet st c")
        case True
        obtain st1 where st1: "push_cell c st = Some st1" "pushing fl0 gs (skipped @ [c]) st1"
          using push_quiet [OF push True c] by blast
        have "content_ok s0 (fl_content (pu_fl st1))"
          using st1(1) ok True c
          by (auto simp: push_cell_def is_spacer_def quiet_def Let_def bg_and_style_eq_iff
              grapheme_of_cell(1) split: option.splits)
        then show ?thesis
          using "2.IH"(2) [OF False narrow st1(2) shaped] "2.prems"(3) st1(1) by auto
      next
        case keep: False
        then obtain st1 where st1: "push_cell c st = Some st1"
            "pushing fl0 (gs @ map glyph_of skipped @ [glyph_of c]) [] st1" "content_ok s0 (fl_content (pu_fl st1))"
          using kept by blast
        have len: "length (gs @ map glyph_of skipped @ [glyph_of c]) + length [] + length cs < 2 ^ 16"
          using "2.prems"(3) by simp
        obtain st' gs' sp where r: "fold_m push_cell cs st1 = Some st'"
            "pushed fl0 ((gs @ map glyph_of skipped @ [glyph_of c]) @ gs') sp st'" "stored_as ([] @ cs) gs' sp"
            "content_ok s0 (fl_content (pu_fl st'))"
          using "2.IH"(2) [OF False narrow st1(2) shaped len] st1(3) by auto
        have g: "grouped (skipped @ [c])" "glyphs_of (skipped @ [c]) = map glyph_of skipped @ [glyph_of c]"
          using skipped_grouped [OF push] c narrow by (simp_all add: grouped_append glyphs_of_append)
        have "stored_as (skipped @ c # cs) ((map glyph_of skipped @ [glyph_of c]) @ gs') sp"
          using stored_as_cons [OF r(3) g(1)] by (simp add: g(2))
        then show ?thesis
          using r(1,2,4) st1(1)
          by (intro exI [of _ st'] exI [of _ "(map glyph_of skipped @ [glyph_of c]) @ gs'"] exI [of _ sp]) simp
      qed
    qed
  qed
qed

section \<open>Rows\<close>

text \<open>The last ranges of attributes end before the last byte; then a change at the end of
  the content starts a new range.\<close>

definition tidy :: "flat_storage \<Rightarrow> bool" where
  "tidy fl \<longleftrightarrow>
     am_ok (content_end (fl_content fl) - 1) (fl_fg fl) \<and> am_ok (content_end (fl_content fl) - 1) (fl_style fl)"

definition row_storable :: "nat \<Rightarrow> row \<Rightarrow> bool" where
  "row_storable columns r \<longleftrightarrow>
     row_len r = columns \<and> row_occ r \<le> columns \<and> shaped (take (row_occ r) (row_inner r)) \<and>
     (row_occ r < columns \<longrightarrow> \<not> (\<exists>c\<in>set (take (row_occ r) (row_inner r)). is_leading c))"

definition soft_wraps :: "nat \<Rightarrow> row \<Rightarrow> bool" where
  "soft_wraps columns r \<longleftrightarrow>
     row_occ r = columns \<and> bf_intersects (c_flags (row_inner r ! (columns - 1))) WRAPLINE"

definition stores :: "nat \<Rightarrow> row \<Rightarrow> flat_line \<Rightarrow> bool" where
  "stores columns r l \<longleftrightarrow>
     stored_as (take (row_occ r) (row_inner r)) (fst l) (snd (snd l)) \<and>
     fst (snd l) = (\<not> soft_wraps columns r)"

lemma line_start_snoc:
  "i \<le> length lines \<Longrightarrow> line_start base (lines @ [l]) i = line_start base lines i"
  by (simp add: bytes_before_def)

lemma flat_append_rep:
  assumes "flat_rep fl base lines" "keeps_bytes 0 (content_end (fl_content fl)) fl fl1"
    "glyphs_at fl1 (content_end (fl_content fl)) gs" "glyphs_cols gs \<le> fl_columns fl"
    "builder_rep b (map gl_info gs, nl, sp)" "st \<le> base" "content_ok st (fl_content fl1)"
    "content_end (fl_content fl1) = content_end (fl_content fl) + glyphs_bytes gs + (if nl then 1 else 0)"
    "tidy fl1" "fl_index fl1 = fl_index fl" "fl_columns fl1 = fl_columns fl"
  shows "flat_rep (fl1\<lparr>fl_index := append_to_index b (fl_index fl1)\<rparr>) base (lines @ [(gs, nl, sp)])"
proof -
  let ?fl = "fl1\<lparr>fl_index := append_to_index b (fl_index fl1)\<rparr>" and ?l = "(gs, nl, sp)"
  have old: "index_rep (fl_index fl) base (map line_of lines)" "ix_columns (fl_index fl) = fl_columns fl"
      "ix_content_len (fl_index fl) = content_end (fl_content fl)"
    using assms(1) by (simp_all add: flat_rep_def)
  have l: "builder_rep b (line_of ?l)" "list_all info_ok (fst (line_of ?l))"
    using assms(5) glyphs_at_infos [OF assms(3)] by (simp_all add: line_of_def)
  note a = append_to_index_rep [OF old(1) l]
  have same: "glyphs_at ?fl off xs = glyphs_at fl1 off xs" for off xs
    by (induction xs arbitrary: off) (simp_all add: glyph_at_def)
  have bytes: "line_bytes (line_of ?l) = glyphs_bytes gs + (if nl then 1 else 0)"
    by (simp add: line_bytes_of)
  have e: "line_start base lines (length lines) = content_end (fl_content fl)"
    by (rule flat_rep_end(1) [OF assms(1)])
  have lines: "glyphs_at ?fl (line_start base (lines @ [?l]) i) (fst ((lines @ [?l]) ! i)) \<and>
      glyphs_cols (fst ((lines @ [?l]) ! i)) \<le> fl_columns ?fl" if i: "i < length (lines @ [?l])" for i
  proof (cases "i < length lines")
    case True
    have "line_start base lines i + glyphs_bytes (fst (lines ! i)) \<le> content_end (fl_content fl)"
      using line_in_range [OF True, of base] flat_rep_end(2) [OF assms(1), of "Suc i"] True by simp
    moreover have "glyphs_at fl (line_start base lines i) (fst (lines ! i)) \<and>
        glyphs_cols (fst (lines ! i)) \<le> fl_columns fl"
      using assms(1) True by (simp add: flat_rep_def)
    ultimately have "glyphs_at fl1 (line_start base lines i) (fst (lines ! i)) \<and>
        glyphs_cols (fst (lines ! i)) \<le> fl_columns fl"
      using keeps_glyphs [OF assms(2)] by simp
    then show ?thesis
      unfolding same using True assms(11) line_start_snoc [of i lines base ?l] by (simp add: nth_append)
  next
    case False
    then have "i = length lines" using i by simp
    then show ?thesis
      unfolding same using assms(3,4,11) e line_start_snoc [of "length lines" lines base ?l] by simp
  qed
  have am: "am_ok (content_end (fl_content fl1)) (fl_fg fl1)" "am_ok (content_end (fl_content fl1)) (fl_style fl1)"
    using assms(9) by (auto simp: tidy_def elim!: am_ok_mono)
  have "index_rep (fl_index ?fl) base (map line_of (lines @ [?l]))"
    using a(1) assms(10) by simp
  moreover have "ix_columns (fl_index ?fl) = fl_columns ?fl" using a(2) old(2) assms(10,11) by simp
  moreover have "ix_content_len (fl_index ?fl) = content_end (fl_content ?fl)"
    using a(3) old(3) assms(8,10) bytes by simp
  ultimately show ?thesis
    unfolding flat_rep_def using assms(6,7) am lines by auto
qed

lemma push_row_rep:
  assumes "flat_rep fl base lines" "tidy fl" "0 < fl_columns fl" "fl_columns fl < 2 ^ 16"
    "row_storable (fl_columns fl) r"
  shows "\<exists>fl' l. push_row r (fl, am_tail (fl_fg fl), am_tail (fl_style fl)) =
       Some (fl', am_tail (fl_fg fl'), am_tail (fl_style fl')) \<and>
     flat_rep fl' base (lines @ [l]) \<and> tidy fl' \<and> stores (fl_columns fl) r l \<and>
     fl_columns fl' = fl_columns fl \<and> fl_max_rows fl' = fl_max_rows fl \<and>
     fl_num_truncated fl' = fl_num_truncated fl"
proof -
  let ?cells = "take (row_occ r) (row_inner r)"
  let ?st0 = "\<lparr>pu_fl = fl, pu_fg = am_tail (fl_fg fl), pu_style = am_tail (fl_style fl), pu_builder = eb_new,
      pu_last_cell = -1, pu_offset = content_end (fl_content fl), pu_idx = -1\<rparr>"
  have r: "row_len r = fl_columns fl" "row_occ r \<le> fl_columns fl" "shaped ?cells"
    using assms(5) by (auto simp: row_storable_def)
  obtain s0 where s0: "s0 \<le> base" "content_ok s0 (fl_content fl)" using assms(1) by (auto simp: flat_rep_def)
  have start: "pushing fl [] [] ?st0"
    using assms(2) builder_new by (simp add: pushing_def pushed_def tidy_def keeps_bytes_def)
  have len: "length ([]::glyph list) + length ([]::cell list) + length ?cells < 2 ^ 16"
    using r(1,2) assms(4) by simp
  have s0': "content_ok s0 (fl_content (pu_fl ?st0))" using s0(2) by simp
  obtain st gs sp where st: "fold_m push_cell ?cells ?st0 = Some st" "pushed fl gs sp st"
      "stored_as ?cells gs sp" "content_ok s0 (fl_content (pu_fl st))"
    using push_cells [OF start r(3) len s0'] unfolding append_Nil by blast
  have p: "builder_rep (pu_builder st) (map gl_info gs, False, sp)"
      "content_end (fl_content (pu_fl st)) = content_end (fl_content fl) + glyphs_bytes gs"
      "glyphs_at (pu_fl st) (content_end (fl_content fl)) gs"
      "keeps_bytes 0 (content_end (fl_content fl)) fl (pu_fl st)" "tidy (pu_fl st)"
      "am_tail (fl_fg (pu_fl st)) = pu_fg st" "am_tail (fl_style (pu_fl st)) = pu_style st"
      "fl_index (pu_fl st) = fl_index fl" "fl_columns (pu_fl st) = fl_columns fl"
      "fl_max_rows (pu_fl st) = fl_max_rows fl" "fl_num_truncated (pu_fl st) = fl_num_truncated fl"
    using st(2) unfolding pushed_def tidy_def by blast+
  have cols: "glyphs_cols gs \<le> fl_columns fl"
  proof -
    obtain kept rest where k: "?cells = kept @ rest" "grouped kept" "gs = glyphs_of kept"
      using st(3) by (auto simp: stored_as_def)
    have "length kept \<le> row_occ r" using arg_cong [OF k(1), of length] r(1,2) by (simp add: row_len_def)
    then show ?thesis using glyphs_of_cols [OF k(2)] k(3) r(2) by simp
  qed
  have wraps: "row_soft_wraps (fl_columns fl) r = Some (soft_wraps (fl_columns fl) r)"
    using assms(3) r(1) by (simp add: row_soft_wraps_def soft_wraps_def checked_sub_def row_get_def)
  have dirty: "dirty_cells r = Some ?cells" using r(1,2) by (simp add: dirty_cells_def)
  show ?thesis
  proof (cases "soft_wraps (fl_columns fl) r")
    case True
    let ?fl = "(pu_fl st)\<lparr>fl_index := append_to_index (pu_builder st) (fl_index (pu_fl st))\<rparr>"
    have "flat_rep ?fl base (lines @ [(gs, False, sp)])"
      by (rule flat_append_rep [OF assms(1) p(4,3) cols p(1) s0(1) st(4) _ p(5,8,9)]) (simp add: p(2))
    moreover have "push_row r (fl, am_tail (fl_fg fl), am_tail (fl_style fl)) =
        Some (?fl, am_tail (fl_fg ?fl), am_tail (fl_style ?fl))"
      using dirty st(1) wraps True p(6,7,9) by (simp add: push_row_def)
    moreover have "stores (fl_columns fl) r (gs, False, sp)" using st(3) True by (simp add: stores_def)
    ultimately show ?thesis using p(5,9-11) by (auto simp: tidy_def)
  next
    case False
    obtain co where co: "content_push NEWLINE (fl_content (pu_fl st)) = Some co" "content_ok s0 co"
        "content_end co = content_end (fl_content (pu_fl st)) + 1"
        "\<And>off s. stored (fl_content (pu_fl st)) off s \<Longrightarrow> stored co off s"
      using content_push_ok [OF st(4) well_sized_consts(2)] by (auto simp: NEWLINE_def grapheme_len_def)
    let ?fl1 = "(pu_fl st)\<lparr>fl_content := co\<rparr>"
    let ?b = "add_trailing_newline (pu_builder st)"
    let ?fl = "?fl1\<lparr>fl_index := append_to_index ?b (fl_index ?fl1)\<rparr>"
    have k1: "keeps_bytes 0 n (pu_fl st) ?fl1" for n using co(4) by (simp add: keeps_bytes_def)
    have k: "keeps_bytes 0 (content_end (fl_content fl)) fl ?fl1" using keeps_bytes_trans [OF p(4) k1] .
    have g: "glyphs_at ?fl1 (content_end (fl_content fl)) gs"
      by (rule keeps_glyphs [OF k1 p(3), of "content_end (fl_content (pu_fl st))"]) (simp_all add: p(2))
    have t: "tidy ?fl1" using p(5) co(3) by (auto simp: tidy_def elim!: am_ok_mono)
    have "flat_rep ?fl base (lines @ [(gs, True, sp)])"
      by (rule flat_append_rep [OF assms(1) k g cols builder_newline [OF p(1)] s0(1) _ _ t])
         (use co(2,3) p(2,8,9) in simp_all)
    moreover have "push_row r (fl, am_tail (fl_fg fl), am_tail (fl_style fl)) =
        Some (?fl, am_tail (fl_fg ?fl), am_tail (fl_style ?fl))"
      using dirty st(1) wraps False p(6,7,9) co(1) by (simp add: push_row_def)
    moreover have "stores (fl_columns fl) r (gs, True, sp)" using st(3) False by (simp add: stores_def)
    ultimately show ?thesis using t p(9-11) by (auto simp: tidy_def)
  qed
qed

lemma push_rows_rep:
  assumes "flat_rep fl base lines" "tidy fl" "0 < fl_columns fl" "fl_columns fl < 2 ^ 16"
    "\<forall>r\<in>set rows. row_storable (fl_columns fl) r"
  shows "\<exists>fl' ls. push_rows_internal rows fl = Some fl' \<and>
     flat_rep fl' base (lines @ ls) \<and> tidy fl' \<and> list_all2 (stores (fl_columns fl)) rows ls \<and>
     fl_columns fl' = fl_columns fl \<and> fl_max_rows fl' = fl_max_rows fl \<and>
     fl_num_truncated fl' = fl_num_truncated fl"
  using assms
proof (induction rows arbitrary: fl lines)
  case Nil
  then show ?case by (simp add: push_rows_internal_def)
next
  case (Cons r rows)
  obtain fl1 l where r: "push_row r (fl, am_tail (fl_fg fl), am_tail (fl_style fl)) =
       Some (fl1, am_tail (fl_fg fl1), am_tail (fl_style fl1))"
     "flat_rep fl1 base (lines @ [l])" "tidy fl1" "stores (fl_columns fl) r l"
     "fl_columns fl1 = fl_columns fl" "fl_max_rows fl1 = fl_max_rows fl"
     "fl_num_truncated fl1 = fl_num_truncated fl"
    using push_row_rep [OF Cons.prems(1-4), of r] Cons.prems(5) by auto
  obtain fl' ls where "push_rows_internal rows fl1 = Some fl'"
     "flat_rep fl' base ((lines @ [l]) @ ls)" "tidy fl'" "list_all2 (stores (fl_columns fl1)) rows ls"
     "fl_columns fl' = fl_columns fl1" "fl_max_rows fl' = fl_max_rows fl1"
     "fl_num_truncated fl' = fl_num_truncated fl1"
    using Cons.IH [OF r(2,3)] r(5) Cons.prems(3-5) by auto
  then show ?case
    using r by (intro exI [of _ fl'] exI [of _ "l # ls"]) (simp add: push_rows_internal_def)
qed

end
