(* ===== verification/Flat_Storage_Read.thy ===== *)
theory Flat_Storage_Read
  imports Flat_Storage_Push
begin

text \<open>
  Reading back what was pushed: cell by cell, a row read from the storage shows what the
  row that was pushed showed.
\<close>

section \<open>Cells\<close>

definition SHOWN :: u16 where
  "SHOWN = STYLE_MASK OR WIDE_CHAR OR (WIDE_CHAR_SPACER OR LEADING_WIDE_CHAR_SPACER)"

definition same_cell :: "cell \<Rightarrow> cell \<Rightarrow> bool" where
  "same_cell c d \<longleftrightarrow>
     raw_content d = raw_content c \<and> c_fg d = c_fg c \<and> c_bg d = c_bg c \<and>
     c_flags d AND SHOWN = c_flags c AND SHOWN"

definition blank_cell :: "cell \<Rightarrow> bool" where
  "blank_cell d \<longleftrightarrow>
     raw_content d = [DEFAULT_CHAR] \<and> c_fg d = Named Foreground \<and> c_bg d = Named Background \<and>
     c_flags d AND SHOWN = 0"

lemma flag_bit: "(f :: u16) AND 2 ^ n = 2 ^ n \<or> f AND 2 ^ n = 0"
proof (cases "bit f n")
  case True
  then have "f AND 2 ^ n = 2 ^ n" by (intro bit_word_eqI) (auto simp: bit_simps)
  then show ?thesis ..
next
  case False
  then have "f AND 2 ^ n = 0" by (intro bit_word_eqI) (auto simp: bit_simps)
  then show ?thesis ..
qed

lemma not_wide: "\<not> is_wide c \<longleftrightarrow> c_flags c AND WIDE_CHAR = 0"
  using flag_bit [of "c_flags c" 5] by (auto simp: is_wide_def bf_contains_def WIDE_CHAR_def)

lemma kept_flags:
  assumes "\<not> is_spacer c"
  shows "(if is_wide c then bf_insert (c_flags c AND STYLE_MASK) WIDE_CHAR else c_flags c AND STYLE_MASK) AND SHOWN =
         c_flags c AND SHOWN"
proof -
  have gen: "f AND P = 0 \<Longrightarrow> f AND W = w \<Longrightarrow> w = W \<or> w = 0 \<Longrightarrow> ((f AND S) OR w) AND (S OR W OR P) = f AND (S OR W OR P)"
    for f P W S w :: u16
  proof -
    assume f: "f AND P = 0" "f AND W = w" "w = W \<or> w = 0"
    have "f AND (S OR W OR P) = (f AND S) OR (f AND W) OR (f AND P)"
      by (simp add: bit.conj_disj_distrib)
    also have "\<dots> = (f AND S) OR w" using f by simp
    also have "\<dots> = ((f AND S) OR w) AND (S OR W OR P)"
      using f(3) by (intro bit_word_eqI) (auto simp: bit_simps)
    finally show ?thesis by simp
  qed
  have sp: "c_flags c AND (WIDE_CHAR_SPACER OR LEADING_WIDE_CHAR_SPACER) = 0"
    using assms by (simp add: is_spacer_def bf_intersects_def)
  show ?thesis
  proof (cases "is_wide c")
    case True
    then show ?thesis
      using gen [OF sp, of WIDE_CHAR WIDE_CHAR STYLE_MASK]
      by (simp add: SHOWN_def bf_insert_def is_wide_def bf_contains_def)
  next
    case False
    then have "c_flags c AND WIDE_CHAR = 0" by (simp add: not_wide)
    then show ?thesis using gen [OF sp, of WIDE_CHAR 0 STYLE_MASK] False by (simp add: SHOWN_def)
  qed
qed

text \<open>The text of a cell that is filled with a grapheme.\<close>

lemma push_zerowidths_text:
  assumes "s \<noteq> []" "hd s = DEFAULT_CHAR \<longrightarrow> length s = 1" "str_len s \<le> MAX_GRAPHEME_BYTES"
    "c_char c = hd s" "content_with_zerowidth c = None"
  shows "c_char (push_zerowidths (tl s) c) = hd s \<and>
     content_with_zerowidth (push_zerowidths (tl s) c) = (if length s = 1 then None else Some s)"
  using assms
proof (induction s rule: rev_induct)
  case (snoc x s)
  show ?case
  proof (cases "s = []")
    case True
    then show ?thesis using snoc.prems by (simp add: push_zerowidths_def)
  next
    case False
    have hd: "hd s \<noteq> DEFAULT_CHAR" using snoc.prems(2) False by (cases s) auto
    have len: "str_len s + len_utf8 x \<le> MAX_GRAPHEME_BYTES" using snoc.prems(3) by (simp add: str_len_def)
    let ?c = "push_zerowidths (tl s) c"
    have IH: "c_char ?c = hd s" "content_with_zerowidth ?c = (if length s = 1 then None else Some s)"
      using snoc.IH [OF False] hd len snoc.prems(4,5) False by auto
    have step: "push_zerowidths (tl (s @ [x])) c = push_zerowidth x ?c"
      using False by (simp add: push_zerowidths_def)
    have "c_char (push_zerowidth x ?c) = hd s"
      using IH(1) hd by (auto simp: push_zerowidth_def Let_def split: option.splits)
    moreover have "content_with_zerowidth (push_zerowidth x ?c) = Some (s @ [x])"
    proof (cases "length s = 1")
      case True
      then have s: "s = [hd s]" by (cases s) auto
      have "content_with_zerowidth ?c = None" using IH(2) True by simp
      then have "content_with_zerowidth (push_zerowidth x ?c) = Some [hd s, x]"
        using IH(1) hd by (auto simp: push_zerowidth_def content_with_zerowidth_def Let_def split: option.splits)
      then show ?thesis using s by (metis append_Cons append_Nil)
    next
      case F: False
      then have "content_with_zerowidth ?c = Some s" using IH(2) by simp
      then show ?thesis
        using len IH(1) hd
        by (auto simp: push_zerowidth_def content_with_zerowidth_def Let_def split: option.splits)
    qed
    ultimately show ?thesis unfolding step using False by simp
  qed
qed simp

lemma fill_cell_fields:
  assumes "storable c"
  shows "raw_content (fill_cell (raw_content c) fg style prompt off cell_default) = raw_content c"
    "c_fg (fill_cell s fg style prompt off cell_default) = fg"
    "c_bg (fill_cell s fg style prompt off cell_default) = bs_bg style"
    "c_flags (fill_cell s fg style prompt off cell_default) = bs_flags style"
proof -
  have s: "raw_content c \<noteq> []" "hd (raw_content c) = DEFAULT_CHAR \<longrightarrow> length (raw_content c) = 1"
      "str_len (raw_content c) \<le> MAX_GRAPHEME_BYTES"
    using assms by (simp_all add: storable_def)
  let ?c = "cell_default\<lparr>c_char := hd (raw_content c)\<rparr>"
  have t: "c_char (push_zerowidths (tl (raw_content c)) ?c) = hd (raw_content c)"
      "content_with_zerowidth (push_zerowidths (tl (raw_content c)) ?c) =
       (if length (raw_content c) = 1 then None else Some (raw_content c))"
    using push_zerowidths_text [OF s, of ?c] by (simp_all add: content_with_zerowidth_def cell_default_def)
  have m: "raw_content (mark_end_of_prompt nl d) = raw_content d" for nl d
    by (simp add: raw_content_def content_with_zerowidth_def mark_end_of_prompt_def split: option.splits)
  have one: "length (raw_content c) = 1 \<Longrightarrow> [hd (raw_content c)] = raw_content c"
    by (cases "raw_content c") auto
  have u: "raw_content (d\<lparr>c_fg := fg, c_bg := bs_bg style, c_flags := bs_flags style\<rparr>) = raw_content d" for d
    by (simp add: raw_content_def content_with_zerowidth_def split: option.split)
  have "raw_content (push_zerowidths (tl (raw_content c)) ?c) = raw_content c"
    using t one by (auto simp: raw_content_def split: option.splits)
  then show "raw_content (fill_cell (raw_content c) fg style prompt off cell_default) = raw_content c"
    by (auto simp: fill_cell_def Let_def m u split: option.splits)
  have f: "c_fg (mark_end_of_prompt nl d) = c_fg d" "c_bg (mark_end_of_prompt nl d) = c_bg d"
      "c_flags (mark_end_of_prompt nl d) = c_flags d" for nl d
    by (simp_all add: mark_end_of_prompt_def)
  show "c_fg (fill_cell s fg style prompt off cell_default) = fg"
    "c_bg (fill_cell s fg style prompt off cell_default) = bs_bg style"
    "c_flags (fill_cell s fg style prompt off cell_default) = bs_flags style"
    by (auto simp: fill_cell_def Let_def f split: option.splits)
qed

lemma flags_insert_fields [simp]:
  "raw_content (flags_insert f c) = raw_content c" "c_fg (flags_insert f c) = c_fg c"
  "c_bg (flags_insert f c) = c_bg c" "c_flags (flags_insert f c) = bf_insert (c_flags c) f"
  by (simp_all add: flags_insert_def raw_content_def content_with_zerowidth_def split: option.split)

lemma glyph_cell_same:
  assumes "storable c" "\<not> is_spacer c"
  shows "same_cell c (glyph_cell prompt off (glyph_of c))"
  using fill_cell_fields(1) [OF assms(1), of "c_fg c" "bg_and_style_from c" prompt off]
    fill_cell_fields(2-4) [OF assms(1), of "raw_content c" "c_fg c" "bg_and_style_from c" prompt off]
    kept_flags [OF assms(2)]
  by (auto simp: same_cell_def glyph_cell_def glyph_of_def Let_def bg_and_style_from_def)

section \<open>Rows\<close>

definition reads_cell :: "cell \<Rightarrow> cell \<Rightarrow> bool" where
  "reads_cell c d \<longleftrightarrow>
     is_spacer d = is_spacer c \<and> is_leading d = is_leading c \<and>
     (is_spacer c \<or> same_cell c d \<or> cell_is_empty c \<and> blank_cell d)"

text \<open>The row \<open>d\<close> reads like \<open>r\<close>: its cells up to \<open>occ\<close> are the same, those after are blank,
  and it is wrapped if \<open>r\<close> is.\<close>

definition reads_row :: "nat \<Rightarrow> row \<Rightarrow> cell list \<Rightarrow> bool" where
  "reads_row columns r ds \<longleftrightarrow>
     length ds = columns \<and>
     (\<forall>j<row_occ r. reads_cell (row_inner r ! j) (ds ! j)) \<and>
     (\<forall>j<columns. row_occ r \<le> j \<longrightarrow> blank_cell (ds ! j)) \<and>
     bf_intersects (c_flags (ds ! (columns - 1))) WRAPLINE = soft_wraps columns r"

text \<open>A cell of a glyph is not at the end of a wrapped line until it is marked so.\<close>

definition unmarked :: "cell \<Rightarrow> bool" where
  "unmarked d \<longleftrightarrow> c_flags d AND (WRAPLINE OR LEADING_WIDE_CHAR_SPACER) = 0"

lemma flag_consts:
  "STYLE_MASK AND WRAPLINE = 0" "STYLE_MASK AND LEADING_WIDE_CHAR_SPACER = 0"
  "STYLE_MASK AND WIDE_CHAR_SPACER = 0"
  "WIDE_CHAR AND WRAPLINE = 0" "WIDE_CHAR AND LEADING_WIDE_CHAR_SPACER = 0" "WIDE_CHAR AND WIDE_CHAR_SPACER = 0"
  "WIDE_CHAR_SPACER AND WRAPLINE = 0" "WIDE_CHAR_SPACER AND LEADING_WIDE_CHAR_SPACER = 0"
  "WRAPLINE AND SHOWN = 0" "WRAPLINE AND WIDE_CHAR_SPACER = 0" "WRAPLINE AND LEADING_WIDE_CHAR_SPACER = 0"
  "WIDE_CHAR_SPACER AND WIDE_CHAR_SPACER \<noteq> 0" "LEADING_WIDE_CHAR_SPACER AND WRAPLINE = 0"
  "WRAPLINE \<noteq> 0" "LEADING_WIDE_CHAR_SPACER \<noteq> 0" "WIDE_CHAR_SPACER \<noteq> 0"
  by (simp_all add: STYLE_MASK_def SHOWN_def cell_flag_defs)

lemma spacer_flags:
  "is_spacer d \<longleftrightarrow> c_flags d AND WIDE_CHAR_SPACER \<noteq> 0 \<or> is_leading d"
  "is_leading d \<longleftrightarrow> c_flags d AND LEADING_WIDE_CHAR_SPACER \<noteq> 0"
  by (auto simp: is_spacer_def is_leading_def bf_intersects_def bit.conj_disj_distrib or_eq_0_iff)

lemma glyph_cell_flags:
  assumes "storable c"
  shows "unmarked (glyph_cell prompt off (glyph_of c))" "\<not> is_spacer (glyph_cell prompt off (glyph_of c))"
proof -
  have f: "c_flags (glyph_cell prompt off (glyph_of c)) =
      (if is_wide c then bf_insert (c_flags c AND STYLE_MASK) WIDE_CHAR else c_flags c AND STYLE_MASK)"
    using fill_cell_fields(4) [OF assms]
    by (simp add: glyph_cell_def glyph_of_def Let_def bg_and_style_from_def)
  have m: "(f AND STYLE_MASK) AND m = 0" if "STYLE_MASK AND m = 0" for f m :: u16
    using that by (simp add: and.assoc)
  show "unmarked (glyph_cell prompt off (glyph_of c))"
    by (simp add: unmarked_def f bf_insert_def bit.conj_disj_distrib bit.conj_disj_distrib2 m flag_consts)
  show "\<not> is_spacer (glyph_cell prompt off (glyph_of c))"
    by (simp add: spacer_flags f bf_insert_def bit.conj_disj_distrib bit.conj_disj_distrib2 m flag_consts)
qed

definition reads_unmarked :: "cell \<Rightarrow> cell \<Rightarrow> bool" where
  "reads_unmarked c d \<longleftrightarrow> reads_cell c d \<and> unmarked d"

lemma glyph_cells_read:
  assumes "grouped cells"
  shows "list_all2 reads_unmarked cells (glyph_cells prompt off (glyphs_of cells))"
  using assms
proof (induction cells arbitrary: off rule: grouped.induct)
  case (2 c cs)
  have c: "\<not> is_spacer c" "storable c" using "2.prems" by auto
  have first: "reads_unmarked c (glyph_cell prompt off' (glyph_of c))" for off'
    using glyph_cell_same [OF c(2,1)] glyph_cell_flags [OF c(2)] c(1) skipped_not_leading
    by (auto simp: reads_unmarked_def reads_cell_def)
  show ?case
  proof (cases "is_wide c")
    case True
    obtain s cs' where cs: "cs = s # cs'" "is_spacer s" "\<not> is_leading s" "grouped cs'"
      using "2.prems" True by (auto split: list.splits)
    have "reads_unmarked s (flags_insert WIDE_CHAR_SPACER cell_default)"
      using cs(2,3)
      by (simp add: reads_unmarked_def reads_cell_def unmarked_def spacer_flags cell_default_def bf_insert_def
          bit.conj_disj_distrib flag_consts)
    moreover have "gi_cell_width (gl_info (glyph_of c)) = 2" using True by (simp add: glyph_of_def)
    ultimately show ?thesis using first "2.IH"(1) [OF True cs(1,4)] cs(1) True by simp
  next
    case False
    moreover have "gi_cell_width (gl_info (glyph_of c)) = 1" using False by (simp add: glyph_of_def)
    ultimately show ?thesis using first "2.IH"(2) [OF False] "2.prems" by simp
  qed
qed simp

text \<open>Marking the last cell.\<close>

lemma map_last_nth:
  "length (map_last f xs) = length xs"
  "j < length xs \<Longrightarrow> map_last f xs ! j = (if j = length xs - 1 then f (xs ! j) else xs ! j)"
  by (cases "xs = []"; auto simp: map_last_def last_conv_nth)+

lemma marked_reads:
  "reads_cell c (flags_insert WRAPLINE d) = reads_cell c d"
  "blank_cell (flags_insert WRAPLINE d) = blank_cell d"
  "is_leading (flags_insert WRAPLINE d) = is_leading d"
  by (simp_all add: reads_cell_def same_cell_def blank_cell_def spacer_flags bf_insert_def
      bit.conj_disj_distrib2 flag_consts)

lemma shaped_leading_last:
  "shaped cells \<Longrightarrow> j < length cells \<Longrightarrow> is_leading (cells ! j) \<Longrightarrow> j = length cells - 1"
proof (induction cells arbitrary: j rule: shaped.induct)
  case (2 c cs)
  show ?case
  proof (cases "is_leading c")
    case True
    then show ?thesis using 2 by simp
  next
    case False
    then have j: "0 < j" using "2.prems"(3) by (cases j) auto
    show ?thesis
    proof (cases "is_wide c")
      case True
      obtain s cs' where cs: "cs = s # cs'" "\<not> is_leading s" "shaped cs'"
        using "2.prems"(1) False True by (auto split: list.splits)
      then have "1 < j" using j "2.prems"(3) by (cases "j = 1") auto
      then have "j - 2 = length cs' - 1" "j - 2 < length cs'"
        using "2.IH"(1) [OF False True cs(1,3), of "j - 2"] "2.prems"(2,3) cs(1)
        by (auto simp: nth_Cons' numeral_2_eq_2)
      then show ?thesis using \<open>1 < j\<close> cs(1) by simp
    next
      case narrow: False
      then have "j - 1 = length cs - 1" "j - 1 < length cs"
        using "2.IH"(2) [OF False narrow, of "j - 1"] "2.prems" j False by auto
      then show ?thesis using j by simp
    qed
  qed
qed simp

lemma line_cells_read:
  assumes "stores columns r l" "row_storable columns r" "0 < columns"
  shows "reads_row columns r (line_cells columns prompt off l)"
proof -
  let ?cells = "take (row_occ r) (row_inner r)" and ?last = "columns - 1"
  have r: "row_len r = columns" "row_occ r \<le> columns" "shaped ?cells"
      "row_occ r < columns \<Longrightarrow> \<not> (\<exists>c\<in>set ?cells. is_leading c)"
    using assms(2) by (auto simp: row_storable_def)
  have len: "length ?cells = row_occ r" using r(1,2) by (simp add: row_len_def)
  obtain kept rest where k: "?cells = kept @ rest" "grouped kept" "fst l = glyphs_of kept"
      "\<forall>c\<in>set rest. is_leading c \<or> cell_is_empty c \<and> \<not> is_spacer c"
      "snd (snd l) = (\<exists>c\<in>set ?cells. is_leading c)" "fst (snd l) = (\<not> soft_wraps columns r)"
    using assms(1) unfolding stores_def stored_as_def by blast
  let ?gs = "glyph_cells prompt off (glyphs_of kept)"
  have glen: "length ?gs = length kept" "glyphs_cols (glyphs_of kept) = length kept"
    using list_all2_lengthD [OF glyph_cells_read [OF k(2)]] glyphs_of_cols [OF k(2)] by simp_all
  have klen: "length kept \<le> row_occ r" using len k(1) by (metis le_add1 length_append)
  define base where "base = ?gs @ replicate (columns - length kept) cell_default"
  have blen: "length base = columns" using glen klen r(2) by (simp add: base_def)
  have bk: "reads_cell (row_inner r ! j) (base ! j) \<and> unmarked (base ! j)" if "j < length kept" for j
  proof -
    have "?cells ! j = kept ! j" using k(1) that by (simp add: nth_append)
    then have "row_inner r ! j = kept ! j" using that klen by simp
    then show ?thesis
      using list_all2_nthD [OF glyph_cells_read [OF k(2)] that] that glen by (simp add: base_def nth_append reads_unmarked_def)
  qed
  have bd: "base ! j = cell_default" if "length kept \<le> j" "j < columns" for j
    using that glen by (simp add: base_def nth_append)
  have unm: "unmarked (base ! j)" if "j < columns" for j
    using bk [of j] bd [of j] that by (cases "j < length kept") (simp_all add: unmarked_def cell_default_def)
  have rest: "is_leading (row_inner r ! j) \<or> cell_is_empty (row_inner r ! j) \<and> \<not> is_spacer (row_inner r ! j)"
    if "length kept \<le> j" "j < row_occ r" for j
  proof -
    have "?cells ! j \<in> set rest" using k(1) that len by (simp add: nth_append)
    then show ?thesis using k(4) that by simp
  qed
  define ds1 where "ds1 = (if soft_wraps columns r then map_last (flags_insert WRAPLINE) base else base)"
  have d1: "length ds1 = columns" "\<And>j. j < columns \<Longrightarrow>
      ds1 ! j = (if j = ?last \<and> soft_wraps columns r then flags_insert WRAPLINE (base ! j) else base ! j)"
    using blen map_last_nth [where xs = base] by (auto simp: ds1_def)
  define ds where "ds = (if snd (snd l) then map_last (flags_insert LEADING_WIDE_CHAR_SPACER) ds1 else ds1)"
  have d: "length ds = columns" "\<And>j. j < columns \<Longrightarrow>
      ds ! j = (if j = ?last \<and> snd (snd l) then flags_insert LEADING_WIDE_CHAR_SPACER (ds1 ! j) else ds1 ! j)"
    using d1(1) map_last_nth [where xs = ds1] by (auto simp: ds_def)
  have eq: "line_cells columns prompt off l = ds"
    by (simp add: line_cells_def Let_def k(3,6) glen(2) ds_def ds1_def base_def)
  have blank: "blank_cell cell_default" "\<not> is_spacer cell_default" "\<not> is_leading cell_default"
    by (simp_all add: blank_cell_def cell_default_def raw_content_def content_with_zerowidth_def spacer_flags)
  have lead: "snd (snd l) \<longleftrightarrow> row_occ r = columns \<and> is_leading (row_inner r ! ?last)"
  proof
    assume "snd (snd l)"
    then obtain j where j: "j < row_occ r" "is_leading (?cells ! j)" using k(5) len by (metis in_set_conv_nth)
    then have occ: "row_occ r = columns" using r(2,4) len by (metis le_neq_implies_less nth_mem)
    have "j = ?last" using shaped_leading_last [OF r(3) _ j(2)] j(1) len occ by simp
    then show "row_occ r = columns \<and> is_leading (row_inner r ! ?last)" using j occ by simp
  next
    assume a: "row_occ r = columns \<and> is_leading (row_inner r ! ?last)"
    then have "?cells ! ?last = row_inner r ! ?last" "?last < length ?cells" using assms(3) len by simp_all
    then show "snd (snd l)" using a k(5) by (metis nth_mem)
  qed
  have notlead: "\<not> is_leading (row_inner r ! j)" if "j < row_occ r" "\<not> (j = ?last \<and> snd (snd l))" for j
  proof
    assume a: "is_leading (row_inner r ! j)"
    then have "is_leading (?cells ! j)" "j < length ?cells" using that(1) len by simp_all
    then have "snd (snd l)" unfolding k(5) by (meson nth_mem)
    moreover have "j = length ?cells - 1"
      using shaped_leading_last [OF r(3)] \<open>is_leading (?cells ! j)\<close> \<open>j < length ?cells\<close> by blast
    ultimately show False using that lead len by simp
  qed
  have cell: "reads_cell (row_inner r ! j) (ds1 ! j)"
    if "j < row_occ r" "\<not> (j = ?last \<and> snd (snd l))" for j
  proof -
    have j: "j < columns" using that(1) r(2) by simp
    have "reads_cell (row_inner r ! j) (base ! j)"
    proof (cases "j < length kept")
      case False
      then show ?thesis
        using rest [of j] notlead [OF that] bd [of j] j that(1) blank by (auto simp: reads_cell_def)
    qed (use bk in blast)
    then show ?thesis unfolding d1(2) [OF j] by (auto simp: marked_reads)
  qed
  have "reads_cell (row_inner r ! j) (ds ! j)" if j: "j < row_occ r" for j
  proof (cases "j = ?last \<and> snd (snd l)")
    case True
    have jc: "j < columns" using j r(2) by simp
    have "is_leading (row_inner r ! j)" using lead True by simp
    moreover have "is_leading (ds ! j)"
      using d(2) [OF jc] True by (simp add: spacer_flags bf_insert_def bit.conj_disj_distrib2 flag_consts or_eq_0_iff)
    ultimately show ?thesis using spacer_flags(1) by (auto simp: reads_cell_def)
  next
    case False
    then show ?thesis using cell [OF j False] d(2) [of j] j r(2) by auto
  qed
  moreover have "blank_cell (ds ! j)" if "j < columns" "row_occ r \<le> j" for j
    using d(2) [OF that(1)] d1(2) [OF that(1)] bd [OF le_trans [OF klen that(2)] that(1)] blank(1) lead that
    by (auto simp: marked_reads)
  moreover have "bf_intersects (c_flags (ds ! ?last)) WRAPLINE = soft_wraps columns r"
  proof -
    have "?last < columns" using assms(3) by simp
    moreover have "c_flags (base ! ?last) AND WRAPLINE = 0"
      using unm [of ?last] assms(3) by (simp add: unmarked_def bit.conj_disj_distrib or_eq_0_iff)
    ultimately show ?thesis
      using d(2) d1(2)
      by (simp add: bf_intersects_def bf_insert_def bit.conj_disj_distrib2 flag_consts or_eq_0_iff)
  qed
  ultimately show ?thesis unfolding eq reads_row_def using d(1) by blast
qed

end
