(* ===== verification/Flat_Properties.thy ===== *)
theory Flat_Properties
  imports Flat_Storage_Read
begin

text \<open>
  The properties of the flat scrollback storage.
\<close>

section \<open>Wrapping lines again\<close>

text \<open>An index to instantiate the properties on: two narrow characters and a wide one, then
  a row that ends with a newline, then an empty row.\<close>

definition sample_lines :: "line list" where
  "sample_lines =
     [([\<lparr>gi_cell_width = 1, gi_utf8_bytes = 1\<rparr>, \<lparr>gi_cell_width = 1, gi_utf8_bytes = 1\<rparr>,
        \<lparr>gi_cell_width = 2, gi_utf8_bytes = 3\<rparr>], False, False),
      ([\<lparr>gi_cell_width = 1, gi_utf8_bytes = 2\<rparr>], True, False),
      ([], True, False)]"

definition sample_index :: flat_index where
  "sample_index = \<lparr>ix_rows =
     [\<lparr>en_content_offset = 10, en_grapheme_sizing = NonUniform,
       en_has_trailing_newline = False, en_ends_with_spacer = False\<rparr>,
      \<lparr>en_content_offset = 15,
       en_grapheme_sizing = Uniform \<lparr>run_count = 1, run_info = \<lparr>gi_cell_width = 1, gi_utf8_bytes = 2\<rparr>\<rparr>,
       en_has_trailing_newline = True, en_ends_with_spacer = False\<rparr>,
      \<lparr>en_content_offset = 18, en_grapheme_sizing = EmptyRow,
       en_has_trailing_newline = True, en_ends_with_spacer = False\<rparr>],
     ix_columns = 4, ix_content_len = 19,
     ix_grapheme_sizing =
       [(10, [\<lparr>run_count = 2, run_info = \<lparr>gi_cell_width = 1, gi_utf8_bytes = 1\<rparr>\<rparr>,
              \<lparr>run_count = 1, run_info = \<lparr>gi_cell_width = 2, gi_utf8_bytes = 3\<rparr>\<rparr>])]\<rparr>"

lemma sample_rep: "index_rep sample_index 10 sample_lines"
  by (simp add: index_rep_def sample_index_def sample_lines_def btree_sorted_def rle_def rle_push_def
      sizing_of_def info_ok_def line_bytes_def btree_get_def)

lemma sample_width: "\<forall>l\<in>set sample_lines. \<forall>i\<in>set (fst l). gi_cell_width i \<le> 2"
  by (simp add: sample_lines_def)

text \<open>C30: rebuilding the index at another width does not panic, keeps the graphemes and the
  newlines and their order, keeps the offsets of the content, and wraps greedily: no row is
  wider than the grid, a row that does not end with a newline is followed by a grapheme
  that had no room on it, and the spacer is noted exactly where a wide grapheme left a cell
  free.\<close>

theorem index_rebuild_correct:
  assumes "index_rep old base lines" "columns < 2 ^ 16"
    "\<forall>l\<in>set lines. \<forall>i\<in>set (fst l). gi_cell_width i \<le> columns"
  shows "\<exists>ix lines'. index_rebuild old columns = Some ix \<and> index_rep ix base lines' \<and>
     ix_columns ix = columns \<and> ix_content_len ix = ix_content_len old \<and>
     stream lines' = stream lines \<and> list_all (line_fits columns) lines' \<and> greedy columns lines'"
proof -
  obtain ix where ix: "index_rebuild old columns = Some ix" "ix_columns ix = columns"
      "index_rep ix base (wrap columns (stream lines))"
    using index_rebuild_rep [OF assms] by blast
  have fit: "\<forall>i. Some i \<in> set (stream lines) \<longrightarrow> gi_cell_width i \<le> columns"
    using assms(3) by (simp add: stream_infos)
  have "ix_content_len ix = ix_content_len old"
    by (simp add: index_rep_stream_len [OF ix(3)] index_rep_stream_len [OF assms(1)] stream_wrap)
  then show ?thesis using ix wrap_greedy [OF fit] stream_wrap by blast
qed

theorem index_rebuild_correct_witness:
  "\<exists>ix lines'. index_rebuild sample_index 3 = Some ix \<and> index_rep ix 10 lines' \<and>
     ix_columns ix = 3 \<and> ix_content_len ix = ix_content_len sample_index \<and>
     stream lines' = stream sample_lines \<and> list_all (line_fits 3) lines' \<and> greedy 3 lines'"
  by (rule index_rebuild_correct [OF sample_rep]) (use sample_width in fastforce)+

text \<open>C31: rebuilding at one width and then at another gives the index that rebuilding at the
  second width gives: nothing is lost on the way through a narrow window, and the entries
  and grapheme sizes agree row by row.\<close>

theorem rebuild_through_any_width:
  assumes "index_rep old base lines" "columns < 2 ^ 16" "via < 2 ^ 16"
    "\<forall>l\<in>set lines. \<forall>i\<in>set (fst l). gi_cell_width i \<le> via \<and> gi_cell_width i \<le> columns"
  shows "\<exists>there again direct. index_rebuild old via = Some there \<and>
     index_rebuild there columns = Some again \<and> index_rebuild old columns = Some direct \<and>
     ix_rows again = ix_rows direct \<and> ix_content_len again = ix_content_len direct \<and>
     (\<forall>row. grapheme_runs_for_row row again = grapheme_runs_for_row row direct)"
proof -
  have f: "\<forall>l\<in>set lines. \<forall>i\<in>set (fst l). gi_cell_width i \<le> via"
      "\<forall>l\<in>set lines. \<forall>i\<in>set (fst l). gi_cell_width i \<le> columns" using assms(4) by blast+
  obtain there where there: "index_rebuild old via = Some there"
      "index_rep there base (wrap via (stream lines))"
    using index_rebuild_rep [OF assms(1,3) f(1)] by blast
  have "\<forall>l\<in>set (wrap via (stream lines)). \<forall>i\<in>set (fst l). gi_cell_width i \<le> columns"
    using f(2) by (simp add: stream_infos stream_wrap)
  then obtain again where again: "index_rebuild there columns = Some again"
      "index_rep again base (wrap columns (stream lines))"
    using index_rebuild_rep [OF there(2) assms(2)] by (auto simp: stream_wrap)
  obtain direct where direct: "index_rebuild old columns = Some direct"
      "index_rep direct base (wrap columns (stream lines))"
    using index_rebuild_rep [OF assms(1,2) f(2)] by blast
  show ?thesis using there(1) again direct index_rep_unique [OF again(2) direct(2)] by blast
qed

theorem rebuild_through_any_width_witness:
  "\<exists>there again direct. index_rebuild sample_index 2 = Some there \<and>
     index_rebuild there 3 = Some again \<and> index_rebuild sample_index 3 = Some direct \<and>
     ix_rows again = ix_rows direct \<and> ix_content_len again = ix_content_len direct \<and>
     (\<forall>row. grapheme_runs_for_row row again = grapheme_runs_for_row row direct)"
  by (rule rebuild_through_any_width [OF sample_rep]) (use sample_width in fastforce)+

section \<open>Points and offsets\<close>




section \<open>The storage\<close>

lemma flat_new_rep: "flat_rep (flat_new columns max_rows) 0 []" "tidy (flat_new columns max_rows)"
  by (simp_all add: flat_rep_def tidy_def flat_new_def index_new_def index_rep_def content_new_def content_ok_def
      chunk_ok_def chunk_new_def content_end_def chunk_end_def am_ok_def am_new_def btree_sorted_def)

lemma total_rows_rep: "flat_rep fl base lines \<Longrightarrow> total_rows fl = length lines"
  using index_rep_len by (fastforce simp: flat_rep_def total_rows_def)

text \<open>Rows to instantiate the properties on: one with a letter in red, one with a wide
  character that fills it and wraps.\<close>

definition red_cell :: cell where
  "red_cell = cell_default\<lparr>c_char := 0x61, c_fg := Named Red\<rparr>"

definition sample_rows :: "row list" where
  "sample_rows =
     [\<lparr>row_inner = [cell_default, red_cell, cell_default], row_occ = 2\<rparr>,
      \<lparr>row_inner = [cell_default\<lparr>c_char := 0x4E2D, c_flags := WIDE_CHAR\<rparr>,
                    cell_default\<lparr>c_flags := WIDE_CHAR_SPACER\<rparr>, cell_default\<lparr>c_flags := WRAPLINE\<rparr>],
       row_occ = 3\<rparr>]"

lemma sample_rows_storable: "\<forall>r\<in>set sample_rows. row_storable 3 r"
  by (simp add: sample_rows_def red_cell_def row_storable_def row_len_def storable_def is_leading_def is_spacer_def
      is_wide_def bf_defs cell_flag_defs cell_default_def raw_content_def content_with_zerowidth_def
      is_scalar_def str_len_def len_utf8_def MAX_GRAPHEME_BYTES_def cell_is_empty_def DEFAULT_CHAR_def)



text \<open>C28: pushing rows with a limit keeps the last rows: as many as exceed the limit are
  dropped, from the front, they are counted, and the others are the stored lines followed by
  the pushed rows; the width and the limit stay, and the storage is ready for more rows.\<close>

theorem push_rows_limit:
  assumes "flat_rep fl base lines" "tidy fl" "0 < fl_columns fl" "fl_columns fl < 2 ^ 16"
    "\<forall>r\<in>set rows. row_storable (fl_columns fl) r" "fl_max_rows fl = Some limit"
  shows "\<exists>fl' base' ls. push_rows rows fl = Some fl' \<and> list_all2 (stores (fl_columns fl)) rows ls \<and>
     flat_rep fl' base' (drop (length lines + length rows - limit) (lines @ ls)) \<and> tidy fl' \<and>
     total_rows fl' = min limit (length lines + length rows) \<and>
     fl_num_truncated fl' = fl_num_truncated fl + (length lines + length rows - limit) \<and>
     fl_columns fl' = fl_columns fl"
proof -
  obtain fl1 ls where p: "push_rows_internal rows fl = Some fl1" "flat_rep fl1 base (lines @ ls)" "tidy fl1"
      "list_all2 (stores (fl_columns fl)) rows ls" "fl_columns fl1 = fl_columns fl"
      "fl_max_rows fl1 = fl_max_rows fl" "fl_num_truncated fl1 = fl_num_truncated fl"
    using push_rows_rep [OF assms(1-5)] by blast
  let ?all = "lines @ ls" and ?k = "length lines + length rows - limit"
  have len: "length ?all = length lines + length rows" using list_all2_lengthD [OF p(4)] by simp
  have total: "total_rows fl1 = length ?all" by (rule total_rows_rep [OF p(2)])
  have eq: "apply_max_rows fl1 = truncate_rows_front ?k fl1"
    using total len p(6) assms(6)
    by (cases "limit \<le> length lines + length rows")
       (auto simp: apply_max_rows_def checked_sub_def truncate_rows_front_def)
  note t = flat_truncate_front_rep [OF p(2), of ?k]
  have "tidy (truncate_rows_front ?k fl1)"
    using p(3) am_truncate_front_ok(1) [where m = "fl_fg fl1"] am_truncate_front_ok(1) [where m = "fl_style fl1"]
    by (auto simp: tidy_def truncate_rows_front_def Let_def content_end_def content_truncate_front_def
        split: prod.splits)
  moreover have "total_rows (truncate_rows_front ?k fl1) = min limit (length lines + length rows)"
    using total_rows_rep [OF t(1)] unfolding length_drop len min_def by arith
  ultimately show ?thesis
    using p(1,4,5,7) eq t len
    by (intro exI [of _ "truncate_rows_front ?k fl1"]
        exI [of _ "line_start base ?all (min ?k (length ?all))"] exI [of _ ls])
       (simp add: push_rows_def)
qed

theorem push_rows_limit_witness:
  "\<exists>fl' base' ls. push_rows sample_rows (flat_new 3 (Some 1)) = Some fl' \<and>
     list_all2 (stores (fl_columns (flat_new 3 (Some 1)))) sample_rows ls \<and>
     flat_rep fl' base' (drop (length ([]::flat_line list) + length sample_rows - 1) ([] @ ls)) \<and> tidy fl' \<and>
     total_rows fl' = min 1 (length ([]::flat_line list) + length sample_rows) \<and>
     fl_num_truncated fl' = fl_num_truncated (flat_new 3 (Some 1)) + (length ([]::flat_line list) + length sample_rows - 1) \<and>
     fl_columns fl' = fl_columns (flat_new 3 (Some 1))"
  by (rule push_rows_limit [OF flat_new_rep]) (use sample_rows_storable in \<open>simp_all add: flat_new_def\<close>)

text \<open>C29: changing the width of the scrollback does not panic and keeps every glyph, with its
  colours and style, and every newline, in order; rows are as wide as the new width
  allows.\<close>

theorem set_columns_keeps_text:
  assumes "flat_rep fl base lines" "columns < 2 ^ 16"
    "\<forall>g. Some g \<in> set (flat_stream lines) \<longrightarrow> gi_cell_width (gl_info g) \<le> columns"
  shows "\<exists>fl' lines'. flat_set_columns columns fl = Some fl' \<and> flat_rep fl' base lines' \<and>
     flat_stream lines' = flat_stream lines \<and> fl_columns fl' = columns"
  by (rule flat_set_columns_rep [OF assms])

lemma stream_width:
  assumes "flat_rep fl base lines" "Some g \<in> set (flat_stream lines)"
  shows "gi_cell_width (gl_info g) \<le> 2"
proof -
  obtain l where "l \<in> set lines" "g \<in> set (fst l)"
    using assms(2) by (auto simp: flat_stream_def split: if_splits)
  then obtain i where "i < length lines" "g \<in> set (fst (lines ! i))" by (metis in_set_conv_nth)
  then have "info_ok (gl_info g)"
    using assms(1) glyphs_at_infos by (fastforce simp: flat_rep_def list_all_iff)
  then show ?thesis by (auto simp: info_ok_def)
qed

theorem set_columns_keeps_text_witness:
  "\<exists>fl lines fl' lines'. push_rows_internal sample_rows (flat_new 3 None) = Some fl \<and> length lines = 2 \<and>
     flat_rep fl 0 lines \<and> flat_set_columns 2 fl = Some fl' \<and> flat_rep fl' 0 lines' \<and>
     flat_stream lines' = flat_stream lines \<and> fl_columns fl' = 2"
proof -
  obtain fl ls where p: "push_rows_internal sample_rows (flat_new 3 None) = Some fl" "flat_rep fl 0 ([] @ ls)"
      "list_all2 (stores 3) sample_rows ls"
    using push_rows_rep [OF flat_new_rep, of 3 None sample_rows] sample_rows_storable by (auto simp: flat_new_def)
  have "length ls = 2" using list_all2_lengthD [OF p(3)] by (simp add: sample_rows_def)
  moreover have w: "\<forall>g. Some g \<in> set (flat_stream ([] @ ls)) \<longrightarrow> gi_cell_width (gl_info g) \<le> 2"
    using stream_width [OF p(2)] by blast
  ultimately show ?thesis
    using p(1,2) set_columns_keeps_text [OF p(2) _ w] by fastforce
qed

end
